(* ===== verification/Prelude.thy ===== *)
theory Prelude
  imports Main "HOL-Library.Word" "HOL-Library.Monad_Syntax"
begin

text \<open>
  Shared base of the development: the machine types of the 32-bit ARM build, memory objects
  with checked access, little- and big-endian encodings, and the lemma collections the
  component theories use.

  A C object (an array, a buffer, a string in memory) is a list; a pointer into it is an
  offset. \<open>rd\<close> and \<open>wr\<close> are a load and a store: outside the object they give \<open>None\<close>,
  so a model that returns \<open>Some\<close> performed no access outside its objects. The option
  monad (\<open>do\<close> notation) carries that fault through an operation.
\<close>

unbundle bit_operations_syntax

type_synonym byte = "8 word"
type_synonym u16 = "16 word"
type_synonym u32 = "32 word"
type_synonym u64 = "64 word"
type_synonym mem = "byte list"

named_theorems access_simps \<open>loads and stores of memory objects\<close>
named_theorems inv_defs \<open>definitions of component invariants\<close>

section \<open>Loads and stores\<close>

definition rd :: "'a list \<Rightarrow> nat \<Rightarrow> 'a option" where
  "rd m i = (if i < length m then Some (m ! i) else None)"

definition wr :: "'a list \<Rightarrow> nat \<Rightarrow> 'a \<Rightarrow> 'a list option" where
  "wr m i x = (if i < length m then Some (m[i := x]) else None)"

definition rdn :: "'a list \<Rightarrow> nat \<Rightarrow> nat \<Rightarrow> 'a list option" where
  "rdn m i n = (if i + n \<le> length m then Some (take n (drop i m)) else None)"

definition wrn :: "'a list \<Rightarrow> nat \<Rightarrow> 'a list \<Rightarrow> 'a list option" where
  "wrn m i xs =
     (if i + length xs \<le> length m
      then Some (take i m @ xs @ drop (i + length xs) m) else None)"

lemma rd_eq_Some [simp, access_simps]: "rd m i = Some x \<longleftrightarrow> i < length m \<and> m ! i = x"
  by (auto simp: rd_def)

lemma rd_eq_None [simp, access_simps]: "rd m i = None \<longleftrightarrow> length m \<le> i"
  by (auto simp: rd_def)

lemma rd_in [simp, access_simps]: "i < length m \<Longrightarrow> rd m i = Some (m ! i)"
  by (simp add: rd_def)

lemma wr_eq_Some [simp, access_simps]:
  "wr m i x = Some m' \<longleftrightarrow> i < length m \<and> m' = m[i := x]"
  by (auto simp: wr_def)

lemma wr_eq_None [simp, access_simps]: "wr m i x = None \<longleftrightarrow> length m \<le> i"
  by (auto simp: wr_def)

lemma wr_in [simp, access_simps]: "i < length m \<Longrightarrow> wr m i x = Some (m[i := x])"
  by (simp add: wr_def)

lemma rdn_eq_Some [simp, access_simps]:
  "rdn m i n = Some xs \<longleftrightarrow> i + n \<le> length m \<and> xs = take n (drop i m)"
  by (auto simp: rdn_def)

lemma rdn_in [simp, access_simps]: "i + n \<le> length m \<Longrightarrow> rdn m i n = Some (take n (drop i m))"
  by (simp add: rdn_def)

lemma wrn_eq_Some [simp, access_simps]:
  "wrn m i xs = Some m' \<longleftrightarrow>
     i + length xs \<le> length m \<and> m' = take i m @ xs @ drop (i + length xs) m"
  by (auto simp: wrn_def)

lemma wrn_in [simp, access_simps]:
  "i + length xs \<le> length m \<Longrightarrow> wrn m i xs = Some (take i m @ xs @ drop (i + length xs) m)"
  by (simp add: wrn_def)

lemma wrn_length: "wrn m i xs = Some m' \<Longrightarrow> length m' = length m"
  by auto

lemma wrn_nth:
  assumes "wrn m i xs = Some m'" and "k < length m"
  shows "m' ! k = (if i \<le> k \<and> k < i + length xs then xs ! (k - i) else m ! k)"
proof -
  from assms have m': "m' = take i m @ xs @ drop (i + length xs) m"
    and le: "i + length xs \<le> length m" by auto
  have len: "length (take i m) = i" using le by simp
  show ?thesis
  proof (cases "k < i")
    case True
    then show ?thesis using m' len by (simp add: nth_append)
  next
    case False
    then show ?thesis using m' len assms(2) by (auto simp: nth_append)
  qed
qed

text \<open>Storing nothing, and storing two adjacent pieces, as one store.\<close>

lemma wrn_Nil [simp]: "wrn m i [] = (if i \<le> length m then Some m else None)"
  by (simp add: wrn_def)

lemma take_drop_split: "take (a + b) xs = take a xs @ take b (drop a xs)"
  by (simp add: take_add)

section \<open>Byte order\<close>

lemma byte_bit_less: "bit (x :: byte) n \<Longrightarrow> n < 8"
  using bit_imp_le_length [of x n] by simp

lemma no_high_bit: "8 \<le> n \<Longrightarrow> \<not> bit (x :: byte) n"
  by (auto dest: byte_bit_less)

definition put_le32 :: "u32 \<Rightarrow> byte list" where
  "put_le32 w = [ucast w, ucast (drop_bit 8 w), ucast (drop_bit 16 w), ucast (drop_bit 24 w)]"

definition put_be32 :: "u32 \<Rightarrow> byte list" where
  "put_be32 w = [ucast (drop_bit 24 w), ucast (drop_bit 16 w), ucast (drop_bit 8 w), ucast w]"

definition get_le32 :: "byte list \<Rightarrow> u32" where
  "get_le32 bs =
     ucast (bs ! 0) OR push_bit 8 (ucast (bs ! 1)) OR push_bit 16 (ucast (bs ! 2))
       OR push_bit 24 (ucast (bs ! 3))"

definition get_be32 :: "byte list \<Rightarrow> u32" where
  "get_be32 bs =
     push_bit 24 (ucast (bs ! 0)) OR push_bit 16 (ucast (bs ! 1)) OR push_bit 8 (ucast (bs ! 2))
       OR ucast (bs ! 3)"

definition get_le16 :: "byte list \<Rightarrow> u16" where
  "get_le16 bs = ucast (bs ! 0) OR push_bit 8 (ucast (bs ! 1))"

lemma length_put [simp]: "length (put_le32 w) = 4" "length (put_be32 w) = 4"
  by (simp_all add: put_le32_def put_be32_def)

lemma get_put_le32 [simp]: "get_le32 (put_le32 w) = w"
proof (rule bit_word_eqI)
  fix n
  assume "n < LENGTH(32)"
  then consider "n < 8" | "8 \<le> n" "n < 16" | "16 \<le> n" "n < 24" | "24 \<le> n" "n < 32"
    by fastforce
  then show "bit (get_le32 (put_le32 w)) n = bit w n"
    by cases (auto simp: get_le32_def put_le32_def bit_simps)
qed

lemma get_put_be32 [simp]: "get_be32 (put_be32 w) = w"
proof -
  have "get_be32 [d, c, b, a] = get_le32 [a, b, c, d]" for a b c d
    by (simp add: get_be32_def get_le32_def ac_simps)
  moreover have "put_be32 w = rev (put_le32 w)"
    by (simp add: put_be32_def put_le32_def)
  ultimately show ?thesis
    using get_put_le32 [of w] by (simp add: put_le32_def)
qed

section \<open>Iteration\<close>

text \<open>
  A counted C loop whose body may fault: \<open>for (i = lo; i < hi; i++) s = body(i, s)\<close>.
\<close>

fun foreach :: "nat list \<Rightarrow> (nat \<Rightarrow> 's \<Rightarrow> 's option) \<Rightarrow> 's \<Rightarrow> 's option" where
  "foreach [] f s = Some s"
| "foreach (i # is) f s = (case f i s of None \<Rightarrow> None | Some s' \<Rightarrow> foreach is f s')"

lemma foreach_append:
  "foreach (is @ js) f s = (case foreach is f s of None \<Rightarrow> None | Some s' \<Rightarrow> foreach js f s')"
  by (induction "is" arbitrary: s) (auto split: option.splits)

lemma foreach_inv:
  assumes "foreach is f s = Some s'" and "P s"
    and "\<And>i s s'. i \<in> set is \<Longrightarrow> P s \<Longrightarrow> f i s = Some s' \<Longrightarrow> P s'"
  shows "P s'"
  using assms
proof (induction "is" arbitrary: s)
  case Nil
  then show ?case by simp
next
  case (Cons i "is")
  then obtain t where t: "f i s = Some t" "foreach is f t = Some s'"
    by (auto split: option.splits)
  with Cons.prems have "P t" by auto
  from Cons.IH [OF t(2) this] Cons.prems(3) show ?case by auto
qed

end
