(* ===== verification/Lmb.thy ===== *)
theory Lmb
  imports Prelude
begin

text \<open>
  The logical memory block manager of \<^verbatim>\<open>lib_generic/lmb.c\<close>: two tables of at most
  \<open>MAX_LMB_REGIONS\<close> address ranges (available memory and reserved memory), with insertion and
  coalescing, removal and splitting, overlap queries and top-down allocation. Addresses, sizes and
  the table count are 32-bit words (\<^verbatim>\<open>phys_addr_t\<close>, \<^verbatim>\<open>phys_size_t\<close>,
  \<^verbatim>\<open>unsigned long\<close> on ARM); table accesses are checked, so an access past the array is
  \<open>None\<close>.
\<close>

section \<open>Data\<close>

definition MAX_LMB_REGIONS :: nat where
  "MAX_LMB_REGIONS = 8"

record lmb_property =
  lp_base :: u32
  lp_size :: u32

record lmb_region =
  cnt :: u32
  rgn_size :: u32
  region :: "lmb_property list"

record lmb =
  memory :: lmb_region
  reserved :: lmb_region

definition mk_prop :: "u32 \<Rightarrow> u32 \<Rightarrow> lmb_property" where
  "mk_prop b s = \<lparr>lp_base = b, lp_size = s\<rparr>"

lemma mk_prop_simps [simp]: "lp_base (mk_prop b s) = b" "lp_size (mk_prop b s) = s"
  by (simp_all add: mk_prop_def)

section \<open>Operations\<close>

definition lmb_addrs_overlap :: "u32 \<Rightarrow> u32 \<Rightarrow> u32 \<Rightarrow> u32 \<Rightarrow> bool" where
  "lmb_addrs_overlap base1 size1 base2 size2 \<longleftrightarrow>
     base1 < base2 + size2 \<and> base2 < base1 + size1"

definition lmb_addrs_adjacent :: "u32 \<Rightarrow> u32 \<Rightarrow> u32 \<Rightarrow> u32 \<Rightarrow> int" where
  "lmb_addrs_adjacent base1 size1 base2 size2 =
     (if base2 = base1 + size1 then 1 else if base1 = base2 + size2 then - 1 else 0)"

definition lmb_regions_adjacent :: "lmb_region \<Rightarrow> nat \<Rightarrow> nat \<Rightarrow> int option" where
  "lmb_regions_adjacent rgn r1 r2 = do {
     p1 \<leftarrow> rd (region rgn) r1;
     p2 \<leftarrow> rd (region rgn) r2;
     Some (lmb_addrs_adjacent (lp_base p1) (lp_size p1) (lp_base p2) (lp_size p2))
   }"

text \<open>The shifting loop of \<open>lmb_remove_region\<close>; the bound \<open>rgn->cnt - 1\<close> is an unsigned word.\<close>

function lmb_remove_shift :: "lmb_region \<Rightarrow> nat \<Rightarrow> lmb_region option" where
  "lmb_remove_shift rgn i =
     (if i < unat (cnt rgn - 1)
      then (case rd (region rgn) (i + 1) of
              None \<Rightarrow> None
            | Some p \<Rightarrow> lmb_remove_shift (rgn\<lparr>region := (region rgn)[i := p]\<rparr>) (i + 1))
      else Some rgn)"
  by pat_completeness auto
termination
  by (relation "measure (\<lambda>(rgn, i). length (region rgn) - i)") auto

declare lmb_remove_shift.simps [simp del]

definition lmb_remove_region :: "lmb_region \<Rightarrow> nat \<Rightarrow> lmb_region option" where
  "lmb_remove_region rgn r = do {
     rgn \<leftarrow> lmb_remove_shift rgn r;
     Some (rgn\<lparr>cnt := cnt rgn - 1\<rparr>)
   }"

definition lmb_coalesce_regions :: "lmb_region \<Rightarrow> nat \<Rightarrow> nat \<Rightarrow> lmb_region option" where
  "lmb_coalesce_regions rgn r1 r2 = do {
     p1 \<leftarrow> rd (region rgn) r1;
     p2 \<leftarrow> rd (region rgn) r2;
     ps \<leftarrow> wr (region rgn) r1 (p1\<lparr>lp_size := lp_size p1 + lp_size p2\<rparr>);
     lmb_remove_region (rgn\<lparr>region := ps\<rparr>) r2
   }"

definition lmb_init :: "lmb \<Rightarrow> lmb option" where
  "lmb_init l = do {
     ms \<leftarrow> wr (region (memory l)) 0 (mk_prop 0 0);
     rs \<leftarrow> wr (region (reserved l)) 0 (mk_prop 0 0);
     Some \<lparr>memory = \<lparr>cnt = 1, rgn_size = 0, region = ms\<rparr>,
           reserved = \<lparr>cnt = 1, rgn_size = 0, region = rs\<rparr>\<rparr>
   }"

text \<open>
  The first loop of \<open>lmb_add_region\<close>: it stops at an identical region (the call returns 0), at a
  region it has just extended (index and updated table), or runs off the end.
\<close>

datatype scan_result = SameRegion | Extended nat lmb_region | NoneAdjacent nat

function lmb_add_scan :: "lmb_region \<Rightarrow> u32 \<Rightarrow> u32 \<Rightarrow> nat \<Rightarrow> scan_result option" where
  "lmb_add_scan rgn base sz i =
     (if i < unat (cnt rgn)
      then (case rd (region rgn) i of
              None \<Rightarrow> None
            | Some p \<Rightarrow>
                (if lp_base p = base \<and> lp_size p = sz then Some SameRegion
                 else let adjacent = lmb_addrs_adjacent base sz (lp_base p) (lp_size p) in
                   if adjacent > 0
                   then Some (Extended i (rgn\<lparr>region := (region rgn)[i :=
                          mk_prop (lp_base p - sz) (lp_size p + sz)]\<rparr>))
                   else if adjacent < 0
                   then Some (Extended i (rgn\<lparr>region := (region rgn)[i :=
                          mk_prop (lp_base p) (lp_size p + sz)]\<rparr>))
                   else lmb_add_scan rgn base sz (i + 1)))
      else Some (NoneAdjacent i))"
  by pat_completeness auto
termination
  by (relation "measure (\<lambda>(rgn, base, sz, i). length (region rgn) - i)") auto

declare lmb_add_scan.simps [simp del]

text \<open>The insertion loop, from index \<open>n - 1\<close> down to 0.\<close>

primrec lmb_insert_shift ::
  "nat \<Rightarrow> lmb_property list \<Rightarrow> u32 \<Rightarrow> u32 \<Rightarrow> lmb_property list option" where
  "lmb_insert_shift 0 ps base sz = Some ps"
| "lmb_insert_shift (Suc i) ps base sz =
     (case rd ps i of
        None \<Rightarrow> None
      | Some p \<Rightarrow>
          (if base < lp_base p
           then (case wr ps (i + 1) p of
                   None \<Rightarrow> None
                 | Some ps' \<Rightarrow> lmb_insert_shift i ps' base sz)
           else wr ps (i + 1) (mk_prop base sz)))"

definition lmb_add_region :: "lmb_region \<Rightarrow> u32 \<Rightarrow> u32 \<Rightarrow> (lmb_region \<times> int) option" where
  "lmb_add_region rgn base sz = do {
     dummy \<leftarrow> (if cnt rgn = 1
              then map_option (\<lambda>p. lp_size p = 0) (rd (region rgn) 0) else Some False);
     if dummy
     then map_option (\<lambda>ps. (rgn\<lparr>region := ps\<rparr>, 0)) (wr (region rgn) 0 (mk_prop base sz))
     else do {
       r \<leftarrow> lmb_add_scan rgn base sz 0;
       (case r of
          SameRegion \<Rightarrow> Some (rgn, 0)
        | _ \<Rightarrow> do {
            (i, rgn, coalesced) \<leftarrow> (case r of Extended i rgn' \<Rightarrow> Some (i, rgn', 1)
              | NoneAdjacent i \<Rightarrow> Some (i, rgn, 0) | SameRegion \<Rightarrow> None);
            adj \<leftarrow> (if i < unat (cnt rgn - 1) then lmb_regions_adjacent rgn i (i + 1)
                   else Some 0);
            (rgn, coalesced) \<leftarrow>
              (if adj \<noteq> 0
               then map_option (\<lambda>rgn. (rgn, coalesced + 1)) (lmb_coalesce_regions rgn i (i + 1))
               else Some (rgn, coalesced));
            if coalesced \<noteq> 0 then Some (rgn, coalesced)
            else if MAX_LMB_REGIONS \<le> unat (cnt rgn) then Some (rgn, - 1)
            else do {
              ps \<leftarrow> lmb_insert_shift (unat (cnt rgn)) (region rgn) base sz;
              p0 \<leftarrow> rd ps 0;
              ps \<leftarrow> (if base < lp_base p0 then wr ps 0 (mk_prop base sz) else Some ps);
              Some (rgn\<lparr>region := ps, cnt := cnt rgn + 1\<rparr>, 0)
            }
          })
     }
   }"

definition lmb_add :: "lmb \<Rightarrow> u32 \<Rightarrow> u32 \<Rightarrow> (lmb \<times> int) option" where
  "lmb_add l base sz =
     map_option (\<lambda>(rgn, r). (l\<lparr>memory := rgn\<rparr>, r)) (lmb_add_region (memory l) base sz)"

definition lmb_reserve :: "lmb \<Rightarrow> u32 \<Rightarrow> u32 \<Rightarrow> (lmb \<times> int) option" where
  "lmb_reserve l base sz =
     map_option (\<lambda>(rgn, r). (l\<lparr>reserved := rgn\<rparr>, r)) (lmb_add_region (reserved l) base sz)"

text \<open>The search loops of \<open>lmb_free\<close>, \<open>lmb_overlaps_region\<close> and \<open>lmb_is_reserved\<close>.\<close>

function lmb_find :: "(lmb_property \<Rightarrow> bool) \<Rightarrow> lmb_region \<Rightarrow> nat \<Rightarrow> nat option" where
  "lmb_find P rgn i =
     (if i < unat (cnt rgn)
      then (case rd (region rgn) i of
              None \<Rightarrow> None
            | Some p \<Rightarrow> if P p then Some i else lmb_find P rgn (i + 1))
      else Some i)"
  by pat_completeness auto
termination
  by (relation "measure (\<lambda>(P, rgn, i). length (region rgn) - i)") auto

declare lmb_find.simps [simp del]

definition lmb_free :: "lmb \<Rightarrow> u32 \<Rightarrow> u32 \<Rightarrow> (lmb \<times> int) option" where
  "lmb_free l base sz = (let rgn = reserved l; end = base + sz in do {
     i \<leftarrow> lmb_find (\<lambda>p. lp_base p \<le> base \<and> end \<le> lp_base p + lp_size p) rgn 0;
     if i = unat (cnt rgn) then Some (l, - 1)
     else do {
       p \<leftarrow> rd (region rgn) i;
       let rgnbegin = lp_base p;
       let rgnend = rgnbegin + lp_size p;
       if rgnbegin = base \<and> rgnend = end
       then map_option (\<lambda>rgn. (l\<lparr>reserved := rgn\<rparr>, 0)) (lmb_remove_region rgn i)
       else if rgnbegin = base
       then Some (l\<lparr>reserved := rgn\<lparr>region :=
              (region rgn)[i := mk_prop end (lp_size p - sz)]\<rparr>\<rparr>, 0)
       else if rgnend = end
       then Some (l\<lparr>reserved := rgn\<lparr>region :=
              (region rgn)[i := mk_prop rgnbegin (lp_size p - sz)]\<rparr>\<rparr>, 0)
       else map_option (\<lambda>(rgn, r). (l\<lparr>reserved := rgn\<rparr>, r))
              (lmb_add_region (rgn\<lparr>region :=
                 (region rgn)[i := mk_prop rgnbegin (base - rgnbegin)]\<rparr>) end (rgnend - end))
     }
   })"

definition lmb_overlaps_region :: "lmb_region \<Rightarrow> u32 \<Rightarrow> u32 \<Rightarrow> int option" where
  "lmb_overlaps_region rgn base sz = do {
     i \<leftarrow> lmb_find (\<lambda>p. lmb_addrs_overlap base sz (lp_base p) (lp_size p)) rgn 0;
     Some (if i < unat (cnt rgn) then int i else - 1)
   }"

definition lmb_is_reserved :: "lmb \<Rightarrow> u32 \<Rightarrow> int option" where
  "lmb_is_reserved l addr = do {
     i \<leftarrow> lmb_find (\<lambda>p. lp_base p \<le> addr \<and> addr \<le> lp_base p + lp_size p - 1) (reserved l) 0;
     Some (if i < unat (cnt (reserved l)) then 1 else 0)
   }"

definition lmb_align_down :: "u32 \<Rightarrow> u32 \<Rightarrow> u32" where
  "lmb_align_down addr sz = addr AND NOT (sz - 1)"

definition lmb_align_up :: "u32 \<Rightarrow> u32 \<Rightarrow> u32" where
  "lmb_align_up addr sz = (addr + (sz - 1)) AND NOT (sz - 1)"

section \<open>Searching\<close>

lemma lmb_find_spec:
  assumes "unat (cnt rgn) \<le> length (region rgn)" and "i \<le> unat (cnt rgn)"
  shows "\<exists>j. lmb_find P rgn i = Some j \<and> i \<le> j \<and> j \<le> unat (cnt rgn) \<and>
    (\<forall>k. i \<le> k \<and> k < j \<longrightarrow> \<not> P (region rgn ! k)) \<and>
    (j < unat (cnt rgn) \<longrightarrow> P (region rgn ! j))"
  using assms
proof (induction P rgn i rule: lmb_find.induct)
  case (1 P rgn i)
  show ?case
  proof (cases "i < unat (cnt rgn)")
    case False
    then have "lmb_find P rgn i = Some i" by (subst lmb_find.simps) simp
    with False "1.prems" show ?thesis by auto
  next
    case True
    with 1 have p: "rd (region rgn) i = Some (region rgn ! i)" by simp
    show ?thesis
    proof (cases "P (region rgn ! i)")
      case True
      with \<open>i < unat (cnt rgn)\<close> p 1 show ?thesis
        by (auto simp: lmb_find.simps [of P rgn i])
    next
      case False
      with \<open>i < unat (cnt rgn)\<close> p "1.IH" "1.prems" obtain j where
        "lmb_find P rgn (i + 1) = Some j" "i + 1 \<le> j" "j \<le> unat (cnt rgn)"
        "\<forall>k. i + 1 \<le> k \<and> k < j \<longrightarrow> \<not> P (region rgn ! k)"
        "j < unat (cnt rgn) \<longrightarrow> P (region rgn ! j)"
        by auto
      moreover have "\<not> P (region rgn ! k)" if "i \<le> k" "k < j" for k
        using that False calculation(4) by (cases "k = i") auto
      moreover have "lmb_find P rgn i = lmb_find P rgn (i + 1)"
        using False p \<open>i < unat (cnt rgn)\<close> by (subst lmb_find.simps) simp
      ultimately show ?thesis by auto
    qed
  qed
qed

text \<open>What a successful search says, with no assumption on the table.\<close>

lemma lmb_find_hit:
  "lmb_find P rgn i = Some j \<Longrightarrow> j < unat (cnt rgn) \<Longrightarrow>
     j < length (region rgn) \<and> P (region rgn ! j)"
proof (induction P rgn i rule: lmb_find.induct)
  case (1 P rgn i)
  then show ?case
    by (auto simp: lmb_find.simps [of P rgn i] split: option.splits if_splits)
qed

section \<open>Allocation\<close>

lemma overlap_below:
  assumes "lmb_addrs_overlap base sz b s" and "sz \<le> b"
  shows "lmb_align_down (b - sz) align < base"
proof -
  have b: "b < base + sz" using assms(1) by (simp add: lmb_addrs_overlap_def)
  have d: "unat (b - sz) = unat b - unat sz" using assms(2) by (rule unat_sub)
  have le: "unat sz \<le> unat b" using assms(2) by (simp add: word_le_nat_alt)
  have "unat (base + sz) \<le> unat base + unat sz"
    by (simp add: unat_word_ariths(1))
  then have "unat b < unat base + unat sz"
    using b by (simp add: word_less_nat_alt)
  then have "unat (b - sz) < unat base" using d le by simp
  then have "b - sz < base" by (simp add: word_less_nat_alt)
  moreover have "lmb_align_down (b - sz) align \<le> b - sz"
    by (simp add: lmb_align_down_def word_and_le2)
  ultimately show ?thesis by (rule le_less_trans [rotated])
qed

datatype try_result = Allocated lmb u32 | AddFailed lmb | Exhausted

text \<open>
  The inner loop of \<open>__lmb_alloc_base\<close> for one memory region: step down below each reserved
  region in the way. It ends because the candidate address strictly decreases, whatever the table
  holds and even where \<open>base + size\<close> wraps.
\<close>

function lmb_alloc_try :: "lmb \<Rightarrow> u32 \<Rightarrow> u32 \<Rightarrow> u32 \<Rightarrow> u32 \<Rightarrow> try_result option" where
  "lmb_alloc_try l lmbbase sz align base =
     (if base \<noteq> 0 \<and> lmbbase \<le> base
      then (case lmb_overlaps_region (reserved l) base sz of
              None \<Rightarrow> None
            | Some j \<Rightarrow>
                (if j < 0
                 then (case lmb_add_region (reserved l) base (lmb_align_up sz align) of
                         None \<Rightarrow> None
                       | Some (rgn, r) \<Rightarrow>
                           (if r < 0 then Some (AddFailed (l\<lparr>reserved := rgn\<rparr>))
                            else Some (Allocated (l\<lparr>reserved := rgn\<rparr>) base)))
                 else (case rd (region (reserved l)) (nat j) of
                         None \<Rightarrow> None
                       | Some p \<Rightarrow>
                           (if lp_base p < sz then Some Exhausted
                            else lmb_alloc_try l lmbbase sz align
                                   (lmb_align_down (lp_base p - sz) align)))))
      else Some Exhausted)"
  by pat_completeness auto
termination
proof (relation "measure (\<lambda>(l, lmbbase, sz, align, base). unat base)", goal_cases)
  case 1
  show ?case by simp
next
  case (2 l lmbbase sz align base j p)
  then obtain i where i: "lmb_find (\<lambda>p. lmb_addrs_overlap base sz (lp_base p) (lp_size p))
      (reserved l) 0 = Some i" "j = (if i < unat (cnt (reserved l)) then int i else - 1)"
    by (auto simp: lmb_overlaps_region_def bind_eq_Some_conv)
  with 2 have j: "j = int i" "i < unat (cnt (reserved l))" by (auto split: if_splits)
  with lmb_find_hit [OF i(1)] 2 have "lmb_addrs_overlap base sz (lp_base p) (lp_size p)"
    by auto
  with 2 show ?case by (simp add: overlap_below word_less_nat_alt [symmetric])
qed

declare lmb_alloc_try.simps [simp del]

text \<open>The outer loop, over the memory regions from index \<open>n - 1\<close> down to 0.\<close>

primrec lmb_alloc_from :: "nat \<Rightarrow> lmb \<Rightarrow> u32 \<Rightarrow> u32 \<Rightarrow> u32 \<Rightarrow> (lmb \<times> u32) option" where
  "lmb_alloc_from 0 l sz align max_addr = Some (l, 0)"
| "lmb_alloc_from (Suc i) l sz align max_addr =
     (case rd (region (memory l)) i of
        None \<Rightarrow> None
      | Some p \<Rightarrow>
          (if lp_size p < sz \<or> (max_addr \<noteq> 0 \<and> max_addr \<le> lp_base p)
           then lmb_alloc_from i l sz align max_addr
           else let base = (if max_addr = 0
                  then lmb_align_down (lp_base p + lp_size p - sz) align
                  else lmb_align_down (min (lp_base p + lp_size p) max_addr - sz) align)
             in (case lmb_alloc_try l (lp_base p) sz align base of
                   None \<Rightarrow> None
                 | Some (Allocated l' b) \<Rightarrow> Some (l', b)
                 | Some (AddFailed l') \<Rightarrow> Some (l', 0)
                 | Some Exhausted \<Rightarrow> lmb_alloc_from i l sz align max_addr)))"

definition lmb_alloc_base_raw :: "lmb \<Rightarrow> u32 \<Rightarrow> u32 \<Rightarrow> u32 \<Rightarrow> (lmb \<times> u32) option" where
  "lmb_alloc_base_raw l sz align max_addr =
     lmb_alloc_from (unat (cnt (memory l))) l sz align max_addr"

text \<open>\<open>lmb_alloc_base\<close> adds only an error message to \<open>__lmb_alloc_base\<close>.\<close>

definition lmb_alloc_base :: "lmb \<Rightarrow> u32 \<Rightarrow> u32 \<Rightarrow> u32 \<Rightarrow> (lmb \<times> u32) option" where
  "lmb_alloc_base l sz align max_addr = lmb_alloc_base_raw l sz align max_addr"

definition lmb_alloc :: "lmb \<Rightarrow> u32 \<Rightarrow> u32 \<Rightarrow> (lmb \<times> u32) option" where
  "lmb_alloc l sz align = lmb_alloc_base l sz align 0"

end
