(* ===== verification/LmbCorrect.thy ===== *)
theory LmbCorrect
  imports Lmb
begin

text \<open>
  Correctness of the logical memory block tables. A table is abstracted to the set of addresses
  its active entries cover; the invariant says that the active entries are sorted, separated and do
  not wrap. Insertion, removal, queries and allocation are related to set operations.
\<close>

section \<open>Abstraction and invariant\<close>

definition pbase :: "lmb_property \<Rightarrow> nat" where
  "pbase p = unat (lp_base p)"

definition pend :: "lmb_property \<Rightarrow> nat" where
  "pend p = unat (lp_base p) + unat (lp_size p)"

definition active :: "lmb_region \<Rightarrow> lmb_property list" where
  "active rgn = take (unat (cnt rgn)) (region rgn)"

definition okp :: "lmb_property \<Rightarrow> bool" where
  "okp p \<longleftrightarrow> 0 < unat (lp_size p) \<and> pend p < 2 ^ 32"

definition sep :: "lmb_property list \<Rightarrow> bool" where
  "sep ps \<longleftrightarrow> sorted_wrt (\<lambda>p q. pend p < pbase q) ps \<and> (\<forall>p \<in> set ps. okp p)"

definition empty_rgn :: "lmb_region \<Rightarrow> bool" where
  "empty_rgn rgn \<longleftrightarrow> length (region rgn) = MAX_LMB_REGIONS + 1 \<and> cnt rgn = 1 \<and>
     region rgn ! 0 = mk_prop 0 0"

definition wf_rgn :: "lmb_region \<Rightarrow> bool" where
  "wf_rgn rgn \<longleftrightarrow> length (region rgn) = MAX_LMB_REGIONS + 1 \<and> 1 \<le> unat (cnt rgn) \<and>
     unat (cnt rgn) \<le> MAX_LMB_REGIONS \<and> sep (active rgn)"

definition rgn_inv :: "lmb_region \<Rightarrow> bool" where
  "rgn_inv rgn \<longleftrightarrow> empty_rgn rgn \<or> wf_rgn rgn"

definition prange :: "lmb_property \<Rightarrow> nat set" where
  "prange p = {pbase p..<pend p}"

definition rgn_addrs :: "lmb_region \<Rightarrow> nat set" where
  "rgn_addrs rgn = (\<Union>p \<in> set (active rgn). prange p)"

lemmas rgn_defs [inv_defs] = rgn_inv_def empty_rgn_def wf_rgn_def MAX_LMB_REGIONS_def
lemmas prop_defs [inv_defs] = pbase_def pend_def prange_def okp_def

lemma pbase_le_pend: "pbase p \<le> pend p"
  by (simp add: pbase_def pend_def)

lemma okp_less: "okp p \<Longrightarrow> pbase p < pend p"
  by (simp add: inv_defs)

lemma unat_add_nowrap: "unat (a :: u32) + unat b < 2 ^ 32 \<Longrightarrow> unat (a + b) = unat a + unat b"
  using unat_add_lem [of a b] by simp

lemma pend_word: "okp p \<Longrightarrow> unat (lp_base p + lp_size p) = pend p"
  by (simp add: inv_defs unat_add_nowrap)

lemma sep_append:
  "sep (xs @ ys) \<longleftrightarrow> sep xs \<and> sep ys \<and> (\<forall>x \<in> set xs. \<forall>y \<in> set ys. pend x < pbase y)"
  by (auto simp: sep_def sorted_wrt_append)

lemma sep_Cons:
  "sep (p # ps) \<longleftrightarrow> okp p \<and> sep ps \<and> (\<forall>q \<in> set ps. pend p < pbase q)"
  by (auto simp: sep_def)

lemma sep_Nil [simp]: "sep []"
  by (simp add: sep_def)

lemma active_nth: "i < unat (cnt rgn) \<Longrightarrow> active rgn ! i = region rgn ! i"
  by (simp add: active_def)

lemma length_active: "wf_rgn rgn \<Longrightarrow> length (active rgn) = unat (cnt rgn)"
  by (simp add: active_def inv_defs)

lemma active_split:
  assumes "wf_rgn rgn" and "i < unat (cnt rgn)"
  shows "active rgn = take i (active rgn) @ region rgn ! i # drop (i + 1) (active rgn)"
  using assms id_take_nth_drop [of i "active rgn"] by (simp add: length_active active_nth)

lemma empty_addrs: "empty_rgn rgn \<Longrightarrow> rgn_addrs rgn = {}"
  by (auto simp: rgn_addrs_def active_def empty_rgn_def take_Suc_conv_app_nth prange_def
      pbase_def pend_def MAX_LMB_REGIONS_def)

text \<open>\<open>lmb_init\<close> establishes the invariant.\<close>

lemma lmb_init_inv:
  assumes "length (region (memory l)) = 9" and "length (region (reserved l)) = 9"
  shows "\<exists>l'. lmb_init l = Some l' \<and> empty_rgn (memory l') \<and> empty_rgn (reserved l')"
  using assms by (simp add: lmb_init_def empty_rgn_def MAX_LMB_REGIONS_def)

section \<open>Overlap and adjacency over the naturals\<close>

lemma overlap_iff:
  assumes "okp p" and "unat b + unat s < 2 ^ 32"
  shows "lmb_addrs_overlap b s (lp_base p) (lp_size p) \<longleftrightarrow>
    unat b < pend p \<and> pbase p < unat b + unat s"
  using assms
  by (simp add: lmb_addrs_overlap_def word_less_nat_alt pend_word unat_add_nowrap pbase_def)

lemma overlap_range:
  assumes "okp p" and "unat b + unat s < 2 ^ 32" and "0 < unat s"
  shows "lmb_addrs_overlap b s (lp_base p) (lp_size p) \<longleftrightarrow>
    prange p \<inter> {unat b..<unat b + unat s} \<noteq> {}"
proof -
  have "pbase p < pend p" using assms(1) by (rule okp_less)
  then have "(unat b < pend p \<and> pbase p < unat b + unat s) \<longleftrightarrow>
      max (pbase p) (unat b) < min (pend p) (unat b + unat s)"
    using assms(3) by auto
  then show ?thesis
    using assms by (auto simp: overlap_iff prange_def)
qed

lemma adjacent_iff:
  assumes "okp p" and "unat b + unat s < 2 ^ 32" and "0 < unat s"
  shows "lmb_addrs_adjacent b s (lp_base p) (lp_size p) =
    (if pbase p = unat b + unat s then 1 else if unat b = pend p then - 1 else 0)"
proof -
  have "lp_base p = b + s \<longleftrightarrow> pbase p = unat b + unat s"
    using assms(2) by (metis pbase_def unat_add_nowrap word_unat_eq_iff)
  moreover have "b = lp_base p + lp_size p \<longleftrightarrow> unat b = pend p"
    using assms(1) by (metis pend_word word_unat_eq_iff)
  ultimately show ?thesis by (simp add: lmb_addrs_adjacent_def)
qed

section \<open>Removing an entry\<close>

lemma remove_shift_spec:
  assumes "unat (cnt rgn - 1) < length (region rgn)"
  shows "\<exists>ps. lmb_remove_shift rgn i = Some (rgn\<lparr>region := ps\<rparr>) \<and>
    length ps = length (region rgn) \<and>
    (\<forall>k < length ps. ps ! k =
       (if i \<le> k \<and> k < unat (cnt rgn - 1) then region rgn ! (k + 1) else region rgn ! k))"
  using assms
proof (induction rgn i rule: lmb_remove_shift.induct)
  case (1 rgn i)
  show ?case
  proof (cases "i < unat (cnt rgn - 1)")
    case False
    then have "lmb_remove_shift rgn i = Some rgn" by (subst lmb_remove_shift.simps) simp
    with False show ?thesis by (intro exI [of _ "region rgn"]) auto
  next
    case True
    let ?rgn = "rgn\<lparr>region := (region rgn)[i := region rgn ! (i + 1)]\<rparr>"
    from True "1.prems" have p: "rd (region rgn) (i + 1) = Some (region rgn ! (i + 1))"
      by simp
    with True have eq: "lmb_remove_shift rgn i = lmb_remove_shift ?rgn (i + 1)"
      by (subst lmb_remove_shift.simps) simp
    from "1.IH" [OF True p] "1.prems" obtain ps where
      ps: "lmb_remove_shift ?rgn (i + 1) = Some (?rgn\<lparr>region := ps\<rparr>)"
      "length ps = length (region rgn)"
      "\<forall>k < length ps. ps ! k = (if i + 1 \<le> k \<and> k < unat (cnt rgn - 1)
         then region ?rgn ! (k + 1) else region ?rgn ! k)"
      by auto
    have "ps ! k = (if i \<le> k \<and> k < unat (cnt rgn - 1)
        then region rgn ! (k + 1) else region rgn ! k)" if "k < length ps" for k
      using that ps(2,3) True "1.prems" by (cases "k = i") auto
    then show ?thesis
      using eq ps(1,2) by (intro exI [of _ ps] conjI) simp_all
  qed
qed

lemma unat_minus_one': "1 \<le> unat (c :: u32) \<Longrightarrow> unat (c - 1) = unat c - 1"
  by (metis unat_1 unat_sub word_le_nat_alt)

lemma remove_region_spec:
  assumes "1 \<le> unat (cnt rgn)" and "unat (cnt rgn) \<le> length (region rgn)"
    and "i < unat (cnt rgn)"
  shows "\<exists>rgn'. lmb_remove_region rgn i = Some rgn' \<and>
    length (region rgn') = length (region rgn) \<and> unat (cnt rgn') = unat (cnt rgn) - 1 \<and>
    active rgn' = take i (active rgn) @ drop (i + 1) (active rgn)"
proof -
  let ?n = "unat (cnt rgn) - 1"
  have n: "unat (cnt rgn - 1) = ?n" using assms(1) by (rule unat_minus_one')
  have "unat (cnt rgn - 1) < length (region rgn)" using n assms by linarith
  from remove_shift_spec [OF this, of i] n obtain ps where
    ps: "lmb_remove_shift rgn i = Some (rgn\<lparr>region := ps\<rparr>)"
    "length ps = length (region rgn)"
    "\<forall>k < length ps. ps ! k =
       (if i \<le> k \<and> k < ?n then region rgn ! (k + 1) else region rgn ! k)"
    by auto
  let ?rgn' = "rgn\<lparr>region := ps, cnt := cnt rgn - 1\<rparr>"
  have "active ?rgn' = take i (active rgn) @ drop (i + 1) (active rgn)"
  proof (rule nth_equalityI)
    show "length (active ?rgn') = length (take i (active rgn) @ drop (i + 1) (active rgn))"
      using ps(2) n assms by (simp add: active_def)
  next
    fix k
    assume "k < length (active ?rgn')"
    then have k: "k < ?n" using ps(2) n assms by (simp add: active_def)
    then show "active ?rgn' ! k = (take i (active rgn) @ drop (i + 1) (active rgn)) ! k"
      using ps n assms by (auto simp: active_def nth_append min_def)
  qed
  with ps n show ?thesis by (auto simp: lmb_remove_region_def)
qed

section \<open>Coalescing two entries\<close>

lemma coalesce_spec:
  assumes "unat (cnt rgn) \<le> length (region rgn)" and "i + 1 < unat (cnt rgn)"
  shows "\<exists>rgn'. lmb_coalesce_regions rgn i (i + 1) = Some rgn' \<and>
    length (region rgn') = length (region rgn) \<and> unat (cnt rgn') = unat (cnt rgn) - 1 \<and>
    active rgn' = take i (active rgn) @
      (region rgn ! i)\<lparr>lp_size := lp_size (region rgn ! i) + lp_size (region rgn ! (i + 1))\<rparr> #
      drop (i + 2) (active rgn)"
proof -
  let ?q = "(region rgn ! i)\<lparr>lp_size := lp_size (region rgn ! i) + lp_size (region rgn ! (i + 1))\<rparr>"
  let ?r = "rgn\<lparr>region := (region rgn)[i := ?q]\<rparr>"
  have act: "active ?r = (active rgn)[i := ?q]"
    by (simp add: active_def take_update_swap)
  have len: "length (active rgn) = unat (cnt rgn)"
    using assms(1) by (simp add: active_def)
  obtain rgn' where r: "lmb_remove_region ?r (i + 1) = Some rgn'"
    "length (region rgn') = length (region rgn)" "unat (cnt rgn') = unat (cnt rgn) - 1"
    "active rgn' = take (i + 1) (active ?r) @ drop (i + 2) (active ?r)"
    using remove_region_spec [of ?r "i + 1"] assms by auto
  have "lmb_coalesce_regions rgn i (i + 1) = Some rgn'"
    using r(1) assms by (simp add: lmb_coalesce_regions_def)
  moreover have "active rgn' = take i (active rgn) @ ?q # drop (i + 2) (active rgn)"
    using assms(2) len r(4) [unfolded act] by (simp add: take_Suc_conv_app_nth)
  ultimately show ?thesis using r(2,3) by blast
qed

section \<open>The scan of an insertion\<close>

definition grow :: "lmb_property \<Rightarrow> u32 \<Rightarrow> u32 \<Rightarrow> lmb_property" where
  "grow p b s =
     (if lmb_addrs_adjacent b s (lp_base p) (lp_size p) > 0
      then mk_prop (lp_base p - s) (lp_size p + s) else mk_prop (lp_base p) (lp_size p + s))"

abbreviation adjacent_to :: "lmb_property \<Rightarrow> u32 \<Rightarrow> u32 \<Rightarrow> bool" where
  "adjacent_to p b s \<equiv> lmb_addrs_adjacent b s (lp_base p) (lp_size p) \<noteq> 0"

lemma scan_spec:
  assumes "unat (cnt rgn) \<le> length (region rgn)" and "i \<le> unat (cnt rgn)"
    and "\<forall>k < unat (cnt rgn). region rgn ! k \<noteq> mk_prop b s"
  shows "(\<exists>k. lmb_add_scan rgn b s i =
        Some (Extended k (rgn\<lparr>region := (region rgn)[k := grow (region rgn ! k) b s]\<rparr>)) \<and>
        i \<le> k \<and> k < unat (cnt rgn) \<and> adjacent_to (region rgn ! k) b s \<and>
        (\<forall>j. i \<le> j \<and> j < k \<longrightarrow> \<not> adjacent_to (region rgn ! j) b s)) \<or>
      (lmb_add_scan rgn b s i = Some (NoneAdjacent (unat (cnt rgn))) \<and>
        (\<forall>j. i \<le> j \<and> j < unat (cnt rgn) \<longrightarrow> \<not> adjacent_to (region rgn ! j) b s))"
  using assms
proof (induction rgn b s i rule: lmb_add_scan.induct)
  case (1 rgn b s i)
  let ?p = "region rgn ! i"
  show ?case
  proof (cases "i < unat (cnt rgn)")
    case False
    then have "lmb_add_scan rgn b s i = Some (NoneAdjacent i)"
      by (subst lmb_add_scan.simps) simp
    with False "1.prems" show ?thesis by auto
  next
    case True
    then have ne: "\<not> (lp_base ?p = b \<and> lp_size ?p = s)"
      using "1.prems"(3) by (auto simp: mk_prop_def)
    have rd: "rd (region rgn) i = Some ?p" using True "1.prems"(1) by simp
    show ?thesis
    proof (cases "adjacent_to ?p b s")
      case True
      then have "lmb_add_scan rgn b s i =
          Some (Extended i (rgn\<lparr>region := (region rgn)[i := grow ?p b s]\<rparr>))"
        using rd ne \<open>i < unat (cnt rgn)\<close>
        by (subst lmb_add_scan.simps) (auto simp: grow_def Let_def)
      with True \<open>i < unat (cnt rgn)\<close> show ?thesis
        by (intro disjI1 exI [of _ i]) auto
    next
      case False
      then have eq: "lmb_add_scan rgn b s i = lmb_add_scan rgn b s (i + 1)"
        using rd ne True by (subst lmb_add_scan.simps) (auto simp: Let_def)
      have step: "(\<forall>j. i \<le> j \<and> j < k \<longrightarrow> \<not> adjacent_to (region rgn ! j) b s)"
        if "\<forall>j. i + 1 \<le> j \<and> j < k \<longrightarrow> \<not> adjacent_to (region rgn ! j) b s" for k
        using that False by (metis Suc_eq_plus1 Suc_leI le_neq_implies_less)
      have z: "lmb_addrs_adjacent b s (lp_base ?p) (lp_size ?p) = 0" using False by simp
      have "(\<exists>k. lmb_add_scan rgn b s (i + 1) =
          Some (Extended k (rgn\<lparr>region := (region rgn)[k := grow (region rgn ! k) b s]\<rparr>)) \<and>
          i + 1 \<le> k \<and> k < unat (cnt rgn) \<and> adjacent_to (region rgn ! k) b s \<and>
          (\<forall>j. i + 1 \<le> j \<and> j < k \<longrightarrow> \<not> adjacent_to (region rgn ! j) b s)) \<or>
        (lmb_add_scan rgn b s (i + 1) = Some (NoneAdjacent (unat (cnt rgn))) \<and>
          (\<forall>j. i + 1 \<le> j \<and> j < unat (cnt rgn) \<longrightarrow> \<not> adjacent_to (region rgn ! j) b s))"
        by (rule "1.IH" [OF True rd ne refl]) (use z "1.prems" True in auto)
      with step show ?thesis unfolding eq by (meson add_leD1)
    qed
  qed
qed

section \<open>The insertion loop\<close>

lemma insert_shift_after:
  assumes "xs \<noteq> []" and "lp_base (last xs) \<le> b" and "\<forall>y \<in> set ys. b < lp_base y"
  shows "lmb_insert_shift (length xs + length ys) (xs @ ys @ r # rs) b s =
    Some (xs @ mk_prop b s # ys @ rs)"
  using assms(3)
proof (induction ys arbitrary: r rs rule: rev_induct)
  case Nil
  obtain n where n: "length xs = Suc n" using assms(1) by (cases xs) auto
  with assms(1,2) show ?case
    by (simp add: n nth_append last_conv_nth not_less [symmetric] list_update_append)
next
  case (snoc y ys)
  have "lmb_insert_shift (length xs + length (ys @ [y])) (xs @ (ys @ [y]) @ r # rs) b s =
      lmb_insert_shift (length xs + length ys) (xs @ ys @ y # (y # rs)) b s"
    using snoc.prems by (simp add: nth_append list_update_append)
  also have "\<dots> = Some (xs @ mk_prop b s # ys @ (y # rs))"
    by (rule snoc.IH) (use snoc.prems in auto)
  finally show ?case by simp
qed

lemma insert_shift_front:
  assumes "\<forall>y \<in> set ys. b < lp_base y"
  shows "lmb_insert_shift (length ys) (ys @ r # rs) b s =
    Some (case ys of [] \<Rightarrow> r # rs | y # ys' \<Rightarrow> y # ys @ rs)"
  using assms
proof (induction ys arbitrary: r rs rule: rev_induct)
  case Nil
  then show ?case by simp
next
  case (snoc y ys)
  have "lmb_insert_shift (length (ys @ [y])) ((ys @ [y]) @ r # rs) b s =
      lmb_insert_shift (length ys) (ys @ y # (y # rs)) b s"
    using snoc.prems by (simp add: nth_append list_update_append)
  also have "\<dots> = Some (case ys of [] \<Rightarrow> y # y # rs | z # ys' \<Rightarrow> z # ys @ y # rs)"
    by (rule snoc.IH) (use snoc.prems in auto)
  finally show ?case by (simp split: list.splits)
qed

section \<open>Insertion\<close>

text \<open>A block is new to a list of entries when it is nonempty, does not wrap and meets none.\<close>

definition new_block :: "lmb_property list \<Rightarrow> u32 \<Rightarrow> u32 \<Rightarrow> bool" where
  "new_block ps b s \<longleftrightarrow> 0 < unat s \<and> unat b + unat s < 2 ^ 32 \<and>
     (\<forall>p \<in> set ps. pend p \<le> unat b \<or> unat b + unat s \<le> pbase p)"

abbreviation block :: "u32 \<Rightarrow> u32 \<Rightarrow> nat set" where
  "block b s \<equiv> {unat b..<unat b + unat s}"

lemma new_block_iff:
  assumes "sep ps"
  shows "new_block ps b s \<longleftrightarrow> 0 < unat s \<and> unat b + unat s < 2 ^ 32 \<and>
    (\<Union>p \<in> set ps. prange p) \<inter> block b s = {}"
proof -
  have "(pend p \<le> unat b \<or> unat b + unat s \<le> pbase p) \<longleftrightarrow> prange p \<inter> block b s = {}"
    if "p \<in> set ps" "0 < unat s" for p
  proof -
    have "pbase p < pend p" using assms that by (auto simp: sep_def okp_less)
    then show ?thesis using that(2) by (auto simp: prange_def)
  qed
  then show ?thesis by (auto simp: new_block_def)
qed

lemma grow_up:
  assumes "okp p" and "pbase p = unat b + unat s" and "0 < unat s" and "unat b + unat s < 2 ^ 32"
  shows "pbase (grow p b s) = unat b \<and> pend (grow p b s) = pend p \<and> okp (grow p b s)"
proof -
  have le: "s \<le> lp_base p" using assms(2) by (simp add: word_le_nat_alt pbase_def)
  have "unat (lp_base p - s) = unat b" using assms(2) le by (simp add: unat_sub pbase_def)
  moreover have "unat (lp_size p + s) = unat (lp_size p) + unat s"
    using assms by (intro unat_add_nowrap) (simp add: inv_defs)
  ultimately show ?thesis
    using assms by (simp add: grow_def adjacent_iff) (simp add: inv_defs)
qed

lemma grow_down:
  assumes "okp p" and "pend p = unat b" and "0 < unat s" and "unat b + unat s < 2 ^ 32"
  shows "pbase (grow p b s) = pbase p \<and> pend (grow p b s) = unat b + unat s \<and>
    okp (grow p b s)"
proof -
  have "unat (lp_size p + s) = unat (lp_size p) + unat s"
    using assms by (intro unat_add_nowrap) (simp add: inv_defs)
  moreover have "pbase p \<noteq> unat b + unat s" using assms(2,3) by (simp add: inv_defs)
  ultimately show ?thesis
    using assms by (simp add: grow_def adjacent_iff) (simp add: inv_defs)
qed

lemma merge_props:
  assumes "okp p" and "okp q" and "pend p = pbase q"
  defines "m \<equiv> p\<lparr>lp_size := lp_size p + lp_size q\<rparr>"
  shows "pbase m = pbase p \<and> pend m = pend q \<and> okp m"
proof -
  have "unat (lp_size p + lp_size q) = unat (lp_size p) + unat (lp_size q)"
    using assms(1-3) by (intro unat_add_nowrap) (simp add: inv_defs)
  then show ?thesis using assms(1-3) by (simp add: m_def inv_defs)
qed

text \<open>The adjacency test of two table entries, over the naturals.\<close>

lemma entries_adjacent:
  assumes "okp p" and "okp q" and "pbase p < pbase q"
  shows "lmb_addrs_adjacent (lp_base p) (lp_size p) (lp_base q) (lp_size q) =
    (if pbase q = pend p then 1 else 0)"
  using assms adjacent_iff [of q "lp_base p" "lp_size p"]
  by (auto simp: inv_defs)

lemma wf_entry:
  assumes "wf_rgn rgn" and "i < unat (cnt rgn)"
  shows "okp (region rgn ! i)"
  using assms by (metis active_nth length_active nth_mem sep_def wf_rgn_def)

lemma wf_not_dummy: "wf_rgn rgn \<Longrightarrow> lp_size (region rgn ! 0) \<noteq> 0"
  using wf_entry [of rgn 0] by (auto simp: wf_rgn_def okp_def)

text \<open>The unfolding of an insertion after its scan.\<close>

lemma add_region_extended:
  assumes "wf_rgn rgn" and "lmb_add_scan rgn b s 0 = Some (Extended i r1)"
    and "unat (cnt r1) = unat (cnt rgn)" and "length (region r1) = length (region rgn)"
    and "i < unat (cnt rgn)"
  shows "lmb_add_region rgn b s =
    (if i + 1 < unat (cnt rgn) \<and> lmb_regions_adjacent r1 i (i + 1) \<noteq> Some 0
     then map_option (\<lambda>r. (r, 2)) (lmb_coalesce_regions r1 i (i + 1)) else Some (r1, 1))"
proof -
  have "unat (cnt r1 - 1) = unat (cnt rgn) - 1"
    using assms(1,3) unat_minus_one' [of "cnt r1"] by (simp add: wf_rgn_def)
  moreover have "length (region rgn) > 0" using assms(1) by (simp add: wf_rgn_def)
  moreover have "\<exists>a. lmb_regions_adjacent r1 i (i + 1) = Some a" if "i + 1 < unat (cnt rgn)"
    using that assms by (simp add: lmb_regions_adjacent_def wf_rgn_def)
  ultimately show ?thesis
    using assms wf_not_dummy [OF assms(1)]
    by (auto simp: lmb_add_region_def option.map_comp comp_def bind_map_option
        map_conv_bind_option split: if_splits)
qed

lemma add_region_none:
  assumes "wf_rgn rgn" and "lmb_add_scan rgn b s 0 = Some (NoneAdjacent (unat (cnt rgn)))"
  shows "lmb_add_region rgn b s =
    (if MAX_LMB_REGIONS \<le> unat (cnt rgn) then Some (rgn, - 1)
     else do {
       ps \<leftarrow> lmb_insert_shift (unat (cnt rgn)) (region rgn) b s;
       p0 \<leftarrow> rd ps 0;
       ps \<leftarrow> (if b < lp_base p0 then wr ps 0 (mk_prop b s) else Some ps);
       Some (rgn\<lparr>region := ps, cnt := cnt rgn + 1\<rparr>, 0)
     })"
proof -
  have "unat (cnt rgn - 1) = unat (cnt rgn) - 1"
    using assms(1) unat_minus_one' [of "cnt rgn"] by (simp add: wf_rgn_def)
  then have "\<not> unat (cnt rgn) < unat (cnt rgn - 1)" by linarith
  moreover have "length (region rgn) > 0" using assms(1) by (simp add: wf_rgn_def)
  ultimately show ?thesis
    using assms wf_not_dummy [OF assms(1)] by (simp add: lmb_add_region_def)
qed

text \<open>Growing an entry in place: what the scan relies on and leaves behind.\<close>

lemma new_block_strict:
  assumes "new_block ps b s" and "x \<in> set ps" and "okp x" and "\<not> adjacent_to x b s"
  shows "pend x < unat b \<or> unat b + unat s < pbase x"
proof -
  have "pend x \<le> unat b \<or> unat b + unat s \<le> pbase x"
    using assms(1,2) by (auto simp: new_block_def)
  then show ?thesis
    using assms by (auto simp: adjacent_iff new_block_def split: if_splits)
qed

lemma grow_in_place:
  assumes sep: "sep (xs @ p # ys)" and new: "new_block (xs @ p # ys) b s"
    and adj: "adjacent_to p b s" and nadj: "\<forall>x \<in> set xs. \<not> adjacent_to x b s"
  shows "okp (grow p b s) \<and> prange (grow p b s) = prange p \<union> block b s \<and>
    (\<forall>x \<in> set xs. pend x < pbase (grow p b s)) \<and> (\<forall>y \<in> set ys. pend (grow p b s) \<le> pbase y)"
proof -
  have okp: "okp p" and s: "0 < unat s" "unat b + unat s < 2 ^ 32"
    using sep new by (auto simp: new_block_def sep_append sep_Cons)
  have xp: "\<forall>x \<in> set xs. pend x < pbase p" and py: "\<forall>y \<in> set ys. pend p < pbase y"
    using sep by (auto simp: sep_append sep_Cons)
  from adj okp s consider "pbase p = unat b + unat s" | "pend p = unat b"
    by (auto simp: adjacent_iff split: if_splits)
  then show ?thesis
  proof cases
    case 1
    note g = grow_up [OF okp 1 s]
    have "prange (grow p b s) = prange p \<union> block b s"
      using g 1 okp_less [OF okp] by (auto simp: prange_def)
    moreover have "pend x < pbase (grow p b s)" if "x \<in> set xs" for x
    proof -
      have "okp x" using sep that by (auto simp: sep_append sep_def)
      with new nadj that have "pend x < unat b \<or> unat b + unat s < pbase x"
        by (intro new_block_strict [OF new]) auto
      then show ?thesis using xp that 1 g pbase_le_pend [of x] by fastforce
    qed
    ultimately show ?thesis using g py by (simp add: less_imp_le)
  next
    case 2
    note g = grow_down [OF okp 2 s]
    have "prange (grow p b s) = prange p \<union> block b s"
      using g 2 okp_less [OF okp] by (auto simp: prange_def)
    moreover have "pend (grow p b s) \<le> pbase y" if "y \<in> set ys" for y
    proof -
      have "pend y \<le> unat b \<or> unat b + unat s \<le> pbase y"
        using new that by (auto simp: new_block_def)
      then show ?thesis using py that 2 g pbase_le_pend [of y] by fastforce
    qed
    ultimately show ?thesis using g xp by simp
  qed
qed

lemma sep_mid:
  assumes "sep xs" and "okp g" and "sep ys" and "\<forall>x \<in> set xs. pend x < pbase g"
    and "\<forall>y \<in> set ys. pend g < pbase y"
  shows "sep (xs @ g # ys)"
proof -
  have "pend x < pbase y" if "x \<in> set xs" "y \<in> set ys" for x y
    using assms(4,5) that okp_less [OF assms(2)] by (meson less_trans)
  then show ?thesis using assms by (auto simp: sep_append sep_Cons)
qed

text \<open>The table after the scan grew entry \<open>k\<close>, and after coalescing it with the next one.\<close>

lemma coalesce_case:
  assumes len: "length (region r1) = 9" "unat (cnt r1) \<le> 8"
    and act: "active r1 = xs @ g # q # zs"
    and ok: "sep xs" "okp g" "sep (q # zs)" "\<forall>x \<in> set xs. pend x < pbase g"
      "\<forall>y \<in> set (q # zs). pend g \<le> pbase y"
  defines "k \<equiv> length xs"
  shows "(pend g < pbase q \<longrightarrow> lmb_regions_adjacent r1 k (k + 1) = Some 0 \<and>
      sep (active r1)) \<and>
    (pend g = pbase q \<longrightarrow> lmb_regions_adjacent r1 k (k + 1) = Some 1 \<and>
      (\<exists>r2 m. lmb_coalesce_regions r1 k (k + 1) = Some r2 \<and>
        length (region r2) = 9 \<and> unat (cnt r2) = unat (cnt r1) - 1 \<and>
        active r2 = xs @ m # zs \<and> sep (xs @ m # zs) \<and> prange m = prange g \<union> prange q))"
proof -
  have lact: "length (active r1) = unat (cnt r1)" using len by (simp add: active_def)
  then have k1: "k + 1 < unat (cnt r1)" by (simp add: act k_def)
  have g: "region r1 ! k = g" and q: "region r1 ! (k + 1) = q"
    using active_nth [of k r1] active_nth [OF k1] k1 by (simp_all add: act k_def nth_append)
  have okq: "okp q" using ok(3) by (simp add: sep_Cons)
  have lt: "pbase g < pbase q" using ok(2,5) okp_less [of g] by fastforce
  have adj: "lmb_regions_adjacent r1 k (k + 1) = Some (if pbase q = pend g then 1 else 0)"
    using k1 len entries_adjacent [OF ok(2) okq lt] g q by (simp add: lmb_regions_adjacent_def)
  have lt_case: "sep (active r1)" if "pend g < pbase q"
  proof -
    have "\<forall>y \<in> set (q # zs). pend g < pbase y"
      using that ok(3) okp_less [OF okq] by (auto simp: sep_Cons intro: less_trans)
    then show ?thesis unfolding act by (intro sep_mid ok)
  qed
  have eq_case: "\<exists>r2 m. lmb_coalesce_regions r1 k (k + 1) = Some r2 \<and>
      length (region r2) = 9 \<and> unat (cnt r2) = unat (cnt r1) - 1 \<and>
      active r2 = xs @ m # zs \<and> sep (xs @ m # zs) \<and> prange m = prange g \<union> prange q"
    if e: "pend g = pbase q"
  proof -
    define m where "m = g\<lparr>lp_size := lp_size g + lp_size q\<rparr>"
    have m: "pbase m = pbase g" "pend m = pend q" "okp m"
      using merge_props [OF ok(2) okq e] by (simp_all add: m_def)
    have "unat (cnt r1) \<le> length (region r1)" using len by simp
    from coalesce_spec [OF this k1] len obtain r2 where
      "lmb_coalesce_regions r1 k (k + 1) = Some r2" "length (region r2) = 9"
      "unat (cnt r2) = unat (cnt r1) - 1" "active r2 = xs @ m # zs"
      by (auto simp: act k_def m_def g [unfolded k_def] q [unfolded k_def, simplified])
    moreover have "prange m = prange g \<union> prange q"
      using m e okp_less [OF okq] lt by (auto simp: prange_def)
    moreover have "sep (xs @ m # zs)"
      using ok m by (intro sep_mid) (auto simp: sep_Cons)
    ultimately show ?thesis by blast
  qed
  show ?thesis using adj lt_case eq_case by auto
qed

lemma add_extended_case:
  assumes wf: "wf_rgn rgn" and new: "new_block (active rgn) b s" and k: "k < unat (cnt rgn)"
    and scan: "lmb_add_scan rgn b s 0 =
      Some (Extended k (rgn\<lparr>region := (region rgn)[k := grow (region rgn ! k) b s]\<rparr>))"
    and adj: "adjacent_to (region rgn ! k) b s"
    and nadj: "\<forall>j < k. \<not> adjacent_to (region rgn ! j) b s"
  shows "\<exists>rgn' r. lmb_add_region rgn b s = Some (rgn', r) \<and> 0 \<le> r \<and> wf_rgn rgn' \<and>
    rgn_addrs rgn' = rgn_addrs rgn \<union> block b s"
proof -
  define p where "p = region rgn ! k"
  define xs where "xs = take k (active rgn)"
  define ys where "ys = drop (k + 1) (active rgn)"
  define r1 where "r1 = rgn\<lparr>region := (region rgn)[k := grow p b s]\<rparr>"
  have len: "length (active rgn) = unat (cnt rgn)" using wf by (rule length_active)
  have act: "active rgn = xs @ p # ys"
    unfolding xs_def ys_def p_def using active_split [OF wf k] .
  have lxs: "length xs = k" using k len by (simp add: xs_def)
  have "active r1 = (active rgn)[k := grow p b s]"
    by (simp add: r1_def active_def take_update_swap)
  then have act1: "active r1 = xs @ grow p b s # ys" by (simp add: act lxs list_update_append)
  have sep: "sep (xs @ p # ys)" using wf act by (simp add: wf_rgn_def)
  have "\<forall>x \<in> set xs. \<not> adjacent_to x b s"
    using nadj k by (auto simp: xs_def in_set_conv_nth active_nth)
  then have grown: "okp (grow p b s)" "prange (grow p b s) = prange p \<union> block b s"
      "\<forall>x \<in> set xs. pend x < pbase (grow p b s)" "\<forall>y \<in> set ys. pend (grow p b s) \<le> pbase y"
    using grow_in_place [OF sep] new adj by (simp_all add: act p_def [symmetric])
  have eq: "lmb_add_region rgn b s =
    (if k + 1 < unat (cnt rgn) \<and> lmb_regions_adjacent r1 k (k + 1) \<noteq> Some 0
     then map_option (\<lambda>r. (r, 2)) (lmb_coalesce_regions r1 k (k + 1)) else Some (r1, 1))"
    by (rule add_region_extended [OF wf]) (use scan k in \<open>auto simp: r1_def p_def\<close>)
  have r1: "length (region r1) = 9" "unat (cnt r1) \<le> 8" "cnt r1 = cnt rgn" "1 \<le> unat (cnt rgn)"
    using wf by (auto simp: r1_def wf_rgn_def MAX_LMB_REGIONS_def)
  have addrs1: "rgn_addrs r1 = rgn_addrs rgn \<union> block b s"
    using grown by (auto simp: rgn_addrs_def act1 act)
  have wf1: "wf_rgn r1" if "sep (active r1)"
    using that r1 by (simp add: wf_rgn_def MAX_LMB_REGIONS_def)
  show ?thesis
  proof (cases ys)
    case Nil
    then have "\<not> k + 1 < unat (cnt rgn)" using len lxs by (simp add: act)
    moreover have "sep (active r1)" using sep grown Nil by (simp add: act1 sep_append sep_Cons)
    ultimately show ?thesis using eq addrs1 wf1 by simp
  next
    case (Cons q zs)
    then have k1: "k + 1 < unat (cnt rgn)" using len lxs by (simp add: act)
    have parts: "sep xs" "sep (q # zs)" using sep Cons by (simp_all add: sep_append sep_Cons)
    note c = coalesce_case [OF r1(1,2) act1 [unfolded Cons] parts(1) grown(1) parts(2) grown(3)
        grown(4) [unfolded Cons], unfolded lxs]
    show ?thesis
    proof (cases "pend (grow p b s) = pbase q")
      case True
      with c obtain r2 m where r2: "lmb_regions_adjacent r1 k (k + 1) = Some 1"
        "lmb_coalesce_regions r1 k (k + 1) = Some r2" "length (region r2) = 9"
        "unat (cnt r2) = unat (cnt r1) - 1" "active r2 = xs @ m # zs" "sep (xs @ m # zs)"
        "prange m = prange (grow p b s) \<union> prange q"
        by auto
      then have "wf_rgn r2" using r1 k1 by (auto simp: wf_rgn_def MAX_LMB_REGIONS_def)
      moreover have "rgn_addrs r2 = rgn_addrs rgn \<union> block b s"
        using r2 grown by (auto simp: rgn_addrs_def act Cons)
      ultimately show ?thesis using eq k1 r2 by simp
    next
      case False
      then have "pend (grow p b s) < pbase q" using grown(4) Cons by auto
      with c have "lmb_regions_adjacent r1 k (k + 1) = Some 0" "sep (active r1)" by auto
      then show ?thesis using eq addrs1 wf1 by simp
    qed
  qed
qed

lemma insert_loop:
  assumes "ps = xs @ ys @ r # rs" and "xs @ ys \<noteq> []" and "\<forall>x \<in> set xs. lp_base x \<le> b"
    and "\<forall>y \<in> set ys. b < lp_base y"
  shows "(do {
       qs \<leftarrow> lmb_insert_shift (length xs + length ys) ps b s;
       p0 \<leftarrow> rd qs 0;
       qs \<leftarrow> (if b < lp_base p0 then wr qs 0 (mk_prop b s) else Some qs);
       Some (rgn\<lparr>region := qs, cnt := c\<rparr>, 0)
     }) = Some (rgn\<lparr>region := xs @ mk_prop b s # ys @ rs, cnt := c\<rparr>, 0)"
proof (cases xs)
  case Nil
  then obtain y ys' where "ys = y # ys'" using assms(2) by (cases ys) auto
  then show ?thesis using assms Nil insert_shift_front [of ys b r rs s] by simp
next
  case (Cons x xs')
  then have "lmb_insert_shift (length xs + length ys) ps b s = Some (xs @ mk_prop b s # ys @ rs)"
    unfolding assms(1) by (intro insert_shift_after) (use assms Cons in auto)
  moreover have "\<not> b < lp_base x" using assms(3) Cons by (simp add: not_less)
  ultimately show ?thesis using Cons by simp
qed

text \<open>Sorting the active entries around the base of a new block.\<close>

lemma split_at_base:
  fixes b :: u32
  assumes "sep ps"
  defines "xs \<equiv> takeWhile (\<lambda>p. lp_base p \<le> b) ps"
    and "ys \<equiv> dropWhile (\<lambda>p. lp_base p \<le> b) ps"
  shows "\<forall>x \<in> set xs. lp_base x \<le> b" and "\<forall>y \<in> set ys. b < lp_base y"
proof -
  show "\<forall>x \<in> set xs. lp_base x \<le> b" by (auto simp: xs_def dest: set_takeWhileD)
  have "sep (xs @ ys)" using assms by simp
  show "\<forall>y \<in> set ys. b < lp_base y"
  proof
    fix y assume y: "y \<in> set ys"
    then obtain z zs where zs: "ys = z # zs" by (cases ys) auto
    then have z: "b < lp_base z" using hd_dropWhile [of "\<lambda>p. lp_base p \<le> b" ps]
      by (simp add: ys_def [symmetric])
    have "y = z \<or> pend z < pbase y"
      using \<open>sep (xs @ ys)\<close> y zs by (auto simp: sep_append sep_Cons)
    then have "pbase z \<le> pbase y" using pbase_le_pend [of z] by auto
    with z show "b < lp_base y" by (simp add: pbase_def word_less_nat_alt)
  qed
qed

lemma add_none_case:
  assumes wf: "wf_rgn rgn" and new: "new_block (active rgn) b s"
    and scan: "lmb_add_scan rgn b s 0 = Some (NoneAdjacent (unat (cnt rgn)))"
    and nadj: "\<forall>p \<in> set (active rgn). \<not> adjacent_to p b s"
    and room: "unat (cnt rgn) < MAX_LMB_REGIONS"
  shows "\<exists>rgn'. lmb_add_region rgn b s = Some (rgn', 0) \<and> wf_rgn rgn' \<and>
    rgn_addrs rgn' = rgn_addrs rgn \<union> block b s"
proof -
  define xs where "xs = takeWhile (\<lambda>p. lp_base p \<le> b) (active rgn)"
  define ys where "ys = dropWhile (\<lambda>p. lp_base p \<le> b) (active rgn)"
  define n where "n = mk_prop b s"
  have act: "active rgn = xs @ ys" by (simp add: xs_def ys_def)
  have len: "length xs + length ys = unat (cnt rgn)"
    using length_active [OF wf] act by (metis length_append)
  have sep: "sep (xs @ ys)" using wf by (simp add: wf_rgn_def act)
  have s: "0 < unat s" "unat b + unat s < 2 ^ 32" using new by (auto simp: new_block_def)
  have n: "okp n" "pbase n = unat b" "pend n = unat b + unat s" "prange n = block b s"
    using s by (simp_all add: n_def inv_defs)
  have base: "\<forall>x \<in> set xs. lp_base x \<le> b" "\<forall>y \<in> set ys. b < lp_base y"
    using split_at_base [of "active rgn" b] wf by (simp_all add: xs_def ys_def wf_rgn_def)
  have strict: "pend p < unat b \<or> unat b + unat s < pbase p" if "p \<in> set (xs @ ys)" for p
    by (rule new_block_strict [OF new]) (use that nadj sep act in \<open>auto simp: sep_def\<close>)
  have "\<forall>x \<in> set xs. pend x < pbase n"
  proof
    fix x assume x: "x \<in> set xs"
    then have "pbase x \<le> unat b" using base(1) by (simp add: pbase_def word_le_nat_alt)
    then show "pend x < pbase n" using strict [of x] x n by auto
  qed
  moreover have "\<forall>y \<in> set ys. pend n < pbase y"
  proof
    fix y assume y: "y \<in> set ys"
    then have "unat b < pbase y" using base(2) by (simp add: pbase_def word_less_nat_alt)
    then show "pend n < pbase y" using strict [of y] y n pbase_le_pend [of y] by auto
  qed
  ultimately have sep': "sep (xs @ n # ys)" using sep n by (intro sep_mid) (simp_all add: sep_append)
  have l9: "length (region rgn) = 9" and c1: "1 \<le> unat (cnt rgn)"
    using wf by (simp_all add: wf_rgn_def MAX_LMB_REGIONS_def)
  have "drop (unat (cnt rgn)) (region rgn) \<noteq> []" using l9 room by (simp add: MAX_LMB_REGIONS_def)
  then obtain r rs where r: "drop (unat (cnt rgn)) (region rgn) = r # rs" by (cases "drop (unat (cnt rgn)) (region rgn)") auto
  have reg: "region rgn = xs @ ys @ r # rs"
    using append_take_drop_id [of "unat (cnt rgn)" "region rgn"] act r by (simp add: active_def)
  define r' where "r' = rgn\<lparr>region := xs @ n # ys @ rs, cnt := cnt rgn + 1\<rparr>"
  have "xs @ ys \<noteq> []" using c1 len by auto
  from insert_loop [OF reg this base] have "lmb_add_region rgn b s = Some (r', 0)"
    using add_region_none [OF wf scan] room len by (simp add: r'_def n_def)
  moreover have c': "unat (cnt r') = length xs + length ys + 1"
    using room len by (simp add: r'_def MAX_LMB_REGIONS_def unat_add_nowrap)
  then have "active r' = xs @ n # ys" unfolding active_def by (simp add: r'_def)
  moreover have "unat (cnt r') \<le> 8" "length (region r') = 9"
    using len room l9 reg c' by (simp_all add: r'_def MAX_LMB_REGIONS_def)
  ultimately show ?thesis using sep' n c1 c'
    by (auto simp: wf_rgn_def rgn_addrs_def act MAX_LMB_REGIONS_def)
qed

text \<open>
  Insertion into a table that satisfies the invariant: the block is added and the table stays
  sorted and maximally coalesced, or the table is full and unchanged.
\<close>

lemma add_region_inv:
  assumes inv: "rgn_inv rgn" and s: "0 < unat s" "unat b + unat s < 2 ^ 32"
    and free: "rgn_addrs rgn \<inter> block b s = {}"
  shows "\<exists>rgn' r. lmb_add_region rgn b s = Some (rgn', r) \<and>
    (r = - 1 \<and> rgn' = rgn \<and> unat (cnt rgn) = MAX_LMB_REGIONS \<or>
     0 \<le> r \<and> wf_rgn rgn' \<and> rgn_addrs rgn' = rgn_addrs rgn \<union> block b s)"
proof (cases "wf_rgn rgn")
  case False
  with inv have e: "empty_rgn rgn" by (simp add: rgn_inv_def)
  let ?r = "rgn\<lparr>region := (region rgn)[0 := mk_prop b s]\<rparr>"
  have len: "0 < length (region rgn)" and one: "cnt rgn = 1"
    using e by (auto simp: empty_rgn_def MAX_LMB_REGIONS_def)
  then have act: "active ?r = [mk_prop b s]" by (simp add: active_def take_Suc_conv_app_nth)
  have "lmb_add_region rgn b s = Some (?r, 0)"
    using e by (simp add: lmb_add_region_def empty_rgn_def MAX_LMB_REGIONS_def)
  moreover have "wf_rgn ?r"
    using e act s by (simp add: wf_rgn_def sep_Cons empty_rgn_def MAX_LMB_REGIONS_def okp_def pend_def)
  moreover have "rgn_addrs ?r = block b s"
    by (simp add: rgn_addrs_def act prange_def pbase_def pend_def)
  ultimately show ?thesis using empty_addrs [OF e] by auto
next
  case True
  then have sep: "sep (active rgn)" and le: "unat (cnt rgn) \<le> length (region rgn)"
    and le8: "unat (cnt rgn) \<le> MAX_LMB_REGIONS"
    by (auto simp: wf_rgn_def MAX_LMB_REGIONS_def)
  have new: "new_block (active rgn) b s"
    using new_block_iff [OF sep] s free by (simp add: rgn_addrs_def)
  have "region rgn ! k \<noteq> mk_prop b s" if "k < unat (cnt rgn)" for k
  proof
    assume eq: "region rgn ! k = mk_prop b s"
    have "region rgn ! k \<in> set (active rgn)"
      using that length_active [OF True] by (metis active_nth nth_mem)
    then show False using new s eq by (force simp: new_block_def pbase_def pend_def)
  qed
  then have "\<forall>k < unat (cnt rgn). region rgn ! k \<noteq> mk_prop b s" by blast
  from scan_spec [OF le _ this, of 0] consider
    (ext) k where "lmb_add_scan rgn b s 0 =
        Some (Extended k (rgn\<lparr>region := (region rgn)[k := grow (region rgn ! k) b s]\<rparr>))"
      "k < unat (cnt rgn)" "adjacent_to (region rgn ! k) b s"
      "\<forall>j < k. \<not> adjacent_to (region rgn ! j) b s"
  | (none) "lmb_add_scan rgn b s 0 = Some (NoneAdjacent (unat (cnt rgn)))"
      "\<forall>j < unat (cnt rgn). \<not> adjacent_to (region rgn ! j) b s"
    by auto
  then show ?thesis
  proof cases
    case ext
    from add_extended_case [OF True new ext(2,1,3,4)] show ?thesis by blast
  next
    case none
    have "\<forall>p \<in> set (active rgn). \<not> adjacent_to p b s"
      using none(2) length_active [OF True] by (auto simp: in_set_conv_nth active_nth)
    from add_none_case [OF True new none(1) this] add_region_none [OF True none(1)] le8
    show ?thesis by (cases "unat (cnt rgn) < MAX_LMB_REGIONS") auto
  qed
qed

section \<open>Overlap queries\<close>

lemma in_active:
  "wf_rgn rgn \<Longrightarrow> p \<in> set (active rgn) \<longleftrightarrow> (\<exists>i < unat (cnt rgn). p = region rgn ! i)"
  using length_active [of rgn] by (metis active_nth in_set_conv_nth)

lemma rgn_addrs_nth:
  assumes "wf_rgn rgn"
  shows "rgn_addrs rgn = (\<Union>i \<in> {..<unat (cnt rgn)}. prange (region rgn ! i))"
proof -
  have "set (active rgn) = (\<lambda>i. region rgn ! i) ` {..<unat (cnt rgn)}"
    by (auto simp: in_active [OF assms])
  then show ?thesis by (simp add: rgn_addrs_def)
qed

lemma overlaps_region_inv:
  assumes inv: "rgn_inv rgn" and s: "0 < unat s" "unat b + unat s < 2 ^ 32"
  shows "\<exists>j. lmb_overlaps_region rgn b s = Some j \<and>
    (if j < 0 then rgn_addrs rgn \<inter> block b s = {}
     else nat j < unat (cnt rgn) \<and> okp (region rgn ! nat j) \<and>
       region rgn ! nat j \<in> set (active rgn) \<and>
       prange (region rgn ! nat j) \<inter> block b s \<noteq> {} \<and>
       (\<forall>k < nat j. prange (region rgn ! k) \<inter> block b s = {}))"
proof (cases "wf_rgn rgn")
  case False
  with inv have e: "empty_rgn rgn" by (simp add: rgn_inv_def)
  have "unat (cnt rgn) \<le> length (region rgn)"
    using e by (simp add: empty_rgn_def MAX_LMB_REGIONS_def)
  from lmb_find_spec [OF this, of 0 "\<lambda>p. lmb_addrs_overlap b s (lp_base p) (lp_size p)"]
  obtain j where "lmb_find (\<lambda>p. lmb_addrs_overlap b s (lp_base p) (lp_size p)) rgn 0 = Some j"
    "j \<le> unat (cnt rgn)" "j < unat (cnt rgn) \<longrightarrow>
       lmb_addrs_overlap b s (lp_base (region rgn ! j)) (lp_size (region rgn ! j))"
    by auto
  then have "lmb_overlaps_region rgn b s = Some (- 1)"
    using e by (auto simp: lmb_overlaps_region_def empty_rgn_def lmb_addrs_overlap_def)
  then show ?thesis using empty_addrs [OF e] by simp
next
  case True
  define P where "P = (\<lambda>p :: lmb_property. lmb_addrs_overlap b s (lp_base p) (lp_size p))"
  have P: "P (region rgn ! k) \<longleftrightarrow> prange (region rgn ! k) \<inter> block b s \<noteq> {}"
    if "k < unat (cnt rgn)" for k
    unfolding P_def by (rule overlap_range [OF wf_entry [OF True that] s(2,1)])
  have "unat (cnt rgn) \<le> length (region rgn)" using True by (simp add: wf_rgn_def MAX_LMB_REGIONS_def)
  from lmb_find_spec [OF this, of 0 P] obtain j where j: "lmb_find P rgn 0 = Some j"
    "j \<le> unat (cnt rgn)" "\<forall>k < j. \<not> P (region rgn ! k)"
    "j < unat (cnt rgn) \<longrightarrow> P (region rgn ! j)" by auto
  have q: "lmb_overlaps_region rgn b s = Some (if j < unat (cnt rgn) then int j else - 1)"
    using j(1) by (simp add: lmb_overlaps_region_def P_def)
  show ?thesis
  proof (cases "j < unat (cnt rgn)")
    case True
    then have "region rgn ! j \<in> set (active rgn)"
      using length_active [OF \<open>wf_rgn rgn\<close>] by (metis active_nth nth_mem)
    with q j P True wf_entry [OF \<open>wf_rgn rgn\<close> True] show ?thesis by auto
  next
    case False
    then have "prange (region rgn ! k) \<inter> block b s = {}" if "k < unat (cnt rgn)" for k
      using that j P by (meson less_le_trans not_less)
    then have "rgn_addrs rgn \<inter> block b s = {}"
      by (auto simp: rgn_addrs_nth [OF \<open>wf_rgn rgn\<close>])
    with q False show ?thesis by simp
  qed
qed

lemma is_reserved_inv:
  assumes "wf_rgn (reserved l)"
  shows "lmb_is_reserved l a = Some (if unat a \<in> rgn_addrs (reserved l) then 1 else 0)"
proof -
  define rgn where "rgn = reserved l"
  define P where "P = (\<lambda>p :: lmb_property. lp_base p \<le> a \<and> a \<le> lp_base p + lp_size p - 1)"
  have wf: "wf_rgn rgn" using assms by (simp add: rgn_def)
  have P: "P p \<longleftrightarrow> unat a \<in> prange p" if "okp p" for p
  proof -
    have "1 \<le> lp_base p + lp_size p"
      using pend_word [OF that] okp_less [OF that] by (simp add: word_le_nat_alt)
    then have "unat (lp_base p + lp_size p - 1) = pend p - 1"
      by (simp add: unat_sub pend_word [OF that])
    then show ?thesis
      using okp_less [OF that] by (auto simp: P_def prange_def word_le_nat_alt pbase_def)
  qed
  have "unat (cnt rgn) \<le> length (region rgn)" using wf by (simp add: wf_rgn_def MAX_LMB_REGIONS_def)
  from lmb_find_spec [OF this, of 0 P] obtain j where j: "lmb_find P rgn 0 = Some j"
    "j \<le> unat (cnt rgn)" "\<forall>k < j. \<not> P (region rgn ! k)"
    "j < unat (cnt rgn) \<longrightarrow> P (region rgn ! j)" by auto
  have "unat a \<in> rgn_addrs rgn \<longleftrightarrow> (\<exists>k < unat (cnt rgn). unat a \<in> prange (region rgn ! k))"
    by (auto simp: rgn_addrs_nth [OF wf])
  also have "\<dots> \<longleftrightarrow> j < unat (cnt rgn)"
    using j P wf_entry [OF wf] by (metis linorder_not_less less_le_trans)
  finally show ?thesis using j(1) by (simp add: lmb_is_reserved_def rgn_def P_def)
qed

end
