(* ===== verification/LmbFree.thy ===== *)
theory LmbFree
  imports LmbCorrect
begin

text \<open>
  Freeing in the logical memory block tables (\<^verbatim>\<open>lmb_free\<close> of
  \<^verbatim>\<open>lib_generic/lmb.c\<close>): removing, shortening and splitting the entry that
  holds a block, and what becomes of the reserved addresses.
\<close>

text \<open>The entry that holds the block to be freed.\<close>

lemma free_find:
  assumes wf: "wf_rgn rgn" and i: "i < unat (cnt rgn)" and s: "0 < unat s"
    and sub: "block b s \<subseteq> prange (region rgn ! i)" and nw: "unat b + unat s < 2 ^ 32"
  shows "lmb_find (\<lambda>p. lp_base p \<le> b \<and> b + s \<le> lp_base p + lp_size p) rgn 0 = Some i"
proof -
  define P where "P = (\<lambda>p :: lmb_property. lp_base p \<le> b \<and> b + s \<le> lp_base p + lp_size p)"
  have P: "P (region rgn ! k) \<longleftrightarrow> block b s \<subseteq> prange (region rgn ! k)"
    if "k < unat (cnt rgn)" for k
    using wf_entry [OF wf that] s nw
    by (auto simp: P_def word_le_nat_alt pend_word unat_add_nowrap prange_def pbase_def)
  have "unat (cnt rgn) \<le> length (region rgn)" using wf by (simp add: wf_rgn_def MAX_LMB_REGIONS_def)
  from lmb_find_spec [OF this, of 0 P] obtain j where j: "lmb_find P rgn 0 = Some j"
    "j \<le> unat (cnt rgn)" "\<forall>k < j. \<not> P (region rgn ! k)"
    "j < unat (cnt rgn) \<longrightarrow> P (region rgn ! j)" by auto
  have "j \<le> i" using j(3) P [OF i] sub by (meson leI)
  moreover have "\<not> j < i"
  proof
    assume lt: "j < i"
    with i j(4) P have "block b s \<subseteq> prange (region rgn ! j)" by simp
    moreover have "pend (region rgn ! j) < pbase (region rgn ! i)"
      using wf lt i length_active [OF wf]
      by (auto simp: wf_rgn_def sep_def sorted_wrt_iff_nth_less active_nth)
    moreover have "unat b \<in> block b s" using s by simp
    ultimately have "unat b < pend (region rgn ! j)" "pbase (region rgn ! i) \<le> unat b"
      using sub by (auto simp: prange_def)
    with \<open>pend (region rgn ! j) < pbase (region rgn ! i)\<close> show False by simp
  qed
  ultimately show ?thesis using j(1) by (simp add: P_def)
qed

text \<open>The table around one of its entries.\<close>

lemma sep_okp: "sep ps \<Longrightarrow> p \<in> set ps \<Longrightarrow> okp p"
  by (simp add: sep_def)

lemma entry_before:
  assumes wf: "wf_rgn rgn" and i: "i < unat (cnt rgn)" and x: "x \<in> set (take i (active rgn))"
  shows "okp x \<and> pend x < pbase (region rgn ! i)"
proof -
  have "sep (take i (active rgn) @ region rgn ! i # drop (i + 1) (active rgn))"
    using wf active_split [OF wf i] by (simp add: wf_rgn_def)
  then show ?thesis using x sep_okp by (auto simp: sep_append sep_Cons)
qed

lemma entry_after:
  assumes wf: "wf_rgn rgn" and i: "i < unat (cnt rgn)" and x: "x \<in> set (drop (i + 1) (active rgn))"
  shows "okp x \<and> pend (region rgn ! i) < pbase x"
proof -
  have "sep (take i (active rgn) @ region rgn ! i # drop (i + 1) (active rgn))"
    using wf active_split [OF wf i] by (simp add: wf_rgn_def)
  then show ?thesis using x sep_okp by (auto simp: sep_append sep_Cons)
qed

lemma rest_addrs:
  assumes wf: "wf_rgn rgn" and i: "i < unat (cnt rgn)"
  shows "(\<Union>p \<in> set (take i (active rgn) @ drop (i + 1) (active rgn)). prange p) =
    rgn_addrs rgn - prange (region rgn ! i)" (is "?L = _")
proof -
  have "rgn_addrs rgn = ?L \<union> prange (region rgn ! i)"
    unfolding rgn_addrs_def by (subst active_split [OF wf i]) auto
  moreover have "prange x \<inter> prange (region rgn ! i) = {}"
    if "x \<in> set (take i (active rgn) @ drop (i + 1) (active rgn))" for x
    using that entry_before [OF wf i, of x] entry_after [OF wf i, of x]
    by (auto simp: prange_def)
  ultimately show ?thesis by blast
qed

lemma sep_rest:
  assumes wf: "wf_rgn rgn" and i: "i < unat (cnt rgn)"
  shows "sep (take i (active rgn) @ drop (i + 1) (active rgn))"
    and "okp q \<Longrightarrow> pbase (region rgn ! i) \<le> pbase q \<Longrightarrow> pend q \<le> pend (region rgn ! i) \<Longrightarrow>
      sep (take i (active rgn) @ q # drop (i + 1) (active rgn))"
proof -
  have s: "sep (take i (active rgn) @ region rgn ! i # drop (i + 1) (active rgn))"
    using wf active_split [OF wf i] by (simp add: wf_rgn_def)
  then show "sep (take i (active rgn) @ drop (i + 1) (active rgn))"
    by (simp add: sep_append sep_Cons)
  assume q: "okp q" "pbase (region rgn ! i) \<le> pbase q" "pend q \<le> pend (region rgn ! i)"
  have "pend x < pbase q" if "x \<in> set (take i (active rgn))" for x
    using entry_before [OF wf i that] q by simp
  moreover have "pend q < pbase x" if "x \<in> set (drop (i + 1) (active rgn))" for x
    using entry_after [OF wf i that] q by simp
  ultimately show "sep (take i (active rgn) @ q # drop (i + 1) (active rgn))"
    using s q(1) by (simp add: sep_append sep_Cons)
qed

lemma replace_entry:
  assumes wf: "wf_rgn rgn" and i: "i < unat (cnt rgn)" and q: "okp q"
    and sub: "pbase (region rgn ! i) \<le> pbase q" "pend q \<le> pend (region rgn ! i)"
  defines "r' \<equiv> rgn\<lparr>region := (region rgn)[i := q]\<rparr>"
  shows "wf_rgn r' \<and> rgn_addrs r' = (rgn_addrs rgn - prange (region rgn ! i)) \<union> prange q"
proof -
  have l: "i < length (active rgn)" using i by (simp add: length_active [OF wf])
  have "active r' = (active rgn)[i := q]" by (simp add: r'_def active_def take_update_swap)
  then have act: "active r' = take i (active rgn) @ q # drop (i + 1) (active rgn)"
    using upd_conv_take_nth_drop [OF l] by simp
  have "wf_rgn r'"
    using wf sep_rest(2) [OF wf i q sub] by (simp add: wf_rgn_def act) (simp add: r'_def)
  moreover have "rgn_addrs r' = (rgn_addrs rgn - prange (region rgn ! i)) \<union> prange q"
    unfolding rest_addrs [OF wf i, symmetric] by (auto simp: rgn_addrs_def act)
  ultimately show ?thesis by simp
qed

lemma remove_entry:
  assumes wf: "wf_rgn rgn" and i: "i < unat (cnt rgn)"
  shows "\<exists>r'. lmb_remove_region rgn i = Some r' \<and> unat (cnt r') = unat (cnt rgn) - 1 \<and>
    rgn_addrs r' = rgn_addrs rgn - prange (region rgn ! i) \<and>
    (1 < unat (cnt rgn) \<longrightarrow> wf_rgn r')"
proof -
  have "1 \<le> unat (cnt rgn)" "unat (cnt rgn) \<le> length (region rgn)"
    using wf by (simp_all add: wf_rgn_def MAX_LMB_REGIONS_def)
  from remove_region_spec [OF this i] obtain r' where r': "lmb_remove_region rgn i = Some r'"
    "length (region r') = length (region rgn)" "unat (cnt r') = unat (cnt rgn) - 1"
    "active r' = take i (active rgn) @ drop (i + 1) (active rgn)" by auto
  have "rgn_addrs r' = rgn_addrs rgn - prange (region rgn ! i)"
    using rest_addrs [OF wf i] by (simp add: rgn_addrs_def r'(4))
  moreover have "1 < unat (cnt rgn) \<longrightarrow> wf_rgn r'"
    using wf sep_rest(1) [OF wf i] r' by (auto simp: wf_rgn_def)
  ultimately show ?thesis using r' by auto
qed

section \<open>The cases of a free\<close>

text \<open>
  The block lies in entry \<open>i\<close>; \<open>free_ctx\<close> collects what the four cases share: the search finds the
  entry, and the two comparisons of the code are comparisons of natural numbers.
\<close>

definition free_ctx :: "lmb \<Rightarrow> nat \<Rightarrow> u32 \<Rightarrow> u32 \<Rightarrow> bool" where
  "free_ctx l i b s \<longleftrightarrow> wf_rgn (reserved l) \<and> i < unat (cnt (reserved l)) \<and> 0 < unat s \<and>
     unat b + unat s < 2 ^ 32 \<and> block b s \<subseteq> prange (region (reserved l) ! i)"

lemma free_ctx_facts:
  assumes c: "free_ctx l i b s"
  defines "p \<equiv> region (reserved l) ! i"
  shows "rd (region (reserved l)) i = Some p" and "i \<noteq> unat (cnt (reserved l))"
    and "lmb_find (\<lambda>p. lp_base p \<le> b \<and> b + s \<le> lp_base p + lp_size p) (reserved l) 0 = Some i"
    and "okp p" and "pbase p \<le> unat b" and "unat b + unat s \<le> pend p"
    and "lp_base p = b \<longleftrightarrow> pbase p = unat b"
    and "lp_base p + lp_size p = b + s \<longleftrightarrow> pend p = unat b + unat s"
    and "unat (lp_size p - s) = unat (lp_size p) - unat s"
    and "unat (b + s) = unat b + unat s"
    and "prange p \<subseteq> rgn_addrs (reserved l)"
proof -
  have wf: "wf_rgn (reserved l)" and i: "i < unat (cnt (reserved l))" and s: "0 < unat s"
    and nw: "unat b + unat s < 2 ^ 32" and sub: "block b s \<subseteq> prange p"
    using c by (simp_all add: free_ctx_def p_def)
  show ok: "okp p" unfolding p_def by (rule wf_entry [OF wf i])
  show "rd (region (reserved l)) i = Some p"
    using wf i by (simp add: p_def wf_rgn_def MAX_LMB_REGIONS_def)
  show "i \<noteq> unat (cnt (reserved l))" using i by simp
  show "lmb_find (\<lambda>p. lp_base p \<le> b \<and> b + s \<le> lp_base p + lp_size p) (reserved l) 0 = Some i"
    using free_find [OF wf i s sub [unfolded p_def] nw] .
  show bnd: "pbase p \<le> unat b" "unat b + unat s \<le> pend p"
    using sub s by (simp_all add: prange_def)
  show "unat (b + s) = unat b + unat s" by (rule unat_add_nowrap [OF nw])
  then show "lp_base p + lp_size p = b + s \<longleftrightarrow> pend p = unat b + unat s"
    using pend_word [OF ok] by (simp add: word_unat_eq_iff)
  show "lp_base p = b \<longleftrightarrow> pbase p = unat b"
    by (simp add: pbase_def word_unat_eq_iff)
  show "unat (lp_size p - s) = unat (lp_size p) - unat s"
    using bnd by (intro unat_sub) (simp add: word_le_nat_alt inv_defs)
  show "prange p \<subseteq> rgn_addrs (reserved l)"
    using rgn_addrs_nth [OF wf] i by (auto simp: p_def)
qed

lemma free_ctx_wf: "free_ctx l i b s \<Longrightarrow> wf_rgn (reserved l) \<and> i < unat (cnt (reserved l))"
  by (simp add: free_ctx_def)

text \<open>The whole entry is freed.\<close>

lemma free_whole:
  assumes c: "free_ctx l i b s" and p: "p = region (reserved l) ! i"
    and e: "pbase p = unat b" "pend p = unat b + unat s"
  shows "\<exists>r'. lmb_free l b s = Some (l\<lparr>reserved := r'\<rparr>, 0) \<and>
    rgn_addrs r' = rgn_addrs (reserved l) - block b s \<and>
    (1 < unat (cnt (reserved l)) \<longrightarrow> wf_rgn r')"
proof -
  note f = free_ctx_facts [OF c, folded p]
  have "block b s = prange p" using e by (simp add: prange_def)
  moreover obtain r' where r': "lmb_remove_region (reserved l) i = Some r'"
    "rgn_addrs r' = rgn_addrs (reserved l) - prange p"
    "1 < unat (cnt (reserved l)) \<longrightarrow> wf_rgn r'"
    using remove_entry [of "reserved l" i] free_ctx_wf [OF c] p by auto
  ultimately show ?thesis using f(1-3,7,8) e by (intro exI [of _ r']) (simp add: lmb_free_def Let_def)
qed

text \<open>The front or the back of the entry is freed.\<close>

lemma free_front:
  assumes c: "free_ctx l i b s" and p: "p = region (reserved l) ! i"
    and e: "pbase p = unat b" "unat b + unat s < pend p"
  shows "\<exists>r'. lmb_free l b s = Some (l\<lparr>reserved := r'\<rparr>, 0) \<and>
    rgn_addrs r' = rgn_addrs (reserved l) - block b s \<and> wf_rgn r'"
proof -
  note f = free_ctx_facts [OF c, folded p]
  define q where "q = mk_prop (b + s) (lp_size p - s)"
  have q: "pbase q = unat b + unat s" "pend q = pend p" "okp q"
    using e f(4,9,10) by (auto simp: q_def pbase_def pend_def okp_def)
  have "lmb_free l b s =
      Some (l\<lparr>reserved := (reserved l)\<lparr>region := (region (reserved l))[i := q]\<rparr>\<rparr>, 0)"
    using f(1-3,7,8) e by (simp add: lmb_free_def Let_def q_def)
  moreover have "rgn_addrs (reserved l) - prange p \<union> prange q = rgn_addrs (reserved l) - block b s"
    using e q f(11) by (auto simp: prange_def)
  ultimately show ?thesis
    using replace_entry [of "reserved l" i q] free_ctx_wf [OF c] q e p
    by (intro exI [of _ "(reserved l)\<lparr>region := (region (reserved l))[i := q]\<rparr>"]) simp
qed

lemma free_back:
  assumes c: "free_ctx l i b s" and p: "p = region (reserved l) ! i"
    and e: "pbase p < unat b" "pend p = unat b + unat s"
  shows "\<exists>r'. lmb_free l b s = Some (l\<lparr>reserved := r'\<rparr>, 0) \<and>
    rgn_addrs r' = rgn_addrs (reserved l) - block b s \<and> wf_rgn r'"
proof -
  note f = free_ctx_facts [OF c, folded p]
  define q where "q = mk_prop (lp_base p) (lp_size p - s)"
  have q: "pbase q = pbase p" "pend q = unat b" "okp q"
    using e f(4,9) by (auto simp: q_def pbase_def pend_def okp_def)
  have "lmb_free l b s =
      Some (l\<lparr>reserved := (reserved l)\<lparr>region := (region (reserved l))[i := q]\<rparr>\<rparr>, 0)"
    using f(1-3,7,8) e by (simp add: lmb_free_def Let_def q_def)
  moreover have "rgn_addrs (reserved l) - prange p \<union> prange q = rgn_addrs (reserved l) - block b s"
    using e q f(11) by (auto simp: prange_def)
  ultimately show ?thesis
    using replace_entry [of "reserved l" i q] free_ctx_wf [OF c] q e p
    by (intro exI [of _ "(reserved l)\<lparr>region := (region (reserved l))[i := q]\<rparr>"]) simp
qed

text \<open>
  The block is strictly inside the entry: the entry is cut and its tail is inserted again, unless
  the table is full, in which case the tail is lost and the call returns -1.
\<close>

lemma free_inside:
  assumes c: "free_ctx l i b s" and p: "p = region (reserved l) ! i"
    and e: "pbase p < unat b" "unat b + unat s < pend p"
  shows "\<exists>r' r. lmb_free l b s = Some (l\<lparr>reserved := r'\<rparr>, r) \<and> wf_rgn r' \<and>
    (r = - 1 \<and> unat (cnt (reserved l)) = MAX_LMB_REGIONS \<and>
       rgn_addrs r' = rgn_addrs (reserved l) - {unat b..<pend p} \<or>
     0 \<le> r \<and> rgn_addrs r' = rgn_addrs (reserved l) - block b s)"
proof -
  note f = free_ctx_facts [OF c, folded p]
  let ?R = "reserved l" and ?A = "rgn_addrs (reserved l)"
  define q where "q = mk_prop (lp_base p) (b - lp_base p)"
  define r1 where "r1 = ?R\<lparr>region := (region ?R)[i := q]\<rparr>"
  define t where "t = lp_base p + lp_size p - (b + s)"
  have db: "unat (b - lp_base p) = unat b - pbase p"
    using f(5) by (simp add: unat_sub word_le_nat_alt pbase_def)
  have q: "pbase q = pbase p" "pend q = unat b" "okp q"
    using e f(4) db by (auto simp: q_def pbase_def pend_def okp_def)
  have r1: "wf_rgn r1" "rgn_addrs r1 = ?A - prange p \<union> {pbase p..<unat b}" "cnt r1 = cnt ?R"
    using replace_entry [of ?R i q] free_ctx_wf [OF c] q e p f(6)
    by (simp_all add: r1_def prange_def)
  have t: "unat t = pend p - (unat b + unat s)"
    using e f(10) pend_word [OF f(4)] by (simp add: t_def unat_sub word_le_nat_alt)
  have blk: "block (b + s) t = {unat b + unat s..<pend p}" using t e f(10) by simp
  have eq: "lmb_free l b s = map_option (\<lambda>(rgn, r). (l\<lparr>reserved := rgn\<rparr>, r))
      (lmb_add_region r1 (b + s) t)"
    using f(1-3,7,8) e by (simp add: lmb_free_def Let_def q_def r1_def t_def)
  have "rgn_addrs r1 \<inter> block (b + s) t = {}"
    using e by (auto simp: r1(2) blk prange_def)
  moreover have "0 < unat t" "unat (b + s) + unat t < 2 ^ 32"
    using t e f(4,10) by (simp_all add: okp_def)
  ultimately obtain r2 c where a: "lmb_add_region r1 (b + s) t = Some (r2, c)"
    "c = - 1 \<and> r2 = r1 \<and> unat (cnt r1) = MAX_LMB_REGIONS \<or>
     0 \<le> c \<and> wf_rgn r2 \<and> rgn_addrs r2 = rgn_addrs r1 \<union> block (b + s) t"
    using add_region_inv [of r1 t "b + s"] r1(1) by (auto simp: rgn_inv_def)
  have "rgn_addrs r1 = ?A - {unat b..<pend p}"
    and "rgn_addrs r1 \<union> block (b + s) t = ?A - block b s"
    using e f(11) by (auto simp: r1(2) blk prange_def)
  with a r1 eq show ?thesis by (intro exI [of _ r2] exI [of _ c]) auto
qed

text \<open>A freed block is one the table holds within a single entry.\<close>

definition held :: "lmb_region \<Rightarrow> u32 \<Rightarrow> u32 \<Rightarrow> bool" where
  "held rgn b s \<longleftrightarrow> 0 < unat s \<and> unat b + unat s < 2 ^ 32 \<and>
     (\<exists>i < unat (cnt rgn). block b s \<subseteq> prange (region rgn ! i))"

lemma free_held:
  assumes wf: "wf_rgn (reserved l)" and h: "held (reserved l) b s"
  shows "\<exists>r' r. lmb_free l b s = Some (l\<lparr>reserved := r'\<rparr>, r) \<and>
    (rgn_addrs r' \<inter> block b s = {}) \<and> rgn_addrs r' \<subseteq> rgn_addrs (reserved l) \<and>
    (0 \<le> r \<and> rgn_addrs r' = rgn_addrs (reserved l) - block b s \<or>
     r = - 1 \<and> unat (cnt (reserved l)) = MAX_LMB_REGIONS) \<and>
    (1 < unat (cnt (reserved l)) \<longrightarrow> wf_rgn r')"
proof -
  obtain i where c: "free_ctx l i b s" using assms by (auto simp: held_def free_ctx_def)
  define p where p: "p = region (reserved l) ! i"
  note f = free_ctx_facts [OF c, folded p]
  consider "pbase p = unat b" "pend p = unat b + unat s" | "pbase p = unat b" "unat b + unat s < pend p"
    | "pbase p < unat b" "pend p = unat b + unat s" | "pbase p < unat b" "unat b + unat s < pend p"
    using f(5,6) by linarith
  then show ?thesis
  proof cases
    case 1
    from free_whole [OF c p 1] show ?thesis by auto
  next
    case 2
    from free_front [OF c p 2] show ?thesis by auto
  next
    case 3
    from free_back [OF c p 3] show ?thesis by auto
  next
    case 4
    from free_inside [OF c p 4] obtain r' r where r: "lmb_free l b s = Some (l\<lparr>reserved := r'\<rparr>, r)"
      "wf_rgn r'" "r = - 1 \<and> unat (cnt (reserved l)) = MAX_LMB_REGIONS \<and>
         rgn_addrs r' = rgn_addrs (reserved l) - {unat b..<pend p} \<or>
       0 \<le> r \<and> rgn_addrs r' = rgn_addrs (reserved l) - block b s" by blast
    moreover have "block b s \<subseteq> {unat b..<pend p}" using f(6) by auto
    ultimately show ?thesis by (intro exI [of _ r'] exI [of _ r]) blast
  qed
qed

end
