(* ===== verification/LmbAlloc.thy ===== *)
theory LmbAlloc
  imports LmbFree
begin

text \<open>
  Allocation from the logical memory block tables (\<^verbatim>\<open>__lmb_alloc_base\<close> of
  \<^verbatim>\<open>lib_generic/lmb.c\<close>): the table operations as an interface, soundness and
  completeness of the top-down search, and the limits of the code.
\<close>

section \<open>The interface of an address-range table\<close>

text \<open>
  What allocation needs of the reserved table: adding a block that meets no held address either
  adds exactly its addresses or is refused with the table unchanged, and the query decides whether
  a block meets a held address.
\<close>

locale range_table =
  fixes inv :: "'t \<Rightarrow> bool"
    and addrs :: "'t \<Rightarrow> nat set"
    and add :: "'t \<Rightarrow> u32 \<Rightarrow> u32 \<Rightarrow> ('t \<times> int) option"
    and query :: "'t \<Rightarrow> u32 \<Rightarrow> u32 \<Rightarrow> int option"
    and full :: "'t \<Rightarrow> bool"
  assumes add_law: "inv t \<Longrightarrow> 0 < unat s \<Longrightarrow> unat b + unat s < 2 ^ 32 \<Longrightarrow>
      addrs t \<inter> block b s = {} \<Longrightarrow>
      \<exists>t' r. add t b s = Some (t', r) \<and> inv t' \<and>
        (r < 0 \<and> t' = t \<and> full t \<or> 0 \<le> r \<and> addrs t' = addrs t \<union> block b s)"
    and query_law: "inv t \<Longrightarrow> 0 < unat s \<Longrightarrow> unat b + unat s < 2 ^ 32 \<Longrightarrow>
      \<exists>j. query t b s = Some j \<and> (j < 0 \<longleftrightarrow> addrs t \<inter> block b s = {})"
begin

lemma query_free:
  assumes "inv t" and "0 < unat s" and "unat b + unat s < 2 ^ 32" and "query t b s = Some j"
  shows "j < 0 \<longleftrightarrow> addrs t \<inter> block b s = {}"
  using query_law [OF assms(1-3)] assms(4) by auto

text \<open>Query, then add: the step by which a free block is claimed.\<close>

lemma claim:
  assumes inv: "inv t" and s: "0 < unat s" "unat b + unat s < 2 ^ 32"
    and q: "query t b s = Some j" "j < 0"
  shows "\<exists>t' r. add t b s = Some (t', r) \<and> inv t' \<and> addrs t \<inter> block b s = {} \<and>
    (r < 0 \<and> t' = t \<and> full t \<or> 0 \<le> r \<and> addrs t' = addrs t \<union> block b s)"
  using add_law [OF inv s] query_free [OF inv s q(1)] q(2) by auto

text \<open>A claimed block is reported as taken from then on.\<close>

lemma claimed_is_taken:
  assumes inv: "inv t" and s: "0 < unat s" "unat b + unat s < 2 ^ 32"
    and q: "query t b s = Some j" "j < 0" and a: "add t b s = Some (t', r)" "0 \<le> r"
    and c: "unat x \<in> block b s" "0 < unat n" "unat x + unat n < 2 ^ 32"
  shows "\<exists>k. query t' x n = Some k \<and> 0 \<le> k"
proof -
  from claim [OF inv s q] a have t': "inv t'" "addrs t' = addrs t \<union> block b s" by auto
  have "unat x \<in> addrs t' \<inter> block x n" using t'(2) c by simp
  then show ?thesis using query_law [OF t'(1) c(2,3)] by fastforce
qed

end

definition rgn_full :: "lmb_region \<Rightarrow> bool" where
  "rgn_full rgn \<longleftrightarrow> unat (cnt rgn) = MAX_LMB_REGIONS"

interpretation reserved_table:
  range_table rgn_inv rgn_addrs lmb_add_region lmb_overlaps_region rgn_full
proof
  fix t :: lmb_region and b s :: u32
  assume a: "rgn_inv t" "0 < unat s" "unat b + unat s < 2 ^ 32"
  show "\<exists>j. lmb_overlaps_region t b s = Some j \<and> (j < 0 \<longleftrightarrow> rgn_addrs t \<inter> block b s = {})"
  proof -
    from overlaps_region_inv [OF a] obtain j where j: "lmb_overlaps_region t b s = Some j"
      and d: "if j < 0 then rgn_addrs t \<inter> block b s = {}
       else nat j < unat (cnt t) \<and> okp (region t ! nat j) \<and> region t ! nat j \<in> set (active t) \<and>
         prange (region t ! nat j) \<inter> block b s \<noteq> {} \<and>
         (\<forall>k < nat j. prange (region t ! k) \<inter> block b s = {})"
      by blast
    show ?thesis
    proof (cases "j < 0")
      case False
      with d have "rgn_addrs t \<inter> block b s \<noteq> {}" unfolding rgn_addrs_def by fastforce
      with False j show ?thesis by simp
    qed (use j d in simp)
  qed
  assume "rgn_addrs t \<inter> block b s = {}"
  from add_region_inv [OF a this] a(1)
  show "\<exists>t' r. lmb_add_region t b s = Some (t', r) \<and> rgn_inv t' \<and>
      (r < 0 \<and> t' = t \<and> rgn_full t \<or> 0 \<le> r \<and> rgn_addrs t' = rgn_addrs t \<union> block b s)"
    by (auto simp: rgn_inv_def rgn_full_def)
qed

section \<open>Alignment\<close>

definition aligned :: "u32 \<Rightarrow> u32 \<Rightarrow> bool" where
  "aligned a align \<longleftrightarrow> a AND (align - 1) = 0"

lemma align_down_aligned [simp]: "aligned (lmb_align_down a align) align"
  by (simp add: aligned_def lmb_align_down_def and.assoc)

lemma align_down_le: "lmb_align_down a align \<le> a"
  by (simp add: lmb_align_down_def word_and_le2)

lemma align_down_unat: "unat (lmb_align_down a align) \<le> unat a"
  using align_down_le by (simp add: word_le_nat_alt [symmetric])

text \<open>For a power of two, \<open>lmb_align_down\<close> is the greatest multiple below.\<close>

lemma aligned_pow2: "aligned a (2 ^ k) \<longleftrightarrow> 2 ^ k dvd unat a"
proof -
  have "aligned a (2 ^ k) \<longleftrightarrow> take_bit k a = 0"
    by (simp add: aligned_def take_bit_eq_mask mask_eq_exp_minus_1)
  also have "\<dots> \<longleftrightarrow> unat (take_bit k a) = 0" by (simp only: unsigned_eq_0_iff)
  also have "\<dots> \<longleftrightarrow> 2 ^ k dvd unat a"
    by (simp only: unsigned_take_bit_eq) (simp add: take_bit_eq_0_iff)
  finally show ?thesis .
qed

lemma align_down_pow2: "unat (lmb_align_down a (2 ^ k)) = unat a div 2 ^ k * 2 ^ k"
proof -
  have "lmb_align_down a (2 ^ k) + take_bit k a = a"
  proof -
    have "(a AND NOT (mask k)) + (a AND mask k) = (a AND NOT (mask k)) OR (a AND mask k)"
      by (rule disjunctive_add_eq_or) (auto intro: bit_eqI simp: bit_simps)
    also have "\<dots> = a" by (rule bit_eqI) (auto simp: bit_simps)
    finally show ?thesis
      by (simp add: lmb_align_down_def take_bit_eq_mask mask_eq_exp_minus_1)
  qed
  moreover have "take_bit k a \<le> a" by (simp add: take_bit_eq_mask word_and_le2)
  ultimately have "lmb_align_down a (2 ^ k) = a - take_bit k a" by (simp add: eq_diff_eq)
  then have "unat (lmb_align_down a (2 ^ k)) = unat a - unat (take_bit k a)"
    using \<open>take_bit k a \<le> a\<close> by (simp add: unat_sub)
  moreover have "unat (take_bit k a) = unat a mod 2 ^ k"
    by (simp only: unsigned_take_bit_eq take_bit_eq_mod [of k "unat a"])
  ultimately show ?thesis by (simp add: minus_mod_eq_div_mult)
qed

lemma align_down_greatest:
  assumes "aligned x (2 ^ k)" and "x \<le> a"
  shows "x \<le> lmb_align_down a (2 ^ k)"
proof -
  obtain q where q: "unat x = 2 ^ k * q" using assms(1) by (auto simp: aligned_pow2)
  have "unat x \<le> unat a" using assms(2) by (simp add: word_le_nat_alt)
  then have "q \<le> unat a div 2 ^ k" using q by (simp add: less_eq_div_iff_mult_less_eq mult.commute)
  then have "unat x \<le> unat (lmb_align_down a (2 ^ k))"
    unfolding align_down_pow2 q by (simp add: mult.commute)
  then show ?thesis by (simp add: word_le_nat_alt)
qed

section \<open>The search in one memory region\<close>

text \<open>What a block returned for a request satisfies, and the step from one candidate to the next.\<close>

definition good_block :: "lmb_region \<Rightarrow> u32 \<Rightarrow> u32 \<Rightarrow> u32 \<Rightarrow> bool" where
  "good_block rsv s align a \<longleftrightarrow> a \<noteq> 0 \<and> aligned a align \<and> rgn_addrs rsv \<inter> block a s = {}"

definition claimed :: "lmb \<Rightarrow> lmb \<Rightarrow> u32 \<Rightarrow> u32 \<Rightarrow> bool" where
  "claimed l l' a s \<longleftrightarrow> memory l' = memory l \<and> rgn_inv (reserved l') \<and>
     rgn_addrs (reserved l') = rgn_addrs (reserved l) \<union> block a s"

lemma try_stop:
  assumes inv: "rgn_inv (reserved l)" and s: "0 < unat s" "unat base + unat s < 2 ^ 32"
    and round: "lmb_align_up s align = s" and g: "base \<noteq> 0" "lo \<le> base"
    and free: "rgn_addrs (reserved l) \<inter> block base s = {}"
  shows "(\<exists>l'. lmb_alloc_try l lo s align base = Some (Allocated l' base) \<and> claimed l l' base s) \<or>
    (lmb_alloc_try l lo s align base = Some (AddFailed l) \<and> rgn_full (reserved l))"
proof -
  obtain j where q: "lmb_overlaps_region (reserved l) base s = Some j" "j < 0"
    using reserved_table.query_law [OF inv s] free by auto
  from reserved_table.claim [OF inv s q] obtain t' r where
    a: "lmb_add_region (reserved l) base s = Some (t', r)" "rgn_inv t'" and
    c: "r < 0 \<and> t' = reserved l \<and> rgn_full (reserved l) \<or>
      0 \<le> r \<and> rgn_addrs t' = rgn_addrs (reserved l) \<union> block base s" by blast
  have eq: "lmb_alloc_try l lo s align base = (if r < 0 then Some (AddFailed (l\<lparr>reserved := t'\<rparr>))
      else Some (Allocated (l\<lparr>reserved := t'\<rparr>) base))"
    using g q a(1) round by (subst lmb_alloc_try.simps) simp
  show ?thesis using c a(2) by (auto simp: eq claimed_def)
qed

lemma try_step:
  assumes inv: "rgn_inv (reserved l)" and s: "0 < unat s" "unat base + unat s < 2 ^ 32"
    and g: "base \<noteq> 0" "lo \<le> base"
    and taken: "rgn_addrs (reserved l) \<inter> block base s \<noteq> {}"
  shows "\<exists>j p. lmb_overlaps_region (reserved l) base s = Some j \<and> 0 \<le> j \<and>
    rd (region (reserved l)) (nat j) = Some p \<and> p \<in> set (active (reserved l)) \<and> okp p \<and>
    prange p \<inter> block base s \<noteq> {} \<and>
    lmb_alloc_try l lo s align base = (if lp_base p < s then Some Exhausted
      else lmb_alloc_try l lo s align (lmb_align_down (lp_base p - s) align))"
proof -
  let ?R = "reserved l"
  from overlaps_region_inv [OF inv s] obtain j where j: "lmb_overlaps_region ?R base s = Some j"
    and d: "if j < 0 then rgn_addrs ?R \<inter> block base s = {}
      else nat j < unat (cnt ?R) \<and> okp (region ?R ! nat j) \<and> region ?R ! nat j \<in> set (active ?R) \<and>
        prange (region ?R ! nat j) \<inter> block base s \<noteq> {} \<and>
        (\<forall>k < nat j. prange (region ?R ! k) \<inter> block base s = {})"
    by blast
  have nn: "0 \<le> j" using d taken by (auto split: if_splits)
  have len: "unat (cnt ?R) \<le> length (region ?R)"
    using inv by (auto simp: rgn_inv_def wf_rgn_def empty_rgn_def MAX_LMB_REGIONS_def)
  with d nn have "rd (region ?R) (nat j) = Some (region ?R ! nat j)" by simp
  moreover from this have "lmb_alloc_try l lo s align base =
      (if lp_base (region ?R ! nat j) < s then Some Exhausted
       else lmb_alloc_try l lo s align (lmb_align_down (lp_base (region ?R ! nat j) - s) align))"
    using g j nn by (subst lmb_alloc_try.simps) simp
  ultimately show ?thesis using j nn d by auto
qed

lemma next_candidate:
  assumes ok: "okp p" and s: "0 < unat s" "unat base + unat s < 2 ^ 32"
    and hit: "prange p \<inter> block base s \<noteq> {}" and fits: "\<not> lp_base p < s"
    and n_def: "n = lmb_align_down (lp_base p - s) align"
  shows "unat n + unat s \<le> pbase p" and "unat n < unat base"
proof -
  have "unat (lp_base p - s) = pbase p - unat s" "unat s \<le> pbase p"
    using fits by (simp_all add: unat_sub pbase_def word_le_nat_alt not_less)
  then show n: "unat n + unat s \<le> pbase p"
    using align_down_unat [of "lp_base p - s" align] by (simp add: n_def)
  have "pbase p < unat base + unat s" using hit by (auto simp: prange_def)
  with n show "unat n < unat base" by simp
qed

lemma try_sound:
  assumes inv: "rgn_inv (reserved l)" and s: "0 < unat s" and round: "lmb_align_up s align = s"
    and lim: "unat base + unat s \<le> lim" "lim < 2 ^ 32" and al: "aligned base align"
  shows "\<exists>res. lmb_alloc_try l lo s align base = Some res \<and>
    (case res of Allocated l' a \<Rightarrow> good_block (reserved l) s align a \<and> lo \<le> a \<and>
         unat a + unat s \<le> lim \<and> claimed l l' a s
     | AddFailed l' \<Rightarrow> l' = l \<and> rgn_full (reserved l)
     | Exhausted \<Rightarrow> True)"
  using lim(1) al
proof (induction "unat base" arbitrary: base rule: less_induct)
  case less
  have nw: "unat base + unat s < 2 ^ 32" using less.prems lim(2) by simp
  show ?case
  proof (cases "base \<noteq> 0 \<and> lo \<le> base")
    case False
    then have "lmb_alloc_try l lo s align base = Some Exhausted"
      by (subst lmb_alloc_try.simps) auto
    then show ?thesis by simp
  next
    case g: True
    show ?thesis
    proof (cases "rgn_addrs (reserved l) \<inter> block base s = {}")
      case True
      from try_stop [OF inv s nw round _ _ True, of lo] g have
        "(\<exists>l'. lmb_alloc_try l lo s align base = Some (Allocated l' base) \<and> claimed l l' base s) \<or>
         (lmb_alloc_try l lo s align base = Some (AddFailed l) \<and> rgn_full (reserved l))" by simp
      with g less.prems True show ?thesis
        by (elim disjE exE conjE) (simp_all add: good_block_def)
    next
      case False
      from try_step [OF inv s nw _ _ False] g obtain p where p: "okp p"
        "prange p \<inter> block base s \<noteq> {}"
        "lmb_alloc_try l lo s align base = (if lp_base p < s then Some Exhausted
          else lmb_alloc_try l lo s align (lmb_align_down (lp_base p - s) align))"
        by blast
      show ?thesis
      proof (cases "lp_base p < s")
        case False
        note n = next_candidate [OF p(1) s nw p(2) False refl, of align]
        have "pbase p \<le> lim" using p(2) less.prems by (auto simp: prange_def)
        with n less.hyps [OF n(2)] p(3) False show ?thesis by simp
      qed (use p in simp)
    qed
  qed
qed

lemma gap_taken:
  assumes p: "okp p" "p \<in> set (active rgn)" and fits: "\<not> lp_base p < s"
    and hit: "prange p \<inter> block base s \<noteq> {}" and s: "0 < unat s"
    and x: "aligned x (2 ^ k)" "x \<le> base" "lmb_align_down (lp_base p - s) (2 ^ k) < x"
  shows "rgn_addrs rgn \<inter> block x s \<noteq> {}"
proof -
  have "\<not> x \<le> lp_base p - s" using align_down_greatest [OF x(1)] x(3) by (meson leD)
  then have "pbase p < unat x + unat s"
    using fits by (auto simp: word_le_nat_alt unat_sub pbase_def word_less_nat_alt)
  moreover have "unat x < pend p"
    using hit x(2) by (auto simp: prange_def word_le_nat_alt)
  moreover have "max (unat x) (pbase p) \<in> prange p \<inter> block x s"
    using calculation s okp_less [OF p(1)] by (auto simp: prange_def)
  ultimately show ?thesis using p(2) by (auto simp: rgn_addrs_def)
qed

text \<open>
  For a power-of-two alignment the search is complete: when it gives up, every aligned candidate
  at or below the first one meets a reserved address.
\<close>

lemma try_complete:
  assumes inv: "rgn_inv (reserved l)" and s: "0 < unat s"
    and nw: "unat base + unat s < 2 ^ 32"
    and ex: "lmb_alloc_try l lo s (2 ^ k) base = Some Exhausted"
    and round: "lmb_align_up s (2 ^ k) = s"
    and x: "aligned x (2 ^ k)" "x \<noteq> 0" "lo \<le> x" "x \<le> base"
  shows "rgn_addrs (reserved l) \<inter> block x s \<noteq> {}"
  using nw ex x(4)
proof (induction "unat base" arbitrary: base rule: less_induct)
  case less
  have g: "base \<noteq> 0" "lo \<le> base" using less.prems(3) x by auto
  show ?case
  proof (cases "rgn_addrs (reserved l) \<inter> block base s = {}")
    case True
    with try_stop [OF inv s less.prems(1) round g] less.prems(2) show ?thesis by auto
  next
    case False
    from try_step [OF inv s less.prems(1) g False] obtain p where p: "okp p"
      "p \<in> set (active (reserved l))" "prange p \<inter> block base s \<noteq> {}"
      "lmb_alloc_try l lo s (2 ^ k) base = (if lp_base p < s then Some Exhausted
        else lmb_alloc_try l lo s (2 ^ k) (lmb_align_down (lp_base p - s) (2 ^ k)))"
      by blast
    show ?thesis
    proof (cases "lp_base p < s")
      case True
      have "unat x < pend p" using p(3) less.prems(3) by (auto simp: prange_def word_le_nat_alt)
      moreover have "pbase p < unat x + unat s"
        using True by (simp add: word_less_nat_alt pbase_def)
      moreover have "max (unat x) (pbase p) \<in> prange p \<inter> block x s"
        using calculation s okp_less [OF p(1)] by (auto simp: prange_def)
      ultimately show ?thesis using p(2) by (auto simp: rgn_addrs_def)
    next
      case False
      note n = next_candidate [OF p(1) s less.prems(1) p(3) False refl, of "2 ^ k"]
      show ?thesis
      proof (cases "x \<le> lmb_align_down (lp_base p - s) (2 ^ k)")
        case True
        have "pbase p < 2 ^ 32" using p(1) by (simp add: okp_def pend_def pbase_def)
        then show ?thesis using less.hyps [OF n(2) _ _ True] n(1) p(4) False less.prems(2) by simp
      next
        case nle: False
        then show ?thesis
          using gap_taken [OF p(1,2) False p(3) s x(1) less.prems(3)] by simp
      qed
    qed
  qed
qed

section \<open>The search over the memory regions\<close>

text \<open>The end of the usable part of a memory region, and the first candidate in it.\<close>

definition limit :: "lmb_property \<Rightarrow> u32 \<Rightarrow> nat" where
  "limit p max_addr = (if max_addr = 0 then pend p else min (pend p) (unat max_addr))"

definition first_candidate :: "lmb_property \<Rightarrow> u32 \<Rightarrow> u32 \<Rightarrow> u32 \<Rightarrow> u32" where
  "first_candidate p sz align max_addr = (if max_addr = 0
     then lmb_align_down (lp_base p + lp_size p - sz) align
     else lmb_align_down (min (lp_base p + lp_size p) max_addr - sz) align)"

lemma min_unat: "unat (min a b) = min (unat a) (unat (b :: u32))"
  by (simp add: min_def word_le_nat_alt)

lemma first_candidate_eq:
  assumes "okp p" and "\<not> lp_size p < s" and "max_addr = 0 \<or> s \<le> max_addr"
  shows "\<exists>t. first_candidate p s align max_addr = lmb_align_down t align \<and>
    unat t = limit p max_addr - unat s \<and> unat s \<le> limit p max_addr"
proof -
  define e where "e = (if max_addr = 0 then lp_base p + lp_size p
    else min (lp_base p + lp_size p) max_addr)"
  have e: "unat e = limit p max_addr"
    by (simp add: e_def limit_def min_unat pend_word [OF assms(1)])
  moreover have "unat s \<le> limit p max_addr"
    using assms by (auto simp: limit_def word_le_nat_alt pend_def not_less)
  ultimately have "unat (e - s) = limit p max_addr - unat s"
    by (simp add: unat_sub word_le_nat_alt)
  moreover have "first_candidate p s align max_addr = lmb_align_down (e - s) align"
    by (simp add: first_candidate_def e_def)
  ultimately show ?thesis using \<open>unat s \<le> limit p max_addr\<close> by blast
qed

lemma first_candidate_bounds:
  assumes "okp p" and "\<not> lp_size p < s" and "max_addr = 0 \<or> s \<le> max_addr"
  shows "unat (first_candidate p s align max_addr) + unat s \<le> limit p max_addr"
    and "aligned (first_candidate p s align max_addr) align"
    and "limit p max_addr < 2 ^ 32"
    and "aligned x (2 ^ k) \<Longrightarrow> unat x + unat s \<le> limit p max_addr \<Longrightarrow>
      x \<le> first_candidate p s (2 ^ k) max_addr"
proof -
  obtain t where t: "first_candidate p s align max_addr = lmb_align_down t align"
    "unat t = limit p max_addr - unat s" "unat s \<le> limit p max_addr"
    using first_candidate_eq [OF assms] by blast
  show "unat (first_candidate p s align max_addr) + unat s \<le> limit p max_addr"
    using t align_down_unat [of t align] by simp
  show "aligned (first_candidate p s align max_addr) align" using t by simp
  show "limit p max_addr < 2 ^ 32" using assms(1) by (auto simp: limit_def okp_def)
  assume x: "aligned x (2 ^ k)" "unat x + unat s \<le> limit p max_addr"
  obtain u where u: "first_candidate p s (2 ^ k) max_addr = lmb_align_down u (2 ^ k)"
    "unat u = limit p max_addr - unat s"
    using first_candidate_eq [OF assms] by blast
  have "x \<le> u" using x(2) u(2) by (simp add: word_le_nat_alt)
  then show "x \<le> first_candidate p s (2 ^ k) max_addr"
    unfolding u(1) by (rule align_down_greatest [OF x(1)])
qed

text \<open>The entries of the memory table the loop visits.\<close>

lemma memory_entry:
  assumes "rgn_inv m" and "i < unat (cnt m)"
  shows "rd (region m) i = Some (region m ! i)"
    and "\<not> lp_size (region m ! i) < s \<Longrightarrow> 0 < unat s \<Longrightarrow> okp (region m ! i)"
proof -
  show "rd (region m) i = Some (region m ! i)"
    using assms by (auto simp: rgn_inv_def wf_rgn_def empty_rgn_def MAX_LMB_REGIONS_def)
  assume s: "\<not> lp_size (region m ! i) < s" "0 < unat s"
  show "okp (region m ! i)"
  proof (cases "wf_rgn m")
    case True
    then show ?thesis using assms(2) by (rule wf_entry)
  next
    case False
    with assms have "region m ! i = mk_prop 0 0" by (auto simp: rgn_inv_def empty_rgn_def)
    with s show ?thesis by (simp add: word_less_nat_alt)
  qed
qed

lemma alloc_from_Suc:
  assumes "rd (region (memory l)) i = Some p"
  shows "lmb_alloc_from (Suc i) l s align m =
    (if lp_size p < s \<or> (m \<noteq> 0 \<and> m \<le> lp_base p) then lmb_alloc_from i l s align m
     else (case lmb_alloc_try l (lp_base p) s align (first_candidate p s align m) of
        None \<Rightarrow> None
      | Some (Allocated l' b) \<Rightarrow> Some (l', b)
      | Some (AddFailed l') \<Rightarrow> Some (l', 0)
      | Some Exhausted \<Rightarrow> lmb_alloc_from i l s align m))"
  using assms by (simp add: first_candidate_def)

declare lmb_alloc_from.simps(2) [simp del]

definition block_in :: "lmb_property \<Rightarrow> u32 \<Rightarrow> u32 \<Rightarrow> u32 \<Rightarrow> bool" where
  "block_in p a s m \<longleftrightarrow> pbase p \<le> unat a \<and> unat a + unat s \<le> limit p m"

lemma alloc_from_sound:
  assumes mem: "rgn_inv (memory l)" and inv: "rgn_inv (reserved l)" and s: "0 < unat s"
    and round: "lmb_align_up s align = s" and m: "m = 0 \<or> s \<le> m"
    and n: "n \<le> unat (cnt (memory l))"
  shows "\<exists>l' a. lmb_alloc_from n l s align m = Some (l', a) \<and>
    (a = 0 \<and> l' = l \<or> good_block (reserved l) s align a \<and> claimed l l' a s \<and>
       (\<exists>i < n. block_in (region (memory l) ! i) a s m))"
  using n
proof (induction n)
  case (Suc i)
  let ?p = "region (memory l) ! i"
  have i: "i < unat (cnt (memory l))" using Suc.prems by simp
  note rd = memory_entry(1) [OF mem i]
  from Suc have IH: "\<exists>l' a. lmb_alloc_from i l s align m = Some (l', a) \<and>
    (a = 0 \<and> l' = l \<or> good_block (reserved l) s align a \<and> claimed l l' a s \<and>
       (\<exists>h < Suc i. block_in (region (memory l) ! h) a s m))"
    by (auto simp: less_Suc_eq)
  show ?case
  proof (cases "lp_size ?p < s \<or> (m \<noteq> 0 \<and> m \<le> lp_base ?p)")
    case True
    then show ?thesis using IH by (simp only: alloc_from_Suc [OF rd] if_True)
  next
    case False
    then have ok: "okp ?p" using memory_entry(2) [OF mem i, of s] s by simp
    note c = first_candidate_bounds [OF ok _ m] False
    from try_sound [OF inv s round c(1,3,2), of "lp_base ?p"] False
    obtain res where t: "lmb_alloc_try l (lp_base ?p) s align (first_candidate ?p s align m) = Some res"
      and d: "case res of Allocated l' a \<Rightarrow> good_block (reserved l) s align a \<and> lp_base ?p \<le> a \<and>
         unat a + unat s \<le> limit ?p m \<and> claimed l l' a s
       | AddFailed l' \<Rightarrow> l' = l \<and> rgn_full (reserved l) | Exhausted \<Rightarrow> True" by blast
    show ?thesis
    proof (cases res)
      case (Allocated l' a)
      then have "block_in ?p a s m" using d by (simp add: block_in_def pbase_def word_le_nat_alt)
      then show ?thesis using d t False Allocated by (auto simp: alloc_from_Suc [OF rd])
    next
      case (AddFailed l')
      then show ?thesis using d t False by (auto simp: alloc_from_Suc [OF rd])
    next
      case Exhausted
      then show ?thesis using IH t False by (simp only: alloc_from_Suc [OF rd]) simp
    qed
  qed
qed simp

lemma alloc_from_complete:
  assumes mem: "rgn_inv (memory l)" and inv: "rgn_inv (reserved l)" and s: "0 < unat s"
    and round: "lmb_align_up s (2 ^ k) = s" and m: "m = 0 \<or> s \<le> m"
    and nf: "\<not> rgn_full (reserved l)"
    and n: "n \<le> unat (cnt (memory l))" and r: "lmb_alloc_from n l s (2 ^ k) m = Some (l', 0)"
    and x: "i < n" "block_in (region (memory l) ! i) x s m" "aligned x (2 ^ k)" "x \<noteq> 0"
  shows "rgn_addrs (reserved l) \<inter> block x s \<noteq> {}"
  using n r x(1)
proof (induction n)
  case (Suc j)
  let ?p = "region (memory l) ! j"
  have j: "j < unat (cnt (memory l))" using Suc.prems by simp
  note rd = memory_entry(1) [OF mem j]
  show ?case
  proof (cases "lp_size ?p < s \<or> (m \<noteq> 0 \<and> m \<le> lp_base ?p)")
    case True
    have "i \<noteq> j"
    proof
      assume "i = j"
      then have "pbase ?p \<le> unat x" "unat x + unat s \<le> limit ?p m"
        using x(2) by (simp_all add: block_in_def)
      with True s show False
        by (auto simp: limit_def pbase_def pend_def word_less_nat_alt word_le_nat_alt split: if_splits)
    qed
    then show ?thesis using Suc True by (simp add: alloc_from_Suc [OF rd])
  next
    case False
    then have ok: "okp ?p" using memory_entry(2) [OF mem j, of s] s by simp
    note c = first_candidate_bounds [OF ok _ m] False
    from try_sound [OF inv s round c(1,3,2), of "lp_base ?p"] False
    obtain res where t: "lmb_alloc_try l (lp_base ?p) s (2 ^ k) (first_candidate ?p s (2 ^ k) m) = Some res"
      and d: "case res of Allocated l' a \<Rightarrow> good_block (reserved l) s (2 ^ k) a \<and> lp_base ?p \<le> a \<and>
         unat a + unat s \<le> limit ?p m \<and> claimed l l' a s
       | AddFailed l' \<Rightarrow> l' = l \<and> rgn_full (reserved l) | Exhausted \<Rightarrow> True" by blast
    have ex: "res = Exhausted"
      using d t nf Suc.prems(2) False
      by (cases res) (auto simp: alloc_from_Suc [OF rd] good_block_def)
    show ?thesis
    proof (cases "i = j")
      case True
      with x(2) have b: "lp_base ?p \<le> x" "unat x + unat s \<le> limit ?p m"
        by (simp_all add: block_in_def pbase_def word_le_nat_alt)
      have "unat (first_candidate ?p s (2 ^ k) m) + unat s < 2 ^ 32"
        using c(1,3) False by (meson le_less_trans)
      then show ?thesis
        using try_complete [OF inv s _ _ round x(3,4) b(1)] t ex c(4) [OF _ x(3) b(2)] False by simp
    next
      case False
      then show ?thesis
        using Suc t ex \<open>\<not> (lp_size ?p < s \<or> _)\<close> by (simp add: alloc_from_Suc [OF rd])
    qed
  qed
qed simp

end
