(* ===== verification/LmbProps.thy ===== *)
theory LmbProps
  imports LmbAlloc
begin

text \<open>
  The properties of the logical memory block manager, each a few steps over the lemmas of
  \<open>LmbCorrect\<close>, \<open>LmbFree\<close> and \<open>LmbAlloc\<close>, with their concrete instances, and the sequences of
  calls on which the code does not do what it means to.
\<close>

section \<open>Concrete tables\<close>

definition ex_table :: "(u32 \<times> u32) list \<Rightarrow> lmb_region" where
  "ex_table xs = \<lparr>cnt = of_nat (length xs), rgn_size = 0,
     region = map (\<lambda>(b, s). mk_prop b s) xs @ replicate (9 - length xs) (mk_prop 0 0)\<rparr>"

definition ex_lmb :: lmb where
  "ex_lmb = \<lparr>memory = ex_table [(0x40000000, 0x40000000)],
     reserved = ex_table [(0x40008000, 0x8000), (0x7FF00000, 0x100000)]\<rparr>"

lemma ex_memory_inv: "rgn_inv (memory ex_lmb)"
  by (simp add: ex_lmb_def ex_table_def inv_defs sep_def active_def)

lemma ex_reserved_wf: "wf_rgn (reserved ex_lmb)"
  by (simp add: ex_lmb_def ex_table_def inv_defs sep_def active_def)

lemma ex_reserved_inv: "rgn_inv (reserved ex_lmb)"
  using ex_reserved_wf by (simp add: rgn_inv_def)

lemma ex_reserved_addrs:
  "rgn_addrs (reserved ex_lmb) = {0x40008000..<0x40010000} \<union> {0x7FF00000..<0x80000000}"
  by (simp add: ex_lmb_def ex_table_def rgn_addrs_def active_def prange_def pbase_def pend_def)

section \<open>Reservation\<close>

text \<open>C12. Reserving a nonempty block that does not wrap and meets no reserved address always
  returns, keeps the table sorted, separated and inside its array, and either adds exactly the
  block's addresses or, with the table full, returns -1 and changes nothing.\<close>

theorem lmb_reserve_adds_block:
  assumes "rgn_inv (reserved l)" and "0 < unat s" and "unat b + unat s < 2 ^ 32"
    and "rgn_addrs (reserved l) \<inter> {unat b..<unat b + unat s} = {}"
  shows "\<exists>l' r. lmb_reserve l b s = Some (l', r) \<and> memory l' = memory l \<and>
    rgn_inv (reserved l') \<and>
    (r < 0 \<and> l' = l \<and> unat (cnt (reserved l)) = MAX_LMB_REGIONS \<or>
     0 \<le> r \<and> rgn_addrs (reserved l') = rgn_addrs (reserved l) \<union> {unat b..<unat b + unat s})"
  using reserved_table.add_law [OF assms] by (auto simp: lmb_reserve_def rgn_full_def)

theorem lmb_reserve_adds_block_witness:
  "\<exists>l' r. lmb_reserve ex_lmb 0x40010000 0x1000 = Some (l', r) \<and> memory l' = memory ex_lmb \<and>
    rgn_inv (reserved l') \<and>
    (r < 0 \<and> l' = ex_lmb \<and> unat (cnt (reserved ex_lmb)) = MAX_LMB_REGIONS \<or>
     0 \<le> r \<and> rgn_addrs (reserved l') = rgn_addrs (reserved ex_lmb) \<union>
       {unat (0x40010000 :: u32)..<unat (0x40010000 :: u32) + unat (0x1000 :: u32)})"
  by (rule lmb_reserve_adds_block) (auto simp: ex_reserved_inv ex_reserved_addrs)

text \<open>\<open>lmb_is_reserved\<close> decides membership in the reserved addresses.\<close>

theorem lmb_is_reserved_iff:
  assumes "wf_rgn (reserved l)"
  shows "lmb_is_reserved l a = Some (if unat a \<in> rgn_addrs (reserved l) then 1 else 0)"
  using is_reserved_inv [OF assms] by simp

theorem lmb_is_reserved_iff_witness:
  "lmb_is_reserved ex_lmb 0x40008000 = Some 1 \<and> lmb_is_reserved ex_lmb 0x40010000 = Some 0"
  using lmb_is_reserved_iff [OF ex_reserved_wf, of "0x40008000"]
    lmb_is_reserved_iff [OF ex_reserved_wf, of "0x40010000"]
  by (simp add: ex_reserved_addrs)

section \<open>Freeing\<close>

text \<open>C13. Freeing a block held by one entry returns, takes the block's addresses out of the
  table and takes nothing else out, except that splitting an entry of a full table has no room for
  the part above the block (result -1); unless the table held that single entry, the invariant is
  kept.\<close>

theorem lmb_free_removes_block:
  assumes "wf_rgn (reserved l)" and "held (reserved l) b s"
  shows "\<exists>r' r. lmb_free l b s = Some (l\<lparr>reserved := r'\<rparr>, r) \<and>
    rgn_addrs r' \<inter> {unat b..<unat b + unat s} = {} \<and> rgn_addrs r' \<subseteq> rgn_addrs (reserved l) \<and>
    (0 \<le> r \<and> rgn_addrs r' = rgn_addrs (reserved l) - {unat b..<unat b + unat s} \<or>
     r = - 1 \<and> unat (cnt (reserved l)) = MAX_LMB_REGIONS) \<and>
    (1 < unat (cnt (reserved l)) \<longrightarrow> wf_rgn r')"
  by (rule free_held [OF assms])

lemma ex_held: "held (reserved ex_lmb) 0x40009000 0x1000"
  unfolding held_def
  by (intro conjI exI [of _ 0])
    (simp_all add: ex_lmb_def ex_table_def prange_def pbase_def pend_def)

theorem lmb_free_removes_block_witness:
  "\<exists>r' r. lmb_free ex_lmb 0x40009000 0x1000 = Some (ex_lmb\<lparr>reserved := r'\<rparr>, r) \<and>
    0 \<le> r \<and> rgn_addrs r' = rgn_addrs (reserved ex_lmb) - {0x40009000..<0x4000A000}"
proof -
  have "unat (cnt (reserved ex_lmb)) \<noteq> MAX_LMB_REGIONS"
    by (simp add: ex_lmb_def ex_table_def MAX_LMB_REGIONS_def)
  then show ?thesis
    using lmb_free_removes_block [OF ex_reserved_wf ex_held] by auto
qed

section \<open>Allocation\<close>

text \<open>C11. Allocation with a size the alignment does not round up and a bound that is zero or at
  least the size always returns. A nonzero result is an aligned block inside one memory region and
  below the bound that met no reserved address, and the reserved table has gained exactly that
  block; a zero result leaves both tables unchanged.\<close>

theorem lmb_alloc_base_sound:
  assumes "rgn_inv (memory l)" and "rgn_inv (reserved l)" and "0 < unat s"
    and "lmb_align_up s align = s" and "m = 0 \<or> s \<le> m"
  shows "\<exists>l' a. lmb_alloc_base l s align m = Some (l', a) \<and>
    (a = 0 \<and> l' = l \<or>
     good_block (reserved l) s align a \<and> claimed l l' a s \<and>
     (\<exists>i < unat (cnt (memory l)). block_in (region (memory l) ! i) a s m))"
  using alloc_from_sound [OF assms order_refl]
  by (simp add: lmb_alloc_base_def lmb_alloc_base_raw_def)

theorem lmb_alloc_base_sound_witness:
  "\<exists>l' a. lmb_alloc_base ex_lmb 0x2000 0x1000 0 = Some (l', a) \<and>
    (a = 0 \<and> l' = ex_lmb \<or>
     good_block (reserved ex_lmb) 0x2000 0x1000 a \<and> claimed ex_lmb l' a 0x2000 \<and>
     (\<exists>i < unat (cnt (memory ex_lmb)). block_in (region (memory ex_lmb) ! i) a 0x2000 0))"
  by (rule lmb_alloc_base_sound) (simp_all add: ex_memory_inv ex_reserved_inv lmb_align_up_def)

text \<open>C14. For a power-of-two alignment the search is complete: with room in the reserved table,
  a failed allocation means that every aligned nonzero block of the size inside a memory region and
  below the bound meets a reserved address.\<close>

theorem lmb_alloc_base_complete:
  assumes "rgn_inv (memory l)" and "rgn_inv (reserved l)" and "0 < unat s"
    and "lmb_align_up s (2 ^ k) = s" and "m = 0 \<or> s \<le> m"
    and "unat (cnt (reserved l)) \<noteq> MAX_LMB_REGIONS"
    and "lmb_alloc_base l s (2 ^ k) m = Some (l', 0)"
    and "i < unat (cnt (memory l))" and "block_in (region (memory l) ! i) x s m"
    and "2 ^ k dvd unat x" and "x \<noteq> 0"
  shows "rgn_addrs (reserved l) \<inter> {unat x..<unat x + unat s} \<noteq> {}"
  using alloc_from_complete [OF assms(1-5) _ order_refl _ assms(8,9), of l'] assms(6,7,10,11)
  by (simp add: lmb_alloc_base_def lmb_alloc_base_raw_def rgn_full_def aligned_pow2)

definition ex_small :: lmb where
  "ex_small = \<lparr>memory = ex_table [(0x1000, 0x2000)], reserved = ex_table [(0x1800, 0x1000)]\<rparr>"

lemma ex_small_inv: "rgn_inv (memory ex_small)" "rgn_inv (reserved ex_small)"
  by (simp_all add: ex_small_def ex_table_def inv_defs sep_def active_def)

lemma ex_small_fails: "lmb_alloc_base ex_small 0x1000 (2 ^ 12) 0 = Some (ex_small, 0)"
  by code_simp

theorem lmb_alloc_base_complete_witness:
  "rgn_addrs (reserved ex_small) \<inter> {unat (0x1000 :: u32)..<unat (0x1000 :: u32) + unat (0x1000 :: u32)} \<noteq> {}"
  by (rule lmb_alloc_base_complete [of ex_small "0x1000" 12 0 ex_small 0, OF ex_small_inv _ _ _ _ ex_small_fails])
    (simp_all add: lmb_align_up_def,
     simp_all add: ex_small_def ex_table_def MAX_LMB_REGIONS_def block_in_def limit_def pbase_def pend_def)

lemma table_pad:
  "replicate 8 (z :: lmb_property) = [z, z, z, z, z, z, z, z]"
  by (simp add: numeral_eq_Suc)

lemma unat_max_u32: "unat (- 1 :: u32) = 4294967295"
  by (simp add: unsigned_minus_1_eq_mask mask_eq_exp_minus_1)

lemmas alloc_eval = ex_table_def lmb_alloc_base_def lmb_alloc_base_raw_def lmb_alloc_from.simps
  lmb_alloc_try.simps lmb_overlaps_region_def lmb_find.simps lmb_addrs_overlap_def
  lmb_align_down_def lmb_align_up_def lmb_add_region_def lmb_add_scan.simps
  lmb_addrs_adjacent_def lmb_regions_adjacent_def MAX_LMB_REGIONS_def
  table_pad lmb_free_def lmb_remove_region_def lmb_remove_shift.simps lmb_reserve_def
  lmb_coalesce_regions_def lmb_is_reserved_def unat_max_u32 rd_def

definition ex_low :: lmb where
  "ex_low = \<lparr>memory = ex_table [(0, 0x4000)], reserved = ex_table [(0, 0)]\<rparr>"

definition ex_near :: lmb where
  "ex_near = \<lparr>memory = ex_table [(0x1000, 0x4000)], reserved = ex_table [(0x4900, 0x1000)]\<rparr>"

section \<open>Where the code falls short\<close>

text \<open>A run of reservations and frees on the reserved table, the state after each call.\<close>

datatype lmb_call = Reserve u32 u32 | Free u32 u32

primrec run_call :: "lmb_call \<Rightarrow> lmb \<Rightarrow> lmb option" where
  "run_call (Reserve b s) l = map_option fst (lmb_reserve l b s)"
| "run_call (Free b s) l = map_option fst (lmb_free l b s)"

primrec run_calls :: "lmb_call list \<Rightarrow> lmb \<Rightarrow> lmb option" where
  "run_calls [] l = Some l"
| "run_calls (c # cs) l = (case run_call c l of None \<Rightarrow> None | Some l' \<Rightarrow> run_calls cs l')"

definition ex_fresh :: lmb where
  "ex_fresh = \<lparr>memory = ex_table [(0, 0)], reserved = ex_table [(0, 0)]\<rparr>"

text \<open>Freeing the only reserved block leaves the count at 0 but the entry in place; the next
  reservation stores its block behind the stale entry and counts one entry, so the freed block is
  reserved again and the requested one is not.\<close>

theorem lmb_reserve_after_last_free:
  "map_option (\<lambda>l. (lmb_is_reserved l 0x1000, lmb_is_reserved l 0x5000))
     (run_calls [Reserve 0x1000 0x1000, Free 0x1000 0x1000, Reserve 0x5000 0x1000] ex_fresh) =
   Some (Some 1, Some 0)"
  by (simp add: alloc_eval ex_fresh_def)

text \<open>With the count at 0 and two adjacent stale entries, the next reservation coalesces them
  and shifts the table by a count that wrapped to \<open>2 ^ 32 - 1\<close>: it runs past the array.\<close>

theorem lmb_reserve_past_table:
  "run_calls [Reserve 0x1000 0x1000, Reserve 0x3000 0x1000, Reserve 0x2000 0x1000,
     Free 0x3000 0x1000, Free 0x1000 0x2000] ex_fresh \<noteq> None \<and>
   run_calls [Reserve 0x1000 0x1000, Reserve 0x3000 0x1000, Reserve 0x2000 0x1000,
     Free 0x3000 0x1000, Free 0x1000 0x2000, Reserve 0x8000 0x1000] ex_fresh = None"
  by (simp add: alloc_eval ex_fresh_def)

text \<open>A bound below the size wraps in \<open>base - size\<close>: the returned address lies outside
  every memory region.\<close>

theorem lmb_alloc_bound_wraps:
  "map_option snd (lmb_alloc_base ex_low 0x2000 0x1000 0x1000) = Some 0xFFFFF000"
  by (simp add: alloc_eval ex_low_def)

text \<open>The reservation of an allocation is rounded up to the alignment after the overlap test
  was made with the unrounded size: the table ends with overlapping entries.\<close>

theorem lmb_alloc_rounds_into_neighbour:
  "map_option (\<lambda>(l, a). (a, map (\<lambda>p. (lp_base p, lp_size p)) (take 2 (region (reserved l)))))
     (lmb_alloc_base ex_near 0x800 0x1000 0) =
   Some (0x4000, [(0x4000, 0x1000), (0x4900, 0x1000)])"
  by (simp add: alloc_eval ex_near_def)

end
