(* ===== verification/CircBuf.thy ===== *)
theory CircBuf
  imports Prelude
begin

text \<open>
  The circular byte buffer of \<^verbatim>\<open>lib_generic/circbuf.c\<close>, used by the USB serial gadget.
  The pointers \<open>top\<close>, \<open>tail\<close> and \<open>end\<close> are offsets into the data block. The block returned by
  \<^verbatim>\<open>malloc\<close> is an argument of \<open>buf_init\<close>. A queue interface states what clients rely on.
\<close>

section \<open>State and operations\<close>

record circbuf =
  cb_size :: u32
  totalsize :: u32
  top :: nat
  tail :: nat
  cb_data :: mem
  cb_end :: nat

definition buf_init :: "u32 \<Rightarrow> mem \<Rightarrow> circbuf" where
  "buf_init sz blk =
     \<lparr>cb_size = 0, totalsize = sz, top = 0, tail = 0, cb_data = blk, cb_end = unat sz\<rparr>"

definition buf_free :: "circbuf \<Rightarrow> circbuf" where
  "buf_free b = \<lparr>cb_size = 0, totalsize = 0, top = 0, tail = 0, cb_data = [], cb_end = 0\<rparr>"

text \<open>Advancing a pointer with the bounds check against \<open>end\<close>.\<close>

definition bump :: "circbuf \<Rightarrow> nat \<Rightarrow> nat" where
  "bump b p = (if p + 1 = cb_end b then 0 else p + 1)"

text \<open>The copy loop of \<open>buf_pop\<close>: \<open>n\<close> bytes from offset \<open>p\<close> to \<open>dest[i]\<close> and on.\<close>

primrec pop_loop :: "circbuf \<Rightarrow> nat \<Rightarrow> nat \<Rightarrow> nat \<Rightarrow> mem \<Rightarrow> (nat \<times> mem) option" where
  "pop_loop b 0 p i dest = Some (p, dest)"
| "pop_loop b (Suc n) p i dest =
     (case rd (cb_data b) p of
        None \<Rightarrow> None
      | Some x \<Rightarrow> (case wr dest i x of
            None \<Rightarrow> None
          | Some dest' \<Rightarrow> pop_loop b n (bump b p) (i + 1) dest'))"

definition buf_pop :: "circbuf \<Rightarrow> mem \<Rightarrow> u32 \<Rightarrow> (circbuf \<times> mem \<times> u32) option" where
  "buf_pop b dest len = (let len = (if cb_size b < len then cb_size b else len) in do {
     (p, dest) \<leftarrow> pop_loop b (unat len) (top b) 0 dest;
     Some (b\<lparr>top := p, cb_size := cb_size b - len\<rparr>, dest, len)
   })"

text \<open>The loop of \<open>buf_push\<close>: each byte is stored at \<open>p\<close>; a full buffer drops its oldest byte.\<close>

fun push_loop :: "circbuf \<Rightarrow> byte list \<Rightarrow> nat \<Rightarrow> (circbuf \<times> nat) option" where
  "push_loop b [] p = Some (b, p)"
| "push_loop b (x # xs) p =
     (case wr (cb_data b) p x of
        None \<Rightarrow> None
      | Some d \<Rightarrow>
          (let b1 = b\<lparr>cb_data := d\<rparr>;
               b2 = (if cb_size b1 < totalsize b1 then b1\<lparr>cb_size := cb_size b1 + 1\<rparr>
                     else b1\<lparr>top := bump b1 (top b1)\<rparr>)
           in push_loop b2 xs (bump b p)))"

definition buf_push :: "circbuf \<Rightarrow> mem \<Rightarrow> u32 \<Rightarrow> (circbuf \<times> u32) option" where
  "buf_push b src len = do {
     xs \<leftarrow> rdn src 0 (unat len);
     (b, p) \<leftarrow> push_loop b xs (tail b);
     Some (b\<lparr>tail := p\<rparr>, len)
   }"

section \<open>Invariant and contents\<close>

definition cap :: "circbuf \<Rightarrow> nat" where
  "cap b = unat (totalsize b)"

definition cb_ok :: "circbuf \<Rightarrow> bool" where
  "cb_ok b \<longleftrightarrow> 0 < cap b \<and> length (cb_data b) = cap b \<and> cb_end b = cap b \<and> top b < cap b \<and>
     unat (cb_size b) \<le> cap b"

definition cb_inv :: "circbuf \<Rightarrow> bool" where
  "cb_inv b \<longleftrightarrow> cb_ok b \<and> tail b = (top b + unat (cb_size b)) mod cap b"

text \<open>The bytes held, oldest first.\<close>

definition contents :: "circbuf \<Rightarrow> byte list" where
  "contents b = map (\<lambda>k. cb_data b ! ((top b + k) mod cap b)) [0..<unat (cb_size b)]"

definition keep_last :: "nat \<Rightarrow> 'a list \<Rightarrow> 'a list" where
  "keep_last n xs = drop (length xs - n) xs"

lemma length_contents [simp]: "length (contents b) = unat (cb_size b)"
  by (simp add: contents_def)

lemma nth_contents:
  "k < unat (cb_size b) \<Longrightarrow> contents b ! k = cb_data b ! ((top b + k) mod cap b)"
  by (simp add: contents_def)

lemma bump_mod: "cb_ok b \<Longrightarrow> p < cap b \<Longrightarrow> bump b p = Suc p mod cap b"
  by (auto simp: bump_def cb_ok_def)

lemma keep_last_all: "length xs \<le> n \<Longrightarrow> keep_last n xs = xs"
  by (simp add: keep_last_def)

lemma keep_last_step: "keep_last n (keep_last n xs @ ys) = keep_last n (xs @ ys)"
  by (cases "length xs \<le> n") (auto simp: keep_last_def ac_simps)

lemma length_keep_last: "length (keep_last n xs) = min n (length xs)"
  by (simp add: keep_last_def)

lemma buf_init_inv:
  assumes "length blk = unat sz" and "0 < unat sz"
  shows "cb_inv (buf_init sz blk) \<and> contents (buf_init sz blk) = []"
  using assms by (simp add: cb_inv_def cb_ok_def cap_def buf_init_def contents_def)

section \<open>Pushing\<close>

text \<open>One byte, with room and without.\<close>

definition push_byte :: "circbuf \<Rightarrow> byte \<Rightarrow> nat \<Rightarrow> circbuf" where
  "push_byte b x p =
     (let b1 = b\<lparr>cb_data := (cb_data b)[p := x]\<rparr>
      in if cb_size b1 < totalsize b1 then b1\<lparr>cb_size := cb_size b1 + 1\<rparr>
         else b1\<lparr>top := bump b1 (top b1)\<rparr>)"

lemma push_loop_Cons:
  assumes "cb_ok b" and "p < cap b"
  shows "push_loop b (x # xs) p = push_loop (push_byte b x p) xs (bump b p)"
  using assms by (simp add: push_byte_def cb_ok_def Let_def)

lemma mod_ring_neq:
  assumes "j < n" and "k < j"
  shows "(t + k) mod n \<noteq> (t + j) mod (n :: nat)"
proof
  assume "(t + k) mod n = (t + j) mod n"
  then have "n dvd j - k" using assms(2) mod_eq_dvd_iff_nat [of "t + k" "t + j" n] by simp
  then show False using assms by (auto dest: dvd_imp_le)
qed

lemma unat_Suc_less: "(a :: u32) < b \<Longrightarrow> unat (a + 1) = Suc (unat a)"
proof -
  assume "a < b"
  moreover have "unat b < 2 ^ LENGTH(32)" by (rule unsigned_less)
  ultimately have "unat a + unat (1 :: u32) < 2 ^ LENGTH(32)"
    by (simp add: word_less_nat_alt)
  then have "unat (a + 1) = unat a + unat (1 :: u32)" by (rule unat_add_lem [THEN iffD1])
  then show "unat (a + 1) = Suc (unat a)" by simp
qed

lemma push_byte_room:
  assumes ok: "cb_ok b" and p: "p = (top b + unat (cb_size b)) mod cap b"
    and room: "unat (cb_size b) < cap b"
  shows "cb_ok (push_byte b x p) \<and> cap (push_byte b x p) = cap b \<and>
    contents (push_byte b x p) = contents b @ [x] \<and>
    bump b p = (top (push_byte b x p) + unat (cb_size (push_byte b x p))) mod cap b"
proof -
  let ?n = "cap b" and ?s = "unat (cb_size b)"
  have lt: "cb_size b < totalsize b" using room by (simp add: cap_def word_less_nat_alt)
  then have sz: "unat (cb_size b + 1) = Suc ?s"
    using unat_Suc_less [OF lt] by simp
  let ?b = "b\<lparr>cb_data := (cb_data b)[p := x], cb_size := cb_size b + 1\<rparr>"
  have pb: "push_byte b x p = ?b" using lt by (simp add: push_byte_def)
  have pn: "p < ?n" using ok p by (simp add: cb_ok_def)
  have "contents ?b ! k = (contents b @ [x]) ! k" if "k < Suc ?s" for k
  proof (cases "k = ?s")
    case True
    then show ?thesis using pn ok p sz
      by (simp add: nth_contents cap_def cb_ok_def nth_append)
  next
    case False
    with that have k: "k < ?s" by simp
    then have "(top b + k) mod ?n \<noteq> p" using mod_ring_neq [OF room k] p by simp
    then show ?thesis using k sz by (simp add: nth_contents cap_def nth_append)
  qed
  then have "contents ?b = contents b @ [x]" by (intro nth_equalityI) (simp_all add: sz)
  moreover have "cb_ok ?b" using ok room sz by (simp add: cb_ok_def cap_def)
  moreover have "bump b p = (top b + Suc ?s) mod ?n"
    using bump_mod [OF ok pn] p by (simp add: mod_Suc_eq)
  ultimately show ?thesis by (simp add: pb sz cap_def)
qed

lemma push_byte_full:
  assumes ok: "cb_ok b" and p: "p = (top b + unat (cb_size b)) mod cap b"
    and full: "unat (cb_size b) = cap b"
  shows "cb_ok (push_byte b x p) \<and> cap (push_byte b x p) = cap b \<and>
    contents (push_byte b x p) = tl (contents b) @ [x] \<and>
    bump b p = (top (push_byte b x p) + unat (cb_size (push_byte b x p))) mod cap b"
proof -
  let ?n = "cap b"
  have nlt: "\<not> cb_size b < totalsize b" using full by (simp add: cap_def word_less_nat_alt)
  have pt: "p = top b" using ok p full by (simp add: cb_ok_def)
  have top: "bump b (top b) = Suc (top b) mod ?n" using ok by (simp add: bump_mod cb_ok_def)
  let ?b = "b\<lparr>cb_data := (cb_data b)[p := x], top := Suc (top b) mod ?n\<rparr>"
  have pb: "push_byte b x p = ?b" using nlt top by (simp add: push_byte_def bump_def)
  have n: "0 < ?n" "top b < ?n" "length (cb_data b) = ?n" using ok by (simp_all add: cb_ok_def)
  have "contents ?b ! k = (tl (contents b) @ [x]) ! k" if "k < ?n" for k
  proof (cases "k = ?n - 1")
    case True
    have "(Suc (top b) mod ?n + k) mod ?n = (Suc (top b) + k) mod ?n"
      by (rule mod_add_left_eq)
    also have "Suc (top b) + k = top b + ?n" using True n by simp
    finally have "(Suc (top b) mod ?n + k) mod ?n = top b" using n by simp
    then show ?thesis using True n pt full
      by (simp add: nth_contents nth_append cap_def)
  next
    case False
    with that have k: "Suc k < ?n" by simp
    have "(top b + Suc k) mod ?n \<noteq> top b"
      using mod_ring_neq [of "Suc k" ?n 0 "top b"] k n by simp
    moreover have "(Suc (top b) mod ?n + k) mod ?n = (top b + Suc k) mod ?n"
      by (simp add: mod_add_left_eq)
    moreover have "k < ?n - 1" using k by simp
    ultimately show ?thesis using k full pt
      by (simp add: nth_contents nth_append nth_tl cap_def)
  qed
  then have "contents ?b = tl (contents b) @ [x]"
    using n full by (intro nth_equalityI) simp_all
  moreover have "cb_ok ?b" using ok by (simp add: cb_ok_def cap_def)
  ultimately show ?thesis
    using pt full top n pb [unfolded pt] by (simp add: cap_def)
qed

lemma push_byte_keep:
  assumes "cb_ok b" and "p = (top b + unat (cb_size b)) mod cap b"
  shows "cb_ok (push_byte b x p) \<and> cap (push_byte b x p) = cap b \<and>
    contents (push_byte b x p) = keep_last (cap b) (contents b @ [x]) \<and>
    bump b p = (top (push_byte b x p) + unat (cb_size (push_byte b x p))) mod cap b"
proof (cases "unat (cb_size b) < cap b")
  case True
  with push_byte_room [OF assms True, of x] show ?thesis by (simp add: keep_last_all)
next
  case False
  then have full: "unat (cb_size b) = cap b" using assms(1) by (simp add: cb_ok_def)
  have "keep_last (cap b) (contents b @ [x]) = tl (contents b) @ [x]"
    using full assms(1) by (simp add: keep_last_def cb_ok_def drop_Suc)
  with push_byte_full [OF assms full, of x] show ?thesis by simp
qed

lemma push_loop_keep:
  assumes "cb_ok b" and "p = (top b + unat (cb_size b)) mod cap b"
  shows "\<exists>b' p'. push_loop b xs p = Some (b', p') \<and> cb_ok b' \<and> cap b' = cap b \<and>
    contents b' = keep_last (cap b) (contents b @ xs) \<and>
    p' = (top b' + unat (cb_size b')) mod cap b'"
  using assms
proof (induction xs arbitrary: b p)
  case Nil
  then show ?case by (auto simp: keep_last_all cb_ok_def)
next
  case (Cons x xs)
  have pn: "p < cap b" using Cons.prems by (simp add: cb_ok_def)
  note k = push_byte_keep [OF Cons.prems, of x]
  from k Cons.IH [of "push_byte b x p" "bump b p"] obtain b' p' where
    "push_loop (push_byte b x p) xs (bump b p) = Some (b', p')" "cb_ok b'" "cap b' = cap b"
    "contents b' = keep_last (cap b) (keep_last (cap b) (contents b @ [x]) @ xs)"
    "p' = (top b' + unat (cb_size b')) mod cap b'" by auto
  then show ?case
    unfolding push_loop_Cons [OF Cons.prems(1) pn] keep_last_step by simp
qed

lemma push_inv:
  assumes inv: "cb_inv b" and len: "unat len \<le> length src"
  shows "\<exists>b'. buf_push b src len = Some (b', len) \<and> cb_inv b' \<and> cap b' = cap b \<and>
    contents b' = keep_last (cap b) (contents b @ take (unat len) src)"
proof -
  have "cb_ok b" "tail b = (top b + unat (cb_size b)) mod cap b"
    using inv by (simp_all add: cb_inv_def)
  from push_loop_keep [OF this, of "take (unat len) src"] obtain b' p' where
    l: "push_loop b (take (unat len) src) (tail b) = Some (b', p')" "cb_ok b'" "cap b' = cap b"
    "contents b' = keep_last (cap b) (contents b @ take (unat len) src)"
    "p' = (top b' + unat (cb_size b')) mod cap b'" by auto
  have "buf_push b src len = Some (b'\<lparr>tail := p'\<rparr>, len)"
    using l(1) len by (simp add: buf_push_def)
  moreover have "cb_inv (b'\<lparr>tail := p'\<rparr>)"
    using l(2,5) by (simp add: cb_inv_def cb_ok_def cap_def)
  moreover have "contents (b'\<lparr>tail := p'\<rparr>) = contents b'" "cap (b'\<lparr>tail := p'\<rparr>) = cap b'"
    by (simp_all add: contents_def cap_def)
  ultimately show ?thesis using l(3,4) by auto
qed

section \<open>Popping\<close>

lemma pop_loop_spec:
  assumes "cb_ok b" and "p < cap b" and "i + n \<le> length dest" and "n \<le> cap b"
  shows "pop_loop b n p i dest = Some ((p + n) mod cap b,
    take i dest @ map (\<lambda>k. cb_data b ! ((p + k) mod cap b)) [0..<n] @ drop (i + n) dest)"
  using assms
proof (induction n arbitrary: p i dest)
  case 0
  then show ?case by simp
next
  case (Suc n)
  let ?x = "cb_data b ! p"
  have b: "bump b p = Suc p mod cap b" using Suc.prems by (simp add: bump_mod)
  have "pop_loop b (Suc n) p i dest = pop_loop b n (Suc p mod cap b) (i + 1) (dest[i := ?x])"
    using Suc.prems b by (simp add: cb_ok_def)
  also have "\<dots> = Some ((Suc p mod cap b + n) mod cap b, take (i + 1) (dest[i := ?x]) @
      map (\<lambda>k. cb_data b ! ((Suc p mod cap b + k) mod cap b)) [0..<n] @ drop (i + 1 + n) (dest[i := ?x]))"
    using Suc.prems by (intro Suc.IH) (auto simp: cb_ok_def)
  also have "take (i + 1) (dest[i := ?x]) = take i dest @ [?x]"
    using Suc.prems by (simp add: take_Suc_conv_app_nth)
  also have "map (\<lambda>k. cb_data b ! ((Suc p mod cap b + k) mod cap b)) [0..<n] =
      map (\<lambda>k. cb_data b ! ((p + k) mod cap b)) [1..<Suc n]"
    by (simp only: One_nat_def map_Suc_upt [symmetric] map_map o_def)
      (simp add: mod_add_left_eq)
  finally show ?case
    using Suc.prems by (simp add: mod_add_left_eq upt_conv_Cons del: upt_Suc)
qed

lemma pop_inv:
  assumes inv: "cb_inv b" and dest: "unat len \<le> length dest"
  defines "m \<equiv> min (unat len) (length (contents b))"
  shows "\<exists>b' n. buf_pop b dest len = Some (b', take m (contents b) @ drop m dest, n) \<and>
    unat n = m \<and> cb_inv b' \<and> cap b' = cap b \<and> contents b' = drop m (contents b)"
proof -
  define n where "n = (if cb_size b < len then cb_size b else len)"
  have n: "unat n = m" by (auto simp: n_def m_def min_def word_less_nat_alt not_less)
  have ok: "cb_ok b" "top b < cap b" using inv by (simp_all add: cb_inv_def cb_ok_def)
  have m: "m \<le> unat (cb_size b)" "m \<le> cap b" "m \<le> length dest"
    using ok dest by (auto simp: m_def cb_ok_def)
  let ?b = "b\<lparr>top := (top b + m) mod cap b, cb_size := cb_size b - n\<rparr>"
  have "map (\<lambda>k. cb_data b ! ((top b + k) mod cap b)) [0..<m] = take m (contents b)"
    using m by (intro nth_equalityI) (simp_all add: nth_contents)
  then have "buf_pop b dest len = Some (?b, take m (contents b) @ drop m dest, n)"
    using pop_loop_spec [OF ok, of 0 m dest] m n by (simp add: buf_pop_def Let_def n_def [symmetric])
  moreover have sz: "unat (cb_size b - n) = unat (cb_size b) - m"
    using n m by (simp add: unat_sub word_le_nat_alt)
  moreover have "contents ?b = drop m (contents b)"
    using m by (intro nth_equalityI) (simp_all add: sz nth_contents cap_def mod_add_left_eq add.assoc)
  moreover have "((top b + m) mod cap b + (unat (cb_size b) - m)) mod cap b =
      (top b + unat (cb_size b)) mod cap b"
    using m(1) by (subst mod_add_left_eq) simp
  then have "cb_inv ?b"
    using inv m sz by (auto simp: cb_inv_def cb_ok_def cap_def mod_add_left_eq)
  ultimately show ?thesis using n by (intro exI [of _ ?b] exI [of _ n]) (simp add: cap_def)
qed

section \<open>The queue interface\<close>

locale byte_queue =
  fixes inv :: "'q \<Rightarrow> bool"
    and held_bytes :: "'q \<Rightarrow> byte list"
    and capacity :: "'q \<Rightarrow> nat"
    and push :: "'q \<Rightarrow> mem \<Rightarrow> u32 \<Rightarrow> ('q \<times> u32) option"
    and pop :: "'q \<Rightarrow> mem \<Rightarrow> u32 \<Rightarrow> ('q \<times> mem \<times> u32) option"
  assumes push_law: "inv q \<Longrightarrow> unat len \<le> length src \<Longrightarrow>
      \<exists>q'. push q src len = Some (q', len) \<and> inv q' \<and> capacity q' = capacity q \<and>
        held_bytes q' = keep_last (capacity q) (held_bytes q @ take (unat len) src)"
    and pop_law: "inv q \<Longrightarrow> unat len \<le> length dest \<Longrightarrow>
      \<exists>q' n. pop q dest len =
          Some (q', take (unat n) (held_bytes q) @ drop (unat n) dest, n) \<and>
        unat n = min (unat len) (length (held_bytes q)) \<and> inv q' \<and> capacity q' = capacity q \<and>
        held_bytes q' = drop (unat n) (held_bytes q)"
begin

text \<open>Two pushes hold what one push of the concatenation holds.\<close>

lemma push_push:
  assumes "inv q" and "unat m \<le> length xs" and "unat n \<le> length ys"
  shows "\<exists>q1 q2. push q xs m = Some (q1, m) \<and> push q1 ys n = Some (q2, n) \<and> inv q2 \<and>
    held_bytes q2 = keep_last (capacity q) (held_bytes q @ take (unat m) xs @ take (unat n) ys)"
proof -
  from push_law [OF assms(1,2)] obtain q1 where q1: "push q xs m = Some (q1, m)" "inv q1"
    "capacity q1 = capacity q"
    "held_bytes q1 = keep_last (capacity q) (held_bytes q @ take (unat m) xs)" by blast
  from push_law [OF q1(2) assms(3)] obtain q2 where "push q1 ys n = Some (q2, n)" "inv q2"
    "held_bytes q2 = keep_last (capacity q1) (held_bytes q1 @ take (unat n) ys)" by blast
  then show ?thesis
    using q1 keep_last_step [of "capacity q" "held_bytes q @ take (unat m) xs"] by auto
qed

text \<open>What fits is popped again, in order, and the queue is as before.\<close>

lemma push_pop:
  assumes inv: "inv q" and empty: "held_bytes q = []" and fits: "unat len \<le> capacity q"
    and src: "length src = unat len" and dest: "length dest = unat len"
  shows "\<exists>q1 q2. push q src len = Some (q1, len) \<and> pop q1 dest len = Some (q2, src, len) \<and>
    inv q2 \<and> held_bytes q2 = []"
proof -
  from push_law [OF inv, of len src] src obtain q1 where q1: "push q src len = Some (q1, len)"
    "inv q1" "held_bytes q1 = keep_last (capacity q) (held_bytes q @ take (unat len) src)" by auto
  then have h: "held_bytes q1 = src" using empty fits src by (simp add: keep_last_all)
  from pop_law [OF q1(2), of len dest] dest obtain q2 n where
    p: "pop q1 dest len = Some (q2, take (unat n) src @ drop (unat n) dest, n)"
    "unat n = unat len" "inv q2" "held_bytes q2 = drop (unat n) src"
    using h src by auto
  then have "n = len" by (simp add: word_unat_eq_iff)
  then show ?thesis using p q1 src dest by simp
qed

end

lemma pop_inv':
  assumes "cb_inv b" and "unat len \<le> length dest"
  shows "\<exists>b' n. buf_pop b dest len =
      Some (b', take (unat n) (contents b) @ drop (unat n) dest, n) \<and>
    unat n = min (unat len) (length (contents b)) \<and> cb_inv b' \<and> cap b' = cap b \<and>
    contents b' = drop (unat n) (contents b)"
  using pop_inv [OF assms] by (elim exE conjE) (metis (no_types))

interpretation cbq: byte_queue cb_inv contents cap buf_push buf_pop
  by unfold_locales (rule push_inv, assumption+, rule pop_inv')

section \<open>Properties\<close>

definition ex_buf :: circbuf where
  "ex_buf = buf_init 4 [0, 0, 0, 0]"

lemma ex_buf_inv: "cb_inv ex_buf" "contents ex_buf = []" "cap ex_buf = 4"
  using buf_init_inv [of "[0, 0, 0, 0]" 4]
  by (simp_all add: ex_buf_def) (simp add: cap_def buf_init_def)

text \<open>C40. A push stores every byte without leaving the block and afterwards the buffer holds
  the last \<open>totalsize\<close> bytes of what it held followed by the pushed ones.\<close>

theorem buf_push_keeps_last:
  assumes "cb_inv b" and "unat len \<le> length src"
  shows "\<exists>b'. buf_push b src len = Some (b', len) \<and> cb_inv b' \<and> cap b' = cap b \<and>
    contents b' = drop (length (contents b) + unat len - cap b) (contents b @ take (unat len) src)"
  using push_inv [OF assms] assms(2) by (simp add: keep_last_def min_absorb2)

theorem buf_push_keeps_last_witness:
  "\<exists>b'. buf_push ex_buf [1, 2, 3, 4, 5, 6] 6 = Some (b', 6) \<and> cb_inv b' \<and>
    contents b' = [3, 4, 5, 6]"
  using buf_push_keeps_last [OF ex_buf_inv(1), of 6 "[1, 2, 3, 4, 5, 6]"] ex_buf_inv by auto

text \<open>Bytes that fit an empty buffer come back from a pop in the order of the push, and the
  buffer is empty again.\<close>

theorem buf_push_pop_roundtrip:
  assumes "cb_inv b" and "contents b = []" and "unat len \<le> cap b"
    and "length src = unat len" and "length dest = unat len"
  shows "\<exists>b1 b2. buf_push b src len = Some (b1, len) \<and> buf_pop b1 dest len = Some (b2, src, len) \<and>
    cb_inv b2 \<and> contents b2 = []"
  by (rule cbq.push_pop [OF assms])

theorem buf_push_pop_roundtrip_witness:
  "\<exists>b1 b2. buf_push ex_buf [7, 8, 9] 3 = Some (b1, 3) \<and> buf_pop b1 [0, 0, 0] 3 = Some (b2, [7, 8, 9], 3) \<and>
    cb_inv b2 \<and> contents b2 = []"
  by (rule buf_push_pop_roundtrip) (simp_all add: ex_buf_inv)

end
