(* ===== verification/XorTable.thy ===== *)
theory XorTable
  imports Prelude
begin

text \<open>
  Lookup tables of functions that are linear over exclusive or (parity and checksum tables): such a
  table is determined by its entries at the powers of two, and doubling reconstructs it. A table of
  256 entries is checked against its definition by 255 exclusive ors.
\<close>

definition xlinear :: "('a::len word \<Rightarrow> 'b::len word) \<Rightarrow> bool" where
  "xlinear f \<longleftrightarrow> (\<forall>x y. f (x XOR y) = f x XOR f y)"

lemma xlinearD: "xlinear f \<Longrightarrow> f (x XOR y) = f x XOR f y"
  by (simp add: xlinear_def)

lemma xlinear_zero: "xlinear f \<Longrightarrow> f 0 = 0"
  using xlinearD [of f 0 0] by simp

lemma xlinear_comp: "xlinear f \<Longrightarrow> xlinear g \<Longrightarrow> xlinear (\<lambda>x. f (g x))"
  by (simp add: xlinear_def)

lemma xlinear_xor: "xlinear f \<Longrightarrow> xlinear g \<Longrightarrow> xlinear (\<lambda>x. f x XOR g x)"
  by (simp add: xlinear_def ac_simps)

lemma xlinear_funpow: "xlinear (f :: 'a::len word \<Rightarrow> 'a word) \<Longrightarrow> xlinear (f ^^ n)"
proof (induction n)
  case 0
  then show ?case by (simp add: xlinear_def)
next
  case (Suc n)
  then show ?case using xlinear_comp [of f "f ^^ n"] by (simp add: o_def)
qed

lemma xlinear_shift:
  "xlinear (\<lambda>x. drop_bit n x :: 'a::len word)" "xlinear (\<lambda>x. push_bit n x :: 'a::len word)"
  "xlinear (\<lambda>x. x AND m :: 'a::len word)"
  by (auto simp: xlinear_def intro!: bit_word_eqI simp: bit_simps)

lemma xlinear_choice:
  "xlinear (\<lambda>x. if bit x n then v else 0)"
  by (simp add: xlinear_def bit_xor_iff)

definition double_table :: "'b::len word list \<Rightarrow> 'b word \<Rightarrow> 'b word list" where
  "double_table t p = t @ map (\<lambda>x. x XOR p) t"

lemma of_nat_top_bit:
  assumes "n < 2 ^ k"
  shows "of_nat (n + 2 ^ k) = (of_nat n XOR 2 ^ k :: 'a::len word)"
proof -
  have n: "take_bit k n = n" using assms by (simp add: take_bit_nat_eq_self_iff)
  then have nb: "\<not> bit n k" using bit_take_bit_iff [of k n k] by simp
  have "(of_nat n :: 'a word) + 2 ^ k = of_nat n OR 2 ^ k"
    by (rule disjunctive_add_eq_or) (rule bit_word_eqI, auto simp: bit_simps nb)
  also have "\<dots> = of_nat n XOR 2 ^ k"
    by (rule bit_word_eqI) (auto simp: bit_simps nb)
  finally show ?thesis by simp
qed

lemma linear_table:
  assumes f: "xlinear (f :: 'a::len word \<Rightarrow> 'b::len word)"
  shows "foldl double_table [0] (map (\<lambda>i. f (2 ^ i)) [0..<k]) = map (\<lambda>n. f (of_nat n)) [0..<2 ^ k]"
proof (induction k)
  case 0
  then show ?case by (simp add: xlinear_zero [OF f])
next
  case (Suc k)
  have u: "[0..<2 ^ Suc k] = [0..<2 ^ k] @ map (\<lambda>n. n + 2 ^ k) [0..<(2 :: nat) ^ k]"
    using upt_add_eq_append [of 0 "2 ^ k" "2 ^ k"] map_add_upt [of "2 ^ k" "2 ^ k"]
    by (simp only: power_Suc mult_2 le0)
  have "map (\<lambda>n. f (of_nat n)) (map (\<lambda>n. n + 2 ^ k) [0..<(2 :: nat) ^ k]) =
      map (\<lambda>x. x XOR f (2 ^ k)) (map (\<lambda>n. f (of_nat n)) [0..<2 ^ k])"
    unfolding map_map o_def
  proof (rule map_cong [OF refl])
    fix n
    assume "n \<in> set [0..<(2 :: nat) ^ k]"
    then have "n < 2 ^ k" by simp
    then show "f (of_nat (n + 2 ^ k)) = f (of_nat n) XOR f (2 ^ k)"
      by (simp only: of_nat_top_bit xlinearD [OF f])
  qed
  then have "map (\<lambda>n. f (of_nat n)) [0..<2 ^ Suc k] =
      double_table (map (\<lambda>n. f (of_nat n)) [0..<2 ^ k]) (f (2 ^ k))"
    unfolding u double_table_def map_append by (simp only:)
  moreover have "map (\<lambda>i. f (2 ^ i)) [0..<Suc k] = map (\<lambda>i. f (2 ^ i)) [0..<k] @ [f (2 ^ k)]"
    by simp
  ultimately show ?case by (simp only: foldl_append foldl.simps Suc)
qed

end
