(* ===== verification/NandEcc.thy ===== *)
theory NandEcc
  imports XorTable
begin

text \<open>
  The one-bit error correcting code of NAND pages, \<^verbatim>\<open>drivers/mtd/nand/nand_ecc.c\<close>:
  three code bytes for 256 bytes of data (in the byte order without
  \<^verbatim>\<open>CONFIG_MTD_NAND_ECC_SMC\<close>), and the decoder that compares the stored and the computed
  code. Narrow C integers are words of their width; a load outside the data is \<open>None\<close>.
\<close>

section \<open>Encoder\<close>

definition nand_ecc_precalc_table :: "byte list" where
  "nand_ecc_precalc_table = [
     0x00, 0x55, 0x56, 0x03, 0x59, 0x0c, 0x0f, 0x5a, 0x5a, 0x0f, 0x0c, 0x59, 0x03, 0x56, 0x55, 0x00,
     0x65, 0x30, 0x33, 0x66, 0x3c, 0x69, 0x6a, 0x3f, 0x3f, 0x6a, 0x69, 0x3c, 0x66, 0x33, 0x30, 0x65,
     0x66, 0x33, 0x30, 0x65, 0x3f, 0x6a, 0x69, 0x3c, 0x3c, 0x69, 0x6a, 0x3f, 0x65, 0x30, 0x33, 0x66,
     0x03, 0x56, 0x55, 0x00, 0x5a, 0x0f, 0x0c, 0x59, 0x59, 0x0c, 0x0f, 0x5a, 0x00, 0x55, 0x56, 0x03,
     0x69, 0x3c, 0x3f, 0x6a, 0x30, 0x65, 0x66, 0x33, 0x33, 0x66, 0x65, 0x30, 0x6a, 0x3f, 0x3c, 0x69,
     0x0c, 0x59, 0x5a, 0x0f, 0x55, 0x00, 0x03, 0x56, 0x56, 0x03, 0x00, 0x55, 0x0f, 0x5a, 0x59, 0x0c,
     0x0f, 0x5a, 0x59, 0x0c, 0x56, 0x03, 0x00, 0x55, 0x55, 0x00, 0x03, 0x56, 0x0c, 0x59, 0x5a, 0x0f,
     0x6a, 0x3f, 0x3c, 0x69, 0x33, 0x66, 0x65, 0x30, 0x30, 0x65, 0x66, 0x33, 0x69, 0x3c, 0x3f, 0x6a,
     0x6a, 0x3f, 0x3c, 0x69, 0x33, 0x66, 0x65, 0x30, 0x30, 0x65, 0x66, 0x33, 0x69, 0x3c, 0x3f, 0x6a,
     0x0f, 0x5a, 0x59, 0x0c, 0x56, 0x03, 0x00, 0x55, 0x55, 0x00, 0x03, 0x56, 0x0c, 0x59, 0x5a, 0x0f,
     0x0c, 0x59, 0x5a, 0x0f, 0x55, 0x00, 0x03, 0x56, 0x56, 0x03, 0x00, 0x55, 0x0f, 0x5a, 0x59, 0x0c,
     0x69, 0x3c, 0x3f, 0x6a, 0x30, 0x65, 0x66, 0x33, 0x33, 0x66, 0x65, 0x30, 0x6a, 0x3f, 0x3c, 0x69,
     0x03, 0x56, 0x55, 0x00, 0x5a, 0x0f, 0x0c, 0x59, 0x59, 0x0c, 0x0f, 0x5a, 0x00, 0x55, 0x56, 0x03,
     0x66, 0x33, 0x30, 0x65, 0x3f, 0x6a, 0x69, 0x3c, 0x3c, 0x69, 0x6a, 0x3f, 0x65, 0x30, 0x33, 0x66,
     0x65, 0x30, 0x33, 0x66, 0x3c, 0x69, 0x6a, 0x3f, 0x3f, 0x6a, 0x69, 0x3c, 0x66, 0x33, 0x30, 0x65,
     0x00, 0x55, 0x56, 0x03, 0x59, 0x0c, 0x0f, 0x5a, 0x5a, 0x0f, 0x0c, 0x59, 0x03, 0x56, 0x55, 0x00]"

text \<open>One iteration of the column-parity loop on \<open>(reg1, reg2, reg3)\<close>.\<close>

definition ecc_step :: "mem \<Rightarrow> nat \<Rightarrow> byte \<times> byte \<times> byte \<Rightarrow> (byte \<times> byte \<times> byte) option" where
  "ecc_step dat i = (\<lambda>(reg1, reg2, reg3). do {
     x \<leftarrow> rd dat i;
     idx \<leftarrow> rd nand_ecc_precalc_table (unat x);
     let reg1 = reg1 XOR (idx AND 0x3f);
     if idx AND 0x40 \<noteq> 0
     then Some (reg1, reg2 XOR NOT (of_nat i), reg3 XOR of_nat i)
     else Some (reg1, reg2, reg3)
   })"

text \<open>The two line-parity bytes interleave the bits of \<open>reg3\<close> and \<open>reg2\<close>.\<close>

definition line_high :: "byte \<Rightarrow> byte \<Rightarrow> byte" where
  "line_high reg3 reg2 =
     (reg3 AND 0x80) OR drop_bit 1 (reg2 AND 0x80) OR drop_bit 1 (reg3 AND 0x40) OR
     drop_bit 2 (reg2 AND 0x40) OR drop_bit 2 (reg3 AND 0x20) OR drop_bit 3 (reg2 AND 0x20) OR
     drop_bit 3 (reg3 AND 0x10) OR drop_bit 4 (reg2 AND 0x10)"

definition line_low :: "byte \<Rightarrow> byte \<Rightarrow> byte" where
  "line_low reg3 reg2 =
     push_bit 4 (reg3 AND 0x08) OR push_bit 3 (reg2 AND 0x08) OR push_bit 3 (reg3 AND 0x04) OR
     push_bit 2 (reg2 AND 0x04) OR push_bit 2 (reg3 AND 0x02) OR push_bit 1 (reg2 AND 0x02) OR
     push_bit 1 (reg3 AND 0x01) OR (reg2 AND 0x01)"

record ecc_code =
  ecc0 :: byte
  ecc1 :: byte
  ecc2 :: byte

definition nand_calculate_ecc :: "mem \<Rightarrow> ecc_code option" where
  "nand_calculate_ecc dat = do {
     (reg1, reg2, reg3) \<leftarrow> foreach [0..<256] (ecc_step dat) (0, 0, 0);
     let tmp1 = line_high reg3 reg2;
     let tmp2 = line_low reg3 reg2;
     Some \<lparr>ecc0 = NOT tmp1, ecc1 = NOT tmp2, ecc2 = push_bit 2 (NOT reg1) OR 0x03\<rparr>
   }"

section \<open>Decoder\<close>

function countbits :: "u32 \<Rightarrow> nat" where
  "countbits b = (if b = 0 then 0 else unat (b AND 0x01) + countbits (drop_bit 1 b))"
  by pat_completeness auto
termination
proof (relation "measure unat")
  show "(drop_bit 1 b, b) \<in> measure unat" if "b \<noteq> 0" for b :: u32
    using that by (simp add: drop_bit_eq_div unat_div word_unat_eq_iff)
qed simp

declare countbits.simps [simp del]

definition EBADMSG :: int where
  "EBADMSG = 74"

definition nand_correct_data :: "mem \<Rightarrow> ecc_code \<Rightarrow> ecc_code \<Rightarrow> (int \<times> mem) option" where
  "nand_correct_data dat read_ecc calc_ecc =
     (let s1 = ecc0 calc_ecc XOR ecc0 read_ecc;
          s0 = ecc1 calc_ecc XOR ecc1 read_ecc;
          s2 = ecc2 calc_ecc XOR ecc2 read_ecc
      in if s0 OR s1 OR s2 = 0 then Some (0, dat)
      else if (s0 XOR drop_bit 1 s0) AND 0x55 = 0x55 \<and> (s1 XOR drop_bit 1 s1) AND 0x55 = 0x55 \<and>
              (s2 XOR drop_bit 1 s2) AND 0x54 = 0x54
      then (let w0 = (ucast s0 :: u32); w1 = (ucast s1 :: u32); w2 = (ucast s2 :: u32);
                byteoffs = (w1 AND 0x80) OR (push_bit 1 w1 AND 0x40) OR (push_bit 2 w1 AND 0x20) OR
                  (push_bit 3 w1 AND 0x10) OR (drop_bit 4 w0 AND 0x08) OR (drop_bit 3 w0 AND 0x04) OR
                  (drop_bit 2 w0 AND 0x02) OR (drop_bit 1 w0 AND 0x01);
                bitnum = (drop_bit 5 w2 AND 0x04) OR (drop_bit 4 w2 AND 0x02) OR (drop_bit 3 w2 AND 0x01)
            in do {
              x \<leftarrow> rd dat (unat byteoffs);
              dat \<leftarrow> wr dat (unat byteoffs) (x XOR ucast (push_bit (unat bitnum) (1 :: u32)));
              Some (1, dat)
            })
      else if countbits (ucast s0 OR push_bit 8 (ucast s1) OR push_bit 16 (ucast s2)) = 1
      then Some (1, dat)
      else Some (- EBADMSG, dat))"

section \<open>The column-parity table\<close>

text \<open>The table is linear over exclusive or: each bit of the index contributes a fixed byte.\<close>

definition column :: "byte \<Rightarrow> byte" where
  "column x = (if bit x 0 then 0x55 else 0) XOR (if bit x 1 then 0x56 else 0) XOR
     (if bit x 2 then 0x59 else 0) XOR (if bit x 3 then 0x5a else 0) XOR
     (if bit x 4 then 0x65 else 0) XOR (if bit x 5 then 0x66 else 0) XOR
     (if bit x 6 then 0x69 else 0) XOR (if bit x 7 then 0x6a else 0)"

definition pick :: "nat \<Rightarrow> byte \<Rightarrow> byte \<Rightarrow> byte" where
  "pick k v x = (if bit x k then v else 0)"

lemma pick_xor: "pick k v (x XOR y) = pick k v x XOR pick k v y"
  by (simp add: pick_def bit_xor_iff)

lemma column_xor: "column (x XOR y) = column x XOR column y"
  unfolding column_def pick_def [symmetric] pick_xor by (simp add: ac_simps)

lemma column_powers:
  "map (\<lambda>i. column (2 ^ i)) [0..<8] = [0x55, 0x56, 0x59, 0x5a, 0x65, 0x66, 0x69, 0x6a]"
  by (simp add: upt_rec column_def)

lemma table_column:
  "nand_ecc_precalc_table = map (\<lambda>i. column (of_nat i)) [0..<256]"
proof -
  have "xlinear column" by (simp add: xlinear_def column_xor)
  from linear_table [OF this, of 8]
  have "map (\<lambda>i. column (of_nat i)) [0..<256] =
      foldl double_table [0] (map (\<lambda>i. column (2 ^ i)) [0..<8])" by simp
  also have "\<dots> = nand_ecc_precalc_table"
    unfolding column_powers by (simp add: double_table_def nand_ecc_precalc_table_def)
  finally show ?thesis ..
qed

lemma table_nth: "nand_ecc_precalc_table ! unat x = column x" "length nand_ecc_precalc_table = 256"
proof -
  have "unat x < 2 ^ LENGTH(8)" by (rule unsigned_less)
  then show "nand_ecc_precalc_table ! unat x = column x" by (simp add: table_column)
qed (simp add: table_column)

lemma table_rd [simp]: "rd nand_ecc_precalc_table (unat x) = Some (column x)"
proof -
  have "unat x < 2 ^ LENGTH(8)" by (rule unsigned_less)
  then show ?thesis using table_nth(1) [of x] by (simp add: table_nth(2))
qed

lemma byte_index: "n < LENGTH(8) \<longleftrightarrow> n \<in> {0, 1, 2, 3, 4, 5, 6, 7}"
  by auto

lemma byte_eqI:
  assumes "bit a 0 = bit b 0" "bit a 1 = bit b 1" "bit a 2 = bit b 2" "bit a 3 = bit b 3"
    and "bit a 4 = bit b 4" "bit a 5 = bit b 5" "bit a 6 = bit b 6" "bit a 7 = bit (b :: byte) 7"
  shows "a = b"
proof (rule bit_word_eqI)
  fix n
  assume "n < LENGTH(8)"
  then show "bit a n = bit b n" using assms unfolding byte_index by auto
qed

lemma bit_if: "bit (if p then c else 0 :: byte) k \<longleftrightarrow> p \<and> bit c k"
  by simp

lemma column_bits:
  "bit (column x) 0 = (bit x 0 \<noteq> (bit x 2 \<noteq> (bit x 4 \<noteq> bit x 6)))"
  "bit (column x) 1 = (bit x 1 \<noteq> (bit x 3 \<noteq> (bit x 5 \<noteq> bit x 7)))"
  "bit (column x) 2 = (bit x 0 \<noteq> (bit x 1 \<noteq> (bit x 4 \<noteq> bit x 5)))"
  "bit (column x) 3 = (bit x 2 \<noteq> (bit x 3 \<noteq> (bit x 6 \<noteq> bit x 7)))"
  "bit (column x) 4 = (bit x 0 \<noteq> (bit x 1 \<noteq> (bit x 2 \<noteq> bit x 3)))"
  "bit (column x) 5 = (bit x 4 \<noteq> (bit x 5 \<noteq> (bit x 6 \<noteq> bit x 7)))"
  "bit (column x) 6 = (bit x 0 \<noteq> (bit x 1 \<noteq> (bit x 2 \<noteq> (bit x 3 \<noteq>
     (bit x 4 \<noteq> (bit x 5 \<noteq> (bit x 6 \<noteq> bit x 7)))))))"
  "bit (column x) 7 = False"
  unfolding column_def by (simp_all add: bit_if bit_xor_iff del: if_split)

definition parity_bit :: "byte \<Rightarrow> bool" where
  "parity_bit x \<longleftrightarrow> column x AND 0x40 \<noteq> 0"

lemma parity_xor: "parity_bit (x XOR y) \<longleftrightarrow> parity_bit x \<noteq> parity_bit y"
proof -
  have "parity_bit x \<longleftrightarrow> bit (column x) 6" for x
  proof
    assume "parity_bit x"
    moreover have "column x AND 0x40 = 0" if "\<not> bit (column x) 6"
      using that by (intro byte_eqI) (simp_all add: bit_simps)
    ultimately show "bit (column x) 6" by (auto simp: parity_bit_def)
  next
    assume "bit (column x) 6"
    then have "bit (column x AND 0x40) 6" by (simp add: bit_simps)
    then show "parity_bit x" by (auto simp: parity_bit_def)
  qed
  then show ?thesis by (simp add: column_xor bit_simps)
qed

section \<open>The code as sums over the data\<close>

primrec xsum :: "(nat \<Rightarrow> byte) \<Rightarrow> nat \<Rightarrow> byte" where
  "xsum f 0 = 0"
| "xsum f (Suc n) = xsum f n XOR f n"

lemma xsum_cong: "(\<And>i. i < n \<Longrightarrow> f i = g i) \<Longrightarrow> xsum f n = xsum g n"
  by (induction n) auto

lemma xsum_change:
  "k < n \<Longrightarrow> (\<And>i. i < n \<Longrightarrow> i \<noteq> k \<Longrightarrow> g i = f i) \<Longrightarrow> g k = f k XOR v \<Longrightarrow>
     xsum g n = xsum f n XOR v"
proof (induction n)
  case (Suc n)
  show ?case
  proof (cases "k = n")
    case True
    then have "xsum g n = xsum f n" using Suc.prems(2) by (intro xsum_cong) simp
    then show ?thesis using True Suc.prems(3) by (simp add: xor.assoc)
  next
    case False
    then show ?thesis using Suc by (simp add: xor.commute xor.left_commute)
  qed
qed simp

definition reg1_at :: "mem \<Rightarrow> nat \<Rightarrow> byte" where
  "reg1_at d i = column (d ! i) AND 0x3f"

definition reg2_at :: "mem \<Rightarrow> nat \<Rightarrow> byte" where
  "reg2_at d i = (if parity_bit (d ! i) then NOT (of_nat i) else 0)"

definition reg3_at :: "mem \<Rightarrow> nat \<Rightarrow> byte" where
  "reg3_at d i = (if parity_bit (d ! i) then of_nat i else 0)"

lemma ecc_step_eq:
  "i < length d \<Longrightarrow> ecc_step d i (r1, r2, r3) =
     Some (r1 XOR reg1_at d i, r2 XOR reg2_at d i, r3 XOR reg3_at d i)"
  by (simp add: ecc_step_def reg1_at_def reg2_at_def reg3_at_def parity_bit_def)

lemma ecc_loop:
  "n \<le> length d \<Longrightarrow> foreach [0..<n] (ecc_step d) (0, 0, 0) =
     Some (xsum (reg1_at d) n, xsum (reg2_at d) n, xsum (reg3_at d) n)"
  by (induction n) (simp_all add: foreach_append ecc_step_eq)

definition encode :: "byte \<times> byte \<times> byte \<Rightarrow> ecc_code" where
  "encode = (\<lambda>(reg1, reg2, reg3).
     \<lparr>ecc0 = NOT (line_high reg3 reg2), ecc1 = NOT (line_low reg3 reg2),
      ecc2 = push_bit 2 (NOT reg1) OR 0x03\<rparr>)"

lemma calculate_eq:
  "256 \<le> length d \<Longrightarrow> nand_calculate_ecc d =
     Some (encode (xsum (reg1_at d) 256, xsum (reg2_at d) 256, xsum (reg3_at d) 256))"
  by (simp add: nand_calculate_ecc_def ecc_loop encode_def)

text \<open>Flipping bit \<open>b\<close> of byte \<open>i\<close> adds a fixed value to each of the three sums.\<close>

definition flip :: "mem \<Rightarrow> nat \<Rightarrow> nat \<Rightarrow> mem" where
  "flip d i b = d[i := d ! i XOR push_bit b 1]"

lemma column_bit:
  assumes "b < 8"
  shows "parity_bit (push_bit b 1)"
    and "column (push_bit b 1) AND 0x3f =
      (if bit b 0 then 0x02 else 0x01) OR (if bit b 1 then 0x08 else 0x04) OR
      (if bit b 2 then 0x20 else 0x10)"
proof -
  have "b \<in> {0, 1, 2, 3, 4, 5, 6, 7}" using assms by auto
  then show "parity_bit (push_bit b 1)"
    and "column (push_bit b 1) AND 0x3f =
      (if bit b 0 then 0x02 else 0x01) OR (if bit b 1 then 0x08 else 0x04) OR
      (if bit b 2 then 0x20 else 0x10)"
    by (auto simp: parity_bit_def column_def bit_simps)
qed

lemma flip_sums:
  assumes "i < 256" and "256 \<le> length d" and "b < 8"
  shows "xsum (reg1_at (flip d i b)) 256 = xsum (reg1_at d) 256 XOR (column (push_bit b 1) AND 0x3f)"
    and "xsum (reg2_at (flip d i b)) 256 = xsum (reg2_at d) 256 XOR NOT (of_nat i)"
    and "xsum (reg3_at (flip d i b)) 256 = xsum (reg3_at d) 256 XOR of_nat i"
proof -
  have l: "i < length d" using assms by simp
  show "xsum (reg1_at (flip d i b)) 256 = xsum (reg1_at d) 256 XOR (column (push_bit b 1) AND 0x3f)"
    by (rule xsum_change [OF assms(1)])
      (use l in \<open>auto simp: reg1_at_def flip_def column_xor and.commute bit.conj_xor_distrib\<close>)
  show "xsum (reg2_at (flip d i b)) 256 = xsum (reg2_at d) 256 XOR NOT (of_nat i)"
    by (rule xsum_change [OF assms(1)])
      (use l column_bit(1) [OF assms(3)] in \<open>auto simp: reg2_at_def flip_def parity_xor\<close>)
  show "xsum (reg3_at (flip d i b)) 256 = xsum (reg3_at d) 256 XOR of_nat i"
    by (rule xsum_change [OF assms(1)])
      (use l column_bit(1) [OF assms(3)] in \<open>auto simp: reg3_at_def flip_def parity_xor\<close>)
qed

end
