(* ===== verification/NandEccCorrect.thy ===== *)
theory NandEccCorrect
  imports NandEcc
begin

text \<open>
  What the decoder of \<^verbatim>\<open>nand_ecc.c\<close> does for every pattern of at most two flipped data
  bits, or one flipped code bit.
\<close>

section \<open>Syndromes\<close>

declare One_nat_def [simp del]

lemma line_high_bits:
  "bit (line_high r3 r2) 0 = bit r2 4" "bit (line_high r3 r2) 1 = bit r3 4"
  "bit (line_high r3 r2) 2 = bit r2 5" "bit (line_high r3 r2) 3 = bit r3 5"
  "bit (line_high r3 r2) 4 = bit r2 6" "bit (line_high r3 r2) 5 = bit r3 6"
  "bit (line_high r3 r2) 6 = bit r2 7" "bit (line_high r3 r2) 7 = bit r3 7"
  by ((simp only: line_high_def bit_simps, simp?; simp add: One_nat_def)+)

lemma line_low_bits:
  "bit (line_low r3 r2) 0 = bit r2 0" "bit (line_low r3 r2) 1 = bit r3 0"
  "bit (line_low r3 r2) 2 = bit r2 1" "bit (line_low r3 r2) 3 = bit r3 1"
  "bit (line_low r3 r2) 4 = bit r2 2" "bit (line_low r3 r2) 5 = bit r3 2"
  "bit (line_low r3 r2) 6 = bit r2 3" "bit (line_low r3 r2) 7 = bit r3 3"
  by ((simp only: line_low_def bit_simps, simp?; simp add: One_nat_def)+)

lemma line_xor:
  "line_high (a XOR x) (b XOR y) = line_high a b XOR line_high x y"
  "line_low (a XOR x) (b XOR y) = line_low a b XOR line_low x y"
  by (rule byte_eqI; simp only: line_high_bits line_low_bits bit_xor_iff)+

lemma not_xor_not: "NOT (a XOR x) XOR NOT a = (x :: byte)"
  by (rule byte_eqI) (auto simp: bit_simps)

lemma code_xor: "(push_bit 2 (NOT (a XOR x)) OR 3) XOR (push_bit 2 (NOT a) OR 3) = push_bit 2 (x :: byte)"
  by (rule byte_eqI) (auto simp: bit_simps)

text \<open>The syndrome of a change \<open>(d1, d2, d3)\<close> of the three sums.\<close>

lemma syndrome:
  assumes "c = encode (r1, r2, r3)" and "c' = encode (r1 XOR d1, r2 XOR d2, r3 XOR d3)"
  shows "ecc0 c' XOR ecc0 c = line_high d3 d2" and "ecc1 c' XOR ecc1 c = line_low d3 d2"
    and "ecc2 c' XOR ecc2 c = push_bit 2 d1"
  using assms
  by (simp_all only: encode_def line_xor not_xor_not code_xor ecc_code.simps prod.case)

section \<open>One flipped data bit\<close>

definition single_pattern :: "byte \<Rightarrow> byte \<Rightarrow> byte \<Rightarrow> bool" where
  "single_pattern s0 s1 s2 \<longleftrightarrow> (s0 XOR drop_bit 1 s0) AND 0x55 = 0x55 \<and>
     (s1 XOR drop_bit 1 s1) AND 0x55 = 0x55 \<and> (s2 XOR drop_bit 1 s2) AND 0x54 = 0x54"

lemma pair_pattern:
  "(s XOR drop_bit 1 s) AND 0x55 = (0x55 :: byte) \<longleftrightarrow>
     bit s 0 \<noteq> bit s 1 \<and> bit s 2 \<noteq> bit s 3 \<and> bit s 4 \<noteq> bit s 5 \<and> bit s 6 \<noteq> bit s 7"
  (is "?l = _ \<longleftrightarrow> ?R")
proof
  assume e: "?l = 0x55"
  have "bit ?l 0" "bit ?l 2" "bit ?l 4" "bit ?l 6" unfolding e by (simp_all add: One_nat_def)
  then show ?R by (simp only: bit_simps) simp
qed (rule byte_eqI; simp only: bit_simps; simp?; simp add: One_nat_def)

lemma pair_pattern2:
  "(s XOR drop_bit 1 s) AND 0x54 = (0x54 :: byte) \<longleftrightarrow>
     bit s 2 \<noteq> bit s 3 \<and> bit s 4 \<noteq> bit s 5 \<and> bit s 6 \<noteq> bit s 7"
  (is "?l = _ \<longleftrightarrow> ?R")
proof
  assume e: "?l = 0x54"
  have "bit ?l 2" "bit ?l 4" "bit ?l 6" unfolding e by (simp_all add: One_nat_def)
  then show ?R by (simp only: bit_simps) simp
qed (rule byte_eqI; simp only: bit_simps; simp?; simp add: One_nat_def)

text \<open>The offset the decoder assembles from a single pattern.\<close>

definition byte_offset :: "byte \<Rightarrow> byte \<Rightarrow> u32" where
  "byte_offset s0 s1 = (let w0 = (ucast s0 :: u32); w1 = (ucast s1 :: u32) in
     (w1 AND 0x80) OR (push_bit 1 w1 AND 0x40) OR (push_bit 2 w1 AND 0x20) OR
     (push_bit 3 w1 AND 0x10) OR (drop_bit 4 w0 AND 0x08) OR (drop_bit 3 w0 AND 0x04) OR
     (drop_bit 2 w0 AND 0x02) OR (drop_bit 1 w0 AND 0x01))"

definition bit_number :: "byte \<Rightarrow> u32" where
  "bit_number s2 = (let w2 = (ucast s2 :: u32) in
     (drop_bit 5 w2 AND 0x04) OR (drop_bit 4 w2 AND 0x02) OR (drop_bit 3 w2 AND 0x01))"

lemma u32_index: "n < LENGTH(32) \<Longrightarrow> n \<in> {0, 1, 2, 3, 4, 5, 6, 7, 8, 9, 10, 11, 12, 13, 14, 15,
    16, 17, 18, 19, 20, 21, 22, 23, 24, 25, 26, 27, 28, 29, 30, 31}"
  by (simp only: insert_iff empty_iff) (simp, presburger)

lemma byte_offset_line:
  "byte_offset (line_low y (NOT y)) (line_high y (NOT y)) = ucast y"
proof (rule bit_word_eqI)
  fix n
  assume "n < LENGTH(32)"
  from u32_index [OF this]
  show "bit (byte_offset (line_low y (NOT y)) (line_high y (NOT y))) n = bit (ucast y :: u32) n"
    by (elim insertE emptyE; simp only: byte_offset_def Let_def bit_simps;
      simp?; simp add: One_nat_def line_high_bits [unfolded One_nat_def]
        line_low_bits [unfolded One_nat_def] bit_not_iff bit_unsigned_iff no_high_bit)
qed

definition column_code :: "nat \<Rightarrow> byte" where
  "column_code b = (if bit b 0 then 0x02 else 0x01) OR (if bit b 1 then 0x08 else 0x04) OR
      (if bit b 2 then 0x20 else 0x10)"

lemma bit_number_column: "b < 8 \<Longrightarrow> unat (bit_number (push_bit 2 (column_code b))) = b"
proof -
  assume "b < 8"
  then have "b \<in> {0, 1, 2, 3, 4, 5, 6, 7}" by auto
  then show ?thesis by (auto simp: bit_number_def column_code_def bit_simps One_nat_def)
qed

lemma single_line: "single_pattern (line_low y (NOT y)) (line_high y (NOT y)) (push_bit 2 (column_code b))"
  unfolding single_pattern_def pair_pattern pair_pattern2
  by (simp only: line_high_bits line_low_bits bit_not_iff column_code_def bit_simps)
    (simp, simp add: One_nat_def)

lemma correct_cases:
  assumes s: "s0 = ecc1 c' XOR ecc1 c" "s1 = ecc0 c' XOR ecc0 c" "s2 = ecc2 c' XOR ecc2 c"
  shows "nand_correct_data d c c' =
    (if s0 OR s1 OR s2 = 0 then Some (0, d)
     else if single_pattern s0 s1 s2
     then (case rd d (unat (byte_offset s0 s1)) of None \<Rightarrow> None
       | Some x \<Rightarrow> map_option (\<lambda>d. (1, d)) (wr d (unat (byte_offset s0 s1))
           (x XOR ucast (push_bit (unat (bit_number s2)) (1 :: u32)))))
     else if countbits (ucast s0 OR push_bit 8 (ucast s1) OR push_bit 16 (ucast s2)) = 1
     then Some (1, d) else Some (- EBADMSG, d))"
  unfolding s nand_correct_data_def single_pattern_def byte_offset_def bit_number_def Let_def
  by (auto simp only: Option.bind.simps split: option.split) (simp_all add: map_option_case)

lemma flip_flip: "i < length d \<Longrightarrow> flip (flip d i b) i b = d"
  by (simp add: flip_def xor.assoc)

lemma flip_length [simp]: "length (flip d i b) = length d"
  by (simp add: flip_def)

lemma single_nonzero: "single_pattern s0 s1 s2 \<Longrightarrow> s0 OR s1 OR s2 \<noteq> 0"
  by (auto simp: single_pattern_def or_eq_0_iff)

lemma flip_code:
  assumes "256 \<le> length d" and "i < 256" and "b < 8"
  shows "\<exists>r1 r2 r3. nand_calculate_ecc d = Some (encode (r1, r2, r3)) \<and>
    nand_calculate_ecc (flip d i b) =
      Some (encode (r1 XOR column_code b, r2 XOR NOT (of_nat i), r3 XOR of_nat i))"
  using assms calculate_eq [of d] calculate_eq [of "flip d i b"]
  unfolding flip_sums [OF assms(2,1,3)] column_bit(2) [OF assms(3), folded column_code_def]
  by (metis flip_length)

lemma ucast_bit: "ucast (2 ^ b :: u32) = (2 ^ b :: byte)"
  by (rule bit_word_eqI) (auto simp: bit_simps)

lemma correct_one_bit:
  assumes d: "256 \<le> length d" and i: "i < 256" and b: "b < 8"
    and c: "nand_calculate_ecc d = Some c" and c': "nand_calculate_ecc (flip d i b) = Some c'"
  shows "nand_correct_data (flip d i b) c c' = Some (1, d)"
proof -
  let ?y = "of_nat i :: byte"
  from flip_code [OF d i b] c c' obtain r1 r2 r3 where
    e: "c = encode (r1, r2, r3)" "c' = encode (r1 XOR column_code b, r2 XOR NOT ?y, r3 XOR ?y)"
    by auto
  have y: "unat (ucast ?y :: u32) = i"
    using i by (simp add: unsigned_ucast_eq unsigned_of_nat take_bit_nat_eq_self)
  have "nand_correct_data (flip d i b) c c' =
      (case rd (flip d i b) i of None \<Rightarrow> None
       | Some x \<Rightarrow> map_option (\<lambda>d. (1, d)) (wr (flip d i b) i (x XOR ucast (push_bit b (1 :: u32)))))"
    using correct_cases [OF syndrome(2,1,3) [OF e, symmetric], of "flip d i b"]
    unfolding byte_offset_line bit_number_column [OF b] y
    by (simp only: single_line single_nonzero [OF single_line] if_True if_False)
  also have "\<dots> = Some (1, flip (flip d i b) i b)"
    using d i b by (simp add: flip_def ucast_bit)
  finally show ?thesis using d i by (simp add: flip_flip)
qed

section \<open>Counting bits\<close>

definition bit_sum :: "nat \<Rightarrow> 'a::semiring_bits \<Rightarrow> nat" where
  "bit_sum n w = (\<Sum>k<n. of_bool (bit w k))"

lemma countbits_sum: "(\<And>k. n \<le> k \<Longrightarrow> \<not> bit w k) \<Longrightarrow> countbits w = bit_sum n w"
proof (induction n arbitrary: w)
  case 0
  then have "w = 0" by (intro bit_word_eqI) simp
  then show ?case by (simp add: countbits.simps bit_sum_def)
next
  case (Suc n)
  have s: "bit_sum (Suc n) w = of_bool (bit w 0) + bit_sum n (drop_bit 1 w)"
    unfolding bit_sum_def sum.lessThan_Suc_shift by (simp add: bit_drop_bit_eq One_nat_def)
  have IH: "countbits (drop_bit 1 w) = bit_sum n (drop_bit 1 w)"
    using Suc.prems by (intro Suc.IH) (simp add: bit_drop_bit_eq)
  have one: "unat (w AND 1) = of_bool (bit w 0)"
    by (simp add: and_one_eq mod_2_eq_odd bit_0)
  show ?case
  proof (cases "w = 0")
    case True
    then show ?thesis by (simp add: countbits.simps bit_sum_def)
  next
    case False
    then show ?thesis using s IH one by (simp add: countbits.simps [of w])
  qed
qed

lemma sum_shift: "(\<Sum>k<m + (n :: nat). f k :: nat) = (\<Sum>k<m. f k) + (\<Sum>k<n. f (m + k))"
  by (induction n) (simp_all add: add.assoc)

lemma countbits_syndrome:
  "countbits (ucast s0 OR push_bit 8 (ucast s1) OR push_bit 16 (ucast s2)) =
     bit_sum 8 (s0 :: byte) + bit_sum 8 (s1 :: byte) + bit_sum 8 (s2 :: byte)"
  (is "countbits ?w = _")
proof -
  have b: "bit ?w k = (bit s0 k \<or> 8 \<le> k \<and> bit s1 (k - 8) \<or> 16 \<le> k \<and> bit s2 (k - 16))" if "k < 24" for k
    using that by (simp only: bit_simps) auto
  have "countbits ?w = bit_sum (8 + (8 + 8)) ?w"
    by (rule countbits_sum) (auto simp: bit_simps no_high_bit)
  also have "\<dots> = (\<Sum>k<8. of_bool (bit ?w k)) + ((\<Sum>k<8. of_bool (bit ?w (8 + k))) +
      (\<Sum>k<8. of_bool (bit ?w (8 + (8 + k)))))"
    unfolding bit_sum_def sum_shift ..
  also have "\<dots> = bit_sum 8 s0 + (bit_sum 8 s1 + bit_sum 8 s2)"
    unfolding bit_sum_def by (intro arg_cong2 [where f = "(+)"] sum.cong refl)
      (simp_all add: b no_high_bit)
  finally show ?thesis by simp
qed

section \<open>Two flipped data bits\<close>

definition paired :: "byte \<Rightarrow> bool" where
  "paired s \<longleftrightarrow> bit s 0 = bit s 1 \<and> bit s 2 = bit s 3 \<and> bit s 4 = bit s 5 \<and> bit s 6 = bit s 7"

lemma bit_sum_8: "bit_sum 8 (s :: byte) = of_bool (bit s 0) + of_bool (bit s 1) + of_bool (bit s 2) +
    of_bool (bit s 3) + of_bool (bit s 4) + of_bool (bit s 5) + of_bool (bit s 6) + of_bool (bit s 7)"
proof -
  have "{..<8 :: nat} = {0, 1, 2, 3, 4, 5, 6, 7}" by auto
  then show ?thesis by (simp add: bit_sum_def)
qed

lemma paired_even: "paired s \<Longrightarrow> even (bit_sum 8 s)"
  by (simp add: paired_def bit_sum_8)

lemma paired_line: "paired (line_high z z)" "paired (line_low z z)"
  by (simp_all add: paired_def line_high_bits line_low_bits)

lemma column_code_bits:
  "bit (column_code b) 0 = (\<not> bit b 0)" "bit (column_code b) 1 = bit b 0"
  "bit (column_code b) 2 = (\<not> bit b 1)" "bit (column_code b) 3 = bit b 1"
  "bit (column_code b) 4 = (\<not> bit b 2)" "bit (column_code b) 5 = bit b 2"
  "bit (column_code b) 6 = False" "bit (column_code b) 7 = False"
  by ((simp only: column_code_def bit_simps, simp?; simp add: One_nat_def)+)

lemma shifted_bits:
  "bit (push_bit 2 x) 0 = False" "bit (push_bit 2 x) 1 = False"
  "bit (push_bit 2 x) 2 = bit x 0" "bit (push_bit 2 x) 3 = bit x 1"
  "bit (push_bit 2 x) 4 = bit x 2" "bit (push_bit 2 x) 5 = bit x 3"
  "bit (push_bit 2 x) 6 = bit x 4" "bit (push_bit 2 x) 7 = bit (x :: byte) 5"
  by (simp_all add: bit_simps One_nat_def)

lemma paired_column: "paired (push_bit 2 (column_code b XOR column_code c))"
  by (simp only: paired_def shifted_bits bit_xor_iff column_code_bits) simp

lemma paired_not_single: "paired s0 \<Longrightarrow> \<not> single_pattern s0 s1 s2"
  by (simp add: single_pattern_def pair_pattern paired_def)

lemma column_code_inj:
  assumes "b < 8" and "c < 8" and "column_code b = column_code c"
  shows "b = c"
proof -
  have "unat (bit_number (push_bit 2 (column_code b))) = unat (bit_number (push_bit 2 (column_code c)))"
    using assms(3) by simp
  then show ?thesis using assms(1,2) by (simp add: bit_number_column)
qed

lemma line_zero: "line_high z z OR line_low z z = 0 \<Longrightarrow> z = 0"
proof (rule byte_eqI)
  assume "line_high z z OR line_low z z = 0"
  then have "\<not> bit (line_high z z) n" "\<not> bit (line_low z z) n" for n
    by (simp_all add: or_eq_0_iff)
  then show "bit z 0 = bit 0 0" "bit z 1 = bit 0 1" "bit z 2 = bit 0 2" "bit z 3 = bit 0 3"
    "bit z 4 = bit 0 4" "bit z 5 = bit 0 5" "bit z 6 = bit 0 6" "bit z 7 = bit 0 7"
    by (metis line_high_bits line_low_bits bit_0_eq bot_apply bot_bool_def)+
qed

lemma shift2_zero: "push_bit 2 (column_code b XOR column_code c) = 0 \<Longrightarrow> column_code b = column_code c"
proof (rule byte_eqI)
  assume "push_bit 2 (column_code b XOR column_code c) = 0"
  then have z: "\<not> bit (push_bit 2 (column_code b XOR column_code c)) n" for n by simp
  show "bit (column_code b) 0 = bit (column_code c) 0" "bit (column_code b) 1 = bit (column_code c) 1"
    "bit (column_code b) 2 = bit (column_code c) 2" "bit (column_code b) 3 = bit (column_code c) 3"
    "bit (column_code b) 4 = bit (column_code c) 4" "bit (column_code b) 5 = bit (column_code c) 5"
    using z [of 2] z [of 3] z [of 4] z [of 5] z [of 6] z [of 7]
    by (simp_all only: shifted_bits bit_xor_iff) blast+
qed (simp_all add: column_code_bits)

lemma xor_zero_eq: "a XOR b = 0 \<Longrightarrow> a = (b :: byte)"
  by (metis xor.assoc xor.right_neutral xor_self_eq)

lemma correct_two_bits:
  assumes d: "256 \<le> length d" and i: "i < 256" "j < 256" and b: "b < 8" "k < 8"
    and ne: "(i, b) \<noteq> (j, k)" and c: "nand_calculate_ecc d = Some c"
    and c': "nand_calculate_ecc (flip (flip d i b) j k) = Some c'"
  shows "nand_correct_data (flip (flip d i b) j k) c c' = Some (- EBADMSG, flip (flip d i b) j k)"
proof -
  let ?y = "of_nat i :: byte" and ?z = "of_nat j :: byte"
  let ?x = "?y XOR ?z" and ?v = "column_code b XOR column_code k"
  define r1 r2 r3 where r: "r1 = xsum (reg1_at d) 256" "r2 = xsum (reg2_at d) 256"
    "r3 = xsum (reg3_at d) 256"
  have e: "c = encode (r1, r2, r3)" using c calculate_eq [OF d] by (simp add: r)
  have l: "256 \<le> length (flip d i b)" "256 \<le> length (flip (flip d i b) j k)" using d by simp_all
  have e2: "c' = encode (r1 XOR ?v, r2 XOR ?x, r3 XOR ?x)"
    using c' calculate_eq [OF l(2)] unfolding flip_sums [OF i(2) l(1) b(2)] flip_sums [OF i(1) d b(1)]
      r [symmetric] column_bit(2) [OF b(1), folded column_code_def]
      column_bit(2) [OF b(2), folded column_code_def]
    by (simp add: xor.assoc)
  note s = syndrome [OF e e2]
  have z: "line_low ?x ?x OR line_high ?x ?x OR push_bit 2 ?v \<noteq> 0"
  proof
    assume "line_low ?x ?x OR line_high ?x ?x OR push_bit 2 ?v = 0"
    then have "line_high ?x ?x OR line_low ?x ?x = 0" "push_bit 2 ?v = 0"
      by (simp_all add: or_eq_0_iff)
    then have "?x = 0" "column_code b = column_code k"
      using line_zero [of ?x] shift2_zero [of b k] by simp_all
    then have "?y = ?z" "b = k"
      using column_code_inj [OF b] xor_zero_eq [of ?y ?z] by simp_all
    then have "unat ?y = unat ?z" "b = k" by simp_all
    then show False using ne i by (simp add: unsigned_of_nat take_bit_nat_eq_self)
  qed
  have "even (countbits (ucast (line_low ?x ?x) OR push_bit 8 (ucast (line_high ?x ?x)) OR
      push_bit 16 (ucast (push_bit 2 ?v))))"
    unfolding countbits_syndrome by (intro dvd_add paired_even paired_line paired_column)
  then have "countbits (ucast (line_low ?x ?x) OR push_bit 8 (ucast (line_high ?x ?x)) OR
      push_bit 16 (ucast (push_bit 2 ?v))) \<noteq> 1" by auto
  then show ?thesis
    using correct_cases [OF s(2,1,3) [symmetric]] z paired_not_single [OF paired_line(2)]
    by simp
qed

section \<open>One flipped code bit\<close>

definition flip_ecc :: "ecc_code \<Rightarrow> nat \<Rightarrow> nat \<Rightarrow> ecc_code" where
  "flip_ecc c w k =
     (if w = 0 then c\<lparr>ecc0 := ecc0 c XOR push_bit k 1\<rparr>
      else if w = 1 then c\<lparr>ecc1 := ecc1 c XOR push_bit k 1\<rparr>
      else c\<lparr>ecc2 := ecc2 c XOR push_bit k 1\<rparr>)"

lemma bit_sum_one: "k < 8 \<Longrightarrow> bit_sum 8 (push_bit k 1 :: byte) = 1"
proof -
  assume "k < 8"
  then have "k \<in> {0, 1, 2, 3, 4, 5, 6, 7}" by auto
  then show ?thesis by (auto simp: bit_sum_8 One_nat_def)
qed

lemma bit_sum_zero [simp]: "bit_sum 8 (0 :: byte) = 0"
  by (simp add: bit_sum_8)

lemma correct_code_bit:
  assumes k: "k < 8"
  shows "nand_correct_data d (flip_ecc c w k) c = Some (1, d)"
proof -
  let ?f = "flip_ecc c w k"
  define s0 s1 s2 where s: "s0 = ecc1 c XOR ecc1 ?f" "s1 = ecc0 c XOR ecc0 ?f" "s2 = ecc2 c XOR ecc2 ?f"
  let ?e = "push_bit k 1 :: byte"
  have v: "s0 = (if w = 1 then ?e else 0)" "s1 = (if w = 0 then ?e else 0)"
    "s2 = (if w = 0 \<or> w = 1 then 0 else ?e)"
    by (simp_all add: s flip_ecc_def xor.assoc [symmetric])
  have one: "countbits (ucast s0 OR push_bit 8 (ucast s1) OR push_bit 16 (ucast s2)) = 1"
    unfolding countbits_syndrome v by (simp add: bit_sum_one [OF k] del: push_bit_of_1)
  have "s0 OR s1 OR s2 \<noteq> 0"
    using one by (auto simp: or_eq_0_iff countbits.simps [of 0])
  moreover have "\<not> single_pattern s0 s1 s2"
    by (auto simp: v single_pattern_def pair_pattern)
  ultimately show ?thesis using correct_cases [OF s, of d] one by simp
qed

section \<open>Properties\<close>

definition ex_page :: mem where
  "ex_page = replicate 256 0xA5"

text \<open>C25. A page with one flipped bit is repaired: comparing the code stored for the good page
  with the code computed from the damaged one restores the good page and returns 1.\<close>

theorem nand_correct_single_bit:
  assumes "length d = 256" and "i < 256" and "b < 8"
    and "nand_calculate_ecc d = Some c" and "nand_calculate_ecc (flip d i b) = Some c'"
  shows "nand_correct_data (flip d i b) c c' = Some (1, d)"
  using correct_one_bit [OF _ assms(2-5)] assms(1) by simp

theorem nand_correct_single_bit_witness:
  "\<exists>c c'. nand_calculate_ecc ex_page = Some c \<and> nand_calculate_ecc (flip ex_page 77 3) = Some c' \<and>
    nand_correct_data (flip ex_page 77 3) c c' = Some (1, ex_page)"
proof -
  have "length ex_page = 256" by (simp add: ex_page_def)
  moreover obtain c c' where "nand_calculate_ecc ex_page = Some c"
    "nand_calculate_ecc (flip ex_page 77 3) = Some c'"
    using calculate_eq [of ex_page] calculate_eq [of "flip ex_page 77 3"] calculation by auto
  ultimately show ?thesis using nand_correct_single_bit [of ex_page 77 3] by simp
qed

text \<open>C26. Two flipped data bits are detected, never miscorrected: the result is
  \<open>-EBADMSG\<close> and the data are left as read.\<close>

theorem nand_detect_double_bit:
  assumes "length d = 256" and "i < 256" and "j < 256" and "b < 8" and "k < 8"
    and "(i, b) \<noteq> (j, k)" and "nand_calculate_ecc d = Some c"
    and "nand_calculate_ecc (flip (flip d i b) j k) = Some c'"
  shows "nand_correct_data (flip (flip d i b) j k) c c' = Some (- EBADMSG, flip (flip d i b) j k)"
  using correct_two_bits [OF _ assms(2-8)] assms(1) by simp

theorem nand_detect_double_bit_witness:
  "\<exists>c c'. nand_calculate_ecc ex_page = Some c \<and>
    nand_calculate_ecc (flip (flip ex_page 5 0) 200 7) = Some c' \<and>
    nand_correct_data (flip (flip ex_page 5 0) 200 7) c c' =
      Some (- EBADMSG, flip (flip ex_page 5 0) 200 7)"
proof -
  have "length ex_page = 256" by (simp add: ex_page_def)
  moreover obtain c c' where "nand_calculate_ecc ex_page = Some c"
    "nand_calculate_ecc (flip (flip ex_page 5 0) 200 7) = Some c'"
    using calculate_eq [of ex_page] calculate_eq [of "flip (flip ex_page 5 0) 200 7"] calculation
    by auto
  ultimately show ?thesis using nand_detect_double_bit [of ex_page 5 200 0 7] by simp
qed

text \<open>One flipped bit among the 24 stored code bits is recognised as such: the result is 1 and
  the data are unchanged.\<close>

theorem nand_correct_code_bit:
  assumes "k < 8" and "nand_calculate_ecc d = Some c"
  shows "nand_correct_data d (flip_ecc c w k) c = Some (1, d)"
  by (rule correct_code_bit [OF assms(1)])

theorem nand_correct_code_bit_witness:
  "\<exists>c. nand_calculate_ecc ex_page = Some c \<and>
    nand_correct_data ex_page (flip_ecc c 2 7) c = Some (1, ex_page)"
proof -
  obtain c where "nand_calculate_ecc ex_page = Some c"
    using calculate_eq [of ex_page] by (auto simp: ex_page_def)
  then show ?thesis using nand_correct_code_bit [of 7 ex_page c 2] by simp
qed

end
