(* ===== verification/CString.thy ===== *)
theory CString
  imports Prelude
begin

text \<open>
  The string and memory routines of \<^verbatim>\<open>lib_generic/string.c\<close> over one flat memory, so
  that overlapping arguments are modelled. A pointer is an address, \<open>NULL\<close> is \<open>None\<close> of a
  \<open>nat option\<close>; the outer \<open>option\<close> is \<open>None\<close> when a load or store leaves the memory, which is
  also how a search of an unterminated string ends. Characters are unsigned bytes (ARM); the result
  of a comparison is the C \<open>int\<close>.
\<close>

section \<open>Copying strings\<close>

function str_copy :: "mem \<Rightarrow> nat \<Rightarrow> nat \<Rightarrow> mem option" where
  "str_copy m d s =
     (if s < length m
      then (case wr m d (m ! s) of
              None \<Rightarrow> None
            | Some m' \<Rightarrow> if m ! s \<noteq> 0 then str_copy m' (d + 1) (s + 1) else Some m')
      else None)"
  by pat_completeness auto
termination by (relation "measure (\<lambda>(m, d, s). length m - s)") auto

declare str_copy.simps [simp del]

definition c_strcpy :: "mem \<Rightarrow> nat \<Rightarrow> nat \<Rightarrow> (mem \<times> nat) option" where
  "c_strcpy m dest src = map_option (\<lambda>m. (m, dest)) (str_copy m dest src)"

primrec strn_copy :: "nat \<Rightarrow> mem \<Rightarrow> nat \<Rightarrow> nat \<Rightarrow> mem option" where
  "strn_copy 0 m d s = Some m"
| "strn_copy (Suc n) m d s = do {
     c \<leftarrow> rd m s;
     m \<leftarrow> wr m d c;
     if c \<noteq> 0 then strn_copy n m (d + 1) (s + 1) else Some m
   }"

definition c_strncpy :: "mem \<Rightarrow> nat \<Rightarrow> nat \<Rightarrow> nat \<Rightarrow> (mem \<times> nat) option" where
  "c_strncpy m dest src count = map_option (\<lambda>m. (m, dest)) (strn_copy count m dest src)"

text \<open>The address of the terminating zero.\<close>

function str_end :: "mem \<Rightarrow> nat \<Rightarrow> nat option" where
  "str_end m p = (if p < length m then if m ! p = 0 then Some p else str_end m (p + 1) else None)"
  by pat_completeness auto
termination by (relation "measure (\<lambda>(m, p). length m - p)") auto

declare str_end.simps [simp del]

definition c_strcat :: "mem \<Rightarrow> nat \<Rightarrow> nat \<Rightarrow> (mem \<times> nat) option" where
  "c_strcat m dest src = do {
     e \<leftarrow> str_end m dest;
     m \<leftarrow> str_copy m e src;
     Some (m, dest)
   }"

primrec strncat_loop :: "nat \<Rightarrow> mem \<Rightarrow> nat \<Rightarrow> nat \<Rightarrow> mem option" where
  "strncat_loop 0 m d s = wr m d 0"
| "strncat_loop (Suc n) m d s = do {
     c \<leftarrow> rd m s;
     m \<leftarrow> wr m d c;
     if c = 0 then Some m else strncat_loop n m (d + 1) (s + 1)
   }"

definition c_strncat :: "mem \<Rightarrow> nat \<Rightarrow> nat \<Rightarrow> nat \<Rightarrow> (mem \<times> nat) option" where
  "c_strncat m dest src count =
     (if count = 0 then Some (m, dest)
      else do {
        e \<leftarrow> str_end m dest;
        m \<leftarrow> strncat_loop count m e src;
        Some (m, dest)
      })"

section \<open>Comparing and searching strings\<close>

text \<open>The difference of two characters, kept in a \<open>signed char\<close>.\<close>

definition char_diff :: "byte \<Rightarrow> byte \<Rightarrow> int" where
  "char_diff a b = sint (a - b)"

function c_strcmp :: "mem \<Rightarrow> nat \<Rightarrow> nat \<Rightarrow> int option" where
  "c_strcmp m cs ct =
     (if cs < length m
      then (case rd m ct of
              None \<Rightarrow> None
            | Some b \<Rightarrow>
                (let res = char_diff (m ! cs) b
                 in if res \<noteq> 0 \<or> m ! cs = 0 then Some res else c_strcmp m (cs + 1) (ct + 1)))
      else None)"
  by pat_completeness auto
termination by (relation "measure (\<lambda>(m, cs, ct). length m - cs)") auto

declare c_strcmp.simps [simp del]

primrec c_strncmp :: "nat \<Rightarrow> mem \<Rightarrow> nat \<Rightarrow> nat \<Rightarrow> int option" where
  "c_strncmp 0 m cs ct = Some 0"
| "c_strncmp (Suc n) m cs ct = do {
     a \<leftarrow> rd m cs;
     b \<leftarrow> rd m ct;
     let res = char_diff a b;
     if res \<noteq> 0 \<or> a = 0 then Some res else c_strncmp n m (cs + 1) (ct + 1)
   }"

function c_strchr :: "mem \<Rightarrow> nat \<Rightarrow> byte \<Rightarrow> nat option option" where
  "c_strchr m s c =
     (if s < length m
      then if m ! s = c then Some (Some s) else if m ! s = 0 then Some None else c_strchr m (s + 1) c
      else None)"
  by pat_completeness auto
termination by (relation "measure (\<lambda>(m, s, c). length m - s)") auto

declare c_strchr.simps [simp del]

definition c_strlen :: "mem \<Rightarrow> nat \<Rightarrow> nat option" where
  "c_strlen m s = map_option (\<lambda>e. e - s) (str_end m s)"

text \<open>\<open>strrchr\<close> walks back from the terminator at \<open>s + n\<close>.\<close>

primrec strrchr_back :: "nat \<Rightarrow> mem \<Rightarrow> nat \<Rightarrow> byte \<Rightarrow> nat option option" where
  "strrchr_back 0 m s c = map_option (\<lambda>x. if x = c then Some s else None) (rd m s)"
| "strrchr_back (Suc n) m s c = do {
     x \<leftarrow> rd m (s + Suc n);
     if x = c then Some (Some (s + Suc n)) else strrchr_back n m s c
   }"

definition c_strrchr :: "mem \<Rightarrow> nat \<Rightarrow> byte \<Rightarrow> nat option option" where
  "c_strrchr m s c = do { n \<leftarrow> c_strlen m s; strrchr_back n m s c }"

primrec strnlen_end :: "nat \<Rightarrow> mem \<Rightarrow> nat \<Rightarrow> nat option" where
  "strnlen_end 0 m p = Some p"
| "strnlen_end (Suc n) m p = do { c \<leftarrow> rd m p; if c \<noteq> 0 then strnlen_end n m (p + 1) else Some p }"

definition c_strnlen :: "mem \<Rightarrow> nat \<Rightarrow> nat \<Rightarrow> nat option" where
  "c_strnlen m s count = map_option (\<lambda>e. e - s) (strnlen_end count m s)"

text \<open>\<open>strdup\<close>: the argument \<open>new\<close> is what \<open>malloc\<close> returns for the length plus one.\<close>

definition c_strdup :: "mem \<Rightarrow> nat option \<Rightarrow> (nat \<Rightarrow> nat option) \<Rightarrow> (mem \<times> nat option) option" where
  "c_strdup m s malloc =
     (case s of
        None \<Rightarrow> Some (m, None)
      | Some s \<Rightarrow> do {
          n \<leftarrow> c_strlen m s;
          (case malloc (n + 1) of
             None \<Rightarrow> Some (m, None)
           | Some new \<Rightarrow> map_option (\<lambda>(m, _). (m, Some new)) (c_strcpy m new s))
        })"

text \<open>Is the character one of the string at \<open>a\<close> (its terminator excluded)?\<close>

function str_member :: "mem \<Rightarrow> byte \<Rightarrow> nat \<Rightarrow> bool option" where
  "str_member m c a =
     (if a < length m
      then if m ! a = 0 then Some False else if c = m ! a then Some True else str_member m c (a + 1)
      else None)"
  by pat_completeness auto
termination by (relation "measure (\<lambda>(m, c, a). length m - a)") auto

declare str_member.simps [simp del]

function strspn_end :: "mem \<Rightarrow> nat \<Rightarrow> nat \<Rightarrow> nat option" where
  "strspn_end m p accept =
     (if p < length m
      then if m ! p = 0 then Some p
           else (case str_member m (m ! p) accept of
                   None \<Rightarrow> None
                 | Some b \<Rightarrow> if b then strspn_end m (p + 1) accept else Some p)
      else None)"
  by pat_completeness auto
termination by (relation "measure (\<lambda>(m, p, a). length m - p)") auto

declare strspn_end.simps [simp del]

definition c_strspn :: "mem \<Rightarrow> nat \<Rightarrow> nat \<Rightarrow> nat option" where
  "c_strspn m s accept = map_option (\<lambda>e. e - s) (strspn_end m s accept)"

function c_strpbrk :: "mem \<Rightarrow> nat \<Rightarrow> nat \<Rightarrow> nat option option" where
  "c_strpbrk m cs ct =
     (if cs < length m
      then if m ! cs = 0 then Some None
           else (case str_member m (m ! cs) ct of
                   None \<Rightarrow> None
                 | Some b \<Rightarrow> if b then Some (Some cs) else c_strpbrk m (cs + 1) ct)
      else None)"
  by pat_completeness auto
termination by (relation "measure (\<lambda>(m, cs, ct). length m - cs)") auto

declare c_strpbrk.simps [simp del]

text \<open>\<open>strtok\<close> with its saved pointer \<open>___strtok\<close> as an argument and a result.\<close>

definition c_strtok :: "mem \<Rightarrow> nat option \<Rightarrow> nat \<Rightarrow> nat option \<Rightarrow> (mem \<times> nat option \<times> nat option) option" where
  "c_strtok m s ct saved =
     (case (if s = None then saved else s) of
        None \<Rightarrow> Some (m, None, saved)
      | Some p \<Rightarrow> do {
          n \<leftarrow> c_strspn m p ct;
          let b = p + n;
          c \<leftarrow> rd m b;
          if c = 0 then Some (m, None, None)
          else do {
            e \<leftarrow> c_strpbrk m b ct;
            (case e of
               None \<Rightarrow> Some (m, Some b, None)
             | Some e \<Rightarrow> do {
                 x \<leftarrow> rd m e;
                 if x \<noteq> 0 then map_option (\<lambda>m. (m, Some b, Some (e + 1))) (wr m e 0)
                 else Some (m, Some b, Some e)
               })
          }
        })"

definition c_strsep :: "mem \<Rightarrow> nat option \<Rightarrow> nat \<Rightarrow> (mem \<times> nat option \<times> nat option) option" where
  "c_strsep m s ct =
     (case s of
        None \<Rightarrow> Some (m, None, None)
      | Some b \<Rightarrow> do {
          e \<leftarrow> c_strpbrk m b ct;
          (case e of
             None \<Rightarrow> Some (m, Some b, None)
           | Some e \<Rightarrow> map_option (\<lambda>m. (m, Some b, Some (e + 1))) (wr m e 0))
        })"

function swab_loop :: "mem \<Rightarrow> nat \<Rightarrow> mem option" where
  "swab_loop m p =
     (if p < length m
      then if m ! p = 0 then Some m
           else if p + 1 < length m
           then if m ! (p + 1) = 0 then Some m
                else swab_loop (m[p := m ! (p + 1), p + 1 := m ! p]) (p + 2)
           else None
      else None)"
  by pat_completeness auto
termination by (relation "measure (\<lambda>(m, p). length m - p)") auto

declare swab_loop.simps [simp del]

definition c_strswab :: "mem \<Rightarrow> nat option \<Rightarrow> (mem \<times> nat option) option" where
  "c_strswab m s =
     (case s of
        None \<Rightarrow> Some (m, None)
      | Some s \<Rightarrow> do {
          c \<leftarrow> rd m s;
          if c = 0 then Some (m, None) else map_option (\<lambda>m. (m, Some s)) (swab_loop m s)
        })"

section \<open>Memory areas\<close>

primrec set_bytes :: "nat \<Rightarrow> mem \<Rightarrow> nat \<Rightarrow> byte \<Rightarrow> mem option" where
  "set_bytes 0 m p c = Some m"
| "set_bytes (Suc n) m p c = do { m \<leftarrow> wr m p c; set_bytes n m (p + 1) c }"

primrec set_words :: "nat \<Rightarrow> mem \<Rightarrow> nat \<Rightarrow> u32 \<Rightarrow> mem option" where
  "set_words 0 m p w = Some m"
| "set_words (Suc n) m p w = do { m \<leftarrow> wrn m p (put_le32 w); set_words n m (p + 4) w }"

definition c_memset :: "mem \<Rightarrow> nat \<Rightarrow> u32 \<Rightarrow> nat \<Rightarrow> (mem \<times> nat) option" where
  "c_memset m s c count = do {
     (m, p, n) \<leftarrow>
       (if s mod 4 = 0
        then (let cl = fold (\<lambda>_ cl. push_bit 8 cl OR (c AND 0xff)) [0..<4 :: nat] 0
              in map_option (\<lambda>m. (m, s + 4 * (count div 4), count mod 4))
                   (set_words (count div 4) m s cl))
        else Some (m, s, count));
     m \<leftarrow> set_bytes n m p (ucast c);
     Some (m, s)
   }"

primrec copy_bytes :: "nat \<Rightarrow> mem \<Rightarrow> nat \<Rightarrow> nat \<Rightarrow> mem option" where
  "copy_bytes 0 m d s = Some m"
| "copy_bytes (Suc n) m d s = do { c \<leftarrow> rd m s; m \<leftarrow> wr m d c; copy_bytes n m (d + 1) (s + 1) }"

primrec copy_words :: "nat \<Rightarrow> mem \<Rightarrow> nat \<Rightarrow> nat \<Rightarrow> mem option" where
  "copy_words 0 m d s = Some m"
| "copy_words (Suc n) m d s = do { w \<leftarrow> rdn m s 4; m \<leftarrow> wrn m d w; copy_words n m (d + 4) (s + 4) }"

text \<open>The downward loop: the byte at offset \<open>n - 1\<close> first.\<close>

primrec copy_back :: "nat \<Rightarrow> mem \<Rightarrow> nat \<Rightarrow> nat \<Rightarrow> mem option" where
  "copy_back 0 m d s = Some m"
| "copy_back (Suc n) m d s = do { c \<leftarrow> rd m (s + n); m \<leftarrow> wr m (d + n) c; copy_back n m d s }"

definition c_bcopy :: "mem \<Rightarrow> nat \<Rightarrow> nat \<Rightarrow> nat \<Rightarrow> (mem \<times> nat) option" where
  "c_bcopy m src dest count = map_option (\<lambda>m. (m, dest)) (copy_bytes count m dest src)"

definition c_memcpy :: "mem \<Rightarrow> nat \<Rightarrow> nat \<Rightarrow> nat \<Rightarrow> (mem \<times> nat) option" where
  "c_memcpy m dest src count = do {
     (m, k, n) \<leftarrow>
       (if (dest OR src) mod 4 = 0
        then map_option (\<lambda>m. (m, 4 * (count div 4), count mod 4))
               (copy_words (count div 4) m dest src)
        else Some (m, 0, count));
     m \<leftarrow> copy_bytes n m (dest + k) (src + k);
     Some (m, dest)
   }"

definition c_memmove :: "mem \<Rightarrow> nat \<Rightarrow> nat \<Rightarrow> nat \<Rightarrow> (mem \<times> nat) option" where
  "c_memmove m dest src count =
     map_option (\<lambda>m. (m, dest))
       (if dest \<le> src then copy_bytes count m dest src else copy_back count m dest src)"

primrec c_memcmp :: "nat \<Rightarrow> mem \<Rightarrow> nat \<Rightarrow> nat \<Rightarrow> int option" where
  "c_memcmp 0 m cs ct = Some 0"
| "c_memcmp (Suc n) m cs ct = do {
     a \<leftarrow> rd m cs;
     b \<leftarrow> rd m ct;
     let res = uint a - uint b;
     if res \<noteq> 0 then Some res else c_memcmp n m (cs + 1) (ct + 1)
   }"

primrec c_memscan :: "nat \<Rightarrow> mem \<Rightarrow> nat \<Rightarrow> int \<Rightarrow> nat option" where
  "c_memscan 0 m p c = Some p"
| "c_memscan (Suc n) m p c = do { x \<leftarrow> rd m p; if uint x = c then Some p else c_memscan n m (p + 1) c }"

primrec c_memchr :: "nat \<Rightarrow> mem \<Rightarrow> nat \<Rightarrow> byte \<Rightarrow> nat option option" where
  "c_memchr 0 m p c = Some None"
| "c_memchr (Suc n) m p c = do { x \<leftarrow> rd m p; if c = x then Some (Some p) else c_memchr n m (p + 1) c }"

text \<open>\<open>strstr\<close>: \<open>n\<close> is the number of remaining positions, \<open>l1 - l2 + 1\<close> at the start.\<close>

primrec strstr_loop :: "nat \<Rightarrow> mem \<Rightarrow> nat \<Rightarrow> nat \<Rightarrow> nat \<Rightarrow> nat option option" where
  "strstr_loop 0 m s1 s2 l2 = Some None"
| "strstr_loop (Suc n) m s1 s2 l2 = do {
     r \<leftarrow> c_memcmp l2 m s1 s2;
     if r = 0 then Some (Some s1) else strstr_loop n m (s1 + 1) s2 l2
   }"

definition c_strstr :: "mem \<Rightarrow> nat \<Rightarrow> nat \<Rightarrow> nat option option" where
  "c_strstr m s1 s2 = do {
     l2 \<leftarrow> c_strlen m s2;
     if l2 = 0 then Some (Some s1)
     else do {
       l1 \<leftarrow> c_strlen m s1;
       strstr_loop (l1 + 1 - l2) m s1 s2 l2
     }
   }"

end
