(* ===== verification/CStringCorrect.thy ===== *)
theory CStringCorrect
  imports CString
begin

text \<open>
  The string routines against lists of bytes: moving and filling memory areas (overlaps
  included), and length, comparison, copy and substring search of terminated strings.
\<close>

section \<open>Areas\<close>

text \<open>\<open>moved m d s n\<close>: the memory after \<open>n\<close> bytes from \<open>s\<close> have been moved to \<open>d\<close>.\<close>

definition moved :: "mem \<Rightarrow> nat \<Rightarrow> nat \<Rightarrow> nat \<Rightarrow> mem" where
  "moved m d s n = take d m @ take n (drop s m) @ drop (d + n) m"

lemma moved_length: "d + n \<le> length m \<Longrightarrow> s + n \<le> length m \<Longrightarrow> length (moved m d s n) = length m"
  by (simp add: moved_def)

lemma moved_nth:
  assumes "d + n \<le> length m" and "s + n \<le> length m" and "k < length m"
  shows "moved m d s n ! k = (if d \<le> k \<and> k < d + n then m ! (s + (k - d)) else m ! k)"
proof -
  have l: "length (take n (drop s m)) = n" "length (take d m) = d" using assms by simp_all
  consider "k < d" | "d \<le> k" "k < d + n" | "d + n \<le> k" by linarith
  then show ?thesis
  proof cases
    case 1
    then show ?thesis using assms by (simp add: moved_def nth_append)
  next
    case 2
    then have "k - d < n" by simp
    then show ?thesis using assms 2 l by (simp add: moved_def nth_append)
  next
    case 3
    then have "\<not> k < d" "\<not> k - d < n" "d + n + (k - d - n) = k" by simp_all
    then show ?thesis using assms 3 l by (simp add: moved_def nth_append)
  qed
qed

lemma moved_eqI:
  assumes "d + n \<le> length m" and "s + n \<le> length m" and "length m' = length m"
    and "\<And>k. k < length m \<Longrightarrow> m' ! k = (if d \<le> k \<and> k < d + n then m ! (s + (k - d)) else m ! k)"
  shows "m' = moved m d s n"
  using assms by (intro nth_equalityI) (simp_all add: moved_length moved_nth)

lemma copy_bytes_moved:
  assumes "d + n \<le> length m" and "s + n \<le> length m" and "d \<le> s \<or> s + n \<le> d"
  shows "copy_bytes n m d s = Some (moved m d s n)"
  using assms
proof (induction n arbitrary: m d s)
  case 0
  then show ?case by (simp add: moved_def)
next
  case (Suc n)
  let ?m = "m[d := m ! s]"
  have "copy_bytes (Suc n) m d s = copy_bytes n ?m (d + 1) (s + 1)" using Suc.prems by simp
  also have "\<dots> = Some (moved ?m (d + 1) (s + 1) n)"
    using Suc.prems by (intro Suc.IH) auto
  also have "moved ?m (d + 1) (s + 1) n = moved m d s (Suc n)"
  proof (rule moved_eqI)
    fix k
    assume "k < length m"
    then have "moved ?m (d + 1) (s + 1) n ! k =
        (if d + 1 \<le> k \<and> k < d + 1 + n then ?m ! (s + 1 + (k - (d + 1))) else ?m ! k)"
      using Suc.prems by (intro moved_nth) simp_all
    also have "\<dots> = (if d \<le> k \<and> k < d + Suc n then m ! (s + (k - d)) else m ! k)"
    proof (cases "d < k")
      case True
      then have "s + 1 + (k - (d + 1)) = s + (k - d)" by simp
      then show ?thesis using Suc.prems True by (auto simp: nth_list_update)
    qed (use Suc.prems in \<open>auto simp: nth_list_update\<close>)
    finally show "moved ?m (d + 1) (s + 1) n ! k =
      (if d \<le> k \<and> k < d + Suc n then m ! (s + (k - d)) else m ! k)" .
  qed (use Suc.prems in \<open>simp_all add: moved_length\<close>)
  finally show ?case .
qed

lemma copy_back_moved:
  assumes "d + n \<le> length m" and "s + n \<le> length m" and "s \<le> d"
  shows "copy_back n m d s = Some (moved m d s n)"
  using assms
proof (induction n arbitrary: m)
  case 0
  then show ?case by (simp add: moved_def)
next
  case (Suc n)
  let ?m = "m[d + n := m ! (s + n)]"
  have "copy_back (Suc n) m d s = copy_back n ?m d s" using Suc.prems by simp
  also have "\<dots> = Some (moved ?m d s n)" using Suc.prems by (intro Suc.IH) auto
  also have "moved ?m d s n = moved m d s (Suc n)"
  proof (rule moved_eqI)
    fix k
    assume "k < length m"
    then have "moved ?m d s n ! k = (if d \<le> k \<and> k < d + n then ?m ! (s + (k - d)) else ?m ! k)"
      using Suc.prems by (intro moved_nth) simp_all
    also have "\<dots> = (if d \<le> k \<and> k < d + Suc n then m ! (s + (k - d)) else m ! k)"
      using Suc.prems \<open>k < length m\<close> by (auto simp: nth_list_update)
    finally show "moved ?m d s n ! k =
      (if d \<le> k \<and> k < d + Suc n then m ! (s + (k - d)) else m ! k)" .
  qed (use Suc.prems in \<open>simp_all add: moved_length\<close>)
  finally show ?case .
qed

lemma moved_split:
  assumes "d + (a + b) \<le> length m" and "s + (a + b) \<le> length m"
    and "d + (a + b) \<le> s \<or> s + (a + b) \<le> d"
  shows "moved (moved m d s a) (d + a) (s + a) b = moved m d s (a + b)"
proof (rule moved_eqI)
  fix k
  assume k: "k < length m"
  have l: "length (moved m d s a) = length m" using assms by (simp add: moved_length)
  have "moved (moved m d s a) (d + a) (s + a) b ! k =
      (if d + a \<le> k \<and> k < d + a + b then moved m d s a ! (s + a + (k - (d + a)))
       else moved m d s a ! k)"
    using assms k l by (intro moved_nth) simp_all
  also have "\<dots> = (if d \<le> k \<and> k < d + (a + b) then m ! (s + (k - d)) else m ! k)"
    using assms k by (auto simp: moved_nth)
  finally show "moved (moved m d s a) (d + a) (s + a) b ! k =
    (if d \<le> k \<and> k < d + (a + b) then m ! (s + (k - d)) else m ! k)" .
qed (use assms in \<open>simp_all add: moved_length\<close>)

lemma copy_words_moved:
  assumes "d + 4 * n \<le> length m" and "s + 4 * n \<le> length m"
    and "d + 4 * n \<le> s \<or> s + 4 * n \<le> d"
  shows "copy_words n m d s = Some (moved m d s (4 * n))"
  using assms
proof (induction n arbitrary: m d s)
  case 0
  then show ?case by (simp add: moved_def)
next
  case (Suc n)
  have "copy_words (Suc n) m d s = copy_words n (moved m d s 4) (d + 4) (s + 4)"
    using Suc.prems by (simp add: moved_def)
  also have "\<dots> = Some (moved (moved m d s 4) (d + 4) (s + 4) (4 * n))"
    using Suc.prems by (intro Suc.IH) (auto simp: moved_length)
  also have "moved (moved m d s 4) (d + 4) (s + 4) (4 * n) = moved m d s (4 + 4 * n)"
    using Suc.prems by (intro moved_split) auto
  finally show ?case by simp
qed

section \<open>Filling\<close>

lemma fill_word:
  "put_le32 (fold (\<lambda>_ cl. push_bit 8 cl OR (c AND 0xff)) [0..<4 :: nat] 0) = replicate 4 (ucast (c :: u32))"
proof -
  define f where "f = (\<lambda>cl :: u32. push_bit 8 cl OR (c AND 0xff))"
  have l: "fold (\<lambda>_. f) [0..<4 :: nat] 0 = f (f (f (f 0)))" by (simp add: upt_rec)
  have ff: "c AND 0xff = take_bit 8 c" by (simp add: take_bit_eq_mask mask_eq_exp_minus_1)
  have f: "bit (f x) n \<longleftrightarrow> (if n < 8 then bit c n else n < 32 \<and> bit x (n - 8))" for x n
    unfolding f_def ff by (auto simp: bit_simps)
  have "ucast (drop_bit k (f (f (f (f 0))))) = (ucast c :: byte)" if "k \<in> {0, 8, 16, 24}" for k
    using that by (intro bit_word_eqI) (auto simp: bit_unsigned_iff bit_drop_bit_eq f)
  from this [of 0] this [of 8] this [of 16] this [of 24]
  show ?thesis unfolding f_def [symmetric] l put_le32_def
    by (simp add: numeral_eq_Suc)
qed

definition filled :: "mem \<Rightarrow> nat \<Rightarrow> nat \<Rightarrow> byte \<Rightarrow> mem" where
  "filled m p n c = take p m @ replicate n c @ drop (p + n) m"

lemma filled_length: "p + n \<le> length m \<Longrightarrow> length (filled m p n c) = length m"
  by (simp add: filled_def)

lemma filled_nth:
  "p + n \<le> length m \<Longrightarrow> k < length m \<Longrightarrow>
     filled m p n c ! k = (if p \<le> k \<and> k < p + n then c else m ! k)"
  by (auto simp: filled_def nth_append min_def)

lemma filled_filled:
  assumes "p + (a + b) \<le> length m"
  shows "filled (filled m p a c) (p + a) b c = filled m p (a + b) c"
  using assms by (intro nth_equalityI) (auto simp: filled_length filled_nth)

lemma set_bytes_filled: "p + n \<le> length m \<Longrightarrow> set_bytes n m p c = Some (filled m p n c)"
proof (induction n arbitrary: m p)
  case (Suc n)
  have "m[p := c] = filled m p 1 c"
    using Suc.prems by (intro nth_equalityI) (auto simp: filled_length filled_nth nth_list_update)
  then show ?case using Suc filled_filled [of p 1 n m c] by (simp add: filled_length)
qed (simp add: filled_def)

lemma set_words_filled:
  "put_le32 w = replicate 4 c \<Longrightarrow> p + 4 * n \<le> length m \<Longrightarrow>
     set_words n m p w = Some (filled m p (4 * n) c)"
proof (induction n arbitrary: m p)
  case (Suc n)
  have "set_words (Suc n) m p w = set_words n (filled m p 4 c) (p + 4) w"
    using Suc.prems by (simp add: filled_def)
  also have "\<dots> = Some (filled (filled m p 4 c) (p + 4) (4 * n) c)"
    using Suc.prems by (intro Suc.IH) (simp_all add: filled_length)
  also have "filled (filled m p 4 c) (p + 4) (4 * n) c = filled m p (4 + 4 * n) c"
    using Suc.prems by (intro filled_filled) simp
  finally show ?case by simp
qed (simp add: filled_def)

section \<open>Terminated strings\<close>

definition has_str :: "mem \<Rightarrow> nat \<Rightarrow> byte list \<Rightarrow> bool" where
  "has_str m s bs \<longleftrightarrow> s + length bs < length m \<and> take (length bs) (drop s m) = bs \<and>
     m ! (s + length bs) = 0 \<and> 0 \<notin> set bs"

lemma has_str_Nil: "has_str m s [] \<longleftrightarrow> s < length m \<and> m ! s = 0"
  by (simp add: has_str_def)

lemma has_str_Cons:
  "has_str m s (b # bs) \<longleftrightarrow> s < length m \<and> m ! s = b \<and> b \<noteq> 0 \<and> has_str m (s + 1) bs"
proof (cases "s < length m")
  case True
  then have "drop s m = m ! s # drop (s + 1) m" by (simp add: Cons_nth_drop_Suc)
  then show ?thesis using True by (auto simp: has_str_def)
qed (simp add: has_str_def)

lemma has_str_nth: "has_str m s bs \<Longrightarrow> k < length bs \<Longrightarrow> m ! (s + k) = bs ! k"
  by (auto simp: has_str_def) (metis (no_types) add_lessD1 less_imp_le nth_drop nth_take)

lemma str_end_has: "has_str m s bs \<Longrightarrow> str_end m s = Some (s + length bs)"
  by (induction bs arbitrary: s)
    (simp_all add: has_str_Nil has_str_Cons str_end.simps [of m])

lemma strlen_has: "has_str m s bs \<Longrightarrow> c_strlen m s = Some (length bs)"
  by (simp add: c_strlen_def str_end_has)

lemma char_diff_zero: "char_diff a b = 0 \<longleftrightarrow> a = b"
  unfolding char_diff_def by (metis eq_iff_diff_eq_0 signed_eq_0_iff)

lemma strcmp_has:
  "has_str m s as \<Longrightarrow> has_str m t bs \<Longrightarrow> \<exists>r. c_strcmp m s t = Some r \<and> (r = 0 \<longleftrightarrow> as = bs)"
proof (induction as arbitrary: s t bs)
  case Nil
  then show ?case
    by (cases bs) (simp_all add: has_str_Nil has_str_Cons c_strcmp.simps [of m] char_diff_zero)
next
  case (Cons a as)
  show ?case
  proof (cases bs)
    case Nil
    then show ?thesis using Cons.prems
      by (auto simp: has_str_Nil has_str_Cons c_strcmp.simps [of m s] char_diff_zero Let_def)
  next
    case (Cons b bs')
    show ?thesis
    proof (cases "a = b")
      case True
      have "c_strcmp m s t = c_strcmp m (s + 1) (t + 1)"
        using Cons.prems \<open>bs = b # bs'\<close> True
        by (subst c_strcmp.simps) (auto simp: has_str_Cons char_diff_zero Let_def)
      then show ?thesis
        using Cons.IH [of "s + 1" "t + 1" bs'] Cons.prems \<open>bs = b # bs'\<close> True
        by (simp add: has_str_Cons)
    next
      case False
      then show ?thesis using Cons.prems \<open>bs = b # bs'\<close>
        by (subst c_strcmp.simps) (auto simp: has_str_Cons char_diff_zero Let_def)
    qed
  qed
qed

lemma has_str_frame:
  assumes "has_str m s bs" and "length m' = length m"
    and "\<And>k. s \<le> k \<Longrightarrow> k \<le> s + length bs \<Longrightarrow> m' ! k = m ! k"
  shows "has_str m' s bs"
  using assms
proof (induction bs arbitrary: s)
  case (Cons b bs)
  then show ?case by (auto simp: has_str_Cons)
qed (simp add: has_str_Nil)

lemma moved_one: "d < length m \<Longrightarrow> s < length m \<Longrightarrow> moved m d s 1 = m[d := m ! s]"
  by (intro nth_equalityI) (auto simp: moved_length moved_nth nth_list_update)

lemma str_copy_has:
  assumes "has_str m s bs" and "d + length bs < length m"
    and "d + length bs < s \<or> s + length bs < d"
  shows "str_copy m d s = Some (moved m d s (length bs + 1))"
  using assms
proof (induction bs arbitrary: m d s)
  case Nil
  then have "str_copy m d s = Some (m[d := m ! s])"
    by (subst str_copy.simps) (simp add: has_str_Nil)
  then show ?case using Nil moved_one [of d m s] by (simp add: has_str_Nil)
next
  case (Cons b bs)
  let ?m = "m[d := m ! s]"
  have h: "s < length m" "m ! s \<noteq> 0" "has_str m (s + 1) bs"
    using Cons.prems(1) by (auto simp: has_str_Cons)
  have "s + 1 + length bs < length m" using h(3) by (simp add: has_str_def)
  have "has_str ?m (s + 1) bs"
    by (rule has_str_frame [OF h(3)]) (use Cons.prems in \<open>auto simp: nth_list_update\<close>)
  then have "str_copy ?m (d + 1) (s + 1) = Some (moved ?m (d + 1) (s + 1) (length bs + 1))"
    using Cons.prems by (intro Cons.IH) auto
  moreover have "moved ?m (d + 1) (s + 1) (length bs + 1) = moved m d s (1 + (length bs + 1))"
    using Cons.prems h moved_split [of d 1 "length bs + 1" m s] moved_one [of d m s]
      \<open>s + 1 + length bs < length m\<close> by auto
  moreover have "str_copy m d s = str_copy ?m (d + 1) (s + 1)"
    using h Cons.prems by (subst str_copy.simps) simp
  ultimately show ?case by simp
qed

section \<open>Substring search\<close>

lemma memcmp_spec:
  "s + n \<le> length m \<Longrightarrow> t + n \<le> length m \<Longrightarrow>
     \<exists>r. c_memcmp n m s t = Some r \<and> (r = 0 \<longleftrightarrow> take n (drop s m) = take n (drop t m))"
proof (induction n arbitrary: s t)
  case (Suc n)
  have d: "drop s m = m ! s # drop (s + 1) m" "drop t m = m ! t # drop (t + 1) m"
    using Suc.prems by (simp_all add: Cons_nth_drop_Suc)
  show ?case
  proof (cases "m ! s = m ! t")
    case True
    then show ?thesis using Suc.IH [of "s + 1" "t + 1"] Suc.prems unfolding d by simp
  next
    case False
    then have "uint (m ! s) - uint (m ! t) \<noteq> 0" by (simp add: word_uint_eq_iff)
    then show ?thesis using Suc.prems False unfolding d by simp
  qed
qed simp

lemma find_upt_Suc:
  "find P [0..<Suc n] = (if P 0 then Some 0 else map_option Suc (find (\<lambda>i. P (Suc i)) [0..<n]))"
proof -
  have "find P (map Suc xs) = map_option Suc (find (\<lambda>i. P (Suc i)) xs)" for xs
    by (induction xs) auto
  moreover have "[0..<Suc n] = 0 # map Suc [0..<n]"
    by (simp add: upt_conv_Cons map_Suc_upt del: upt_Suc)
  ultimately show ?thesis by simp
qed

lemma strstr_loop_spec:
  assumes "0 < n \<longrightarrow> s + n + l \<le> length m + 1" and "t + l \<le> length m"
  shows "strstr_loop n m s t l = Some (map_option (\<lambda>i. s + i)
    (find (\<lambda>i. take l (drop (s + i) m) = take l (drop t m)) [0..<n]))"
  using assms
proof (induction n arbitrary: s)
  case (Suc n)
  from memcmp_spec [of s l m t] Suc.prems obtain r where
    r: "c_memcmp l m s t = Some r" "r = 0 \<longleftrightarrow> take l (drop s m) = take l (drop t m)" by auto
  show ?case
  proof (cases "r = 0")
    case True
    then show ?thesis using r by (simp add: find_upt_Suc del: upt_Suc)
  next
    case False
    moreover have "strstr_loop n m (s + 1) t l = Some (map_option (\<lambda>i. s + 1 + i)
        (find (\<lambda>i. take l (drop (s + 1 + i) m) = take l (drop t m)) [0..<n]))"
      using Suc.prems by (intro Suc.IH) auto
    ultimately show ?thesis using r
      by (simp add: find_upt_Suc option.map_comp o_def del: upt_Suc)
  qed
qed simp

definition occurs_at :: "byte list \<Rightarrow> byte list \<Rightarrow> nat \<Rightarrow> bool" where
  "occurs_at ts hs i \<longleftrightarrow> i + length ts \<le> length hs \<and> take (length ts) (drop i hs) = ts"

lemma has_str_sub:
  assumes "has_str m s hs" and "i + l \<le> length hs"
  shows "take l (drop (s + i) m) = take l (drop i hs)"
proof -
  have "take (length hs) (drop s m) = hs" using assms(1) by (simp add: has_str_def)
  then have "take l (drop i hs) = take l (drop i (take (length hs) (drop s m)))" by simp
  also have "\<dots> = take l (drop (s + i) m)"
    using assms(2) by (simp add: drop_take min_absorb1 add.commute)
  finally show ?thesis ..
qed

lemma find_least:
  "find P [0..<n] = (if \<exists>i < n. P i then Some (LEAST i. i < n \<and> P i) else None)"
proof (cases "\<exists>i < n. P i")
  case True
  define L where "L = (LEAST i. i < n \<and> P i)"
  have l: "L < n" "P L" using LeastI_ex [OF True] by (simp_all add: L_def)
  have "\<not> P j" if "j < L" for j
    using not_less_Least [of j "\<lambda>i. i < n \<and> P i"] that l(1) by (simp add: L_def)
  then have "find P [0..<n] = Some L"
    using l unfolding find_Some_iff by (intro exI [of _ L]) simp
  then show ?thesis using True by (simp add: L_def)
qed (auto simp: find_None_iff)

lemma strstr_has:
  assumes h: "has_str m s hs" and t: "has_str m t ts"
  shows "c_strstr m s t = Some (if \<exists>i. occurs_at ts hs i then Some (s + (LEAST i. occurs_at ts hs i)) else None)"
proof -
  let ?n = "length hs + 1 - length ts"
  let ?P = "\<lambda>i. take (length ts) (drop (s + i) m) = take (length ts) (drop t m)"
  have tt: "take (length ts) (drop t m) = ts" using t by (simp add: has_str_def)
  have occ: "i < ?n \<and> ?P i \<longleftrightarrow> occurs_at ts hs i" for i
    using has_str_sub [OF h, of i "length ts"] by (auto simp: occurs_at_def tt)
  have "c_strstr m s t = Some (map_option (\<lambda>i. s + i) (find ?P [0..<?n]))"
  proof (cases "ts = []")
    case True
    then show ?thesis using strlen_has [OF t] by (simp add: c_strstr_def upt_rec)
  next
    case False
    have "strstr_loop ?n m s t (length ts) = Some (map_option (\<lambda>i. s + i) (find ?P [0..<?n]))"
      using h t by (intro strstr_loop_spec) (auto simp: has_str_def)
    then show ?thesis using False strlen_has [OF t] strlen_has [OF h] by (simp add: c_strstr_def)
  qed
  also have "\<dots> = Some (if \<exists>i. occurs_at ts hs i then Some (s + (LEAST i. occurs_at ts hs i)) else None)"
    unfolding find_least occ by (simp add: occ flip: occ)
  finally show ?thesis .
qed

section \<open>Properties\<close>

definition ex_mem :: mem where
  "ex_mem = [104, 101, 108, 108, 111, 0, 108, 108, 0, 1, 2, 3, 4, 5, 6, 7]"

lemma ex_mem_str: "has_str ex_mem 0 [104, 101, 108, 108, 111]" "has_str ex_mem 6 [108, 108]"
  by (simp_all add: has_str_def ex_mem_def)

text \<open>\<open>memmove\<close> moves an area correctly however source and destination overlap: afterwards
  the destination holds the bytes the source held before, and nothing else has changed.\<close>

theorem memmove_correct:
  assumes "dest + n \<le> length m" and "src + n \<le> length m"
  shows "c_memmove m dest src n =
    Some (take dest m @ take n (drop src m) @ drop (dest + n) m, dest)"
  using assms copy_bytes_moved [of dest n m src] copy_back_moved [of dest n m src]
  by (auto simp: c_memmove_def moved_def)

theorem memmove_correct_witness:
  "c_memmove ex_mem 2 0 6 =
    Some ([104, 101, 104, 101, 108, 108, 111, 0, 0, 1, 2, 3, 4, 5, 6, 7], 2)"
  by (subst memmove_correct) (simp_all add: ex_mem_def)

text \<open>For areas that do not overlap the word-at-a-time \<open>memcpy\<close> computes what
  \<open>memmove\<close> computes, aligned or not.\<close>

theorem memcpy_is_memmove:
  assumes "dest + n \<le> length m" and "src + n \<le> length m"
    and "dest + n \<le> src \<or> src + n \<le> dest"
  shows "c_memcpy m dest src n = c_memmove m dest src n"
proof -
  let ?k = "4 * (n div 4)"
  have n: "?k + n mod 4 = n" by simp
  have "c_memmove m dest src n = Some (moved m dest src n, dest)"
    using assms copy_bytes_moved [of dest n m src] copy_back_moved [of dest n m src]
    by (auto simp: c_memmove_def)
  moreover have "copy_words (n div 4) m dest src = Some (moved m dest src ?k)"
    using assms n by (intro copy_words_moved) linarith+
  moreover have "copy_bytes (n mod 4) (moved m dest src ?k) (dest + ?k) (src + ?k) =
      Some (moved (moved m dest src ?k) (dest + ?k) (src + ?k) (n mod 4))"
  proof (rule copy_bytes_moved)
    show "dest + ?k \<le> src + ?k \<or> src + ?k + n mod 4 \<le> dest + ?k"
      using assms(3) n by (elim disjE; ((intro disjI1, linarith) | (intro disjI2, linarith)))
  qed (use assms n in \<open>simp_all add: moved_length\<close>)
  moreover have "moved (moved m dest src ?k) (dest + ?k) (src + ?k) (n mod 4) = moved m dest src n"
    using assms moved_split [of dest ?k "n mod 4" m src] unfolding n by simp
  moreover have "copy_bytes n m dest src = Some (moved m dest src n)"
    using assms by (intro copy_bytes_moved) auto
  ultimately show ?thesis by (simp add: c_memcpy_def)
qed

theorem memcpy_is_memmove_witness: "c_memcpy ex_mem 8 0 7 = c_memmove ex_mem 8 0 7"
  by (rule memcpy_is_memmove) (simp_all add: ex_mem_def)

text \<open>\<open>memset\<close> fills exactly the area, by words where the start is aligned and by bytes
  otherwise, with the low byte of its argument.\<close>

theorem memset_correct:
  assumes "s + n \<le> length m"
  shows "c_memset m s c n = Some (take s m @ replicate n (ucast c) @ drop (s + n) m, s)"
proof -
  let ?k = "4 * (n div 4)"
  have n: "?k + n mod 4 = n" by simp
  have w: "set_words (n div 4) m s (fold (\<lambda>_ cl. push_bit 8 cl OR (c AND 0xff)) [0..<4 :: nat] 0) =
      Some (filled m s ?k (ucast c))"
    using assms n by (intro set_words_filled fill_word) linarith
  have b: "set_bytes (n mod 4) (filled m s ?k (ucast c)) (s + ?k) (ucast c) =
      Some (filled (filled m s ?k (ucast c)) (s + ?k) (n mod 4) (ucast c))"
    using assms n by (intro set_bytes_filled) (simp add: filled_length)
  have "filled (filled m s ?k (ucast c)) (s + ?k) (n mod 4) (ucast c) = filled m s n (ucast c)"
    using assms filled_filled [of s ?k "n mod 4" m "ucast c"] unfolding n by simp
  with w b set_bytes_filled [OF assms] have "c_memset m s c n = Some (filled m s n (ucast c), s)"
    by (simp add: c_memset_def Let_def)
  then show ?thesis by (simp add: filled_def)
qed

theorem memset_correct_witness:
  "c_memset ex_mem 4 0x141 7 =
    Some (take 4 ex_mem @ replicate 7 0x41 @ drop 11 ex_mem, 4)"
  by (subst memset_correct) (simp_all add: ex_mem_def)

text \<open>\<open>strstr\<close> on two terminated strings returns the address of the first occurrence, or
  \<open>NULL\<close> when there is none, and never leaves the strings.\<close>

theorem strstr_first_occurrence:
  assumes "has_str m s hs" and "has_str m t ts"
  shows "c_strstr m s t =
    Some (if \<exists>i. occurs_at ts hs i then Some (s + (LEAST i. occurs_at ts hs i)) else None)"
  by (rule strstr_has [OF assms])

theorem strstr_first_occurrence_witness:
  "c_strstr ex_mem 0 6 = Some (if \<exists>i. occurs_at [108, 108] [104, 101, 108, 108, 111] i
     then Some (0 + (LEAST i. occurs_at [108, 108] [104, 101, 108, 108, 111] i)) else None)"
  by (rule strstr_first_occurrence [OF ex_mem_str])

text \<open>\<open>strcmp\<close> on two terminated strings returns, and its result is 0 exactly when the
  strings are equal; \<open>strcpy\<close> to a place clear of the source makes the destination hold the
  source's string and changes nothing beyond its terminator.\<close>

theorem strcpy_then_strcmp:
  assumes "has_str m s bs" and "d + length bs < length m"
    and "d + length bs < s \<or> s + length bs < d"
  shows "\<exists>m'. c_strcpy m d s = Some (m', d) \<and> has_str m' d bs \<and> has_str m' s bs \<and>
    c_strcmp m' d s = Some 0 \<and>
    (\<forall>k < length m. k < d \<or> d + length bs < k \<longrightarrow> m' ! k = m ! k)"
proof -
  let ?m = "moved m d s (length bs + 1)"
  have b: "d + (length bs + 1) \<le> length m" "s + (length bs + 1) \<le> length m"
    using assms by (simp_all add: has_str_def)
  have cp: "c_strcpy m d s = Some (?m, d)"
    using str_copy_has [OF assms] by (simp add: c_strcpy_def)
  have s': "has_str ?m s bs"
    by (rule has_str_frame [OF assms(1)]) (use assms b in \<open>auto simp: moved_length moved_nth\<close>)
  have "take (length bs) (drop d ?m) = bs"
    using assms b has_str_nth [OF assms(1)]
    by (intro nth_equalityI) (auto simp: moved_length moved_nth)
  then have d': "has_str ?m d bs"
    using assms b by (simp add: has_str_def moved_length moved_nth)
  from strcmp_has [OF d' s'] have "c_strcmp ?m d s = Some 0" by auto
  with cp s' d' b show ?thesis by (auto simp: moved_nth)
qed

theorem strcpy_then_strcmp_witness:
  "\<exists>m'. c_strcpy ex_mem 10 0 = Some (m', 10) \<and> has_str m' 10 [104, 101, 108, 108, 111] \<and>
    c_strcmp m' 10 0 = Some 0"
  using strcpy_then_strcmp [OF ex_mem_str(1), of 10] by (auto simp: ex_mem_def)

text \<open>The sign of \<open>strcmp\<close> is that of a difference kept in a \<open>signed char\<close>: for unsigned
  characters more than 127 apart it is reversed.\<close>

theorem strcmp_sign_reversed: "c_strcmp [200, 0, 1, 0] 0 2 = Some (- 57)"
  by (simp add: c_strcmp.simps char_diff_def)

end
