(* ===== verification/CrcCorrect.thy ===== *)
theory CrcCorrect
  imports Crc
begin

text \<open>
  The table-driven, word-at-a-time checksum computes the bit-serial polynomial division; it can be
  computed in pieces, and it notices any change confined to one byte.
\<close>

section \<open>The bit-serial reference\<close>

definition crc_byte :: "byte \<Rightarrow> u32 \<Rightarrow> u32" where
  "crc_byte x c = (crc_bit ^^ 8) (c XOR ucast x)"

definition crc_ref :: "u32 \<Rightarrow> byte list \<Rightarrow> u32" where
  "crc_ref c bs = fold crc_byte bs c"

lemma crc_ref_append: "crc_ref c (xs @ ys) = crc_ref (crc_ref c xs) ys"
  by (simp add: crc_ref_def)

lemma crc_ref_simps [simp]: "crc_ref c [] = c" "crc_ref c (x # xs) = crc_ref (crc_byte x c) xs"
  by (simp_all add: crc_ref_def)

lemma mask_255: "x AND 255 = take_bit 8 (x :: u32)"
  by (simp add: take_bit_eq_mask mask_eq_exp_minus_1)

lemma table_entry: "crc_table ! unat (x AND 255) = (crc_bit ^^ 8) (x AND 255)"
proof -
  have "unat (x AND 255) < 2 ^ 8"
    unfolding mask_255 by (metis take_bit_nat_less_exp unsigned_take_bit_eq)
  then show ?thesis by (simp add: crc_table_generated make_crc_table_def)
qed

text \<open>A register whose low byte is zero is only shifted.\<close>

lemma shift_zero_byte: "take_bit n c = 0 \<Longrightarrow> (crc_bit ^^ n) c = drop_bit n c"
proof (induction n)
  case (Suc n)
  have "take_bit n c = 0" using Suc.prems by (metis min.absorb1 take_bit_of_0 take_bit_take_bit le_SucI order_refl)
  then have IH: "(crc_bit ^^ n) c = drop_bit n c" by (rule Suc.IH)
  have "\<not> bit c n" using Suc.prems by (metis bit_0_eq bit_take_bit_iff bot_apply bot_bool_def lessI)
  then have "drop_bit n c AND 1 = 0" by (simp add: and_one_eq bit_iff_odd_drop_bit mod_2_eq_odd)
  then have "crc_bit (drop_bit n c) = drop_bit 1 (drop_bit n c)" by (simp add: crc_bit_def)
  then show ?case using IH by (simp add: drop_bit_drop_bit)
qed simp

lemma crc_8_split: "(crc_bit ^^ 8) c = (crc_bit ^^ 8) (c AND 255) XOR drop_bit 8 c"
proof -
  let ?h = "c AND NOT 255"
  have "c = (c AND 255) XOR ?h" by (rule bit_word_eqI) (auto simp: bit_simps)
  then have "(crc_bit ^^ 8) c = (crc_bit ^^ 8) (c AND 255) XOR (crc_bit ^^ 8) ?h"
    using xlinearD [OF xlinear_funpow [OF crc_bit_linear], of 8 "c AND 255" ?h] by simp
  moreover have "(crc_bit ^^ 8) ?h = drop_bit 8 ?h"
    by (rule shift_zero_byte) (simp add: mask_255 [symmetric] and.assoc)
  moreover have "drop_bit 8 ?h = drop_bit 8 c"
  proof (rule bit_word_eqI)
    fix n
    have "\<not> bit (255 :: u32) (8 + n)"
    proof -
      have "(255 :: u32) = mask 8" by (simp add: mask_eq_exp_minus_1)
      then show ?thesis by (simp only: bit_mask_iff) simp
    qed
    assume "n < LENGTH(32)"
    then show "bit (drop_bit 8 ?h) n = bit (drop_bit 8 c) n"
      using \<open>\<not> bit (255 :: u32) (8 + n)\<close> bit_imp_le_length [of c "8 + n"]
      by (simp only: bit_drop_bit_eq bit_and_iff bit_not_iff o_def) auto
  qed
  ultimately show ?thesis by simp
qed

lemma do_crc_byte: "do_crc (ucast x) c = crc_byte x c"
proof -
  have "drop_bit 8 (c XOR ucast x) = drop_bit 8 c"
    by (rule bit_word_eqI) (auto simp: bit_simps dest: byte_bit_less)
  then show ?thesis
    using crc_8_split [of "c XOR ucast x"] by (simp add: do_crc_def table_entry crc_byte_def)
qed

section \<open>Words\<close>

lemma do_crc_zero: "do_crc 0 (c XOR w) = do_crc (w AND 255) c XOR drop_bit 8 w"
proof -
  have "(c XOR w) AND 255 = (c XOR (w AND 255)) AND 255"
    by (rule bit_word_eqI) (auto simp: bit_simps)
  moreover have "drop_bit 8 (c XOR w) = drop_bit 8 c XOR drop_bit 8 w" by (rule drop_bit_xor)
  ultimately show ?thesis by (simp add: do_crc_def xor.assoc)
qed

lemma le32_pieces:
  fixes a b c d :: byte
  defines "w \<equiv> get_le32 [a, b, c, d]"
  shows "w AND 255 = ucast a" and "drop_bit 8 w AND 255 = ucast b"
    and "drop_bit 16 w AND 255 = ucast c" and "drop_bit 24 w AND 255 = ucast d"
    and "drop_bit 32 w = 0"
  unfolding mask_255 w_def get_le32_def
  by (rule bit_word_eqI; simp only: bit_simps; auto dest: byte_bit_less simp: bit_simps)+

lemma four_steps: "(do_crc 0 ^^ 4) (c XOR get_le32 [x0, x1, x2, x3]) = crc_ref c [x0, x1, x2, x3]"
proof -
  let ?w = "get_le32 [x0, x1, x2, x3]"
  note p = le32_pieces [of x0 x1 x2 x3]
  have "do_crc 0 (c XOR ?w) = crc_ref c [x0] XOR drop_bit 8 ?w"
    by (simp add: do_crc_zero p do_crc_byte)
  moreover have "do_crc 0 (crc_ref c [x0] XOR drop_bit 8 ?w) = crc_ref c [x0, x1] XOR drop_bit 16 ?w"
    by (simp add: do_crc_zero p do_crc_byte drop_bit_drop_bit)
  moreover have "do_crc 0 (crc_ref c [x0, x1] XOR drop_bit 16 ?w) = crc_ref c [x0, x1, x2] XOR drop_bit 24 ?w"
    by (simp add: do_crc_zero p do_crc_byte drop_bit_drop_bit)
  moreover have "do_crc 0 (crc_ref c [x0, x1, x2] XOR drop_bit 24 ?w) = crc_ref c [x0, x1, x2, x3]"
    by (simp add: do_crc_zero p do_crc_byte drop_bit_drop_bit)
  moreover have "(do_crc 0 ^^ 4) y = do_crc 0 (do_crc 0 (do_crc 0 (do_crc 0 y)))" for y
    by (simp add: numeral_eq_Suc)
  ultimately show ?thesis by simp
qed

lemma four_list: "length xs = 4 \<Longrightarrow> xs = [xs ! 0, xs ! 1, xs ! 2, xs ! 3]"
  by (auto simp: numeral_eq_Suc length_Suc_conv)

lemma four_steps_list: "length xs = 4 \<Longrightarrow> (do_crc 0 ^^ 4) (c XOR get_le32 xs) = crc_ref c xs"
  using four_steps [of c "xs ! 0" "xs ! 1" "xs ! 2" "xs ! 3"] four_list [of xs] by metis

section \<open>The loops\<close>

lemma crc_bytes_ref:
  "p + n \<le> length m \<Longrightarrow> crc_bytes n m c p = Some (crc_ref c (take n (drop p m)))"
proof (induction n arbitrary: c p)
  case (Suc n)
  then have "drop p m = m ! p # drop (p + 1) m" by (simp add: Cons_nth_drop_Suc)
  then show ?case using Suc by (simp add: do_crc_byte)
qed simp

lemma crc_words_ref:
  "p + 4 * n \<le> length m \<Longrightarrow>
     crc_words n m c p = Some (crc_ref c (take (4 * n) (drop p m)), p + 4 * n)"
proof (induction n arbitrary: c p)
  case (Suc n)
  let ?x = "take 4 (drop p m)"
  have "crc_words (Suc n) m c p = crc_words n m (crc_ref c ?x) (p + 4)"
    using Suc.prems four_steps_list [of ?x c] by simp
  also have "\<dots> = Some (crc_ref (crc_ref c ?x) (take (4 * n) (drop (p + 4) m)), p + 4 + 4 * n)"
    using Suc.prems by (intro Suc.IH) simp
  also have "crc_ref (crc_ref c ?x) (take (4 * n) (drop (p + 4) m)) =
      crc_ref c (take (4 * Suc n) (drop p m))"
    by (simp add: crc_ref_append [symmetric] take_add [of 4 "4 * n"] add.commute)
  finally show ?case by simp
qed simp

lemma crc_align_ref:
  "p + len \<le> length m \<Longrightarrow> 0 < len \<Longrightarrow> \<exists>j. crc_align m c p len =
     Some (crc_ref c (take j (drop p m)), p + j, len - j) \<and> j \<le> len"
proof (induction m c p len rule: crc_align.induct)
  case (1 m c p len)
  then have d: "drop p m = m ! p # drop (p + 1) m" by (simp add: Cons_nth_drop_Suc)
  have r: "rd m p = Some (m ! p)" using 1 by simp
  show ?case
  proof (cases "len - 1 \<noteq> 0 \<and> (p + 1) mod 4 \<noteq> 0")
    case True
    have eq: "crc_align m c p len = crc_align m (crc_byte (m ! p) c) (p + 1) (len - 1)"
      using True r by (subst crc_align.simps) (simp add: do_crc_byte)
    from "1.IH" [OF r refl refl refl] True "1.prems" obtain j where
      "crc_align m (crc_byte (m ! p) c) (p + 1) (len - 1) =
         Some (crc_ref (crc_byte (m ! p) c) (take j (drop (p + 1) m)), p + 1 + j, len - 1 - j)"
      "j \<le> len - 1" by (auto simp: do_crc_byte)
    then show ?thesis using eq d "1.prems" by (intro exI [of _ "Suc j"]) simp
  next
    case False
    have "crc_align m c p len = Some (crc_byte (m ! p) c, p + 1, len - 1)"
      using False r by (subst crc_align.simps) (auto simp: do_crc_byte)
    then show ?thesis using d "1.prems" by (intro exI [of _ 1]) simp
  qed
qed

lemma crc32_no_comp_ref:
  assumes "p + len \<le> length m"
  shows "crc32_no_comp m c p len = Some (crc_ref c (take len (drop p m)))"
proof -
  have main: "do { (crc, b) \<leftarrow> crc_words (n div 4) m c q; crc_bytes (n mod 4) m crc b } =
      Some (crc_ref c (take n (drop q m)))" if "q + n \<le> length m" for c q n
  proof -
    have n: "4 * (n div 4) + n mod 4 = n" by simp
    have "crc_words (n div 4) m c q =
        Some (crc_ref c (take (4 * (n div 4)) (drop q m)), q + 4 * (n div 4))"
      using that n by (intro crc_words_ref) linarith
    moreover have "crc_bytes (n mod 4) m (crc_ref c (take (4 * (n div 4)) (drop q m))) (q + 4 * (n div 4)) =
        Some (crc_ref (crc_ref c (take (4 * (n div 4)) (drop q m)))
          (take (n mod 4) (drop (q + 4 * (n div 4)) m)))"
      using that n by (intro crc_bytes_ref) linarith
    moreover have "take n (drop q m) =
        take (4 * (n div 4)) (drop q m) @ take (n mod 4) (drop (q + 4 * (n div 4)) m)"
      using take_add [of "4 * (n div 4)" "n mod 4" "drop q m"] n by (simp add: add.commute)
    ultimately show ?thesis by (simp add: crc_ref_append)
  qed
  show ?thesis
  proof (cases "p mod 4 \<noteq> 0 \<and> len \<noteq> 0")
    case True
    with crc_align_ref [OF assms, of c] obtain j where
      j: "crc_align m c p len = Some (crc_ref c (take j (drop p m)), p + j, len - j)" "j \<le> len" by auto
    have "take len (drop p m) = take j (drop p m) @ take (len - j) (drop (p + j) m)"
      using take_add [of j "len - j" "drop p m"] j(2) by (simp add: add.commute)
    then show ?thesis
      using True j main [of "p + j" "len - j" "crc_ref c (take j (drop p m))"] assms
      by (simp add: crc32_no_comp_def crc_ref_append Let_def)
  next
    case False
    then show ?thesis using main [OF assms, of c] by (auto simp: crc32_no_comp_def Let_def)
  qed
qed

section \<open>Errors in one byte\<close>

lemma word_xor_cancel: "a XOR b = a XOR c \<Longrightarrow> b = (c :: 'a::len word)"
proof -
  assume e: "a XOR b = a XOR c"
  have "b = (a XOR a) XOR b" by simp
  also have "\<dots> = a XOR (a XOR c)" unfolding xor.assoc e ..
  also have "\<dots> = c" unfolding xor.assoc [symmetric] by simp
  finally show "b = c" .
qed

lemma word_xor_cancel2: "b XOR a = c XOR a \<Longrightarrow> b = (c :: 'a::len word)"
  using word_xor_cancel [of a b c] by (simp only: xor.commute)

lemma crc_bit_inj: "crc_bit a = crc_bit b \<Longrightarrow> a = b"
proof -
  assume e: "crc_bit a = crc_bit b"
  have t: "crc_bit c = (if bit c 0 then crc_poly XOR drop_bit 1 c else drop_bit 1 c)" for c
    by (simp add: crc_bit_def and_one_eq bit_0 mod_2_eq_odd)
  have "bit (crc_bit c) 31 \<longleftrightarrow> bit c 0" for c
    unfolding t crc_poly_value by (auto simp: bit_simps dest: bit_imp_le_length)
  then have z: "bit a 0 \<longleftrightarrow> bit b 0" using e by metis
  then have "drop_bit 1 a = drop_bit 1 b"
    using e unfolding t by (auto split: if_splits dest: word_xor_cancel)
  then have "bit a (Suc n) \<longleftrightarrow> bit b (Suc n)" for n
    by (metis bit_drop_bit_eq comp_apply plus_1_eq_Suc)
  with z show "a = b" by (intro bit_word_eqI) (metis not0_implies_Suc)
qed

lemma crc_byte_inj: "crc_byte x a = crc_byte x b \<Longrightarrow> a = b"
proof -
  have inj: "inj (crc_bit ^^ 8)" by (rule inj_fn) (auto intro: injI crc_bit_inj)
  assume "crc_byte x a = crc_byte x b"
  then have "a XOR ucast x = b XOR ucast x"
    unfolding crc_byte_def by (rule injD [OF inj])
  then show "a = b" by (rule word_xor_cancel2)
qed

lemma crc_byte_data: "crc_byte x c = crc_byte y c \<Longrightarrow> x = y"
proof -
  have inj: "inj (crc_bit ^^ 8)" by (rule inj_fn) (auto intro: injI crc_bit_inj)
  assume "crc_byte x c = crc_byte y c"
  then have "c XOR ucast x = c XOR (ucast y :: u32)"
    unfolding crc_byte_def by (rule injD [OF inj])
  then have u: "ucast x = (ucast y :: u32)" by (rule word_xor_cancel)
  have "bit x n \<longleftrightarrow> bit y n" if "n < 8" for n
    using arg_cong [OF u, of "\<lambda>w. bit w n"] that by (simp add: bit_simps)
  then show "x = y" by (intro bit_word_eqI) simp
qed

lemma crc_ref_inj: "crc_ref a bs = crc_ref b bs \<Longrightarrow> a = b"
  by (induction bs arbitrary: a b) (auto dest: crc_byte_inj)

lemma crc_ref_change:
  assumes "x \<noteq> y"
  shows "crc_ref c (as @ x # bs) \<noteq> crc_ref c (as @ y # bs)"
  using assms by (auto simp: crc_ref_append dest: crc_ref_inj crc_byte_data)

section \<open>Properties\<close>

lemma crc32_ref:
  "p + len \<le> length m \<Longrightarrow>
     crc32 m c p len = Some (crc_ref (c XOR 0xffffffff) (take len (drop p m)) XOR 0xffffffff)"
  by (simp add: crc32_def crc32_no_comp_ref)

definition ex_data :: mem where
  "ex_data = [0, 0x31, 0x32, 0x33, 0x34, 0x35, 0x36, 0x37, 0x38, 0x39, 0, 0]"

text \<open>C29. The table-driven checksum, which reads bytes up to an aligned address, then whole
  words, then the rest, never leaves the area and computes the bit-serial polynomial checksum.\<close>

theorem crc32_computes_polynomial:
  assumes "p + len \<le> length m"
  shows "crc32 m c p len =
    Some (fold (\<lambda>x r. (crc_bit ^^ 8) (r XOR ucast x)) (take len (drop p m)) (c XOR 0xffffffff)
      XOR 0xffffffff)"
  unfolding crc32_ref [OF assms] crc_ref_def crc_byte_def [abs_def] ..

theorem crc32_computes_polynomial_witness: "crc32 ex_data 0 1 9 = Some 0xcbf43926"
proof -
  have e: "(crc_bit ^^ 8) x = crc_bit (crc_bit (crc_bit (crc_bit (crc_bit (crc_bit (crc_bit (crc_bit x)))))))" for x
    by (simp add: numeral_eq_Suc)
  have d: "take 9 (drop 1 ex_data) = [0x31, 0x32, 0x33, 0x34, 0x35, 0x36, 0x37, 0x38, 0x39]"
    by (simp add: ex_data_def)
  have "crc32 ex_data 0 1 9 = Some (fold (\<lambda>x r. (crc_bit ^^ 8) (r XOR ucast x))
      (take 9 (drop 1 ex_data)) (0 XOR 0xffffffff) XOR 0xffffffff)"
    by (rule crc32_computes_polynomial) (simp add: ex_data_def)
  also have "\<dots> = Some 0xcbf43926"
    unfolding d e fold_simps by (simp add: crc_bit_def crc_poly_value)
  finally show ?thesis .
qed

text \<open>Computing the checksum in chunks, as the variant that serves the watchdog does, gives
  the checksum of the whole area, whatever the (positive) chunk size.\<close>

theorem crc32_wd_is_crc32:
  assumes "p + len \<le> length m" and "0 < chunk_sz" and "0 < len"
  shows "crc32_wd m c p len chunk_sz = crc32 m c p len"
  using assms
proof (induction m c p len chunk_sz rule: crc32_wd.induct)
  case (1 m c p len chunk_sz)
  let ?k = "min len chunk_sz"
  have k: "p + ?k \<le> length m" using "1.prems" by simp
  define c' where "c' = crc_ref (c XOR 0xffffffff) (take ?k (drop p m)) XOR 0xffffffff"
  have c: "crc32 m c p ?k = Some c'" using crc32_ref [OF k] by (simp add: c'_def)
  have eq: "crc32_wd m c p len chunk_sz = crc32_wd m c' (p + ?k) (len - ?k) chunk_sz"
    using "1.prems" c by (subst crc32_wd.simps) (simp add: Let_def)
  show ?case
  proof (cases "len \<le> chunk_sz")
    case True
    then show ?thesis using eq c by (simp add: crc32_wd.simps [of m c'])
  next
    case False
    then have "crc32_wd m c' (p + ?k) (len - ?k) chunk_sz = crc32 m c' (p + ?k) (len - ?k)"
      using "1.IH" [OF _ refl c] "1.prems" by simp
    moreover have "take len (drop p m) = take ?k (drop p m) @ take (len - ?k) (drop (p + ?k) m)"
      using take_add [of ?k "len - ?k" "drop p m"] by (simp add: add.commute)
    ultimately show ?thesis
      using eq "1.prems" by (simp add: crc32_ref crc_ref_append c'_def xor.assoc)
  qed
qed

theorem crc32_wd_is_crc32_witness: "crc32_wd ex_data 0 1 9 4 = crc32 ex_data 0 1 9"
  by (rule crc32_wd_is_crc32) (simp_all add: ex_data_def)

text \<open>Two areas of the same length that differ in exactly one byte never have the same
  checksum.\<close>

theorem crc32_detects_byte_change:
  assumes "p + len \<le> length m" and "k < len" and "x \<noteq> m ! (p + k)"
  shows "crc32 (m[p + k := x]) c p len \<noteq> crc32 m c p len"
proof -
  let ?d = "take len (drop p m)"
  have l: "length ?d = len" "k < length ?d" using assms by simp_all
  have "take len (drop p (m[p + k := x])) = ?d[k := x]"
    using assms by (simp add: drop_update_swap take_update_swap)
  then have "take len (drop p (m[p + k := x])) = take k ?d @ x # drop (Suc k) ?d"
    using upd_conv_take_nth_drop [OF l(2)] by simp
  moreover have "?d = take k ?d @ m ! (p + k) # drop (Suc k) ?d"
    using id_take_nth_drop [OF l(2)] assms by simp
  ultimately have "crc_ref r (take len (drop p (m[p + k := x]))) \<noteq> crc_ref r ?d" for r
    using crc_ref_change [OF assms(3)] by metis
  then show ?thesis using assms word_xor_cancel2 by (auto simp only: crc32_ref length_list_update option.inject)
qed

theorem crc32_detects_byte_change_witness:
  "crc32 (ex_data[1 + 3 := 0x30]) 0 1 9 \<noteq> crc32 ex_data 0 1 9"
  by (rule crc32_detects_byte_change) (simp_all add: ex_data_def)

end
