(* ===== verification/Vsprintf.thy ===== *)
theory Vsprintf
  imports Prelude
begin

text \<open>
  Numbers and text: the character classes of \<^verbatim>\<open>lib_generic/ctype.c\<close>, and the number
  parsers and the number formatter of \<^verbatim>\<open>lib_generic/vsprintf.c\<close>. A string is parsed
  from an object with checked loads, so reading past a missing terminator is \<open>None\<close>; formatted
  output is the list of the characters stored through the buffer pointer.
\<close>

section \<open>Character classes\<close>

definition ctype_table :: "byte list" where
  "ctype_table = [
    0x08, 0x08, 0x08, 0x08, 0x08, 0x08, 0x08, 0x08, 0x08, 0x28, 0x28, 0x28, 0x28, 0x28, 0x08, 0x08,
    0x08, 0x08, 0x08, 0x08, 0x08, 0x08, 0x08, 0x08, 0x08, 0x08, 0x08, 0x08, 0x08, 0x08, 0x08, 0x08,
    0xa0, 0x10, 0x10, 0x10, 0x10, 0x10, 0x10, 0x10, 0x10, 0x10, 0x10, 0x10, 0x10, 0x10, 0x10, 0x10,
    0x04, 0x04, 0x04, 0x04, 0x04, 0x04, 0x04, 0x04, 0x04, 0x04, 0x10, 0x10, 0x10, 0x10, 0x10, 0x10,
    0x10, 0x41, 0x41, 0x41, 0x41, 0x41, 0x41, 0x01, 0x01, 0x01, 0x01, 0x01, 0x01, 0x01, 0x01, 0x01,
    0x01, 0x01, 0x01, 0x01, 0x01, 0x01, 0x01, 0x01, 0x01, 0x01, 0x01, 0x10, 0x10, 0x10, 0x10, 0x10,
    0x10, 0x42, 0x42, 0x42, 0x42, 0x42, 0x42, 0x02, 0x02, 0x02, 0x02, 0x02, 0x02, 0x02, 0x02, 0x02,
    0x02, 0x02, 0x02, 0x02, 0x02, 0x02, 0x02, 0x02, 0x02, 0x02, 0x02, 0x10, 0x10, 0x10, 0x10, 0x08,
    0x00, 0x00, 0x00, 0x00, 0x00, 0x00, 0x00, 0x00, 0x00, 0x00, 0x00, 0x00, 0x00, 0x00, 0x00, 0x00,
    0x00, 0x00, 0x00, 0x00, 0x00, 0x00, 0x00, 0x00, 0x00, 0x00, 0x00, 0x00, 0x00, 0x00, 0x00, 0x00,
    0xa0, 0x10, 0x10, 0x10, 0x10, 0x10, 0x10, 0x10, 0x10, 0x10, 0x10, 0x10, 0x10, 0x10, 0x10, 0x10,
    0x10, 0x10, 0x10, 0x10, 0x10, 0x10, 0x10, 0x10, 0x10, 0x10, 0x10, 0x10, 0x10, 0x10, 0x10, 0x10,
    0x01, 0x01, 0x01, 0x01, 0x01, 0x01, 0x01, 0x01, 0x01, 0x01, 0x01, 0x01, 0x01, 0x01, 0x01, 0x01,
    0x01, 0x01, 0x01, 0x01, 0x01, 0x01, 0x01, 0x10, 0x01, 0x01, 0x01, 0x01, 0x01, 0x01, 0x01, 0x02,
    0x02, 0x02, 0x02, 0x02, 0x02, 0x02, 0x02, 0x02, 0x02, 0x02, 0x02, 0x02, 0x02, 0x02, 0x02, 0x02,
    0x02, 0x02, 0x02, 0x02, 0x02, 0x02, 0x02, 0x10, 0x02, 0x02, 0x02, 0x02, 0x02, 0x02, 0x02, 0x02]"

definition ctype_mask :: "byte \<Rightarrow> byte" where
  "ctype_mask c = ctype_table ! unat c"

definition isdigit :: "byte \<Rightarrow> bool" where
  "isdigit c \<longleftrightarrow> ctype_mask c AND 0x04 \<noteq> 0"

definition islower :: "byte \<Rightarrow> bool" where
  "islower c \<longleftrightarrow> ctype_mask c AND 0x02 \<noteq> 0"

definition isxdigit :: "byte \<Rightarrow> bool" where
  "isxdigit c \<longleftrightarrow> ctype_mask c AND (0x04 OR 0x40) \<noteq> 0"

definition toupper :: "byte \<Rightarrow> byte" where
  "toupper c = (if islower c then c - 32 else c)"

section \<open>Parsing numbers\<close>

text \<open>The value of a digit, computed as an \<open>int\<close>.\<close>

definition digit_value :: "byte \<Rightarrow> int" where
  "digit_value c = (if isdigit c then uint c - 48
     else uint (if islower c then toupper c else c) - 65 + 10)"

text \<open>The digit loop, for a result of any width; the result wraps.\<close>

function digit_loop :: "mem \<Rightarrow> nat \<Rightarrow> nat \<Rightarrow> 'a::len word \<Rightarrow> ('a word \<times> nat) option" where
  "digit_loop m cp base result =
     (if cp < length m
      then let c = m ! cp in
        (if isxdigit c \<and> digit_value c < int base
         then digit_loop m (cp + 1) base (result * of_nat base + of_int (digit_value c))
         else Some (result, cp))
      else None)"
  by pat_completeness auto
termination by (relation "measure (\<lambda>(m, cp, b, r). length m - cp)") auto

declare digit_loop.simps [simp del]

text \<open>The prefix: \<open>0x\<close> selects base 16, a leading \<open>0\<close> base 8 when none is given.\<close>

definition number_prefix :: "mem \<Rightarrow> nat \<Rightarrow> nat \<Rightarrow> (nat \<times> nat) option" where
  "number_prefix m cp base = do {
     c \<leftarrow> rd m cp;
     if c = 48
     then do {
       c1 \<leftarrow> rd m (cp + 1);
       hex \<leftarrow> (if c1 = 120 then map_option isxdigit (rd m (cp + 2)) else Some False);
       let (cp, base) = (if hex then (cp + 2, 16) else (cp + 1, base));
       Some (cp, if base = 0 then 8 else base)
     }
     else Some (cp, if base = 0 then 10 else base)
   }"

definition simple_strtoul :: "mem \<Rightarrow> nat \<Rightarrow> nat \<Rightarrow> (u32 \<times> nat) option" where
  "simple_strtoul m cp base = do {
     (cp, base) \<leftarrow> number_prefix m cp base;
     digit_loop m cp base 0
   }"

definition simple_strtoull :: "mem \<Rightarrow> nat \<Rightarrow> nat \<Rightarrow> (u64 \<times> nat) option" where
  "simple_strtoull m cp base = do {
     (cp, base) \<leftarrow> number_prefix m cp base;
     digit_loop m cp base 0
   }"

definition simple_strtol :: "mem \<Rightarrow> nat \<Rightarrow> nat \<Rightarrow> (u32 \<times> nat) option" where
  "simple_strtol m cp base = do {
     c \<leftarrow> rd m cp;
     if c = 45 then map_option (\<lambda>(r, e). (- r, e)) (simple_strtoul m (cp + 1) base)
     else simple_strtoul m cp base
   }"

text \<open>A size with a suffix \<open>G\<close>, \<open>M\<close>, \<open>K\<close> or \<open>k\<close>, which may be followed by \<open>i\<close> or \<open>iB\<close>.\<close>

definition ustrtoul :: "mem \<Rightarrow> nat \<Rightarrow> nat \<Rightarrow> (u32 \<times> nat) option" where
  "ustrtoul m cp base = do {
     (r, e) \<leftarrow> simple_strtoul m cp base;
     c \<leftarrow> rd m e;
     let r = (if c = 71 then r * 1024 else r);
     let r = (if c = 71 \<or> c = 77 then r * 1024 else r);
     if c = 71 \<or> c = 77 \<or> c = 75 \<or> c = 107
     then do {
       let r = r * 1024;
       c1 \<leftarrow> rd m (e + 1);
       if c1 = 105
       then do { c2 \<leftarrow> rd m (e + 2); Some (r, if c2 = 66 then e + 3 else e + 2) }
       else Some (r, e)
     }
     else Some (r, e)
   }"

function skip_atoi :: "mem \<Rightarrow> nat \<Rightarrow> u32 \<Rightarrow> (u32 \<times> nat) option" where
  "skip_atoi m s i =
     (if s < length m
      then if 48 \<le> m ! s \<and> m ! s \<le> 57
           then skip_atoi m (s + 1) (i * 10 + ucast (m ! s) - 48) else Some (i, s)
      else None)"
  by pat_completeness auto
termination by (relation "measure (\<lambda>(m, s, i). length m - s)") auto

declare skip_atoi.simps [simp del]

section \<open>Formatting numbers\<close>

definition hex_asc :: "byte list" where
  "hex_asc = [48, 49, 50, 51, 52, 53, 54, 55, 56, 57, 97, 98, 99, 100, 101, 102]"

definition pack_hex_byte :: "byte \<Rightarrow> byte list" where
  "pack_hex_byte b = [hex_asc ! unat (drop_bit 4 (b AND 0xf0)), hex_asc ! unat (b AND 0x0f)]"

definition digit_char :: "nat \<Rightarrow> byte" where
  "digit_char d = of_nat (d + 48)"

text \<open>
  Decimal digits by multiplication and shift, least significant first. \<open>q\<close> is below 100000 in
  every call; the intermediate values stay far below \<open>2 ^ 32\<close>, so \<open>nat\<close> arithmetic is exact.
\<close>

definition put_dec_trunc :: "nat \<Rightarrow> byte list" where
  "put_dec_trunc q =
     (let d1 = (q div 16) mod 16; d2 = (q div 256) mod 16; d3 = q div 4096;
          d0 = 6 * (d3 + d2 + d1) + q mod 16;
          q0 = (d0 * 0xcd) div 2048; d0 = d0 - 10 * q0;
          d1 = q0 + 9 * d3 + 5 * d2 + d1
      in digit_char d0 #
        (if d1 \<noteq> 0
         then let q1 = (d1 * 0xcd) div 2048; d1 = d1 - 10 * q1; e2 = q1 + 2 * d2
           in digit_char d1 #
             (if e2 \<noteq> 0 \<or> d3 \<noteq> 0
              then let q2 = (e2 * 0xd) div 128; e2 = e2 - 10 * q2; e3 = q2 + 4 * d3
                in digit_char e2 #
                  (if e3 \<noteq> 0
                   then let q3 = (e3 * 0xcd) div 2048; e3 = e3 - 10 * q3
                     in digit_char e3 # (if q3 \<noteq> 0 then [digit_char q3] else [])
                   else [])
              else [])
         else []))"

definition put_dec_full :: "nat \<Rightarrow> byte list" where
  "put_dec_full q =
     (let d1 = (q div 16) mod 16; d2 = (q div 256) mod 16; d3 = q div 4096;
          d0 = 6 * (d3 + d2 + d1) + q mod 16;
          q0 = (d0 * 0xcd) div 2048; d0 = d0 - 10 * q0;
          d1 = q0 + 9 * d3 + 5 * d2 + d1;
          q1 = (d1 * 0xcd) div 2048; d1 = d1 - 10 * q1;
          d2 = q1 + 2 * d2;
          q2 = (d2 * 0xd) div 128; d2 = d2 - 10 * q2;
          d3 = q2 + 4 * d3;
          q3 = (d3 * 0xcd) div 2048; d3 = d3 - 10 * q3
      in [digit_char d0, digit_char d1, digit_char d2, digit_char d3, digit_char q3])"

fun put_dec :: "nat \<Rightarrow> byte list" where
  "put_dec num =
     (if num < 100000 then put_dec_trunc num
      else put_dec_full (num mod 100000) @ put_dec (num div 100000))"

declare put_dec.simps [simp del]

definition upper_digits :: "byte list" where
  "upper_digits = [48, 49, 50, 51, 52, 53, 54, 55, 56, 57, 65, 66, 67, 68, 69, 70]"

text \<open>The digits in base 8 or 16, least significant first: a \<open>do\<close> loop
  (the shift is 3 or 4; the test that it is positive only makes the recursion total).\<close>

function put_pow2 :: "nat \<Rightarrow> byte \<Rightarrow> byte \<Rightarrow> u64 \<Rightarrow> byte list" where
  "put_pow2 shift msk locase num =
     (upper_digits ! unat ((ucast num :: byte) AND msk) OR locase) #
     (let num' = drop_bit shift num in
      if num' \<noteq> 0 \<and> 0 < shift then put_pow2 shift msk locase num' else [])"
  by pat_completeness auto
termination
proof (relation "measure (\<lambda>(s, m, l, n). unat n)")
  fix shift :: nat and msk locase :: byte and num num' :: u64
  assume "num' = drop_bit shift num" and "num' \<noteq> 0 \<and> 0 < shift"
  moreover have "num \<noteq> 0"
  proof
    assume "num = 0"
    then show False using calculation by simp
  qed
  moreover from this have "0 < unat num" by (simp add: unat_gt_0)
  moreover have "unat (drop_bit shift num) = unat num div 2 ^ shift"
    by (simp only: unat_drop_bit_eq drop_bit_eq_div [of shift "unat num"])
  moreover have "1 < (2 :: nat) ^ shift" if "0 < shift" using that one_less_power [of "2 :: nat" shift] by simp
  ultimately show "((shift, msk, locase, num'), (shift, msk, locase, num))
      \<in> measure (\<lambda>(s, m, l, n). unat n)"
    by (simp add: div_less_dividend)
qed simp

declare put_pow2.simps [simp del]

text \<open>A countdown that stores \<open>c\<close> while \<open>--size\<close> is not negative: the characters, the new size.\<close>

definition pad_with :: "byte \<Rightarrow> int \<Rightarrow> byte list" where
  "pad_with c sz = replicate (nat sz) c"

definition number :: "u64 \<Rightarrow> nat \<Rightarrow> int \<Rightarrow> int \<Rightarrow> u32 \<Rightarrow> byte list" where
  "number num base sz precision type =
     (let need_pfx = (type AND 64 \<noteq> 0 \<and> base \<noteq> 10);
          locase = (ucast (type AND 32) :: byte);
          type = (if type AND 16 \<noteq> 0 then type AND NOT 1 else type);
          (sign, num, sz) =
            (if type AND 2 \<noteq> 0
             then if bit num 63 then ([45], - num, sz - 1)
                  else if type AND 4 \<noteq> 0 then ([43], num, sz - 1)
                  else if type AND 8 \<noteq> 0 then ([32], num, sz - 1) else ([], num, sz)
             else ([], num, sz));
          sz = (if need_pfx then if base = 16 then sz - 2 else sz - 1 else sz);
          tmp = (if num = 0 then [48]
                 else if base \<noteq> 10
                 then put_pow2 (if base = 16 then 4 else 3) (of_nat (base - 1)) locase num
                 else put_dec (unat num));
          i = int (length tmp);
          precision = max i precision;
          sz = sz - precision;
          (lead, sz) = (if type AND (1 OR 16) = 0 then (pad_with 32 sz, min (sz - 1) (- 1)) else ([], sz));
          pfx = (if need_pfx then 48 # (if base = 16 then [88 OR locase] else []) else []);
          (mid, sz) = (if type AND 16 = 0
            then (pad_with (if type AND 1 \<noteq> 0 then 48 else 32) sz, min (sz - 1) (- 1)) else ([], sz))
      in lead @ sign @ pfx @ mid @ pad_with 48 (precision - i) @ rev tmp @ pad_with 32 sz)"

text \<open>\<open>string\<close> with the string's characters (its terminator excluded) or \<open>NULL\<close>.\<close>

definition string_field :: "byte list option \<Rightarrow> int \<Rightarrow> nat \<Rightarrow> u32 \<Rightarrow> byte list" where
  "string_field s field_width precision flags =
     (let s = (case s of None \<Rightarrow> [60, 78, 85, 76, 76, 62] | Some s \<Rightarrow> s);
          len = min (length s) precision;
          gap = field_width - int len
      in (if flags AND 16 = 0 then pad_with 32 gap else []) @ take len s @
         (if flags AND 16 = 0 then [] else pad_with 32 gap))"

end
