(* ===== verification/VsprintfCorrect.thy ===== *)
theory VsprintfCorrect
  imports Vsprintf
begin

text \<open>
  Correctness of the number formatter and parser: the multiply-and-shift digits are the decimal
  digits, and parsing what was formatted gives the number back.
\<close>

section \<open>Decimal digits by multiplication\<close>

lemma div10_205: "x < 400 \<Longrightarrow> x * 0xcd div 2048 = x div (10 :: nat)"
proof -
  assume x: "x < 400"
  define q r where d: "q = x div 10" "r = x mod 10"
  have e: "x = 10 * q + r" and r: "r \<le> 9" unfolding d by simp_all
  show ?thesis unfolding d(1) [symmetric] using x r unfolding e by (intro div_nat_eqI) (simp_all add: add_mult_distrib)
qed

lemma div10_13: "x < 64 \<Longrightarrow> x * 0xd div 128 = x div (10 :: nat)"
proof -
  assume x: "x < 64"
  define q r where d: "q = x div 10" "r = x mod 10"
  have e: "x = 10 * q + r" and r: "r \<le> 9" unfolding d by simp_all
  show ?thesis unfolding d(1) [symmetric] using x r unfolding e by (intro div_nat_eqI) (simp_all add: add_mult_distrib)
qed

text \<open>The value of a list of digits, least significant first.\<close>

fun value_lsb :: "nat list \<Rightarrow> nat" where
  "value_lsb [] = 0"
| "value_lsb (d # ds) = d + 10 * value_lsb ds"

lemma value_lsb_append: "value_lsb (xs @ ys) = value_lsb xs + 10 ^ length xs * value_lsb ys"
  by (induction xs) (simp_all add: algebra_simps)

text \<open>The partial sums of the source, as plain divisions.\<close>

definition dec_sums :: "nat \<Rightarrow> nat \<times> nat \<times> nat \<times> nat" where
  "dec_sums q =
     (let d1 = (q div 16) mod 16; d2 = (q div 256) mod 16; d3 = q div 4096;
          a = 6 * (d3 + d2 + d1) + q mod 16;
          b = a div 10 + 9 * d3 + 5 * d2 + d1;
          c = b div 10 + 2 * d2
      in (a, b, c, c div 10 + 4 * d3))"

lemma hex_split:
  "q = 4096 * (q div 4096) + 256 * (q div 256 mod 16) + 16 * (q div 16 mod 16) + q mod (16 :: nat)"
proof -
  have "q div 256 = q div 16 div 16" "q div 4096 = q div 256 div 16" by (simp_all add: div_mult2_eq [symmetric])
  moreover have "q = 16 * (q div 16) + q mod 16" "q div 16 = 16 * (q div 16 div 16) + q div 16 mod 16"
    "q div 256 = 16 * (q div 256 div 16) + q div 256 mod 16" by simp_all
  ultimately show ?thesis by linarith
qed

definition dec_digits :: "nat \<Rightarrow> nat list" where
  "dec_digits q = (case dec_sums q of (a, b, c, e) \<Rightarrow> [a mod 10, b mod 10, c mod 10, e mod 10, e div 10])"

lemma dec_sums_bounds:
  assumes "dec_sums q = (a, b, c, e)" and "q < 100000"
  shows "a < 400" and "b < 400" and "c < 64" and "e < 400"
proof -
  define d1 d2 d3 where d: "d1 = q div 16 mod 16" "d2 = q div 256 mod 16" "d3 = q div 4096"
  have u: "d1 \<le> 15" "d2 \<le> 15" "d3 \<le> 24" "q mod 16 \<le> 15" using assms(2) by (simp_all add: d)
  have s: "a = 6 * d3 + 6 * d2 + 6 * d1 + q mod 16" "b = a div 10 + 9 * d3 + 5 * d2 + d1"
    "c = b div 10 + 2 * d2" "e = c div 10 + 4 * d3"
    using assms(1) by (auto simp: dec_sums_def Let_def d)
  define r where "r = q mod 16"
  have a: "a \<le> 339" using s(1) u unfolding r_def [symmetric] by linarith
  then have "a div 10 \<le> 33" by simp
  then have b: "b \<le> 339" using s(2) u by linarith
  then have "b div 10 \<le> 33" by simp
  then have c: "c \<le> 63" using s(3) u by linarith
  then have "c div 10 \<le> 6" by simp
  then have "e \<le> 102" using s(4) u by linarith
  with a b c show "a < 400" "b < 400" "c < 64" "e < 400" by simp_all
qed

lemma thousands: "1000 * e = 1000 * (e mod 10) + 10000 * (e div (10 :: nat))"
proof -
  define q r where d: "q = e div 10" "r = e mod 10"
  have e: "e = 10 * q + r" unfolding d by simp
  show ?thesis unfolding d [symmetric] unfolding e by simp
qed

lemma dec_value: "value_lsb (dec_digits q) = q"
proof -
  define d1 d2 d3 where d: "d1 = q div 16 mod 16" "d2 = q div 256 mod 16" "d3 = q div 4096"
  obtain a b c e where s: "dec_sums q = (a, b, c, e)" by (metis prod_cases4)
  then have t: "a = 6 * d3 + 6 * d2 + 6 * d1 + q mod 16" "b = a div 10 + 9 * d3 + 5 * d2 + d1"
    "c = b div 10 + 2 * d2" "e = c div 10 + 4 * d3"
    by (auto simp: dec_sums_def Let_def d)
  have "value_lsb (dec_digits q) = a mod 10 + 10 * (b mod 10) + 100 * (c mod 10) + 1000 * (e mod 10) + 10000 * (e div 10)"
    using thousands [of e] by (simp add: dec_digits_def s)
  also have "\<dots> = 4096 * d3 + 256 * d2 + 16 * d1 + q mod 16"
    using t mult_div_mod_eq [of 10 a] mult_div_mod_eq [of 10 b] mult_div_mod_eq [of 10 c]
      mult_div_mod_eq [of 10 e] by linarith
  also have "\<dots> = q" using hex_split [of q] by (simp add: d)
  finally show ?thesis .
qed

lemma dec_digits_small: "q < 100000 \<Longrightarrow> \<forall>d \<in> set (dec_digits q). d < 10"
proof -
  assume "q < 100000"
  obtain a b c e where s: "dec_sums q = (a, b, c, e)" by (metis prod_cases4)
  have "10000 * (e div 10) \<le> value_lsb (dec_digits q)" by (simp add: dec_digits_def s)
  then have "e div 10 < 10" using \<open>q < 100000\<close> by (simp add: dec_value)
  then show ?thesis by (simp add: dec_digits_def s)
qed

lemma sub_mod10: "x - 10 * (x div 10) = x mod (10 :: nat)"
  by (simp add: modulo_nat_def)

lemma put_dec_full_digits:
  assumes q: "q < 100000"
  shows "put_dec_full q = map digit_char (dec_digits q)"
proof -
  obtain a b c e where s: "dec_sums q = (a, b, c, e)" by (metis prod_cases4)
  note bnd = dec_sums_bounds [OF s q]
  define d1 d2 d3 where d: "d1 = q div 16 mod 16" "d2 = q div 256 mod 16" "d3 = q div 4096"
  have t: "a = 6 * (d3 + d2 + d1) + q mod 16" "b = a div 10 + 9 * d3 + 5 * d2 + d1"
    "c = b div 10 + 2 * d2" "e = c div 10 + 4 * d3"
    using s by (auto simp: dec_sums_def Let_def d)
  have r: "a * 0xcd div 2048 = a div 10" "b * 0xcd div 2048 = b div 10"
    "c * 0xd div 128 = c div 10" "e * 0xcd div 2048 = e div 10"
    using bnd by (simp_all only: div10_205 div10_13)
  show ?thesis
    unfolding put_dec_full_def Let_def d [symmetric] t(1) [symmetric] r(1) sub_mod10 t(2) [symmetric] r(2)
      t(3) [symmetric] r(3) t(4) [symmetric] r(4) dec_digits_def s by simp
qed

lemma trunc_value:
  assumes "\<not> p \<Longrightarrow> B = 0 \<and> C = 0 \<and> E = 0 \<and> F = 0" and "\<not> q \<Longrightarrow> C = 0 \<and> E = 0 \<and> F = 0"
    and "\<not> r \<Longrightarrow> E = 0 \<and> F = 0"
  shows "value_lsb (A # (if p then B # (if q then C # (if r then E # (if F \<noteq> 0 then [F] else [])
    else []) else []) else [])) = value_lsb [A, B, C, E, F]"
  using assms by (cases p; cases q; cases r) auto

text \<open>The short form drops digits only when everything above them is zero.\<close>

lemma put_dec_trunc_digits:
  assumes q: "q < 100000"
  shows "\<exists>ds. put_dec_trunc q = map digit_char ds \<and> value_lsb ds = q \<and> (\<forall>d \<in> set ds. d < 10) \<and> ds \<noteq> []"
proof -
  obtain a b c e where s: "dec_sums q = (a, b, c, e)" by (metis prod_cases4)
  note bnd = dec_sums_bounds [OF s q]
  define d1 d2 d3 where d: "d1 = q div 16 mod 16" "d2 = q div 256 mod 16" "d3 = q div 4096"
  have t: "a = 6 * (d3 + d2 + d1) + q mod 16" "b = a div 10 + 9 * d3 + 5 * d2 + d1"
    "c = b div 10 + 2 * d2" "e = c div 10 + 4 * d3"
    using s by (auto simp: dec_sums_def Let_def d)
  have r: "a * 0xcd div 2048 = a div 10" "b * 0xcd div 2048 = b div 10"
    "c * 0xd div 128 = c div 10" "e * 0xcd div 2048 = e div 10"
    using bnd by (simp_all only: div10_205 div10_13)
  have p: "put_dec_trunc q = digit_char (a mod 10) #
      (if b \<noteq> 0 then digit_char (b mod 10) #
         (if c \<noteq> 0 \<or> d3 \<noteq> 0 then digit_char (c mod 10) #
            (if e \<noteq> 0 then digit_char (e mod 10) # (if e div 10 \<noteq> 0 then [digit_char (e div 10)] else [])
             else []) else []) else [])"
    unfolding put_dec_trunc_def Let_def d [symmetric] t(1) [symmetric] r(1) sub_mod10 t(2) [symmetric] r(2)
      t(3) [symmetric] r(3) t(4) [symmetric] r(4) by simp
  let ?ds = "a mod 10 # (if b \<noteq> 0 then b mod 10 # (if c \<noteq> 0 \<or> d3 \<noteq> 0 then c mod 10 #
      (if e \<noteq> 0 then e mod 10 # (if e div 10 \<noteq> 0 then [e div 10] else []) else []) else []) else [])"
  have z: "b = 0 \<Longrightarrow> c = 0 \<and> e = 0" "c = 0 \<and> d3 = 0 \<Longrightarrow> e = 0" using t by auto
  have "value_lsb ?ds = value_lsb [a mod 10, b mod 10, c mod 10, e mod 10, e div 10]"
    by (rule trunc_value) (use z in simp_all)
  then have v: "value_lsb ?ds = q" using dec_value [of q] by (simp only: dec_digits_def s prod.case)
  have u: "\<forall>d \<in> set ?ds. d < 10"
    using dec_digits_small [OF q] by (auto simp: dec_digits_def s)
  have w: "put_dec_trunc q = map digit_char ?ds" unfolding p by simp
  show ?thesis by (rule exI [of _ ?ds], intro conjI w v u list.distinct(2))
qed

lemma put_dec_digits:
  "\<exists>ds. put_dec n = map digit_char ds \<and> value_lsb ds = n \<and> (\<forall>d \<in> set ds. d < 10) \<and> ds \<noteq> []"
proof (induction n rule: put_dec.induct)
  case (1 n)
  show ?case
  proof (cases "n < 100000")
    case True
    then show ?thesis using put_dec_trunc_digits by (simp add: put_dec.simps [of n])
  next
    case False
    from "1.IH" [OF False] obtain ds where ds: "put_dec (n div 100000) = map digit_char ds"
      "value_lsb ds = n div 100000" "\<forall>d \<in> set ds. d < 10" "ds \<noteq> []" by auto
    have r: "n mod 100000 < 100000" by simp
    have l: "length (dec_digits (n mod 100000)) = 5" by (simp add: dec_digits_def split: prod.split)
    have "put_dec n = map digit_char (dec_digits (n mod 100000) @ ds)"
      using False ds(1) put_dec_full_digits [OF r] by (simp add: put_dec.simps [of n])
    moreover have "value_lsb (dec_digits (n mod 100000) @ ds) = n"
      by (simp add: value_lsb_append dec_value l ds(2))
    ultimately show ?thesis using ds(3,4) dec_digits_small [OF r] by (intro exI) auto
  qed
qed

section \<open>Parsing digits\<close>

lemma digit_char_class:
  assumes "d < 10"
  shows "isxdigit (digit_char d) \<and> digit_value (digit_char d) = int d \<and> digit_char d \<noteq> 120"
proof -
  have "d \<in> {0, 1, 2, 3, 4, 5, 6, 7, 8, 9}" using assms by auto
  then show ?thesis
    by (elim insertE emptyE; simp add: digit_char_def isxdigit_def digit_value_def isdigit_def
        ctype_mask_def ctype_table_def)
qed

lemma nul_class: "\<not> isxdigit 0"
  by (simp add: isxdigit_def ctype_mask_def ctype_table_def)

lemma digit_char_48: "d < 10 \<Longrightarrow> digit_char d = 48 \<longleftrightarrow> d = 0"
proof -
  assume "d < 10"
  then have "d \<in> {0, 1, 2, 3, 4, 5, 6, 7, 8, 9}" by auto
  then show ?thesis by (elim insertE emptyE; simp add: digit_char_def)
qed

definition value_msb :: "nat \<Rightarrow> nat list \<Rightarrow> nat" where
  "value_msb r ds = foldl (\<lambda>r d. r * 10 + d) r ds"

lemma value_msb_simps [simp]: "value_msb r [] = r" "value_msb r (d # ds) = value_msb (r * 10 + d) ds"
  by (simp_all add: value_msb_def)

lemma value_msb_rev: "value_msb 0 (rev ds) = value_lsb ds"
  by (induction ds) (simp_all add: value_msb_def mult.commute)

lemma drop_Cons_nth: "drop n xs = y # ys \<Longrightarrow> n < length xs \<and> xs ! n = y \<and> drop (n + 1) xs = ys"
  by (metis Cons_nth_drop_Suc Suc_eq_plus1 drop_eq_Nil leI list.distinct(1) list.inject)

lemma digit_loop_digits:
  assumes "\<forall>d \<in> set ds. d < 10" and "drop cp m = map digit_char ds @ 0 # rest"
  shows "digit_loop m cp 10 (of_nat r :: 'a::len word) = Some (of_nat (value_msb r ds), cp + length ds)"
  using assms
proof (induction ds arbitrary: cp r)
  case Nil
  then have "cp < length m" "m ! cp = 0" using drop_Cons_nth [of cp m 0 rest] by auto
  then show ?case by (subst digit_loop.simps) (simp add: nul_class)
next
  case (Cons d ds)
  then have d: "d < 10" and n: "cp < length m" "m ! cp = digit_char d"
    "drop (cp + 1) m = map digit_char ds @ 0 # rest"
    using drop_Cons_nth [of cp m "digit_char d" "map digit_char ds @ 0 # rest"] by auto
  have "digit_loop m cp 10 (of_nat r :: 'a word) =
      digit_loop m (cp + 1) 10 (of_nat r * of_nat 10 + of_int (int d))"
    using n d digit_char_class [OF d] by (subst digit_loop.simps) (simp add: Let_def)
  also have "of_nat r * of_nat 10 + of_int (int d) = (of_nat (r * 10 + d) :: 'a word)" by simp
  also have "digit_loop m (cp + 1) 10 \<dots> = Some (of_nat (value_msb (r * 10 + d) ds), cp + 1 + length ds)"
    using Cons n by (intro Cons.IH) auto
  finally show ?case by simp
qed

lemma parse_digits:
  assumes "\<forall>d \<in> set ds. d < 10" and "ds \<noteq> []"
  shows "(do { (cp, base) \<leftarrow> number_prefix (map digit_char ds @ [0]) 0 10;
      digit_loop (map digit_char ds @ [0]) cp base 0 }) =
    Some (of_nat (value_msb 0 ds) :: 'a::len word, length ds)"
proof -
  obtain d ds' where ds: "ds = d # ds'" using assms(2) by (cases ds) auto
  let ?m = "map digit_char ds @ [0]"
  have d: "d < 10" using assms(1) ds by simp
  show ?thesis
  proof (cases "d = 0")
    case True
    have "(map digit_char ds' @ [0]) ! 0 \<noteq> 120"
      using assms(1) ds digit_char_class by (cases ds') auto
    then have "number_prefix ?m 0 10 = Some (1, 10)"
      using True ds by (simp add: number_prefix_def digit_char_def)
    moreover have "digit_loop ?m 1 10 (of_nat 0 :: 'a word) = Some (of_nat (value_msb 0 ds'), 1 + length ds')"
      using assms(1) ds by (intro digit_loop_digits [of _ _ _ "[]"]) auto
    ultimately show ?thesis using True ds by simp
  next
    case False
    then have "number_prefix ?m 0 10 = Some (0, 10)"
      using ds digit_char_48 [OF d] by (simp add: number_prefix_def)
    moreover have "digit_loop ?m 0 10 (of_nat 0 :: 'a word) = Some (of_nat (value_msb 0 ds), 0 + length ds)"
      using assms(1) by (intro digit_loop_digits [of _ _ _ "[]"]) auto
    ultimately show ?thesis by simp
  qed
qed

section \<open>Properties\<close>

lemma number_decimal: "number n 10 (- 1) (- 1) 0 = rev (if n = 0 then [48] else put_dec (unat n))"
  by (simp add: number_def pad_with_def Let_def)

lemma number_digits:
  "\<exists>ds. number n 10 (- 1) (- 1) 0 = map digit_char ds \<and> (\<forall>d \<in> set ds. d < 10) \<and> ds \<noteq> [] \<and>
     value_msb 0 ds = unat n"
proof (cases "n = 0")
  case True
  then show ?thesis unfolding number_decimal by (intro exI [of _ "[0]"]) (simp add: digit_char_def)
next
  case False
  obtain ds where "put_dec (unat n) = map digit_char ds" "value_lsb ds = unat n"
    "\<forall>d \<in> set ds. d < 10" "ds \<noteq> []" using put_dec_digits by blast
  then show ?thesis unfolding number_decimal using False
    by (intro exI [of _ "rev ds"]) (simp add: rev_map value_msb_rev)
qed

text \<open>C39. The decimal digits that the formatter produces with multiplications and shifts instead of
  divisions read back as the number: parsing the formatted text of any 64-bit value with
  \<open>simple_strtoull\<close> gives the value and stops at the terminator, and \<open>simple_strtoul\<close> gives its
  low 32 bits.\<close>

theorem number_parse_roundtrip:
  "simple_strtoull (number n 10 (- 1) (- 1) 0 @ [0]) 0 10 = Some (n, length (number n 10 (- 1) (- 1) 0)) \<and>
   simple_strtoul (number n 10 (- 1) (- 1) 0 @ [0]) 0 10 = Some (ucast n, length (number n 10 (- 1) (- 1) 0))"
proof -
  obtain ds where d: "number n 10 (- 1) (- 1) 0 = map digit_char ds" "\<forall>d \<in> set ds. d < 10" "ds \<noteq> []"
    "value_msb 0 ds = unat n" using number_digits by blast
  have "of_nat (unat n) = n" "of_nat (unat n) = (ucast n :: u32)" by simp_all
  then show ?thesis
    unfolding simple_strtoull_def simple_strtoul_def d(1) parse_digits [OF d(2,3)] d(4) by simp
qed

end
