(* ===== verification/Env.thy ===== *)
theory Env
  imports Vsprintf Crc
begin

text \<open>
  The environment: \<^verbatim>\<open>common/env_common.c\<close> and \<^verbatim>\<open>common/cmd_nvedit.c\<close>, for the
  board's configuration (\<^verbatim>\<open>CONFIG_ENV_OVERWRITE\<close>, no console multiplexing, no network
  commands). The environment is a byte array of strings \<open>name=value\<close>, each ended by a zero, the
  last followed by another zero; pointers into it are offsets. \<open>ENV_SIZE\<close> is the length of the
  array and \<open>CONFIG_ENV_SIZE\<close> four more. A C string argument is the list of its characters, and
  is read with its terminator.
\<close>

section \<open>State\<close>

record env_st =
  env_data :: mem
  stored_crc :: u32
  env_valid :: bool
  reloc :: bool
  env_moved :: bool
  default_environment :: mem
  env_id :: int
  baudrate :: u32
  ip_addr :: u32
  load_addr :: u32

text \<open>\<open>reloc\<close> is the flag \<^verbatim>\<open>GD_FLG_RELOC\<close>. The object that \<open>gd->env_addr\<close> points to is
  the built-in environment until \<open>env_relocate\<close> moves it to the buffer; it is what \<open>env_get_char\<close>
  reads, with the flag and without, and what \<open>env_get_addr\<close> points into.\<close>

definition env_addr :: "env_st \<Rightarrow> mem" where
  "env_addr st = (if env_moved st then env_data st else default_environment st)"

definition env_get_char_spec :: "env_st \<Rightarrow> nat \<Rightarrow> byte option" where
  "env_get_char_spec st i = rd (env_addr st) i"

definition env_get_char_init :: "env_st \<Rightarrow> nat \<Rightarrow> byte option" where
  "env_get_char_init st i =
     (if env_valid st then env_get_char_spec st i else rd (default_environment st) i)"

definition env_get_char_memory :: "env_st \<Rightarrow> nat \<Rightarrow> byte option" where
  "env_get_char_memory st i =
     (if env_valid st then rd (env_addr st) i else rd (default_environment st) i)"

definition env_get_char :: "env_st \<Rightarrow> nat \<Rightarrow> byte option" where
  "env_get_char st i = (if reloc st then env_get_char_memory st i else env_get_char_init st i)"

definition env_src :: "env_st \<Rightarrow> mem" where
  "env_src st = (if env_valid st then env_addr st else default_environment st)"

definition env_get_addr :: "env_st \<Rightarrow> mem" where
  "env_get_addr st = (if env_valid st then env_addr st else default_environment st)"

definition set_env_obj :: "mem \<Rightarrow> env_st \<Rightarrow> env_st" where
  "set_env_obj e st = (if env_valid st \<and> env_moved st then st\<lparr>env_data := e\<rparr> else st\<lparr>default_environment := e\<rparr>)"

lemma env_get_char_src: "env_get_char st i = rd (env_src st) i"
  by (simp add: env_get_char_def env_get_char_memory_def env_get_char_init_def env_get_char_spec_def env_src_def)

definition env_crc_update :: "env_st \<Rightarrow> env_st option" where
  "env_crc_update st =
     map_option (\<lambda>c. st\<lparr>stored_crc := c\<rparr>) (crc32 (env_data st) 0 0 (length (env_data st)))"

definition set_default_env :: "env_st \<Rightarrow> env_st option" where
  "set_default_env st =
     (let n = length (env_data st); d = default_environment st in
      if n < length d then Some st
      else map_option (\<lambda>st. st\<lparr>env_valid := True\<rparr>)
             (env_crc_update (st\<lparr>env_data := d @ replicate (n - length d) 0\<rparr>)))"

section \<open>Looking up\<close>

text \<open>\<open>envmatch\<close> from position \<open>p\<close> of the name (with its terminator) and index \<open>i\<close>.\<close>

function envmatch_from :: "mem \<Rightarrow> mem \<Rightarrow> nat \<Rightarrow> nat \<Rightarrow> nat option option" where
  "envmatch_from e s p i =
     (if p < length s
      then (case rd e i of
              None \<Rightarrow> None
            | Some c \<Rightarrow>
                (if s ! p = c
                 then if s ! p = 61 then Some (Some (i + 1)) else envmatch_from e s (p + 1) (i + 1)
                 else if s ! p = 0 \<and> c = 61 then Some (Some (i + 1)) else Some None))
      else None)"
  by pat_completeness auto
termination by (relation "measure (\<lambda>(e, s, p, i). length s - p)") auto

declare envmatch_from.simps [simp del]

definition envmatch :: "mem \<Rightarrow> byte list \<Rightarrow> nat \<Rightarrow> nat option option" where
  "envmatch e name i = envmatch_from e (name @ [0]) 0 i"

text \<open>The end of an entry; with a bound, the scan gives up at it.\<close>

function entry_end :: "mem \<Rightarrow> nat option \<Rightarrow> nat \<Rightarrow> nat option option" where
  "entry_end e lim i =
     (if i < length e
      then if e ! i = 0 then Some (Some i)
           else if (case lim of None \<Rightarrow> False | Some l \<Rightarrow> l \<le> i) then Some None
           else entry_end e lim (i + 1)
      else None)"
  by pat_completeness auto
termination by (relation "measure (\<lambda>(e, lim, i). length e - i)") auto

declare entry_end.simps [simp del]

lemma entry_end_ge: "entry_end e lim i = Some (Some n) \<Longrightarrow> i \<le> n \<and> n < length e"
  by (induction e lim i rule: entry_end.induct)
    (auto simp: entry_end.simps [of e lim i for e lim i] split: if_splits)

function getenv_from :: "mem \<Rightarrow> nat \<Rightarrow> byte list \<Rightarrow> nat \<Rightarrow> nat option option" where
  "getenv_from e lim name i =
     (case rd e i of
        None \<Rightarrow> None
      | Some c \<Rightarrow>
          (if c = 0 then Some None
           else (case entry_end e (Some lim) i of
                   None \<Rightarrow> None
                 | Some None \<Rightarrow> Some None
                 | Some (Some nxt) \<Rightarrow>
                     (case envmatch e name i of
                        None \<Rightarrow> None
                      | Some None \<Rightarrow> getenv_from e lim name (nxt + 1)
                      | Some (Some val) \<Rightarrow> Some (Some val)))))"
  by pat_completeness auto
termination
  by (relation "measure (\<lambda>(e, lim, name, i). length e - i)") (auto dest: entry_end_ge)

declare getenv_from.simps [simp del]

definition config_env_size :: "env_st \<Rightarrow> nat" where
  "config_env_size st = length (env_data st) + 4"

text \<open>\<open>getenv\<close>: the offset of the value, or \<open>NULL\<close>.\<close>

definition getenv :: "env_st \<Rightarrow> byte list \<Rightarrow> nat option option" where
  "getenv st name = getenv_from (env_src st) (config_env_size st) name 0"

text \<open>The copy of \<open>getenv_r\<close>: the count \<open>n\<close>, the offset in the buffer and the buffer at exit.\<close>

function copy_value :: "mem \<Rightarrow> mem \<Rightarrow> nat \<Rightarrow> nat \<Rightarrow> nat \<Rightarrow> (nat \<times> nat \<times> mem) option" where
  "copy_value e buf len val n =
     (if n < len
      then (case rd e val of
              None \<Rightarrow> None
            | Some c \<Rightarrow> (case wr buf n c of
                None \<Rightarrow> None
              | Some buf' \<Rightarrow>
                  if c \<noteq> 0 then copy_value e buf' len (val + 1) (n + 1) else Some (n + 1, n + 1, buf')))
      else Some (n + 1, n, buf))"
  by pat_completeness auto
termination by (relation "measure (\<lambda>(e, buf, len, val, n). len - n)") auto

declare copy_value.simps [simp del]

definition getenv_r :: "env_st \<Rightarrow> byte list \<Rightarrow> mem \<Rightarrow> nat \<Rightarrow> (mem \<times> int) option" where
  "getenv_r st name buf len = do {
     v \<leftarrow> getenv st name;
     (case v of
        None \<Rightarrow> Some (buf, - 1)
      | Some val \<Rightarrow> do {
          (n, p, buf) \<leftarrow> copy_value (env_src st) buf len val 0;
          buf \<leftarrow> (if len = n then wr buf p 0 else Some buf);
          Some (buf, int n)
        })
   }"

section \<open>Setting and deleting\<close>

text \<open>The search of \<open>_do_setenv\<close>: the entry's start and end, and the value's offset when found.\<close>

function find_entry :: "mem \<Rightarrow> mem \<Rightarrow> byte list \<Rightarrow> nat \<Rightarrow> nat \<Rightarrow> (nat \<times> nat \<times> nat option) option" where
  "find_entry e src name env nxt =
     (case rd e env of
        None \<Rightarrow> None
      | Some c \<Rightarrow>
          (if c = 0 then Some (env, nxt, None)
           else (case entry_end e None env of
                   None \<Rightarrow> None
                 | Some None \<Rightarrow> None
                 | Some (Some nxt) \<Rightarrow>
                     (case envmatch src name env of
                        None \<Rightarrow> None
                      | Some None \<Rightarrow> find_entry e src name (nxt + 1) nxt
                      | Some (Some val) \<Rightarrow> Some (env, nxt, Some val)))))"
  by pat_completeness auto
termination
  by (relation "measure (\<lambda>(e, src, name, env, nxt). length e - env)") (auto dest: entry_end_ge)

declare find_entry.simps [simp del]

text \<open>Moving the following entries down; it stops behind two zeros in a row.\<close>

function shift_down :: "mem \<Rightarrow> nat \<Rightarrow> nat \<Rightarrow> (mem \<times> nat) option" where
  "shift_down e env nxt =
     (if nxt < length e
      then (case wr e env (e ! nxt) of
              None \<Rightarrow> None
            | Some e' \<Rightarrow>
                (case rd e' (nxt + 1) of
                   None \<Rightarrow> None
                 | Some x \<Rightarrow>
                     if e' ! env = 0 \<and> x = 0 then Some (e', env) else shift_down e' (env + 1) (nxt + 1)))
      else None)"
  by pat_completeness auto
termination by (relation "measure (\<lambda>(e, env, nxt). length e - nxt)") auto

declare shift_down.simps [simp del]

definition delete_entry :: "mem \<Rightarrow> nat \<Rightarrow> nat \<Rightarrow> mem option" where
  "delete_entry e env nxt = do {
     c \<leftarrow> rd e (nxt + 1);
     (e, env) \<leftarrow>
       (if c = 0
        then if 0 < env then Some (e, env - 1) else map_option (\<lambda>e. (e, env)) (wr e env 0)
        else shift_down e env (nxt + 1));
     wr e (env + 1) 0
   }"

text \<open>The place behind the last entry.\<close>

function env_end :: "mem \<Rightarrow> nat \<Rightarrow> nat option" where
  "env_end e env =
     (if env < length e
      then if e ! env \<noteq> 0 then env_end e (env + 1)
           else (case rd e (env + 1) of
                   None \<Rightarrow> None
                 | Some x \<Rightarrow> if x \<noteq> 0 then env_end e (env + 1) else Some env)
      else None)"
  by pat_completeness auto
termination by (relation "measure (\<lambda>(e, env). length e - env)") auto

declare env_end.simps [simp del]

text \<open>Storing a string with its terminator from \<open>env\<close> on; the new \<open>env\<close> is at the terminator.\<close>

fun store_str :: "mem \<Rightarrow> nat \<Rightarrow> byte list \<Rightarrow> (mem \<times> nat) option" where
  "store_str e env [] = map_option (\<lambda>e. (e, env)) (wr e env 0)"
| "store_str e env (c # cs) = (case wr e env c of None \<Rightarrow> None | Some e' \<Rightarrow> store_str e' (env + 1) cs)"

fun store_args :: "mem \<Rightarrow> nat \<Rightarrow> byte \<Rightarrow> byte list list \<Rightarrow> (mem \<times> nat) option" where
  "store_args e env sep [] = Some (e, env)"
| "store_args e env sep (v # vs) =
     (case wr e env sep of
        None \<Rightarrow> None
      | Some e' \<Rightarrow>
          (case store_str e' (env + 1) v of
             None \<Rightarrow> None
           | Some (e'', env') \<Rightarrow> store_args e'' env' 32 vs))"

text \<open>Appending \<open>name=val val ...\<close>; \<open>None\<close> inside when it does not fit.\<close>

definition append_entry :: "mem \<Rightarrow> byte list \<Rightarrow> byte list list \<Rightarrow> mem option option" where
  "append_entry e name vals = do {
     env \<leftarrow> env_end e 0;
     let env = (if 0 < env then env + 1 else env);
     let len = fold (\<lambda>v n. n + length v + 1) vals (length name + 2);
     if length e - env < len then Some None
     else do {
       (e, env) \<leftarrow> store_str e env name;
       (e, env) \<leftarrow> store_args e env 61 vals;
       e \<leftarrow> wr e (env + 1) 0;
       Some (Some e)
     }
   }"

section \<open>The command\<close>

definition str :: "char list \<Rightarrow> byte list" where
  "str s = map (\<lambda>c. of_nat (of_char c)) s"

definition baudrate_table :: "u32 list" where
  "baudrate_table = [9600, 19200, 38400, 57600, 115200]"

definition htonl :: "u32 \<Rightarrow> u32" where
  "htonl w = get_le32 (put_be32 w)"

text \<open>Parsing an address: four numbers with one character between them.\<close>

primrec parse_ip :: "nat \<Rightarrow> mem \<Rightarrow> nat \<Rightarrow> u32 \<Rightarrow> u32 option" where
  "parse_ip 0 m s addr = Some addr"
| "parse_ip (Suc n) m s addr = do {
     (val, e) \<leftarrow> simple_strtoul m s 10;
     c \<leftarrow> rd m e;
     parse_ip n m (if c \<noteq> 0 then e + 1 else e) (push_bit 8 addr OR (val AND 0xFF))
   }"

text \<open>
  The arguments as a list of strings, \<open>None\<close> a null pointer; \<open>argc\<close> of them are given.
  \<open>console_ok\<close> is the result of \<open>console_assign\<close> (\<^verbatim>\<open>common/console.c\<close>) for the console
  number and the device name.
\<close>

definition setenv_console :: "(nat \<Rightarrow> byte list \<Rightarrow> bool) \<Rightarrow> byte list \<Rightarrow> nat \<Rightarrow> byte list option list \<Rightarrow> bool option" where
  "setenv_console console_ok name argc argv =
     (let console = (if name = str ''stdin'' then Some 0 else if name = str ''stdout'' then Some 1
         else if name = str ''stderr'' then Some 2 else None)
      in case console of
           None \<Rightarrow> Some True
         | Some k \<Rightarrow> (if argc < 3 then Some False
                       else do { a \<leftarrow> rd argv 2; v \<leftarrow> a; Some (console_ok k v) }))"

text \<open>The baud rate switch: the new rate, or the refusal of an unsupported one.\<close>

definition setenv_baudrate :: "byte list \<Rightarrow> byte list option list \<Rightarrow> u32 \<Rightarrow> u32 option option" where
  "setenv_baudrate name argv old =
     (if name = str ''baudrate''
      then do {
        a \<leftarrow> rd argv 2;
        v \<leftarrow> a;
        (b, _) \<leftarrow> simple_strtoul (v @ [0]) 0 10;
        Some (if b \<in> set baudrate_table then Some b else None)
      }
      else Some (Some old))"

definition setenv_hooks :: "env_st \<Rightarrow> byte list \<Rightarrow> byte list \<Rightarrow> env_st option" where
  "setenv_hooks st name v =
     (if name = str ''ethaddr'' then Some st
      else if name = str ''ipaddr''
      then map_option (\<lambda>a. st\<lparr>ip_addr := htonl a\<rparr>) (parse_ip 4 (v @ [0]) 0 0)
      else if name = str ''loadaddr''
      then map_option (\<lambda>(r, _). st\<lparr>load_addr := r\<rparr>) (simple_strtoul (v @ [0]) 0 16)
      else Some st)"

definition setenv_append :: "env_st \<Rightarrow> byte list \<Rightarrow> nat \<Rightarrow> byte list option list \<Rightarrow> (env_st \<times> int) option" where
  "setenv_append st name argc argv =
     (if argc < 3 \<or> argv ! 2 = None
      then map_option (\<lambda>st. (st, 0)) (env_crc_update st)
      else do {
        vals \<leftarrow> those (take (argc - 2) (drop 2 argv));
        r \<leftarrow> append_entry (env_get_addr st) name vals;
        (case r of
           None \<Rightarrow> Some (st, 1)
         | Some e \<Rightarrow> do {
             st \<leftarrow> env_crc_update (set_env_obj e st);
             st \<leftarrow> setenv_hooks st name (hd vals);
             Some (st, 0)
           })
      })"

definition do_setenv_raw ::
  "(nat \<Rightarrow> byte list \<Rightarrow> bool) \<Rightarrow> env_st \<Rightarrow> nat \<Rightarrow> byte list option list \<Rightarrow> (env_st \<times> int) option" where
  "do_setenv_raw console_ok st argc argv = do {
     a \<leftarrow> rd argv 1;
     name \<leftarrow> a;
     if 61 \<in> set name then Some (st, 1)
     else do {
       let st = st\<lparr>env_id := env_id st + 1\<rparr>;
       (env, nxt, oldval) \<leftarrow> find_entry (env_get_addr st) (env_src st) name 0 0;
       ok \<leftarrow> setenv_console console_ok name argc argv;
       if \<not> ok then Some (st, 1)
       else (case oldval of
          None \<Rightarrow> setenv_append st name argc argv
        | Some _ \<Rightarrow> do {
            b \<leftarrow> setenv_baudrate name argv (baudrate st);
            (case b of
               None \<Rightarrow> Some (st, 1)
             | Some b \<Rightarrow> do {
                 let st = st\<lparr>baudrate := b\<rparr>;
                 e \<leftarrow> delete_entry (env_get_addr st) env nxt;
                 setenv_append (set_env_obj e st) name argc argv
               })
          })
     }
   }"

definition setenv :: "(nat \<Rightarrow> byte list \<Rightarrow> bool) \<Rightarrow> env_st \<Rightarrow> byte list \<Rightarrow> byte list option \<Rightarrow> (env_st \<times> int) option" where
  "setenv console_ok st varname varvalue =
     (let argv = [Some (str ''setenv''), Some varname, varvalue, None]
      in if varvalue = None \<or> varvalue = Some [] then do_setenv_raw console_ok st 2 argv
         else do_setenv_raw console_ok st 3 argv)"

definition do_setenv ::
  "(nat \<Rightarrow> byte list \<Rightarrow> bool) \<Rightarrow> env_st \<Rightarrow> nat \<Rightarrow> byte list option list \<Rightarrow> (env_st \<times> int) option" where
  "do_setenv console_ok st argc argv =
     (if argc < 2 then Some (st, 1) else do_setenv_raw console_ok st argc argv)"

section \<open>Printing\<close>

text \<open>
  One entry of \<open>printenv\<close>: characters go through a buffer of 16 and are printed when it is full
  or the entry ends; the text printed, and the index behind the entry's terminator.
\<close>

function print_entry :: "mem \<Rightarrow> nat \<Rightarrow> byte list \<Rightarrow> byte list \<Rightarrow> (byte list \<times> nat) option" where
  "print_entry e i buf out =
     (if i < length e
      then if e ! i = 0 then Some (out @ buf, i + 1)
           else let buf' = buf @ [e ! i] in
             (if length buf' = 16 then print_entry e (i + 1) [] (out @ buf')
              else print_entry e (i + 1) buf' out)
      else None)"
  by pat_completeness auto
termination by (relation "measure (\<lambda>(e, i, buf, out). length e - i)") auto

declare print_entry.simps [simp del]

lemma print_entry_gt: "print_entry e i buf out = Some (out', n) \<Longrightarrow> i < n \<and> i < length e"
proof (induction e i buf out rule: print_entry.induct)
  case (1 e i buf out)
  show ?case
  proof (cases "i < length e \<and> e ! i \<noteq> 0")
    case True
    then show ?thesis
      using "1.IH" [OF _ _ refl] "1.prems" print_entry.simps [of e i buf out]
      by (cases "length (buf @ [e ! i]) = 16") (auto simp: Let_def)
  next
    case False
    then show ?thesis using "1.prems" print_entry.simps [of e i buf out] by (auto split: if_splits)
  qed
qed

text \<open>\<open>stop n\<close> says whether control-C is seen after the entry that ends at index \<open>n\<close>.\<close>

function printenv_from ::
  "(nat \<Rightarrow> bool) \<Rightarrow> mem \<Rightarrow> byte list \<Rightarrow> nat \<Rightarrow> nat \<Rightarrow> byte list \<Rightarrow> (byte list \<times> int) option" where
  "printenv_from stop e name state i out =
     (if state = 0 then Some (out, 0)
      else (case rd e i of
         None \<Rightarrow> None
       | Some c \<Rightarrow>
           (if c = 0 then Some (out, int i)
            else (case (if state = 2 then envmatch e name i else Some None) of
                    None \<Rightarrow> None
                  | Some v \<Rightarrow>
                      (let state = (if v \<noteq> None then 0 else state) in
                       (case print_entry e i [] [] of
                          None \<Rightarrow> None
                        | Some (line, n) \<Rightarrow>
                            (let out = (if state \<le> 1 then out @ line @ [10] else out) in
                             if stop n then Some (out, - 1)
                             else printenv_from stop e name state n out)))))))"
  by pat_completeness auto
termination
proof (relation "measure (\<lambda>(stop, e, name, state, i, out). length e - i)", goal_cases)
  case (2 stop e name state i out c v st p line n out')
  then have "i < n \<and> i < length e" using print_entry_gt [of e i "[]" "[]" line n] by simp
  then show ?case by auto
qed simp

declare printenv_from.simps [simp del]

definition printenv :: "(nat \<Rightarrow> bool) \<Rightarrow> env_st \<Rightarrow> byte list \<Rightarrow> nat \<Rightarrow> (byte list \<times> int) option" where
  "printenv stop st name state = printenv_from stop (env_src st) name state 0 []"

definition decimal :: "nat \<Rightarrow> byte list" where
  "decimal n = number (of_nat n) 10 (- 1) (- 1) 0"

text \<open>The names after the command's own; the text printed and the return code.\<close>

fun print_names :: "(nat \<Rightarrow> bool) \<Rightarrow> env_st \<Rightarrow> byte list list \<Rightarrow> byte list \<Rightarrow> int \<Rightarrow> (byte list \<times> int) option" where
  "print_names stop st [] out rcode = Some (out, rcode)"
| "print_names stop st (name # names) out rcode =
     (case printenv stop st name 2 of
        None \<Rightarrow> None
      | Some (t, r) \<Rightarrow>
          (if r \<noteq> 0
           then print_names stop st names
                  (out @ t @ str ''## Error: \"'' @ name @ str ''\" not defined'' @ [10]) (rcode + 1)
           else print_names stop st names (out @ t) rcode))"

definition do_printenv :: "(nat \<Rightarrow> bool) \<Rightarrow> env_st \<Rightarrow> byte list list \<Rightarrow> (byte list \<times> int) option" where
  "do_printenv stop st names =
     (if names = []
      then do {
        (out, r) \<leftarrow> printenv stop st [] 1;
        if r < 0 then Some (out, 1)
        else Some (out @ [10] @ str ''Environment size: '' @ decimal (nat r) @ str ''/'' @
               decimal (length (env_data st)) @ str '' bytes'' @ [10], 0)
      }
      else print_names stop st names [] 0)"

end
