(* ===== verification/EnvCorrect.thy ===== *)
theory EnvCorrect
  imports Env CStringCorrect
begin

text \<open>
  The environment array as a list of name/value pairs: lookups, deletions and additions of the code
  are those of an association list, and the store behaves as a map.
\<close>

section \<open>The image of a list of variables\<close>

type_synonym var = "byte list \<times> byte list"

definition entry :: "var \<Rightarrow> byte list" where
  "entry kv = fst kv @ 61 # snd kv"

definition flat :: "var list \<Rightarrow> byte list" where
  "flat kvs = concat (map (\<lambda>kv. entry kv @ [0]) kvs)"

definition var_ok :: "var \<Rightarrow> bool" where
  "var_ok kv \<longleftrightarrow> 61 \<notin> set (fst kv) \<and> 0 \<notin> set (fst kv) \<and> 0 \<notin> set (snd kv)"

definition env_rep :: "mem \<Rightarrow> var list \<Rightarrow> bool" where
  "env_rep e kvs \<longleftrightarrow> (\<forall>kv \<in> set kvs. var_ok kv) \<and>
     (\<exists>pad. e = (if kvs = [] then [0] else flat kvs) @ 0 # pad)"

lemma flat_simps [simp]: "flat [] = []" "flat (kv # kvs) = entry kv @ 0 # flat kvs"
  "flat (xs @ ys) = flat xs @ flat ys"
  by (simp_all add: flat_def)

lemma entry_no_zero: "var_ok kv \<Longrightarrow> 0 \<notin> set (entry kv)"
  by (simp add: var_ok_def entry_def)

lemma entry_not_Nil [simp]: "entry kv \<noteq> []"
  by (simp add: entry_def)

lemma flat_Nil [simp]: "flat kvs = [] \<longleftrightarrow> kvs = []"
  by (cases kvs) simp_all

section \<open>Reading\<close>

lemma entry_end_at:
  assumes "e = pre @ v @ 0 # rest" and "0 \<notin> set v"
    and "\<forall>l. lim = Some l \<longrightarrow> length pre + length v \<le> l"
  shows "entry_end e lim (length pre) = Some (Some (length pre + length v))"
  using assms
proof (induction v arbitrary: pre)
  case Nil
  then show ?case by (subst entry_end.simps) simp
next
  case (Cons x v)
  have "e = (pre @ [x]) @ v @ 0 # rest" using Cons.prems(1) by simp
  then have "entry_end e lim (length (pre @ [x])) = Some (Some (length (pre @ [x]) + length v))"
    using Cons.prems by (intro Cons.IH) auto
  moreover have "\<not> (case lim of None \<Rightarrow> False | Some l \<Rightarrow> l \<le> length pre)"
    using Cons.prems(3) by (auto split: option.splits)
  ultimately show ?case using Cons.prems by (subst entry_end.simps) (simp add: nth_append)
qed

lemma envmatch_at:
  assumes "e = pre @ n @ 61 # rest" and "s = done @ name @ [0]"
    and "61 \<notin> set n" "0 \<notin> set n" "61 \<notin> set name" "0 \<notin> set name"
  shows "envmatch_from e s (length done) (length pre) =
    Some (if name = n then Some (length pre + length n + 1) else None)"
  using assms
proof (induction name arbitrary: pre n "done")
  case Nil
  then show ?case by (subst envmatch_from.simps) (cases n; auto simp: nth_append)
next
  case (Cons x xs)
  show ?case
  proof (cases n)
    case Nil
    then show ?thesis using Cons.prems by (subst envmatch_from.simps) (auto simp: nth_append)
  next
    case (Cons a as)
    have c: "rd e (length pre) = Some a" "s ! length done = x" "length done < length s"
      using Cons.prems \<open>n = a # as\<close> by (auto simp: nth_append)
    show ?thesis
    proof (cases "a = x")
      case True
      have "envmatch_from e s (length (done @ [x])) (length (pre @ [x])) =
          Some (if xs = as then Some (length (pre @ [x]) + length as + 1) else None)"
        using Cons.prems \<open>n = a # as\<close> True by (intro Cons.IH) auto
      then show ?thesis using c True Cons.prems \<open>n = a # as\<close>
        by (subst envmatch_from.simps) auto
    next
      case False
      then show ?thesis using c Cons.prems \<open>n = a # as\<close> by (subst envmatch_from.simps) auto
    qed
  qed
qed

definition name_ok :: "byte list \<Rightarrow> bool" where
  "name_ok name \<longleftrightarrow> 61 \<notin> set name \<and> 0 \<notin> set name"

lemma envmatch_entry:
  assumes "e = pre @ entry kv @ 0 # rest" and "var_ok kv" and "name_ok name"
  shows "envmatch e name (length pre) =
    Some (if fst kv = name then Some (length pre + length name + 1) else None)"
  using envmatch_at [of e pre "fst kv" "snd kv @ 0 # rest" "name @ [0]" "[]" name] assms
  by (auto simp: envmatch_def entry_def var_ok_def name_ok_def)

lemma has_str_at: "e = pre @ v @ 0 # rest \<Longrightarrow> 0 \<notin> set v \<Longrightarrow> has_str e (length pre) v"
  by (simp add: has_str_def nth_append)

lemma getenv_from_at:
  assumes "e = pre @ flat kvs @ 0 # rest" and "\<forall>kv \<in> set kvs. var_ok kv" and "name_ok name"
    and "length e \<le> lim"
  shows "case map_of kvs name of
      None \<Rightarrow> getenv_from e lim name (length pre) = Some None
    | Some v \<Rightarrow> \<exists>k. getenv_from e lim name (length pre) = Some (Some k) \<and> has_str e k v"
  using assms
proof (induction kvs arbitrary: pre)
  case Nil
  then show ?case by (subst getenv_from.simps) (simp add: nth_append)
next
  case (Cons kv kvs)
  obtain n v where kv: "kv = (n, v)" by (cases kv)
  have ok: "var_ok kv" using Cons.prems by simp
  have e: "e = pre @ entry kv @ 0 # (flat kvs @ 0 # rest)" using Cons.prems by simp
  have c: "rd e (length pre) = Some (hd (entry kv))" using e by (cases "entry kv") (auto simp: nth_append)
  have c0: "hd (entry kv) \<noteq> 0" using entry_no_zero [OF ok] by (cases "entry kv") auto
  have en: "entry_end e (Some lim) (length pre) = Some (Some (length pre + length (entry kv)))"
    using e Cons.prems(4) entry_no_zero [OF ok] by (intro entry_end_at) auto
  note m = envmatch_entry [OF e ok Cons.prems(3)]
  show ?case
  proof (cases "n = name")
    case True
    have "e = (pre @ n @ [61]) @ v @ 0 # (flat kvs @ 0 # rest)" using e kv by (simp add: entry_def)
    then have "has_str e (length (pre @ n @ [61])) v"
      using ok kv by (intro has_str_at) (auto simp: var_ok_def)
    then show ?thesis using True kv c c0 en m by (subst getenv_from.simps) simp
  next
    case False
    let ?pre = "pre @ entry kv @ [0]"
    have "getenv_from e lim name (length pre) = getenv_from e lim name (length ?pre)"
      using False kv c c0 en m by (subst getenv_from.simps) simp
    moreover have "case map_of kvs name of
        None \<Rightarrow> getenv_from e lim name (length ?pre) = Some None
      | Some v \<Rightarrow> \<exists>k. getenv_from e lim name (length ?pre) = Some (Some k) \<and> has_str e k v"
      using Cons.prems e by (intro Cons.IH) auto
    ultimately show ?thesis using False kv by (simp split: option.splits)
  qed
qed

lemma getenv_rep:
  assumes "env_rep e kvs" and "name_ok name" and "length e \<le> lim"
  shows "case map_of kvs name of
      None \<Rightarrow> getenv_from e lim name 0 = Some None
    | Some v \<Rightarrow> \<exists>k. getenv_from e lim name 0 = Some (Some k) \<and> has_str e k v"
proof -
  obtain pad where e: "e = (if kvs = [] then [0] else flat kvs) @ 0 # pad"
    and ok: "\<forall>kv \<in> set kvs. var_ok kv" using assms(1) by (auto simp: env_rep_def)
  then obtain rest where "e = [] @ flat kvs @ 0 # rest" by (cases "kvs = []") auto
  from getenv_from_at [OF this ok assms(2,3)] show ?thesis by (simp only: list.size)
qed

section \<open>Searching before a change\<close>

lemma find_entry_at:
  assumes "e = pre @ flat kvs @ 0 # rest" and "\<forall>kv \<in> set kvs. var_ok kv" and "name_ok name"
  shows "(name \<notin> fst ` set kvs \<and>
      (\<exists>env nxt. find_entry e e name (length pre) nx = Some (env, nxt, None))) \<or>
    (\<exists>xs v ys k. kvs = xs @ (name, v) # ys \<and> name \<notin> fst ` set xs \<and>
      find_entry e e name (length pre) nx = Some (length pre + length (flat xs),
        length pre + length (flat xs) + length (entry (name, v)), Some k))"
  using assms
proof (induction kvs arbitrary: pre nx)
  case Nil
  then show ?case by (subst find_entry.simps) (simp add: nth_append)
next
  case (Cons kv kvs)
  have ok: "var_ok kv" using Cons.prems by simp
  have e: "e = pre @ entry kv @ 0 # (flat kvs @ 0 # rest)" using Cons.prems by simp
  have c: "rd e (length pre) = Some (hd (entry kv))" using e by (cases "entry kv") (auto simp: nth_append)
  have c0: "hd (entry kv) \<noteq> 0" using entry_no_zero [OF ok] by (cases "entry kv") auto
  have en: "entry_end e None (length pre) = Some (Some (length pre + length (entry kv)))"
    using e entry_no_zero [OF ok] by (intro entry_end_at) auto
  note m = envmatch_entry [OF e ok Cons.prems(3)]
  show ?case
  proof (cases "fst kv = name")
    case True
    have "find_entry e e name (length pre) nx =
        Some (length pre, length pre + length (entry kv), Some (length pre + length name + 1))"
      using True c c0 en m by (subst find_entry.simps) simp
    then show ?thesis using True
      by (intro disjI2 exI [of _ "[]"] exI [of _ "snd kv"] exI [of _ kvs]) (cases kv; auto)
  next
    case False
    let ?pre = "pre @ entry kv @ [0]"
    have eq: "find_entry e e name (length pre) nx =
        find_entry e e name (length ?pre) (length pre + length (entry kv))"
      using False c c0 en m by (subst find_entry.simps) simp
    have "(name \<notin> fst ` set kvs \<and>
        (\<exists>env nxt. find_entry e e name (length ?pre) (length pre + length (entry kv)) = Some (env, nxt, None))) \<or>
      (\<exists>xs v ys k. kvs = xs @ (name, v) # ys \<and> name \<notin> fst ` set xs \<and>
        find_entry e e name (length ?pre) (length pre + length (entry kv)) =
          Some (length ?pre + length (flat xs),
            length ?pre + length (flat xs) + length (entry (name, v)), Some k))"
      using Cons.prems e by (intro Cons.IH) auto
    then show ?thesis
    proof
      assume "name \<notin> fst ` set kvs \<and>
        (\<exists>env nxt. find_entry e e name (length ?pre) (length pre + length (entry kv)) = Some (env, nxt, None))"
      then show ?thesis using False eq by auto
    next
      assume "\<exists>xs v ys k. kvs = xs @ (name, v) # ys \<and> name \<notin> fst ` set xs \<and>
        find_entry e e name (length ?pre) (length pre + length (entry kv)) =
          Some (length ?pre + length (flat xs),
            length ?pre + length (flat xs) + length (entry (name, v)), Some k)"
      then obtain xs v ys k where "kvs = xs @ (name, v) # ys" "name \<notin> fst ` set xs"
        "find_entry e e name (length ?pre) (length pre + length (entry kv)) =
          Some (length ?pre + length (flat xs),
            length ?pre + length (flat xs) + length (entry (name, v)), Some k)" by blast
      then show ?thesis using False eq
        by (intro disjI2 exI [of _ "kv # xs"] exI [of _ v] exI [of _ ys] exI [of _ k]) auto
    qed
  qed
qed

section \<open>Deleting\<close>

text \<open>Concatenated entries: nonempty, ending in a zero, without two zeros in a row.\<close>

inductive zstr :: "byte list \<Rightarrow> bool" where
  zlast: "zstr [0]"
| zchar: "c \<noteq> 0 \<Longrightarrow> zstr w \<Longrightarrow> zstr (c # w)"
| zsep: "c \<noteq> 0 \<Longrightarrow> zstr (c # w) \<Longrightarrow> zstr (0 # c # w)"

inductive_cases zstr_ConsE: "zstr (c # w)"

lemma zstr_entry: "0 \<notin> set v \<Longrightarrow> zstr w \<Longrightarrow> (w = [0] \<or> hd w \<noteq> 0) \<Longrightarrow> v \<noteq> [] \<Longrightarrow> zstr (v @ [0]) \<and>
    (hd w \<noteq> 0 \<longrightarrow> zstr (v @ 0 # w))"
proof (induction v)
  case (Cons x v)
  show ?case
  proof (cases v)
    case Nil
    have "zstr (x # 0 # w)" if "hd w \<noteq> 0"
    proof -
      obtain c w' where "w = c # w'" using Cons.prems(2) by (cases w) (auto elim: zstr.cases)
      then show ?thesis using that Cons.prems by (auto intro: zchar zsep)
    qed
    then show ?thesis using Cons.prems Nil by (auto intro: zstr.intros)
  next
    case (Cons y ys)
    then show ?thesis using Cons.IH Cons.prems by (auto intro: zchar)
  qed
qed simp

lemma zstr_flat: "kvs \<noteq> [] \<Longrightarrow> \<forall>kv \<in> set kvs. var_ok kv \<Longrightarrow> zstr (flat kvs) \<and> hd (flat kvs) \<noteq> 0"
proof (induction kvs)
  case (Cons kv kvs)
  have v: "0 \<notin> set (entry kv)" "entry kv \<noteq> []" using Cons.prems entry_no_zero by auto
  then have h: "hd (flat (kv # kvs)) \<noteq> 0" by (cases "entry kv") auto
  show ?case
  proof (cases "kvs = []")
    case True
    then show ?thesis using zstr_entry [OF v(1) zlast] v h by simp
  next
    case False
    then have "zstr (flat kvs)" "hd (flat kvs) \<noteq> 0" using Cons by auto
    then show ?thesis using zstr_entry [OF v(1), of "flat kvs"] v h by auto
  qed
qed simp

lemma shift_down_at:
  assumes "zstr w" and "e = pre @ gap @ w @ 0 # rest" and "gap \<noteq> []"
  shows "\<exists>post. shift_down e (length pre) (length pre + length gap) =
      Some (pre @ w @ post, length pre + length w - 1) \<and> length (pre @ w @ post) = length e"
  using assms
proof (induction w arbitrary: e pre gap rule: list.induct)
  case Nil
  then show ?case by (auto elim: zstr.cases)
next
  case (Cons c w)
  obtain g gap' where gap: "gap = g # gap'" using Cons.prems(3) by (cases gap) auto
  let ?nxt = "length pre + length gap"
  let ?e = "(pre @ [c]) @ (gap' @ [c]) @ w @ 0 # rest"
  have nx: "?nxt < length e" "e ! ?nxt = c" using Cons.prems(2) by (simp_all add: nth_append)
  have w: "wr e (length pre) c = Some ?e" using Cons.prems(2) gap by simp
  have at: "?e ! length pre = c" by (simp add: nth_append)
  show ?case
  proof (cases w)
    case Nil
    then have c: "c = 0" using Cons.prems(1) by (auto elim: zstr_ConsE zstr.cases)
    have "rd ?e (?nxt + 1) = Some 0" using Nil gap by (simp add: nth_append)
    then have "shift_down e (length pre) ?nxt = Some (?e, length pre)"
      using nx w at c by (subst shift_down.simps) simp
    then show ?thesis using Nil Cons.prems(2) gap by (intro exI [of _ "gap' @ [c] @ 0 # rest"]) simp
  next
    case (Cons d w')
    have z: "zstr w" using Cons.prems(1) Cons by (auto elim: zstr_ConsE)
    have nz: "\<not> (c = 0 \<and> d = 0)" using Cons.prems(1) Cons by (auto elim: zstr_ConsE)
    have "rd ?e (?nxt + 1) = Some d" using Cons gap by (simp add: nth_append)
    then have eq: "shift_down e (length pre) ?nxt = shift_down ?e (length pre + 1) (?nxt + 1)"
      using nx w at nz by (subst shift_down.simps) auto
    have "\<exists>post. shift_down ?e (length (pre @ [c])) (length (pre @ [c]) + length (gap' @ [c])) =
        Some ((pre @ [c]) @ w @ post, length (pre @ [c]) + length w - 1) \<and>
        length ((pre @ [c]) @ w @ post) = length ?e"
      by (rule Cons.IH [OF z refl]) simp
    then obtain post where "shift_down ?e (length pre + 1) (?nxt + 1) =
        Some (pre @ (c # w) @ post, length pre + length w)" "length (pre @ (c # w) @ post) = length ?e"
      using gap by auto
    then show ?thesis using eq Cons.prems(2) gap by (intro exI [of _ post]) simp
  qed
qed

lemma wr_at: "wr (pre @ x # post) (length pre) y = Some (pre @ y # post)"
  by simp

lemma delete_rep:
  assumes "env_rep e (xs @ (name, v) # ys)"
  shows "\<exists>e'. delete_entry e (length (flat xs)) (length (flat xs) + length (entry (name, v))) = Some e' \<and>
    env_rep e' (xs @ ys) \<and> length e' = length e"
proof -
  let ?v = "entry (name, v)"
  obtain pad where e: "e = flat xs @ (?v @ [0]) @ flat ys @ 0 # pad"
    and ok: "\<forall>kv \<in> set (xs @ ys). var_ok kv"
    using assms by (auto simp: env_rep_def)
  let ?env = "length (flat xs)" and ?nxt = "length (flat xs) + length ?v"
  obtain a v' where v': "?v @ [0] = a # 0 # v' \<or> (\<exists>b. ?v @ [0] = a # b # v')"
    by (cases ?v) (auto simp: neq_Nil_conv, metis append_Cons append_Nil list.exhaust)
  then obtain b where ab: "?v @ [0] = a # b # v'" by auto
  show ?thesis
  proof (cases "ys = []")
    case True
    have c: "rd e (?nxt + 1) = Some 0" using e True by (simp add: nth_append)
    show ?thesis
    proof (cases "xs = []")
      case True
      have e2: "e = a # b # v' @ 0 # pad" using e ab True \<open>ys = []\<close> by simp
      have "delete_entry e ?env ?nxt = Some (0 # 0 # v' @ 0 # pad)"
        using c True e2 by (simp add: delete_entry_def)
      then show ?thesis using True \<open>ys = []\<close> e2 by (auto simp: env_rep_def)
    next
      case False
      then have "0 < ?env" by simp
      have e2: "e = flat xs @ a # b # v' @ 0 # pad" using e ab True by simp
      have "wr e ?env 0 = Some (flat xs @ 0 # b # v' @ 0 # pad)" unfolding e2 by (rule wr_at)
      then have "delete_entry e ?env ?nxt = Some (flat xs @ 0 # b # v' @ 0 # pad)"
        using c \<open>0 < ?env\<close> by (simp add: delete_entry_def)
      then show ?thesis using False True ok e2 by (auto simp: env_rep_def)
    qed
  next
    case False
    have z: "zstr (flat ys)" "hd (flat ys) \<noteq> 0" using zstr_flat [OF False] ok by auto
    have "rd e (?nxt + 1) = Some (hd (flat ys))"
      using e z by (cases "flat ys") (auto simp: nth_append elim: zstr.cases)
    then have d: "delete_entry e ?env ?nxt = do { (e, env) \<leftarrow> shift_down e ?env (?nxt + 1); wr e (env + 1) 0 }"
      using z(2) by (simp add: delete_entry_def)
    from shift_down_at [OF z(1) e] obtain post where
      s: "shift_down e ?env (?nxt + 1) = Some (flat xs @ flat ys @ post, ?env + length (flat ys) - 1)"
      "length (flat xs @ flat ys @ post) = length e" by auto
    have "length post = length (?v @ [0]) + Suc (length pad)" using s(2) e by simp
    then obtain x post' where pst: "post = x # post'" by (cases post) auto
    have "0 < length (flat ys)" using False by simp
    then have "delete_entry e ?env ?nxt = Some (flat xs @ flat ys @ 0 # post')"
      using d s(1) wr_at [of "flat xs @ flat ys" x post' 0] pst by simp
    then show ?thesis using False ok s(2) pst by (auto simp: env_rep_def)
  qed
qed

section \<open>Appending\<close>

lemma env_end_at:
  assumes "zstr w" and "e = pre @ w @ 0 # rest"
  shows "env_end e (length pre) = Some (length pre + length w - 1)"
  using assms
proof (induction w arbitrary: pre rule: list.induct)
  case Nil
  then show ?case by (auto elim: zstr.cases)
next
  case (Cons c w)
  have c: "length pre < length e" "e ! length pre = c" using Cons.prems(2) by simp_all
  show ?case
  proof (cases w)
    case Nil
    then have "c = 0" using Cons.prems(1) by (auto elim: zstr_ConsE zstr.cases)
    then show ?thesis using c Nil Cons.prems(2) by (subst env_end.simps) (simp add: nth_append)
  next
    case (Cons d w')
    have z: "zstr w" using Cons.prems(1) Cons by (auto elim: zstr_ConsE)
    have nz: "\<not> (c = 0 \<and> d = 0)" using Cons.prems(1) Cons by (auto elim: zstr_ConsE)
    have "rd e (length pre + 1) = Some d" using Cons Cons.prems(2) by (simp add: nth_append)
    then have eq: "env_end e (length pre) = env_end e (length (pre @ [c]))"
      using c nz by (subst env_end.simps) auto
    have "env_end e (length (pre @ [c])) = Some (length (pre @ [c]) + length w - 1)"
      using Cons.prems(2) by (intro Cons.IH [OF z]) simp
    then show ?thesis using eq Cons by simp
  qed
qed

lemma store_str_at:
  "length cs < length post \<Longrightarrow> store_str (pre @ post) (length pre) cs =
     Some (pre @ cs @ 0 # drop (length cs + 1) post, length pre + length cs)"
proof (induction cs arbitrary: pre post)
  case Nil
  then show ?case by (cases post) auto
next
  case (Cons c cs)
  then obtain x post' where p: "post = x # post'" by (cases post) auto
  have "store_str (pre @ post) (length pre) (c # cs) = store_str ((pre @ [c]) @ post') (length (pre @ [c])) cs"
    using p by simp
  also have "\<dots> = Some ((pre @ [c]) @ cs @ 0 # drop (length cs + 1) post', length (pre @ [c]) + length cs)"
    using Cons.prems p by (intro Cons.IH) simp
  finally show ?case using p by simp
qed

definition args_text :: "byte \<Rightarrow> byte list list \<Rightarrow> byte list" where
  "args_text sep vals = concat (map2 (#) (sep # replicate (length vals) 32) vals)"

lemma args_text_simps [simp]: "args_text sep [] = []" "args_text sep (v # vs) = sep # v @ args_text 32 vs"
  by (simp_all add: args_text_def)

lemma store_args_at:
  "vals \<noteq> [] \<Longrightarrow> length (args_text sep vals) \<le> length post \<Longrightarrow>
     store_args (pre @ x # post) (length pre) sep vals =
       Some (pre @ args_text sep vals @ 0 # drop (length (args_text sep vals)) post,
         length pre + length (args_text sep vals))"
proof (induction vals arbitrary: pre sep x post)
  case (Cons v vals)
  have l: "length v < length post" using Cons.prems by simp
  have "store_str ((pre @ [sep]) @ post) (length (pre @ [sep])) v =
      Some ((pre @ [sep]) @ v @ 0 # drop (length v + 1) post, length (pre @ [sep]) + length v)"
    by (rule store_str_at [OF l])
  then have eq: "store_args (pre @ x # post) (length pre) sep (v # vals) =
      store_args ((pre @ sep # v) @ 0 # drop (length v + 1) post) (length (pre @ sep # v)) 32 vals"
    by simp
  show ?case
  proof (cases "vals = []")
    case True
    then show ?thesis using eq by simp
  next
    case False
    have "store_args ((pre @ sep # v) @ 0 # drop (length v + 1) post) (length (pre @ sep # v)) 32 vals =
        Some ((pre @ sep # v) @ args_text 32 vals @ 0 # drop (length (args_text 32 vals)) (drop (length v + 1) post),
          length (pre @ sep # v) + length (args_text 32 vals))"
      using Cons.prems by (intro Cons.IH False) simp
    then show ?thesis using eq by (simp add: add.commute)
  qed
qed simp

lemma fold_length: "fold (\<lambda>v n. n + length v + 1) vals k = k + length (args_text sep vals)"
proof -
  have "length (args_text sep vals) = sum_list (map (\<lambda>v. length v + 1) vals)"
    by (induction vals arbitrary: sep) simp_all
  moreover have "fold (\<lambda>v n. n + length v + 1) vals k = k + sum_list (map (\<lambda>v. length v + 1) vals)"
    by (induction vals arbitrary: k) simp_all
  ultimately show ?thesis by simp
qed

definition joined :: "byte list list \<Rightarrow> byte list" where
  "joined vals = tl (args_text 61 vals)"

lemma args_text_joined: "vals \<noteq> [] \<Longrightarrow> args_text 61 vals = 61 # joined vals"
  by (cases vals) (simp_all add: joined_def)

lemma flat_length_pos: "kvs \<noteq> [] \<Longrightarrow> 1 < length (flat kvs)"
  by (cases kvs) (simp_all add: entry_def)

text \<open>The room an entry needs.\<close>

definition used :: "var list \<Rightarrow> nat" where
  "used kvs = length (flat kvs)"

lemma append_rep:
  assumes rep: "env_rep e kvs" and vals: "vals \<noteq> []" and ok: "var_ok (name, joined vals)"
  shows "if used kvs + length name + length (joined vals) + 3 \<le> length e
    then \<exists>e'. append_entry e name vals = Some (Some e') \<and> env_rep e' (kvs @ [(name, joined vals)]) \<and>
      length e' = length e
    else append_entry e name vals = Some None"
proof -
  obtain pad where e: "e = (if kvs = [] then [0] else flat kvs) @ 0 # pad"
    and kok: "\<forall>kv \<in> set kvs. var_ok kv" using rep by (auto simp: env_rep_def)
  obtain t where t: "e = flat kvs @ t" "2 \<le> length t \<or> kvs \<noteq> []"
    using e by (cases "kvs = []") auto
  let ?w = "if kvs = [] then [0] else flat kvs"
  have z: "zstr ?w" using zstr_flat [OF _ kok] by (auto intro: zlast)
  define x where "x = length ?w - 1"
  have ee: "env_end e 0 = Some x" using env_end_at [OF z, of e "[]"] e by (simp add: x_def)
  have n: "(if 0 < x then x + 1 else x) = length (flat kvs)"
    using flat_length_pos [of kvs] by (cases "kvs = []") (auto simp: x_def)
  let ?txt = "name @ args_text 61 vals"
  have len: "fold (\<lambda>v n. n + length v + 1) vals (length name + 2) = length ?txt + 2"
    using fold_length [of vals "length name + 2" 61] by simp
  have at: "length (args_text 61 vals) = length (joined vals) + 1"
    using args_text_joined [OF vals] by simp
  have le: "length e - length (flat kvs) = length t" using t(1) by simp
  have ae: "append_entry e name vals = (if length t < length ?txt + 2 then Some None
      else do { (e, env) \<leftarrow> store_str e (length (flat kvs)) name;
        (e, env) \<leftarrow> store_args e env 61 vals; e \<leftarrow> wr e (env + 1) 0; Some (Some e) })"
    unfolding append_entry_def ee Option.bind.simps Let_def n len le ..
  show ?thesis
  proof (cases "length ?txt + 2 \<le> length t")
    case False
    then have "append_entry e name vals = Some None" using ae by simp
    moreover have "\<not> used kvs + length name + length (joined vals) + 3 \<le> length e"
      using False t(1) at by (simp add: used_def)
    ultimately show ?thesis by simp
  next
    case True
    have "store_str e (length (flat kvs)) name =
        Some (flat kvs @ name @ 0 # drop (length name + 1) t, length (flat kvs) + length name)"
      unfolding t(1) using True by (intro store_str_at) simp
    moreover have "store_args ((flat kvs @ name) @ 0 # drop (length name + 1) t) (length (flat kvs @ name)) 61 vals =
        Some ((flat kvs @ name) @ args_text 61 vals @ 0 # drop (length (args_text 61 vals)) (drop (length name + 1) t),
          length (flat kvs @ name) + length (args_text 61 vals))"
      using True vals by (intro store_args_at) simp_all
    moreover have "length (args_text 61 vals) < length (drop (length name + 1) t)" using True by simp
    then obtain y post where p: "drop (length (args_text 61 vals)) (drop (length name + 1) t) = y # post"
      by (metis Cons_nth_drop_Suc)
    moreover have "wr ((flat kvs @ ?txt @ [0]) @ y # post) (length (flat kvs @ ?txt @ [0])) 0 =
        Some ((flat kvs @ ?txt @ [0]) @ 0 # post)" by (rule wr_at)
    ultimately have a: "append_entry e name vals = Some (Some ((flat kvs @ ?txt @ [0]) @ 0 # post))"
      using ae True by (simp add: add.assoc)
    have lp: "length post + length (args_text 61 vals) + length name + 2 = length t"
      using arg_cong [OF p, of length] True by simp
    have "env_rep ((flat kvs @ ?txt @ [0]) @ 0 # post) (kvs @ [(name, joined vals)])"
      using kok ok args_text_joined [OF vals] by (auto simp: env_rep_def entry_def)
    moreover have "length ((flat kvs @ ?txt @ [0]) @ 0 # post) = length e" using lp t(1) by simp
    moreover have "used kvs + length name + length (joined vals) + 3 \<le> length e"
      using True t(1) at by (simp add: used_def)
    ultimately show ?thesis using a by auto
  qed
qed

end
