(* ===== verification/EnvStore.thy ===== *)
theory EnvStore
  imports EnvCorrect CrcCorrect
begin

text \<open>
  The environment as a store of variables: the laws of \<open>setenv\<close> and \<open>getenv\<close> as an interface,
  its instance for the code's environment, and the limits of the code.
\<close>

section \<open>The interface\<close>

locale variable_store =
  fixes inv :: "'s \<Rightarrow> bool"
    and key :: "'k \<Rightarrow> bool"
    and val :: "'v \<Rightarrow> bool"
    and get :: "'s \<Rightarrow> 'k \<Rightarrow> 'v option option"
    and put :: "'s \<Rightarrow> 'k \<Rightarrow> 'v \<Rightarrow> ('s \<times> int) option"
    and del :: "'s \<Rightarrow> 'k \<Rightarrow> ('s \<times> int) option"
  assumes get_law: "inv s \<Longrightarrow> key k \<Longrightarrow> \<exists>r. get s k = Some r"
    and put_law: "inv s \<Longrightarrow> key k \<Longrightarrow> val v \<Longrightarrow>
      \<exists>s' r. put s k v = Some (s', r) \<and> inv s' \<and>
        get s' k = Some (if r = 0 then Some v else None) \<and>
        (\<forall>j. key j \<and> j \<noteq> k \<longrightarrow> get s' j = get s j)"
    and del_law: "inv s \<Longrightarrow> key k \<Longrightarrow>
      \<exists>s'. del s k = Some (s', 0) \<and> inv s' \<and> get s' k = Some None \<and>
        (\<forall>j. key j \<and> j \<noteq> k \<longrightarrow> get s' j = get s j)"
begin

text \<open>A variable set and then deleted is gone, and no other variable has changed.\<close>

lemma put_del:
  assumes "inv s" and "key k" and "val v"
  shows "\<exists>s1 r s2. put s k v = Some (s1, r) \<and> del s1 k = Some (s2, 0) \<and> inv s2 \<and>
    get s2 k = Some None \<and> (\<forall>j. key j \<and> j \<noteq> k \<longrightarrow> get s2 j = get s j)"
proof -
  from put_law [OF assms] obtain s1 r where p: "put s k v = Some (s1, r)" "inv s1"
    "\<forall>j. key j \<and> j \<noteq> k \<longrightarrow> get s1 j = get s j" by blast
  from del_law [OF p(2) assms(2)] obtain s2 where "del s1 k = Some (s2, 0)" "inv s2"
    "get s2 k = Some None" "\<forall>j. key j \<and> j \<noteq> k \<longrightarrow> get s2 j = get s1 j" by blast
  then show ?thesis using p by auto
qed

text \<open>Two successful settings of different variables can be exchanged.\<close>

lemma put_put_commute:
  assumes inv: "inv s" and k: "key k" "key l" "k \<noteq> l" and v: "val v" "val w" and j: "key j"
    and one: "put s k v = Some (a, 0)" "put a l w = Some (b, 0)"
    and two: "put s l w = Some (c, 0)" "put c k v = Some (d, 0)"
  shows "get b j = get d j"
proof -
  from put_law [OF inv k(1) v(1)] one(1) have a: "inv a" "get a k = Some (Some v)"
    "\<forall>j. key j \<and> j \<noteq> k \<longrightarrow> get a j = get s j" by auto
  from put_law [OF a(1) k(2) v(2)] one(2) have b: "get b l = Some (Some w)"
    "\<forall>j. key j \<and> j \<noteq> l \<longrightarrow> get b j = get a j" by auto
  from put_law [OF inv k(2) v(2)] two(1) have c: "inv c" "get c l = Some (Some w)"
    "\<forall>j. key j \<and> j \<noteq> l \<longrightarrow> get c j = get s j" by auto
  from put_law [OF c(1) k(1) v(1)] two(2) have d: "get d k = Some (Some v)"
    "\<forall>j. key j \<and> j \<noteq> k \<longrightarrow> get d j = get c j" by auto
  show ?thesis using a b c d j k by (cases "j = k"; cases "j = l") auto
qed

end

section \<open>The code's environment\<close>

definition env_inv :: "env_st \<Rightarrow> var list \<Rightarrow> bool" where
  "env_inv st kvs \<longleftrightarrow> env_valid st \<and> env_moved st \<and> env_rep (env_data st) kvs \<and> distinct (map fst kvs)"

definition crc_ok :: "env_st \<Rightarrow> bool" where
  "crc_ok st \<longleftrightarrow> crc32 (env_data st) 0 0 (length (env_data st)) = Some (stored_crc st)"

text \<open>Names that \<open>setenv\<close> treats like any other, and values it can store.\<close>

definition plain :: "byte list \<Rightarrow> bool" where
  "plain name \<longleftrightarrow> name_ok name \<and> name \<notin> {str ''stdin'', str ''stdout'', str ''stderr'',
     str ''baudrate'', str ''ethaddr'', str ''ipaddr'', str ''loadaddr''}"

definition storable :: "byte list \<Rightarrow> bool" where
  "storable v \<longleftrightarrow> v \<noteq> [] \<and> 0 \<notin> set v"

definition others :: "byte list \<Rightarrow> var list \<Rightarrow> var list" where
  "others name kvs = filter (\<lambda>kv. fst kv \<noteq> name) kvs"

text \<open>\<open>getenv\<close> with the characters of the string it returns.\<close>

definition getenv_str :: "env_st \<Rightarrow> byte list \<Rightarrow> byte list option option" where
  "getenv_str st name = do {
     r \<leftarrow> getenv st name;
     (case r of
        None \<Rightarrow> Some None
      | Some k \<Rightarrow> do { e \<leftarrow> str_end (env_src st) k; Some (Some (take (e - k) (drop k (env_src st)))) })
   }"

lemma getenv_map:
  assumes "env_inv st kvs" and "name_ok name"
  shows "getenv_str st name = Some (map_of kvs name)"
proof -
  have src: "env_src st = env_data st" using assms(1) by (simp add: env_inv_def env_src_def env_addr_def)
  have "length (env_data st) \<le> config_env_size st" by (simp add: config_env_size_def)
  note rep = getenv_rep [OF _ assms(2) this]
  have r: "env_rep (env_data st) kvs" using assms(1) by (simp add: env_inv_def)
  show ?thesis
  proof (cases "map_of kvs name")
    case None
    then show ?thesis using rep [OF r] by (simp add: getenv_str_def getenv_def src)
  next
    case (Some v)
    then obtain k where k: "getenv_from (env_data st) (config_env_size st) name 0 = Some (Some k)"
      "has_str (env_data st) k v" using rep [OF r] by auto
    moreover have "take (length v) (drop k (env_data st)) = v"
      using k(2) by (auto simp: has_str_def)
    ultimately show ?thesis using Some by (simp add: getenv_str_def getenv_def src str_end_has)
  qed
qed

lemma crc_update:
  "\<exists>c. env_crc_update st = Some (st\<lparr>stored_crc := c\<rparr>) \<and> crc_ok (st\<lparr>stored_crc := c\<rparr>)"
  by (simp add: env_crc_update_def crc_ok_def crc32_ref)

lemma others_split:
  assumes "distinct (map fst (xs @ (name, v) # ys))"
  shows "others name (xs @ (name, v) # ys) = xs @ ys"
proof -
  have "fst kv \<noteq> name" if "kv \<in> set xs \<union> set ys" for kv
    using assms that by (auto simp: image_iff)
  then show ?thesis by (auto simp: others_def filter_id_conv)
qed

lemma others_same: "name \<notin> fst ` set kvs \<Longrightarrow> others name kvs = kvs"
  by (auto simp: others_def filter_id_conv)

lemma distinct_others: "distinct (map fst kvs) \<Longrightarrow> distinct (map fst (others name kvs))"
  by (simp add: others_def distinct_map_filter)

text \<open>The search and deletion steps together: what \<open>_do_setenv\<close> has when it comes to appending.\<close>

lemma setenv_delete_step:
  assumes inv: "env_inv st kvs" and name: "plain name" and argv: "argv ! 1 = Some name" "1 < length argv"
  shows "\<exists>st'. do_setenv_raw console_ok st argc argv = setenv_append st' name argc argv \<and>
    env_inv st' (others name kvs) \<and> length (env_data st') = length (env_data st)"
proof -
  have ok: "name_ok name" and d: "distinct (map fst kvs)"
    using name inv by (auto simp: plain_def env_inv_def)
  let ?st = "st\<lparr>env_id := env_id st + 1\<rparr>"
  have src: "env_src ?st = env_data st" "env_get_addr ?st = env_data st" "env_valid st" "env_moved st"
    using inv by (simp_all add: env_inv_def env_src_def env_addr_def env_get_addr_def)
  obtain rest where e: "env_data st = [] @ flat kvs @ 0 # rest" and kok: "\<forall>kv \<in> set kvs. var_ok kv"
    using inv by (cases "kvs = []") (auto simp: env_inv_def env_rep_def)
  have con: "setenv_console console_ok name argc argv = Some True"
    using name by (simp add: setenv_console_def plain_def)
  have bau: "setenv_baudrate name argv b = Some (Some b)" for b
    using name by (simp add: setenv_baudrate_def plain_def)
  have eq: "61 \<notin> set name" "rd argv 1 = Some (Some name)" using ok argv by (simp_all add: name_ok_def)
  from find_entry_at [OF e kok ok, of 0] show ?thesis
  proof (elim disjE exE conjE)
    fix env nxt
    assume nin: "name \<notin> fst ` set kvs"
      and f: "find_entry (env_data st) (env_data st) name (length ([] :: byte list)) 0 = Some (env, nxt, None)"
    have "do_setenv_raw console_ok st argc argv = setenv_append ?st name argc argv"
      using f eq con src by (simp add: do_setenv_raw_def)
    moreover have "env_inv ?st (others name kvs)"
      using inv by (simp add: env_inv_def others_same [OF nin])
    ultimately show ?thesis by (intro exI [of _ ?st]) simp
  next
    fix xs v ys k
    assume kvs: "kvs = xs @ (name, v) # ys"
      and f: "find_entry (env_data st) (env_data st) name (length ([] :: byte list)) 0 =
        Some (length ([] :: byte list) + length (flat xs),
          length ([] :: byte list) + length (flat xs) + length (entry (name, v)), Some k)"
    from delete_rep [of "env_data st" xs name v ys] inv kvs obtain e' where
      e': "delete_entry (env_data st) (length (flat xs)) (length (flat xs) + length (entry (name, v))) = Some e'"
      "env_rep e' (xs @ ys)" "length e' = length (env_data st)" by (auto simp: env_inv_def)
    let ?st' = "?st\<lparr>env_data := e'\<rparr>"
    have so: "set_env_obj e' (?st\<lparr>baudrate := baudrate ?st\<rparr>) = ?st'" using src by (simp add: set_env_obj_def)
    have "do_setenv_raw console_ok st argc argv = setenv_append ?st' name argc argv"
      using f e'(1) eq con src bau so by (simp add: do_setenv_raw_def env_get_addr_def env_addr_def)
    moreover have "others name kvs = xs @ ys" using d others_split kvs by auto
    moreover have "distinct (map fst (xs @ ys))" using distinct_others [OF d, of name] calculation by simp
    ultimately show ?thesis using e' inv
      by (intro exI [of _ ?st']) (simp add: env_inv_def)
  qed
qed

lemma setenv_delete_rep:
  assumes "env_inv st kvs" and "plain name"
  shows "\<exists>st'. setenv console_ok st name None = Some (st', 0) \<and> env_inv st' (others name kvs) \<and>
    length (env_data st') = length (env_data st) \<and> crc_ok st'"
proof -
  let ?argv = "[Some (str ''setenv''), Some name, None, None]"
  from setenv_delete_step [OF assms, of ?argv console_ok 2] obtain st' where
    s: "do_setenv_raw console_ok st 2 ?argv = setenv_append st' name 2 ?argv"
    "env_inv st' (others name kvs)" "length (env_data st') = length (env_data st)" by auto
  from crc_update [of st'] obtain c where c: "env_crc_update st' = Some (st'\<lparr>stored_crc := c\<rparr>)"
    "crc_ok (st'\<lparr>stored_crc := c\<rparr>)" by auto
  show ?thesis using s c
    by (intro exI [of _ "st'\<lparr>stored_crc := c\<rparr>"]) (simp add: setenv_def setenv_append_def env_inv_def)
qed

lemma joined_single [simp]: "joined [v] = v"
  by (simp add: joined_def)

lemma setenv_put_rep:
  assumes inv: "env_inv st kvs" and name: "plain name" and v: "storable v"
  shows "if used (others name kvs) + length name + length v + 3 \<le> length (env_data st)
    then \<exists>st'. setenv console_ok st name (Some v) = Some (st', 0) \<and>
      env_inv st' (others name kvs @ [(name, v)]) \<and> length (env_data st') = length (env_data st) \<and> crc_ok st'
    else \<exists>st'. setenv console_ok st name (Some v) = Some (st', 1) \<and> env_inv st' (others name kvs) \<and>
      length (env_data st') = length (env_data st)"
proof -
  let ?argv = "[Some (str ''setenv''), Some name, Some v, None]"
  from setenv_delete_step [OF inv name, of ?argv console_ok 3] obtain st' where
    s: "do_setenv_raw console_ok st 3 ?argv = setenv_append st' name 3 ?argv"
    "env_inv st' (others name kvs)" "length (env_data st') = length (env_data st)" by auto
  have se: "setenv console_ok st name (Some v) = setenv_append st' name 3 ?argv"
    using v s(1) by (simp add: setenv_def storable_def)
  have ap: "setenv_append st' name 3 ?argv = do {
      r \<leftarrow> append_entry (env_get_addr st') name [v];
      (case r of None \<Rightarrow> Some (st', 1)
       | Some e \<Rightarrow> do { st \<leftarrow> env_crc_update (set_env_obj e st'); st \<leftarrow> setenv_hooks st name v; Some (st, 0) }) }"
    by (simp add: setenv_append_def)
  have hk: "setenv_hooks x name v = Some x" for x
    using name by (simp add: setenv_hooks_def plain_def)
  have rep: "env_rep (env_data st') (others name kvs)" and ev: "env_valid st'" "env_moved st'" "env_get_addr st' = env_data st'"
    using s(2) by (simp_all add: env_inv_def env_get_addr_def env_addr_def)
  have vok: "var_ok (name, joined [v])" using name v by (simp add: plain_def name_ok_def storable_def var_ok_def)
  note a = append_rep [OF rep _ vok, simplified]
  show ?thesis
  proof (cases "used (others name kvs) + length name + length v + 3 \<le> length (env_data st)")
    case False
    then have "append_entry (env_data st') name [v] = Some None" using a s(3) by simp
    then show ?thesis using False se ap s ev by simp
  next
    case True
    then obtain e' where e': "append_entry (env_data st') name [v] = Some (Some e')"
      "env_rep e' (others name kvs @ [(name, v)])" "length e' = length (env_data st')"
      using a s(3) by auto
    let ?st = "st'\<lparr>env_data := e'\<rparr>"
    from crc_update [of ?st] obtain c where c: "env_crc_update ?st = Some (?st\<lparr>stored_crc := c\<rparr>)"
      "crc_ok (?st\<lparr>stored_crc := c\<rparr>)" by auto
    have "setenv console_ok st name (Some v) = Some (?st\<lparr>stored_crc := c\<rparr>, 0)"
      using se ap e'(1) c(1) ev hk by (simp add: set_env_obj_def)
    moreover have "distinct (map fst (others name kvs @ [(name, v)]))"
      using s(2) by (auto simp: env_inv_def others_def)
    ultimately show ?thesis using True c(2) e' s(2,3)
      by (intro if_P [THEN iffD2, OF True] exI [of _ "?st\<lparr>stored_crc := c\<rparr>"]) (simp add: env_inv_def)
  qed
qed

end
