(* ===== verification/EnvProps.thy ===== *)
theory EnvProps
  imports EnvStore
begin

text \<open>
  The properties of the environment: \<open>setenv\<close> and \<open>getenv\<close> as a map, and \<open>getenv_r\<close> on every
  size of buffer.
\<close>

section \<open>The code's environment as a store of variables\<close>

definition env_wf :: "env_st \<Rightarrow> bool" where
  "env_wf st \<longleftrightarrow> (\<exists>kvs. env_inv st kvs)"

lemma map_of_others: "name \<noteq> key \<Longrightarrow> map_of (others name kvs) key = map_of kvs key"
  by (induction kvs) (auto simp: others_def)

lemma map_of_others_same: "map_of (others name kvs) name = None"
  by (auto simp: others_def map_of_eq_None_iff)

lemma map_of_append_other: "name \<noteq> key \<Longrightarrow> map_of (kvs @ [(name, v)]) key = map_of kvs key"
  by (simp add: map_add_def split: option.splits)

lemma map_of_append_same: "map_of kvs name = None \<Longrightarrow> map_of (kvs @ [(name, v)]) name = Some v"
  by (simp add: map_add_def)

lemma plain_name_ok: "plain name \<Longrightarrow> name_ok name"
  by (simp add: plain_def)

lemmas others_maps = map_of_others map_of_others_same map_of_append_other map_of_append_same

lemma setenv_put_cases:
  assumes inv: "env_inv st kvs" and name: "plain name" and v: "storable v"
  obtains (set) st' where "setenv console_ok st name (Some v) = Some (st', 0)" "crc_ok st'"
      "env_inv st' (others name kvs @ [(name, v)])" "length (env_data st') = length (env_data st)"
      "used (others name kvs) + length name + length v + 3 \<le> length (env_data st)"
    | (full) st' where "setenv console_ok st name (Some v) = Some (st', 1)"
      "env_inv st' (others name kvs)" "length (env_data st') = length (env_data st)"
      "length (env_data st) < used (others name kvs) + length name + length v + 3"
  using setenv_put_rep [OF assms, of console_ok] by (auto split: if_splits)

interpretation env_store: variable_store env_wf plain storable getenv_str
  "\<lambda>st k v. setenv console_ok st k (Some v)" "\<lambda>st k. setenv console_ok st k None"
  for console_ok
proof unfold_locales
  fix st k
  assume "env_wf st" "plain k"
  then obtain kvs where inv: "env_inv st kvs" by (auto simp: env_wf_def)
  show "\<exists>r. getenv_str st k = Some r" using getenv_map [OF inv plain_name_ok] \<open>plain k\<close> by blast
  from setenv_delete_rep [OF inv \<open>plain k\<close>, of console_ok] obtain st' where
    s: "setenv console_ok st k None = Some (st', 0)" "env_inv st' (others k kvs)" by auto
  show "\<exists>s'. setenv console_ok st k None = Some (s', 0) \<and> env_wf s' \<and> getenv_str s' k = Some None \<and>
      (\<forall>j. plain j \<and> j \<noteq> k \<longrightarrow> getenv_str s' j = getenv_str st j)"
    using s getenv_map [OF s(2) plain_name_ok] getenv_map [OF inv plain_name_ok] \<open>plain k\<close>
    by (intro exI [of _ st']) (auto simp: env_wf_def others_maps)
next
  fix st k v
  assume a: "env_wf st" "plain k" "storable v"
  then obtain kvs where inv: "env_inv st kvs" by (auto simp: env_wf_def)
  note old = getenv_map [OF inv plain_name_ok]
  show "\<exists>s' r. setenv console_ok st k (Some v) = Some (s', r) \<and> env_wf s' \<and>
      getenv_str s' k = Some (if r = 0 then Some v else None) \<and>
      (\<forall>j. plain j \<and> j \<noteq> k \<longrightarrow> getenv_str s' j = getenv_str st j)"
    using inv a(2,3)
  proof (cases rule: setenv_put_cases [where console_ok = console_ok])
    case (set st')
    show ?thesis using set(1,3) a(2) old getenv_map [OF set(3) plain_name_ok]
      by (intro exI [of _ st'] exI [of _ 0]) (auto simp: env_wf_def others_maps simp del: map_of_append)
  next
    case (full st')
    show ?thesis using full(1,2) a(2) old getenv_map [OF full(2) plain_name_ok]
      by (intro exI [of _ st'] exI [of _ 1]) (auto simp: env_wf_def others_maps)
  qed
qed

section \<open>Copying a value out\<close>

lemma wr_upd: "i < length m \<Longrightarrow> wr m i x = Some (m[i := x])"
  by (simp add: wr_def)

lemma copy_value_has:
  assumes "has_str e val v" and "n \<le> length buf"
  shows "copy_value e buf (length buf) val n =
    (if n + length v < length buf
     then Some (n + length v + 1, n + length v + 1, take n buf @ v @ 0 # drop (n + length v + 1) buf)
     else Some (length buf + 1, length buf, take n buf @ take (length buf - n) v))"
  using assms
proof (induction v arbitrary: val n buf)
  case Nil
  then have "rd e val = Some 0" by (simp add: has_str_Nil rd_def)
  then show ?case using Nil
    by (subst copy_value.simps) (auto simp: wr_upd upd_conv_take_nth_drop)
next
  case (Cons c v)
  from Cons.prems have c: "rd e val = Some c" "c \<noteq> 0" "has_str e (val + 1) v"
    by (simp_all add: has_str_Cons rd_def)
  show ?case
  proof (cases "n < length buf")
    case False
    then show ?thesis using Cons.prems(2) by (subst copy_value.simps) simp
  next
    case True
    have "take (n + 1) (buf[n := c]) = take n buf @ [c]"
      using True by (simp add: take_Suc_conv_app_nth)
    then show ?thesis
      using Cons.IH [OF c(3), of "n + 1" "buf[n := c]"] True c
      by (subst copy_value.simps) (simp add: wr_upd take_Cons' )
  qed
qed

section \<open>The properties\<close>

definition env1 :: env_st where
  "env1 = \<lparr>env_data = [97, 61, 49, 0, 0, 0, 0, 0, 0, 0, 0, 0], stored_crc = 0, env_valid = True,
     reloc = False, env_moved = True, default_environment = [98, 61, 50, 0, 0], env_id = 1,
     baudrate = 115200, ip_addr = 0, load_addr = 0\<rparr>"

lemma env1_inv: "env_inv env1 [([97], [49])]"
  by (auto simp: env1_def env_inv_def env_rep_def flat_def entry_def var_ok_def)

lemma env1_plain: "plain [98]" "plain [97]" "plain [99]"
  by (simp_all add: plain_def name_ok_def str_def)

lemma env1_storable: "storable [50, 51]" "storable [52]"
  by (simp_all add: storable_def)

text \<open>C6. A variable that fits is set: \<open>setenv\<close> returns 0, the image holds the entry behind the
  others, its checksum is valid and \<open>getenv\<close> finds the value; one that does not fit is refused
  with 1, and its old value is then gone.\<close>

theorem setenv_stores:
  assumes "env_inv st kvs" and "plain name" and "storable v"
  shows "if used (others name kvs) + length name + length v + 3 \<le> length (env_data st)
    then \<exists>st'. setenv console_ok st name (Some v) = Some (st', 0) \<and>
      env_inv st' (others name kvs @ [(name, v)]) \<and> crc_ok st' \<and> getenv_str st' name = Some (Some v)
    else \<exists>st'. setenv console_ok st name (Some v) = Some (st', 1) \<and>
      env_inv st' (others name kvs) \<and> getenv_str st' name = Some None"
proof (cases rule: setenv_put_cases [where console_ok = console_ok, OF assms])
  case (1 st')
  then show ?thesis using getenv_map [OF 1(3) plain_name_ok [OF assms(2)]]
    by (simp add: others_maps del: map_of_append)
next
  case (2 st')
  then show ?thesis using getenv_map [OF 2(2) plain_name_ok [OF assms(2)]]
    by (simp add: others_maps)
qed

lemma setenv_stores_witness:
  "(\<exists>st'. setenv (\<lambda>_ _. True) env1 [98] (Some [50, 51]) = Some (st', 0) \<and>
      env_inv st' [([97], [49]), ([98], [50, 51])] \<and> crc_ok st' \<and>
      getenv_str st' [98] = Some (Some [50, 51])) \<and>
   (\<exists>st'. setenv (\<lambda>_ _. True) env1 [97] (Some (replicate 20 50)) = Some (st', 1) \<and>
      env_inv st' [] \<and> getenv_str st' [97] = Some None)"
  using setenv_stores [OF env1_inv env1_plain(1) env1_storable(1), of "\<lambda>_ _. True"]
    setenv_stores [OF env1_inv env1_plain(2), of "replicate 20 50" "\<lambda>_ _. True"]
  by (simp add: used_def others_def flat_def entry_def env1_def storable_def)

text \<open>Two settings of different variables that both succeed can be exchanged: every variable
  reads the same afterwards.\<close>

theorem setenv_commutes:
  assumes "env_wf st" and "plain k" "plain l" "k \<noteq> l" and "storable v" "storable w" and "plain j"
    and "setenv con st k (Some v) = Some (a, 0)" "setenv con a l (Some w) = Some (b, 0)"
    and "setenv con st l (Some w) = Some (c, 0)" "setenv con c k (Some v) = Some (d, 0)"
  shows "getenv_str b j = getenv_str d j"
  by (rule env_store.put_put_commute) (use assms in auto)

lemma env1_sets:
  "\<exists>a b c d. setenv (\<lambda>_ _. True) env1 [98] (Some [52]) = Some (a, 0) \<and>
    setenv (\<lambda>_ _. True) a [97] (Some [50, 51]) = Some (b, 0) \<and>
    setenv (\<lambda>_ _. True) env1 [97] (Some [50, 51]) = Some (c, 0) \<and>
    setenv (\<lambda>_ _. True) c [98] (Some [52]) = Some (d, 0)"
proof -
  have len: "length (env_data env1) = 12" by (simp add: env1_def)
  note put = setenv_put_rep [where console_ok = "\<lambda>_ _. True"]
  from put [OF env1_inv env1_plain(1) env1_storable(2)] len obtain a where
    a: "setenv (\<lambda>_ _. True) env1 [98] (Some [52]) = Some (a, 0)"
    "env_inv a [([97], [49]), ([98], [52])]" "length (env_data a) = 12"
    by (auto simp: used_def others_def flat_def entry_def)
  from put [OF env1_inv env1_plain(2) env1_storable(1)] len obtain c where
    c: "setenv (\<lambda>_ _. True) env1 [97] (Some [50, 51]) = Some (c, 0)"
    "env_inv c [([97], [50, 51])]" "length (env_data c) = 12"
    by (auto simp: used_def others_def flat_def entry_def)
  show ?thesis
    using a c put [OF a(2) env1_plain(2) env1_storable(1)] put [OF c(2) env1_plain(1) env1_storable(2)]
    by (auto simp: used_def others_def flat_def entry_def)
qed

lemma setenv_commutes_witness:
  "\<exists>a b c d. setenv (\<lambda>_ _. True) env1 [98] (Some [52]) = Some (a, 0) \<and>
    setenv (\<lambda>_ _. True) a [97] (Some [50, 51]) = Some (b, 0) \<and>
    setenv (\<lambda>_ _. True) env1 [97] (Some [50, 51]) = Some (c, 0) \<and>
    setenv (\<lambda>_ _. True) c [98] (Some [52]) = Some (d, 0) \<and> getenv_str b [97] = getenv_str d [97]"
proof -
  have w: "env_wf env1" using env1_inv by (auto simp: env_wf_def)
  from env1_sets obtain a b c d where
    s: "setenv (\<lambda>_ _. True) env1 [98] (Some [52]) = Some (a, 0)"
    "setenv (\<lambda>_ _. True) a [97] (Some [50, 51]) = Some (b, 0)"
    "setenv (\<lambda>_ _. True) env1 [97] (Some [50, 51]) = Some (c, 0)"
    "setenv (\<lambda>_ _. True) c [98] (Some [52]) = Some (d, 0)" by auto
  show ?thesis
    using s setenv_commutes [OF w env1_plain(1,2) _ env1_storable(2,1) env1_plain(2) s] by auto
qed

text \<open>\<open>getenv_r\<close> on every size of buffer: a value that leaves room for more than its
  terminator is copied with it; a value that fills the buffer to the last byte makes the code
  store a second terminator behind the buffer; a longer value is cut without a terminator and
  the result is one more than the size of the buffer.\<close>

theorem getenv_r_cases:
  assumes "env_inv st kvs" and "name_ok name" and "map_of kvs name = Some v"
  shows "getenv_r st name buf (length buf) =
    (if length v + 1 < length buf
     then Some (v @ 0 # drop (length v + 1) buf, int (length v + 1))
     else if length v + 1 = length buf then None
     else Some (take (length buf) v, int (length buf + 1)))"
proof -
  have r: "env_rep (env_data st) kvs" and src: "env_src st = env_data st"
    using assms(1) by (simp_all add: env_inv_def env_src_def env_addr_def)
  from getenv_rep [OF r assms(2), of "config_env_size st"] assms(3) obtain k where
    k: "getenv st name = Some (Some k)" "has_str (env_data st) k v"
    by (auto simp: getenv_def src config_env_size_def)
  note copy_value_has [OF k(2), of 0 buf, simplified]
  then show ?thesis using k(1) src by (auto simp: getenv_r_def wr_def)
qed

lemma getenv_r_cases_witness:
  "getenv_r env1 [97] [9, 9, 9] (length [9, 9, 9 :: byte]) = Some ([49, 0, 9], 2) \<and> getenv_r env1 [97] [9, 9] (length [9, 9 :: byte]) = None \<and>
   getenv_r env1 [97] [9] (length [9 :: byte]) = Some ([49], 2)"
  using getenv_r_cases [OF env1_inv, of "[97]" "[49]" "[9, 9, 9]"]
    getenv_r_cases [OF env1_inv, of "[97]" "[49]" "[9, 9]"]
    getenv_r_cases [OF env1_inv, of "[97]" "[49]" "[9]"]
  by (simp add: name_ok_def)

text \<open>Resetting to the built-in environment: when the default image fits, the variables are
  those of the default image, the environment is marked valid and its checksum matches.\<close>

theorem set_default_env_ok:
  assumes "env_rep (default_environment st) kvs"
    and "length (default_environment st) \<le> length (env_data st)" and "env_moved st"
    and "distinct (map fst kvs)" and "name_ok name"
  shows "\<exists>st'. set_default_env st = Some st' \<and> env_inv st' kvs \<and> crc_ok st' \<and>
    length (env_data st') = length (env_data st) \<and> getenv_str st' name = Some (map_of kvs name)"
proof -
  let ?d = "default_environment st @ replicate (length (env_data st) - length (default_environment st)) 0"
  from crc_update [of "st\<lparr>env_data := ?d\<rparr>"] obtain c where
    c: "env_crc_update (st\<lparr>env_data := ?d\<rparr>) = Some (st\<lparr>env_data := ?d, stored_crc := c\<rparr>)"
    "crc_ok (st\<lparr>env_data := ?d, stored_crc := c\<rparr>)" by auto
  let ?st = "st\<lparr>env_data := ?d, stored_crc := c, env_valid := True\<rparr>"
  have "env_rep ?d kvs" using assms(1) by (force simp: env_rep_def)
  then have inv: "env_inv ?st kvs" using assms(3,4) by (simp add: env_inv_def)
  moreover have "set_default_env st = Some ?st" using c(1) assms(2) by (simp add: set_default_env_def Let_def)
  moreover have "crc_ok ?st" using c(2) by (simp add: crc_ok_def)
  ultimately show ?thesis using getenv_map [OF inv assms(5)] assms(2) by auto
qed

lemma set_default_env_ok_witness:
  "\<exists>st'. set_default_env env1 = Some st' \<and> env_inv st' [([98], [50])] \<and> crc_ok st' \<and>
    length (env_data st') = length (env_data env1) \<and> getenv_str st' [98] = Some (Some [50])"
  using set_default_env_ok [of env1 "[([98], [50])]" "[98]"]
  by (simp add: env1_def env_rep_def flat_def entry_def var_ok_def name_ok_def)

text \<open>Deleting a variable: it is gone, the others stay, and the checksum is refreshed.\<close>

lemma setenv_deletes:
  assumes "env_inv st kvs" and "plain name"
  shows "\<exists>st'. setenv console_ok st name None = Some (st', 0) \<and> env_inv st' (others name kvs) \<and>
    crc_ok st' \<and> getenv_str st' name = Some None"
  using setenv_delete_rep [OF assms, of console_ok] getenv_map [OF _ plain_name_ok [OF assms(2)]]
  by (metis map_of_others_same)

text \<open>Deleting \<open>baudrate\<close> reads the missing third argument.\<close>

lemma setenv_baudrate_null:
  "setenv (\<lambda>_ _. True) (env1\<lparr>env_data := str ''baudrate'' @ [61, 57, 0, 0, 0]\<rparr>) (str ''baudrate'') None = None"
  by code_simp

end
