(* ===== verification/BlockHash.thy ===== *)
theory BlockHash
  imports Prelude
begin

text \<open>
  What the three hash functions of \<^verbatim>\<open>lib_generic\<close> (SHA-1, SHA-256, MD5) share: a message is cut
  into blocks of 64 bytes, each block is compressed into a state, the rest waits in a buffer, and
  the end is padded. The interface of an incremental hash and its law of chunks stand here.
\<close>

section \<open>Absorbing whole blocks\<close>

function absorb :: "('s \<Rightarrow> byte list \<Rightarrow> 's) \<Rightarrow> 's \<Rightarrow> byte list \<Rightarrow> 's" where
  "absorb f s bs = (if length bs < 64 then s else absorb f (f s (take 64 bs)) (drop 64 bs))"
  by pat_completeness auto
termination by (relation "measure (\<lambda>(f, s, bs). length bs)") auto

declare absorb.simps [simp del]

lemma absorb_short [simp]: "length bs < 64 \<Longrightarrow> absorb f s bs = s"
  by (simp add: absorb.simps)

lemma absorb_block: "length b = 64 \<Longrightarrow> absorb f s (b @ bs) = absorb f (f s b) bs"
  by (simp add: absorb.simps [of f s "b @ bs"])

definition pending :: "byte list \<Rightarrow> byte list" where
  "pending bs = drop (64 * (length bs div 64)) bs"

lemma pending_length [simp]: "length (pending bs) = length bs mod 64"
  by (simp add: pending_def minus_mult_div_eq_mod)

lemma pending_short [simp]: "length bs < 64 \<Longrightarrow> pending bs = bs"
  by (simp add: pending_def)

lemma pending_block: "length b = 64 \<Longrightarrow> pending (b @ bs) = pending bs"
  using div_add_self1 [of 64 "length bs"] by (simp add: pending_def)

lemma take_drop_append: "64 \<le> length bs \<Longrightarrow> bs = take 64 bs @ drop 64 bs \<and> length (take 64 bs) = 64"
  by simp

lemma absorb_append: "absorb f s (as @ bs) = absorb f (absorb f s as) (pending as @ bs)"
proof (induction f s as rule: absorb.induct)
  case (1 f s as)
  show ?case
  proof (cases "length as < 64")
    case False
    then obtain b cs where as: "as = b @ cs" "length b = 64"
      using take_drop_append [of as] by (metis not_less)
    have "absorb f s ((b @ cs) @ bs) = absorb f (f s b) (cs @ bs)"
      using as(2) by (simp add: absorb_block)
    then show ?thesis using 1 [OF False] as by (simp add: absorb_block pending_block)
  qed simp
qed

lemma pending_append: "pending (as @ bs) = pending (pending as @ bs)"
proof -
  let ?k = "64 * (length as div 64)"
  have a: "as @ bs = take ?k as @ pending as @ bs" "length (take ?k as) = ?k"
    by (simp_all add: pending_def)
  have "length as + length bs = length as div 64 * 64 + (length as mod 64 + length bs)"
    using div_mult_mod_eq [of "length as" 64] by linarith
  then have "(length as + length bs) div 64 = length as div 64 + (length as mod 64 + length bs) div 64"
    by (simp only: div_mult_self3)
  then have "length (as @ bs) div 64 = length as div 64 + length (pending as @ bs) div 64" by simp
  then show ?thesis using a by (subst a(1)) (simp add: pending_def distrib_left)
qed

text \<open>A buffer whose first bytes are the pending ones, filled up by the next input.\<close>

lemma absorb_fill:
  assumes "k = length m mod 64" and "64 - k \<le> length x"
  shows "absorb f s (pending m @ x) = absorb f (f s (pending m @ take (64 - k) x)) (drop (64 - k) x)"
    and "pending (pending m @ x) = pending (drop (64 - k) x)"
proof -
  have b: "pending m @ x = (pending m @ take (64 - k) x) @ drop (64 - k) x"
    "length (pending m @ take (64 - k) x) = 64"
    using assms by (simp_all add: less_imp_le)
  show "absorb f s (pending m @ x) = absorb f (f s (pending m @ take (64 - k) x)) (drop (64 - k) x)"
    by (subst b(1)) (rule absorb_block [OF b(2)])
  show "pending (pending m @ x) = pending (drop (64 - k) x)"
    by (subst b(1)) (rule pending_block [OF b(2)])
qed

section \<open>A state with its buffer\<close>

text \<open>\<open>held f s0 m s buf\<close>: the state and the buffer after message \<open>m\<close>.\<close>

definition held :: "('s \<Rightarrow> byte list \<Rightarrow> 's) \<Rightarrow> 's \<Rightarrow> byte list \<Rightarrow> 's \<Rightarrow> byte list \<Rightarrow> bool" where
  "held f s0 m s buf \<longleftrightarrow> length buf = 64 \<and> s = absorb f s0 m \<and>
     take (length m mod 64) buf = pending m"

lemma held_fill:
  assumes h: "held f s0 m s buf" and k: "k = length m mod 64" and x: "64 - k \<le> length x"
  shows "wrn buf k (take (64 - k) x) = Some (pending m @ take (64 - k) x)"
    and "absorb f (f s (pending m @ take (64 - k) x)) (drop (64 - k) x) = absorb f s0 (m @ x)"
    and "pending (drop (64 - k) x) = pending (m @ x)"
    and "length (pending m @ take (64 - k) x) = 64"
proof -
  have k64: "k < 64" and lp: "length (pending m) = k" using k by simp_all
  have buf: "length buf = 64" "s = absorb f s0 m" "take k buf = pending m"
    using h unfolding held_def k by auto
  show "wrn buf k (take (64 - k) x) = Some (pending m @ take (64 - k) x)"
    using buf k64 x by simp
  show "absorb f (f s (pending m @ take (64 - k) x)) (drop (64 - k) x) = absorb f s0 (m @ x)"
    using absorb_fill(1) [OF k x, of f s] absorb_append [of f s0 m x] unfolding buf(2) by (rule trans [OF sym sym])
  show "pending (drop (64 - k) x) = pending (m @ x)"
    using absorb_fill(2) [OF k x] pending_append [of m x] by (rule trans [OF sym sym])
  show "length (pending m @ take (64 - k) x) = 64" using x k64 lp by simp
qed

lemma held_fillE:
  assumes "held f s0 m s buf" and "k = length m mod 64" and "64 - k \<le> length x"
  obtains b where "wrn buf k (take (64 - k) x) = Some b" and "length b = 64"
    and "absorb f (f s b) (drop (64 - k) x) = absorb f s0 (m @ x)"
    and "pending (drop (64 - k) x) = pending (m @ x)"
  using held_fill [OF assms] by blast

lemma held_direct:
  assumes "held f s0 m s buf" and "length m mod 64 = 0"
  shows "absorb f s x = absorb f s0 (m @ x)" and "pending x = pending (m @ x)"
proof -
  have "pending m = []" using assms(2) pending_length [of m] by (metis length_0_conv)
  then show "absorb f s x = absorb f s0 (m @ x)" "pending x = pending (m @ x)"
    using assms(1) absorb_append [of f s0 m x] pending_append [of m x] by (simp_all add: held_def)
qed

lemma held_short:
  assumes h: "held f s0 m s buf" and k: "k = length m mod 64" and x: "length x < 64 - k"
  shows "held f s0 (m @ x) s (take k buf @ x @ drop (k + length x) buf)"
proof -
  have lp: "length (pending m) = k" using k by simp
  have short: "length (pending m @ x) < 64" using x lp by simp
  then have p: "pending (m @ x) = pending m @ x" by (subst pending_append) (rule pending_short)
  have "length (m @ x) mod 64 = length (pending (m @ x))" by (rule pending_length [symmetric])
  also have "\<dots> = k + length x" unfolding p using lp by simp
  finally have l: "length (m @ x) mod 64 = k + length x" .
  have buf: "length buf = 64" "s = absorb f s0 m" "take k buf = pending m"
    using h unfolding held_def k by auto
  have "take (k + length x) (take k buf @ x @ drop (k + length x) buf) = pending m @ x"
    using buf lp by simp
  moreover have "length (take k buf @ x @ drop (k + length x) buf) = 64" using buf x lp by simp
  moreover have "absorb f s0 (m @ x) = absorb f s0 m"
    by (subst absorb_append) (rule absorb_short [OF short])
  ultimately show ?thesis unfolding held_def l p using buf(2) by simp
qed

lemma held_rest:
  assumes "length buf = 64"
  shows "held f s0 m (absorb f s0 m) (pending m @ drop (length (pending m)) buf)"
  using assms by (simp add: held_def less_imp_le)

section \<open>The 64-bit count in two words\<close>

definition count64 :: "u32 \<Rightarrow> u32 \<Rightarrow> nat" where
  "count64 t0 t1 = unat t0 + 2 ^ 32 * unat t1"

lemma count64_add:
  assumes "n < 2 ^ 32"
  shows "count64 (t0 + word_of_nat n)
      (if t0 + word_of_nat n < word_of_nat n then t1 + 1 else t1) = (count64 t0 t1 + n) mod 2 ^ 64"
proof -
  let ?a = "unat t0" and ?b = "unat t1"
  have a: "?a < 2 ^ 32" and b: "?b < 2 ^ 32" using unsigned_less [of t0] unsigned_less [of t1] by simp_all
  have n: "unat (word_of_nat n :: u32) = n" using assms by (simp add: unat_of_nat)
  have sum: "unat (t0 + word_of_nat n) = (?a + n) mod 2 ^ 32" by (simp add: unat_word_ariths n)
  have inc: "unat (t1 + 1) = (?b + 1) mod 2 ^ 32" by (simp add: unat_word_ariths)
  show ?thesis
  proof (cases "?a + n < 2 ^ 32")
    case True
    then have "\<not> t0 + word_of_nat n < word_of_nat n" using sum by (simp add: word_less_nat_alt n)
    then show ?thesis using True sum b a by (simp add: count64_def)
  next
    case False
    then have s: "(?a + n) mod 2 ^ 32 = ?a + n - 2 ^ 32" using a assms by (simp add: mod_if)
    then have "t0 + word_of_nat n < word_of_nat n" using sum a False by (simp add: word_less_nat_alt n)
    moreover have "?a + n - 2 ^ 32 + 2 ^ 32 * ((?b + 1) mod 2 ^ 32) = (?a + 2 ^ 32 * ?b + n) mod 2 ^ 64"
    proof (cases "?b + 1 < 2 ^ 32")
      case True
      then show ?thesis using False a assms by (simp add: mod_if)
    next
      case full: False
      then have "?b = 2 ^ 32 - 1" using b by simp
      then show ?thesis using False a assms by (simp add: mod_if)
    qed
    ultimately show ?thesis using sum inc s by (simp add: count64_def)
  qed
qed

lemma count64_mod64:
  assumes "count64 t0 t1 = n mod 2 ^ 64"
  shows "unat t0 mod 64 = n mod 64"
proof -
  have "unat t0 mod 64 = count64 t0 t1 mod 64"
    using mod_mult_self2 [of "unat t0" 64 "2 ^ 26 * unat t1"] by (simp add: count64_def)
  also have "\<dots> = n mod 64" using assms mod_mod_cancel [of 64 "2 ^ 64" n] by simp
  finally show ?thesis .
qed

lemma and_3F: "unat ((w :: u32) AND 0x3F) = unat w mod 64"
proof -
  have "(0x3F :: u32) = mask 6" by (simp add: mask_eq_exp_minus_1)
  then have "w AND 0x3F = take_bit 6 w" by (simp only: take_bit_eq_mask)
  then show ?thesis by (simp only: unsigned_take_bit_eq) (simp add: take_bit_eq_mod)
qed

text \<open>The words of the length in bits.\<close>

lemma count64_words:
  assumes "count64 t0 t1 = n mod 2 ^ 64"
  shows "t0 = word_of_nat n" and "t1 = word_of_nat (n div 2 ^ 32)"
proof -
  have a: "unat t0 < 2 ^ 32" using unsigned_less [of t0] by simp
  have "unat t0 = count64 t0 t1 mod 2 ^ 32" "unat t1 = count64 t0 t1 div 2 ^ 32"
    using a by (simp_all add: count64_def)
  moreover have "n mod 2 ^ 64 mod 2 ^ 32 = n mod 2 ^ 32" by (simp add: mod_mod_cancel)
  moreover have "n mod 2 ^ 64 div 2 ^ 32 = n div 2 ^ 32 mod 2 ^ 32"
    using mod_mult2_eq [of n "2 ^ 32" "2 ^ 32"] by simp
  ultimately have "unat t0 = n mod 2 ^ 32" "unat t1 = n div 2 ^ 32 mod 2 ^ 32" using assms by simp_all
  then show "t0 = word_of_nat n" "t1 = word_of_nat (n div 2 ^ 32)"
    by (simp_all add: word_unat_eq_iff unat_of_nat)
qed

lemma count64_bits:
  assumes "count64 t0 t1 = n mod 2 ^ 64"
  shows "drop_bit 29 t0 OR push_bit 3 t1 = word_of_nat (8 * n div 2 ^ 32)"
    and "push_bit 3 t0 = word_of_nat (8 * n)"
proof -
  show "push_bit 3 t0 = word_of_nat (8 * n)"
    unfolding count64_words(1) [OF assms] by (simp add: push_bit_eq_mult)
  have e: "8 * n div 2 ^ 32 = drop_bit 29 n" "n div 2 ^ 32 = drop_bit 32 n"
    by (simp_all add: drop_bit_eq_div)
  have L: "LENGTH(32) = 32" by simp
  show "drop_bit 29 t0 OR push_bit 3 t1 = word_of_nat (8 * n div 2 ^ 32)"
    unfolding count64_words [OF assms] e
  proof (rule bit_word_eqI)
    fix i
    assume "i < LENGTH(32)"
    then have i: "i < 32" by simp
    show "bit (drop_bit 29 (word_of_nat n) OR push_bit 3 (word_of_nat (drop_bit 32 n)) :: u32) i =
      bit (word_of_nat (drop_bit 29 n) :: u32) i"
    proof (cases "i < 3")
      case True
      then show ?thesis using i by (simp add: bit_simps)
    next
      case False
      then have "32 + (i - 3) = 29 + i" "i - 3 < 32" using i by simp_all
      then show ?thesis using i False by (simp add: bit_simps)
    qed
  qed
qed

section \<open>Padding\<close>

definition zeros_needed :: "nat \<Rightarrow> nat" where
  "zeros_needed n = (119 - n mod 64) mod 64"

definition padded :: "(nat \<Rightarrow> byte list) \<Rightarrow> byte list \<Rightarrow> byte list" where
  "padded lenbytes m = m @ 0x80 # replicate (zeros_needed (length m)) 0 @ lenbytes (8 * length m)"

lemma zeros_needed_cases:
  "zeros_needed n = (if n mod 64 < 56 then 55 - n mod 64 else 119 - n mod 64)"
proof -
  have "(119 - r) mod 64 = (if r < 56 then 55 - r else 119 - r)" if "r < 64" for r :: nat
  proof (cases "r < 56")
    case True
    then have "119 - r = 64 + (55 - r)" by simp
    then have "(119 - r) mod 64 = (55 - r) mod 64" by (simp only: mod_add_self1)
    then show ?thesis using True by simp
  next
    case False
    then have "119 - r < 64" by simp
    then show ?thesis using False by simp
  qed
  then show ?thesis by (simp add: zeros_needed_def)
qed

lemma padded_length:
  assumes "\<And>n. length (lenbytes n) = 8"
  shows "length (padded lenbytes m) mod 64 = 0"
proof -
  let ?r = "length m mod 64"
  have r: "?r < 64" by simp
  have l: "length (padded lenbytes m) = length m + (zeros_needed (length m) + 9)"
    using assms by (simp add: padded_def)
  have "?r + (zeros_needed (length m) + 9) = (if ?r < 56 then 64 else 128)"
    using r by (simp add: zeros_needed_cases)
  then have "(?r + (zeros_needed (length m) + 9)) mod 64 = 0" by (simp split: if_splits)
  then show ?thesis unfolding l by (simp only: mod_add_left_eq)
qed

text \<open>The padding the SHA functions take from their table, and the length they append.\<close>

lemma pad_bytes:
  "take (if n mod 64 < 56 then 56 - n mod 64 else 120 - n mod 64) (0x80 # replicate 63 0) =
    0x80 # replicate (zeros_needed n) 0"
proof -
  have r: "n mod 64 < 64" by simp
  show ?thesis
  proof (cases "n mod 64 < 56")
    case True
    then have "56 - n mod 64 = Suc (55 - n mod 64)" by simp
    then show ?thesis using True by (simp add: zeros_needed_cases)
  next
    case False
    then have "120 - n mod 64 = Suc (119 - n mod 64)" using r by simp
    then show ?thesis using False r by (simp add: zeros_needed_cases)
  qed
qed

definition be64 :: "nat \<Rightarrow> byte list" where
  "be64 n = put_be32 (of_nat (n div 2 ^ 32)) @ put_be32 (of_nat n)"

lemma be64_count:
  assumes "count64 t0 t1 = n mod 2 ^ 64"
  shows "put_be32 (drop_bit 29 t0 OR push_bit 3 t1) @ put_be32 (push_bit 3 t0) = be64 (8 * n)"
  by (simp only: be64_def count64_bits [OF assms])

lemma be64_length [simp]: "length (be64 n) = 8"
  by (simp add: be64_def)

section \<open>The interface of an incremental hash\<close>

fun update_all :: "('c \<Rightarrow> byte list \<Rightarrow> 'c option) \<Rightarrow> 'c \<Rightarrow> byte list list \<Rightarrow> 'c option" where
  "update_all upd c [] = Some c"
| "update_all upd c (x # xs) = do { c \<leftarrow> upd c x; update_all upd c xs }"

locale incremental_hash =
  fixes start :: 'c
    and upd :: "'c \<Rightarrow> byte list \<Rightarrow> 'c option"
    and fin :: "'c \<Rightarrow> byte list option"
    and absorbed :: "'c \<Rightarrow> byte list \<Rightarrow> bool"
    and bound :: nat
    and digest :: "byte list \<Rightarrow> byte list"
  assumes start_law: "absorbed start []"
    and upd_law: "absorbed c m \<Longrightarrow> length x < bound \<Longrightarrow> \<exists>c'. upd c x = Some c' \<and> absorbed c' (m @ x)"
    and fin_law: "absorbed c m \<Longrightarrow> fin c = Some (digest m)"
begin

lemma update_all_law:
  assumes "absorbed c m" and "\<forall>x \<in> set xs. length x < bound"
  shows "\<exists>c'. update_all upd c xs = Some c' \<and> absorbed c' (m @ concat xs)"
  using assms
proof (induction xs arbitrary: c m)
  case (Cons x xs)
  from upd_law [OF Cons.prems(1), of x] Cons.prems(2) obtain c1 where
    c1: "upd c x = Some c1" "absorbed c1 (m @ x)" by auto
  from Cons.IH [OF c1(2)] Cons.prems(2) c1(1) show ?case by simp
qed simp

text \<open>The digest depends on the message alone, not on how it was cut into updates.\<close>

lemma chunks_digest:
  assumes "\<forall>x \<in> set xs. length x < bound"
  shows "Option.bind (update_all upd start xs) fin = Some (digest (concat xs))"
  using update_all_law [OF start_law assms] fin_law by auto

lemma one_shot: "length m < bound \<Longrightarrow> Option.bind (upd start m) fin = Some (digest m)"
  using chunks_digest [of "[m]"] by simp

end

section \<open>Rotations\<close>

lemma rotl_shifts:
  assumes "0 < n" and "n < 32"
  shows "push_bit n (x :: u32) OR drop_bit (32 - n) x = word_rotl n x"
proof (rule bit_word_eqI)
  fix i
  assume i: "i < LENGTH(32)"
  then have i': "i < 32" by simp
  have m: "(i + (32 - n)) mod 32 = (if i < n then i + (32 - n) else i - n)"
  proof (cases "i < n")
    case False
    then have "i + (32 - n) = (i - n) + 32" using assms by simp
    then show ?thesis using False i' by (simp only: mod_add_self2) simp
  qed (use assms in simp)
  have "\<not> bit x (i + (32 - n))" if "n \<le> i"
    using that assms bit_imp_le_length [of x "i + (32 - n)"] by auto
  moreover have L: "LENGTH(32) = 32" by simp
  moreover have N: "n mod 32 = n" using assms(2) by simp
  moreover have "\<not> (i < n \<and> n \<le> i)" by simp
  ultimately show "bit (push_bit n x OR drop_bit (32 - n) x) i = bit (word_rotl n x) i"
    unfolding bit_or_iff bit_push_bit_iff bit_drop_bit_eq bit_word_rotl_iff comp_def L N m
    using i' by (cases "i < n") (simp_all only: if_True if_False not_less possible_bit_word L simp_thms add.commute, simp_all)
qed

lemma rotr_shifts:
  assumes "0 < n" and "n < 32"
  shows "drop_bit n (x :: u32) OR push_bit (32 - n) x = word_rotr n x"
  using rotl_shifts [of "32 - n" x] assms
  by (simp add: word_rotl_eq_word_rotr or.commute)

text \<open>The two Boolean functions in the form the code computes them.\<close>

lemma choose_xor: "(z :: u32) XOR (x AND (y XOR z)) = (x AND y) OR (NOT x AND z)"
  by (rule bit_word_eqI) (auto simp: bit_simps)

lemma majority_or: "((x :: u32) AND y) OR (z AND (x OR y)) = (x AND y) OR (x AND z) OR (y AND z)"
  by (rule bit_word_eqI) (auto simp: bit_simps)

lemma mask32 [simp]: "(x :: u32) AND 0xFFFFFFFF = x"
proof -
  have "(0xFFFFFFFF :: u32) = - 1" by simp
  then show ?thesis by (simp only: and.right_neutral)
qed

end
