(* ===== verification/Sha1.thy ===== *)
theory Sha1
  imports BlockHash
begin

text \<open>
  SHA-1, \<^verbatim>\<open>lib_generic/sha1.c\<close>. The context has the byte count in two words, five state words and
  a buffer. A call \<open>P (A, B, C, D, E, x)\<close> of the unrolled rounds is followed by the call with the
  registers renamed by one place, so a round returns them in the order of the next call; after 80
  rounds the names are back in place. The schedule \<open>W\<close> is the code's circular array of 16 words.
  Input pointers are the list of the bytes they cover, \<open>ilen\<close> is its length.
\<close>

type_synonym s5 = "u32 \<times> u32 \<times> u32 \<times> u32 \<times> u32"

record sha1_context =
  sha1_total :: "u32 \<times> u32"
  sha1_state :: s5
  sha1_buffer :: mem

definition sha1_starts :: "sha1_context \<Rightarrow> sha1_context" where
  "sha1_starts ctx = ctx\<lparr>sha1_total := (0, 0),
     sha1_state := (0x67452301, 0xEFCDAB89, 0x98BADCFE, 0x10325476, 0xC3D2E1F0)\<rparr>"

section \<open>The compression function\<close>

definition sha1_S :: "u32 \<Rightarrow> nat \<Rightarrow> u32" where
  "sha1_S x n = push_bit n x OR drop_bit (32 - n) (x AND 0xFFFFFFFF)"

text \<open>\<open>R(t)\<close>: the next word of the schedule, stored over the oldest one.\<close>

definition sha1_R :: "u32 list \<Rightarrow> nat \<Rightarrow> u32 list" where
  "sha1_R W t =
     (let temp = W ! ((t - 3) mod 16) XOR W ! ((t - 8) mod 16) XOR W ! ((t - 14) mod 16) XOR W ! (t mod 16)
      in W[t mod 16 := sha1_S temp 1])"

definition sha1_P :: "(u32 \<Rightarrow> u32 \<Rightarrow> u32 \<Rightarrow> u32) \<Rightarrow> u32 \<Rightarrow> u32 \<Rightarrow> s5 \<Rightarrow> s5" where
  "sha1_P F K x s = (case s of (a, b, c, d, e) \<Rightarrow>
     (e + (sha1_S a 5 + F b c d + K + x), a, sha1_S b 30, c, d))"

text \<open>The macros \<open>F\<close> and \<open>K\<close> in force in round \<open>t\<close>.\<close>

definition sha1_F :: "nat \<Rightarrow> u32 \<Rightarrow> u32 \<Rightarrow> u32 \<Rightarrow> u32" where
  "sha1_F t x y z =
     (if t < 20 then z XOR (x AND (y XOR z))
      else if t < 40 then x XOR y XOR z
      else if t < 60 then (x AND y) OR (z AND (x OR y))
      else x XOR y XOR z)"

definition sha1_K :: "nat \<Rightarrow> u32" where
  "sha1_K t = (if t < 20 then 0x5A827999 else if t < 40 then 0x6ED9EBA1
     else if t < 60 then 0x8F1BBCDC else 0xCA62C1D6)"

definition sha1_round :: "nat \<Rightarrow> s5 \<times> u32 list \<Rightarrow> s5 \<times> u32 list" where
  "sha1_round t sW = (case sW of (s, W) \<Rightarrow>
     (let W = (if t < 16 then W else sha1_R W t)
      in (sha1_P (sha1_F t) (sha1_K t) (W ! (t mod 16)) s, W)))"

definition sha1_words :: "byte list \<Rightarrow> u32 list" where
  "sha1_words data = map (\<lambda>i. get_be32 (drop (4 * i) data)) [0..<16]"

definition sha1_add :: "s5 \<Rightarrow> s5 \<Rightarrow> s5" where
  "sha1_add s t = (case (s, t) of ((a, b, c, d, e), (a', b', c', d', e')) \<Rightarrow>
     (a + a', b + b', c + c', d + d', e + e'))"

definition sha1_process :: "sha1_context \<Rightarrow> byte list \<Rightarrow> sha1_context" where
  "sha1_process ctx data =
     (case fold sha1_round [0..<80] (sha1_state ctx, sha1_words data) of
        (s, W) \<Rightarrow> ctx\<lparr>sha1_state := sha1_add (sha1_state ctx) s\<rparr>)"

section \<open>Update and final digest\<close>

text \<open>\<open>while (ilen >= 64)\<close>: the context and the input that is left.\<close>

function sha1_blocks :: "sha1_context \<Rightarrow> byte list \<Rightarrow> sha1_context \<times> byte list" where
  "sha1_blocks ctx input =
     (if 64 \<le> length input then sha1_blocks (sha1_process ctx (take 64 input)) (drop 64 input)
      else (ctx, input))"
  by pat_completeness auto
termination by (relation "measure (\<lambda>(ctx, input). length input)") auto

declare sha1_blocks.simps [simp del]

text \<open>The data part of the update, \<open>left\<close> bytes being in the buffer.\<close>

definition sha1_input :: "sha1_context \<Rightarrow> nat \<Rightarrow> byte list \<Rightarrow> sha1_context option" where
  "sha1_input ctx left input = do {
     let fill = 64 - left;
     (ctx, input, left) \<leftarrow>
       (if left \<noteq> 0 \<and> fill \<le> length input
        then do {
          buf \<leftarrow> wrn (sha1_buffer ctx) left (take fill input);
          Some (sha1_process (ctx\<lparr>sha1_buffer := buf\<rparr>) buf, drop fill input, 0)
        }
        else Some (ctx, input, left));
     let (ctx, input) = sha1_blocks ctx input;
     if 0 < length input
     then map_option (\<lambda>buf. ctx\<lparr>sha1_buffer := buf\<rparr>) (wrn (sha1_buffer ctx) left input)
     else Some ctx
   }"

definition sha1_update :: "sha1_context \<Rightarrow> byte list \<Rightarrow> sha1_context option" where
  "sha1_update ctx input =
     (let ilen = word_of_nat (length input) :: 32 word in
      if sint ilen \<le> 0 then Some ctx
      else
        (let left = unat (fst (sha1_total ctx) AND 0x3F);
             t0 = (fst (sha1_total ctx) + ilen) AND 0xFFFFFFFF;
             t1 = (if t0 < ilen then snd (sha1_total ctx) + 1 else snd (sha1_total ctx))
         in sha1_input (ctx\<lparr>sha1_total := (t0, t1)\<rparr>) left input))"

definition sha1_padding :: "byte list" where
  "sha1_padding = 0x80 # replicate 63 0"

definition sha1_finish :: "sha1_context \<Rightarrow> (sha1_context \<times> byte list) option" where
  "sha1_finish ctx =
     (case sha1_total ctx of (t0, t1) \<Rightarrow> do {
        let high = drop_bit 29 t0 OR push_bit 3 t1;
        let low = push_bit 3 t0;
        let msglen = put_be32 high @ put_be32 low;
        let last = unat (t0 AND 0x3F);
        let padn = (if last < 56 then 56 - last else 120 - last);
        ctx \<leftarrow> sha1_update ctx (take padn sha1_padding);
        ctx \<leftarrow> sha1_update ctx msglen;
        (case sha1_state ctx of (a, b, c, d, e) \<Rightarrow>
           Some (ctx, put_be32 a @ put_be32 b @ put_be32 c @ put_be32 d @ put_be32 e))
      })"

text \<open>The context on the stack, with whatever bytes \<open>buf\<close> its buffer holds.\<close>

definition sha1_new :: "mem \<Rightarrow> sha1_context" where
  "sha1_new buf = sha1_starts \<lparr>sha1_total = (0, 0), sha1_state = (0, 0, 0, 0, 0), sha1_buffer = buf\<rparr>"

definition sha1_csum :: "mem \<Rightarrow> byte list \<Rightarrow> byte list option" where
  "sha1_csum buf input = do {
     ctx \<leftarrow> sha1_update (sha1_new buf) input;
     (ctx, out) \<leftarrow> sha1_finish ctx;
     Some out
   }"

text \<open>
  The loop of the build with a watchdog; with \<open>chunk_sz = 0\<close> it never ends, the model's \<open>None\<close>.
  \<open>wd\<close> says whether the build has \<^verbatim>\<open>CONFIG_WATCHDOG\<close>.
\<close>

function sha1_chunks :: "sha1_context \<Rightarrow> byte list \<Rightarrow> nat \<Rightarrow> sha1_context option" where
  "sha1_chunks ctx input chunk_sz =
     (if input = [] then Some ctx
      else if chunk_sz = 0 then None
      else do {
        ctx \<leftarrow> sha1_update ctx (take chunk_sz input);
        sha1_chunks ctx (drop chunk_sz input) chunk_sz
      })"
  by pat_completeness auto
termination by (relation "measure (\<lambda>(ctx, input, chunk_sz). length input)") auto

declare sha1_chunks.simps [simp del]

definition sha1_csum_wd :: "bool \<Rightarrow> mem \<Rightarrow> byte list \<Rightarrow> nat \<Rightarrow> byte list option" where
  "sha1_csum_wd wd buf input chunk_sz = do {
     ctx \<leftarrow> (if wd then sha1_chunks (sha1_new buf) input chunk_sz else sha1_update (sha1_new buf) input);
     (ctx, out) \<leftarrow> sha1_finish ctx;
     Some out
   }"

text \<open>The key is cut to 64 bytes.\<close>

definition sha1_pad_key :: "byte \<Rightarrow> byte list \<Rightarrow> byte list" where
  "sha1_pad_key x key =
     map (\<lambda>i. if i < length key then x XOR key ! i else x) [0..<64]"

definition sha1_hmac :: "mem \<Rightarrow> byte list \<Rightarrow> byte list \<Rightarrow> byte list option" where
  "sha1_hmac buf key input = do {
     let k_ipad = sha1_pad_key 0x36 key;
     let k_opad = sha1_pad_key 0x5C key;
     ctx \<leftarrow> sha1_update (sha1_new buf) k_ipad;
     ctx \<leftarrow> sha1_update ctx input;
     (ctx, tmpbuf) \<leftarrow> sha1_finish ctx;
     ctx \<leftarrow> sha1_update (sha1_starts ctx) k_opad;
     ctx \<leftarrow> sha1_update ctx tmpbuf;
     (ctx, out) \<leftarrow> sha1_finish ctx;
     Some out
   }"

end
