(* ===== verification/Sha1Correct.thy ===== *)
theory Sha1Correct
  imports Sha1
begin

text \<open>
  SHA-1 as the standard FIPS 180-1 states it, and the code against it: the compression of a block
  with the circular schedule, the incremental update with its 64-bit count, the padding, and the
  keyed hash.
\<close>

section \<open>The standard\<close>

fun sha1_sched :: "byte list \<Rightarrow> nat \<Rightarrow> u32" where
  "sha1_sched b t =
     (if t < 16 then get_be32 (drop (4 * t) b)
      else word_rotl 1 (sha1_sched b (t - 3) XOR sha1_sched b (t - 8) XOR sha1_sched b (t - 14)
             XOR sha1_sched b (t - 16)))"

declare sha1_sched.simps [simp del]

definition sha1_fn :: "nat \<Rightarrow> u32 \<Rightarrow> u32 \<Rightarrow> u32 \<Rightarrow> u32" where
  "sha1_fn t b c d =
     (if t < 20 then (b AND c) OR (NOT b AND d)
      else if t < 40 then b XOR c XOR d
      else if t < 60 then (b AND c) OR (b AND d) OR (c AND d)
      else b XOR c XOR d)"

definition sha1_step :: "byte list \<Rightarrow> nat \<Rightarrow> s5 \<Rightarrow> s5" where
  "sha1_step blk t s = (case s of (a, b, c, d, e) \<Rightarrow>
     (word_rotl 5 a + sha1_fn t b c d + e + sha1_sched blk t + sha1_K t, a, word_rotl 30 b, c, d))"

definition sha1_compress :: "s5 \<Rightarrow> byte list \<Rightarrow> s5" where
  "sha1_compress h blk = sha1_add h (fold (sha1_step blk) [0..<80] h)"

definition sha1_init :: s5 where
  "sha1_init = (0x67452301, 0xEFCDAB89, 0x98BADCFE, 0x10325476, 0xC3D2E1F0)"

definition s5_bytes :: "s5 \<Rightarrow> byte list" where
  "s5_bytes s = (case s of (a, b, c, d, e) \<Rightarrow>
     put_be32 a @ put_be32 b @ put_be32 c @ put_be32 d @ put_be32 e)"

definition sha1_digest :: "byte list \<Rightarrow> byte list" where
  "sha1_digest m = s5_bytes (absorb sha1_compress sha1_init (padded be64 m))"

section \<open>The compression function\<close>

lemma sha1_S_rotl: "0 < n \<Longrightarrow> n < 32 \<Longrightarrow> sha1_S x n = word_rotl n x"
  by (simp add: sha1_S_def rotl_shifts)

lemma sha1_F_fn: "sha1_F t = sha1_fn t"
  by (intro ext) (simp add: sha1_F_def sha1_fn_def choose_xor majority_or)

text \<open>Before round \<open>t\<close> the circular array holds the last 16 words of the schedule.\<close>

definition sched_inv :: "byte list \<Rightarrow> nat \<Rightarrow> u32 list \<Rightarrow> bool" where
  "sched_inv blk t W \<longleftrightarrow> length W = 16 \<and>
     (\<forall>j < max 16 t. t \<le> j + 16 \<longrightarrow> W ! (j mod 16) = sha1_sched blk j)"

lemma sched_inv_init: "sched_inv blk 0 (sha1_words blk)"
  by (auto simp: sched_inv_def sha1_words_def sha1_sched.simps)

lemma sched_inv_nth:
  "sched_inv blk t W \<Longrightarrow> j < max 16 t \<Longrightarrow> t \<le> j + 16 \<Longrightarrow> W ! (j mod 16) = sha1_sched blk j"
  by (simp add: sched_inv_def)

lemma sched_inv_early: "sched_inv blk t W \<Longrightarrow> t < 16 \<Longrightarrow> sched_inv blk (Suc t) W"
  by (auto simp: sched_inv_def)

lemma sched_inv_late:
  assumes inv: "sched_inv blk t W" and t: "16 \<le> t"
  shows "sched_inv blk (Suc t) (sha1_R W t)" and "sha1_R W t ! (t mod 16) = sha1_sched blk t"
proof -
  have len: "length W = 16" using inv by (simp add: sched_inv_def)
  have old: "W ! (t mod 16) = sha1_sched blk (t - 16)"
    using sched_inv_nth [OF inv, of "t - 16"] t le_mod_geq [of 16 t] by simp
  have "W ! ((t - 3) mod 16) = sha1_sched blk (t - 3)" "W ! ((t - 8) mod 16) = sha1_sched blk (t - 8)"
    "W ! ((t - 14) mod 16) = sha1_sched blk (t - 14)"
    using t by (auto intro!: sched_inv_nth [OF inv])
  then have w: "sha1_R W t = W[t mod 16 := sha1_sched blk t]"
    using t old by (simp add: sha1_R_def sha1_S_rotl sha1_sched.simps [of blk t])
  then show "sha1_R W t ! (t mod 16) = sha1_sched blk t" using len by simp
  show "sched_inv blk (Suc t) (sha1_R W t)"
    unfolding sched_inv_def w
  proof (intro conjI allI impI)
    fix j
    assume j: "j < max 16 (Suc t)" "Suc t \<le> j + 16"
    show "W[t mod 16 := sha1_sched blk t] ! (j mod 16) = sha1_sched blk j"
    proof (cases "j = t")
      case False
      then have "j < t" "t - j < 16" using j t by auto
      then have "j mod 16 \<noteq> t mod 16" using mod_eq_dvd_iff_nat [of j t 16] by (auto dest: dvd_imp_le)
      then show ?thesis using sched_inv_nth [OF inv, of j] j False by simp
    qed (simp add: len)
  qed (simp add: len)
qed

lemma sha1_round_step:
  assumes "sched_inv blk t W"
  shows "\<exists>W'. sha1_round t (s, W) = (sha1_step blk t s, W') \<and> sched_inv blk (Suc t) W'"
proof (cases "t < 16")
  case True
  then show ?thesis
    using sched_inv_early [OF assms True] sched_inv_nth [OF assms, of t]
    by (auto simp: sha1_round_def sha1_P_def sha1_step_def sha1_S_rotl sha1_F_fn algebra_simps split: prod.splits)
next
  case False
  then show ?thesis
    using sched_inv_late [OF assms]
    by (auto simp: sha1_round_def sha1_P_def sha1_step_def sha1_S_rotl sha1_F_fn algebra_simps split: prod.splits)
qed

lemma sha1_rounds_steps:
  "sched_inv blk t W \<Longrightarrow>
    \<exists>W'. fold sha1_round [t..<t + n] (s, W) = (fold (sha1_step blk) [t..<t + n] s, W')"
proof (induction n arbitrary: t s W)
  case (Suc n)
  obtain W' where "sha1_round t (s, W) = (sha1_step blk t s, W')" "sched_inv blk (Suc t) W'"
    using sha1_round_step [OF Suc.prems] by blast
  then show ?case using Suc.IH [of "Suc t" W' "sha1_step blk t s"] by (simp add: upt_rec)
qed simp

lemma sha1_process_compress:
  "sha1_process ctx blk = ctx\<lparr>sha1_state := sha1_compress (sha1_state ctx) blk\<rparr>"
  using sha1_rounds_steps [OF sched_inv_init, of 80 "sha1_state ctx" blk]
  by (auto simp: sha1_process_def sha1_compress_def)

section \<open>The incremental hash\<close>

definition sha1_absorbed :: "sha1_context \<Rightarrow> byte list \<Rightarrow> bool" where
  "sha1_absorbed ctx m \<longleftrightarrow>
     held sha1_compress sha1_init m (sha1_state ctx) (sha1_buffer ctx) \<and>
     count64 (fst (sha1_total ctx)) (snd (sha1_total ctx)) = length m mod 2 ^ 64"

lemma sha1_blocks_absorb:
  "sha1_blocks ctx x = (ctx\<lparr>sha1_state := absorb sha1_compress (sha1_state ctx) x\<rparr>, pending x)"
proof (induction ctx x rule: sha1_blocks.induct)
  case (1 ctx x)
  show ?case
  proof (cases "64 \<le> length x")
    case True
    then have "x = take 64 x @ drop 64 x" "length (take 64 x) = 64" by simp_all
    then have "pending x = pending (drop 64 x)" by (metis pending_block)
    then show ?thesis
      using True 1 [OF True] by (simp add: sha1_blocks.simps [of ctx x] absorb.simps [of _ _ x] sha1_process_compress)
  next
    case False
    then show ?thesis by (simp add: sha1_blocks.simps [of ctx x])
  qed
qed

lemma sha1_len: "length x < 2 ^ 31 \<Longrightarrow> sint (word_of_nat (length x) :: u32) = int (length x)"
  by (simp add: signed_of_nat signed_take_bit_int_eq_self)

lemma sha1_input_held:
  assumes h: "held sha1_compress sha1_init m (sha1_state c) (sha1_buffer c)" and k: "k = length m mod 64"
    and x: "x \<noteq> []"
  shows "\<exists>s buf. sha1_input c k x = Some (c\<lparr>sha1_state := s, sha1_buffer := buf\<rparr>) \<and>
    held sha1_compress sha1_init (m @ x) s buf"
proof -
  have buf: "length (sha1_buffer c) = 64" using h by (simp add: held_def)
  let ?s = "absorb sha1_compress sha1_init (m @ x)"
  obtain p where p: "p = pending (m @ x)" "length p \<le> 64" by simp
  have rest: "held sha1_compress sha1_init (m @ x) ?s (p @ drop (length p) b)" if "length b = 64" for b
    unfolding p(1) by (rule held_rest [OF that])
  consider (fill) "k \<noteq> 0" "64 - k \<le> length x" | (direct) "k = 0" | (short) "k \<noteq> 0" "length x < 64 - k"
    by linarith
  then show ?thesis
  proof cases
    case fill
    from held_fillE [OF h k fill(2)] obtain b where
      b: "wrn (sha1_buffer c) k (take (64 - k) x) = Some b" "length b = 64"
      "absorb sha1_compress (sha1_compress (sha1_state c) b) (drop (64 - k) x) = ?s"
      "pending (drop (64 - k) x) = p" using p(1) by metis
    have "sha1_input c k x = Some (c\<lparr>sha1_state := ?s, sha1_buffer := p @ drop (length p) b\<rparr>)"
      using fill b p(2)
      by (simp add: sha1_input_def Let_def sha1_process_compress sha1_blocks_absorb del: wrn_eq_Some)
    then show ?thesis using rest [OF b(2)] by blast
  next
    case direct
    then have z: "length m mod 64 = 0" using k by simp
    have d: "absorb sha1_compress (sha1_state c) x = ?s" "pending x = p"
      using held_direct [OF h z, of x] p(1) by simp_all
    have "sha1_input c k x = Some (c\<lparr>sha1_state := ?s, sha1_buffer := p @ drop (length p) (sha1_buffer c)\<rparr>)"
      using buf p(2) direct d by (cases c) (simp add: sha1_input_def Let_def sha1_blocks_absorb)
    then show ?thesis using rest [OF buf] by blast
  next
    case short
    let ?b = "take k (sha1_buffer c) @ x @ drop (k + length x) (sha1_buffer c)"
    have "sha1_input c k x = Some (c\<lparr>sha1_state := sha1_state c, sha1_buffer := ?b\<rparr>)"
      using short buf x by (simp add: sha1_input_def Let_def sha1_blocks_absorb)
    then show ?thesis using held_short [OF h k short(2)] by blast
  qed
qed

lemma sha1_update_absorbed:
  assumes abs: "sha1_absorbed ctx m" and len: "length x < 2 ^ 31"
  shows "\<exists>ctx'. sha1_update ctx x = Some ctx' \<and> sha1_absorbed ctx' (m @ x)"
proof (cases "x = []")
  case True
  then show ?thesis using abs by (simp add: sha1_update_def)
next
  case False
  obtain t0 t1 where t: "sha1_total ctx = (t0, t1)" by (cases "sha1_total ctx")
  let ?n = "word_of_nat (length x) :: u32"
  let ?t1 = "if t0 + ?n < ?n then t1 + 1 else t1"
  let ?c = "ctx\<lparr>sha1_total := (t0 + ?n, ?t1)\<rparr>"
  have h: "held sha1_compress sha1_init m (sha1_state ?c) (sha1_buffer ?c)"
    and c: "count64 t0 t1 = length m mod 2 ^ 64" using abs t by (simp_all add: sha1_absorbed_def)
  have cnt: "count64 (t0 + ?n) ?t1 = length (m @ x) mod 2 ^ 64"
    using count64_add [of "length x" t0 t1] len c by (simp add: mod_simps)
  have "unat (t0 AND 0x3F) = length m mod 64" using count64_mod64 [OF c] by (simp add: and_3F)
  moreover have "\<not> sint ?n \<le> 0" using sha1_len [OF len] False by simp
  ultimately have "sha1_update ctx x = sha1_input ?c (length m mod 64) x"
    using t by (simp add: sha1_update_def Let_def)
  then show ?thesis using sha1_input_held [OF h refl False] cnt by (auto simp: sha1_absorbed_def)
qed

section \<open>The final digest\<close>

lemma sha1_finish_digest:
  assumes abs: "sha1_absorbed ctx m"
  shows "\<exists>ctx'. sha1_finish ctx = Some (ctx', sha1_digest m) \<and> length (sha1_buffer ctx') = 64"
proof -
  obtain t0 t1 where t: "sha1_total ctx = (t0, t1)" by (cases "sha1_total ctx")
  have c: "count64 t0 t1 = length m mod 2 ^ 64" using abs t by (simp add: sha1_absorbed_def)
  let ?pad = "0x80 # replicate (zeros_needed (length m)) 0"
  have last: "unat (t0 AND 0x3F) = length m mod 64" using count64_mod64 [OF c] by (simp add: and_3F)
  have "zeros_needed (length m) < 64" by (simp add: zeros_needed_def)
  then have "length ?pad < 2 ^ 31" by simp
  from sha1_update_absorbed [OF abs this] obtain c1 where
    c1: "sha1_update ctx ?pad = Some c1" "sha1_absorbed c1 (m @ ?pad)" by blast
  from sha1_update_absorbed [OF c1(2), of "be64 (8 * length m)"] obtain c2 where
    c2: "sha1_update c1 (be64 (8 * length m)) = Some c2"
    "sha1_absorbed c2 ((m @ ?pad) @ be64 (8 * length m))" by auto
  have pad: "(m @ ?pad) @ be64 (8 * length m) = padded be64 m" by (simp add: padded_def)
  have st: "sha1_state c2 = absorb sha1_compress sha1_init (padded be64 m)" "length (sha1_buffer c2) = 64"
    using c2(2) unfolding pad by (simp_all add: sha1_absorbed_def held_def)
  have "sha1_finish ctx = Some (c2, s5_bytes (sha1_state c2))"
    unfolding sha1_finish_def t prod.case last Let_def sha1_padding_def pad_bytes be64_count [OF c]
    using c1(1) c2(1) by (simp add: s5_bytes_def split: prod.splits)
  then show ?thesis using st by (simp add: sha1_digest_def)
qed

lemma sha1_new_absorbed:
  assumes "length buf = 64"
  shows "sha1_absorbed (sha1_new buf) []"
  using assms by (simp add: sha1_absorbed_def held_def sha1_new_def sha1_starts_def sha1_init_def count64_def)

interpretation sha1_hash: incremental_hash "sha1_new (replicate 64 0)" sha1_update
  "\<lambda>c. map_option snd (sha1_finish c)" sha1_absorbed "2 ^ 31" sha1_digest
proof unfold_locales
  show "sha1_absorbed (sha1_new (replicate 64 0)) []" by (simp add: sha1_new_absorbed)
next
  fix c m x
  assume "sha1_absorbed c m" "length (x :: byte list) < 2 ^ 31"
  then show "\<exists>c'. sha1_update c x = Some c' \<and> sha1_absorbed c' (m @ x)" by (rule sha1_update_absorbed)
next
  fix c m
  assume "sha1_absorbed c m"
  then show "map_option snd (sha1_finish c) = Some (sha1_digest m)" using sha1_finish_digest by force
qed

lemma sha1_digest_length: "length (sha1_digest m) = 20"
  by (simp add: sha1_digest_def s5_bytes_def split: prod.split)

end
