(* ===== verification/Sha1Props.thy ===== *)
theory Sha1Props
  imports Sha1Correct
begin

text \<open>
  The properties of SHA-1, with the first test vector of the self test in
  \<^verbatim>\<open>lib_generic/sha1.c\<close> computed in the logic, ten rounds at a time.
\<close>

section \<open>A test vector\<close>

definition abc_block :: "byte list" where
  "abc_block = 97 # 98 # 99 # 0x80 # replicate 59 0 @ [24]"

lemma abc_words: "sha1_words abc_block =
    [0x61626380, 0, 0, 0, 0, 0, 0, 0, 0, 0, 0, 0, 0, 0, 0, 24]"
  by code_simp

lemma abc_rounds_0: "fold sha1_round [0..<10]
    ((0x67452301, 0xEFCDAB89, 0x98BADCFE, 0x10325476, 0xC3D2E1F0),
     [0x61626380, 0, 0, 0, 0, 0, 0, 0, 0, 0, 0, 0, 0, 0, 0, 24]) =
    ((0x8351F929, 0x4B6AE328, 0x27A301F5, 0x664F8C30, 0x0FF1F290),
     [0x61626380, 0x00000000, 0x00000000, 0x00000000, 0x00000000, 0x00000000, 0x00000000, 0x00000000,
      0x00000000, 0x00000000, 0x00000000, 0x00000000, 0x00000000, 0x00000000, 0x00000000, 0x00000018])"
  by code_simp

lemma abc_rounds_10: "fold sha1_round [10..<20]
    ((0x8351F929, 0x4B6AE328, 0x27A301F5, 0x664F8C30, 0x0FF1F290),
     [0x61626380, 0x00000000, 0x00000000, 0x00000000, 0x00000000, 0x00000000, 0x00000000, 0x00000000,
      0x00000000, 0x00000000, 0x00000000, 0x00000000, 0x00000000, 0x00000000, 0x00000000, 0x00000018]) =
    ((0xFD9E1D7D, 0xDC64901D, 0x20AA99CA, 0xD3A49608, 0xC82F758B),
     [0xC2C4C700, 0x00000000, 0x00000030, 0x85898E01, 0x00000000, 0x00000000, 0x00000000, 0x00000000,
      0x00000000, 0x00000000, 0x00000000, 0x00000000, 0x00000000, 0x00000000, 0x00000000, 0x00000018])"
  by code_simp

lemma abc_rounds_20: "fold sha1_round [20..<30]
    ((0xFD9E1D7D, 0xDC64901D, 0x20AA99CA, 0xD3A49608, 0xC82F758B),
     [0xC2C4C700, 0x00000000, 0x00000030, 0x85898E01, 0x00000000, 0x00000000, 0x00000000, 0x00000000,
      0x00000000, 0x00000000, 0x00000000, 0x00000000, 0x00000000, 0x00000000, 0x00000000, 0x00000018]) =
    ((0xC5FBAF5D, 0x8370B52E, 0xD2AA1365, 0x6F8D7EF5, 0x12104EE9),
     [0xC2C4C700, 0x00000000, 0x00000030, 0x85898E01, 0x00000000, 0x00000060, 0x0B131C03, 0x00000030,
      0x85898EC1, 0x16263806, 0x00000000, 0x00000180, 0x2C4C700C, 0x000000F0, 0x00000000, 0x00000018])"
  by code_simp

lemma abc_rounds_30: "fold sha1_round [30..<40]
    ((0xC5FBAF5D, 0x8370B52E, 0xD2AA1365, 0x6F8D7EF5, 0x12104EE9),
     [0xC2C4C700, 0x00000000, 0x00000030, 0x85898E01, 0x00000000, 0x00000060, 0x0B131C03, 0x00000030,
      0x85898EC1, 0x16263806, 0x00000000, 0x00000180, 0x2C4C700C, 0x000000F0, 0x00000000, 0x00000018]) =
    ((0x32DE1CBA, 0x4C986405, 0xF718E5CF, 0x03D447F6, 0xF72EEC32),
     [0x8E9A9202, 0x00000600, 0xB131C0F0, 0x16263BC6, 0x4EBED41E, 0x626380A1, 0x16263806, 0x000018C0,
      0x85898EC1, 0x16263806, 0x00000000, 0x00000180, 0x2C4C700C, 0x000000F0, 0x93AFB507, 0x5898E048])"
  by code_simp

lemma abc_rounds_40: "fold sha1_round [40..<50]
    ((0x32DE1CBA, 0x4C986405, 0xF718E5CF, 0x03D447F6, 0xF72EEC32),
     [0x8E9A9202, 0x00000600, 0xB131C0F0, 0x16263BC6, 0x4EBED41E, 0x626380A1, 0x16263806, 0x000018C0,
      0x85898EC1, 0x16263806, 0x00000000, 0x00000180, 0x2C4C700C, 0x000000F0, 0x93AFB507, 0x5898E048]) =
    ((0x120731C5, 0xBAF39337, 0xAFAB40B2, 0x2806E11B, 0x8714787C),
     [0xDA9415ED, 0x26380A16, 0xB131C0F0, 0x16263BC6, 0x4EBED41E, 0x626380A1, 0x16263806, 0x000018C0,
      0xD2E138C4, 0x00000F00, 0x3AFB5079, 0x898E04E5, 0xE2BA3C2B, 0x000060C0, 0x053A37CD, 0x74458547])"
  by code_simp

lemma abc_rounds_50: "fold sha1_round [50..<60]
    ((0x120731C5, 0xBAF39337, 0xAFAB40B2, 0x2806E11B, 0x8714787C),
     [0xDA9415ED, 0x26380A16, 0xB131C0F0, 0x16263BC6, 0x4EBED41E, 0x626380A1, 0x16263806, 0x000018C0,
      0xD2E138C4, 0x00000F00, 0x3AFB5079, 0x898E04E5, 0xE2BA3C2B, 0x000060C0, 0x053A37CD, 0x74458547]) =
    ((0x3F52DE5A, 0x09D785FD, 0x3498BFD4, 0xF211824F, 0xD79915AB),
     [0xDA9415ED, 0x26380A16, 0x626383A1, 0x4EBF54DE, 0x3835B44B, 0x0000F600, 0x1E84C7A3, 0x98E04D98,
      0x651D16A0, 0x62658CA1, 0x458544D6, 0x44584CB7, 0xE2BA3C2B, 0x000060C0, 0x053A37CD, 0x74458547])"
  by code_simp

lemma abc_rounds_60: "fold sha1_round [60..<70]
    ((0x3F52DE5A, 0x09D785FD, 0x3498BFD4, 0xF211824F, 0xD79915AB),
     [0xDA9415ED, 0x26380A16, 0x626383A1, 0x4EBF54DE, 0x3835B44B, 0x0000F600, 0x1E84C7A3, 0x98E04D98,
      0x651D16A0, 0x62658CA1, 0x458544D6, 0x44584CB7, 0xE2BA3C2B, 0x000060C0, 0x053A37CD, 0x74458547]) =
    ((0x3F2588C2, 0x497093C0, 0xDE37534A, 0x030F7CAD, 0x4405957E),
     [0x7CD45C9D, 0x000F0000, 0xFB50753A, 0xEC6765E8, 0xBA3C2BE2, 0x0060C000, 0x1E84C7A3, 0x98E04D98,
      0x651D16A0, 0x62658CA1, 0x458544D6, 0x44584CB7, 0x7BA06619, 0x6380AEA2, 0x0AE55269, 0x627B49A1])"
  by code_simp

lemma abc_rounds_70: "fold sha1_round [70..<80]
    ((0x3F2588C2, 0x497093C0, 0xDE37534A, 0x030F7CAD, 0x4405957E),
     [0x7CD45C9D, 0x000F0000, 0xFB50753A, 0xEC6765E8, 0xBA3C2BE2, 0x0060C000, 0x1E84C7A3, 0x98E04D98,
      0x651D16A0, 0x62658CA1, 0x458544D6, 0x44584CB7, 0x7BA06619, 0x6380AEA2, 0x0AE55269, 0x627B49A1]) =
    ((0x42541B35, 0x5738D5E1, 0x21834873, 0x681E6DF6, 0xD8FDF6AD),
     [0x7CD45C9D, 0x000F0000, 0xFB50753A, 0xEC6765E8, 0xBA3C2BE2, 0x0060C000, 0x3A37CD05, 0x458546F4,
      0xB8599DD6, 0x380A1A26, 0x01E02203, 0xE7CC3456, 0xE6E60B69, 0x00F60A00, 0x5795EF4F, 0x822E0879])"
  by code_simp

lemmas abc_rounds = abc_rounds_0 abc_rounds_10 abc_rounds_20 abc_rounds_30 abc_rounds_40 abc_rounds_50 abc_rounds_60 abc_rounds_70

lemma rounds_split:
  "[0..<80] = [0..<10] @ [10..<20] @ [20..<30] @ [30..<40] @ [40..<50] @ [50..<60] @ [60..<70] @ [70..<80]"
  by code_simp

lemma abc_compress:
  "sha1_compress sha1_init abc_block = (0xA9993E36, 0x4706816A, 0xBA3E2571, 0x7850C26C, 0x9CD0D89D)"
proof -
  let ?c = "\<lparr>sha1_total = (0, 0), sha1_state = sha1_init, sha1_buffer = []\<rparr>"
  have "sha1_state (sha1_process ?c abc_block) = (0xA9993E36, 0x4706816A, 0xBA3E2571, 0x7850C26C, 0x9CD0D89D)"
    unfolding sha1_process_def rounds_split fold_append comp_def sha1_context.simps abc_words sha1_init_def
      abc_rounds prod.case by (simp add: sha1_add_def)
  then show ?thesis by (simp add: sha1_process_compress)
qed

lemma abc_padded: "padded be64 [97, 98, 99] = abc_block"
proof -
  have "zeros_needed (length [97, 98, 99 :: byte]) = 52" by (simp add: zeros_needed_def)
  moreover have "be64 (8 * length [97, 98, 99 :: byte]) = [0, 0, 0, 0, 0, 0, 0, 24]" by (simp add: be64_def put_be32_def)
  moreover have "replicate 52 0 @ [0, 0, 0, 0, 0, 0, 0, 24] = (replicate 59 0 @ [24] :: byte list)" by code_simp
  ultimately show ?thesis unfolding padded_def abc_block_def by simp
qed

lemma abc_bytes: "s5_bytes (0xA9993E36, 0x4706816A, 0xBA3E2571, 0x7850C26C, 0x9CD0D89D) =
    [0xA9, 0x99, 0x3E, 0x36, 0x47, 0x06, 0x81, 0x6A, 0xBA, 0x3E,
     0x25, 0x71, 0x78, 0x50, 0xC2, 0x6C, 0x9C, 0xD0, 0xD8, 0x9D]"
  by code_simp

lemma abc_absorb: "absorb f s abc_block = f s abc_block"
  using absorb_block [of abc_block f s "[]"] by (simp add: abc_block_def)

lemma abc_digest:
  "sha1_digest [97, 98, 99] = [0xA9, 0x99, 0x3E, 0x36, 0x47, 0x06, 0x81, 0x6A, 0xBA, 0x3E,
     0x25, 0x71, 0x78, 0x50, 0xC2, 0x6C, 0x9C, 0xD0, 0xD8, 0x9D]"
  unfolding sha1_digest_def abc_padded abc_absorb abc_compress abc_bytes by (rule refl)

section \<open>The properties\<close>

definition hmac_ref :: "(byte list \<Rightarrow> byte list) \<Rightarrow> byte list \<Rightarrow> byte list \<Rightarrow> byte list" where
  "hmac_ref h key m =
     (let k = key @ replicate (64 - length key) 0
      in h (map (\<lambda>b. 0x5C XOR b) k @ h (map (\<lambda>b. 0x36 XOR b) k @ m)))"

lemma sha1_pad_key_map:
  "length key \<le> 64 \<Longrightarrow> sha1_pad_key x key = map (\<lambda>b. x XOR b) (key @ replicate (64 - length key) 0)"
  by (rule nth_equalityI) (auto simp: sha1_pad_key_def nth_append)

lemma sha1_pad_key_take: "sha1_pad_key x key = sha1_pad_key x (take 64 key)"
  by (simp add: sha1_pad_key_def)

lemma sha1_pad_key_length [simp]: "length (sha1_pad_key x key) = 64"
  by (simp add: sha1_pad_key_def)

lemma sha1_restart: "length (sha1_buffer c) = 64 \<Longrightarrow> sha1_absorbed (sha1_starts c) []"
  by (simp add: sha1_absorbed_def held_def sha1_starts_def sha1_init_def count64_def)

text \<open>Hashing two pieces with the code's context.\<close>

lemma sha1_two_updates:
  assumes "sha1_absorbed c []" and "length x < 2 ^ 31" and "length y < 2 ^ 31"
  obtains c1 c2 c3 where "sha1_update c x = Some c1" "sha1_update c1 y = Some c2"
    "sha1_finish c2 = Some (c3, sha1_digest (x @ y))" "length (sha1_buffer c3) = 64"
proof -
  from sha1_update_absorbed [OF assms(1,2)] obtain c1 where
    c1: "sha1_update c x = Some c1" "sha1_absorbed c1 x" by auto
  from sha1_update_absorbed [OF c1(2) assms(3)] obtain c2 where
    c2: "sha1_update c1 y = Some c2" "sha1_absorbed c2 (x @ y)" by auto
  from sha1_finish_digest [OF c2(2)] c1 c2 that show thesis by blast
qed

lemma sha1_hmac_cut:
  assumes "length buf = 64" and "length m < 2 ^ 31"
  shows "sha1_hmac buf key m = Some (hmac_ref sha1_digest (take 64 key) m)"
proof -
  let ?i = "sha1_pad_key 0x36 key" and ?o = "sha1_pad_key 0x5C key"
  have k: "?i = map (\<lambda>b. 0x36 XOR b) (take 64 key @ replicate (64 - length (take 64 key)) 0)"
    "?o = map (\<lambda>b. 0x5C XOR b) (take 64 key @ replicate (64 - length (take 64 key)) 0)"
    using sha1_pad_key_map [of "take 64 key"] sha1_pad_key_take by simp_all
  obtain c1 c2 c3 where c: "sha1_update (sha1_new buf) ?i = Some c1" "sha1_update c1 m = Some c2"
    "sha1_finish c2 = Some (c3, sha1_digest (?i @ m))" "length (sha1_buffer c3) = 64"
    by (rule sha1_two_updates [OF sha1_new_absorbed [OF assms(1)] _ assms(2), of ?i]) auto
  obtain d1 d2 d3 where d: "sha1_update (sha1_starts c3) ?o = Some d1"
    "sha1_update d1 (sha1_digest (?i @ m)) = Some d2"
    "sha1_finish d2 = Some (d3, sha1_digest (?o @ sha1_digest (?i @ m)))"
    by (rule sha1_two_updates [OF sha1_restart [OF c(4)], of ?o "sha1_digest (?i @ m)"])
      (auto simp: sha1_digest_length)
  show ?thesis using c(1-3) d unfolding k hmac_ref_def sha1_hmac_def by (simp add: k [symmetric] Let_def)
qed

text \<open>C27. SHA-1 by the standard: however a message is cut into updates of less than \<open>2 ^ 31\<close>
  bytes, the code never leaves its buffer and the digest is the one of FIPS 180-1.\<close>

theorem sha1_any_cut:
  assumes "\<forall>x \<in> set xs. length x < 2 ^ 31"
  shows "Option.bind (update_all sha1_update (sha1_new (replicate 64 0)) xs)
      (\<lambda>c. map_option snd (sha1_finish c)) = Some (sha1_digest (concat xs))"
  using sha1_hash.chunks_digest [OF assms] .

lemma sha1_any_cut_witness:
  "Option.bind (update_all sha1_update (sha1_new (replicate 64 0)) [[97], [98, 99]])
      (\<lambda>c. map_option snd (sha1_finish c)) =
   Some [0xA9, 0x99, 0x3E, 0x36, 0x47, 0x06, 0x81, 0x6A, 0xBA, 0x3E,
     0x25, 0x71, 0x78, 0x50, 0xC2, 0x6C, 0x9C, 0xD0, 0xD8, 0x9D]"
  using sha1_any_cut [of "[[97], [98, 99]]"] abc_digest by simp

text \<open>The keyed hash of a key of at most 64 bytes is HMAC of RFC 2104 over SHA-1.\<close>

theorem sha1_hmac_rfc:
  assumes "length buf = 64" and "length m < 2 ^ 31" and "length key \<le> 64"
  shows "sha1_hmac buf key m = Some (hmac_ref sha1_digest key m)"
  using sha1_hmac_cut [OF assms(1,2), of key] assms(3) by simp

lemma sha1_hmac_rfc_witness:
  "sha1_hmac (replicate 64 0) [1, 2, 3] [4] = Some (hmac_ref sha1_digest [1, 2, 3] [4])"
  by (rule sha1_hmac_rfc) simp_all

text \<open>A longer key is cut to its first 64 bytes, where the RFC hashes it.\<close>

lemma sha1_hmac_long_key:
  assumes "length buf = 64" and "length m < 2 ^ 31"
  shows "sha1_hmac buf key m = sha1_hmac buf (take 64 key) m"
  using sha1_hmac_cut [OF assms] by simp

text \<open>The one-call digest, and its variant that serves the watchdog between chunks.\<close>

lemma sha1_csum_digest:
  assumes "length buf = 64" and "length m < 2 ^ 31"
  shows "sha1_csum buf m = Some (sha1_digest m)"
proof -
  from sha1_update_absorbed [OF sha1_new_absorbed [OF assms(1)] assms(2)] obtain c where
    "sha1_update (sha1_new buf) m = Some c" "sha1_absorbed c m" by auto
  then show ?thesis using sha1_finish_digest [of c m] by (auto simp: sha1_csum_def)
qed

lemma sha1_chunks_absorbed:
  assumes "sha1_absorbed c m" and "0 < n" and "n < 2 ^ 31"
  shows "\<exists>c'. sha1_chunks c x n = Some c' \<and> sha1_absorbed c' (m @ x)"
  using assms
proof (induction "length x" arbitrary: c m x rule: less_induct)
  case less
  show ?case
  proof (cases "x = []")
    case True
    then show ?thesis using less.prems by (simp add: sha1_chunks.simps)
  next
    case False
    have "length (take n x) < 2 ^ 31" using less.prems(3) by simp
    from sha1_update_absorbed [OF less.prems(1) this] obtain c1 where
      c1: "sha1_update c (take n x) = Some c1" "sha1_absorbed c1 (m @ take n x)" by blast
    have "length (drop n x) < length x" using False less.prems(2) by simp
    from less.hyps [OF this c1(2) less.prems(2,3)] show ?thesis
      using False c1(1) less.prems(2) by (simp add: sha1_chunks.simps [of c x])
  qed
qed

lemma sha1_csum_wd_is_csum:
  assumes "length buf = 64" and "length m < 2 ^ 31" and "0 < n" and "n < 2 ^ 31"
  shows "sha1_csum_wd wd buf m n = sha1_csum buf m"
proof -
  from sha1_chunks_absorbed [OF sha1_new_absorbed [OF assms(1)] assms(3,4), of m] obtain c where
    "sha1_chunks (sha1_new buf) m n = Some c" "sha1_absorbed c m" by auto
  then show ?thesis using sha1_finish_digest [of c m] sha1_csum_digest [OF assms(1,2)]
    by (auto simp: sha1_csum_wd_def sha1_csum_def)
qed

end
