(* ===== verification/Sha256.thy ===== *)
theory Sha256
  imports BlockHash
begin

text \<open>
  SHA-256, \<^verbatim>\<open>lib_generic/sha256.c\<close>, modelled like SHA-1: a round returns the registers in the
  order of the next call of \<open>P\<close>, and after 64 rounds they are back in place. The schedule is the
  array \<open>W\<close> of 64 words, filled by \<open>R(t)\<close> as the rounds go.
\<close>

type_synonym s8 = "u32 \<times> u32 \<times> u32 \<times> u32 \<times> u32 \<times> u32 \<times> u32 \<times> u32"

record sha256_context =
  sha256_total :: "u32 \<times> u32"
  sha256_state :: s8
  sha256_buffer :: mem

definition sha256_starts :: "sha256_context \<Rightarrow> sha256_context" where
  "sha256_starts ctx = ctx\<lparr>sha256_total := (0, 0),
     sha256_state := (0x6A09E667, 0xBB67AE85, 0x3C6EF372, 0xA54FF53A,
       0x510E527F, 0x9B05688C, 0x1F83D9AB, 0x5BE0CD19)\<rparr>"

section \<open>The compression function\<close>

definition sha256_SHR :: "u32 \<Rightarrow> nat \<Rightarrow> u32" where
  "sha256_SHR x n = drop_bit n (x AND 0xFFFFFFFF)"

definition sha256_ROTR :: "u32 \<Rightarrow> nat \<Rightarrow> u32" where
  "sha256_ROTR x n = sha256_SHR x n OR push_bit (32 - n) x"

definition sha256_S0 :: "u32 \<Rightarrow> u32" where
  "sha256_S0 x = sha256_ROTR x 7 XOR sha256_ROTR x 18 XOR sha256_SHR x 3"

definition sha256_S1 :: "u32 \<Rightarrow> u32" where
  "sha256_S1 x = sha256_ROTR x 17 XOR sha256_ROTR x 19 XOR sha256_SHR x 10"

definition sha256_S2 :: "u32 \<Rightarrow> u32" where
  "sha256_S2 x = sha256_ROTR x 2 XOR sha256_ROTR x 13 XOR sha256_ROTR x 22"

definition sha256_S3 :: "u32 \<Rightarrow> u32" where
  "sha256_S3 x = sha256_ROTR x 6 XOR sha256_ROTR x 11 XOR sha256_ROTR x 25"

definition sha256_F0 :: "u32 \<Rightarrow> u32 \<Rightarrow> u32 \<Rightarrow> u32" where
  "sha256_F0 x y z = (x AND y) OR (z AND (x OR y))"

definition sha256_F1 :: "u32 \<Rightarrow> u32 \<Rightarrow> u32 \<Rightarrow> u32" where
  "sha256_F1 x y z = z XOR (x AND (y XOR z))"

definition sha256_R :: "u32 list \<Rightarrow> nat \<Rightarrow> u32 list" where
  "sha256_R W t =
     W[t := sha256_S1 (W ! (t - 2)) + W ! (t - 7) + sha256_S0 (W ! (t - 15)) + W ! (t - 16)]"

definition sha256_P :: "u32 \<Rightarrow> u32 \<Rightarrow> s8 \<Rightarrow> s8" where
  "sha256_P x K s = (case s of (a, b, c, d, e, f, g, h) \<Rightarrow>
     (let temp1 = h + sha256_S3 e + sha256_F1 e f g + K + x;
          temp2 = sha256_S2 a + sha256_F0 a b c
      in (temp1 + temp2, a, b, c, d + temp1, e, f, g)))"

text \<open>The constants of the 64 calls.\<close>

definition sha256_K :: "u32 list" where
  "sha256_K =
    [0x428A2F98, 0x71374491, 0xB5C0FBCF, 0xE9B5DBA5, 0x3956C25B, 0x59F111F1,
     0x923F82A4, 0xAB1C5ED5, 0xD807AA98, 0x12835B01, 0x243185BE, 0x550C7DC3,
     0x72BE5D74, 0x80DEB1FE, 0x9BDC06A7, 0xC19BF174, 0xE49B69C1, 0xEFBE4786,
     0x0FC19DC6, 0x240CA1CC, 0x2DE92C6F, 0x4A7484AA, 0x5CB0A9DC, 0x76F988DA,
     0x983E5152, 0xA831C66D, 0xB00327C8, 0xBF597FC7, 0xC6E00BF3, 0xD5A79147,
     0x06CA6351, 0x14292967, 0x27B70A85, 0x2E1B2138, 0x4D2C6DFC, 0x53380D13,
     0x650A7354, 0x766A0ABB, 0x81C2C92E, 0x92722C85, 0xA2BFE8A1, 0xA81A664B,
     0xC24B8B70, 0xC76C51A3, 0xD192E819, 0xD6990624, 0xF40E3585, 0x106AA070,
     0x19A4C116, 0x1E376C08, 0x2748774C, 0x34B0BCB5, 0x391C0CB3, 0x4ED8AA4A,
     0x5B9CCA4F, 0x682E6FF3, 0x748F82EE, 0x78A5636F, 0x84C87814, 0x8CC70208,
     0x90BEFFFA, 0xA4506CEB, 0xBEF9A3F7, 0xC67178F2]"

definition sha256_round :: "nat \<Rightarrow> s8 \<times> u32 list \<Rightarrow> s8 \<times> u32 list" where
  "sha256_round t sW = (case sW of (s, W) \<Rightarrow>
     (let W = (if t < 16 then W else sha256_R W t) in (sha256_P (W ! t) (sha256_K ! t) s, W)))"

text \<open>\<open>junk\<close> is what the array holds behind the words of the block before the rounds fill it.\<close>

definition sha256_words :: "byte list \<Rightarrow> u32 list \<Rightarrow> u32 list" where
  "sha256_words data junk = map (\<lambda>i. get_be32 (drop (4 * i) data)) [0..<16] @ junk"

definition sha256_add :: "s8 \<Rightarrow> s8 \<Rightarrow> s8" where
  "sha256_add s t = (case (s, t) of ((a, b, c, d, e, f, g, h), (a', b', c', d', e', f', g', h')) \<Rightarrow>
     (a + a', b + b', c + c', d + d', e + e', f + f', g + g', h + h'))"

definition sha256_process :: "sha256_context \<Rightarrow> byte list \<Rightarrow> sha256_context" where
  "sha256_process ctx data =
     (case fold sha256_round [0..<64] (sha256_state ctx, sha256_words data (replicate 48 0)) of
        (s, W) \<Rightarrow> ctx\<lparr>sha256_state := sha256_add (sha256_state ctx) s\<rparr>)"

section \<open>Update and final digest\<close>

text \<open>\<open>while (length >= 64)\<close>: the context and the input that is left.\<close>

function sha256_blocks :: "sha256_context \<Rightarrow> byte list \<Rightarrow> sha256_context \<times> byte list" where
  "sha256_blocks ctx input =
     (if 64 \<le> length input then sha256_blocks (sha256_process ctx (take 64 input)) (drop 64 input)
      else (ctx, input))"
  by pat_completeness auto
termination by (relation "measure (\<lambda>(ctx, input). length input)") auto

declare sha256_blocks.simps [simp del]

text \<open>The data part of the update, \<open>left\<close> bytes being in the buffer.\<close>

definition sha256_input :: "sha256_context \<Rightarrow> nat \<Rightarrow> byte list \<Rightarrow> sha256_context option" where
  "sha256_input ctx left input = do {
     let fill = 64 - left;
     (ctx, input, left) \<leftarrow>
       (if left \<noteq> 0 \<and> fill \<le> length input
        then do {
          buf \<leftarrow> wrn (sha256_buffer ctx) left (take fill input);
          Some (sha256_process (ctx\<lparr>sha256_buffer := buf\<rparr>) buf, drop fill input, 0)
        }
        else Some (ctx, input, left));
     let (ctx, input) = sha256_blocks ctx input;
     if 0 < length input
     then map_option (\<lambda>buf. ctx\<lparr>sha256_buffer := buf\<rparr>) (wrn (sha256_buffer ctx) left input)
     else Some ctx
   }"

definition sha256_update :: "sha256_context \<Rightarrow> byte list \<Rightarrow> sha256_context option" where
  "sha256_update ctx input =
     (let length = word_of_nat (length input) :: u32 in
      if length = 0 then Some ctx
      else
        (let left = unat (fst (sha256_total ctx) AND 0x3F);
             t0 = (fst (sha256_total ctx) + length) AND 0xFFFFFFFF;
             t1 = (if t0 < length then snd (sha256_total ctx) + 1 else snd (sha256_total ctx))
         in sha256_input (ctx\<lparr>sha256_total := (t0, t1)\<rparr>) left input))"

definition sha256_padding :: "byte list" where
  "sha256_padding = 0x80 # replicate 63 0"

definition sha256_finish :: "sha256_context \<Rightarrow> (sha256_context \<times> byte list) option" where
  "sha256_finish ctx =
     (case sha256_total ctx of (t0, t1) \<Rightarrow> do {
        let high = drop_bit 29 t0 OR push_bit 3 t1;
        let low = push_bit 3 t0;
        let msglen = put_be32 high @ put_be32 low;
        let last = unat (t0 AND 0x3F);
        let padn = (if last < 56 then 56 - last else 120 - last);
        ctx \<leftarrow> sha256_update ctx (take padn sha256_padding);
        ctx \<leftarrow> sha256_update ctx msglen;
        (case sha256_state ctx of (a, b, c, d, e, f, g, h) \<Rightarrow>
           Some (ctx, put_be32 a @ put_be32 b @ put_be32 c @ put_be32 d @
             put_be32 e @ put_be32 f @ put_be32 g @ put_be32 h))
      })"

text \<open>The context on the stack, with whatever bytes \<open>buf\<close> its buffer holds.\<close>

definition sha256_new :: "mem \<Rightarrow> sha256_context" where
  "sha256_new buf = sha256_starts \<lparr>sha256_total = (0, 0), sha256_state = (0, 0, 0, 0, 0, 0, 0, 0), sha256_buffer = buf\<rparr>"

end
