(* ===== verification/Sha256Correct.thy ===== *)
theory Sha256Correct
  imports Sha256
begin

text \<open>
  SHA-256 as the standard FIPS 180-2 states it, and the code against it, on the plan of the
  development of SHA-1; the schedule here is an array that the rounds fill.
\<close>

section \<open>The standard\<close>

definition sha256_sigma0 :: "u32 \<Rightarrow> u32" where
  "sha256_sigma0 x = word_rotr 7 x XOR word_rotr 18 x XOR drop_bit 3 x"

definition sha256_sigma1 :: "u32 \<Rightarrow> u32" where
  "sha256_sigma1 x = word_rotr 17 x XOR word_rotr 19 x XOR drop_bit 10 x"

fun sha256_sched :: "byte list \<Rightarrow> nat \<Rightarrow> u32" where
  "sha256_sched b t =
     (if t < 16 then get_be32 (drop (4 * t) b)
      else sha256_sigma1 (sha256_sched b (t - 2)) + sha256_sched b (t - 7) +
        sha256_sigma0 (sha256_sched b (t - 15)) + sha256_sched b (t - 16))"

declare sha256_sched.simps [simp del]

definition sha256_step :: "byte list \<Rightarrow> nat \<Rightarrow> s8 \<Rightarrow> s8" where
  "sha256_step blk t s = (case s of (a, b, c, d, e, f, g, h) \<Rightarrow>
     (let t1 = h + (word_rotr 6 e XOR word_rotr 11 e XOR word_rotr 25 e) + ((e AND f) OR (NOT e AND g)) +
            sha256_K ! t + sha256_sched blk t;
          t2 = (word_rotr 2 a XOR word_rotr 13 a XOR word_rotr 22 a) +
            ((a AND b) OR (a AND c) OR (b AND c))
      in (t1 + t2, a, b, c, d + t1, e, f, g)))"

definition sha256_compress :: "s8 \<Rightarrow> byte list \<Rightarrow> s8" where
  "sha256_compress h blk = sha256_add h (fold (sha256_step blk) [0..<64] h)"

definition sha256_init :: s8 where
  "sha256_init = (0x6A09E667, 0xBB67AE85, 0x3C6EF372, 0xA54FF53A,
     0x510E527F, 0x9B05688C, 0x1F83D9AB, 0x5BE0CD19)"

definition s8_bytes :: "s8 \<Rightarrow> byte list" where
  "s8_bytes s = (case s of (a, b, c, d, e, f, g, h) \<Rightarrow>
     put_be32 a @ put_be32 b @ put_be32 c @ put_be32 d @ put_be32 e @ put_be32 f @ put_be32 g @ put_be32 h)"

definition sha256_digest :: "byte list \<Rightarrow> byte list" where
  "sha256_digest m = s8_bytes (absorb sha256_compress sha256_init (padded be64 m))"

section \<open>The compression function\<close>

lemma sha256_ROTR_rotr: "0 < n \<Longrightarrow> n < 32 \<Longrightarrow> sha256_ROTR x n = word_rotr n x"
  by (simp add: sha256_ROTR_def sha256_SHR_def rotr_shifts)

lemma sha256_S01: "sha256_S0 = sha256_sigma0" "sha256_S1 = sha256_sigma1"
  by (intro ext, simp add: sha256_S0_def sha256_sigma0_def sha256_S1_def sha256_sigma1_def
    sha256_ROTR_rotr sha256_SHR_def)+

text \<open>Before round \<open>t\<close> the array holds the schedule up to the word of the round before.\<close>

definition words_inv :: "byte list \<Rightarrow> nat \<Rightarrow> u32 list \<Rightarrow> bool" where
  "words_inv blk t W \<longleftrightarrow> length W = 64 \<and> (\<forall>j < max 16 t. W ! j = sha256_sched blk j)"

lemma words_inv_init: "words_inv blk 0 (sha256_words blk (replicate 48 0))"
  by (auto simp: words_inv_def sha256_words_def sha256_sched.simps nth_append)

lemma sha256_P_step:
  "W ! t = sha256_sched blk t \<Longrightarrow> sha256_P (W ! t) (sha256_K ! t) s = sha256_step blk t s"
  by (simp add: sha256_P_def sha256_step_def sha256_S2_def sha256_S3_def sha256_F0_def sha256_F1_def
    sha256_ROTR_rotr choose_xor majority_or split: prod.split)

lemma sha256_round_step:
  assumes inv: "words_inv blk t W" and t: "t < 64"
  shows "\<exists>W'. sha256_round t (s, W) = (sha256_step blk t s, W') \<and> words_inv blk (Suc t) W'"
proof (cases "t < 16")
  case True
  then show ?thesis using inv sha256_P_step [of W t blk s]
    by (auto simp: sha256_round_def words_inv_def)
next
  case False
  have w: "sha256_R W t = W[t := sha256_sched blk t]"
    using inv False by (simp add: sha256_R_def sha256_S01 words_inv_def sha256_sched.simps [of blk t])
  moreover have "W[t := sha256_sched blk t] ! t = sha256_sched blk t" using inv t by (simp add: words_inv_def)
  moreover have "words_inv blk (Suc t) (W[t := sha256_sched blk t])"
    using inv t False by (auto simp: words_inv_def nth_list_update less_Suc_eq)
  ultimately show ?thesis
    using False sha256_P_step [of "W[t := sha256_sched blk t]" t blk s] by (simp add: sha256_round_def)
qed

lemma sha256_rounds_steps:
  "words_inv blk t W \<Longrightarrow> t + n \<le> 64 \<Longrightarrow>
    \<exists>W'. fold sha256_round [t..<t + n] (s, W) = (fold (sha256_step blk) [t..<t + n] s, W')"
proof (induction n arbitrary: t s W)
  case (Suc n)
  have "t < 64" using Suc.prems(2) by simp
  from sha256_round_step [OF Suc.prems(1) this, of s] obtain W' where
    "sha256_round t (s, W) = (sha256_step blk t s, W')" "words_inv blk (Suc t) W'" by blast
  then show ?case using Suc.IH [of "Suc t" W' "sha256_step blk t s"] Suc.prems(2) by (simp add: upt_rec)
qed simp

lemma sha256_process_compress:
  "sha256_process ctx blk = ctx\<lparr>sha256_state := sha256_compress (sha256_state ctx) blk\<rparr>"
  using sha256_rounds_steps [OF words_inv_init, of 64 "sha256_state ctx" blk]
  by (auto simp: sha256_process_def sha256_compress_def)

section \<open>The incremental hash\<close>

definition sha256_absorbed :: "sha256_context \<Rightarrow> byte list \<Rightarrow> bool" where
  "sha256_absorbed ctx m \<longleftrightarrow>
     held sha256_compress sha256_init m (sha256_state ctx) (sha256_buffer ctx) \<and>
     count64 (fst (sha256_total ctx)) (snd (sha256_total ctx)) = length m mod 2 ^ 64"

lemma sha256_blocks_absorb:
  "sha256_blocks ctx x = (ctx\<lparr>sha256_state := absorb sha256_compress (sha256_state ctx) x\<rparr>, pending x)"
proof (induction ctx x rule: sha256_blocks.induct)
  case (1 ctx x)
  show ?case
  proof (cases "64 \<le> length x")
    case True
    then have "x = take 64 x @ drop 64 x" "length (take 64 x) = 64" by simp_all
    then have "pending x = pending (drop 64 x)" by (metis pending_block)
    then show ?thesis
      using True 1 [OF True] by (simp add: sha256_blocks.simps [of ctx x] absorb.simps [of _ _ x] sha256_process_compress)
  next
    case False
    then show ?thesis by (simp add: sha256_blocks.simps [of ctx x])
  qed
qed

lemma sha256_len: "x \<noteq> [] \<Longrightarrow> length x < 2 ^ 32 \<Longrightarrow> (word_of_nat (length x) :: u32) \<noteq> 0"
  by (auto simp: word_of_nat_eq_0_iff dest: dvd_imp_le)

lemma sha256_input_held:
  assumes h: "held sha256_compress sha256_init m (sha256_state c) (sha256_buffer c)" and k: "k = length m mod 64"
    and x: "x \<noteq> []"
  shows "\<exists>s buf. sha256_input c k x = Some (c\<lparr>sha256_state := s, sha256_buffer := buf\<rparr>) \<and>
    held sha256_compress sha256_init (m @ x) s buf"
proof -
  have buf: "length (sha256_buffer c) = 64" using h by (simp add: held_def)
  let ?s = "absorb sha256_compress sha256_init (m @ x)"
  obtain p where p: "p = pending (m @ x)" "length p \<le> 64" by simp
  have rest: "held sha256_compress sha256_init (m @ x) ?s (p @ drop (length p) b)" if "length b = 64" for b
    unfolding p(1) by (rule held_rest [OF that])
  consider (fill) "k \<noteq> 0" "64 - k \<le> length x" | (direct) "k = 0" | (short) "k \<noteq> 0" "length x < 64 - k"
    by linarith
  then show ?thesis
  proof cases
    case fill
    from held_fillE [OF h k fill(2)] obtain b where
      b: "wrn (sha256_buffer c) k (take (64 - k) x) = Some b" "length b = 64"
      "absorb sha256_compress (sha256_compress (sha256_state c) b) (drop (64 - k) x) = ?s"
      "pending (drop (64 - k) x) = p" using p(1) by metis
    have "sha256_input c k x = Some (c\<lparr>sha256_state := ?s, sha256_buffer := p @ drop (length p) b\<rparr>)"
      using fill b p(2)
      by (simp add: sha256_input_def Let_def sha256_process_compress sha256_blocks_absorb del: wrn_eq_Some)
    then show ?thesis using rest [OF b(2)] by blast
  next
    case direct
    then have z: "length m mod 64 = 0" using k by simp
    have d: "absorb sha256_compress (sha256_state c) x = ?s" "pending x = p"
      using held_direct [OF h z, of x] p(1) by simp_all
    have "sha256_input c k x = Some (c\<lparr>sha256_state := ?s, sha256_buffer := p @ drop (length p) (sha256_buffer c)\<rparr>)"
      using buf p(2) direct d by (cases c) (simp add: sha256_input_def Let_def sha256_blocks_absorb)
    then show ?thesis using rest [OF buf] by blast
  next
    case short
    let ?b = "take k (sha256_buffer c) @ x @ drop (k + length x) (sha256_buffer c)"
    have "sha256_input c k x = Some (c\<lparr>sha256_state := sha256_state c, sha256_buffer := ?b\<rparr>)"
      using short buf x by (simp add: sha256_input_def Let_def sha256_blocks_absorb)
    then show ?thesis using held_short [OF h k short(2)] by blast
  qed
qed

lemma sha256_update_absorbed:
  assumes abs: "sha256_absorbed ctx m" and len: "length x < 2 ^ 32"
  shows "\<exists>ctx'. sha256_update ctx x = Some ctx' \<and> sha256_absorbed ctx' (m @ x)"
proof (cases "x = []")
  case True
  then show ?thesis using abs by (simp add: sha256_update_def)
next
  case False
  obtain t0 t1 where t: "sha256_total ctx = (t0, t1)" by (cases "sha256_total ctx")
  let ?n = "word_of_nat (length x) :: u32"
  let ?t1 = "if t0 + ?n < ?n then t1 + 1 else t1"
  let ?c = "ctx\<lparr>sha256_total := (t0 + ?n, ?t1)\<rparr>"
  have h: "held sha256_compress sha256_init m (sha256_state ?c) (sha256_buffer ?c)"
    and c: "count64 t0 t1 = length m mod 2 ^ 64" using abs t by (simp_all add: sha256_absorbed_def)
  have cnt: "count64 (t0 + ?n) ?t1 = length (m @ x) mod 2 ^ 64"
    using count64_add [of "length x" t0 t1] len c by (simp add: mod_simps)
  have "unat (t0 AND 0x3F) = length m mod 64" using count64_mod64 [OF c] by (simp add: and_3F)
  moreover have "?n \<noteq> 0" using sha256_len [OF False] len by simp
  ultimately have "sha256_update ctx x = sha256_input ?c (length m mod 64) x"
    using t by (simp add: sha256_update_def Let_def)
  then show ?thesis using sha256_input_held [OF h refl False] cnt by (auto simp: sha256_absorbed_def)
qed

section \<open>The final digest\<close>

lemma sha256_finish_digest:
  assumes abs: "sha256_absorbed ctx m"
  shows "\<exists>ctx'. sha256_finish ctx = Some (ctx', sha256_digest m) \<and> length (sha256_buffer ctx') = 64"
proof -
  obtain t0 t1 where t: "sha256_total ctx = (t0, t1)" by (cases "sha256_total ctx")
  have c: "count64 t0 t1 = length m mod 2 ^ 64" using abs t by (simp add: sha256_absorbed_def)
  let ?pad = "0x80 # replicate (zeros_needed (length m)) 0"
  have last: "unat (t0 AND 0x3F) = length m mod 64" using count64_mod64 [OF c] by (simp add: and_3F)
  have "zeros_needed (length m) < 64" by (simp add: zeros_needed_def)
  then have "length ?pad < 2 ^ 32" by simp
  from sha256_update_absorbed [OF abs this] obtain c1 where
    c1: "sha256_update ctx ?pad = Some c1" "sha256_absorbed c1 (m @ ?pad)" by blast
  from sha256_update_absorbed [OF c1(2), of "be64 (8 * length m)"] obtain c2 where
    c2: "sha256_update c1 (be64 (8 * length m)) = Some c2"
    "sha256_absorbed c2 ((m @ ?pad) @ be64 (8 * length m))" by auto
  have pad: "(m @ ?pad) @ be64 (8 * length m) = padded be64 m" by (simp add: padded_def)
  have st: "sha256_state c2 = absorb sha256_compress sha256_init (padded be64 m)" "length (sha256_buffer c2) = 64"
    using c2(2) unfolding pad by (simp_all add: sha256_absorbed_def held_def)
  have "sha256_finish ctx = Some (c2, s8_bytes (sha256_state c2))"
    unfolding sha256_finish_def t prod.case last Let_def sha256_padding_def pad_bytes be64_count [OF c]
    using c1(1) c2(1) by (simp add: s8_bytes_def split: prod.splits)
  then show ?thesis using st by (simp add: sha256_digest_def)
qed

lemma sha256_new_absorbed:
  assumes "length buf = 64"
  shows "sha256_absorbed (sha256_new buf) []"
  using assms by (simp add: sha256_absorbed_def held_def sha256_new_def sha256_starts_def sha256_init_def count64_def)

interpretation sha256_hash: incremental_hash "sha256_new (replicate 64 0)" sha256_update
  "\<lambda>c. map_option snd (sha256_finish c)" sha256_absorbed "2 ^ 32" sha256_digest
proof unfold_locales
  show "sha256_absorbed (sha256_new (replicate 64 0)) []" by (simp add: sha256_new_absorbed)
next
  fix c m x
  assume "sha256_absorbed c m" "length (x :: byte list) < 2 ^ 32"
  then show "\<exists>c'. sha256_update c x = Some c' \<and> sha256_absorbed c' (m @ x)" by (rule sha256_update_absorbed)
next
  fix c m
  assume "sha256_absorbed c m"
  then show "map_option snd (sha256_finish c) = Some (sha256_digest m)" using sha256_finish_digest by force
qed

lemma sha256_digest_length: "length (sha256_digest m) = 32"
  by (simp add: sha256_digest_def s8_bytes_def split: prod.split)

end
