(* ===== verification/Md5.thy ===== *)
theory Md5
  imports BlockHash
begin

text \<open>
  MD5, \<^verbatim>\<open>lib_generic/md5.c\<close>. The context has four state words, the length in bits in two words and
  the block buffer \<open>in\<close>, which the code fills with every block before it compresses it. A step
  returns the registers in the order of the next \<open>MD5STEP\<close>.
\<close>

type_synonym s4 = "u32 \<times> u32 \<times> u32 \<times> u32"

record MD5Context =
  md5_buf :: s4
  md5_bits :: "u32 \<times> u32"
  md5_in :: mem

text \<open>\<open>longs\<close> words from offset \<open>p\<close> on are read byte by byte and stored as the machine stores them.\<close>

primrec byteReverse :: "nat \<Rightarrow> mem \<Rightarrow> nat \<Rightarrow> mem option" where
  "byteReverse 0 m p = Some m"
| "byteReverse (Suc longs) m p = do {
     b \<leftarrow> rdn m p 4;
     let t = (push_bit 16 (push_bit 8 (ucast (b ! 3)) OR ucast (b ! 2)) OR
       (push_bit 8 (ucast (b ! 1)) OR ucast (b ! 0)) :: u32);
     m \<leftarrow> wrn m p (put_le32 t);
     byteReverse longs m (p + 4)
   }"

definition MD5Init :: "MD5Context \<Rightarrow> MD5Context" where
  "MD5Init ctx = ctx\<lparr>md5_buf := (0x67452301, 0xefcdab89, 0x98badcfe, 0x10325476), md5_bits := (0, 0)\<rparr>"

section \<open>The compression function\<close>

definition md5_F1 :: "u32 \<Rightarrow> u32 \<Rightarrow> u32 \<Rightarrow> u32" where
  "md5_F1 x y z = z XOR (x AND (y XOR z))"

definition md5_F2 :: "u32 \<Rightarrow> u32 \<Rightarrow> u32 \<Rightarrow> u32" where
  "md5_F2 x y z = md5_F1 z x y"

definition md5_F3 :: "u32 \<Rightarrow> u32 \<Rightarrow> u32 \<Rightarrow> u32" where
  "md5_F3 x y z = x XOR y XOR z"

definition md5_F4 :: "u32 \<Rightarrow> u32 \<Rightarrow> u32 \<Rightarrow> u32" where
  "md5_F4 x y z = y XOR (x OR NOT z)"

definition MD5STEP :: "(u32 \<Rightarrow> u32 \<Rightarrow> u32 \<Rightarrow> u32) \<Rightarrow> u32 \<Rightarrow> nat \<Rightarrow> s4 \<Rightarrow> s4" where
  "MD5STEP f data s r = (case r of (w, x, y, z) \<Rightarrow>
     (let w = w + (f x y z + data);
          w = push_bit s w OR drop_bit (32 - s) w
      in (z, w + x, x, y)))"

text \<open>The 64 steps: the word of the block, the constant and the shift.\<close>

definition md5_steps :: "(nat \<times> u32 \<times> nat) list" where
  "md5_steps = [
     (0, 0xd76aa478, 7), (1, 0xe8c7b756, 12), (2, 0x242070db, 17), (3, 0xc1bdceee, 22),
     (4, 0xf57c0faf, 7), (5, 0x4787c62a, 12), (6, 0xa8304613, 17), (7, 0xfd469501, 22),
     (8, 0x698098d8, 7), (9, 0x8b44f7af, 12), (10, 0xffff5bb1, 17), (11, 0x895cd7be, 22),
     (12, 0x6b901122, 7), (13, 0xfd987193, 12), (14, 0xa679438e, 17), (15, 0x49b40821, 22),
     (1, 0xf61e2562, 5), (6, 0xc040b340, 9), (11, 0x265e5a51, 14), (0, 0xe9b6c7aa, 20),
     (5, 0xd62f105d, 5), (10, 0x02441453, 9), (15, 0xd8a1e681, 14), (4, 0xe7d3fbc8, 20),
     (9, 0x21e1cde6, 5), (14, 0xc33707d6, 9), (3, 0xf4d50d87, 14), (8, 0x455a14ed, 20),
     (13, 0xa9e3e905, 5), (2, 0xfcefa3f8, 9), (7, 0x676f02d9, 14), (12, 0x8d2a4c8a, 20),
     (5, 0xfffa3942, 4), (8, 0x8771f681, 11), (11, 0x6d9d6122, 16), (14, 0xfde5380c, 23),
     (1, 0xa4beea44, 4), (4, 0x4bdecfa9, 11), (7, 0xf6bb4b60, 16), (10, 0xbebfbc70, 23),
     (13, 0x289b7ec6, 4), (0, 0xeaa127fa, 11), (3, 0xd4ef3085, 16), (6, 0x04881d05, 23),
     (9, 0xd9d4d039, 4), (12, 0xe6db99e5, 11), (15, 0x1fa27cf8, 16), (2, 0xc4ac5665, 23),
     (0, 0xf4292244, 6), (7, 0x432aff97, 10), (14, 0xab9423a7, 15), (5, 0xfc93a039, 21),
     (12, 0x655b59c3, 6), (3, 0x8f0ccc92, 10), (10, 0xffeff47d, 15), (1, 0x85845dd1, 21),
     (8, 0x6fa87e4f, 6), (15, 0xfe2ce6e0, 10), (6, 0xa3014314, 15), (13, 0x4e0811a1, 21),
     (4, 0xf7537e82, 6), (11, 0xbd3af235, 10), (2, 0x2ad7d2bb, 15), (9, 0xeb86d391, 21)]"

definition md5_fn :: "nat \<Rightarrow> u32 \<Rightarrow> u32 \<Rightarrow> u32 \<Rightarrow> u32" where
  "md5_fn i = (if i < 16 then md5_F1 else if i < 32 then md5_F2 else if i < 48 then md5_F3 else md5_F4)"

definition md5_add :: "s4 \<Rightarrow> s4 \<Rightarrow> s4" where
  "md5_add s t = (case (s, t) of ((a, b, c, d), (a', b', c', d')) \<Rightarrow> (a + a', b + b', c + c', d + d'))"

definition MD5Transform :: "s4 \<Rightarrow> u32 list \<Rightarrow> s4" where
  "MD5Transform buf inw =
     md5_add buf (fold (\<lambda>i. case md5_steps ! i of (k, c, s) \<Rightarrow> MD5STEP (md5_fn i) (inw ! k + c) s) [0..<64] buf)"

text \<open>A block of bytes seen as words.\<close>

definition md5_words :: "mem \<Rightarrow> u32 list" where
  "md5_words b = map (\<lambda>i. get_le32 (drop (4 * i) b)) [0..<16]"

section \<open>Update and final digest\<close>

text \<open>\<open>byteReverse (ctx->in, 16); MD5Transform (ctx->buf, ctx->in)\<close>.\<close>

definition md5_process :: "MD5Context \<Rightarrow> MD5Context option" where
  "md5_process ctx = do {
     m \<leftarrow> byteReverse 16 (md5_in ctx) 0;
     Some (ctx\<lparr>md5_in := m, md5_buf := MD5Transform (md5_buf ctx) (md5_words m)\<rparr>)
   }"

function md5_blocks :: "MD5Context \<Rightarrow> byte list \<Rightarrow> (MD5Context \<times> byte list) option" where
  "md5_blocks ctx input =
     (if 64 \<le> length input
      then (case wrn (md5_in ctx) 0 (take 64 input) of
              None \<Rightarrow> None
            | Some m \<Rightarrow>
                (case md5_process (ctx\<lparr>md5_in := m\<rparr>) of
                   None \<Rightarrow> None
                 | Some ctx \<Rightarrow> md5_blocks ctx (drop 64 input)))
      else Some (ctx, input))"
  by pat_completeness auto
termination by (relation "measure (\<lambda>(ctx, input). length input)") auto

declare md5_blocks.simps [simp del]

definition MD5Update :: "MD5Context \<Rightarrow> byte list \<Rightarrow> MD5Context option" where
  "MD5Update ctx input =
     (let len = word_of_nat (length input) :: u32;
          t = fst (md5_bits ctx);
          b0 = t + push_bit 3 len;
          b1 = (if b0 < t then snd (md5_bits ctx) + 1 else snd (md5_bits ctx)) + drop_bit 29 len;
          ctx = ctx\<lparr>md5_bits := (b0, b1)\<rparr>;
          t = unat (drop_bit 3 t AND 0x3f)
      in if t \<noteq> 0 \<and> length input < 64 - t
         then map_option (\<lambda>m. ctx\<lparr>md5_in := m\<rparr>) (wrn (md5_in ctx) t input)
         else do {
           (ctx, input) \<leftarrow>
             (if t \<noteq> 0
              then do {
                m \<leftarrow> wrn (md5_in ctx) t (take (64 - t) input);
                ctx \<leftarrow> md5_process (ctx\<lparr>md5_in := m\<rparr>);
                Some (ctx, drop (64 - t) input)
              }
              else Some (ctx, input));
           (ctx, input) \<leftarrow> md5_blocks ctx input;
           m \<leftarrow> wrn (md5_in ctx) 0 input;
           Some (ctx\<lparr>md5_in := m\<rparr>)
         })"

text \<open>The state as the 16 bytes of its four words in memory, and back.\<close>

definition md5_bytes :: "s4 \<Rightarrow> mem" where
  "md5_bytes s = (case s of (a, b, c, d) \<Rightarrow> put_le32 a @ put_le32 b @ put_le32 c @ put_le32 d)"

text \<open>The padding of the last block: the end mark and zeros up to the place of the length.\<close>

definition md5_pad :: "MD5Context \<Rightarrow> MD5Context option" where
  "md5_pad ctx = do {
     let count = unat (drop_bit 3 (fst (md5_bits ctx)) AND 0x3F);
     m \<leftarrow> wr (md5_in ctx) count 0x80;
     let p = count + 1;
     let count = 64 - 1 - count;
     if count < 8
     then do {
       m \<leftarrow> wrn m p (replicate count 0);
       ctx \<leftarrow> md5_process (ctx\<lparr>md5_in := m\<rparr>);
       m \<leftarrow> wrn (md5_in ctx) 0 (replicate 56 0);
       Some (ctx\<lparr>md5_in := m\<rparr>)
     }
     else map_option (\<lambda>m. ctx\<lparr>md5_in := m\<rparr>) (wrn m p (replicate (count - 8) 0))
   }"

text \<open>The digest; the context is cleared at the end.\<close>

definition MD5Final :: "MD5Context \<Rightarrow> (MD5Context \<times> byte list) option" where
  "MD5Final ctx = do {
     ctx \<leftarrow> md5_pad ctx;
     m \<leftarrow> byteReverse 14 (md5_in ctx) 0;
     m \<leftarrow> wrn m 56 (put_le32 (fst (md5_bits ctx)));
     m \<leftarrow> wrn m 60 (put_le32 (snd (md5_bits ctx)));
     let buf = MD5Transform (md5_buf ctx) (md5_words m);
     digest \<leftarrow> byteReverse 4 (md5_bytes buf) 0;
     Some (\<lparr>md5_buf = (0, 0, 0, 0), md5_bits = (0, 0), md5_in = replicate 64 0\<rparr>, digest)
   }"

text \<open>The context on the stack, with whatever bytes its buffer holds.\<close>

definition md5_new :: "mem \<Rightarrow> MD5Context" where
  "md5_new m = MD5Init \<lparr>md5_buf = (0, 0, 0, 0), md5_bits = (0, 0), md5_in = m\<rparr>"

definition md5 :: "mem \<Rightarrow> byte list \<Rightarrow> byte list option" where
  "md5 m input = do {
     ctx \<leftarrow> MD5Update (md5_new m) input;
     (ctx, digest) \<leftarrow> MD5Final ctx;
     Some digest
   }"

text \<open>\<open>wd\<close> says whether the build has a watchdog; then a chunk size of 0 never ends.\<close>

function md5_chunks :: "MD5Context \<Rightarrow> byte list \<Rightarrow> nat \<Rightarrow> MD5Context option" where
  "md5_chunks ctx input chunk_sz =
     (if input = [] then Some ctx
      else if chunk_sz = 0 then None
      else (case MD5Update ctx (take chunk_sz input) of
              None \<Rightarrow> None
            | Some ctx \<Rightarrow> md5_chunks ctx (drop chunk_sz input) chunk_sz))"
  by pat_completeness auto
termination by (relation "measure (\<lambda>(ctx, input, chunk_sz). length input)") auto

declare md5_chunks.simps [simp del]

definition md5_wd :: "bool \<Rightarrow> mem \<Rightarrow> byte list \<Rightarrow> nat \<Rightarrow> byte list option" where
  "md5_wd wd m input chunk_sz = do {
     ctx \<leftarrow> (if wd then md5_chunks (md5_new m) input chunk_sz else MD5Update (md5_new m) input);
     (ctx, digest) \<leftarrow> MD5Final ctx;
     Some digest
   }"

end
