(* ===== verification/Md5Correct.thy ===== *)
theory Md5Correct
  imports Md5
begin

text \<open>
  MD5 as RFC 1321 states it, and the code against it. On this little-endian machine
  \<open>byteReverse\<close> is the identity.
\<close>

section \<open>The standard\<close>

definition rfc_fn :: "nat \<Rightarrow> u32 \<Rightarrow> u32 \<Rightarrow> u32 \<Rightarrow> u32" where
  "rfc_fn i x y z =
     (if i < 16 then (x AND y) OR (NOT x AND z)
      else if i < 32 then (x AND z) OR (y AND NOT z)
      else if i < 48 then x XOR y XOR z
      else y XOR (x OR NOT z))"

definition rfc_word :: "nat \<Rightarrow> nat" where
  "rfc_word i = (if i < 16 then i else if i < 32 then (5 * i + 1) mod 16
     else if i < 48 then (3 * i + 5) mod 16 else (7 * i) mod 16)"

definition rfc_shift :: "nat \<Rightarrow> nat" where
  "rfc_shift i = (if i < 16 then [7, 12, 17, 22] else if i < 32 then [5, 9, 14, 20]
     else if i < 48 then [4, 11, 16, 23] else [6, 10, 15, 21]) ! (i mod 4)"

text \<open>The constants \<open>T\<close> of the standard are those of the code's table.\<close>

definition rfc_T :: "nat \<Rightarrow> u32" where
  "rfc_T i = fst (snd (md5_steps ! i))"

definition rfc_step :: "byte list \<Rightarrow> nat \<Rightarrow> s4 \<Rightarrow> s4" where
  "rfc_step blk i r = (case r of (a, b, c, d) \<Rightarrow>
     (d, b + word_rotl (rfc_shift i)
        (a + rfc_fn i b c d + get_le32 (drop (4 * rfc_word i) blk) + rfc_T i), b, c))"

definition md5_compress :: "s4 \<Rightarrow> byte list \<Rightarrow> s4" where
  "md5_compress h blk = md5_add h (fold (rfc_step blk) [0..<64] h)"

definition md5_init :: s4 where
  "md5_init = (0x67452301, 0xefcdab89, 0x98badcfe, 0x10325476)"

definition le64 :: "nat \<Rightarrow> byte list" where
  "le64 n = put_le32 (of_nat n) @ put_le32 (of_nat (n div 2 ^ 32))"

definition md5_digest :: "byte list \<Rightarrow> byte list" where
  "md5_digest m = md5_bytes (absorb md5_compress md5_init (padded le64 m))"

section \<open>The compression function\<close>

lemma choose_or: "((x :: u32) AND z) OR (y AND NOT z) = y XOR (z AND (x XOR y))"
  by (rule bit_word_eqI) (auto simp: bit_simps)

lemma md5_fn_rfc: "md5_fn i = rfc_fn i"
  by (intro ext)
    (simp add: md5_fn_def rfc_fn_def md5_F1_def md5_F2_def md5_F3_def md5_F4_def choose_xor choose_or)

lemma md5_table:
  "map (\<lambda>e. (fst e, snd (snd e))) md5_steps = map (\<lambda>i. (rfc_word i, rfc_shift i)) [0..<64]"
  by code_simp

lemma md5_table_nth:
  assumes "i < 64"
  shows "md5_steps ! i = (rfc_word i, rfc_T i, rfc_shift i)"
proof -
  have len: "length md5_steps = 64" using arg_cong [OF md5_table, of length] by simp
  have "(fst (md5_steps ! i), snd (snd (md5_steps ! i))) = (rfc_word i, rfc_shift i)"
    using arg_cong [OF md5_table, of "\<lambda>xs. xs ! i"] assms len by simp
  then show ?thesis by (auto simp: rfc_T_def prod_eq_iff)
qed

lemma rfc_bounds: "rfc_word i < 16 \<or> 64 \<le> i" "0 < rfc_shift i" "rfc_shift i < 32"
proof -
  show "rfc_word i < 16 \<or> 64 \<le> i" by (auto simp: rfc_word_def)
  have "i mod 4 < 4" by simp
  then have "i mod 4 = 0 \<or> i mod 4 = 1 \<or> i mod 4 = 2 \<or> i mod 4 = 3" by linarith
  then show "0 < rfc_shift i" "rfc_shift i < 32"
    unfolding rfc_shift_def by (auto simp: numeral_2_eq_2 numeral_3_eq_3)
qed

lemma MD5STEP_rfc:
  assumes "i < 64"
  shows "(case md5_steps ! i of (k, c, s) \<Rightarrow> MD5STEP (md5_fn i) (md5_words blk ! k + c) s) r = rfc_step blk i r"
proof -
  have "rfc_word i < 16" using rfc_bounds(1) [of i] assms by simp
  then show ?thesis
    by (simp add: md5_table_nth [OF assms] MD5STEP_def rfc_step_def md5_fn_rfc md5_words_def
        rotl_shifts [OF rfc_bounds(2,3)] algebra_simps Let_def split: prod.split)
qed

lemma MD5Transform_compress: "MD5Transform s (md5_words blk) = md5_compress s blk"
  unfolding MD5Transform_def md5_compress_def
  by (intro arg_cong [where f = "md5_add s"] fold_cong refl) (simp add: MD5STEP_rfc fun_eq_iff)

section \<open>Byte order\<close>

lemma le_parts:
  "put_le32 (push_bit 16 (push_bit 8 (ucast d) OR ucast c) OR (push_bit 8 (ucast b) OR ucast a)) = [a, b, c, d]"
proof -
  let ?w = "push_bit 16 (push_bit 8 (ucast d) OR ucast c) OR (push_bit 8 (ucast b) OR ucast a) :: u32"
  have "ucast ?w = a" "ucast (drop_bit 8 ?w) = b" "ucast (drop_bit 16 ?w) = c" "ucast (drop_bit 24 ?w) = d"
    by (rule bit_word_eqI; auto simp: bit_simps no_high_bit dest: byte_bit_less)+
  then show ?thesis by (simp add: put_le32_def)
qed

lemma list4: "length xs = 4 \<Longrightarrow> \<exists>a b c d. xs = [a, b, c, d]"
  by (auto simp: numeral_eq_Suc length_Suc_conv)

lemma byteReverse_id: "p + 4 * n \<le> length m \<Longrightarrow> byteReverse n m p = Some m"
proof (induction n arbitrary: p)
  case (Suc n)
  obtain a b c d where b: "take 4 (drop p m) = [a, b, c, d]"
    using list4 [of "take 4 (drop p m)"] Suc.prems by auto
  have r: "rdn m p 4 = Some [a, b, c, d]" using Suc.prems b by (simp add: rdn_def)
  have "take p m @ [a, b, c, d] @ drop (p + 4) m = m"
    unfolding b [symmetric] by (metis add.commute append_take_drop_id drop_drop)
  then have "wrn m p [a, b, c, d] = Some m" using Suc.prems by (simp add: wrn_def eval_nat_numeral)
  then show ?case using Suc r by (simp add: le_parts [simplified] Let_def del: wrn_in wrn_eq_Some)
qed simp

lemma md5_process_compress:
  "length (md5_in ctx) = 64 \<Longrightarrow>
    md5_process ctx = Some (ctx\<lparr>md5_buf := md5_compress (md5_buf ctx) (md5_in ctx)\<rparr>)"
  by (simp add: md5_process_def byteReverse_id MD5Transform_compress)

section \<open>The incremental hash\<close>

text \<open>Counting bits: the carry of the low word is seen against its old value.\<close>

lemma count64_high: "count64 a (b + word_of_nat h) = (count64 a b + 2 ^ 32 * h) mod 2 ^ 64"
proof -
  let ?y = "(unat b + h) mod 2 ^ 32"
  have y: "unat (b + word_of_nat h) = ?y" by (simp add: unat_word_ariths unat_of_nat mod_simps)
  let ?x = "2 ^ 32 * (unat b + h)"
  have "unat a < 2 ^ 32" "?y < 2 ^ 32" using unsigned_less [of a] by simp_all
  then have small: "unat a + 2 ^ 32 * ?y < 2 ^ 64" by simp
  have e: "2 ^ 32 * ?y = ?x mod 2 ^ 64"
    using mult_mod_right [of "2 ^ 32 :: nat" "unat b + h" "2 ^ 32"] by simp
  have "count64 a (b + word_of_nat h) = (unat a + 2 ^ 32 * ?y) mod 2 ^ 64"
    using small by (simp only: count64_def y mod_less)
  also have "\<dots> = (unat a + ?x) mod 2 ^ 64" by (simp only: e mod_add_right_eq)
  also have "\<dots> = (count64 a b + 2 ^ 32 * h) mod 2 ^ 64" by (simp only: count64_def distrib_left add.assoc)
  finally show ?thesis .
qed

lemma carry_sym: "((a :: u32) + b < a) = (a + b < b)"
proof -
  have "unat a < 2 ^ 32" "unat b < 2 ^ 32" using unsigned_less [of a] unsigned_less [of b] by simp_all
  moreover have "unat (a + b) = (unat a + unat b) mod 2 ^ 32" by (simp add: unat_word_ariths)
  ultimately have "unat (a + b) < unat a \<longleftrightarrow> unat (a + b) < unat b"
    by (cases "unat a + unat b < 2 ^ 32") (auto simp: mod_if)
  then show ?thesis by (simp add: word_less_nat_alt)
qed

lemma bit_count_add:
  assumes "n < 2 ^ 32"
  shows "count64 (t0 + push_bit 3 (word_of_nat n))
      ((if t0 + push_bit 3 (word_of_nat n) < t0 then t1 + 1 else t1) + drop_bit 29 (word_of_nat n)) =
    (count64 t0 t1 + 8 * n) mod 2 ^ 64"
proof -
  let ?lo = "8 * n mod 2 ^ 32"
  let ?hi = "8 * n div 2 ^ 32"
  have p: "push_bit 3 (word_of_nat n :: u32) = word_of_nat ?lo"
    by (simp add: push_bit_eq_mult word_unat_eq_iff unat_of_nat unat_word_ariths mod_simps mult.commute)
  have d: "drop_bit 29 (word_of_nat n :: u32) = word_of_nat ?hi"
  proof -
    have "unat (drop_bit 29 (word_of_nat n :: u32)) = n div 2 ^ 29"
      using assms by (simp only: unat_drop_bit_eq) (simp add: drop_bit_eq_div unat_of_nat)
    then show ?thesis using assms by (simp add: word_unat_eq_iff unat_of_nat)
  qed
  note carry = carry_sym [of t0]
  have lo: "?lo < 2 ^ 32" by simp
  let ?t1 = "if t0 + word_of_nat ?lo < word_of_nat ?lo then t1 + 1 else t1"
  have c: "count64 (t0 + word_of_nat ?lo) ?t1 = (count64 t0 t1 + ?lo) mod 2 ^ 64"
    by (rule count64_add [OF lo])
  have "count64 a (b + word_of_nat ?hi) = (count64 a b + 2 ^ 32 * ?hi) mod 2 ^ 64" for a b
    by (rule count64_high)
  then have "count64 (t0 + word_of_nat ?lo) (?t1 + word_of_nat ?hi) =
    (count64 t0 t1 + ?lo + 2 ^ 32 * ?hi) mod 2 ^ 64" using c by (simp add: mod_simps)
  moreover have "?lo + 2 ^ 32 * ?hi = 8 * n" by (rule mod_mult_div_eq)
  ultimately show ?thesis unfolding p d carry by (simp add: add.assoc)
qed

definition md5_absorbed :: "MD5Context \<Rightarrow> byte list \<Rightarrow> bool" where
  "md5_absorbed ctx m \<longleftrightarrow>
     held md5_compress md5_init m (md5_buf ctx) (md5_in ctx) \<and>
     count64 (fst (md5_bits ctx)) (snd (md5_bits ctx)) = 8 * length m mod 2 ^ 64"

text \<open>The bytes in the buffer, read from the length in bits.\<close>

lemma bits_left:
  assumes "count64 b0 b1 = 8 * n mod 2 ^ 64"
  shows "unat (drop_bit 3 b0 AND 0x3F) = n mod 64"
proof -
  have "unat (drop_bit 3 b0 AND 0x3F) = unat b0 div 8 mod 64"
    by (simp only: and_3F unat_drop_bit_eq) (simp add: drop_bit_eq_div)
  also have "unat b0 = 8 * n mod 2 ^ 32" unfolding count64_words(1) [OF assms] by (simp only: unat_of_nat) simp
  also have "8 * n mod 2 ^ 32 div 8 = n mod 2 ^ 29"
    using mult_mod_right [of 8 n "2 ^ 29"] by simp
  also have "n mod 2 ^ 29 mod 64 = n mod 64" by (simp add: mod_mod_cancel)
  finally show ?thesis .
qed

lemma md5_blocks_absorb:
  "length (md5_in ctx) = 64 \<Longrightarrow>
    \<exists>b. length b = 64 \<and>
      md5_blocks ctx x = Some (ctx\<lparr>md5_buf := absorb md5_compress (md5_buf ctx) x, md5_in := b\<rparr>, pending x)"
proof (induction ctx x rule: md5_blocks.induct)
  case (1 ctx x)
  show ?case
  proof (cases "64 \<le> length x")
    case True
    let ?b = "take 64 x"
    let ?c = "ctx\<lparr>md5_in := ?b, md5_buf := md5_compress (md5_buf ctx) ?b\<rparr>"
    have b: "x = ?b @ drop 64 x" "length ?b = 64" using True by simp_all
    then have p: "pending x = pending (drop 64 x)" by (metis pending_block)
    have w: "wrn (md5_in ctx) 0 ?b = Some ?b" using "1.prems" b(2) by (simp add: wrn_def)
    have pr: "md5_process (ctx\<lparr>md5_in := ?b\<rparr>) = Some ?c" using b(2) by (simp add: md5_process_compress)
    have ab: "absorb md5_compress (md5_buf ctx) x = absorb md5_compress (md5_buf ?c) (drop 64 x)"
      using True by (simp add: absorb.simps [of _ _ x])
    have "length (md5_in ?c) = 64" using b(2) by simp
    from "1.IH" [OF True w pr this] obtain b' where "length b' = 64"
      "md5_blocks ?c (drop 64 x) = Some (?c\<lparr>md5_buf := absorb md5_compress (md5_buf ?c) (drop 64 x), md5_in := b'\<rparr>,
        pending (drop 64 x))" by blast
    then show ?thesis using True w pr p ab
      by (intro exI [of _ b']) (simp add: md5_blocks.simps [of ctx x] del: wrn_in wrn_eq_Some)
  next
    case False
    then show ?thesis using "1.prems"
      by (intro exI [of _ "md5_in ctx"]) (simp add: md5_blocks.simps [of ctx x])
  qed
qed

lemma md5_rest:
  assumes "length (md5_in c) = 64" and "md5_buf c = s" and "absorb md5_compress s x = absorb md5_compress md5_init m"
    and "pending x = pending m"
  shows "\<exists>b. do { (ctx, input) \<leftarrow> md5_blocks c x; n \<leftarrow> wrn (md5_in ctx) 0 input; Some (ctx\<lparr>md5_in := n\<rparr>) } =
      Some (c\<lparr>md5_buf := absorb md5_compress md5_init m, md5_in := b\<rparr>) \<and>
    held md5_compress md5_init m (absorb md5_compress md5_init m) b"
proof -
  obtain b where b: "length b = 64"
    "md5_blocks c x = Some (c\<lparr>md5_buf := absorb md5_compress s x, md5_in := b\<rparr>, pending x)"
    using md5_blocks_absorb [OF assms(1), of x] assms(2) by auto
  obtain p where p: "p = pending m" "length p \<le> 64" by simp
  have "held md5_compress md5_init m (absorb md5_compress md5_init m) (p @ drop (length p) b)"
    unfolding p(1) by (rule held_rest [OF b(1)])
  then show ?thesis using b assms(3,4) p(2) p(1) [symmetric]
    by (intro exI [of _ "p @ drop (length p) b"]) simp
qed

lemma MD5Update_absorbed:
  assumes abs: "md5_absorbed ctx m" and len: "length x < 2 ^ 32"
  shows "\<exists>ctx'. MD5Update ctx x = Some ctx' \<and> md5_absorbed ctx' (m @ x)"
proof -
  obtain t0 t1 where t: "md5_bits ctx = (t0, t1)" by (cases "md5_bits ctx")
  let ?l = "word_of_nat (length x) :: u32"
  let ?b = "(t0 + push_bit 3 ?l, (if t0 + push_bit 3 ?l < t0 then t1 + 1 else t1) + drop_bit 29 ?l)"
  obtain B where B: "B = ?b" by simp
  let ?c = "ctx\<lparr>md5_bits := B\<rparr>"
  have h: "held md5_compress md5_init m (md5_buf ctx) (md5_in ctx)"
    and c: "count64 t0 t1 = 8 * length m mod 2 ^ 64" using abs t by (simp_all add: md5_absorbed_def)
  then have buf: "length (md5_in ctx) = 64" by (simp add: held_def)
  have cnt: "count64 (fst B) (snd B) = 8 * length (m @ x) mod 2 ^ 64"
    using bit_count_add [OF len, of t0 t1] c B by (simp add: mod_simps distrib_left)
  obtain k where k: "k = length m mod 64" by simp
  have left: "unat (drop_bit 3 t0 AND 0x3F) = k" using bits_left [OF c] k by simp
  have upd: "MD5Update ctx x =
    (if k \<noteq> 0 \<and> length x < 64 - k then map_option (\<lambda>m. ?c\<lparr>md5_in := m\<rparr>) (wrn (md5_in ctx) k x)
     else do {
       (ctx, input) \<leftarrow>
         (if k \<noteq> 0 then do { m \<leftarrow> wrn (md5_in ctx) k (take (64 - k) x);
             ctx \<leftarrow> md5_process (?c\<lparr>md5_in := m\<rparr>); Some (ctx, drop (64 - k) x) }
          else Some (?c, x));
       (ctx, input) \<leftarrow> md5_blocks ctx input;
       m \<leftarrow> wrn (md5_in ctx) 0 input;
       Some (ctx\<lparr>md5_in := m\<rparr>) })"
    using t left unfolding B MD5Update_def Let_def by simp
  consider (fill) "k \<noteq> 0" "64 - k \<le> length x" | (direct) "k = 0" | (short) "k \<noteq> 0" "length x < 64 - k"
    by linarith
  then show ?thesis
  proof cases
    case fill
    from held_fillE [OF h k fill(2)] obtain b where
      b: "wrn (md5_in ctx) k (take (64 - k) x) = Some b" "length b = 64"
      "absorb md5_compress (md5_compress (md5_buf ctx) b) (drop (64 - k) x) = absorb md5_compress md5_init (m @ x)"
      "pending (drop (64 - k) x) = pending (m @ x)" by metis
    let ?d = "?c\<lparr>md5_in := b, md5_buf := md5_compress (md5_buf ctx) b\<rparr>"
    have pr: "md5_process (?c\<lparr>md5_in := b\<rparr>) = Some ?d" using b(2) by (simp add: md5_process_compress)
    have "length (md5_in ?d) = 64" "md5_buf ?d = md5_compress (md5_buf ctx) b" using b(2) by simp_all
    from md5_rest [OF this b(3,4)] pr b(1) fill show ?thesis
      unfolding upd using cnt by (auto simp: md5_absorbed_def simp del: wrn_in wrn_eq_Some)
  next
    case direct
    then have z: "length m mod 64 = 0" using k by simp
    have "length (md5_in ?c) = 64" "md5_buf ?c = md5_buf ctx" using buf by simp_all
    from md5_rest [OF this held_direct [OF h z, of x]] direct show ?thesis
      unfolding upd using cnt by (auto simp: md5_absorbed_def simp del: wrn_in wrn_eq_Some)
  next
    case short
    then show ?thesis
      using held_short [OF h k short(2)] buf cnt by (simp add: upd md5_absorbed_def)
  qed
qed

section \<open>The final digest\<close>

lemma mark_end:
  assumes "length b = 64" and "take k b = u" and "k < 64" and "length z \<le> 63 - k"
  shows "wr b k x = Some (b[k := x])"
    and "wrn (b[k := x]) (k + 1) z = Some (u @ x # z @ drop (k + 1 + length z) b)"
proof -
  have "take (k + 1) (b[k := x]) = u @ [x]"
    using assms by (simp add: take_Suc_conv_app_nth)
  then show "wrn (b[k := x]) (k + 1) z = Some (u @ x # z @ drop (k + 1 + length z) b)"
    using assms by (simp add: wrn_def)
qed (use assms in simp)

lemma le64_count:
  assumes "count64 b0 b1 = 8 * n mod 2 ^ 64"
  shows "put_le32 b0 @ put_le32 b1 = le64 (8 * n)"
  by (simp only: le64_def count64_words [OF assms])

lemma absorb_padded:
  "absorb f s0 (padded lb m) =
    absorb f (absorb f s0 m) (pending m @ 0x80 # replicate (zeros_needed (length m)) 0 @ lb (8 * length m))"
  unfolding padded_def by (rule absorb_append)

text \<open>After the padding the block buffer has 56 bytes that end the message, and what went before is
  in the state.\<close>

lemma md5_pad_state:
  assumes h: "held md5_compress md5_init m (md5_buf ctx) (md5_in ctx)"
    and left: "unat (drop_bit 3 (fst (md5_bits ctx)) AND 0x3F) = length m mod 64"
  shows "\<exists>s b. md5_pad ctx = Some (ctx\<lparr>md5_buf := s, md5_in := b\<rparr>) \<and> length b = 64 \<and>
    (\<forall>t. length t = 8 \<longrightarrow>
      absorb md5_compress (absorb md5_compress md5_init m)
        (pending m @ 0x80 # replicate (zeros_needed (length m)) 0 @ t) = md5_compress s (take 56 b @ t))"
proof -
  obtain k where k: "k = length m mod 64" by simp
  obtain u where u: "u = pending m" "length u = k" using k by simp
  have k64: "k < 64" and left': "unat (drop_bit 3 (fst (md5_bits ctx)) AND 0x3F) = k"
    using k left by simp_all
  have buf: "length (md5_in ctx) = 64" "take k (md5_in ctx) = u"
    and st: "md5_buf ctx = absorb md5_compress md5_init m" using h k u by (simp_all add: held_def)
  have z: "zeros_needed (length m) = (if k < 56 then 55 - k else 119 - k)"
    by (simp only: zeros_needed_cases k)
  let ?s = "absorb md5_compress md5_init m"
  show ?thesis
  proof (cases "k < 56")
    case True
    let ?z = "replicate (55 - k) (0 :: byte)"
    let ?b = "u @ 0x80 # ?z @ drop 56 (md5_in ctx)"
    have d: "63 - k - 8 = 55 - k" "k + 1 + (55 - k) = 56" "\<not> 63 - k < 8" using True by simp_all
    have "wrn ((md5_in ctx)[k := 0x80]) (k + 1) ?z = Some ?b"
      using mark_end(2) [OF buf k64, where z = ?z and x = "0x80"] True by (simp add: d)
    then have "md5_pad ctx = Some (ctx\<lparr>md5_in := ?b\<rparr>)"
      using True buf k64 left' by (simp add: md5_pad_def Let_def d del: wrn_in wrn_eq_Some)
    also have "ctx\<lparr>md5_in := ?b\<rparr> = ctx\<lparr>md5_buf := ?s, md5_in := ?b\<rparr>" using st by (cases ctx) simp
    finally have pad: "md5_pad ctx = Some (ctx\<lparr>md5_buf := ?s, md5_in := ?b\<rparr>)" .
    have "56 - k = Suc (55 - k)" using True by simp
    then have t56: "take 56 ?b = u @ 0x80 # ?z" using u(2) True by simp
    have ab: "absorb md5_compress ?s (u @ 0x80 # ?z @ t) = md5_compress ?s (take 56 ?b @ t)"
      if "length t = 8" for t
      using absorb_block [of "u @ 0x80 # ?z @ t" md5_compress ?s "[]"] that True u(2) t56 by simp
    have "length ?b = 64" "zeros_needed (length m) = 55 - k" using True u(2) buf(1) z by simp_all
    then show ?thesis
      unfolding u(1) [symmetric] using pad ab by (intro exI [of _ ?s] exI [of _ ?b]) simp
  next
    case False
    let ?z = "replicate (63 - k) (0 :: byte)"
    let ?a = "u @ 0x80 # ?z"
    let ?b = "replicate 56 0 @ drop 56 ?a"
    have lt: "63 - k < 8" using False by simp
    have la: "length ?a = 64" using u(2) k64 by simp
    have w: "wrn ((md5_in ctx)[k := 0x80]) (k + 1) ?z = Some ?a"
      using mark_end(2) [OF buf k64, where z = ?z and x = "0x80"] buf(1) k64 by simp
    have "md5_process (ctx\<lparr>md5_in := ?a\<rparr>) = Some (ctx\<lparr>md5_in := ?a, md5_buf := md5_compress ?s ?a\<rparr>)"
      using la st by (simp add: md5_process_compress)
    moreover have "wrn ?a 0 (replicate 56 0) = Some ?b" using la by (simp add: wrn_def)
    ultimately have pad: "md5_pad ctx = Some (ctx\<lparr>md5_buf := md5_compress ?s ?a, md5_in := ?b\<rparr>)"
      using lt buf k64 left' w by (simp add: md5_pad_def Let_def del: wrn_in wrn_eq_Some)
    have ab: "absorb md5_compress ?s (?a @ replicate 56 0 @ t) =
        md5_compress (md5_compress ?s ?a) (take 56 ?b @ t)" if "length t = 8" for t
      using absorb_block [OF la, of md5_compress ?s "replicate 56 0 @ t"]
        absorb_block [of "replicate 56 0 @ t" md5_compress "md5_compress ?s ?a" "[]"] that by simp
    have "63 - k + 56 = 119 - k" using k64 by simp
    then have "replicate (119 - k) (0 :: byte) = ?z @ replicate 56 0" by (metis replicate_add)
    moreover have "zeros_needed (length m) = 119 - k" "length ?b = 64" using False la z by simp_all
    ultimately show ?thesis
      unfolding u(1) [symmetric] using pad ab by (intro exI [of _ "md5_compress ?s ?a"] exI [of _ ?b]) simp
  qed
qed

lemma MD5Final_digest:
  assumes abs: "md5_absorbed ctx m"
  shows "\<exists>ctx'. MD5Final ctx = Some (ctx', md5_digest m)"
proof -
  have h: "held md5_compress md5_init m (md5_buf ctx) (md5_in ctx)"
    and c: "count64 (fst (md5_bits ctx)) (snd (md5_bits ctx)) = 8 * length m mod 2 ^ 64"
    using abs by (simp_all add: md5_absorbed_def)
  from md5_pad_state [OF h bits_left [OF c]] obtain s b where
    p: "md5_pad ctx = Some (ctx\<lparr>md5_buf := s, md5_in := b\<rparr>)" "length b = 64"
    "\<And>t. length t = 8 \<Longrightarrow> absorb md5_compress md5_init (padded (\<lambda>_. t) m) = md5_compress s (take 56 b @ t)"
    by (auto simp: absorb_padded)
  have d: "absorb md5_compress md5_init (padded le64 m) = md5_compress s (take 56 b @ le64 (8 * length m))"
    using p(3) [of "le64 (8 * length m)"] by (simp add: padded_def le64_def)
  have "length (md5_bytes t) = 16" for t by (simp add: md5_bytes_def split: prod.split)
  then show ?thesis
    using p(1,2) by (simp add: MD5Final_def byteReverse_id MD5Transform_compress md5_digest_def d
        le64_count [OF c, symmetric])
qed

interpretation md5_hash: incremental_hash "md5_new (replicate 64 0)" MD5Update
  "\<lambda>c. map_option snd (MD5Final c)" md5_absorbed "2 ^ 32" md5_digest
proof unfold_locales
  show "md5_absorbed (md5_new (replicate 64 0)) []"
    by (simp add: md5_absorbed_def held_def md5_new_def MD5Init_def md5_init_def count64_def)
next
  fix c m x
  assume "md5_absorbed c m" "length (x :: byte list) < 2 ^ 32"
  then show "\<exists>c'. MD5Update c x = Some c' \<and> md5_absorbed c' (m @ x)" by (rule MD5Update_absorbed)
next
  fix c m
  assume "md5_absorbed c m"
  then show "map_option snd (MD5Final c) = Some (md5_digest m)" using MD5Final_digest by force
qed

end
