(* ===== verification/HashProps.thy ===== *)
theory HashProps
  imports Sha256Correct Md5Correct
begin

text \<open>The properties of SHA-256 and MD5.\<close>

text \<open>C28. SHA-256 by the standard: however a message is cut into updates of less than \<open>2 ^ 32\<close>
  bytes, the code never leaves its buffer and the digest is the one of FIPS 180-2.\<close>

theorem sha256_any_cut:
  assumes "\<forall>x \<in> set xs. length x < 2 ^ 32"
  shows "Option.bind (update_all sha256_update (sha256_new (replicate 64 0)) xs)
      (\<lambda>c. map_option snd (sha256_finish c)) = Some (sha256_digest (concat xs))"
  using sha256_hash.chunks_digest [OF assms] .

lemma sha256_any_cut_witness:
  "Option.bind (update_all sha256_update (sha256_new (replicate 64 0)) [[97], [98, 99]])
      (\<lambda>c. map_option snd (sha256_finish c)) = Some (sha256_digest [97, 98, 99])"
  using sha256_any_cut [of "[[97], [98, 99]]"] by simp

text \<open>MD5 by the standard: however a message is cut into updates of less than \<open>2 ^ 32\<close> bytes, the
  code never leaves its block buffer and the digest is the one of RFC 1321.\<close>

theorem md5_any_cut:
  assumes "\<forall>x \<in> set xs. length x < 2 ^ 32"
  shows "Option.bind (update_all MD5Update (md5_new (replicate 64 0)) xs)
      (\<lambda>c. map_option snd (MD5Final c)) = Some (md5_digest (concat xs))"
  using md5_hash.chunks_digest [OF assms] .

lemma md5_any_cut_witness:
  "Option.bind (update_all MD5Update (md5_new (replicate 64 0)) [[97], [98, 99]])
      (\<lambda>c. map_option snd (MD5Final c)) = Some (md5_digest [97, 98, 99])"
  using md5_any_cut [of "[[97], [98, 99]]"] by simp

lemma md5_one_call:
  assumes "length m < 2 ^ 32"
  shows "md5 (replicate 64 0) m = Some (md5_digest m)"
  using md5_hash.one_shot [OF assms] by (auto simp: md5_def bind_eq_Some_conv)

end
