(* ===== verification/Command.thy ===== *)
theory Command
  imports CString Vsprintf
begin

text \<open>
  The command table, \<^verbatim>\<open>common/command.c\<close>, for the board's configuration
  (\<^verbatim>\<open>CONFIG_SYS_LONGHELP\<close>, no completion). The table of the linker section
  \<open>.u_boot_cmd\<close> is a list, a pointer into it an index. A C string is the list of its characters;
  a comparison puts its two strings, with their terminators, into one object. The functions that
  implement the commands are values of a type \<open>'h\<close>.
\<close>

record 'h cmd_tbl =
  cmd_name :: "byte list"
  cmd_maxargs :: int
  cmd_repeatable :: int
  cmd_fn :: 'h
  cmd_usage_text :: "byte list option"
  cmd_help_text :: "byte list option"

definition txt_bytes :: "char list \<Rightarrow> byte list" where
  "txt_bytes s = map (\<lambda>c. of_nat (of_char c)) s"

definition str_cmp :: "byte list \<Rightarrow> byte list \<Rightarrow> int option" where
  "str_cmp a b = c_strcmp (a @ 0 # b @ [0]) 0 (length a + 1)"

definition str_ncmp :: "byte list \<Rightarrow> byte list \<Rightarrow> nat \<Rightarrow> int option" where
  "str_ncmp a b n = c_strncmp n (a @ 0 # b @ [0]) 0 (length a + 1)"

section \<open>Finding a command\<close>

definition cmd_len :: "byte list \<Rightarrow> nat option" where
  "cmd_len cmd = do {
     p \<leftarrow> c_strchr (cmd @ [0]) 0 46;
     (case p of None \<Rightarrow> c_strlen (cmd @ [0]) 0 | Some p \<Rightarrow> Some p)
   }"

text \<open>The loop over the table from index \<open>k\<close>; \<open>NULL\<close> is \<open>None\<close> inside.\<close>

primrec find_scan ::
  "byte list \<Rightarrow> nat \<Rightarrow> 'h cmd_tbl list \<Rightarrow> nat \<Rightarrow> nat \<Rightarrow> nat \<Rightarrow> nat option option" where
  "find_scan cmd len [] k temp n_found = Some (if n_found = 1 then Some temp else None)"
| "find_scan cmd len (e # es) k temp n_found = do {
     r \<leftarrow> str_ncmp cmd (cmd_name e) len;
     if r = 0
     then do {
       l \<leftarrow> c_strlen (cmd_name e @ [0]) 0;
       if len = l then Some (Some k) else find_scan cmd len es (k + 1) k (n_found + 1)
     }
     else find_scan cmd len es (k + 1) temp n_found
   }"

definition find_cmd_tbl :: "byte list \<Rightarrow> 'h cmd_tbl list \<Rightarrow> nat option option" where
  "find_cmd_tbl cmd tbl = do {
     len \<leftarrow> cmd_len cmd;
     find_scan cmd len tbl 0 0 0
   }"

section \<open>Help\<close>

text \<open>The text printed and the return value.\<close>

definition cmd_usage :: "'h cmd_tbl \<Rightarrow> byte list \<times> int" where
  "cmd_usage e =
     (let usage = (case cmd_usage_text e of None \<Rightarrow> txt_bytes ''<NULL>'' | Some u \<Rightarrow> u);
          out = cmd_name e @ txt_bytes '' - '' @ usage @ [10, 10] @
            txt_bytes ''Usage:'' @ [10] @ cmd_name e @ [32]
      in case cmd_help_text e of
           None \<Rightarrow> (out @ txt_bytes ''- No additional help available.'' @ [10], 1)
         | Some h \<Rightarrow> (out @ h @ [10], 0))"

text \<open>The bubble sort of the pointers to the commands: one pass up to index \<open>i\<close>, with its swaps.\<close>

definition bubble_step :: "nat \<Rightarrow> 'h cmd_tbl list \<times> nat \<Rightarrow> ('h cmd_tbl list \<times> nat) option" where
  "bubble_step j s = (case s of (arr, swaps) \<Rightarrow> do {
     a \<leftarrow> rd arr j;
     b \<leftarrow> rd arr (j + 1);
     r \<leftarrow> str_cmp (cmd_name a) (cmd_name b);
     if 0 < r
     then do { arr \<leftarrow> wr arr j b; arr \<leftarrow> wr arr (j + 1) a; Some (arr, swaps + 1) }
     else Some (arr, swaps)
   })"

primrec bubble_sort :: "nat \<Rightarrow> 'h cmd_tbl list \<Rightarrow> 'h cmd_tbl list option" where
  "bubble_sort 0 arr = Some arr"
| "bubble_sort (Suc i) arr = do {
     (arr, swaps) \<leftarrow> foreach [0..<Suc i] bubble_step (arr, 0);
     if swaps = 0 then Some arr else bubble_sort i arr
   }"

text \<open>The short list; \<open>stop k\<close> says whether control-C is seen before the \<open>k\<close>-th entry.\<close>

fun help_list :: "(nat \<Rightarrow> bool) \<Rightarrow> nat \<Rightarrow> 'h cmd_tbl list \<Rightarrow> byte list \<Rightarrow> byte list \<times> int" where
  "help_list stop k [] out = (out, 0)"
| "help_list stop k (e # es) out =
     (if stop k then (out, 1)
      else case cmd_usage_text e of
             None \<Rightarrow> help_list stop (k + 1) es out
           | Some u \<Rightarrow> help_list stop (k + 1) es
               (out @ string_field (Some (cmd_name e)) 8 (length (cmd_name e)) 16 @
                 txt_bytes ''- '' @ u @ [10]))"

fun help_args :: "'h cmd_tbl list \<Rightarrow> byte list list \<Rightarrow> byte list \<Rightarrow> int \<Rightarrow> (byte list \<times> int) option" where
  "help_args tbl [] out rcode = Some (out, rcode)"
| "help_args tbl (a # as) out rcode =
     (case find_cmd_tbl a tbl of
        None \<Rightarrow> None
      | Some (Some k) \<Rightarrow>
          (case cmd_usage (tbl ! k) of (t, r) \<Rightarrow> help_args tbl as (out @ t) (rcode OR r))
      | Some None \<Rightarrow> help_args tbl as
          (out @ txt_bytes ''Unknown command '' @ [39] @ a @ [39] @
            txt_bytes '' - try '' @ [39] @ txt_bytes ''help'' @ [39] @
            txt_bytes '' without arguments for list of all known commands'' @ [10, 10]) 1)"

text \<open>The arguments behind the command's own name.\<close>

definition do_help_tbl :: "(nat \<Rightarrow> bool) \<Rightarrow> 'h cmd_tbl list \<Rightarrow> byte list list \<Rightarrow> (byte list \<times> int) option" where
  "do_help_tbl stop tbl args =
     (if args = []
      then map_option (\<lambda>arr. help_list stop 0 arr []) (bubble_sort (length tbl - 1) tbl)
      else help_args tbl args [] 0)"

end
