(* ===== verification/CommandCorrect.thy ===== *)
theory CommandCorrect
  imports Command CStringCorrect "HOL-Library.List_Lexorder" "HOL-Library.Multiset" "HOL-Library.Sublist"
begin

text \<open>
  The command table: what a name finds, and the sorted list that \<open>help\<close> prints.
\<close>

section \<open>Comparing strings\<close>


lemma strncmp_sep:
  assumes "0 \<notin> set a" and "0 \<notin> set b" and "n \<le> length a"
  shows "\<exists>r. c_strncmp n (pa @ a @ mid @ b @ 0 # t) (length pa) (length pa + length a + length mid) = Some r \<and>
    (r = 0 \<longleftrightarrow> prefix (take n a) b)"
  using assms
proof (induction n arbitrary: pa a mid b)
  case (Suc n)
  then obtain x as where a: "a = x # as" "x \<noteq> 0" by (cases a) auto
  let ?m = "pa @ a @ mid @ b @ 0 # t"
  have rx: "rd ?m (length pa) = Some x" by (simp add: a nth_append)
  show ?case
  proof (cases b)
    case Nil
    have "rd ?m (length pa + length a + length mid) = Some 0" by (simp add: Nil nth_append)
    then show ?thesis using rx a Nil by (simp add: Let_def char_diff_zero)
  next
    case (Cons y bs)
    have ry: "rd ?m (length pa + length a + length mid) = Some y" by (simp add: Cons nth_append)
    have "?m = (pa @ [x]) @ as @ (mid @ [y]) @ bs @ 0 # t" by (simp add: a Cons)
    moreover have "\<exists>r. c_strncmp n ((pa @ [x]) @ as @ (mid @ [y]) @ bs @ 0 # t) (length (pa @ [x]))
        (length (pa @ [x]) + length as + length (mid @ [y])) = Some r \<and> (r = 0 \<longleftrightarrow> prefix (take n as) bs)"
      by (rule Suc.IH) (use Suc.prems a Cons in auto)
    ultimately show ?thesis using rx ry a Cons
      by (auto simp: Let_def char_diff_zero)
  qed
qed simp

lemma str_ncmp_prefix:
  assumes "0 \<notin> set a" and "0 \<notin> set b" and "n \<le> length a"
  shows "\<exists>r. str_ncmp a b n = Some r \<and> (r = 0 \<longleftrightarrow> prefix (take n a) b)"
  using strncmp_sep [OF assms, of "[]" "[0]" "[]"] by (simp add: str_ncmp_def)

text \<open>The sign of the comparison of two strings of plain ASCII characters is their order.\<close>

definition ascii :: "byte list \<Rightarrow> bool" where
  "ascii s \<longleftrightarrow> (\<forall>c \<in> set s. 0 < c \<and> c < 128)"

lemma char_diff_ascii:
  assumes "a < 128" and "b < 128"
  shows "0 < char_diff a b \<longleftrightarrow> b < a"
proof -
  have u: "uint a < 128" "uint b < 128" using assms by (simp_all add: word_less_def)
  have p: "0 \<le> uint a" "0 \<le> uint b" by simp_all
  have "a - b = word_of_int (uint a - uint b)" by simp
  moreover have "- 128 \<le> uint a - uint b" using u p by linarith
  moreover have "uint a - uint b < 128" using u p by linarith
  ultimately have "sint (a - b) = uint a - uint b"
    using signed_take_bit_int_eq_self [of 7 "uint a - uint b"] by (simp only: signed_of_int) simp
  then show ?thesis by (simp add: char_diff_def word_less_def)
qed

lemma strcmp_order:
  assumes "ascii as" and "ascii bs" and "has_str m s as" and "has_str m t bs"
  shows "\<exists>r. c_strcmp m s t = Some r \<and> (0 < r \<longleftrightarrow> bs < as)"
  using assms
proof (induction as arbitrary: s t bs)
  case Nil
  show ?case
  proof (cases bs)
    case (Cons b bs')
    have "\<not> 0 < char_diff 0 b" using char_diff_ascii [of 0 b] Nil.prems(2) Cons by (simp add: ascii_def)
    then show ?thesis using Nil.prems Cons
      by (subst c_strcmp.simps) (simp add: has_str_Nil has_str_Cons Let_def)
  qed (use Nil.prems in \<open>simp add: has_str_Nil c_strcmp.simps [of m] char_diff_def\<close>)
next
  case (Cons a as)
  have a: "0 < a" "a < 128" "ascii as" using Cons.prems(1) by (simp_all add: ascii_def)
  show ?case
  proof (cases bs)
    case Nil
    have "0 < char_diff a 0" using char_diff_ascii [of a 0] a by simp
    then show ?thesis using Cons.prems Nil
      by (subst c_strcmp.simps) (auto simp: has_str_Nil has_str_Cons Let_def)
  next
    case bs: (Cons b bs')
    have b: "0 < b" "b < 128" "ascii bs'" using Cons.prems(2) bs by (simp_all add: ascii_def)
    have step: "c_strcmp m s t =
      (let res = char_diff a b in if res \<noteq> 0 \<or> a = 0 then Some res else c_strcmp m (s + 1) (t + 1))"
      using Cons.prems bs by (subst c_strcmp.simps) (simp add: has_str_Cons)
    show ?thesis
    proof (cases "a = b")
      case True
      then have "c_strcmp m s t = c_strcmp m (s + 1) (t + 1)"
        using step a(1) by (auto simp: char_diff_zero word_gt_0)
      then show ?thesis
        using Cons.IH [OF a(3) b(3), of "s + 1" "t + 1"] Cons.prems(3,4) bs True by (simp add: has_str_Cons)
    next
      case False
      then show ?thesis using step bs char_diff_ascii [OF a(2) b(2)] by (auto simp: char_diff_zero Let_def)
    qed
  qed
qed

lemma ascii_no_zero: "ascii s \<Longrightarrow> 0 \<notin> set s"
  by (auto simp: ascii_def)

lemma str_cmp_eq:
  assumes "0 \<notin> set a" and "0 \<notin> set b"
  shows "\<exists>r. str_cmp a b = Some r \<and> (r = 0 \<longleftrightarrow> a = b)"
proof -
  let ?m = "a @ 0 # b @ [0]"
  have "has_str ?m 0 a" "has_str ?m (length a + 1) b" using assms by (simp_all add: has_str_def nth_append)
  from strcmp_has [OF this] show ?thesis by (simp add: str_cmp_def)
qed

lemma str_cmp_order:
  assumes "ascii a" and "ascii b"
  shows "\<exists>r. str_cmp a b = Some r \<and> (0 < r \<longleftrightarrow> b < a)"
proof -
  let ?m = "a @ 0 # b @ [0]"
  have "has_str ?m 0 a" "has_str ?m (length a + 1) b"
    using ascii_no_zero [OF assms(1)] ascii_no_zero [OF assms(2)] by (simp_all add: has_str_def nth_append)
  from strcmp_order [OF assms this] show ?thesis by (simp add: str_cmp_def)
qed

section \<open>Finding a command\<close>

definition stem :: "byte list \<Rightarrow> byte list" where
  "stem cmd = takeWhile (\<lambda>c. c \<noteq> 46) cmd"

text \<open>The command a name means: the first entry with that name, else the only one it begins.\<close>

definition find_spec :: "byte list \<Rightarrow> byte list list \<Rightarrow> nat option" where
  "find_spec s names =
     (case filter (\<lambda>i. names ! i = s) [0..<length names] of
        i # _ \<Rightarrow> Some i
      | [] \<Rightarrow> (case filter (\<lambda>i. prefix s (names ! i)) [0..<length names] of
                [i] \<Rightarrow> Some i
              | _ \<Rightarrow> None))"

lemma strchr_stem:
  "0 \<notin> set cmd \<Longrightarrow> c_strchr (p @ cmd @ [0]) (length p) 46 =
    Some (if 46 \<in> set cmd then Some (length p + length (stem cmd)) else None)"
proof (induction cmd arbitrary: p)
  case Nil
  show ?case by (subst c_strchr.simps) (simp add: nth_append)
next
  case (Cons c cmd)
  have "c_strchr (p @ (c # cmd) @ [0]) (length p) 46 =
    (if c = 46 then Some (Some (length p)) else c_strchr ((p @ [c]) @ cmd @ [0]) (length (p @ [c])) 46)"
    using Cons.prems by (subst c_strchr.simps) (auto simp: nth_append)
  then show ?case using Cons.IH [of "p @ [c]"] Cons.prems by (auto simp: stem_def)
qed

lemma strlen_list: "0 \<notin> set s \<Longrightarrow> c_strlen (s @ [0]) 0 = Some (length s)"
  by (rule strlen_has) (simp add: has_str_def nth_append)

lemma stem_no_dot: "46 \<notin> set cmd \<Longrightarrow> stem cmd = cmd"
  by (auto simp: stem_def takeWhile_eq_all_conv)

lemma cmd_len_stem: "0 \<notin> set cmd \<Longrightarrow> cmd_len cmd = Some (length (stem cmd))"
  using strchr_stem [of cmd "[]"] strlen_list [of cmd] stem_no_dot [of cmd]
  by (auto simp: cmd_len_def)

lemma take_stem: "take (length (stem cmd)) cmd = stem cmd"
  by (simp add: stem_def takeWhile_eq_take [symmetric] flip: takeWhile_eq_take)

lemma stem_le: "length (stem cmd) \<le> length cmd"
  by (simp add: stem_def length_takeWhile_le)

text \<open>The loop from entry \<open>k\<close> on, with the abbreviations met so far in the temporary and the count.\<close>

definition scan_spec :: "byte list \<Rightarrow> byte list list \<Rightarrow> nat \<Rightarrow> nat \<Rightarrow> nat \<Rightarrow> nat option" where
  "scan_spec s names k temp n =
     (case filter (\<lambda>i. names ! i = s) [0..<length names] of
        i # _ \<Rightarrow> Some (k + i)
      | [] \<Rightarrow> (let ab = filter (\<lambda>i. prefix s (names ! i)) [0..<length names] in
               if n + length ab = 1 then Some (if ab = [] then temp else k + last ab) else None))"

lemma filter_upt_Suc:
  "filter P [0..<Suc n] = (if P 0 then [0] else []) @ map Suc (filter (\<lambda>i. P (Suc i)) [0..<n])"
  by (simp add: upt_conv_Cons map_Suc_upt [symmetric] filter_map comp_def del: upt_Suc)

lemma scan_spec_Cons:
  "scan_spec s (x # names) k temp n =
    (if x = s then Some k
     else if prefix s x then scan_spec s names (k + 1) k (n + 1)
     else scan_spec s names (k + 1) temp n)"
  by (auto simp: scan_spec_def filter_upt_Suc Let_def last_map split: list.splits simp del: upt_Suc)

lemma find_scan_spec:
  assumes "0 \<notin> set cmd" and "\<forall>e \<in> set tbl. 0 \<notin> set (cmd_name e)"
  shows "find_scan cmd (length (stem cmd)) tbl k temp n =
    Some (scan_spec (stem cmd) (map cmd_name tbl) k temp n)"
  using assms(2)
proof (induction tbl arbitrary: k temp n)
  case Nil
  show ?case by (simp add: scan_spec_def)
next
  case (Cons e es)
  have ok: "0 \<notin> set (cmd_name e)" using Cons.prems by simp
  obtain r where r: "str_ncmp cmd (cmd_name e) (length (stem cmd)) = Some r"
    "r = 0 \<longleftrightarrow> prefix (stem cmd) (cmd_name e)"
    using str_ncmp_prefix [OF assms(1) ok stem_le] by (auto simp: take_stem)
  have full: "cmd_name e = stem cmd \<longleftrightarrow> prefix (stem cmd) (cmd_name e) \<and> length (stem cmd) = length (cmd_name e)"
    by (auto simp: prefix_def)
  show ?case
    using Cons.IH Cons.prems r full by (simp add: strlen_list [OF ok] scan_spec_Cons)
qed

lemma scan_find_spec: "scan_spec s names 0 0 0 = find_spec s names"
  by (auto simp: scan_spec_def find_spec_def Let_def split: list.splits)

section \<open>The sorted list\<close>

definition name_ordered :: "'h cmd_tbl \<Rightarrow> 'h cmd_tbl \<Rightarrow> bool" where
  "name_ordered a b \<longleftrightarrow> cmd_name a \<le> cmd_name b"

definition names_ascii :: "'h cmd_tbl list \<Rightarrow> bool" where
  "names_ascii arr \<longleftrightarrow> (\<forall>e \<in> set arr. ascii (cmd_name e))"

lemma bubble_step_names:
  assumes "names_ascii (xs @ a # b # ys)"
  shows "bubble_step (length xs) (xs @ a # b # ys, n) =
    Some (if name_ordered a b then (xs @ a # b # ys, n) else (xs @ b # a # ys, n + 1))"
proof -
  have "ascii (cmd_name a)" "ascii (cmd_name b)" using assms by (simp_all add: names_ascii_def)
  from str_cmp_order [OF this] obtain r where
    r: "str_cmp (cmd_name a) (cmd_name b) = Some r" "0 < r \<longleftrightarrow> cmd_name b < cmd_name a" by auto
  have l: "(xs @ a # b # ys)[length xs := b, Suc (length xs) := a] = xs @ b # a # ys"
    by (simp add: list_update_append)
  show ?thesis using r l by (auto simp: bubble_step_def name_ordered_def nth_append not_le)
qed

text \<open>A pass over \<open>x # zs\<close> carries the greatest element to the end.\<close>

fun carry_max :: "'h cmd_tbl \<Rightarrow> 'h cmd_tbl list \<Rightarrow> 'h cmd_tbl list \<times> nat" where
  "carry_max x [] = ([x], 0)"
| "carry_max x (z # zs) =
     (if name_ordered x z then (case carry_max z zs of (r, n) \<Rightarrow> (x # r, n))
      else (case carry_max x zs of (r, n) \<Rightarrow> (z # r, n + 1)))"

lemma bubble_pass:
  assumes "names_ascii (xs @ x # zs @ ys)"
  shows "foreach [length xs..<length xs + length zs] bubble_step (xs @ x # zs @ ys, n) =
    Some (xs @ fst (carry_max x zs) @ ys, n + snd (carry_max x zs))"
  using assms
proof (induction zs arbitrary: xs x n)
  case (Cons z zs)
  have a: "names_ascii ((xs @ [x]) @ z # zs @ ys)" "names_ascii ((xs @ [z]) @ x # zs @ ys)"
    using Cons.prems by (auto simp: names_ascii_def)
  have b: "bubble_step (length xs) (xs @ x # z # zs @ ys, n) =
      Some (if name_ordered x z then (xs @ x # z # zs @ ys, n) else (xs @ z # x # zs @ ys, n + 1))"
    using bubble_step_names [of xs x z "zs @ ys" n] Cons.prems by simp
  show ?case
    using b Cons.IH [OF a(1), of n] Cons.IH [OF a(2), of "n + 1"]
    by (simp add: upt_conv_Cons split: prod.splits del: upt_Suc)
qed simp

lemma carry_max_mset: "mset (fst (carry_max x zs)) = mset (x # zs)"
  by (induction x zs rule: carry_max.induct) (auto split: prod.splits)

lemma carry_max_last:
  "\<exists>r m. fst (carry_max x zs) = r @ [m] \<and> length r = length zs \<and> (\<forall>y \<in> set (x # zs). name_ordered y m)"
proof (induction x zs rule: carry_max.induct)
  case (2 x z zs)
  show ?case
  proof (cases "name_ordered x z")
    case True
    with 2(1) obtain r m where "fst (carry_max z zs) = r @ [m]" "length r = length zs"
      "\<forall>y \<in> set (z # zs). name_ordered y m" by blast
    then show ?thesis using True
      by (intro exI [of _ "x # r"] exI [of _ m]) (auto simp: name_ordered_def split: prod.splits)
  next
    case False
    with 2(2) obtain r m where "fst (carry_max x zs) = r @ [m]" "length r = length zs"
      "\<forall>y \<in> set (x # zs). name_ordered y m" by blast
    then show ?thesis using False
      by (intro exI [of _ "z # r"] exI [of _ m]) (auto simp: name_ordered_def split: prod.splits)
  qed
qed (simp add: name_ordered_def)

lemma carry_max_no_swap:
  "snd (carry_max x zs) = 0 \<Longrightarrow> fst (carry_max x zs) = x # zs \<and> sorted_wrt name_ordered (x # zs)"
proof (induction x zs rule: carry_max.induct)
  case (2 x z zs)
  have o: "name_ordered x z" using 2(3) by (auto split: if_splits prod.splits)
  then have "snd (carry_max z zs) = 0" using 2(3) by (auto split: prod.splits)
  from 2(1) [OF o this] o show ?case by (auto simp: name_ordered_def split: prod.splits)
qed simp

lemma bubble_sort_sorted:
  assumes "names_ascii (zs @ ys)" and "zs \<noteq> []" and "i = length zs - 1"
    and "sorted_wrt name_ordered ys" and "\<forall>z \<in> set zs. \<forall>y \<in> set ys. name_ordered z y"
  shows "\<exists>arr. bubble_sort i (zs @ ys) = Some arr \<and> mset arr = mset (zs @ ys) \<and> sorted_wrt name_ordered arr"
  using assms
proof (induction i arbitrary: zs ys)
  case 0
  then obtain z where "zs = [z]" by (cases zs) auto
  then show ?case using 0 by simp
next
  case (Suc i)
  obtain x xs where zs: "zs = x # xs" "length xs = Suc i" using Suc.prems(2,3) by (cases zs) auto
  have pass: "foreach [0..<Suc i] bubble_step (zs @ ys, 0) = Some (fst (carry_max x xs) @ ys, snd (carry_max x xs))"
    using bubble_pass [of "[]" x xs ys 0] Suc.prems(1) zs by simp
  show ?case
  proof (cases "snd (carry_max x xs) = 0")
    case True
    from carry_max_no_swap [OF this] show ?thesis
      using pass True zs Suc.prems(4,5) by (auto simp: sorted_wrt_append simp del: foreach.simps upt_Suc)
  next
    case False
    obtain r m where r: "fst (carry_max x xs) = r @ [m]" "length r = length xs"
      "\<forall>y \<in> set (x # xs). name_ordered y m" using carry_max_last by blast
    have ms: "mset r + {#m#} = mset zs" using carry_max_mset [of x xs] r(1) zs by simp
    have st: "set r \<union> {m} = set zs" using ms by (metis set_mset_mset set_mset_union set_mset_single)
    have "\<exists>arr. bubble_sort i (r @ m # ys) = Some arr \<and> mset arr = mset (r @ m # ys) \<and>
      sorted_wrt name_ordered arr"
    proof (rule Suc.IH)
      show "names_ascii (r @ m # ys)" using Suc.prems(1) st by (auto simp: names_ascii_def)
      show "r \<noteq> []" "i = length r - 1" using r(2) zs by auto
      show "sorted_wrt name_ordered (m # ys)" using Suc.prems(4,5) st by auto
      show "\<forall>z \<in> set r. \<forall>y \<in> set (m # ys). name_ordered z y" using r(3) st zs Suc.prems(5) by auto
    qed
    moreover have "mset (r @ m # ys) = mset (zs @ ys)" using ms by (simp add: add.assoc [symmetric])
    ultimately show ?thesis using pass r(1) False by (auto simp del: foreach.simps upt_Suc)
  qed
qed

section \<open>The properties\<close>

definition ex_cmds :: "nat cmd_tbl list" where
  "ex_cmds = map (\<lambda>(n, h). \<lparr>cmd_name = n, cmd_maxargs = 2, cmd_repeatable = 1, cmd_fn = h,
     cmd_usage_text = None, cmd_help_text = None\<rparr>)
     [([114, 117, 110], 0), ([114, 101, 115, 101, 116], 1), ([104, 101, 108, 112], 2)]"

text \<open>C35. A command line word finds what it means: up to its first dot it is compared with the names
  of the table; the first entry with exactly that name wins wherever it stands, else the only
  entry that begins with it, and an ambiguous or unknown word finds nothing.\<close>

theorem find_cmd_finds:
  assumes "0 \<notin> set cmd" and "\<forall>e \<in> set tbl. 0 \<notin> set (cmd_name e)"
  shows "find_cmd_tbl cmd tbl = Some (find_spec (stem cmd) (map cmd_name tbl))"
  using find_scan_spec [OF assms] cmd_len_stem [OF assms(1)]
  by (simp add: find_cmd_tbl_def scan_find_spec)

lemma find_cmd_finds_witness:
  "find_cmd_tbl [114] ex_cmds = Some None \<and> find_cmd_tbl [114, 101] ex_cmds = Some (Some 1) \<and>
   find_cmd_tbl [114, 117, 110, 46, 98] ex_cmds = Some (Some 0)"
proof -
  have ok: "\<forall>e \<in> set ex_cmds. 0 \<notin> set (cmd_name e)" by (simp add: ex_cmds_def)
  have n: "map cmd_name ex_cmds = [[114, 117, 110], [114, 101, 115, 101, 116], [104, 101, 108, 112]]"
    by (simp add: ex_cmds_def)
  show ?thesis
    using find_cmd_finds [OF _ ok, of "[114]"] find_cmd_finds [OF _ ok, of "[114, 101]"]
      find_cmd_finds [OF _ ok, of "[114, 117, 110, 46, 98]"]
    unfolding n by (simp add: find_spec_def stem_def upt_conv_Cons)
qed

text \<open>The list of commands that \<open>help\<close> prints is the table itself, sorted by name: the bubble
  sort with its early stop ends, stays inside the array and only moves entries.\<close>

theorem help_sorts:
  assumes "\<forall>e \<in> set tbl. ascii (cmd_name e)"
  shows "\<exists>arr. bubble_sort (length tbl - 1) tbl = Some arr \<and> mset arr = mset tbl \<and>
    sorted (map cmd_name arr)"
proof (cases "tbl = []")
  case False
  have "names_ascii (tbl @ [])" using assms by (simp add: names_ascii_def)
  from bubble_sort_sorted [OF this False refl] show ?thesis
    by (auto simp: sorted_map name_ordered_def [abs_def])
qed simp

lemma help_sorts_witness:
  "\<exists>arr. bubble_sort (length ex_cmds - 1) ex_cmds = Some arr \<and> mset arr = mset ex_cmds \<and>
    sorted (map cmd_name arr)"
  by (rule help_sorts) (simp add: ex_cmds_def ascii_def)

end
