(* ===== verification/Cli.thy ===== *)
theory Cli
  imports Command
begin

text \<open>
  The history and the line editor of \<^verbatim>\<open>common/main.c\<close>, for the board's configuration
  (\<^verbatim>\<open>CONFIG_CMDLINE_EDITING\<close>, no retry time, no completion). The input is the list of the
  keys that will be read. What is written to the console is not modelled.
\<close>

section \<open>History\<close>

definition HIST_MAX :: nat where "HIST_MAX = 20"
definition HIST_SIZE :: nat where "HIST_SIZE = 256"

text \<open>\<open>hist_list[i]\<close> always points to the row \<open>hist_lines[i]\<close>; a row has \<open>HIST_SIZE\<close> bytes.\<close>

record hist =
  hist_max :: nat
  hist_add_idx :: nat
  hist_cur :: int
  hist_num :: u32
  hist_lines :: "mem list"

definition hist_init :: "hist \<Rightarrow> hist" where
  "hist_init h = h\<lparr>hist_max := 0, hist_add_idx := 0, hist_cur := - 1, hist_num := 0,
     hist_lines := map (\<lambda>r. r[0 := 0]) (hist_lines h)\<rparr>"

text \<open>\<open>strcpy\<close> of the string at the start of \<open>line\<close> into a buffer.\<close>

definition copy_line :: "mem \<Rightarrow> mem \<Rightarrow> mem option" where
  "copy_line dst line = do { e \<leftarrow> str_end line 0; wrn dst 0 (take (e + 1) line) }"

definition cread_add_to_hist :: "hist \<Rightarrow> mem \<Rightarrow> hist option" where
  "cread_add_to_hist h line = do {
     row \<leftarrow> rd (hist_lines h) (hist_add_idx h);
     row \<leftarrow> copy_line row line;
     let lines = (hist_lines h)[hist_add_idx h := row];
     let add = (if HIST_MAX \<le> hist_add_idx h + 1 then 0 else hist_add_idx h + 1);
     Some (h\<lparr>hist_lines := lines, hist_add_idx := add,
       hist_max := (if hist_max h < add then add else hist_max h), hist_num := hist_num h + 1\<rparr>)
   }"

text \<open>The row that the line before, or behind, the current one is in; \<open>NULL\<close> is \<open>None\<close>.\<close>

definition hist_prev :: "hist \<Rightarrow> hist \<times> nat option" where
  "hist_prev h =
     (if hist_cur h < 0 then (h, None)
      else let c = (if hist_cur h - 1 < 0 then int (hist_max h) else hist_cur h - 1)
        in if c = int (hist_add_idx h) then (h, None) else (h\<lparr>hist_cur := c\<rparr>, Some (nat c)))"

text \<open>Here \<open>Some None\<close> is the empty string behind the last line.\<close>

definition hist_next :: "hist \<Rightarrow> hist \<times> nat option option" where
  "hist_next h =
     (if hist_cur h < 0 then (h, None)
      else if hist_cur h = int (hist_add_idx h) then (h, None)
      else let c = (if int (hist_max h) < hist_cur h + 1 then 0 else hist_cur h + 1)
        in (h\<lparr>hist_cur := c\<rparr>, Some (if c = int (hist_add_idx h) then None else Some (nat c))))"

section \<open>The line editor\<close>

record cread =
  ed_buf :: mem
  ed_num :: nat
  ed_eol :: nat
  ed_insert :: bool
  ed_esc_len :: nat
  ed_esc_save :: mem

text \<open>\<open>memmove\<close>, its result not used.\<close>

definition mem_move :: "mem \<Rightarrow> nat \<Rightarrow> nat \<Rightarrow> nat \<Rightarrow> mem option" where
  "mem_move m dest src count = map_option fst (c_memmove m dest src count)"

definition cread_add_char :: "byte \<Rightarrow> bool \<Rightarrow> nat \<Rightarrow> cread \<Rightarrow> cread option" where
  "cread_add_char ichar ins len st =
     (if (ins \<or> ed_num st = ed_eol st) \<and> len - 1 < ed_eol st then Some st
      else
        (let st = (if ins \<or> ed_num st = ed_eol st then st\<lparr>ed_eol := ed_eol st + 1\<rparr> else st);
             num = ed_num st;
             wlen = ed_eol st - num
         in do {
           buf \<leftarrow> (if ins \<and> 1 < wlen then mem_move (ed_buf st) (num + 1) num (wlen - 1) else Some (ed_buf st));
           buf \<leftarrow> wr buf num ichar;
           Some (st\<lparr>ed_buf := buf, ed_num := num + 1\<rparr>)
         }))"

primrec cread_add_str :: "nat \<Rightarrow> mem \<Rightarrow> nat \<Rightarrow> bool \<Rightarrow> nat \<Rightarrow> cread \<Rightarrow> cread option" where
  "cread_add_str 0 s p ins len st = Some st"
| "cread_add_str (Suc n) s p ins len st = do {
     c \<leftarrow> rd s p;
     st \<leftarrow> cread_add_char c ins len st;
     cread_add_str n s (p + 1) ins len st
   }"

text \<open>The same where the string is the buffer that is being filled.\<close>

primrec cread_add_own :: "nat \<Rightarrow> nat \<Rightarrow> nat \<Rightarrow> cread \<Rightarrow> cread option" where
  "cread_add_own 0 p len st = Some st"
| "cread_add_own (Suc n) p len st = do {
     c \<leftarrow> rd (ed_buf st) p;
     st \<leftarrow> cread_add_char c True len st;
     cread_add_own n (p + 1) len st
   }"

definition BEGINNING_OF_LINE :: "cread \<Rightarrow> cread" where
  "BEGINNING_OF_LINE st = st\<lparr>ed_num := 0\<rparr>"

definition ERASE_TO_EOL :: "cread \<Rightarrow> cread" where
  "ERASE_TO_EOL st = (if ed_num st < ed_eol st then st\<lparr>ed_eol := ed_num st\<rparr> else st)"

definition REFRESH_TO_EOL :: "cread \<Rightarrow> cread" where
  "REFRESH_TO_EOL st = (if ed_num st < ed_eol st then st\<lparr>ed_num := ed_eol st\<rparr> else st)"

definition CTL_CH :: "byte \<Rightarrow> byte" where
  "CTL_CH c = c - 97 + 1"

text \<open>The cases of the switch that delete a character.\<close>

definition delete_here :: "cread \<Rightarrow> cread option" where
  "delete_here st =
     (if ed_num st < ed_eol st
      then let wlen = ed_eol st - ed_num st - 1 in do {
        buf \<leftarrow> (if wlen \<noteq> 0 then mem_move (ed_buf st) (ed_num st) (ed_num st + 1) wlen else Some (ed_buf st));
        Some (st\<lparr>ed_buf := buf, ed_eol := ed_eol st - 1\<rparr>)
      }
      else Some st)"

definition delete_back :: "cread \<Rightarrow> cread option" where
  "delete_back st =
     (if ed_num st \<noteq> 0
      then let wlen = ed_eol st - ed_num st; num = ed_num st - 1 in do {
        buf \<leftarrow> mem_move (ed_buf st) num (num + 1) wlen;
        Some (st\<lparr>ed_buf := buf, ed_num := num, ed_eol := ed_eol st - 1\<rparr>)
      }
      else Some st)"

text \<open>Taking a line of the history into the buffer.\<close>

definition take_line :: "mem \<Rightarrow> cread \<Rightarrow> cread option" where
  "take_line line st =
     (let st = ERASE_TO_EOL (BEGINNING_OF_LINE st) in do {
        buf \<leftarrow> copy_line (ed_buf st) line;
        eol \<leftarrow> c_strlen buf 0;
        Some (REFRESH_TO_EOL (st\<lparr>ed_buf := buf, ed_eol := eol\<rparr>))
      })"

definition history_key :: "bool \<Rightarrow> cread \<Rightarrow> hist \<Rightarrow> (cread \<times> hist) option" where
  "history_key prev st h =
     (let st = st\<lparr>ed_esc_len := 0\<rparr>;
          (h, hline) = (if prev then (case hist_prev h of (h, k) \<Rightarrow> (h, map_option Some k)) else hist_next h)
      in case hline of
           None \<Rightarrow> Some (st, h)
         | Some None \<Rightarrow> map_option (\<lambda>st. (st, h)) (take_line [0] st)
         | Some (Some k) \<Rightarrow> do {
             line \<leftarrow> rd (hist_lines h) k;
             st \<leftarrow> take_line line st;
             Some (st, h)
           })"

text \<open>What a key does: editing goes on, the line is entered, or the input is broken off.\<close>

datatype key_result = Editing cread hist | Entered cread hist | Broken cread hist

definition edit :: "hist \<Rightarrow> cread option \<Rightarrow> key_result option" where
  "edit h st = map_option (\<lambda>st. Editing st h) st"

definition cread_switch :: "nat \<Rightarrow> byte \<Rightarrow> cread \<Rightarrow> hist \<Rightarrow> key_result option" where
  "cread_switch len ichar st h =
     (if ichar = 0x1b then
        (if ed_esc_len st = 0
         then do {
           s \<leftarrow> wr (ed_esc_save st) 0 ichar;
           Some (Editing (st\<lparr>ed_esc_save := s, ed_esc_len := 1\<rparr>) h)
         }
         else Some (Editing (st\<lparr>ed_esc_len := 0\<rparr>) h))
      else if ichar = CTL_CH 97 then edit h (Some (BEGINNING_OF_LINE st))
      else if ichar = CTL_CH 99 then
        map_option (\<lambda>buf. Broken (st\<lparr>ed_buf := buf\<rparr>) h) (wr (ed_buf st) 0 0)
      else if ichar = CTL_CH 102 then
        edit h (Some (if ed_num st < ed_eol st then st\<lparr>ed_num := ed_num st + 1\<rparr> else st))
      else if ichar = CTL_CH 98 then
        edit h (Some (if ed_num st \<noteq> 0 then st\<lparr>ed_num := ed_num st - 1\<rparr> else st))
      else if ichar = CTL_CH 100 then edit h (delete_here st)
      else if ichar = CTL_CH 107 then edit h (Some (ERASE_TO_EOL st))
      else if ichar = CTL_CH 101 then edit h (Some (REFRESH_TO_EOL st))
      else if ichar = CTL_CH 111 then edit h (Some (st\<lparr>ed_insert := \<not> ed_insert st\<rparr>))
      else if ichar = CTL_CH 120 \<or> ichar = CTL_CH 117 then
        edit h (Some (ERASE_TO_EOL (BEGINNING_OF_LINE st)))
      else if ichar = 255 \<or> ichar = 127 \<or> ichar = 8 then edit h (delete_back st)
      else if ichar = CTL_CH 112 \<or> ichar = CTL_CH 110 then
        map_option (\<lambda>(st, h). Editing st h) (history_key (ichar = CTL_CH 112) st h)
      else edit h (cread_add_char ichar (ed_insert st) len st))"

text \<open>The keys behind \<open>ESC [\<close> that stand for a control character.\<close>

definition esc_key :: "byte \<Rightarrow> byte option" where
  "esc_key c = (if c = 68 then Some (CTL_CH 98) else if c = 67 then Some (CTL_CH 102)
     else if c = 72 then Some (CTL_CH 97) else if c = 65 then Some (CTL_CH 112)
     else if c = 66 then Some (CTL_CH 110) else None)"

definition cread_key :: "nat \<Rightarrow> byte \<Rightarrow> cread \<Rightarrow> hist \<Rightarrow> key_result option" where
  "cread_key len ichar st h =
     (if ichar = 10 \<or> ichar = 13 then Some (Entered st h)
      else if ed_esc_len st = 0 then cread_switch len ichar st h
      else if ed_esc_len st = 1 then
        (if ichar = 91
         then map_option (\<lambda>s. Editing (st\<lparr>ed_esc_save := s, ed_esc_len := 2\<rparr>) h) (wr (ed_esc_save st) 1 ichar)
         else do {
           st \<leftarrow> cread_add_str (ed_esc_len st) (ed_esc_save st) 0 (ed_insert st) len st;
           Some (Editing (st\<lparr>ed_esc_len := 0\<rparr>) h)
         })
      else case esc_key ichar of
        Some c \<Rightarrow> cread_switch len c (st\<lparr>ed_esc_len := 0\<rparr>) h
      | None \<Rightarrow> do {
          s \<leftarrow> wr (ed_esc_save st) (ed_esc_len st) ichar;
          let st = st\<lparr>ed_esc_save := s, ed_esc_len := ed_esc_len st + 1\<rparr>;
          st \<leftarrow> cread_add_str (ed_esc_len st) s 0 (ed_insert st) len st;
          Some (Editing (st\<lparr>ed_esc_len := 0\<rparr>) h)
        })"

text \<open>Keys are read until the line is entered or broken off; the keys that are left come with the
  result, and \<open>Editing\<close> at the end means that the editor waits for another key.\<close>

fun cread_keys :: "nat \<Rightarrow> byte list \<Rightarrow> cread \<Rightarrow> hist \<Rightarrow> (key_result \<times> byte list) option" where
  "cread_keys len [] st h = Some (Editing st h, [])"
| "cread_keys len (c # cs) st h =
     (case cread_key len c st h of
        None \<Rightarrow> None
      | Some (Editing st h) \<Rightarrow> cread_keys len cs st h
      | Some r \<Rightarrow> Some (r, cs))"

text \<open>The buffer, the length and the history after \<open>cread_line\<close>, its result and the keys left;
  no result while it waits. \<open>esc\<close> is what \<open>esc_save\<close> holds at entry.\<close>

definition cread_line ::
  "mem \<Rightarrow> mem \<Rightarrow> nat \<Rightarrow> hist \<Rightarrow> byte list \<Rightarrow> (mem \<times> nat \<times> hist \<times> int option \<times> byte list) option" where
  "cread_line esc buf len h keys = do {
     init_len \<leftarrow> c_strlen buf 0;
     st \<leftarrow> cread_add_own init_len 0 len
       \<lparr>ed_buf = buf, ed_num = 0, ed_eol = 0, ed_insert = True, ed_esc_len = 0, ed_esc_save = esc\<rparr>;
     (r, keys) \<leftarrow> cread_keys len keys st h;
     (case r of
        Editing st h \<Rightarrow> Some (ed_buf st, len, h, None, keys)
      | Broken st h \<Rightarrow> Some (ed_buf st, len, h, Some (- 1), keys)
      | Entered st h \<Rightarrow> do {
          buf \<leftarrow> wr (ed_buf st) (ed_eol st) 0;
          h \<leftarrow> (if buf ! 0 \<noteq> 0 \<and> buf ! 0 \<noteq> 33 then cread_add_to_hist h buf else Some h);
          Some (buf, ed_eol st, h\<lparr>hist_cur := int (hist_add_idx h)\<rparr>, Some 0, keys)
        })
   }"

end
