(* ===== verification/CliCorrect.thy ===== *)
theory CliCorrect
  imports Cli CStringCorrect
begin

text \<open>
  The line editor and the history against what they mean: a line is the text before and the text
  behind the cursor, the history a list of lines, the latest first, with a position in it.
\<close>

section \<open>The meaning\<close>

record line_ed =
  le_before :: "byte list"
  le_after :: "byte list"
  le_insert :: bool
  le_esc :: "byte list"

record line_hist =
  lh_lines :: "byte list list"
  lh_pos :: "nat option"

datatype line_result = Edit line_ed line_hist | Line "byte list" line_hist | Cancel line_hist

definition le_add :: "byte \<Rightarrow> line_ed \<Rightarrow> line_ed" where
  "le_add c e =
     (if le_insert e \<or> le_after e = []
      then if length (le_before e) + length (le_after e) < HIST_SIZE
           then e\<lparr>le_before := le_before e @ [c]\<rparr> else e
      else e\<lparr>le_before := le_before e @ [c], le_after := tl (le_after e)\<rparr>)"

definition le_home :: "line_ed \<Rightarrow> line_ed" where
  "le_home e = e\<lparr>le_before := [], le_after := le_before e @ le_after e\<rparr>"

definition le_end :: "line_ed \<Rightarrow> line_ed" where
  "le_end e = e\<lparr>le_before := le_before e @ le_after e, le_after := []\<rparr>"

definition le_right :: "line_ed \<Rightarrow> line_ed" where
  "le_right e = (case le_after e of [] \<Rightarrow> e
     | c # cs \<Rightarrow> e\<lparr>le_before := le_before e @ [c], le_after := cs\<rparr>)"

definition le_left :: "line_ed \<Rightarrow> line_ed" where
  "le_left e = (if le_before e = [] then e
     else e\<lparr>le_before := butlast (le_before e), le_after := last (le_before e) # le_after e\<rparr>)"

text \<open>The line \<open>k\<close> entries behind; \<open>0\<close> is the new line.\<close>

definition lh_prev :: "line_hist \<Rightarrow> (line_hist \<times> byte list) option" where
  "lh_prev h = (case lh_pos h of None \<Rightarrow> None
     | Some k \<Rightarrow> if k < length (lh_lines h) then Some (h\<lparr>lh_pos := Some (k + 1)\<rparr>, lh_lines h ! k) else None)"

definition lh_next :: "line_hist \<Rightarrow> (line_hist \<times> byte list) option" where
  "lh_next h = (case lh_pos h of None \<Rightarrow> None
     | Some k \<Rightarrow> if k = 0 then None
         else Some (h\<lparr>lh_pos := Some (k - 1)\<rparr>, if k = 1 then [] else lh_lines h ! (k - 2)))"

definition le_history :: "(line_hist \<times> byte list) option \<Rightarrow> line_ed \<Rightarrow> line_hist \<Rightarrow> line_result" where
  "le_history r e h =
     (let e = e\<lparr>le_esc := []\<rparr> in
      case r of None \<Rightarrow> Edit e h
        | Some (h, s) \<Rightarrow> Edit (e\<lparr>le_before := s, le_after := []\<rparr>) h)"

definition le_switch :: "byte \<Rightarrow> line_ed \<Rightarrow> line_hist \<Rightarrow> line_result" where
  "le_switch c e h =
     (if c = 27 then Edit (e\<lparr>le_esc := (if le_esc e = [] then [27] else [])\<rparr>) h
      else if c = CTL_CH 97 then Edit (le_home e) h
      else if c = CTL_CH 99 then Cancel h
      else if c = CTL_CH 102 then Edit (le_right e) h
      else if c = CTL_CH 98 then Edit (le_left e) h
      else if c = CTL_CH 100 then Edit (e\<lparr>le_after := tl (le_after e)\<rparr>) h
      else if c = CTL_CH 107 then Edit (e\<lparr>le_after := []\<rparr>) h
      else if c = CTL_CH 101 then Edit (le_end e) h
      else if c = CTL_CH 111 then Edit (e\<lparr>le_insert := \<not> le_insert e\<rparr>) h
      else if c = CTL_CH 120 \<or> c = CTL_CH 117 then Edit (e\<lparr>le_before := [], le_after := []\<rparr>) h
      else if c = 255 \<or> c = 127 \<or> c = 8 then Edit (e\<lparr>le_before := butlast (le_before e)\<rparr>) h
      else if c = CTL_CH 112 then le_history (lh_prev h) e h
      else if c = CTL_CH 110 then le_history (lh_next h) e h
      else Edit (le_add c e) h)"

definition le_key :: "byte \<Rightarrow> line_ed \<Rightarrow> line_hist \<Rightarrow> line_result" where
  "le_key c e h =
     (if c = 10 \<or> c = 13 then Line (le_before e @ le_after e) h
      else if le_esc e = [] then le_switch c e h
      else if length (le_esc e) = 1 then
        (if c = 91 then Edit (e\<lparr>le_esc := le_esc e @ [c]\<rparr>) h
         else Edit ((fold le_add (le_esc e) e)\<lparr>le_esc := []\<rparr>) h)
      else (case esc_key c of
              Some c \<Rightarrow> le_switch c (e\<lparr>le_esc := []\<rparr>) h
            | None \<Rightarrow> Edit ((fold le_add (le_esc e @ [c]) e)\<lparr>le_esc := []\<rparr>) h))"

fun le_keys :: "byte list \<Rightarrow> line_ed \<Rightarrow> line_hist \<Rightarrow> line_result \<times> byte list" where
  "le_keys [] e h = (Edit e h, [])"
| "le_keys (c # cs) e h =
     (case le_key c e h of Edit e h \<Rightarrow> le_keys cs e h | r \<Rightarrow> (r, cs))"

text \<open>Entering a line: what comes before its first zero is remembered, unless it is empty or begins
  with an exclamation mark.\<close>

definition lh_enter :: "byte list \<Rightarrow> line_hist \<Rightarrow> line_hist" where
  "lh_enter s h =
     \<lparr>lh_lines = (if s = [] \<or> hd s = 0 \<or> hd s = 33 then lh_lines h
        else take (HIST_MAX - 1) (takeWhile (\<lambda>c. c \<noteq> 0) s # lh_lines h)),
      lh_pos = Some 0\<rparr>"

section \<open>The line\<close>

definition ed_rel :: "cread \<Rightarrow> line_ed \<Rightarrow> bool" where
  "ed_rel st e \<longleftrightarrow>
     (\<exists>rest. ed_buf st = le_before e @ le_after e @ rest) \<and> length (ed_buf st) = HIST_SIZE \<and>
     ed_num st = length (le_before e) \<and> ed_eol st = length (le_before e) + length (le_after e) \<and>
     ed_insert st = le_insert e \<and>
     ed_esc_len st = length (le_esc e) \<and> length (le_esc e) \<le> 2 \<and> length (ed_esc_save st) = 8 \<and>
     take (length (le_esc e)) (ed_esc_save st) = le_esc e"

lemma ed_relI:
  assumes "ed_buf st = le_before e @ le_after e @ rest" "length (ed_buf st) = HIST_SIZE"
    "ed_num st = length (le_before e)" "ed_eol st = length (le_before e) + length (le_after e)"
    "ed_insert st = le_insert e"
    "ed_esc_len st = length (le_esc e)" "length (le_esc e) \<le> 2" "length (ed_esc_save st) = 8"
    "take (length (le_esc e)) (ed_esc_save st) = le_esc e"
  shows "ed_rel st e"
  using assms by (auto simp: ed_rel_def)

lemma mem_move_moved:
  "dest + n \<le> length m \<Longrightarrow> src + n \<le> length m \<Longrightarrow> mem_move m dest src n = Some (moved m dest src n)"
  using copy_bytes_moved [of dest n m src] copy_back_moved [of dest n m src]
  by (auto simp: mem_move_def c_memmove_def)

text \<open>Opening and closing a gap of one byte.\<close>

lemma mem_move_open:
  "length as = n \<Longrightarrow>
   mem_move (bs @ as @ x # rest) (length bs + 1) (length bs) n =
     Some (bs @ hd (as @ [x]) # as @ rest)"
  by (subst mem_move_moved) (auto simp: moved_def neq_Nil_conv, cases "as", auto)

lemma drop_but_last: "length as = n \<Longrightarrow> drop n (x # as) = [last (x # as)]"
  by (induction "as" arbitrary: x n) auto

lemma mem_move_close:
  assumes "length as = n"
  shows "mem_move (bs @ x # as @ rest) (length bs) (length bs + 1) n =
     Some (bs @ as @ last (x # as) # rest)"
proof -
  have "drop n (x # as @ rest) = drop n (x # as) @ rest"
    using assms by (metis append_Cons diff_is_0_eq' drop_0 drop_append le_SucI le_refl length_Cons)
  then show ?thesis using assms
    by (subst mem_move_moved) (simp_all add: moved_def drop_but_last [OF assms])
qed

lemma cread_add_char_rel:
  assumes "ed_rel st e"
  shows "\<exists>st'. cread_add_char c (ed_insert st) HIST_SIZE st = Some st' \<and> ed_rel st' (le_add c e)"
proof -
  obtain rest where b: "ed_buf st = le_before e @ le_after e @ rest" using assms by (auto simp: ed_rel_def)
  have l: "length (ed_buf st) = HIST_SIZE" "ed_num st = length (le_before e)"
    "ed_eol st = length (le_before e) + length (le_after e)" "ed_insert st = le_insert e"
    using assms by (simp_all add: ed_rel_def)
  have sz: "HIST_SIZE = 256" by (simp add: HIST_SIZE_def)
  show ?thesis
  proof (cases "le_insert e \<or> le_after e = []")
    case True
    show ?thesis
    proof (cases "length (le_before e) + length (le_after e) < HIST_SIZE")
      case False
      then have "cread_add_char c (ed_insert st) HIST_SIZE st = Some st" "le_add c e = e"
        using True l sz by (auto simp: cread_add_char_def le_add_def)
      then show ?thesis using assms by simp
    next
      case room: True
      then obtain x rest' where r: "rest = x # rest'" using b l(1) by (cases rest) auto
      let ?st = "st\<lparr>ed_eol := ed_eol st + 1,
        ed_buf := le_before e @ c # le_after e @ rest', ed_num := ed_num st + 1\<rparr>"
      have "cread_add_char c (ed_insert st) HIST_SIZE st = Some ?st"
        using True room l(2,3,4) sz b r mem_move_open [of "le_after e" "length (le_after e)" "le_before e" x rest']
        by (cases "le_after e") (auto simp: cread_add_char_def Let_def)
      moreover have "ed_rel ?st (le_add c e)"
        using assms True room b r l
        by (intro ed_relI [where rest = rest']) (auto simp: le_add_def ed_rel_def)
      ultimately show ?thesis by blast
    qed
  next
    case False
    then obtain y a where a: "le_after e = y # a" by (cases "le_after e") auto
    let ?st = "st\<lparr>ed_buf := le_before e @ c # a @ rest, ed_num := ed_num st + 1\<rparr>"
    have "cread_add_char c (ed_insert st) HIST_SIZE st = Some ?st"
      using False l b a by (auto simp: cread_add_char_def Let_def)
    moreover have "ed_rel ?st (le_add c e)"
      using assms False b a l
      by (intro ed_relI [where rest = rest]) (auto simp: le_add_def ed_rel_def)
    ultimately show ?thesis by blast
  qed
qed

lemma cread_add_str_rel:
  assumes "ed_rel st e" and "p + length s \<le> length m" and "take (length s) (drop p m) = s"
  shows "\<exists>st'. cread_add_str (length s) m p (ed_insert st) HIST_SIZE st = Some st' \<and> ed_rel st' (fold le_add s e)"
  using assms
proof (induction s arbitrary: st e p)
  case (Cons c s)
  have c: "p < length m" "m ! p = c" "take (length s) (drop (p + 1) m) = s"
    using Cons.prems(2,3) by (simp_all add: take_Suc_conv_app_nth Cons_nth_drop_Suc [symmetric])
  obtain st1 where st1: "cread_add_char c (ed_insert st) HIST_SIZE st = Some st1" "ed_rel st1 (le_add c e)"
    using cread_add_char_rel [OF Cons.prems(1)] by blast
  have i: "ed_insert st1 = ed_insert st"
    using st1(2) Cons.prems(1) by (simp add: ed_rel_def le_add_def split: if_split_asm)
  show ?case
    using Cons.IH [OF st1(2) _ c(3)] Cons.prems(2) c st1(1) i by simp
qed simp

lemma delete_here_rel:
  assumes "ed_rel st e"
  shows "\<exists>st'. delete_here st = Some st' \<and> ed_rel st' (e\<lparr>le_after := tl (le_after e)\<rparr>)"
proof -
  obtain rest where b: "ed_buf st = le_before e @ le_after e @ rest" using assms by (auto simp: ed_rel_def)
  have l: "length (ed_buf st) = HIST_SIZE" "ed_num st = length (le_before e)"
    "ed_eol st = length (le_before e) + length (le_after e)"
    using assms by (simp_all add: ed_rel_def)
  show ?thesis
  proof (cases "le_after e")
    case Nil
    then show ?thesis using assms l by (simp add: delete_here_def ed_rel_def)
  next
    case (Cons x a)
    let ?buf = "le_before e @ a @ last (x # a) # rest"
    let ?st = "st\<lparr>ed_buf := ?buf, ed_eol := ed_eol st - 1\<rparr>"
    have "delete_here st = Some ?st"
      using mem_move_close [OF refl, of "le_before e" x a rest] l b Cons
      by (cases a) (auto simp: delete_here_def Let_def)
    moreover have "ed_rel ?st (e\<lparr>le_after := tl (le_after e)\<rparr>)"
      using assms l b Cons
      by (intro ed_relI [where rest = "last (x # a) # rest"]) (auto simp: ed_rel_def)
    ultimately show ?thesis by blast
  qed
qed

lemma delete_back_rel:
  assumes "ed_rel st e"
  shows "\<exists>st'. delete_back st = Some st' \<and> ed_rel st' (e\<lparr>le_before := butlast (le_before e)\<rparr>)"
proof -
  obtain rest where b: "ed_buf st = le_before e @ le_after e @ rest" using assms by (auto simp: ed_rel_def)
  have l: "length (ed_buf st) = HIST_SIZE" "ed_num st = length (le_before e)"
    "ed_eol st = length (le_before e) + length (le_after e)"
    using assms by (simp_all add: ed_rel_def)
  show ?thesis
  proof (cases "le_before e" rule: rev_cases)
    case Nil
    then show ?thesis using assms l by (simp add: delete_back_def ed_rel_def)
  next
    case (snoc bs x)
    let ?a = "le_after e"
    let ?buf = "bs @ ?a @ last (x # ?a) # rest"
    let ?st = "st\<lparr>ed_buf := ?buf, ed_num := ed_num st - 1, ed_eol := ed_eol st - 1\<rparr>"
    have "delete_back st = Some ?st"
      using mem_move_close [OF refl, of bs x ?a rest] l b snoc
      by (simp add: delete_back_def Let_def)
    moreover have "ed_rel ?st (e\<lparr>le_before := butlast (le_before e)\<rparr>)"
      using assms l b snoc
      by (intro ed_relI [where rest = "last (x # ?a) # rest"]) (auto simp: ed_rel_def)
    ultimately show ?thesis by blast
  qed
qed

text \<open>The keys that move the cursor or cut the line.\<close>

lemma home_rel: "ed_rel st e \<Longrightarrow> ed_rel (BEGINNING_OF_LINE st) (le_home e)"
  by (auto simp: ed_rel_def BEGINNING_OF_LINE_def le_home_def)

lemma end_rel: "ed_rel st e \<Longrightarrow> ed_rel (REFRESH_TO_EOL st) (le_end e)"
  by (auto simp: ed_rel_def REFRESH_TO_EOL_def le_end_def)

lemma cut_rel: "ed_rel st e \<Longrightarrow> ed_rel (ERASE_TO_EOL st) (e\<lparr>le_after := []\<rparr>)"
  by (auto simp: ed_rel_def ERASE_TO_EOL_def)

lemma right_rel:
  "ed_rel st e \<Longrightarrow> ed_rel (if ed_num st < ed_eol st then st\<lparr>ed_num := ed_num st + 1\<rparr> else st) (le_right e)"
  by (cases "le_after e") (auto simp: ed_rel_def le_right_def)

lemma left_rel:
  "ed_rel st e \<Longrightarrow> ed_rel (if ed_num st \<noteq> 0 then st\<lparr>ed_num := ed_num st - 1\<rparr> else st) (le_left e)"
  by (cases "le_before e" rule: rev_cases) (auto simp: ed_rel_def le_left_def)

lemma esc_rel:
  "ed_rel st e \<Longrightarrow> ed_rel (st\<lparr>ed_esc_len := 0\<rparr>) (e\<lparr>le_esc := []\<rparr>)"
  by (simp add: ed_rel_def)

section \<open>The history\<close>

definition row_text :: "mem \<Rightarrow> byte list" where
  "row_text r = takeWhile (\<lambda>c. c \<noteq> 0) r"

lemma row_text_has: "0 \<in> set r \<Longrightarrow> has_str r 0 (row_text r)"
proof -
  assume z: "0 \<in> set r"
  obtain a b where "r = a @ 0 # b" "0 \<notin> set a" using split_list_first [OF z] by blast
  then show ?thesis by (auto simp: row_text_def has_str_def takeWhile_append)
qed

text \<open>The entry \<open>k\<close> steps behind \<open>add\<close> on a ring of \<open>m + 1\<close> rows.\<close>

definition behind :: "nat \<Rightarrow> nat \<Rightarrow> nat \<Rightarrow> nat" where
  "behind add m k = (if k \<le> add then add - k else add + (m + 1) - k)"

definition hist_line :: "hist \<Rightarrow> nat \<Rightarrow> byte list" where
  "hist_line h k = row_text (hist_lines h ! behind (hist_add_idx h) (hist_max h) (k + 1))"

definition hist_ok :: "hist \<Rightarrow> bool" where
  "hist_ok h \<longleftrightarrow> length (hist_lines h) = HIST_MAX \<and>
     (\<forall>r \<in> set (hist_lines h). length r = HIST_SIZE \<and> 0 \<in> set r) \<and>
     hist_max h < HIST_MAX \<and> hist_add_idx h \<le> hist_max h \<and>
     (hist_add_idx h = hist_max h \<or> hist_max h = HIST_MAX - 1) \<and>
     - 1 \<le> hist_cur h \<and> hist_cur h \<le> int (hist_max h)"

definition hist_view :: "hist \<Rightarrow> line_hist" where
  "hist_view h = \<lparr>lh_lines = map (hist_line h) [0..<hist_max h],
     lh_pos = (if hist_cur h < 0 then None else Some (behind (hist_add_idx h) (hist_max h) (nat (hist_cur h))))\<rparr>"

lemma hist_line_cur [simp]: "hist_line (h\<lparr>hist_cur := c\<rparr>) = hist_line h"
  by (simp add: hist_line_def fun_eq_iff)

lemma hist_prev_view:
  assumes "hist_ok h"
  shows "case lh_prev (hist_view h) of
      None \<Rightarrow> hist_prev h = (h, None)
    | Some (v, s) \<Rightarrow> \<exists>h' k. hist_prev h = (h', Some k) \<and> hist_ok h' \<and> hist_view h' = v \<and>
        k < HIST_MAX \<and> hist_lines h' = hist_lines h \<and> row_text (hist_lines h ! k) = s"
proof (cases "hist_cur h < 0")
  case True
  then show ?thesis by (simp add: lh_prev_def hist_view_def hist_prev_def)
next
  case False
  let ?a = "hist_add_idx h" and ?m = "hist_max h"
  obtain c where c: "hist_cur h = int c" using False nonneg_int_cases [of "hist_cur h"] by auto
  have ok: "c \<le> ?m" "?a \<le> ?m" "?m < HIST_MAX" using assms c by (simp_all add: hist_ok_def)
  let ?c = "if c = 0 then ?m else c - 1"
  let ?k = "behind ?a ?m c"
  have p: "hist_prev h = (if ?c = ?a then (h, None) else (h\<lparr>hist_cur := int ?c\<rparr>, Some ?c))"
    by (auto simp: hist_prev_def c Let_def)
  have lt: "?c = ?a \<longleftrightarrow> \<not> ?k < ?m" "?k < ?m \<Longrightarrow> behind ?a ?m ?c = ?k + 1" "?k < ?m \<Longrightarrow> behind ?a ?m (?k + 1) = ?c"
    using ok by (auto simp: behind_def split: if_splits)
  have l: "lh_prev (hist_view h) = (if ?k < ?m
      then Some ((hist_view h)\<lparr>lh_pos := Some (?k + 1)\<rparr>, hist_line h ?k) else None)"
    by (simp add: lh_prev_def hist_view_def c)
  show ?thesis
  proof (cases "?k < ?m")
    case True
    have "hist_view (h\<lparr>hist_cur := int ?c\<rparr>) = (hist_view h)\<lparr>lh_pos := Some (?k + 1)\<rparr>"
      using lt(2) [OF True] by (simp add: hist_view_def)
    moreover have "hist_ok (h\<lparr>hist_cur := int ?c\<rparr>)" using assms ok by (auto simp: hist_ok_def)
    moreover have "row_text (hist_lines h ! ?c) = hist_line h ?k" using lt(3) [OF True] by (simp add: hist_line_def)
    ultimately show ?thesis using True lt(1) ok by (simp add: p l split del: if_split) auto
  next
    case False
    then show ?thesis using lt(1) by (simp add: p l)
  qed
qed

lemma hist_next_view:
  assumes "hist_ok h"
  shows "case lh_next (hist_view h) of
      None \<Rightarrow> hist_next h = (h, None)
    | Some (v, s) \<Rightarrow> \<exists>h' k. hist_next h = (h', Some k) \<and> hist_ok h' \<and> hist_view h' = v \<and>
        hist_lines h' = hist_lines h \<and>
        (case k of None \<Rightarrow> s = [] | Some k \<Rightarrow> k < HIST_MAX \<and> row_text (hist_lines h ! k) = s)"
proof (cases "hist_cur h < 0")
  case True
  then show ?thesis by (simp add: lh_next_def hist_view_def hist_next_def)
next
  case False
  let ?a = "hist_add_idx h" and ?m = "hist_max h"
  obtain c where c: "hist_cur h = int c" using False nonneg_int_cases [of "hist_cur h"] by auto
  have ok: "c \<le> ?m" "?a \<le> ?m" "?m < HIST_MAX" using assms c by (simp_all add: hist_ok_def)
  let ?c = "if ?m < c + 1 then 0 else c + 1"
  let ?k = "behind ?a ?m c"
  have p: "hist_next h = (if c = ?a then (h, None)
      else (h\<lparr>hist_cur := int ?c\<rparr>, Some (if ?c = ?a then None else Some ?c)))"
    by (auto simp: hist_next_def c Let_def)
  have lt: "c = ?a \<longleftrightarrow> ?k = 0" "?k \<noteq> 0 \<Longrightarrow> behind ?a ?m ?c = ?k - 1" "?k \<noteq> 0 \<Longrightarrow> ?c = ?a \<longleftrightarrow> ?k = 1"
    "?k \<noteq> 0 \<Longrightarrow> ?k \<noteq> 1 \<Longrightarrow> behind ?a ?m (?k - 1) = ?c" "?k \<le> ?m"
    using ok by (auto simp: behind_def split: if_splits)
  have l: "lh_next (hist_view h) = (if ?k = 0 then None
      else Some ((hist_view h)\<lparr>lh_pos := Some (?k - 1)\<rparr>, if ?k = 1 then [] else hist_line h (?k - 2)))"
    using lt(5) by (simp add: lh_next_def hist_view_def c)
  show ?thesis
  proof (cases "?k = 0")
    case True
    then show ?thesis using lt(1) by (simp add: p l)
  next
    case False
    have v: "hist_view (h\<lparr>hist_cur := int ?c\<rparr>) = (hist_view h)\<lparr>lh_pos := Some (?k - 1)\<rparr>"
      using lt(2) [OF False] by (simp add: hist_view_def)
    have o: "hist_ok (h\<lparr>hist_cur := int ?c\<rparr>)" using assms ok by (auto simp: hist_ok_def)
    have r: "row_text (hist_lines h ! ?c) = hist_line h (?k - 2)" if "?k \<noteq> 1"
    proof -
      have "?k - 2 + 1 = ?k - 1" using False that by simp
      then show ?thesis using lt(4) [OF False that] by (simp only: hist_line_def)
    qed
    have n: "hist_next h = (h\<lparr>hist_cur := int ?c\<rparr>, Some (if ?k = 1 then None else Some ?c))"
      unfolding p using False lt(1) lt(3) [OF False] by (simp split del: if_split)
    have "?c < HIST_MAX" using ok by auto
    then show ?thesis using False v o r n by (cases "?k = 1") (simp_all add: l split del: if_split)
  qed
qed

lemma copy_line_has:
  assumes "has_str line 0 s" and "length s < length dst"
  shows "copy_line dst line = Some (s @ 0 # drop (length s + 1) dst)"
proof -
  have "take (length s + 1) line = s @ [0]"
    using assms(1) by (simp add: has_str_def take_Suc_conv_app_nth)
  then show ?thesis using assms str_end_has [OF assms(1)] by (simp add: copy_line_def)
qed

lemma take_line_rel:
  assumes "ed_rel st e" and "has_str line 0 s" and "length s < HIST_SIZE"
  shows "\<exists>st'. take_line line st = Some st' \<and> ed_rel st' (e\<lparr>le_before := s, le_after := []\<rparr>)"
proof -
  have l: "length (ed_buf st) = HIST_SIZE" using assms(1) by (simp add: ed_rel_def)
  have h: "has_str (s @ 0 # drop (length s + 1) (ed_buf st)) 0 s"
    using assms(2) by (simp add: has_str_def)
  have b: "ed_buf (ERASE_TO_EOL (BEGINNING_OF_LINE st)) = ed_buf st" "ed_num (ERASE_TO_EOL (BEGINNING_OF_LINE st)) = 0"
    by (simp_all add: ERASE_TO_EOL_def BEGINNING_OF_LINE_def)
  show ?thesis
    using assms l strlen_has [OF h] copy_line_has [OF assms(2), of "ed_buf st"]
    by (auto simp: take_line_def Let_def b ed_rel_def REFRESH_TO_EOL_def ERASE_TO_EOL_def BEGINNING_OF_LINE_def)
qed

text \<open>How a result of the code stands for a result of the meaning.\<close>

fun key_rel :: "mem list \<Rightarrow> key_result \<Rightarrow> line_result \<Rightarrow> bool" where
  "key_rel rows (Editing st h) (Edit e v) \<longleftrightarrow> ed_rel st e \<and> hist_ok h \<and> hist_view h = v \<and> hist_lines h = rows"
| "key_rel rows (Entered st h) (Line s v) \<longleftrightarrow>
     hist_ok h \<and> hist_view h = v \<and> hist_lines h = rows \<and>
     (\<exists>rest. ed_buf st = s @ rest) \<and> length (ed_buf st) = HIST_SIZE \<and> ed_eol st = length s"
| "key_rel rows (Broken st h) (Cancel v) \<longleftrightarrow>
     length (ed_buf st) = HIST_SIZE \<and> ed_buf st ! 0 = 0 \<and> hist_ok h \<and> hist_view h = v \<and> hist_lines h = rows"
| "key_rel rows _ _ \<longleftrightarrow> False"

lemma row_has:
  assumes "hist_ok h" and "k < HIST_MAX"
  shows "k < length (hist_lines h)" and "has_str (hist_lines h ! k) 0 (row_text (hist_lines h ! k))"
    and "length (row_text (hist_lines h ! k)) < HIST_SIZE"
proof -
  show k: "k < length (hist_lines h)" using assms by (simp add: hist_ok_def)
  have "hist_lines h ! k \<in> set (hist_lines h)" using k by simp
  then have r: "length (hist_lines h ! k) = HIST_SIZE" "0 \<in> set (hist_lines h ! k)"
    using assms(1) unfolding hist_ok_def by blast+
  show h: "has_str (hist_lines h ! k) 0 (row_text (hist_lines h ! k))" by (rule row_text_has [OF r(2)])
  then show "length (row_text (hist_lines h ! k)) < HIST_SIZE" using r(1) by (simp add: has_str_def)
qed

lemma history_key_rel:
  assumes "ed_rel st e" and "hist_ok h"
  shows "\<exists>st' h'. history_key prev st h = Some (st', h') \<and>
    key_rel (hist_lines h) (Editing st' h')
      (le_history (if prev then lh_prev (hist_view h) else lh_next (hist_view h)) e (hist_view h))"
proof (cases prev)
  case True
  show ?thesis
  proof (cases "lh_prev (hist_view h)")
    case None
    then show ?thesis using hist_prev_view [OF assms(2)] assms True
      by (simp add: history_key_def le_history_def ed_rel_def)
  next
    case (Some x)
    then obtain v s where x: "lh_prev (hist_view h) = Some (v, s)" by (cases x) auto
    then obtain h' k where p: "hist_prev h = (h', Some k)" "hist_ok h'" "hist_view h' = v" "k < HIST_MAX"
      "hist_lines h' = hist_lines h" "row_text (hist_lines h ! k) = s"
      using hist_prev_view [OF assms(2)] by auto
    note t = take_line_rel [OF esc_rel [OF assms(1)] row_has(2,3) [OF assms(2) p(4)]]
    then show ?thesis using True x p row_has(1) [OF assms(2) p(4)]
      by (auto simp: history_key_def le_history_def Let_def)
  qed
next
  case False
  show ?thesis
  proof (cases "lh_next (hist_view h)")
    case None
    then show ?thesis using hist_next_view [OF assms(2)] assms False
      by (simp add: history_key_def le_history_def ed_rel_def)
  next
    case (Some x)
    then obtain v s where x: "lh_next (hist_view h) = Some (v, s)" by (cases x) auto
    then obtain h' k where p: "hist_next h = (h', Some k)" "hist_ok h'" "hist_view h' = v"
      "hist_lines h' = hist_lines h"
      "case k of None \<Rightarrow> s = [] | Some k \<Rightarrow> k < HIST_MAX \<and> row_text (hist_lines h ! k) = s"
      using hist_next_view [OF assms(2)] by auto
    show ?thesis
    proof (cases k)
      case None
      have "has_str [0] 0 []" "length ([] :: byte list) < HIST_SIZE" by (simp_all add: has_str_def HIST_SIZE_def)
      from take_line_rel [OF esc_rel [OF assms(1)] this] show ?thesis using False x p None
        by (auto simp: history_key_def le_history_def Let_def)
    next
      case (Some k)
      then have k: "k < HIST_MAX" using p(5) by simp
      note t = take_line_rel [OF esc_rel [OF assms(1)] row_has(2,3) [OF assms(2) k]]
      then show ?thesis using False x p Some row_has(1) [OF assms(2) k]
        by (auto simp: history_key_def le_history_def Let_def)
    qed
  qed
qed

text \<open>A new line comes first; the ring holds the last \<open>HIST_MAX - 1\<close> lines.\<close>

lemma cread_add_to_hist_view:
  assumes "hist_ok h" and "has_str line 0 s" and "length s < HIST_SIZE"
  shows "\<exists>h'. cread_add_to_hist h line = Some h' \<and> hist_ok h' \<and>
    lh_lines (hist_view h') = take (HIST_MAX - 1) (s # lh_lines (hist_view h))"
proof -
  let ?a = "hist_add_idx h" and ?m = "hist_max h"
  have ok: "length (hist_lines h) = HIST_MAX" "?a \<le> ?m" "?m < HIST_MAX" "?a = ?m \<or> ?m = HIST_MAX - 1"
    "\<forall>r \<in> set (hist_lines h). length r = HIST_SIZE \<and> 0 \<in> set r"
    using assms(1) by (simp_all add: hist_ok_def)
  have row: "?a < length (hist_lines h)" "length (hist_lines h ! ?a) = HIST_SIZE" using ok by auto
  define r where "r = s @ 0 # drop (length s + 1) (hist_lines h ! ?a)"
  have r: "copy_line (hist_lines h ! ?a) line = Some r" "row_text r = s" "length r = HIST_SIZE" "0 \<in> set r"
    using copy_line_has [OF assms(2)] row assms(2,3)
    by (auto simp: r_def row_text_def has_str_def takeWhile_append takeWhile_tail)
  define a' where "a' = (if HIST_MAX \<le> ?a + 1 then 0 else ?a + 1)"
  define m' where "m' = (if ?m < a' then a' else ?m)"
  let ?h = "h\<lparr>hist_lines := (hist_lines h)[?a := r], hist_add_idx := a', hist_max := m', hist_num := hist_num h + 1\<rparr>"
  have c: "cread_add_to_hist h line = Some ?h" using row r by (simp add: cread_add_to_hist_def a'_def m'_def Let_def)
  have ring: "a' \<le> m'" "m' < HIST_MAX" "a' = m' \<or> m' = HIST_MAX - 1" "m' = min (HIST_MAX - 1) (?m + 1)"
    "behind a' m' 1 = ?a"
    "\<And>i. 0 < i \<Longrightarrow> i < m' \<Longrightarrow> behind a' m' (i + 1) = behind ?a ?m i \<and> behind ?a ?m i \<noteq> ?a"
    using ok by (auto simp: a'_def m'_def behind_def HIST_MAX_def split: if_splits)
  have "\<forall>r \<in> set (hist_lines ?h). length r = HIST_SIZE \<and> 0 \<in> set r"
    using ok(5) r(3,4) by (auto dest: set_update_subset_insert [THEN subsetD])
  then have "hist_ok ?h"
    using ok(1) ring(1,2,3) assms(1) by (auto simp: hist_ok_def m'_def)
  moreover have "lh_lines (hist_view ?h) = take (HIST_MAX - 1) (s # lh_lines (hist_view h))"
  proof (rule nth_equalityI)
    show "length (lh_lines (hist_view ?h)) = length (take (HIST_MAX - 1) (s # lh_lines (hist_view h)))"
      using ring(4) by (simp add: hist_view_def)
  next
    fix i
    assume "i < length (lh_lines (hist_view ?h))"
    then have i: "i < m'" "i < HIST_MAX - 1" "i \<le> ?m" using ring(4) by (simp_all add: hist_view_def)
    have "hist_line ?h i = (s # map (hist_line h) [0..<?m]) ! i"
    proof (cases i)
      case 0
      then show ?thesis using ring(5) r(2) row(1) by (simp add: hist_line_def)
    next
      case (Suc j)
      then show ?thesis using ring(6) [of i] i by (simp add: hist_line_def)
    qed
    then show "lh_lines (hist_view ?h) ! i = take (HIST_MAX - 1) (s # lh_lines (hist_view h)) ! i"
      using i by (simp add: hist_view_def)
  qed
  ultimately show ?thesis using c by blast
qed

section \<open>Keys and lines\<close>

definition step_ok :: "hist \<Rightarrow> key_result option \<Rightarrow> line_result \<Rightarrow> bool" where
  "step_ok h r v \<longleftrightarrow> (\<exists>q. r = Some q \<and> key_rel (hist_lines h) q v)"

lemma step_ok_if:
  "(b \<Longrightarrow> step_ok h x v) \<Longrightarrow> (\<not> b \<Longrightarrow> step_ok h y w) \<Longrightarrow>
   step_ok h (if b then x else y) (if b then v else w)"
  by simp

lemma edit_rel: "\<exists>st'. s = Some st' \<and> ed_rel st' e \<Longrightarrow> hist_ok h \<Longrightarrow> step_ok h (edit h s) (Edit e (hist_view h))"
  by (auto simp: edit_def step_ok_def)

lemma cread_switch_rel:
  assumes "ed_rel st e" and "hist_ok h"
  shows "step_ok h (cread_switch HIST_SIZE c st h) (le_switch c e (hist_view h))"
proof -
  have esc: "step_ok h (if ed_esc_len st = 0
         then do {
           s \<leftarrow> wr (ed_esc_save st) 0 c;
           Some (Editing (st\<lparr>ed_esc_save := s, ed_esc_len := 1\<rparr>) h)
         }
         else Some (Editing (st\<lparr>ed_esc_len := 0\<rparr>) h))
      (Edit (e\<lparr>le_esc := (if le_esc e = [] then [27] else [])\<rparr>) (hist_view h))" if "c = 27"
    using assms that by (cases "ed_esc_save st") (auto simp: ed_rel_def step_ok_def)
  have brk: "step_ok h (map_option (\<lambda>buf. Broken (st\<lparr>ed_buf := buf\<rparr>) h) (wr (ed_buf st) 0 0)) (Cancel (hist_view h))"
    using assms by (auto simp: ed_rel_def HIST_SIZE_def step_ok_def)
  have ins: "ed_rel (st\<lparr>ed_insert := \<not> ed_insert st\<rparr>) (e\<lparr>le_insert := \<not> le_insert e\<rparr>)"
    using assms(1) by (auto simp: ed_rel_def)
  have nuke: "ed_rel (ERASE_TO_EOL (BEGINNING_OF_LINE st)) (e\<lparr>le_before := [], le_after := []\<rparr>)"
    using cut_rel [OF home_rel [OF assms(1)]] by (simp add: le_home_def)
  note moves = home_rel [OF assms(1)] right_rel [OF assms(1)] left_rel [OF assms(1)]
    cut_rel [OF assms(1)] end_rel [OF assms(1)] ins nuke
  note edits = moves [THEN exI [where P = "\<lambda>st'. Some x = Some st' \<and> ed_rel st' e'" for x e', OF conjI [OF refl]]]
    delete_here_rel [OF assms(1)] delete_back_rel [OF assms(1)] cread_add_char_rel [OF assms(1)]
  have hist: "step_ok h (map_option (\<lambda>(st, h). Editing st h) (history_key prev st h))
      (le_history (if prev then lh_prev (hist_view h) else lh_next (hist_view h)) e (hist_view h))" for prev
    using history_key_rel [OF assms, of prev] by (auto simp: step_ok_def)
  have keys: "step_ok h (map_option (\<lambda>(st, h). Editing st h) (history_key (c = CTL_CH 112) st h))
      (if c = CTL_CH 112 then le_history (lh_prev (hist_view h)) e (hist_view h)
       else le_history (lh_next (hist_view h)) e (hist_view h))"
    using hist [of "c = CTL_CH 112"] by (cases "c = CTL_CH 112") simp_all
  have two: "(if b then v else if d then w else y) = (if b \<or> d then (if b then v else w) else y)"
    for b d v w and y :: line_result by simp
  show ?thesis
    unfolding cread_switch_def le_switch_def two [of "c = CTL_CH 112"]
    by (intro step_ok_if esc brk keys; (rule edit_rel [OF _ assms(2)], rule edits)?)
qed

lemma cread_add_char_esc:
  "cread_add_char c i len (st\<lparr>ed_esc_len := k\<rparr>) = map_option (\<lambda>st. st\<lparr>ed_esc_len := k\<rparr>) (cread_add_char c i len st)"
  by (cases "i \<and> 1 < ed_eol st + 1 - ed_num st")
    (auto simp: cread_add_char_def Let_def map_option_bind wr_def
      intro!: Option.bind_cong split: if_splits)

lemma cread_add_str_esc:
  "cread_add_str n m p i len (st\<lparr>ed_esc_len := k\<rparr>) = map_option (\<lambda>st. st\<lparr>ed_esc_len := k\<rparr>) (cread_add_str n m p i len st)"
proof (induction n arbitrary: p st)
  case (Suc n)
  show ?case
    by (cases "cread_add_char (m ! p) i len st") (simp_all add: cread_add_char_esc Suc rd_def)
qed simp

lemma fold_le_add_esc [simp]: "fold le_add s (e\<lparr>le_esc := x\<rparr>) = (fold le_add s e)\<lparr>le_esc := x\<rparr>"
proof (induction s arbitrary: e)
  case (Cons c s)
  have "le_add c (e\<lparr>le_esc := x\<rparr>) = (le_add c e)\<lparr>le_esc := x\<rparr>" by (simp add: le_add_def)
  then show ?case using Cons by simp
qed simp

lemma esc_flush_rel:
  assumes "ed_rel st e" and "hist_ok h" and "length s \<le> length m" and "take (length s) m = s"
  shows "step_ok h
     (do { st \<leftarrow> cread_add_str (length s) m 0 (ed_insert st) HIST_SIZE (st\<lparr>ed_esc_len := k\<rparr>);
           Some (Editing (st\<lparr>ed_esc_len := 0\<rparr>) h) })
     (Edit ((fold le_add s e)\<lparr>le_esc := []\<rparr>) (hist_view h))"
proof -
  obtain st' where "cread_add_str (length s) m 0 (ed_insert st) HIST_SIZE st = Some st'"
    "ed_rel st' (fold le_add s e)"
    using cread_add_str_rel [OF assms(1), of 0 s m] assms(3,4) by auto
  then show ?thesis using esc_rel [of st' "fold le_add s e"] assms(2)
    by (simp add: cread_add_str_esc step_ok_def)
qed

lemma cread_key_rel:
  assumes "ed_rel st e" and "hist_ok h"
  shows "step_ok h (cread_key HIST_SIZE c st h) (le_key c e (hist_view h))"
proof -
  let ?k = "length (le_esc e)"
  have l: "ed_esc_len st = ?k" "?k \<le> 2" "length (ed_esc_save st) = 8" "take ?k (ed_esc_save st) = le_esc e"
    using assms(1) by (simp_all add: ed_rel_def)
  consider "c = 10 \<or> c = 13" | "c \<noteq> 10" "c \<noteq> 13" "?k = 0" | "c \<noteq> 10" "c \<noteq> 13" "?k = 1" "c = 91"
    | "c \<noteq> 10" "c \<noteq> 13" "?k = 1" "c \<noteq> 91" | "c \<noteq> 10" "c \<noteq> 13" "?k = 2"
    using l(2) by linarith
  then show ?thesis
  proof cases
    case 1
    then show ?thesis using assms by (auto simp: cread_key_def le_key_def step_ok_def ed_rel_def)
  next
    case 2
    then show ?thesis using cread_switch_rel [OF assms, of c] l(1) by (simp add: cread_key_def le_key_def)
  next
    case 3
    have "ed_rel (st\<lparr>ed_esc_save := (ed_esc_save st)[1 := c], ed_esc_len := 2\<rparr>) (e\<lparr>le_esc := le_esc e @ [c]\<rparr>)"
      using assms(1) 3 by (auto simp: ed_rel_def length_Suc_conv numeral_2_eq_2 take_Suc_conv_app_nth)
    then show ?thesis using 3 l assms(2) by (auto simp: cread_key_def le_key_def step_ok_def)
  next
    case 4
    have "le_esc e \<noteq> []" using 4 by auto
    moreover have s: "st\<lparr>ed_esc_len := 1\<rparr> = st" using 4 l(1) by simp
    ultimately show ?thesis using 4 l esc_flush_rel [OF assms, of "le_esc e" "ed_esc_save st" 1, unfolded s]
      by (simp add: cread_key_def le_key_def)
  next
    case 5
    then have ne: "le_esc e \<noteq> []" by auto
    show ?thesis
    proof (cases "esc_key c")
      case (Some d)
      then show ?thesis using 5 ne l(1) cread_switch_rel [OF esc_rel [OF assms(1)] assms(2), of d]
        by (simp add: cread_key_def le_key_def)
    next
      case None
      let ?s = "(ed_esc_save st)[2 := c]"
      have t: "take (length (le_esc e @ [c])) ?s = le_esc e @ [c]"
        using 5 l(3,4) take_Suc_conv_app_nth [of 2 ?s] by (simp del: take_Suc)
      have r: "ed_rel (st\<lparr>ed_esc_save := ?s\<rparr>) e" using assms(1) 5 by (simp add: ed_rel_def)
      have "st\<lparr>ed_esc_save := ?s, ed_esc_len := 3\<rparr> = (st\<lparr>ed_esc_save := ?s\<rparr>)\<lparr>ed_esc_len := 3\<rparr>" by simp
      then show ?thesis
        using 5 ne None l esc_flush_rel [OF r assms(2), of "le_esc e @ [c]" ?s 3] t
        by (simp add: cread_key_def le_key_def Let_def)
    qed
  qed
qed

lemma cread_keys_rel:
  assumes "ed_rel st e" and "hist_ok h"
  shows "\<exists>r. cread_keys HIST_SIZE keys st h = Some (r, snd (le_keys keys e (hist_view h))) \<and>
    key_rel (hist_lines h) r (fst (le_keys keys e (hist_view h)))"
  using assms
proof (induction keys arbitrary: st e h)
  case (Cons c cs)
  obtain q where q: "cread_key HIST_SIZE c st h = Some q" "key_rel (hist_lines h) q (le_key c e (hist_view h))"
    using cread_key_rel [OF Cons.prems] by (auto simp: step_ok_def)
  show ?case
  proof (cases "le_key c e (hist_view h)")
    case (Edit e' v)
    then obtain st' h' where s: "q = Editing st' h'" "ed_rel st' e'" "hist_ok h'" "hist_view h' = v"
      "hist_lines h' = hist_lines h" using q(2) by (cases q) auto
    then show ?thesis using Cons.IH [OF s(2,3)] q(1) Edit by auto
  next
    case (Line s v)
    then show ?thesis using q by (cases q) auto
  next
    case (Cancel v)
    then show ?thesis using q by (cases q) auto
  qed
qed simp

text \<open>The text the line starts with is added to itself.\<close>

lemma cread_add_own_id:
  assumes "k + n \<le> HIST_SIZE" and "length (ed_buf st) = HIST_SIZE" and "ed_num st = k" and "ed_eol st = k"
    and "ed_insert st"
  shows "cread_add_own n k HIST_SIZE st = Some (st\<lparr>ed_num := k + n, ed_eol := k + n\<rparr>)"
  using assms
proof (induction n arbitrary: k st)
  case 0
  then show ?case by simp
next
  case (Suc n)
  have "cread_add_char (ed_buf st ! k) True HIST_SIZE st = Some (st\<lparr>ed_num := k + 1, ed_eol := k + 1\<rparr>)"
    using Suc.prems by (auto simp: cread_add_char_def Let_def HIST_SIZE_def)
  then show ?case using Suc.IH [of "k + 1" "st\<lparr>ed_num := k + 1, ed_eol := k + 1\<rparr>"] Suc.prems by simp
qed

lemma hist_view_cur: "lh_lines (hist_view (h\<lparr>hist_cur := c\<rparr>)) = lh_lines (hist_view h)"
  by (simp add: hist_view_def)

lemma hist_view_at_add:
  "hist_view (h\<lparr>hist_cur := int (hist_add_idx h)\<rparr>) = \<lparr>lh_lines = lh_lines (hist_view h), lh_pos = Some 0\<rparr>"
  by (simp add: hist_view_def behind_def)

lemma hist_ok_cur: "hist_ok h \<Longrightarrow> hist_ok (h\<lparr>hist_cur := int (hist_add_idx h)\<rparr>)"
  by (auto simp: hist_ok_def)

text \<open>What happens when a line has been entered.\<close>

lemma enter_line:
  assumes "hist_ok h" and "b = s @ 0 # rest" and "length s < HIST_SIZE"
  shows "\<exists>h'. (if b ! 0 \<noteq> 0 \<and> b ! 0 \<noteq> 33 then cread_add_to_hist h b else Some h) = Some h' \<and>
    hist_ok (h'\<lparr>hist_cur := int (hist_add_idx h')\<rparr>) \<and>
    hist_view (h'\<lparr>hist_cur := int (hist_add_idx h')\<rparr>) = lh_enter s (hist_view h)"
proof (cases "s = [] \<or> hd s = 0 \<or> hd s = 33")
  case True
  then have n: "(b ! 0 \<noteq> 0 \<and> b ! 0 \<noteq> 33) = False" using assms(2) by (cases s) auto
  have "hist_ok (h\<lparr>hist_cur := int (hist_add_idx h)\<rparr>)" using assms(1) by (auto simp: hist_ok_def)
  then show ?thesis using True unfolding hist_view_at_add n by (simp add: lh_enter_def)
next
  case False
  then have b: "b ! 0 \<noteq> 0 \<and> b ! 0 \<noteq> 33" using assms(2) by (cases s) auto
  have z: "0 \<in> set b" using assms(2) by simp
  have t: "row_text b = takeWhile (\<lambda>c. c \<noteq> 0) s"
    using assms(2) by (induction s arbitrary: b) (auto simp: row_text_def)
  have l: "length (row_text b) < HIST_SIZE" unfolding t using assms(3) length_takeWhile_le [of "\<lambda>c. c \<noteq> 0" s] by simp
  from cread_add_to_hist_view [OF assms(1) row_text_has [OF z] l]
  show ?thesis using False b unfolding hist_view_at_add by (auto simp: lh_enter_def t intro: hist_ok_cur)
qed

section \<open>Properties\<close>

lemma cread_line_spec:
  assumes "hist_ok h" and "length buf = HIST_SIZE" and "has_str buf 0 s" and "length esc = 8"
  shows "case le_keys keys \<lparr>le_before = s, le_after = [], le_insert = True, le_esc = []\<rparr> (hist_view h) of
      (Edit e v, rest) \<Rightarrow> \<exists>buf' h'. cread_line esc buf HIST_SIZE h keys = Some (buf', HIST_SIZE, h', None, rest) \<and>
        hist_ok h' \<and> hist_view h' = v
    | (Cancel v, rest) \<Rightarrow> \<exists>buf' h'. cread_line esc buf HIST_SIZE h keys = Some (buf', HIST_SIZE, h', Some (- 1), rest) \<and>
        length buf' = HIST_SIZE \<and> buf' ! 0 = 0 \<and> hist_ok h' \<and> hist_view h' = v
    | (Line t v, rest) \<Rightarrow>
        if length t < HIST_SIZE
        then \<exists>buf' h'. cread_line esc buf HIST_SIZE h keys = Some (buf', length t, h', Some 0, rest) \<and>
          length buf' = HIST_SIZE \<and> take (length t + 1) buf' = t @ [0] \<and> hist_ok h' \<and> hist_view h' = lh_enter t v
        else cread_line esc buf HIST_SIZE h keys = None"
proof -
  let ?e = "\<lparr>le_before = s, le_after = [], le_insert = True, le_esc = []\<rparr>"
  let ?st = "\<lparr>ed_buf = buf, ed_num = 0, ed_eol = 0, ed_insert = True, ed_esc_len = 0, ed_esc_save = esc\<rparr>"
  let ?st' = "?st\<lparr>ed_num := length s, ed_eol := length s\<rparr>"
  have l: "length s < HIST_SIZE" using assms(2,3) by (simp add: has_str_def)
  have own: "cread_add_own (length s) 0 HIST_SIZE ?st = Some ?st'"
    using cread_add_own_id [of 0 "length s" ?st] l assms(2) by simp
  have "buf = s @ drop (length s) buf" using assms(3) by (metis append_take_drop_id drop0 has_str_def)
  then have "ed_rel ?st' ?e" using assms(2,4) by (intro ed_relI) auto
  from cread_keys_rel [OF this assms(1), of keys] obtain r where
    r: "cread_keys HIST_SIZE keys ?st' h = Some (r, snd (le_keys keys ?e (hist_view h)))"
    "key_rel (hist_lines h) r (fst (le_keys keys ?e (hist_view h)))" by blast
  obtain a rest where a: "le_keys keys ?e (hist_view h) = (a, rest)" by (cases "le_keys keys ?e (hist_view h)")
  have line: "cread_line esc buf HIST_SIZE h keys =
     (case r of
        Editing st h \<Rightarrow> Some (ed_buf st, HIST_SIZE, h, None, rest)
      | Broken st h \<Rightarrow> Some (ed_buf st, HIST_SIZE, h, Some (- 1), rest)
      | Entered st h \<Rightarrow> do {
          buf \<leftarrow> wr (ed_buf st) (ed_eol st) 0;
          h \<leftarrow> (if buf ! 0 \<noteq> 0 \<and> buf ! 0 \<noteq> 33 then cread_add_to_hist h buf else Some h);
          Some (buf, ed_eol st, h\<lparr>hist_cur := int (hist_add_idx h)\<rparr>, Some 0, rest)
        })"
    unfolding cread_line_def using strlen_has [OF assms(3)] own r(1) a by (simp del: cread.update_convs)
  show ?thesis
  proof (cases a)
    case (Edit e v)
    then show ?thesis using r(2) a by (cases r) (auto simp: line)
  next
    case (Cancel v)
    then show ?thesis using r(2) a by (cases r) (auto simp: line)
  next
    case (Line t v)
    then obtain st h1 more where e: "r = Entered st h1" "hist_ok h1" "hist_view h1 = v"
      "ed_buf st = t @ more" "length (ed_buf st) = HIST_SIZE" "ed_eol st = length t"
      using r(2) a by (cases r) auto
    show ?thesis
    proof (cases "length t < HIST_SIZE")
      case True
      then obtain x more' where m: "more = x # more'" using e(4,5) by (cases more) auto
      have "(ed_buf st)[length t := 0] = t @ 0 # more'" "length (t @ 0 # more') = HIST_SIZE" using e(4,5) m by simp_all
      then show ?thesis
        using enter_line [OF e(2) _ True, of "t @ 0 # more'" more'] True e a Line
        by (auto simp: line Let_def)
    next
      case False
      then show ?thesis using e a Line by (simp add: line wr_def)
    qed
  qed
qed

text \<open>C22. The line editor: for every sequence of keys, cursor keys and history keys included, the buffer, the
  cursor and the history are those of the meaning (text before and behind the cursor; a list of lines
  with a position). A line of fewer than \<open>HIST_SIZE\<close> characters is stored with its
  terminator and remembered; a line that fills the buffer makes the code store the terminator behind
  the buffer. Nothing else leaves the buffer, whatever keys come.\<close>

theorem cread_line_edits:
  assumes "hist_ok h" and "length buf = HIST_SIZE" and "has_str buf 0 s" and "length esc = 8"
  shows "case le_keys keys \<lparr>le_before = s, le_after = [], le_insert = True, le_esc = []\<rparr> (hist_view h) of
      (Edit e v, rest) \<Rightarrow> \<exists>buf' h'. cread_line esc buf HIST_SIZE h keys = Some (buf', HIST_SIZE, h', None, rest) \<and>
        hist_ok h' \<and> hist_view h' = v
    | (Cancel v, rest) \<Rightarrow> \<exists>buf' h'. cread_line esc buf HIST_SIZE h keys = Some (buf', HIST_SIZE, h', Some (- 1), rest) \<and>
        length buf' = HIST_SIZE \<and> buf' ! 0 = 0 \<and> hist_ok h' \<and> hist_view h' = v
    | (Line t v, rest) \<Rightarrow>
        if length t < HIST_SIZE
        then \<exists>buf' h'. cread_line esc buf HIST_SIZE h keys = Some (buf', length t, h', Some 0, rest) \<and>
          length buf' = HIST_SIZE \<and> take (length t + 1) buf' = t @ [0] \<and> hist_ok h' \<and> hist_view h' = lh_enter t v
        else cread_line esc buf HIST_SIZE h keys = None"
  by (rule cread_line_spec [OF assms])

lemma hist_init_ok:
  assumes "length (hist_lines h) = HIST_MAX" and "\<forall>r \<in> set (hist_lines h). length r = HIST_SIZE"
  shows "hist_ok (hist_init h)" and "hist_view (hist_init h) = \<lparr>lh_lines = [], lh_pos = None\<rparr>"
proof -
  have "0 \<in> set (r[0 := 0])" if "length r = HIST_SIZE" for r :: mem
    using that set_update_memI [of 0 r 0] by (simp add: HIST_SIZE_def)
  then show "hist_ok (hist_init h)" using assms by (auto simp: hist_ok_def hist_init_def HIST_MAX_def)
  show "hist_view (hist_init h) = \<lparr>lh_lines = [], lh_pos = None\<rparr>" by (simp add: hist_view_def hist_init_def)
qed

definition ex_hist :: hist where
  "ex_hist = \<lparr>hist_max = 3, hist_add_idx = 9, hist_cur = 0, hist_num = 1,
     hist_lines = replicate 20 (replicate 256 7)\<rparr>"

lemma ex_hist_ok: "hist_ok (hist_init ex_hist)" "hist_view (hist_init ex_hist) = \<lparr>lh_lines = [], lh_pos = None\<rparr>"
  by (rule hist_init_ok; simp add: ex_hist_def HIST_MAX_def HIST_SIZE_def)+

text \<open>The keys \<open>ab\<close>, cursor left, \<open>x\<close>, enter.\<close>

theorem cread_line_edits_witness:
  "\<exists>buf' h'. cread_line (replicate 8 0) (replicate 256 0) 256 (hist_init ex_hist)
       (txt_bytes ''ab'' @ [27, 91, 68] @ txt_bytes ''x'' @ [10, 99]) = Some (buf', length ''axb'', h', Some 0, [99]) \<and>
     take (length ''axb'' + 1) buf' = txt_bytes ''axb'' @ [0] \<and> hist_view h' = \<lparr>lh_lines = [txt_bytes ''axb''], lh_pos = Some 0\<rparr>"
proof -
  let ?keys = "txt_bytes ''ab'' @ [27, 91, 68] @ txt_bytes ''x'' @ [10, 99]"
  have k: "le_keys ?keys \<lparr>le_before = [], le_after = [], le_insert = True, le_esc = []\<rparr> \<lparr>lh_lines = [], lh_pos = None\<rparr> =
    (Line (txt_bytes ''axb'') \<lparr>lh_lines = [], lh_pos = None\<rparr>, [99])" by code_simp
  have e: "lh_enter (txt_bytes ''axb'') \<lparr>lh_lines = [], lh_pos = None\<rparr> = \<lparr>lh_lines = [txt_bytes ''axb''], lh_pos = Some 0\<rparr>"
    by code_simp
  have s: "length (txt_bytes ''axb'') = length ''axb''" "length ''axb'' < HIST_SIZE" "HIST_SIZE = 256"
    by (simp_all add: txt_bytes_def HIST_SIZE_def)
  have "length (replicate 256 (0 :: byte)) = HIST_SIZE" "has_str (replicate 256 0) 0 []" "length (replicate 8 (0 :: byte)) = 8"
    by (simp_all add: HIST_SIZE_def has_str_def)
  from cread_line_edits [OF ex_hist_ok(1) this, of ?keys] show ?thesis
    unfolding ex_hist_ok(2) k using s by (auto simp only: prod.case line_result.case if_True e)
qed

text \<open>Entering lines one after the other, and pressing the key for the line before several times.\<close>

fun enter_all :: "hist \<Rightarrow> byte list list \<Rightarrow> hist option" where
  "enter_all h [] = Some h"
| "enter_all h (l # ls) = do { h \<leftarrow> cread_add_to_hist h (l @ [0]); enter_all h ls }"

primrec steps_back :: "nat \<Rightarrow> hist \<Rightarrow> hist \<times> nat option" where
  "steps_back 0 h = hist_prev h"
| "steps_back (Suc k) h = steps_back k (fst (hist_prev h))"

lemma enter_all_view:
  assumes "hist_ok h" and "\<forall>l \<in> set ls. 0 \<notin> set l \<and> length l < HIST_SIZE"
    and "lh_lines (hist_view h) = take (HIST_MAX - 1) xs"
  shows "\<exists>h'. enter_all h ls = Some h' \<and> hist_ok h' \<and> lh_lines (hist_view h') = take (HIST_MAX - 1) (rev ls @ xs)"
  using assms
proof (induction ls arbitrary: h xs)
  case (Cons l ls)
  have "has_str (l @ [0]) 0 l" using Cons.prems(2) by (simp add: has_str_def)
  from cread_add_to_hist_view [OF Cons.prems(1) this] obtain h1 where
    h1: "cread_add_to_hist h (l @ [0]) = Some h1" "hist_ok h1"
    "lh_lines (hist_view h1) = take (HIST_MAX - 1) (l # lh_lines (hist_view h))" using Cons.prems(2) by auto
  have "lh_lines (hist_view h1) = take (HIST_MAX - 1) (l # xs)"
    unfolding h1(3) Cons.prems(3) by (simp add: HIST_MAX_def take_Cons' min_def)
  from Cons.IH [OF h1(2) _ this] Cons.prems(2) show ?case using h1(1) by simp
qed simp

lemma steps_back_view:
  assumes "hist_ok h" and "lh_pos (hist_view h) = Some j"
  shows "if j + k < length (lh_lines (hist_view h))
     then \<exists>h' r. steps_back k h = (h', Some r) \<and> row_text (hist_lines h' ! r) = lh_lines (hist_view h) ! (j + k) \<and>
       has_str (hist_lines h' ! r) 0 (lh_lines (hist_view h) ! (j + k))
     else snd (steps_back k h) = None"
  using assms
proof (induction k arbitrary: h j)
  case 0
  show ?case
  proof (cases "j < length (lh_lines (hist_view h))")
    case True
    then have "lh_prev (hist_view h) = Some ((hist_view h)\<lparr>lh_pos := Some (j + 1)\<rparr>, lh_lines (hist_view h) ! j)"
      using 0(2) by (simp add: lh_prev_def)
    then show ?thesis using True hist_prev_view [OF 0(1)] row_has(2) [OF 0(1)] by fastforce
  next
    case False
    then show ?thesis using hist_prev_view [OF 0(1)] 0(2) by (simp add: lh_prev_def)
  qed
next
  case (Suc k)
  show ?case
  proof (cases "j < length (lh_lines (hist_view h))")
    case True
    then have "lh_prev (hist_view h) = Some ((hist_view h)\<lparr>lh_pos := Some (j + 1)\<rparr>, lh_lines (hist_view h) ! j)"
      using Suc.prems(2) by (simp add: lh_prev_def)
    then obtain h' r where p: "hist_prev h = (h', Some r)" "hist_ok h'"
      "hist_view h' = (hist_view h)\<lparr>lh_pos := Some (j + 1)\<rparr>"
      using hist_prev_view [OF Suc.prems(1)] by auto
    have l: "lh_lines (hist_view h') = lh_lines (hist_view h)" "lh_pos (hist_view h') = Some (j + 1)"
      using p(3) by simp_all
    have j: "j + 1 + k = j + Suc k" by simp
    show ?thesis using Suc.IH [OF p(2) l(2)] p(1) unfolding l j by (simp only: steps_back.simps fst_conv)
  next
    case False
    then have "hist_prev h = (h, None)" using hist_prev_view [OF Suc.prems(1)] Suc.prems(2) by (simp add: lh_prev_def)
    then show ?thesis using Suc.IH [OF Suc.prems] False by simp
  qed
qed

text \<open>C38. After any lines have been entered, going back \<open>k + 1\<close> times gives the line entered
  \<open>k\<close> lines before the last one, for the last \<open>HIST_MAX - 1\<close> lines; one step
  further there is none.\<close>

theorem history_recalls:
  assumes "length (hist_lines h) = HIST_MAX" and "\<forall>r \<in> set (hist_lines h). length r = HIST_SIZE"
    and "\<forall>l \<in> set ls. 0 \<notin> set l \<and> length l < HIST_SIZE"
  shows "\<exists>h'. enter_all (hist_init h) ls = Some h' \<and>
    (let h2 = h'\<lparr>hist_cur := int (hist_add_idx h')\<rparr> in
      (\<forall>k < min (HIST_MAX - 1) (length ls). \<exists>h3 r. steps_back k h2 = (h3, Some r) \<and>
        has_str (hist_lines h3 ! r) 0 (rev ls ! k)) \<and>
      (\<forall>k \<ge> min (HIST_MAX - 1) (length ls). snd (steps_back k h2) = None))"
proof -
  note i = hist_init_ok [OF assms(1,2)]
  have "lh_lines (hist_view (hist_init h)) = take (HIST_MAX - 1) []" using i(2) by simp
  from enter_all_view [OF i(1) assms(3) this] obtain h' where
    h': "enter_all (hist_init h) ls = Some h'" "hist_ok h'" "lh_lines (hist_view h') = take (HIST_MAX - 1) (rev ls)"
    by auto
  let ?h2 = "h'\<lparr>hist_cur := int (hist_add_idx h')\<rparr>"
  have v: "lh_lines (hist_view ?h2) = take (HIST_MAX - 1) (rev ls)" "lh_pos (hist_view ?h2) = Some 0"
    unfolding hist_view_at_add using h'(3) by simp_all
  note s = steps_back_view [OF hist_ok_cur [OF h'(2)] v(2), unfolded v(1)]
  have "\<exists>h3 r. steps_back k ?h2 = (h3, Some r) \<and> has_str (hist_lines h3 ! r) 0 (rev ls ! k)"
    if "k < min (HIST_MAX - 1) (length ls)" for k
    using s [of k] that by auto
  moreover have "snd (steps_back k ?h2) = None" if "min (HIST_MAX - 1) (length ls) \<le> k" for k
    using s [of k] that by (auto simp: min_def split: if_splits)
  ultimately show ?thesis using h'(1) by (auto simp: Let_def)
qed

theorem history_recalls_witness:
  "\<exists>h'. enter_all (hist_init ex_hist) (map (\<lambda>c. [of_nat c, 98]) [1..<32]) = Some h' \<and>
    (\<exists>h3 r. steps_back 18 (h'\<lparr>hist_cur := int (hist_add_idx h')\<rparr>) = (h3, Some r) \<and>
      has_str (hist_lines h3 ! r) 0 [13, 98]) \<and>
    snd (steps_back 19 (h'\<lparr>hist_cur := int (hist_add_idx h')\<rparr>)) = None"
proof -
  let ?ls = "map (\<lambda>c. [of_nat c, 98]) [1..<32] :: byte list list"
  have "(of_nat c :: byte) \<noteq> 0" if "0 < c" "c < 32" for c
    using that by (auto simp: word_of_nat_eq_0_iff dest: nat_dvd_not_less)
  then have ls: "\<forall>l \<in> set ?ls. 0 \<notin> set l \<and> length l < HIST_SIZE" by (auto simp: HIST_SIZE_def eq_commute [of 0])
  have rows: "length (hist_lines ex_hist) = HIST_MAX" "\<forall>r \<in> set (hist_lines ex_hist). length r = HIST_SIZE"
    by (simp_all add: ex_hist_def HIST_MAX_def HIST_SIZE_def)
  have n: "min (HIST_MAX - 1) (length ?ls) = 19" by (simp add: HIST_MAX_def)
  have l: "rev ?ls ! 18 = [13, 98]" by (simp add: rev_nth)
  obtain h' where h': "enter_all (hist_init ex_hist) ?ls = Some h'"
    "\<forall>k < 19. \<exists>h3 r. steps_back k (h'\<lparr>hist_cur := int (hist_add_idx h')\<rparr>) = (h3, Some r) \<and>
      has_str (hist_lines h3 ! r) 0 (rev ?ls ! k)"
    "\<forall>k \<ge> 19. snd (steps_back k (h'\<lparr>hist_cur := int (hist_add_idx h')\<rparr>)) = None"
    using history_recalls [OF rows ls] unfolding n Let_def by blast
  have "\<exists>h3 r. steps_back 18 (h'\<lparr>hist_cur := int (hist_add_idx h')\<rparr>) = (h3, Some r) \<and>
      has_str (hist_lines h3 ! r) 0 [13, 98]"
    using h'(2) [rule_format, of 18] unfolding l by simp
  moreover have "snd (steps_back 19 (h'\<lparr>hist_cur := int (hist_add_idx h')\<rparr>)) = None"
    using h'(3) by simp
  ultimately show ?thesis using h'(1) by blast
qed

end
