(* ===== verification/Shell.thy ===== *)
theory Shell
  imports Command
begin

text \<open>
  The simple command parser of \<^verbatim>\<open>common/main.c\<close>: splitting a line into words, expanding variables,
  and running the commands of a line. A buffer is a memory object, a pointer into it an offset;
  \<open>argv\<close> is an array of 17 pointers, \<open>None\<close> the null pointer. What commands do is a parameter; the
  world they act on is a value of a type \<open>'w\<close>.
\<close>

definition CBSIZE :: nat where "CBSIZE = 256"
definition MAXARGS :: nat where "MAXARGS = 16"

section \<open>Words\<close>

function skip_blanks :: "mem \<Rightarrow> nat \<Rightarrow> nat option" where
  "skip_blanks m p =
     (if p < length m then if m ! p = 32 \<or> m ! p = 9 then skip_blanks m (p + 1) else Some p else None)"
  by pat_completeness auto
termination by (relation "measure (\<lambda>(m, p). length m - p)") auto

declare skip_blanks.simps [simp del]

function word_end :: "mem \<Rightarrow> nat \<Rightarrow> nat option" where
  "word_end m p =
     (if p < length m
      then if m ! p \<noteq> 0 \<and> m ! p \<noteq> 32 \<and> m ! p \<noteq> 9 then word_end m (p + 1) else Some p
      else None)"
  by pat_completeness auto
termination by (relation "measure (\<lambda>(m, p). length m - p)") auto

declare word_end.simps [simp del]

text \<open>\<open>k\<close> arguments may still be stored; the line, \<open>argv\<close> and the number of arguments at exit.\<close>

primrec parse_words ::
  "nat \<Rightarrow> mem \<Rightarrow> nat \<Rightarrow> nat option list \<Rightarrow> nat \<Rightarrow> (mem \<times> nat option list \<times> nat) option" where
  "parse_words 0 m line argv nargs = Some (m, argv, nargs)"
| "parse_words (Suc k) m line argv nargs = do {
     line \<leftarrow> skip_blanks m line;
     if m ! line = 0
     then do { argv \<leftarrow> wr argv nargs None; Some (m, argv, nargs) }
     else do {
       argv \<leftarrow> wr argv nargs (Some line);
       e \<leftarrow> word_end m line;
       if m ! e = 0
       then do { argv \<leftarrow> wr argv (nargs + 1) None; Some (m, argv, nargs + 1) }
       else do { m \<leftarrow> wr m e 0; parse_words k m (e + 1) argv (nargs + 1) }
     }
   }"

definition parse_line :: "mem \<Rightarrow> nat \<Rightarrow> nat option list \<Rightarrow> (mem \<times> nat option list \<times> nat) option" where
  "parse_line m line argv = parse_words MAXARGS m line argv 0"

section \<open>Variables\<close>

text \<open>
  The automaton of \<open>process_macros\<close>: state 0 waits for a dollar sign, 1 for the opening
  bracket, 2 for the closing one, 3 for the closing quote. \<open>outputcnt\<close> bytes are left in the output.
\<close>

record macro =
  mac_state :: nat
  mac_prev :: byte
  mac_varname_start :: nat
  mac_output :: mem
  mac_opos :: nat
  mac_outputcnt :: nat

definition mac_put :: "byte \<Rightarrow> macro \<Rightarrow> macro option" where
  "mac_put c s = map_option
     (\<lambda>out. s\<lparr>mac_output := out, mac_opos := mac_opos s + 1, mac_outputcnt := mac_outputcnt s - 1\<rparr>)
     (wr (mac_output s) (mac_opos s) c)"

fun mac_value :: "byte list \<Rightarrow> macro \<Rightarrow> macro option" where
  "mac_value [] s = Some s"
| "mac_value (c # cs) s =
     (if mac_outputcnt s = 0 then Some s
      else case mac_put c s of None \<Rightarrow> None | Some s \<Rightarrow> mac_value cs s)"

text \<open>The name of the variable is copied to a buffer of \<open>CBSIZE\<close> bytes and looked up.\<close>

definition mac_lookup :: "(byte list \<Rightarrow> byte list option) \<Rightarrow> mem \<Rightarrow> nat \<Rightarrow> macro \<Rightarrow> macro option" where
  "mac_lookup genv m input s = do {
     let envcnt = input - mac_varname_start s - 1;
     name \<leftarrow> rdn m (mac_varname_start s) envcnt;
     if CBSIZE \<le> envcnt then None
     else (case genv name of
             None \<Rightarrow> Some s
           | Some v \<Rightarrow> mac_value v s)
   }"

text \<open>The switch, for the character \<open>c\<close>; \<open>input\<close> is the offset behind it.\<close>

definition mac_switch ::
  "(byte list \<Rightarrow> byte list option) \<Rightarrow> mem \<Rightarrow> nat \<Rightarrow> byte \<Rightarrow> macro \<Rightarrow> macro option" where
  "mac_switch genv m input c s =
     (if mac_state s = 0 then
        (if c = 39 \<and> mac_prev s \<noteq> 92 then Some (s\<lparr>mac_state := 3\<rparr>)
         else if c = 36 \<and> mac_prev s \<noteq> 92 then Some (s\<lparr>mac_state := 1\<rparr>)
         else mac_put c s)
      else if mac_state s = 1 then
        (if c = 40 \<or> c = 123 then Some (s\<lparr>mac_state := 2, mac_varname_start := input\<rparr>)
         else do {
           s \<leftarrow> mac_put 36 (s\<lparr>mac_state := 0\<rparr>);
           if mac_outputcnt s \<noteq> 0 then mac_put c s else Some s
         })
      else if mac_state s = 2 then
        (if c = 41 \<or> c = 125 then map_option (\<lambda>s. s\<lparr>mac_state := 0\<rparr>) (mac_lookup genv m input s)
         else Some s)
      else
        (if c = 39 \<and> mac_prev s \<noteq> 92 then Some (s\<lparr>mac_state := 0\<rparr>) else mac_put c s))"

function mac_loop ::
  "(byte list \<Rightarrow> byte list option) \<Rightarrow> mem \<Rightarrow> nat \<Rightarrow> nat \<Rightarrow> macro \<Rightarrow> macro option" where
  "mac_loop genv m input inputcnt s =
     (if inputcnt = 0 \<or> mac_outputcnt s = 0 then Some s
      else case rd m input of
        None \<Rightarrow> None
      | Some c \<Rightarrow>
          (if mac_state s \<noteq> 3 \<and> c = 92 \<and> mac_prev s \<noteq> 92
           then (if inputcnt - 1 = 0 then Some s
                 else case rd m (input + 1) of
                   None \<Rightarrow> None
                 | Some c' \<Rightarrow>
                     (case mac_switch genv m (input + 2) c' (s\<lparr>mac_prev := c\<rparr>) of
                        None \<Rightarrow> None
                      | Some s \<Rightarrow> mac_loop genv m (input + 2) (inputcnt - 2) (s\<lparr>mac_prev := c'\<rparr>)))
           else (case mac_switch genv m (input + 1) c s of
                   None \<Rightarrow> None
                 | Some s \<Rightarrow> mac_loop genv m (input + 1) (inputcnt - 1) (s\<lparr>mac_prev := c\<rparr>))))"
  by pat_completeness auto
termination by (relation "measure (\<lambda>(genv, m, input, inputcnt, s). inputcnt)") auto

declare mac_loop.simps [simp del]

definition process_macros ::
  "(byte list \<Rightarrow> byte list option) \<Rightarrow> mem \<Rightarrow> nat \<Rightarrow> mem \<Rightarrow> mem option" where
  "process_macros genv m input out = do {
     inputcnt \<leftarrow> c_strlen m input;
     s \<leftarrow> mac_loop genv m input inputcnt
       \<lparr>mac_state = 0, mac_prev = 0, mac_varname_start = 0, mac_output = out, mac_opos = 0,
        mac_outputcnt = CBSIZE\<rparr>;
     if mac_outputcnt s \<noteq> 0 then wr (mac_output s) (mac_opos s) 0
     else wr (mac_output s) (mac_opos s - 1) 0
   }"

section \<open>Running commands\<close>

text \<open>What the parser needs of the rest of the program: the effect of a command on the world with its
  result, the value of a variable, the control-C flag, and which function is \<open>do_bootd\<close>.\<close>

record ('h, 'w) shell_env =
  sh_exec :: "'h \<Rightarrow> int \<Rightarrow> byte list list \<Rightarrow> 'w \<Rightarrow> ('w \<times> int) option"
  sh_getenv :: "'w \<Rightarrow> byte list \<Rightarrow> byte list option"
  sh_had_ctrlc :: "'w \<Rightarrow> bool"
  sh_clear_ctrlc :: "'w \<Rightarrow> 'w"
  sh_is_bootd :: "'h \<Rightarrow> bool"
  sh_cmds :: "'h cmd_tbl list"

text \<open>The end of the command at \<open>str\<close>: a separator, or the end of the line. The byte before the
  line is read when the line begins with a quote.\<close>

definition toggled :: "mem \<Rightarrow> nat \<Rightarrow> bool \<Rightarrow> bool" where
  "toggled m sep inquotes = (if m ! sep = 39 \<and> m ! (sep - 1) \<noteq> 92 then \<not> inquotes else inquotes)"

definition ends_here :: "mem \<Rightarrow> nat \<Rightarrow> nat \<Rightarrow> bool \<Rightarrow> bool" where
  "ends_here m str sep inquotes \<longleftrightarrow>
     \<not> inquotes \<and> m ! sep = 59 \<and> sep \<noteq> str \<and> m ! (sep - 1) \<noteq> 92"

function find_sep :: "mem \<Rightarrow> nat \<Rightarrow> nat \<Rightarrow> bool \<Rightarrow> nat option" where
  "find_sep m str sep inquotes =
     (if sep < length m
      then if m ! sep = 0 then Some sep
           else if m ! sep = 39 \<and> sep = 0 then None
           else if ends_here m str sep (toggled m sep inquotes) then Some sep
           else find_sep m str (sep + 1) (toggled m sep inquotes)
      else None)"
  by pat_completeness auto
termination by (relation "measure (\<lambda>(m, str, sep, inquotes). length m - sep)") auto

declare find_sep.simps [simp del]

lemma find_sep_ge: "find_sep m str sep q = Some e \<Longrightarrow> sep \<le> e \<and> e < length m"
proof (induction m str sep q rule: find_sep.induct)
  case (1 m str sep q)
  then show ?case by (subst (asm) (2) find_sep.simps) (auto split: if_split_asm)
qed

text \<open>The buffer with the command ended by a zero, and where the next one starts.\<close>

definition next_token :: "mem \<Rightarrow> nat \<Rightarrow> (mem \<times> nat) option" where
  "next_token m str = do {
     sep \<leftarrow> find_sep m str str False;
     Some (if m ! sep \<noteq> 0 then (m[sep := 0], sep + 1) else (m, sep))
   }"

lemma next_token_gt:
  assumes "next_token m str = Some (m', next)" and "m ! str \<noteq> 0"
  shows "str < next" and "length m' = length m" and "str < length m"
proof -
  obtain sep where "find_sep m str str False = Some sep"
    "(m', next) = (if m ! sep \<noteq> 0 then (m[sep := 0], sep + 1) else (m, sep))"
    using assms(1) by (auto simp: next_token_def bind_eq_Some_conv)
  then show "str < next" "length m' = length m" "str < length m"
    using find_sep_ge [of m str str False sep] assms(2) by (auto split: if_splits simp: le_eq_less_or_eq)
qed

text \<open>The locals of the loop: the expanded command, \<open>argv\<close>, the world, the flags and the results.\<close>

record 'w shell_st =
  sh_finaltoken :: mem
  sh_argv :: "nat option list"
  sh_world :: 'w
  sh_flag :: int
  sh_repeatable :: int
  sh_rc :: int

text \<open>The arguments as strings.\<close>

definition arg_strings :: "mem \<Rightarrow> nat option list \<Rightarrow> byte list list option" where
  "arg_strings m argv =
     those (map (\<lambda>p. do { p \<leftarrow> p; e \<leftarrow> str_end m p; Some (take (e - p) (drop p m)) }) argv)"

text \<open>One command: macros, words, lookup, checks and call; and whether the user stopped it.\<close>

definition run_token ::
  "('h, 'w) shell_env \<Rightarrow> mem \<Rightarrow> nat \<Rightarrow> 'w shell_st \<Rightarrow> ('w shell_st \<times> bool) option" where
  "run_token env cmdbuf token s = do {
     fin \<leftarrow> process_macros (sh_getenv env (sh_world s)) cmdbuf token (sh_finaltoken s);
     (fin, argv, argc) \<leftarrow> parse_line fin 0 (sh_argv s);
     let s = s\<lparr>sh_finaltoken := fin, sh_argv := argv\<rparr>;
     let fail = s\<lparr>sh_rc := - 1\<rparr>;
     if argc = 0 then Some (fail, False)
     else do {
       args \<leftarrow> arg_strings fin (take argc argv);
       k \<leftarrow> find_cmd_tbl (hd args) (sh_cmds env);
       (case k of
          None \<Rightarrow> Some (fail, False)
        | Some k \<Rightarrow>
            (let e = sh_cmds env ! k in
             if cmd_maxargs e < int argc then Some (fail, False)
             else if sh_is_bootd env (cmd_fn e) \<and> sh_flag s AND 2 \<noteq> 0 then Some (fail, False)
             else do {
               let flag = (if sh_is_bootd env (cmd_fn e) then sh_flag s OR 2 else sh_flag s);
               (w, r) \<leftarrow> sh_exec env (cmd_fn e) flag args (sh_world s);
               Some (s\<lparr>sh_world := w, sh_flag := flag, sh_rc := (if r \<noteq> 0 then - 1 else sh_rc s),
                 sh_repeatable := sh_repeatable s AND cmd_repeatable e\<rparr>, sh_had_ctrlc env w)
             }))
     }
   }"

function run_tokens :: "('h, 'w) shell_env \<Rightarrow> mem \<Rightarrow> nat \<Rightarrow> 'w shell_st \<Rightarrow> ('w \<times> int) option" where
  "run_tokens env cmdbuf str s =
     (case rd cmdbuf str of
        None \<Rightarrow> None
      | Some c \<Rightarrow>
          (if c = 0 then Some (sh_world s, if sh_rc s \<noteq> 0 then sh_rc s else sh_repeatable s)
           else (case next_token cmdbuf str of
                   None \<Rightarrow> None
                 | Some (cmdbuf', next) \<Rightarrow>
                     (case run_token env cmdbuf' str s of
                        None \<Rightarrow> None
                      | Some (s, stopped) \<Rightarrow>
                          if stopped then Some (sh_world s, - 1) else run_tokens env cmdbuf' next s))))"
  by pat_completeness auto
termination
proof (relation "measure (\<lambda>(env, cmdbuf, str, s). length cmdbuf - str)", goal_cases)
  case (2 env cmdbuf str s c p cmdbuf' nx q s' stopped)
  then have "next_token cmdbuf str = Some (cmdbuf', nx)" "cmdbuf ! str \<noteq> 0" by auto
  from next_token_gt [OF this] show ?case by simp
qed simp

declare run_tokens.simps [simp del]

text \<open>\<open>cmdbuf\<close>, \<open>finaltoken\<close> and \<open>argv\<close> are what the arrays on the stack hold at entry.\<close>

definition run_command ::
  "('h, 'w) shell_env \<Rightarrow> mem \<Rightarrow> mem \<Rightarrow> nat option list \<Rightarrow> byte list option \<Rightarrow> 'w \<Rightarrow> int \<Rightarrow> ('w \<times> int) option" where
  "run_command env cmdbuf finaltoken argv cmd w flag =
     (let w = sh_clear_ctrlc env w in
      case cmd of
        None \<Rightarrow> Some (w, - 1)
      | Some cmd \<Rightarrow>
          (if cmd = [] then Some (w, - 1)
           else if CBSIZE \<le> length cmd then Some (w, - 1)
           else do {
             cmdbuf \<leftarrow> wrn cmdbuf 0 (cmd @ [0]);
             run_tokens env cmdbuf 0
               \<lparr>sh_finaltoken = finaltoken, sh_argv = argv, sh_world = w, sh_flag = flag,
                sh_repeatable = 1, sh_rc = 0\<rparr>
           }))"

text \<open>\<open>do_run\<close>, for the arguments behind its name; \<open>run\<close> is \<open>run_command\<close>.\<close>

fun run_vars ::
  "('w \<Rightarrow> byte list \<Rightarrow> byte list option) \<Rightarrow> (byte list \<Rightarrow> 'w \<Rightarrow> ('w \<times> int) option) \<Rightarrow>
   byte list list \<Rightarrow> 'w \<Rightarrow> ('w \<times> int) option" where
  "run_vars genv run [] w = Some (w, 0)"
| "run_vars genv run (v # vs) w =
     (case genv w v of
        None \<Rightarrow> Some (w, 1)
      | Some arg \<Rightarrow>
          (case run arg w of
             None \<Rightarrow> None
           | Some (w, r) \<Rightarrow> if r = - 1 then Some (w, 1) else run_vars genv run vs w))"

definition do_run ::
  "('w \<Rightarrow> byte list \<Rightarrow> byte list option) \<Rightarrow> (byte list \<Rightarrow> 'w \<Rightarrow> ('w \<times> int) option) \<Rightarrow>
   byte list list \<Rightarrow> 'w \<Rightarrow> ('w \<times> int) option" where
  "do_run genv run args w = (if length args < 2 then Some (w, 1) else run_vars genv run (tl args) w)"

end
