(* ===== verification/ShellCorrect.thy ===== *)
theory ShellCorrect
  imports Shell CommandCorrect
begin

text \<open>
  The command parser on buffers and pointers against its meaning on lists of strings: the words of
  a line, the expansion of variables, and the commands of a line run one after the other.
\<close>

section \<open>Words\<close>

definition blank :: "byte \<Rightarrow> bool" where
  "blank c \<longleftrightarrow> c = 32 \<or> c = 9"

function words_of :: "byte list \<Rightarrow> byte list list" where
  "words_of s =
     (let t = dropWhile blank s in
      if t = [] then []
      else takeWhile (\<lambda>c. \<not> blank c) t # words_of (dropWhile (\<lambda>c. \<not> blank c) t))"
  by pat_completeness auto
termination
proof (relation "measure length", goal_cases)
  case (2 s t)
  then have "t \<noteq> []" by simp
  then obtain c cs where t: "t = c # cs" by (meson list.exhaust)
  then have "\<not> blank c" using 2(1) by (metis dropWhile_eq_Cons_conv)
  then have "length (dropWhile (\<lambda>c. \<not> blank c) t) \<le> length cs" using t by (simp add: length_dropWhile_le)
  moreover have "length t \<le> length s" using 2(1) by (simp add: length_dropWhile_le)
  ultimately show ?case using t by simp
qed simp

declare words_of.simps [simp del]

lemma skip_blanks_has:
  "has_str m p s \<Longrightarrow> \<exists>q. skip_blanks m p = Some q \<and> p \<le> q \<and> has_str m q (dropWhile blank s)"
proof (induction s arbitrary: p)
  case Nil
  then show ?case by (intro exI [of _ p]) (simp add: has_str_Nil skip_blanks.simps [of m p])
next
  case (Cons c s)
  then have h: "p < length m" "m ! p = c" "c \<noteq> 0" "has_str m (p + 1) s" by (simp_all add: has_str_Cons)
  have b: "blank c \<longleftrightarrow> m ! p = 32 \<or> m ! p = 9" using h(2) by (simp add: blank_def)
  show ?case
  proof (cases "blank c")
    case True
    from Cons.IH [OF h(4)] obtain q where
      "skip_blanks m (p + 1) = Some q" "p + 1 \<le> q" "has_str m q (dropWhile blank s)" by blast
    then show ?thesis using h(1) True b
      by (intro exI [of _ q]) (simp add: skip_blanks.simps [of m p])
  next
    case False
    then show ?thesis using h(1) b Cons.prems
      by (intro exI [of _ p]) (simp add: skip_blanks.simps [of m p])
  qed
qed

lemma word_end_has:
  "has_str m p s \<Longrightarrow> word_end m p = Some (p + length (takeWhile (\<lambda>c. \<not> blank c) s))"
proof (induction s arbitrary: p)
  case Nil
  then show ?case by (simp add: has_str_Nil word_end.simps [of m p])
next
  case (Cons c s)
  then show ?case
    by (auto simp: has_str_Cons word_end.simps [of m p] blank_def)
qed

lemma has_str_drop: "has_str m p s \<Longrightarrow> k \<le> length s \<Longrightarrow> has_str m (p + k) (drop k s)"
proof (induction k arbitrary: p s)
  case (Suc k)
  then obtain c cs where "s = c # cs" by (cases s) auto
  then show ?case using Suc.IH [of "p + 1" cs] Suc.prems by (simp add: has_str_Cons)
qed simp

lemma has_str_update_end:
  assumes "has_str m p s" and "k < length s"
  shows "has_str (m[p + k := 0]) p (take k s)"
proof -
  have "take k (drop p (m[p + k := 0])) = take k (drop p m)" by (simp add: drop_update_swap)
  also have "\<dots> = take k (take (length s) (drop p m))" using assms(2) by simp
  also have "take (length s) (drop p m) = s" using assms(1) by (simp add: has_str_def)
  finally show ?thesis using assms by (auto simp: has_str_def dest: in_set_takeD)
qed

lemma has_str_keep:
  assumes "has_str m p s" and "take n m' = take n m" and "p + length s < n" and "length m' = length m"
  shows "has_str m' p s"
proof -
  have e: "m' ! i = m ! i" if "i < n" "i < length m" for i
    using arg_cong [OF assms(2), of "\<lambda>xs. xs ! i"] that assms(4) by simp
  have l: "p + length s < length m" using assms(1) by (simp add: has_str_def)
  have "take (length s) (drop p m') = take (length s) (drop p m)"
    using l assms(3,4) by (intro nth_equalityI) (auto simp: e)
  then show ?thesis using assms e l by (auto simp: has_str_def)
qed

lemma parse_words_has:
  assumes "has_str m line s" and "nargs + k < length argv"
  shows "\<exists>m' argv' n. parse_words k m line argv nargs = Some (m', argv', n) \<and>
    n = nargs + min k (length (words_of s)) \<and> length m' = length m \<and> take line m' = take line m \<and>
    length argv' = length argv \<and> take nargs argv' = take nargs argv \<and>
    (\<forall>i < min k (length (words_of s)). \<exists>p. argv' ! (nargs + i) = Some p \<and> has_str m' p (words_of s ! i)) \<and>
    (length (words_of s) < k \<longrightarrow> argv' ! n = None) \<and>
    (k < length (words_of s) \<longrightarrow> (\<forall>i. nargs + k \<le> i \<longrightarrow> argv' ! i = argv ! i))"
  using assms
proof (induction k arbitrary: m line s argv nargs)
  case (Suc k)
  obtain q where q: "skip_blanks m line = Some q" "line \<le> q" "has_str m q (dropWhile blank s)"
    using skip_blanks_has [OF Suc.prems(1)] by blast
  let ?t = "dropWhile blank s"
  show ?case
  proof (cases "?t = []")
    case True
    then have "words_of s = []" by (simp add: words_of.simps)
    then show ?thesis using q True Suc.prems(2) by (auto simp: has_str_Nil)
  next
    case False
    let ?w = "takeWhile (\<lambda>c. \<not> blank c) ?t"
    let ?r = "dropWhile (\<lambda>c. \<not> blank c) ?t"
    obtain c cs where t: "?t = c # cs" using False by (cases ?t) auto
    have nz: "m ! q \<noteq> 0" using q(3) t by (simp add: has_str_Cons)
    have ws: "words_of s = ?w # words_of ?r" using False by (subst words_of.simps) (simp add: Let_def)
    have e: "word_end m q = Some (q + length ?w)" using word_end_has [OF q(3)] .
    have r: "?r = drop (length ?w) ?t" by (rule dropWhile_eq_drop)
    have hr: "has_str m (q + length ?w) ?r" unfolding r by (rule has_str_drop [OF q(3)]) (simp add: length_takeWhile_le)
    let ?a = "argv[nargs := Some q]"
    show ?thesis
    proof (cases "?r = []")
      case True
      have "has_str m (q + length ?w) []" using hr unfolding True .
      then have z: "m ! (q + length ?w) = 0" by (simp add: has_str_Nil)
      have wt: "?w = ?t" using True by (metis append_Nil2 takeWhile_dropWhile_id)
      have hw: "has_str m q ?w" unfolding wt by (rule q(3))
      have "words_of s = [?w]" using ws True by (simp add: words_of.simps)
      then show ?thesis using q nz e z hw Suc.prems(2) by auto
    next
      case r0: False
      then have lt: "length ?w < length ?t" using r by (metis drop_all linorder_le_less_linear)
      obtain d ds where d: "?r = d # ds" using r0 by (cases ?r) auto
      have db: "blank d" using d by (metis dropWhile_eq_Cons_conv)
      have nz2: "m ! (q + length ?w) \<noteq> 0" "q + length ?w < length m" "has_str m (q + length ?w + 1) ds"
        using hr d by (simp_all add: has_str_Cons)
      let ?m = "m[q + length ?w := 0]"
      have "take (length ?w) ?t = ?w" by (rule takeWhile_eq_take [symmetric])
      then have hw: "has_str ?m q ?w" using has_str_update_end [OF q(3) lt] by simp
      have hd: "has_str ?m (q + length ?w + 1) ds"
        using nz2(3) by (auto simp: has_str_def)
      have wd: "words_of ?r = words_of ds" using d db by (simp add: words_of.simps [of "d # ds"] words_of.simps [of ds])
      have "nargs + 1 + k < length ?a" using Suc.prems(2) by simp
      from Suc.IH [OF hd this] obtain m' argv' n where
        p: "parse_words k ?m (q + length ?w + 1) ?a (nargs + 1) = Some (m', argv', n)"
        "n = nargs + 1 + min k (length (words_of ds))" "length m' = length ?m"
        "take (q + length ?w + 1) m' = take (q + length ?w + 1) ?m" "length argv' = length ?a"
        "take (nargs + 1) argv' = take (nargs + 1) ?a"
        "\<forall>i < min k (length (words_of ds)). \<exists>p. argv' ! (nargs + 1 + i) = Some p \<and> has_str m' p (words_of ds ! i)"
        "length (words_of ds) < k \<longrightarrow> argv' ! n = None"
        "k < length (words_of ds) \<longrightarrow> (\<forall>i. nargs + 1 + k \<le> i \<longrightarrow> argv' ! i = ?a ! i)" by blast
      have hw': "has_str m' q ?w" by (rule has_str_keep [OF hw p(4)]) (use p(3) in auto)
      have a0: "argv' ! nargs = Some q"
        using arg_cong [OF p(6), of "\<lambda>xs. xs ! nargs"] Suc.prems(2) p(5) by simp
      have "parse_words (Suc k) m line argv nargs = Some (m', argv', n)"
        using q(1) nz e nz2 p(1) Suc.prems(2) by simp
      moreover have "take line m' = take line m"
      proof -
        have "take line (take (q + length ?w + 1) m') = take line (take (q + length ?w + 1) ?m)" using p(4) by simp
        then show ?thesis using q(2) by simp
      qed
      moreover have "take nargs argv' = take nargs argv"
      proof -
        have "take nargs (take (nargs + 1) argv') = take nargs (take (nargs + 1) ?a)" using p(6) by simp
        then show ?thesis by simp
      qed
      moreover have "\<forall>i < min (Suc k) (length (words_of s)).
          \<exists>p. argv' ! (nargs + i) = Some p \<and> has_str m' p (words_of s ! i)"
      proof (intro allI impI)
        fix i
        assume i: "i < min (Suc k) (length (words_of s))"
        show "\<exists>p. argv' ! (nargs + i) = Some p \<and> has_str m' p (words_of s ! i)"
        proof (cases i)
          case 0
          then show ?thesis using a0 hw' ws by simp
        next
          case (Suc j)
          then show ?thesis using p(7) i ws wd by simp
        qed
      qed
      ultimately show ?thesis using p ws wd Suc.prems(2) by auto
    qed
  qed
qed simp

lemma parse_line_has:
  assumes "has_str m line s" and "length argv = MAXARGS + 1"
  shows "\<exists>m' argv'. parse_line m line argv = Some (m', argv', min MAXARGS (length (words_of s))) \<and>
    length m' = length m \<and> length argv' = MAXARGS + 1 \<and>
    (\<forall>i < min MAXARGS (length (words_of s)). \<exists>p. argv' ! i = Some p \<and> has_str m' p (words_of s ! i)) \<and>
    (length (words_of s) < MAXARGS \<longrightarrow> argv' ! length (words_of s) = None) \<and>
    (MAXARGS < length (words_of s) \<longrightarrow> argv' ! MAXARGS = argv ! MAXARGS)"
proof -
  have "0 + MAXARGS < length argv" using assms(2) by simp
  from parse_words_has [OF assms(1) this] obtain m' argv' n where
    "parse_words MAXARGS m line argv 0 = Some (m', argv', n)" "n = 0 + min MAXARGS (length (words_of s))"
    "length m' = length m" "length argv' = length argv"
    "\<forall>i < min MAXARGS (length (words_of s)). \<exists>p. argv' ! (0 + i) = Some p \<and> has_str m' p (words_of s ! i)"
    "length (words_of s) < MAXARGS \<longrightarrow> argv' ! n = None"
    "MAXARGS < length (words_of s) \<longrightarrow> (\<forall>i. 0 + MAXARGS \<le> i \<longrightarrow> argv' ! i = argv ! i)" by blast
  then show ?thesis using assms(2) by (auto simp: parse_line_def)
qed

section \<open>Variables\<close>

text \<open>The same automaton on lists without a bound: what a character adds to the text, the next state,
  and the name read so far.\<close>

definition ex_step ::
  "(byte list \<Rightarrow> byte list option) \<Rightarrow> nat \<Rightarrow> byte \<Rightarrow> byte list \<Rightarrow> byte \<Rightarrow> byte list \<times> nat \<times> byte list" where
  "ex_step genv st prev name c =
     (if st = 0 then
        (if c = 39 \<and> prev \<noteq> 92 then ([], 3, name)
         else if c = 36 \<and> prev \<noteq> 92 then ([], 1, name) else ([c], 0, name))
      else if st = 1 then (if c = 40 \<or> c = 123 then ([], 2, []) else ([36, c], 0, name))
      else if st = 2 then
        (if c = 41 \<or> c = 125 then ((case genv name of None \<Rightarrow> [] | Some v \<Rightarrow> v), 0, name)
         else ([], 2, name @ [c]))
      else (if c = 39 \<and> prev \<noteq> 92 then ([], 0, name) else ([c], 3, name)))"

function expand_from ::
  "(byte list \<Rightarrow> byte list option) \<Rightarrow> nat \<Rightarrow> byte \<Rightarrow> byte list \<Rightarrow> byte list \<Rightarrow> byte list" where
  "expand_from genv st prev name s =
     (case s of
        [] \<Rightarrow> []
      | c # cs \<Rightarrow>
          (if st \<noteq> 3 \<and> c = 92 \<and> prev \<noteq> 92
           then (case cs of
                   [] \<Rightarrow> []
                 | c' # cs' \<Rightarrow>
                     (case ex_step genv st c (if st = 2 then name @ [c] else name) c' of
                        (t, st, name) \<Rightarrow> t @ expand_from genv st c' name cs'))
           else (case ex_step genv st prev name c of
                   (t, st, name) \<Rightarrow> t @ expand_from genv st c name cs)))"
  by pat_completeness auto
termination by (relation "measure (\<lambda>(genv, st, prev, name, s). length s)") auto

declare expand_from.simps [simp del]

definition expand :: "(byte list \<Rightarrow> byte list option) \<Rightarrow> byte list \<Rightarrow> byte list" where
  "expand genv s = expand_from genv 0 0 [] s"

text \<open>The output holds the text so far, cut to the size of the buffer.\<close>

definition mac_text :: "macro \<Rightarrow> byte list \<Rightarrow> bool" where
  "mac_text s e \<longleftrightarrow> length (mac_output s) = CBSIZE \<and> mac_opos s = length (take CBSIZE e) \<and>
     mac_outputcnt s = CBSIZE - mac_opos s \<and> take (mac_opos s) (mac_output s) = take CBSIZE e"

lemma mac_put_text:
  assumes "mac_text s e" and "mac_outputcnt s \<noteq> 0"
  shows "\<exists>out. mac_put c s = Some (s\<lparr>mac_output := out, mac_opos := mac_opos s + 1,
      mac_outputcnt := mac_outputcnt s - 1\<rparr>) \<and>
    mac_text (s\<lparr>mac_output := out, mac_opos := mac_opos s + 1, mac_outputcnt := mac_outputcnt s - 1\<rparr>) (e @ [c])"
proof -
  have l: "length e < CBSIZE" "mac_opos s = length e" "length (mac_output s) = CBSIZE"
    using assms by (auto simp: mac_text_def split: if_splits)
  then have "take (length e + 1) ((mac_output s)[length e := c]) = e @ [c]"
    using assms(1) by (simp add: take_Suc_conv_app_nth mac_text_def)
  then show ?thesis using l assms(1)
    by (intro exI [of _ "(mac_output s)[length e := c]"]) (simp add: mac_put_def mac_text_def)
qed

text \<open>The text after a part of it has been put: the state and the name's place are kept.\<close>

definition same_ctl :: "macro \<Rightarrow> macro \<Rightarrow> bool" where
  "same_ctl s t \<longleftrightarrow> mac_state t = mac_state s \<and> mac_prev t = mac_prev s \<and>
     mac_varname_start t = mac_varname_start s"

lemma mac_full: "mac_text s e \<Longrightarrow> mac_outputcnt s = 0 \<Longrightarrow> mac_text s (e @ t)"
  by (auto simp: mac_text_def)

lemma mac_value_text:
  "mac_text s e \<Longrightarrow> \<exists>t. mac_value v s = Some t \<and> mac_text t (e @ v) \<and> same_ctl s t"
proof (induction v arbitrary: s e)
  case (Cons c v)
  show ?case
  proof (cases "mac_outputcnt s = 0")
    case True
    then show ?thesis using mac_full [OF Cons.prems True] by (simp add: same_ctl_def)
  next
    case False
    from mac_put_text [OF Cons.prems this, of c] obtain out where
      p: "mac_put c s = Some (s\<lparr>mac_output := out, mac_opos := mac_opos s + 1, mac_outputcnt := mac_outputcnt s - 1\<rparr>)"
      "mac_text (s\<lparr>mac_output := out, mac_opos := mac_opos s + 1, mac_outputcnt := mac_outputcnt s - 1\<rparr>) (e @ [c])"
      by blast
    from Cons.IH [OF p(2)] p(1) False show ?thesis by (auto simp: same_ctl_def)
  qed
qed (simp add: same_ctl_def)

text \<open>The state of the automaton against the abstract one: in state 2 the name read so far is in the
  input behind the bracket.\<close>

definition mac_rel :: "mem \<Rightarrow> nat \<Rightarrow> macro \<Rightarrow> nat \<Rightarrow> byte list \<Rightarrow> byte list \<Rightarrow> bool" where
  "mac_rel m input s st name e \<longleftrightarrow> mac_state s = st \<and> mac_text s e \<and> st \<le> 3 \<and>
     (st = 2 \<longrightarrow> input = mac_varname_start s + length name \<and>
       take (length name) (drop (mac_varname_start s) m) = name)"

lemma mac_text_ctl [simp]:
  "mac_text (s\<lparr>mac_state := a\<rparr>) e = mac_text s e" "mac_text (s\<lparr>mac_prev := p\<rparr>) e = mac_text s e"
  "mac_text (s\<lparr>mac_varname_start := v\<rparr>) e = mac_text s e"
  by (simp_all add: mac_text_def)

lemma mac_put_rel:
  assumes "mac_text s e" and "mac_outputcnt s \<noteq> 0"
  obtains t where "mac_put c s = Some t" "mac_text t (e @ [c])" "same_ctl s t"
  using mac_put_text [OF assms, of c] by (auto simp: same_ctl_def)

lemma mac_put_two:
  assumes "mac_text s e" and "mac_outputcnt s \<noteq> 0"
  obtains t where "do { s \<leftarrow> mac_put a s; if mac_outputcnt s \<noteq> 0 then mac_put c s else Some s } = Some t"
    "mac_text t (e @ [a, c])" "same_ctl s t"
proof -
  from mac_put_rel [OF assms] obtain t where t: "mac_put a s = Some t" "mac_text t (e @ [a])" "same_ctl s t" .
  show thesis
  proof (cases "mac_outputcnt t = 0")
    case True
    then show thesis using that [of t] t mac_full [OF t(2) True, of "[c]"] by simp
  next
    case False
    from mac_put_rel [OF t(2) this] obtain u where "mac_put c t = Some u" "mac_text u ((e @ [a]) @ [c])" "same_ctl t u" .
    then show thesis using that [of u] t False by (simp add: same_ctl_def)
  qed
qed

lemma name_grows:
  assumes "take n (drop v m) = name" and "length name = n" and "v + n < length m"
  shows "take (Suc n) (drop v m) = name @ [m ! (v + n)]"
  using assms by (simp add: take_Suc_conv_app_nth)

lemma mac_switch_rel:
  assumes rel: "mac_rel m i s st name e" and i: "i < length m" "length m \<le> CBSIZE"
    and room: "mac_outputcnt s \<noteq> 0"
    and step: "ex_step genv st (mac_prev s) name (m ! i) = (add, st', name')"
  shows "\<exists>t. mac_switch genv m (i + 1) (m ! i) s = Some t \<and> mac_rel m (i + 1) t st' name' (e @ add) \<and>
    mac_prev t = mac_prev s"
proof -
  have s: "mac_state s = st" "mac_text s e" "st \<le> 3" using rel by (simp_all add: mac_rel_def)
  let ?c = "m ! i"
  from mac_put_rel [OF s(2) room, of ?c] obtain t where
    t: "mac_put ?c s = Some t" "mac_text t (e @ [?c])" "same_ctl s t" .
  consider "st = 0" | "st = 1" | "st = 2" | "st = 3" using s(3) by linarith
  then show ?thesis
  proof cases
    case 1
    then show ?thesis using step s t
      by (auto simp: ex_step_def mac_switch_def mac_rel_def same_ctl_def split: if_splits)
  next
    case 2
    have "mac_text (s\<lparr>mac_state := 0\<rparr>) e" "mac_outputcnt (s\<lparr>mac_state := 0\<rparr>) \<noteq> 0" using s room by simp_all
    from mac_put_two [OF this, of 36 ?c] obtain u where
      "do { s \<leftarrow> mac_put 36 (s\<lparr>mac_state := 0\<rparr>); if mac_outputcnt s \<noteq> 0 then mac_put ?c s else Some s } = Some u"
      "mac_text u (e @ [36, ?c])" "same_ctl (s\<lparr>mac_state := 0\<rparr>) u" .
    then show ?thesis using step s 2
      by (auto simp: ex_step_def mac_switch_def mac_rel_def same_ctl_def split: if_splits)
  next
    case 3
    have n: "i = mac_varname_start s + length name" "take (length name) (drop (mac_varname_start s) m) = name"
      using rel 3 by (simp_all add: mac_rel_def)
    have look: "mac_lookup genv m (i + 1) s = mac_value (case genv name of None \<Rightarrow> [] | Some v \<Rightarrow> v) s"
      using n i by (simp add: mac_lookup_def split: option.split)
    from mac_value_text [OF s(2)] obtain u where
      "mac_value (case genv name of None \<Rightarrow> [] | Some v \<Rightarrow> v) s = Some u"
      "mac_text u (e @ (case genv name of None \<Rightarrow> [] | Some v \<Rightarrow> v))" "same_ctl s u" by blast
    moreover have "take (Suc (length name)) (drop (mac_varname_start s) m) = name @ [?c]"
      using name_grows [OF n(2) refl] i n(1) by simp
    ultimately show ?thesis using step s 3 look n i(1)
      by (auto simp: ex_step_def mac_switch_def mac_rel_def same_ctl_def split: if_splits)
  next
    case 4
    then show ?thesis using step s t
      by (auto simp: ex_step_def mac_switch_def mac_rel_def same_ctl_def split: if_splits)
  qed
qed

lemma mac_loop_text:
  assumes "has_str m i cs" and "mac_rel m i s st name e" and "length m \<le> CBSIZE"
  shows "\<exists>t. mac_loop genv m i (length cs) s = Some t \<and>
    mac_text t (e @ expand_from genv st (mac_prev s) name cs)"
  using assms(1,2)
proof (induction "length cs" arbitrary: cs i s st name e rule: less_induct)
  case less
  have tx: "mac_text s e" and st: "mac_state s = st" using less.prems(2) by (simp_all add: mac_rel_def)
  show ?case
  proof (cases "cs = [] \<or> mac_outputcnt s = 0")
    case True
    then show ?thesis
      using tx mac_full [OF tx] by (auto simp: mac_loop.simps [of genv m i] expand_from.simps [of _ _ _ _ "[]"])
  next
    case False
    then obtain c ds where cs: "cs = c # ds" by (cases cs) auto
    have h: "i < length m" "m ! i = c" "has_str m (i + 1) ds" using less.prems(1) cs by (simp_all add: has_str_Cons)
    show ?thesis
    proof (cases "st \<noteq> 3 \<and> c = 92 \<and> mac_prev s \<noteq> 92")
      case plain: False
      obtain add st' name' where step: "ex_step genv st (mac_prev s) name c = (add, st', name')"
        by (metis prod_cases3)
      from mac_switch_rel [OF less.prems(2) h(1) assms(3) _ step [folded h(2)]] False h(2) obtain t where
        t: "mac_switch genv m (i + 1) c s = Some t" "mac_rel m (i + 1) t st' name' (e @ add)" by auto
      have "mac_rel m (i + 1) (t\<lparr>mac_prev := c\<rparr>) st' name' (e @ add)" using t(2) by (simp add: mac_rel_def)
      from less.hyps [OF _ h(3) this] cs obtain u where
        "mac_loop genv m (i + 1) (length ds) (t\<lparr>mac_prev := c\<rparr>) = Some u"
        "mac_text u ((e @ add) @ expand_from genv st' c name' ds)" by auto
      then show ?thesis using False plain cs h t(1) st step
        by (intro exI [of _ u]) (auto simp: mac_loop.simps [of genv m i] expand_from.simps [of _ _ _ _ "c # ds"])
    next
      case esc: True
      show ?thesis
      proof (cases ds)
        case Nil
        then show ?thesis using False esc cs h st tx
          by (simp add: mac_loop.simps [of genv m i] expand_from.simps [of _ _ _ _ "[92]"])
      next
        case (Cons d es)
        have h2: "i + 1 < length m" "m ! (i + 1) = d" "has_str m (i + 1 + 1) es"
          using h(3) Cons by (simp_all add: has_str_Cons)
        let ?name = "if st = 2 then name @ [c] else name"
        let ?s = "s\<lparr>mac_prev := c\<rparr>"
        have rel: "mac_rel m (i + 1) ?s st ?name e"
          using less.prems(2) name_grows [of "length name" "mac_varname_start s" m name] h
          by (auto simp: mac_rel_def)
        obtain add st' name' where step: "ex_step genv st c ?name d = (add, st', name')"
          by (metis prod_cases3)
        have "mac_outputcnt ?s \<noteq> 0" "ex_step genv st (mac_prev ?s) ?name (m ! (i + 1)) = (add, st', name')"
          using False step h2(2) by simp_all
        from mac_switch_rel [OF rel h2(1) assms(3) this] h2(2) obtain t where
          t: "mac_switch genv m (i + 2) d ?s = Some t" "mac_rel m (i + 1 + 1) t st' name' (e @ add)" by auto
        have "mac_rel m (i + 1 + 1) (t\<lparr>mac_prev := d\<rparr>) st' name' (e @ add)" using t(2) by (simp add: mac_rel_def)
        from less.hyps [OF _ h2(3) this] cs Cons obtain u where
          "mac_loop genv m (i + 2) (length es) (t\<lparr>mac_prev := d\<rparr>) = Some u"
          "mac_text u ((e @ add) @ expand_from genv st' d name' es)" by auto
        moreover have "expand_from genv st (mac_prev s) name (c # d # es) = add @ expand_from genv st' d name' es"
          using esc step by (subst expand_from.simps) (auto split: if_splits)
        moreover have "mac_loop genv m i (length cs) s = mac_loop genv m (i + 2) (length es) (t\<lparr>mac_prev := d\<rparr>)"
          using False esc cs Cons h h2 t(1) st by (subst mac_loop.simps) simp
        ultimately show ?thesis using cs Cons by (intro exI [of _ u]) simp
      qed
    qed
  qed
qed

definition clean_vars :: "(byte list \<Rightarrow> byte list option) \<Rightarrow> bool" where
  "clean_vars genv \<longleftrightarrow> (\<forall>name v. genv name = Some v \<longrightarrow> 0 \<notin> set v)"

lemma ex_step_clean:
  "clean_vars genv \<Longrightarrow> c \<noteq> 0 \<Longrightarrow> ex_step genv st prev name c = (t, st', name') \<Longrightarrow> 0 \<notin> set t"
  by (auto simp: ex_step_def clean_vars_def split: if_splits option.splits)

lemma expand_from_clean:
  assumes "clean_vars genv" and "0 \<notin> set s"
  shows "0 \<notin> set (expand_from genv st prev name s)"
  using assms(2)
proof (induction "length s" arbitrary: st prev name s rule: less_induct)
  case less
  show ?case
  proof (cases s)
    case (Cons c cs)
    obtain t st' name' where step: "ex_step genv st prev name c = (t, st', name')" by (metis prod_cases3)
    have a: "0 \<notin> set t" "0 \<notin> set (expand_from genv st' c name' cs)"
      using ex_step_clean [OF assms(1) _ step] less Cons by simp_all
    show ?thesis
    proof (cases cs)
      case Nil
      then show ?thesis using a step Cons by (subst expand_from.simps) simp
    next
      case d: (Cons d ds)
      let ?n = "if st = 2 then name @ [c] else name"
      obtain t2 st2 name2 where step2: "ex_step genv st c ?n d = (t2, st2, name2)" by (metis prod_cases3)
      have "0 \<notin> set t2" "0 \<notin> set (expand_from genv st2 d name2 ds)"
        using ex_step_clean [OF assms(1) _ step2] less Cons d by simp_all
      then show ?thesis
        using a step step2 unfolding Cons d by (subst expand_from.simps) (auto split: prod.splits if_splits)
    qed
  qed (simp add: expand_from.simps)
qed

text \<open>The expansion stays in its buffer and is the text cut to what fits before the terminator.\<close>

lemma process_macros_has:
  assumes "has_str m p s" and "length m \<le> CBSIZE" and "length out = CBSIZE" and "clean_vars genv"
  shows "\<exists>out'. process_macros genv m p out = Some out' \<and> length out' = CBSIZE \<and>
    has_str out' 0 (take (CBSIZE - 1) (expand genv s))"
proof -
  let ?s = "\<lparr>mac_state = 0, mac_prev = 0, mac_varname_start = 0, mac_output = out, mac_opos = 0,
    mac_outputcnt = CBSIZE\<rparr>"
  let ?e = "expand genv s"
  have "mac_rel m p ?s 0 [] []" using assms(3) by (simp add: mac_rel_def mac_text_def)
  from mac_loop_text [OF assms(1) this assms(2), of genv] obtain t where
    t: "mac_loop genv m p (length s) ?s = Some t" "mac_text t ?e" by (auto simp: expand_def)
  have "0 \<notin> set s" using assms(1) by (simp add: has_str_def)
  then have nz: "0 \<notin> set ?e" unfolding expand_def by (rule expand_from_clean [OF assms(4)])
  have l: "length (mac_output t) = CBSIZE" "mac_outputcnt t = CBSIZE - mac_opos t"
    "take (mac_opos t) (mac_output t) = take CBSIZE ?e" "mac_opos t = length (take CBSIZE ?e)"
    using t(2) unfolding mac_text_def by blast+
  then have lo: "mac_opos t = min CBSIZE (length ?e)" by (simp add: min.commute)
  let ?k = "min (CBSIZE - 1) (length ?e)"
  let ?out = "(mac_output t)[?k := 0]"
  have k: "?k < CBSIZE" by (simp add: CBSIZE_def min_def)
  have "take ?k (mac_output t) = take ?k (take (mac_opos t) (mac_output t))"
    using lo by (simp add: min_def)
  also have "\<dots> = take (CBSIZE - 1) ?e" unfolding l(3) by (simp add: min_def)
  finally have "take ?k ?out = take (CBSIZE - 1) ?e" by simp
  then have "has_str ?out 0 (take (CBSIZE - 1) ?e)"
    using l(1) k nz by (auto simp: has_str_def min_def dest: in_set_takeD)
  moreover have kk: "?k = (if mac_outputcnt t \<noteq> 0 then mac_opos t else mac_opos t - 1)"
    using l(2) lo by (auto simp: CBSIZE_def min_def)
  have "process_macros genv m p out = Some ?out"
    using t(1) l(1) k strlen_has [OF assms(1)] unfolding kk
    by (cases "mac_outputcnt t = 0") (simp_all add: process_macros_def)
  ultimately show ?thesis using l(1) by simp
qed

section \<open>Commands\<close>

text \<open>The part of a line up to a separator, and the commands of a line.\<close>

fun seg_len :: "bool \<Rightarrow> byte \<Rightarrow> bool \<Rightarrow> byte list \<Rightarrow> nat" where
  "seg_len first prev inq [] = 0"
| "seg_len first prev inq (c # cs) =
     (let inq = (if c = 39 \<and> prev \<noteq> 92 then \<not> inq else inq) in
      if \<not> inq \<and> c = 59 \<and> \<not> first \<and> prev \<noteq> 92 then 0 else Suc (seg_len False c inq cs))"

lemma seg_len_le: "seg_len first prev inq s \<le> length s"
  by (induction first prev inq s rule: seg_len.induct) (auto simp: Let_def)

lemma seg_len_pos: "s \<noteq> [] \<Longrightarrow> 0 < seg_len True prev inq s"
  by (cases s) (auto simp: Let_def)

function commands :: "byte list \<Rightarrow> byte list list" where
  "commands s =
     (if s = [] then []
      else let n = seg_len True 0 False s in take n s # commands (drop (n + 1) s))"
  by pat_completeness auto
termination by (relation "measure length") auto

declare commands.simps [simp del]

lemma find_sep_has:
  assumes "has_str m sep s" and "str \<le> sep" and "s \<noteq> [] \<longrightarrow> sep = 0 \<longrightarrow> hd s \<noteq> 39"
    and "0 < sep \<longrightarrow> m ! (sep - 1) = prev" and "sep = 0 \<longrightarrow> prev = 0"
  shows "find_sep m str sep inq = Some (sep + seg_len (sep = str) prev inq s)"
  using assms
proof (induction s arbitrary: sep prev inq)
  case Nil
  then show ?case by (subst find_sep.simps) (simp add: has_str_Nil)
next
  case (Cons c s)
  have h: "sep < length m" "m ! sep = c" "c \<noteq> 0" "has_str m (sep + 1) s"
    using Cons.prems(1) by (simp_all add: has_str_Cons)
  let ?q = "if c = 39 \<and> prev \<noteq> 92 then \<not> inq else inq"
  have tog: "toggled m sep inq = ?q"
    using Cons.prems(3-5) h(2) by (cases "sep = 0") (auto simp: toggled_def)
  have ends: "ends_here m str sep ?q \<longleftrightarrow> \<not> ?q \<and> c = 59 \<and> sep \<noteq> str \<and> prev \<noteq> 92"
    using Cons.prems(2,4,5) h(2) by (cases "sep = 0") (auto simp: ends_here_def)
  have q0: "(m ! sep = 39 \<and> sep = 0) = False" "(m ! sep = 0) = False" using Cons.prems(3) h(2,3) by auto
  have ih: "find_sep m str (sep + 1) ?q = Some (sep + 1 + seg_len False c ?q s)"
    using Cons.IH [OF h(4), of c ?q] Cons.prems(2) h(2) by simp
  have "find_sep m str sep inq =
    (if ends_here m str sep ?q then Some sep else find_sep m str (sep + 1) ?q)"
    by (subst find_sep.simps) (simp only: h(1) q0 tog if_True if_False)
  then show ?case unfolding ends ih by (auto simp: Let_def)
qed

lemma next_token_has:
  assumes h: "has_str m str s" and s: "s \<noteq> []" "str = 0 \<longrightarrow> hd s \<noteq> 39" "0 < str \<longrightarrow> m ! (str - 1) = 0"
  shows "\<exists>m' nx. next_token m str = Some (m', nx) \<and> length m' = length m \<and> 0 < nx \<and>
    has_str m' str (take (seg_len True 0 False s) s) \<and> has_str m' nx (drop (seg_len True 0 False s + 1) s) \<and>
    (drop (seg_len True 0 False s + 1) s \<noteq> [] \<longrightarrow> m' ! (nx - 1) = 0)"
proof -
  let ?n = "seg_len True 0 False s"
  have f: "find_sep m str str False = Some (str + ?n)"
    using find_sep_has [OF h le_refl, of 0 False] s by simp
  have n: "0 < ?n" "?n \<le> length s" using seg_len_pos [OF s(1)] seg_len_le by auto
  have at: "has_str m (str + ?n) (drop ?n s)" by (rule has_str_drop [OF h n(2)])
  show ?thesis
  proof (cases "?n = length s")
    case True
    then have "m ! (str + ?n) = 0" using at by (simp add: has_str_Nil)
    then show ?thesis using f n at h True by (simp add: next_token_def)
  next
    case False
    then have lt: "?n < length s" using n(2) by simp
    then obtain d ds where d: "drop ?n s = d # ds" by (cases "drop ?n s") auto
    have h2: "m ! (str + ?n) \<noteq> 0" "str + ?n < length m" "has_str m (str + ?n + 1) ds"
      using at d by (simp_all add: has_str_Cons)
    have ds: "drop (?n + 1) s = ds" using d by (metis add.commute drop_drop drop_Suc_Cons drop_0 One_nat_def)
    have "has_str (m[str + ?n := 0]) (str + ?n + 1) ds" using h2(3) by (auto simp: has_str_def)
    then show ?thesis
      using f n h2 ds has_str_update_end [OF h lt] by (simp add: next_token_def)
  qed
qed

text \<open>The meaning of one command on strings, and of a line: the world, the flag, whether the line may
  be repeated and the error code go from command to command.\<close>

record 'w run_st =
  r_world :: 'w
  r_flag :: int
  r_repeatable :: int
  r_rc :: int

definition abs_token ::
  "('h, 'w) shell_env \<Rightarrow> byte list \<Rightarrow> 'w run_st \<Rightarrow> ('w run_st \<times> bool) option" where
  "abs_token env t a =
     (let args = take MAXARGS (words_of (take (CBSIZE - 1) (expand (sh_getenv env (r_world a)) t)));
          fail = a\<lparr>r_rc := - 1\<rparr>
      in if args = [] then Some (fail, False)
         else (case find_spec (stem (hd args)) (map cmd_name (sh_cmds env)) of
                 None \<Rightarrow> Some (fail, False)
               | Some k \<Rightarrow>
                   (let e = sh_cmds env ! k;
                        bootd = sh_is_bootd env (cmd_fn e)
                    in if cmd_maxargs e < int (length args) \<or> bootd \<and> r_flag a AND 2 \<noteq> 0
                       then Some (fail, False)
                       else do {
                         let flag = (if bootd then r_flag a OR 2 else r_flag a);
                         (w, r) \<leftarrow> sh_exec env (cmd_fn e) flag args (r_world a);
                         Some (a\<lparr>r_world := w, r_flag := flag, r_rc := (if r \<noteq> 0 then - 1 else r_rc a),
                           r_repeatable := r_repeatable a AND cmd_repeatable e\<rparr>, sh_had_ctrlc env w)
                       })))"

fun abs_run :: "('h, 'w) shell_env \<Rightarrow> byte list list \<Rightarrow> 'w run_st \<Rightarrow> ('w \<times> int) option" where
  "abs_run env [] a = Some (r_world a, if r_rc a \<noteq> 0 then r_rc a else r_repeatable a)"
| "abs_run env (t # ts) a =
     (case abs_token env t a of
        None \<Rightarrow> None
      | Some (a, stopped) \<Rightarrow> if stopped then Some (r_world a, - 1) else abs_run env ts a)"

text \<open>What the model's parameters keep: tables and values are C strings.\<close>

definition env_ok :: "('h, 'w) shell_env \<Rightarrow> bool" where
  "env_ok env \<longleftrightarrow> (\<forall>w. clean_vars (sh_getenv env w)) \<and> (\<forall>e \<in> set (sh_cmds env). 0 \<notin> set (cmd_name e))"

definition to_run :: "'w shell_st \<Rightarrow> 'w run_st" where
  "to_run s = \<lparr>r_world = sh_world s, r_flag = sh_flag s, r_repeatable = sh_repeatable s, r_rc = sh_rc s\<rparr>"

definition bufs_ok :: "'w shell_st \<Rightarrow> bool" where
  "bufs_ok s \<longleftrightarrow> length (sh_finaltoken s) = CBSIZE \<and> length (sh_argv s) = MAXARGS + 1"

lemma arg_strings_has:
  assumes "length ps = length ws" and "\<forall>i < length ws. \<exists>p. ps ! i = Some p \<and> has_str m p (ws ! i)"
  shows "arg_strings m ps = Some ws"
  using assms
proof (induction ws arbitrary: ps)
  case Nil
  then show ?case by (simp add: arg_strings_def)
next
  case (Cons w ws)
  then obtain q qs where ps: "ps = q # qs" by (cases ps) auto
  obtain p where p: "q = Some p" "has_str m p w" using Cons.prems(2) ps by (metis length_greater_0_conv list.discI nth_Cons_0)
  have "\<forall>i < length ws. \<exists>p. qs ! i = Some p \<and> has_str m p (ws ! i)"
    using Cons.prems(2) ps by (metis Suc_less_eq length_Cons nth_Cons_Suc)
  then have "arg_strings m qs = Some ws" using Cons.IH [of qs] Cons.prems(1) ps by simp
  moreover have "take (p + length w - p) (drop p m) = w" using p(2) by (simp add: has_str_def)
  ultimately show ?case using p ps str_end_has [OF p(2)] by (simp add: arg_strings_def)
qed

lemma words_no_zero: "0 \<notin> set s \<Longrightarrow> w \<in> set (words_of s) \<Longrightarrow> 0 \<notin> set w"
proof (induction s rule: words_of.induct)
  case (1 s)
  show ?case
  proof (cases "dropWhile blank s = []")
    case True
    then show ?thesis using 1(3) by (simp add: words_of.simps)
  next
    case False
    let ?t = "dropWhile blank s"
    have z: "0 \<notin> set ?t" using 1(2) by (auto dest: set_dropWhileD)
    then have "0 \<notin> set (dropWhile (\<lambda>c. \<not> blank c) ?t)" "0 \<notin> set (takeWhile (\<lambda>c. \<not> blank c) ?t)"
      by (auto dest: set_dropWhileD set_takeWhileD)
    moreover have "words_of s = takeWhile (\<lambda>c. \<not> blank c) ?t # words_of (dropWhile (\<lambda>c. \<not> blank c) ?t)"
      using False by (subst words_of.simps) (simp add: Let_def)
    ultimately show ?thesis using 1(1) [OF refl False] 1(3) by auto
  qed
qed

lemma run_token_abs:
  assumes env: "env_ok env" and h: "has_str m p t" and m: "length m \<le> CBSIZE" and b: "bufs_ok s"
  shows "case abs_token env t (to_run s) of
      None \<Rightarrow> run_token env m p s = None
    | Some (a, stopped) \<Rightarrow> \<exists>s'. run_token env m p s = Some (s', stopped) \<and> to_run s' = a \<and> bufs_ok s'"
proof -
  have clean: "clean_vars (sh_getenv env (sh_world s))" and names: "\<forall>e \<in> set (sh_cmds env). 0 \<notin> set (cmd_name e)"
    using env by (simp_all add: env_ok_def)
  have l: "length (sh_finaltoken s) = CBSIZE" "length (sh_argv s) = MAXARGS + 1" using b by (simp_all add: bufs_ok_def)
  let ?x = "take (CBSIZE - 1) (expand (sh_getenv env (sh_world s)) t)"
  from process_macros_has [OF h m l(1) clean] obtain fin where
    fin: "process_macros (sh_getenv env (sh_world s)) m p (sh_finaltoken s) = Some fin" "length fin = CBSIZE"
    "has_str fin 0 ?x" by blast
  from parse_line_has [OF fin(3) l(2)] obtain fin2 argv where
    pl: "parse_line fin 0 (sh_argv s) = Some (fin2, argv, min MAXARGS (length (words_of ?x)))"
    "length fin2 = length fin" "length argv = MAXARGS + 1"
    "\<forall>i < min MAXARGS (length (words_of ?x)). \<exists>p. argv ! i = Some p \<and> has_str fin2 p (words_of ?x ! i)" by blast
  let ?n = "min MAXARGS (length (words_of ?x))"
  let ?args = "take MAXARGS (words_of ?x)"
  have args: "arg_strings fin2 (take ?n argv) = Some ?args"
    by (rule arg_strings_has) (use pl(3,4) in \<open>auto simp: min_def\<close>)
  have n0: "?n = 0 \<longleftrightarrow> ?args = []" by (auto simp: MAXARGS_def min_def)
  have nl: "length ?args = ?n" by simp
  have "0 \<notin> set ?x" using fin(3) by (simp add: has_str_def)
  then have nz: "?args \<noteq> [] \<Longrightarrow> 0 \<notin> set (hd ?args)"
    using words_no_zero by (metis hd_in_set in_set_takeD)
  obtain n where n: "n = ?n" by simp
  obtain args where a: "args = ?args" by simp
  note facts = fin(1) pl(1) args n0 nl nz
  note facts' = facts [folded n, folded a]
  have ab: "abs_token env t (to_run s) =
    (let fail = (to_run s)\<lparr>r_rc := - 1\<rparr> in
     if args = [] then Some (fail, False)
     else (case find_spec (stem (hd args)) (map cmd_name (sh_cmds env)) of
             None \<Rightarrow> Some (fail, False)
           | Some k \<Rightarrow>
               (let e = sh_cmds env ! k;
                    bootd = sh_is_bootd env (cmd_fn e)
                in if cmd_maxargs e < int (length args) \<or> bootd \<and> sh_flag s AND 2 \<noteq> 0
                   then Some (fail, False)
                   else do {
                     let flag = (if bootd then sh_flag s OR 2 else sh_flag s);
                     (w, r) \<leftarrow> sh_exec env (cmd_fn e) flag args (sh_world s);
                     Some ((to_run s)\<lparr>r_world := w, r_flag := flag, r_rc := (if r \<noteq> 0 then - 1 else sh_rc s),
                       r_repeatable := sh_repeatable s AND cmd_repeatable e\<rparr>, sh_had_ctrlc env w)
                   })))"
    unfolding abs_token_def a by (simp only: to_run_def run_st.simps Let_def)
  show ?thesis
  proof (cases "args = []")
    case True
    then show ?thesis using facts' fin(2) pl(2,3)
      unfolding ab run_token_def Let_def by (auto simp: to_run_def bufs_ok_def)
  next
    case False
    have f: "find_cmd_tbl (hd args) (sh_cmds env) = Some (find_spec (stem (hd args)) (map cmd_name (sh_cmds env)))"
      using find_scan_spec [OF facts'(6) [OF False] names] cmd_len_stem [OF facts'(6) [OF False]]
      by (simp add: find_cmd_tbl_def scan_find_spec)
    show ?thesis
      using facts' False f fin(2) pl(2,3)
      unfolding ab run_token_def Let_def
      by (auto simp: to_run_def bufs_ok_def bind_eq_None_conv
          split: option.splits prod.splits Option.bind_splits)
  qed
qed

text \<open>The loop over the commands, for a line behind the offset \<open>str\<close>.\<close>

lemma run_tokens_abs:
  assumes "env_ok env" and "has_str m str s" and "length m \<le> CBSIZE" and "bufs_ok st"
    and "str = 0 \<longrightarrow> s = [] \<or> hd s \<noteq> 39" and "0 < str \<longrightarrow> s \<noteq> [] \<longrightarrow> m ! (str - 1) = 0"
  shows "run_tokens env m str st = abs_run env (commands s) (to_run st)"
  using assms(2-)
proof (induction s arbitrary: m str st rule: commands.induct)
  case (1 s)
  note h = 1(2) and m = 1(3) and b = 1(4)
  show ?case
  proof (cases "s = []")
    case True
    then show ?thesis using h
      by (simp add: has_str_Nil run_tokens.simps commands.simps to_run_def)
  next
    case False
    let ?n = "seg_len True 0 False s"
    from next_token_has [OF h False] obtain m' nx where t: "next_token m str = Some (m', nx)"
      "length m' = length m" "0 < nx" "has_str m' str (take ?n s)" "has_str m' nx (drop (?n + 1) s)"
      "drop (?n + 1) s \<noteq> [] \<longrightarrow> m' ! (nx - 1) = 0"
      using 1(5,6) False by blast
    have c: "str < length m" "m ! str \<noteq> 0" using h False by (cases s; simp add: has_str_Cons)+
    have m': "length m' \<le> CBSIZE" using m t(2) by simp
    have cs: "commands s = take ?n s # commands (drop (?n + 1) s)" using False by (subst commands.simps) (simp add: Let_def)
    have rt: "run_tokens env m str st =
        (case run_token env m' str st of None \<Rightarrow> None
         | Some (s, stopped) \<Rightarrow> if stopped then Some (sh_world s, - 1) else run_tokens env m' nx s)"
      using c t(1) by (subst run_tokens.simps) simp
    show ?thesis
    proof (cases "abs_token env (take ?n s) (to_run st)")
      case None
      then show ?thesis using run_token_abs [OF assms(1) t(4) m' b] by (simp add: rt cs)
    next
      case (Some x)
      obtain a stopped where x: "x = (a, stopped)" by (cases x)
      obtain st' where st': "run_token env m' str st = Some (st', stopped)" "to_run st' = a" "bufs_ok st'"
        using run_token_abs [OF assms(1) t(4) m' b] Some x by auto
      have "run_tokens env m' nx st' = abs_run env (commands (drop (?n + 1) s)) (to_run st')"
        using 1(1) [OF False refl t(5) m' st'(3)] t(3,6) by simp
      moreover have "sh_world st' = r_world a" using st'(2) by (auto simp: to_run_def)
      ultimately show ?thesis using st' Some x by (simp add: rt cs)
    qed
  qed
qed

lemma run_command_abs:
  assumes "env_ok env" and "length cmdbuf = CBSIZE" and "length finaltoken = CBSIZE"
    and "length argv = MAXARGS + 1"
    and "cmd \<noteq> []" and "length cmd < CBSIZE" and "0 \<notin> set cmd" and "hd cmd \<noteq> 39"
  shows "run_command env cmdbuf finaltoken argv (Some cmd) w flag =
    abs_run env (commands cmd)
      \<lparr>r_world = sh_clear_ctrlc env w, r_flag = flag, r_repeatable = 1, r_rc = 0\<rparr>"
proof -
  let ?m = "cmd @ 0 # drop (length cmd + 1) cmdbuf"
  have wrn: "wrn cmdbuf 0 (cmd @ [0]) = Some ?m" using assms(2,6) by (simp add: wrn_eq_Some)
  have h: "has_str ?m 0 cmd" using assms(7) by (simp add: has_str_def)
  have l: "length ?m \<le> CBSIZE" using assms(2,6) by simp
  show ?thesis
    using assms(5,6,8) wrn
      run_tokens_abs [OF assms(1) h l, of "\<lparr>sh_finaltoken = finaltoken, sh_argv = argv,
        sh_world = sh_clear_ctrlc env w, sh_flag = flag, sh_repeatable = 1, sh_rc = 0\<rparr>"] assms(3,4)
    by (simp add: run_command_def bufs_ok_def to_run_def)
qed

end
