(* ===== verification/ShellProps.thy ===== *)
theory ShellProps
  imports ShellCorrect
begin

text \<open>
  The properties of the command parser, with a small instance of its parameters: the world is the list
  of the commands run so far with their arguments.
\<close>

section \<open>An instance\<close>

text \<open>Four commands; the handler 0 succeeds, 1 fails, 2 is the one that boots. The variable \<open>v\<close> is
  \<open>xy z\<close>.\<close>

definition toy_exec :: "nat \<Rightarrow> int \<Rightarrow> byte list list \<Rightarrow> byte list list list \<Rightarrow> (byte list list list \<times> int) option" where
  "toy_exec h flag args w = Some (w @ [args], if h = 1 then 1 else 0)"

definition toy_getenv :: "byte list list list \<Rightarrow> byte list \<Rightarrow> byte list option" where
  "toy_getenv w name = (if name = txt_bytes ''v'' then Some (txt_bytes ''xy z'') else None)"

definition toy_cmd :: "char list \<Rightarrow> int \<Rightarrow> int \<Rightarrow> nat \<Rightarrow> nat cmd_tbl" where
  "toy_cmd name maxargs repeatable h =
     \<lparr>cmd_name = txt_bytes name, cmd_maxargs = maxargs, cmd_repeatable = repeatable, cmd_fn = h,
      cmd_usage_text = None, cmd_help_text = None\<rparr>"

definition toy_env :: "(nat, byte list list list) shell_env" where
  "toy_env = \<lparr>sh_exec = toy_exec, sh_getenv = toy_getenv, sh_had_ctrlc = (\<lambda>w. False),
     sh_clear_ctrlc = id, sh_is_bootd = (\<lambda>h. h = 2),
     sh_cmds = [toy_cmd ''echo'' 16 1 0, toy_cmd ''false'' 1 0 1, toy_cmd ''bootd'' 1 1 2]\<rparr>"

lemma toy_env_ok: "env_ok toy_env"
  by (auto simp: env_ok_def toy_env_def clean_vars_def toy_getenv_def toy_cmd_def txt_bytes_def)

section \<open>Words and variables\<close>

text \<open>Splitting a line: the result is the number of words, at most \<open>MAXARGS\<close>, and the
  pointers stored in \<open>argv\<close> are strings that are the first words of the line in order.
  With fewer than \<open>MAXARGS\<close> words the pointer behind the last one is null; a line with
  more words is cut, and \<open>argv[MAXARGS]\<close> keeps what it held, so it is not a null pointer.\<close>

theorem parse_line_words:
  assumes "has_str m line s" and "length argv = MAXARGS + 1"
  shows "\<exists>m' argv'. parse_line m line argv = Some (m', argv', min MAXARGS (length (words_of s))) \<and>
    arg_strings m' (take (min MAXARGS (length (words_of s))) argv') = Some (take MAXARGS (words_of s)) \<and>
    length m' = length m \<and> length argv' = MAXARGS + 1 \<and>
    (length (words_of s) < MAXARGS \<longrightarrow> argv' ! length (words_of s) = None) \<and>
    (MAXARGS < length (words_of s) \<longrightarrow> argv' ! MAXARGS = argv ! MAXARGS)"
proof -
  let ?n = "min MAXARGS (length (words_of s))"
  from parse_line_has [OF assms] obtain m' argv' where
    p: "parse_line m line argv = Some (m', argv', ?n)" "length m' = length m" "length argv' = MAXARGS + 1"
    "\<forall>i < ?n. \<exists>p. argv' ! i = Some p \<and> has_str m' p (words_of s ! i)"
    "length (words_of s) < MAXARGS \<longrightarrow> argv' ! length (words_of s) = None"
    "MAXARGS < length (words_of s) \<longrightarrow> argv' ! MAXARGS = argv ! MAXARGS" by blast
  have "arg_strings m' (take ?n argv') = Some (take MAXARGS (words_of s))"
    by (rule arg_strings_has) (use p(3,4) in \<open>auto simp: min_def\<close>)
  then show ?thesis using p by blast
qed

theorem parse_line_words_witness:
  "\<exists>m' argv'. parse_line [32, 97, 98, 9, 99, 32, 0] 0 (replicate 17 (Some 5)) = Some (m', argv', 2) \<and>
    arg_strings m' (take 2 argv') = Some [[97, 98], [99]] \<and> argv' ! 2 = None"
proof -
  have w: "words_of [32, 97, 98, 9, 99, 32] = [[97, 98], [99 :: byte]]"
    by (simp add: words_of.simps blank_def)
  have "has_str [32, 97, 98, 9, 99, 32, 0] 0 [32, 97, 98, 9, 99, 32 :: byte]" by (simp add: has_str_def)
  from parse_line_words [OF this, of "replicate 17 (Some 5)"] show ?thesis
    unfolding w by (simp add: MAXARGS_def min_def) (auto simp: numeral_2_eq_2)
qed

text \<open>C34. Expanding a line of any length: the automaton never leaves its buffers, and the output is the
  expansion of the line by the meaning of quotes, backslashes and \<open>${name}\<close>, cut to what
  fits before the terminator. The name of a variable has fewer characters than its buffer because the
  line itself is not longer.\<close>

theorem process_macros_expands:
  assumes "has_str m p s" and "length m \<le> CBSIZE" and "length out = CBSIZE" and "clean_vars genv"
  shows "\<exists>out'. process_macros genv m p out = Some out' \<and> length out' = CBSIZE \<and>
    has_str out' 0 (take (CBSIZE - 1) (expand genv s))"
  by (rule process_macros_has [OF assms])

theorem process_macros_expands_witness:
  "\<exists>out'. process_macros (toy_getenv []) (txt_bytes ''a${v}b$'' @ [0]) 0 (replicate 256 7) = Some out' \<and>
    length out' = 256 \<and> has_str out' 0 (txt_bytes ''axy zb'')"
proof -
  let ?s = "txt_bytes ''a${v}b$''"
  have e: "expand (toy_getenv []) ?s = txt_bytes ''axy zb''" by code_simp
  have h: "has_str (?s @ [0]) 0 ?s" by (simp add: has_str_def txt_bytes_def nth_append)
  have "clean_vars (toy_getenv [])" by (simp add: clean_vars_def toy_getenv_def txt_bytes_def)
  from process_macros_expands [OF h _ _ this, of "replicate 256 7"] show ?thesis
    unfolding e by (simp add: CBSIZE_def txt_bytes_def)
qed

section \<open>Lines\<close>

text \<open>C2. Running a line, on buffers and pointers, does what running its commands one after the other on
  strings does: a command is expanded, split into words, looked up by the unique-prefix rule and
  called with its words; an unknown command, one with too many words or an empty one makes the result
  \<open>-1\<close> but does not stop the line, and neither does a command that fails. The line must
  not begin with a quote, because the code then reads the byte before its buffer.\<close>

theorem run_command_runs:
  assumes "env_ok env" and "length cmdbuf = CBSIZE" and "length finaltoken = CBSIZE"
    and "length argv = MAXARGS + 1"
    and "cmd \<noteq> []" and "length cmd < CBSIZE" and "0 \<notin> set cmd" and "hd cmd \<noteq> 39"
  shows "run_command env cmdbuf finaltoken argv (Some cmd) w flag =
    abs_run env (commands cmd)
      \<lparr>r_world = sh_clear_ctrlc env w, r_flag = flag, r_repeatable = 1, r_rc = 0\<rparr>"
  by (rule run_command_abs [OF assms])

theorem run_command_runs_witness:
  "run_command toy_env (replicate 256 1) (replicate 256 2) (replicate 17 None)
     (Some (txt_bytes ''ec a${v};false;x;echo 1'')) [] 0 =
   Some ([[txt_bytes ''ec'', txt_bytes ''axy'', txt_bytes ''z''], [txt_bytes ''false''],
          [txt_bytes ''echo'', txt_bytes ''1'']], - 1)"
proof -
  let ?c = "txt_bytes ''ec a${v};false;x;echo 1''"
  have "length ?c < CBSIZE" "?c \<noteq> []" "0 \<notin> set ?c" "hd ?c \<noteq> 39" by (simp_all add: txt_bytes_def CBSIZE_def)
  from run_command_runs [OF toy_env_ok _ _ _ this(2,1,3,4), of "replicate 256 1" "replicate 256 2" "replicate 17 None" "[]" 0]
  have "run_command toy_env (replicate 256 1) (replicate 256 2) (replicate 17 None) (Some ?c) [] 0 =
    abs_run toy_env (commands ?c) \<lparr>r_world = [], r_flag = 0, r_repeatable = 1, r_rc = 0\<rparr>"
    by (simp add: CBSIZE_def MAXARGS_def toy_env_def)
  also have "commands ?c = [txt_bytes ''ec a${v}'', txt_bytes ''false'', txt_bytes ''x'', txt_bytes ''echo 1'']"
    by code_simp
  also have "abs_run toy_env \<dots> \<lparr>r_world = [], r_flag = 0, r_repeatable = 1, r_rc = 0\<rparr> =
    Some ([[txt_bytes ''ec'', txt_bytes ''axy'', txt_bytes ''z''], [txt_bytes ''false''],
          [txt_bytes ''echo'', txt_bytes ''1'']], - 1)"
    by code_simp
  finally show ?thesis .
qed

text \<open>Nothing else can stop a line: each of its loops ends.\<close>

lemma abs_token_returns:
  assumes "\<And>h flag args w. sh_exec env h flag args w \<noteq> None"
  shows "abs_token env t a \<noteq> None"
proof -
  have none: "sh_exec env h flag args w = None \<longleftrightarrow> False" for h flag args w using assms by simp
  show ?thesis
  proof
    assume "abs_token env t a = None"
    then show False
      unfolding abs_token_def Let_def
      using none by (simp only: bind_eq_None_conv split: if_split_asm option.split_asm prod.split_asm) simp_all
  qed
qed

lemma abs_run_returns:
  assumes "\<And>h flag args w. sh_exec env h flag args w \<noteq> None"
  shows "abs_run env ts a \<noteq> None"
proof (induction ts arbitrary: a)
  case (Cons t ts)
  obtain a' stopped where "abs_token env t a = Some (a', stopped)"
    using abs_token_returns [OF assms] by (metis not_None_eq surj_pair)
  then show ?case using Cons.IH by simp
qed simp

text \<open>A line that does not begin with a quote returns whenever its commands do, also when it is refused for its
  length.\<close>

theorem run_command_returns:
  assumes "env_ok env" and "length cmdbuf = CBSIZE" and "length finaltoken = CBSIZE"
    and "length argv = MAXARGS + 1" and "0 \<notin> set cmd" and "cmd \<noteq> [] \<longrightarrow> hd cmd \<noteq> 39"
    and "\<And>h flag args w. sh_exec env h flag args w \<noteq> None"
  shows "\<exists>w' r. run_command env cmdbuf finaltoken argv (Some cmd) w flag = Some (w', r)"
proof (cases "cmd = [] \<or> CBSIZE \<le> length cmd")
  case True
  then show ?thesis by (auto simp: run_command_def Let_def)
next
  case False
  then show ?thesis
    using run_command_abs [of env cmdbuf finaltoken argv cmd w flag] assms
      abs_run_returns [OF assms(7), of "commands cmd"] by auto
qed

theorem run_command_returns_witness:
  "\<exists>w' r. run_command toy_env (replicate 256 1) (replicate 256 2) (replicate 17 None)
     (Some (txt_bytes ''echo ;; bootd'')) [] 2 = Some (w', r)"
  by (rule run_command_returns [OF toy_env_ok])
    (simp_all add: CBSIZE_def MAXARGS_def txt_bytes_def toy_env_def toy_exec_def)

text \<open>While the flag \<open>CMD_FLAG_BOOTD\<close> is set, what \<open>do_bootd\<close> would do is of no effect.\<close>

definition with_exec ::
  "('h, 'w) shell_env \<Rightarrow> ('h \<Rightarrow> int \<Rightarrow> byte list list \<Rightarrow> 'w \<Rightarrow> ('w \<times> int) option) \<Rightarrow> ('h, 'w) shell_env" where
  "with_exec env g = env\<lparr>sh_exec := g\<rparr>"

lemma run_token_bootd:
  assumes "\<And>h. \<not> sh_is_bootd env h \<Longrightarrow> g h = sh_exec env h" and "sh_flag s AND 2 \<noteq> 0"
  shows "run_token (with_exec env g) m p s = run_token env m p s"
  unfolding run_token_def with_exec_def Let_def
  using assms by (intro Option.bind_cong refl) (auto intro!: Option.bind_cong split: option.split)

lemma run_token_flag:
  assumes "run_token env m p s = Some (s', stopped)" and "sh_flag s AND 2 \<noteq> 0"
  shows "sh_flag s' = sh_flag s"
  using assms unfolding run_token_def Let_def
  apply (clarsimp simp: bind_eq_Some_conv)
  apply (split if_split_asm, clarsimp)
  apply (clarsimp simp: bind_eq_Some_conv)
  apply (split option.split_asm, clarsimp)
  apply (split if_split_asm, clarsimp)+
  apply (auto simp: bind_eq_Some_conv)
  done

lemma run_tokens_bootd:
  assumes "\<And>h. \<not> sh_is_bootd env h \<Longrightarrow> g h = sh_exec env h" and "sh_flag s AND 2 \<noteq> 0"
  shows "run_tokens (with_exec env g) m p s = run_tokens env m p s"
  using assms(2)
proof (induction "length m - p" arbitrary: m p s rule: less_induct)
  case less
  note bootd = run_token_bootd [OF assms(1) less(2)]
  have rec: "run_tokens (with_exec env g) m' nx s' = run_tokens env m' nx s'"
    if "next_token m p = Some (m', nx)" "m ! p \<noteq> 0" "run_token env m' p s = Some (s', st)" for m' nx s' st
  proof -
    have "length m' - nx < length m - p" using next_token_gt [OF that(1,2)] by auto
    then show ?thesis using less(1) run_token_flag [OF that(3) less(2)] less(2) by simp
  qed
  show ?case
    by (subst (1 2) run_tokens.simps)
      (auto simp: bootd rec split: option.split)
qed

text \<open>While \<open>CMD_FLAG_BOOTD\<close> is set, \<open>do_bootd\<close> is never called from a line, so
  what it would do is of no effect on the result.\<close>

theorem run_command_no_nested_bootd:
  assumes "\<And>h. \<not> sh_is_bootd env h \<Longrightarrow> g h = sh_exec env h" and "flag AND 2 \<noteq> 0"
  shows "run_command (with_exec env g) cmdbuf finaltoken argv cmd w flag =
    run_command env cmdbuf finaltoken argv cmd w flag"
proof -
  have "sh_clear_ctrlc (with_exec env g) = sh_clear_ctrlc env" by (simp add: with_exec_def)
  then show ?thesis
    using run_tokens_bootd [of env g, OF assms(1)] assms(2)
    by (cases cmd) (auto simp: run_command_def Let_def intro!: Option.bind_cong)
qed

theorem run_command_no_nested_bootd_witness:
  "run_command (with_exec toy_env (toy_exec (2 := \<lambda>flag args w. None)))
     (replicate 256 1) (replicate 256 2) (replicate 17 None) (Some (txt_bytes ''bootd'')) [] 2 =
   run_command toy_env (replicate 256 1) (replicate 256 2) (replicate 17 None) (Some (txt_bytes ''bootd'')) [] 2"
  by (rule run_command_no_nested_bootd) (simp_all add: toy_env_def)

end

