(* ===== verification/Fdisk.thy ===== *)
theory Fdisk
  imports Command "HOL-Library.Signed_Division"
begin

text \<open>
  The partitioning command of SD cards and eMMC, \<^verbatim>\<open>common/cmd_mmc_fdisk.c\<close>. A C \<open>int\<close> is
  the 32-bit word of its two's complement; signed comparison and division read it by \<open>sint\<close>. A
  division by zero is \<open>None\<close>, and so is a value read from a variable that was never set. The card
  driver is a parameter: the geometry of a device, reading and writing one block.
\<close>

definition BLOCK_END :: u32 where "BLOCK_END = 0xFFFFFFFF"
definition TEN_MB :: u32 where "TEN_MB = 10 * 1024 * 1024"
definition THREE_HUNDRED_MB :: u32 where "THREE_HUNDRED_MB = 300 * 1024 * 1024"
definition ONE_GB :: u32 where "ONE_GB = 1024 * 1024 * 1024"
definition BLOCKS_8_4GB :: u32 where "BLOCKS_8_4GB = 1023 * 254 * 63"
definition DISK_START :: u32 where "DISK_START = 16 * 1024 * 1024"

definition CHS_MODE :: u32 where "CHS_MODE = 0"
definition LBA_MODE :: u32 where "LBA_MODE = (if CHS_MODE = 0 then 1 else 0)"

text \<open>Division and remainder of \<open>int\<close> and of \<open>unsigned int\<close>.\<close>

definition idiv :: "u32 \<Rightarrow> u32 \<Rightarrow> u32 option" where
  "idiv a b = (if b = 0 then None else Some (word_of_int (sint a sdiv sint b)))"

definition imod :: "u32 \<Rightarrow> u32 \<Rightarrow> u32 option" where
  "imod a b = (if b = 0 then None else Some (word_of_int (sint a smod sint b)))"

definition udiv :: "u32 \<Rightarrow> u32 \<Rightarrow> u32 option" where
  "udiv a b = (if b = 0 then None else Some (a div b))"

definition umod :: "u32 \<Rightarrow> u32 \<Rightarrow> u32 option" where
  "umod a b = (if b = 0 then None else Some (a mod b))"

record SDInfo =
  sd_C_start :: u32
  sd_H_start :: u32
  sd_S_start :: u32
  sd_C_end :: u32
  sd_H_end :: u32
  sd_S_end :: u32
  sd_available_block :: u32
  sd_unit :: u32
  sd_total_block_count :: u32
  sd_addr_mode :: u32

record PartitionInfo =
  pi_bootable :: byte
  pi_partitionId :: byte
  pi_C_start :: u32
  pi_H_start :: u32
  pi_S_start :: u32
  pi_C_end :: u32
  pi_H_end :: u32
  pi_S_end :: u32
  pi_block_start :: u32
  pi_block_count :: u32
  pi_block_end :: u32

definition calc_unit :: "u32 \<Rightarrow> SDInfo \<Rightarrow> u32 option" where
  "calc_unit len sdInfo =
     (if sd_addr_mode sdInfo = CHS_MODE
      then map_option (\<lambda>q. (q + 1) * sd_unit sdInfo) (udiv (len div 512) (sd_unit sdInfo))
      else Some (len div 512))"

section \<open>Entries of the partition table\<close>

definition encode_chs :: "u32 \<Rightarrow> u32 \<Rightarrow> u32 \<Rightarrow> byte list" where
  "encode_chs C H S = [ucast H, ucast (S + drop_bit 2 (C AND 0x300)), ucast (C AND 0xFF)]"

definition encode_partitionInfo :: "PartitionInfo \<Rightarrow> byte list" where
  "encode_partitionInfo p =
     [pi_bootable p] @ encode_chs (pi_C_start p) (pi_H_start p) (pi_S_start p) @
     [pi_partitionId p] @ encode_chs (pi_C_end p) (pi_H_end p) (pi_S_end p) @
     put_le32 (pi_block_start p) @ put_le32 (pi_block_count p)"

text \<open>The four fields that are set: bootable, identifier, first block and number of blocks.\<close>

definition decode_partitionInfo :: "mem \<Rightarrow> nat \<Rightarrow> (byte \<times> byte \<times> u32 \<times> u32) option" where
  "decode_partitionInfo m at = do {
     b \<leftarrow> rd m at;
     k \<leftarrow> rd m (at + 4);
     s \<leftarrow> rdn m (at + 8) 4;
     c \<leftarrow> rdn m (at + 12) 4;
     Some (b, k, get_le32 s, get_le32 c)
   }"

section \<open>Geometry\<close>

text \<open>One round of the search for the heads \<open>H\<close> and sectors \<open>S\<close> with the most cylinders.\<close>

definition chs_try :: "u32 \<Rightarrow> u32 \<Rightarrow> u32 \<Rightarrow> u32 \<times> SDInfo \<Rightarrow> (u32 \<times> SDInfo) option" where
  "chs_try block_count H S st = (case st of (diff_min, sdInfo) \<Rightarrow> do {
     C \<leftarrow> idiv block_count (H * S);
     if sint C \<le> 1023
     then (let diff = 1023 - C in
       if sint diff \<le> sint diff_min
       then Some (diff, sdInfo\<lparr>sd_C_end := C, sd_H_end := H, sd_S_end := S\<rparr>)
       else Some st)
     else Some st
   })"

definition chs_search :: "u32 \<Rightarrow> SDInfo \<Rightarrow> SDInfo option" where
  "chs_search block_count sdInfo = map_option snd
     (foreach [1..<256] (\<lambda>H. foreach [1..<64] (\<lambda>S. chs_try block_count (of_nat H) (of_nat S)))
       (1023, sdInfo))"

definition get_SDInfo :: "u32 \<Rightarrow> SDInfo \<Rightarrow> SDInfo option" where
  "get_SDInfo block_count sdInfo = do {
     let sdInfo = sdInfo\<lparr>sd_addr_mode := (if sint BLOCKS_8_4GB \<le> sint block_count then LBA_MODE else CHS_MODE)\<rparr>;
     sdInfo \<leftarrow> (if sd_addr_mode sdInfo = CHS_MODE then chs_search block_count sdInfo
                else Some (sdInfo\<lparr>sd_C_end := 1023, sd_H_end := 254, sd_S_end := 63\<rparr>));
     Some (sdInfo\<lparr>sd_C_start := 0, sd_H_start := 1, sd_S_start := 1, sd_total_block_count := block_count,
       sd_available_block := sd_C_end sdInfo * sd_H_end sdInfo * sd_S_end sdInfo,
       sd_unit := sd_H_end sdInfo * sd_S_end sdInfo\<rparr>)
   }"

section \<open>The partitions\<close>

definition make_partitionInfo :: "u32 \<Rightarrow> u32 \<Rightarrow> SDInfo \<Rightarrow> PartitionInfo \<Rightarrow> PartitionInfo option" where
  "make_partitionInfo LBA_start count sdInfo p =
     (let p = p\<lparr>pi_block_start := LBA_start\<rparr>;
          hs = sd_H_end sdInfo * sd_S_end sdInfo
      in if sd_addr_mode sdInfo = CHS_MODE
      then do {
        C \<leftarrow> idiv (pi_block_start p) hs;
        temp \<leftarrow> imod (pi_block_start p) hs;
        H \<leftarrow> udiv temp (sd_S_end sdInfo);
        S \<leftarrow> umod temp (sd_S_end sdInfo);
        let p = p\<lparr>pi_C_start := C, pi_H_start := H, pi_S_start := S + 1\<rparr>;
        if count = BLOCK_END
        then do {
          unit_10MB \<leftarrow> calc_unit TEN_MB sdInfo;
          let block_end = sd_C_end sdInfo * sd_H_end sdInfo * sd_S_end sdInfo - unit_10MB - 1;
          C \<leftarrow> idiv block_end (sd_unit sdInfo);
          Some (p\<lparr>pi_block_end := block_end, pi_block_count := block_end - pi_block_start p + 1,
            pi_C_end := C, pi_H_end := sd_H_end sdInfo - 1, pi_S_end := sd_S_end sdInfo\<rparr>)
        }
        else do {
          let block_end = pi_block_start p + count - 1;
          C \<leftarrow> idiv block_end (sd_unit sdInfo);
          temp \<leftarrow> imod block_end (sd_unit sdInfo);
          H \<leftarrow> udiv temp (sd_S_end sdInfo);
          S \<leftarrow> umod temp (sd_S_end sdInfo);
          Some (p\<lparr>pi_block_count := count, pi_block_end := block_end,
            pi_C_end := C, pi_H_end := H, pi_S_end := S + 1\<rparr>)
        }
      }
      else do {
        let p = p\<lparr>pi_C_start := 0, pi_H_start := 1, pi_S_start := 1, pi_C_end := 1023, pi_H_end := 254, pi_S_end := 63\<rparr>;
        if count = BLOCK_END
        then do {
          unit_10MB \<leftarrow> calc_unit TEN_MB sdInfo;
          let block_end = sd_total_block_count sdInfo - unit_10MB - 1;
          Some (p\<lparr>pi_block_end := block_end, pi_block_count := block_end - pi_block_start p + 1\<rparr>)
        }
        else Some (p\<lparr>pi_block_count := count, pi_block_end := pi_block_start p + count - 1\<rparr>)
      })"

text \<open>The size of a partition in blocks: a number of megabytes from the command line, whose product
  is cut to 32 bits when it is passed to \<open>calc_unit\<close>, or the default.\<close>

definition part_blocks :: "bool \<Rightarrow> byte list list \<Rightarrow> nat \<Rightarrow> u32 \<Rightarrow> SDInfo \<Rightarrow> u32 option" where
  "part_blocks flag argv k dflt sdInfo =
     (if flag then do {
        a \<leftarrow> rd argv k;
        (v, _) \<leftarrow> simple_strtoul (a @ [0]) 0 0;
        calc_unit (ucast ((ucast v :: u64) * 1024 * 1024)) sdInfo
      }
      else calc_unit dflt sdInfo)"

text \<open>What the array on the stack holds at entry is \<open>p\<close>, all zero at first in \<open>sdInfo\<close>.\<close>

definition sd_zero :: SDInfo where
  "sd_zero = \<lparr>sd_C_start = 0, sd_H_start = 0, sd_S_start = 0, sd_C_end = 0, sd_H_end = 0, sd_S_end = 0,
     sd_available_block = 0, sd_unit = 0, sd_total_block_count = 0, sd_addr_mode = 0\<rparr>"

definition make_mmc_partition ::
  "PartitionInfo \<Rightarrow> u32 \<Rightarrow> mem \<Rightarrow> bool \<Rightarrow> byte list list \<Rightarrow> mem option" where
  "make_mmc_partition p total_block_count mbr flag argv = do {
     sdInfo \<leftarrow> get_SDInfo total_block_count sd_zero;
     block_start \<leftarrow> calc_unit DISK_START sdInfo;
     block_offset \<leftarrow> part_blocks flag argv 3 ONE_GB sdInfo;
     p0 \<leftarrow> make_partitionInfo block_start block_offset sdInfo (p\<lparr>pi_bootable := 0, pi_partitionId := 0x83\<rparr>);
     let block_start = block_start + block_offset;
     tf \<leftarrow> (if flag then Some False
            else do { a \<leftarrow> rd argv 2; map_option (\<lambda>r. r = 0) (str_cmp a (txt_bytes ''1'')) });
     block_offset \<leftarrow> part_blocks flag argv 4 (if tf then THREE_HUNDRED_MB else ONE_GB) sdInfo;
     p1 \<leftarrow> make_partitionInfo block_start block_offset sdInfo (p\<lparr>pi_bootable := 0, pi_partitionId := 0x83\<rparr>);
     let block_start = block_start + block_offset;
     block_offset \<leftarrow> part_blocks flag argv 5 THREE_HUNDRED_MB sdInfo;
     p2 \<leftarrow> make_partitionInfo block_start block_offset sdInfo (p\<lparr>pi_bootable := 0, pi_partitionId := 0x83\<rparr>);
     let block_start = block_start + block_offset;
     p3 \<leftarrow> make_partitionInfo block_start BLOCK_END sdInfo (p\<lparr>pi_bootable := 0, pi_partitionId := 0x0C\<rparr>);
     mbr \<leftarrow> wrn mbr 0 (replicate 512 0);
     mbr \<leftarrow> wr mbr 510 0x55;
     mbr \<leftarrow> wr mbr 511 0xAA;
     mbr \<leftarrow> wrn mbr 0x1CE (encode_partitionInfo p0);
     mbr \<leftarrow> wrn mbr 0x1DE (encode_partitionInfo p1);
     mbr \<leftarrow> wrn mbr 0x1EE (encode_partitionInfo p2);
     wrn mbr 0x1BE (encode_partitionInfo p3)
   }"

section \<open>The command\<close>

text \<open>The capacity and block length of a device, and one block read or written; a failed read gives
  nothing.\<close>

record 'w mmc_ops =
  mmc_geometry :: "'w \<Rightarrow> u32 \<Rightarrow> (u32 \<times> u32) option"
  mmc_read :: "'w \<Rightarrow> u32 \<Rightarrow> u32 \<Rightarrow> mem option"
  mmc_write :: "'w \<Rightarrow> u32 \<Rightarrow> u32 \<Rightarrow> mem \<Rightarrow> 'w \<times> bool"

definition dev_number :: "byte list \<Rightarrow> u32 option" where
  "dev_number device_name = map_option fst (simple_strtoul (device_name @ [0]) 0 0)"

definition get_mmc_block_count :: "'w mmc_ops \<Rightarrow> 'w \<Rightarrow> byte list \<Rightarrow> u32 option" where
  "get_mmc_block_count ops w device_name = do {
     d \<leftarrow> dev_number device_name;
     (case mmc_geometry ops w d of
        None \<Rightarrow> Some (- 1)
      | Some (capacity, read_bl_len) \<Rightarrow> Some (capacity * (read_bl_len div 512)))
   }"

definition get_mmc_mbr :: "'w mmc_ops \<Rightarrow> 'w \<Rightarrow> byte list \<Rightarrow> mem option option" where
  "get_mmc_mbr ops w device_name = do {
     d \<leftarrow> dev_number device_name;
     (case mmc_geometry ops w d of None \<Rightarrow> Some None | Some g \<Rightarrow> Some (mmc_read ops w d 0))
   }"

definition put_mmc_mbr :: "'w mmc_ops \<Rightarrow> 'w \<Rightarrow> mem \<Rightarrow> byte list \<Rightarrow> ('w \<times> int) option" where
  "put_mmc_mbr ops w mbr device_name = do {
     d \<leftarrow> dev_number device_name;
     (case mmc_geometry ops w d of
        None \<Rightarrow> Some (w, - 1)
      | Some g \<Rightarrow> (case mmc_write ops w d 0 mbr of (w, ok) \<Rightarrow> Some (w, if ok then 0 else - 1)))
   }"

text \<open>The entry of a partition, or nothing when the result is \<open>-1\<close>.\<close>

definition get_mmc_part_info ::
  "'w mmc_ops \<Rightarrow> 'w \<Rightarrow> byte list \<Rightarrow> nat \<Rightarrow> (u32 \<times> u32 \<times> byte) option option" where
  "get_mmc_part_info ops w device_name part_num = do {
     r \<leftarrow> get_mmc_mbr ops w device_name;
     (case r of
        None \<Rightarrow> Some None
      | Some mbr \<Rightarrow>
          (if 1 \<le> part_num \<and> part_num \<le> 4
           then do {
             (b, k, s, c) \<leftarrow> decode_partitionInfo mbr (0x1BE + 16 * (part_num - 1));
             Some (Some (s, c, k))
           }
           else Some None))
   }"

text \<open>The lines printed: number, size in megabytes, first block, number of blocks, identifier. The
  results of the four calls are not looked at, so a call that failed leaves its entry unset.\<close>

definition print_line :: "nat \<Rightarrow> u32 \<times> u32 \<times> byte \<Rightarrow> (nat \<times> int \<times> u32 \<times> u32 \<times> byte) list" where
  "print_line k e = (case e of (s, c, t) \<Rightarrow>
     if s \<noteq> 0 \<and> c \<noteq> 0 then [(k, sint c sdiv 2048, s, c, t)] else [])"

definition print_mmc_part_info ::
  "'w mmc_ops \<Rightarrow> 'w \<Rightarrow> byte list list \<Rightarrow> (nat \<times> int \<times> u32 \<times> u32 \<times> byte) list option" where
  "print_mmc_part_info ops w argv = do {
     dev \<leftarrow> rd argv 2;
     r1 \<leftarrow> get_mmc_part_info ops w dev 1;
     r2 \<leftarrow> get_mmc_part_info ops w dev 2;
     r3 \<leftarrow> get_mmc_part_info ops w dev 3;
     r4 \<leftarrow> get_mmc_part_info ops w dev 4;
     e1 \<leftarrow> r1; e2 \<leftarrow> r2; e3 \<leftarrow> r3; e4 \<leftarrow> r4;
     Some (print_line 1 e1 @ print_line 2 e2 @ print_line 3 e3 @ print_line 4 e4)
   }"

text \<open>The world after the command, its result and the lines.\<close>

definition create_mmc_fdisk ::
  "'w mmc_ops \<Rightarrow> PartitionInfo \<Rightarrow> 'w \<Rightarrow> byte list list \<Rightarrow>
   ('w \<times> int \<times> (nat \<times> int \<times> u32 \<times> u32 \<times> byte) list) option" where
  "create_mmc_fdisk ops p w argv = do {
     dev \<leftarrow> rd argv 2;
     total \<leftarrow> get_mmc_block_count ops w dev;
     if sint total < 0 then Some (w, - 1, [])
     else do {
       mbr \<leftarrow> make_mmc_partition p total (replicate 512 0) (length argv = 6) argv;
       (w, rv) \<leftarrow> put_mmc_mbr ops w mbr dev;
       if rv \<noteq> 0 then Some (w, - 1, [])
       else do {
         ls \<leftarrow> print_mmc_part_info ops w argv;
         Some (w, 0, ls)
       }
     }
   }"

definition do_fdisk ::
  "'w mmc_ops \<Rightarrow> PartitionInfo \<Rightarrow> 'w \<Rightarrow> byte list list \<Rightarrow>
   ('w \<times> int \<times> (nat \<times> int \<times> u32 \<times> u32 \<times> byte) list) option" where
  "do_fdisk ops p w argv =
     (if length argv = 3 \<or> length argv = 6
      then do {
        c \<leftarrow> str_cmp (argv ! 1) (txt_bytes ''-c'');
        if c = 0 then create_mmc_fdisk ops p w argv
        else do {
          q \<leftarrow> str_cmp (argv ! 1) (txt_bytes ''-p'');
          if q = 0
          then do { ls \<leftarrow> print_mmc_part_info ops w argv; Some (w, 1, ls) }
          else Some (w, 0, [])
        }
      }
      else Some (w, 0, []))"

end
