(* ===== verification/FdiskCorrect.thy ===== *)
theory FdiskCorrect
  imports Fdisk CommandCorrect
begin

text \<open>
  What the partitioning command writes: four partitions one behind the other, from the end of the
  raw area up to ten megabytes before the end of the card.
\<close>

section \<open>Arithmetic on small numbers\<close>

lemma sint_small: "a < 2 ^ 31 \<Longrightarrow> sint (of_nat a :: u32) = int a"
  by (simp add: signed_of_nat signed_take_bit_int_eq_self)

lemma unat_small: "a < 2 ^ 32 \<Longrightarrow> unat (of_nat a :: u32) = a"
  by (simp add: unat_of_nat take_bit_nat_eq_self_iff)

lemma unat_lt: "unat (l :: u32) < 2 ^ 32"
  using unsigned_less [of l] by simp

lemma small_neq_0: "0 < a \<Longrightarrow> a < 2 ^ 32 \<Longrightarrow> (of_nat a :: u32) \<noteq> 0"
  using unat_small [of a] by (metis less_numeral_extra(3) unat_0)

lemma idiv_small: "a < 2 ^ 31 \<Longrightarrow> b < 2 ^ 31 \<Longrightarrow> 0 < b \<Longrightarrow> idiv (of_nat a) (of_nat b) = Some (of_nat (a div b))"
  using small_neq_0 [of b]
  by (simp add: idiv_def sint_small signed_divide_int_def sgn_if flip: of_nat_div)

lemma imod_small: "a < 2 ^ 31 \<Longrightarrow> b < 2 ^ 31 \<Longrightarrow> 0 < b \<Longrightarrow> imod (of_nat a) (of_nat b) = Some (of_nat (a mod b))"
  using small_neq_0 [of b]
  by (simp add: imod_def sint_small signed_modulo_int_def sgn_if flip: of_nat_mod)

lemma udiv_small: "a < 2 ^ 32 \<Longrightarrow> b < 2 ^ 32 \<Longrightarrow> 0 < b \<Longrightarrow> udiv (of_nat a) (of_nat b) = Some (of_nat (a div b))"
  using small_neq_0 [of b] by (simp add: udiv_def unat_small word_arith_nat_div)

lemma umod_small: "a < 2 ^ 32 \<Longrightarrow> b < 2 ^ 32 \<Longrightarrow> 0 < b \<Longrightarrow> umod (of_nat a) (of_nat b) = Some (of_nat (a mod b))"
  using small_neq_0 [of b] by (simp add: umod_def unat_small word_arith_nat_mod)

section \<open>Geometry\<close>

lemma foreach_ok:
  assumes "P s" and "\<And>i s. i \<in> set is \<Longrightarrow> P s \<Longrightarrow> \<exists>s'. f i s = Some s' \<and> P s'"
  shows "\<exists>s'. foreach is f s = Some s' \<and> P s'"
  using assms
proof (induction "is" arbitrary: s)
  case (Cons i "is")
  obtain s' where "f i s = Some s'" "P s'" using Cons.prems(2) [of i s] Cons.prems(1) by auto
  then show ?case using Cons.IH [of s'] Cons.prems(2) by simp
qed simp

text \<open>A geometry with \<open>h\<close> heads and \<open>s\<close> sectors, and the search before its first hit.\<close>

definition chs_of :: "nat \<Rightarrow> nat \<Rightarrow> nat \<Rightarrow> SDInfo \<Rightarrow> bool" where
  "chs_of t h s sd \<longleftrightarrow> 0 < h \<and> h < 256 \<and> 0 < s \<and> s < 64 \<and> t div (h * s) \<le> 1023 \<and>
     sd_C_end sd = of_nat (t div (h * s)) \<and> sd_H_end sd = of_nat h \<and> sd_S_end sd = of_nat s"

definition chs_found :: "nat \<Rightarrow> SDInfo \<Rightarrow> u32 \<times> SDInfo \<Rightarrow> bool" where
  "chs_found t sd0 st \<longleftrightarrow> (\<exists>h s. snd st = sd0\<lparr>sd_C_end := of_nat (t div (h * s)), sd_H_end := of_nat h, sd_S_end := of_nat s\<rparr> \<and>
     chs_of t h s (snd st))"

definition chs_state :: "nat \<Rightarrow> SDInfo \<Rightarrow> u32 \<times> SDInfo \<Rightarrow> bool" where
  "chs_state t sd0 st \<longleftrightarrow> st = (1023, sd0) \<or> chs_found t sd0 st"

lemma chs_try_state:
  assumes "t < 2 ^ 31" and "0 < h" "h < 256" "0 < s" "s < 64" and "chs_state t sd0 st"
  shows "\<exists>st'. chs_try (of_nat t) (of_nat h) (of_nat s) st = Some st' \<and> chs_state t sd0 st' \<and>
    (chs_found t sd0 st \<or> t div (h * s) \<le> 1023 \<longrightarrow> chs_found t sd0 st')"
proof -
  obtain d sd where st: "st = (d, sd)" by (cases st)
  have hs: "h * s < 2 ^ 31" "0 < h * s"
    using assms(2-5) mult_le_mono [of h 255 s 63] by auto
  have c: "idiv (of_nat t) (of_nat h * of_nat s) = Some (of_nat (t div (h * s)))"
    using idiv_small [OF assms(1) hs] by simp
  have q: "t div (h * s) < 2 ^ 31" using assms(1) div_le_dividend le_less_trans by blast
  have upd: "sd\<lparr>sd_C_end := x, sd_H_end := y, sd_S_end := z\<rparr> = sd0\<lparr>sd_C_end := x, sd_H_end := y, sd_S_end := z\<rparr>" for x y z
    using assms(6) by (auto simp: st chs_state_def chs_found_def)
  have hit: "chs_found t sd0 (v, sd\<lparr>sd_C_end := of_nat (t div (h * s)), sd_H_end := of_nat h, sd_S_end := of_nat s\<rparr>)"
    if "t div (h * s) \<le> 1023" for v
    using that assms(2-5) unfolding chs_found_def upd
    by (intro exI [of _ h] exI [of _ s]) (simp add: chs_of_def)
  show ?thesis
  proof (cases "t div (h * s) \<le> 1023")
    case False
    then have "\<not> sint (of_nat (t div (h * s)) :: u32) \<le> 1023" using sint_small [OF q] by simp
    then show ?thesis using False assms(6) by (simp add: chs_try_def st c)
  next
    case True
    have le: "sint (of_nat (t div (h * s)) :: u32) \<le> 1023" using True sint_small [OF q] by simp
    have "(1023 - of_nat (t div (h * s)) :: u32) = of_nat (1023 - t div (h * s))" using True by (simp add: of_nat_diff)
    then have d: "sint (1023 - of_nat (t div (h * s)) :: u32) \<le> 1023"
      using sint_small [of "1023 - t div (h * s)"] by simp
    have i: "st = (1023, sd0) \<Longrightarrow> sint (1023 - of_nat (t div (h * s)) :: u32) \<le> sint d" using d st by simp
    show ?thesis
      using le hit [OF True] i assms(6) st
      by (auto simp: chs_try_def c Let_def chs_state_def)
  qed
qed

lemma chs_search_finds:
  assumes "t < 1023 * 254 * 63"
  shows "\<exists>h s. chs_search (of_nat t) sd0 =
     Some (sd0\<lparr>sd_C_end := of_nat (t div (h * s)), sd_H_end := of_nat h, sd_S_end := of_nat s\<rparr>) \<and>
     0 < h \<and> h < 256 \<and> 0 < s \<and> s < 64 \<and> t div (h * s) \<le> 1023"
proof -
  let ?cell = "\<lambda>H S. chs_try (of_nat t) (of_nat H) (of_nat S)"
  have t: "t < 2 ^ 31" using assms by simp
  have row: "\<exists>st'. foreach is (?cell H) st = Some st' \<and> chs_state t sd0 st'"
    if "0 < H" "H < 256" "set is \<subseteq> {1..<64}" "chs_state t sd0 st" for H "is" st
  proof (rule foreach_ok [where P = "chs_state t sd0", OF that(4)])
    fix i st
    assume i: "i \<in> set is" and st: "chs_state t sd0 st"
    have "0 < i" "i < 64" using i that(3) by auto
    from chs_try_state [OF t that(1,2) this st] show "\<exists>s'. ?cell H i st = Some s' \<and> chs_state t sd0 s'" by blast
  qed
  have m: "[1..<64] = [1..<63] @ [63 :: nat]" "[1..<256] = [1..<255] @ [255 :: nat]"
    using upt_Suc_append [of 1 63] upt_Suc_append [of 1 255]
    by (simp_all del: upt_rec_numeral upt_Suc)
  have "\<exists>st'. foreach [1..<255] (\<lambda>H. foreach [1..<64] (?cell H)) (1023, sd0) = Some st' \<and> chs_state t sd0 st'"
  proof (rule foreach_ok)
    show "chs_state t sd0 (1023, sd0)" by (simp add: chs_state_def)
  next
    fix H st
    assume "H \<in> set [1..<255]" "chs_state t sd0 st"
    then show "\<exists>s'. foreach [1..<64] (?cell H) st = Some s' \<and> chs_state t sd0 s'"
      by (intro row) (simp_all del: upt_rec_numeral)
  qed
  then obtain st1 where st1: "foreach [1..<255] (\<lambda>H. foreach [1..<64] (?cell H)) (1023, sd0) = Some st1"
    "chs_state t sd0 st1" by blast
  have "\<exists>st'. foreach [1..<63] (?cell 255) st1 = Some st' \<and> chs_state t sd0 st'"
    by (rule row [OF _ _ _ st1(2)]) (simp_all del: upt_rec_numeral)
  then obtain st2 where st2: "foreach [1..<63] (?cell 255) st1 = Some st2" "chs_state t sd0 st2" by blast
  have "t div (255 * 63) \<le> 1023" using assms by simp
  then obtain st3 where st3: "?cell 255 63 st2 = Some st3" "chs_found t sd0 st3"
    using chs_try_state [OF t _ _ _ _ st2(2), of 255 63] by auto
  have "foreach [1..<64] (?cell 255) st1 = Some st3"
    unfolding m(1) foreach_append st2(1) option.case foreach.simps st3(1) ..
  then have "foreach [1..<256] (\<lambda>H. foreach [1..<64] (?cell H)) (1023, sd0) = Some st3"
    unfolding m(2) foreach_append st1(1) option.case foreach.simps by simp
  then show ?thesis using st3(2)
    by (auto simp: chs_search_def chs_found_def chs_of_def simp del: upt_rec_numeral)
qed

section \<open>Blocks of a size\<close>

text \<open>The blocks for a number of bytes: \<open>u\<close> is the size of a cylinder, 0 for linear addresses.\<close>

definition blocks :: "nat \<Rightarrow> u32 \<Rightarrow> nat" where
  "blocks u l = (if u = 0 then unat l div 512 else (unat l div 512 div u + 1) * u)"

text \<open>A card of \<open>t\<close> blocks as the code sees it: cylinders of \<open>u\<close> blocks and \<open>e\<close> blocks in all.\<close>

definition sd_card :: "nat \<Rightarrow> nat \<Rightarrow> nat \<Rightarrow> SDInfo \<Rightarrow> bool" where
  "sd_card t u e sd \<longleftrightarrow> t < 2 ^ 31 \<and> e \<le> t \<and> sd_total_block_count sd = of_nat t \<and>
     (if u = 0 then sd_addr_mode sd \<noteq> CHS_MODE \<and> e = t
      else sd_addr_mode sd = CHS_MODE \<and> sd_unit sd = of_nat u \<and> u \<le> 255 * 63 \<and> t < e + u \<and>
        sd_C_end sd * sd_H_end sd * sd_S_end sd = of_nat e \<and> sd_H_end sd * sd_S_end sd = of_nat u \<and>
        (\<exists>s. 0 < s \<and> s < 64 \<and> sd_S_end sd = of_nat s))"

lemma get_SDInfo_card:
  assumes "t < 2 ^ 31"
  shows "\<exists>u e sd. get_SDInfo (of_nat t) sd0 = Some sd \<and> sd_card t u e sd \<and> (u = 0 \<longleftrightarrow> 1023 * 254 * 63 \<le> t)"
proof (cases "1023 * 254 * 63 \<le> t")
  case True
  then have "sint BLOCKS_8_4GB \<le> sint (of_nat t :: u32)"
    using sint_small [OF assms] by (simp add: BLOCKS_8_4GB_def)
  then have "get_SDInfo (of_nat t) sd0 =
      Some (sd0\<lparr>sd_addr_mode := LBA_MODE, sd_C_end := 1023, sd_H_end := 254, sd_S_end := 63,
        sd_C_start := 0, sd_H_start := 1, sd_S_start := 1, sd_total_block_count := of_nat t,
        sd_available_block := 1023 * 254 * 63, sd_unit := 254 * 63\<rparr>)"
    by (simp add: get_SDInfo_def Let_def CHS_MODE_def LBA_MODE_def)
  then show ?thesis using True assms
    by (intro exI [of _ "0 :: nat"] exI [of _ t] exI conjI) (auto simp: sd_card_def CHS_MODE_def LBA_MODE_def)
next
  case False
  then have m: "\<not> sint BLOCKS_8_4GB \<le> sint (of_nat t :: u32)"
    using sint_small [OF assms] by (simp add: BLOCKS_8_4GB_def)
  let ?sd0 = "sd0\<lparr>sd_addr_mode := CHS_MODE\<rparr>"
  obtain h s where hs: "chs_search (of_nat t) ?sd0 =
     Some (?sd0\<lparr>sd_C_end := of_nat (t div (h * s)), sd_H_end := of_nat h, sd_S_end := of_nat s\<rparr>)"
     "0 < h" "h < 256" "0 < s" "s < 64" "t div (h * s) \<le> 1023"
    using chs_search_finds [of t ?sd0] False by auto
  let ?u = "h * s" and ?e = "t div (h * s) * (h * s)"
  have u: "0 < ?u" "?u \<le> 255 * 63" using hs(2-5) mult_le_mono [of h 255 s 63] by auto
  have e: "?e \<le> t" "t < ?e + ?u" using u(1) by (simp_all add: dividend_less_div_times add.commute)
  let ?sd = "?sd0\<lparr>sd_C_end := of_nat (t div (h * s)), sd_H_end := of_nat h, sd_S_end := of_nat s,
     sd_C_start := 0, sd_H_start := 1, sd_S_start := 1, sd_total_block_count := of_nat t,
     sd_available_block := of_nat (t div (h * s)) * of_nat h * of_nat s, sd_unit := of_nat h * of_nat s\<rparr>"
  have "get_SDInfo (of_nat t) sd0 = Some ?sd" using m hs(1) by (simp add: get_SDInfo_def Let_def)
  moreover have "sd_card t ?u ?e ?sd"
    using assms u e hs(4,5) by (auto simp: sd_card_def mult.assoc)
  ultimately show ?thesis using False u(1)
    by (intro exI [of _ ?u] exI [of _ ?e] exI [of _ ?sd]) simp
qed

lemma calc_unit_blocks:
  assumes "sd_card t u e sd"
  shows "calc_unit l sd = Some (of_nat (blocks u l))" and "blocks u l < 2 ^ 24"
    and "unat l div 512 \<le> blocks u l"
proof -
  have l: "unat l div 512 < 2 ^ 23" using less_mult_imp_div_less [of "unat l" "2 ^ 23" 512] unat_lt [of l] by simp
  have d: "l div 512 = of_nat (unat l div 512)" by (simp add: word_arith_nat_div)
  have "calc_unit l sd = Some (of_nat (blocks u l)) \<and> blocks u l < 2 ^ 24 \<and> unat l div 512 \<le> blocks u l"
  proof (cases "u = 0")
    case True
    then show ?thesis using assms l d by (simp add: sd_card_def calc_unit_def blocks_def)
  next
    case False
    let ?n = "unat l div 512"
    have c: "sd_addr_mode sd = CHS_MODE" "sd_unit sd = of_nat u" "u \<le> 255 * 63"
      using assms False by (auto simp: sd_card_def)
    have "udiv (l div 512) (of_nat u) = Some (of_nat (?n div u))"
      unfolding d by (rule udiv_small) (use l c(3) False in simp_all)
    moreover have "(?n div u + 1) * u \<le> ?n + u" "?n \<le> (?n div u + 1) * u"
      using dividend_less_div_times [of u ?n] False by (simp_all add: less_imp_le_nat add.commute)
    moreover from this(1) have "(?n div u + 1) * u < 2 ^ 24" by (rule le_less_trans) (use l c(3) in simp)
    moreover have "((of_nat (?n div u) + 1) * of_nat u :: u32) = of_nat ((?n div u + 1) * u)"
      by (simp add: algebra_simps)
    ultimately show ?thesis using c(1,2) False
      by (simp add: calc_unit_def blocks_def del: of_nat_add of_nat_mult of_nat_Suc mult_Suc mult_Suc_right)
  qed
  then show "calc_unit l sd = Some (of_nat (blocks u l))" "blocks u l < 2 ^ 24" "unat l div 512 \<le> blocks u l"
    by blast+
qed

lemma make_partitionInfo_blocks:
  assumes "sd_card t u e sd"
  shows "\<exists>q. make_partitionInfo st c sd p = Some q \<and> pi_bootable q = pi_bootable p \<and>
    pi_partitionId q = pi_partitionId p \<and> pi_block_start q = st \<and>
    pi_block_count q = (if c = BLOCK_END then of_nat e - of_nat (blocks u TEN_MB) - st else c)"
proof (cases "u = 0")
  case True
  then show ?thesis using assms calc_unit_blocks(1) [OF assms, of TEN_MB]
    by (auto simp: make_partitionInfo_def Let_def sd_card_def)
next
  case False
  obtain s where s: "0 < s" "s < 64" "sd_S_end sd = of_nat s" using assms False by (auto simp: sd_card_def)
  have c: "sd_addr_mode sd = CHS_MODE" "sd_unit sd = of_nat u" "u \<le> 255 * 63"
    "sd_C_end sd * sd_H_end sd * sd_S_end sd = of_nat e" "sd_H_end sd * sd_S_end sd = of_nat u"
    using assms False by (auto simp: sd_card_def)
  have nz: "(of_nat u :: u32) \<noteq> 0" "sd_S_end sd \<noteq> 0"
    using small_neq_0 [of u] small_neq_0 [of s] s c(3) False by auto
  show ?thesis using calc_unit_blocks(1) [OF assms, of TEN_MB] c nz
    by (simp add: make_partitionInfo_def Let_def idiv_def imod_def udiv_def umod_def)
qed

section \<open>The sector\<close>

text \<open>A sector with four entries of a partition table, in the order of the table.\<close>

definition mbr_of :: "byte list \<Rightarrow> byte list \<Rightarrow> byte list \<Rightarrow> byte list \<Rightarrow> mem" where
  "mbr_of a b c d = replicate 446 0 @ a @ b @ c @ d @ [0x55, 0xAA]"

lemma length_encode [simp]: "length (encode_partitionInfo p) = 16"
  by (simp add: encode_partitionInfo_def encode_chs_def)

lemma wrn_app: "length a = i \<Longrightarrow> length b = length xs \<Longrightarrow> wrn (a @ b @ c) i xs = Some (a @ xs @ c)"
  by (simp add: wrn_def)

lemma mbr_writes:
  assumes "length m = 512" and "length a = 16" "length b = 16" "length c = 16" "length d = 16"
  shows "do {
      m \<leftarrow> wrn m 0 (replicate 512 0); m \<leftarrow> wr m 510 0x55; m \<leftarrow> wr m 511 0xAA;
      m \<leftarrow> wrn m 0x1CE b; m \<leftarrow> wrn m 0x1DE c; m \<leftarrow> wrn m 0x1EE d; wrn m 0x1BE a } = Some (mbr_of a b c d)"
proof -
  let ?z = "replicate 16 (0 :: byte)"
  have z: "replicate 512 (0 :: byte) = replicate 446 0 @ ?z @ ?z @ ?z @ ?z @ [0, 0]"
  proof -
    have "replicate 512 (0 :: byte) = replicate (446 + (16 + (16 + (16 + (16 + 2))))) 0" by simp
    also have "\<dots> = replicate 446 0 @ ?z @ ?z @ ?z @ ?z @ replicate 2 0" by (simp only: replicate_add)
    also have "replicate 2 (0 :: byte) = [0, 0]" by (simp add: numeral_2_eq_2)
    finally show ?thesis .
  qed
  have u: "(replicate 446 0 @ ?z @ ?z @ ?z @ ?z @ [0, 0])[510 := 0x55] = replicate 446 0 @ ?z @ ?z @ ?z @ ?z @ [0x55, 0 :: byte]"
    "(replicate 446 0 @ ?z @ ?z @ ?z @ ?z @ [0x55, 0])[511 := 0xAA] = replicate 446 0 @ ?z @ ?z @ ?z @ ?z @ [0x55, 0xAA :: byte]"
    by (simp_all add: list_update_append)
  have w: "wrn m 0 (replicate 512 0) = Some (replicate 512 0)" using assms(1) by (simp add: wrn_def)
  have b: "wrn (replicate 446 0 @ ?z @ ?z @ ?z @ ?z @ [0x55, 0xAA]) 0x1CE b
      = Some (replicate 446 0 @ ?z @ b @ ?z @ ?z @ [0x55, 0xAA])"
    using wrn_app [of "replicate 446 0 @ ?z" "0x1CE" ?z b "?z @ ?z @ [0x55, 0xAA]"] assms by simp
  have c: "wrn (replicate 446 0 @ ?z @ b @ ?z @ ?z @ [0x55, 0xAA]) 0x1DE c
      = Some (replicate 446 0 @ ?z @ b @ c @ ?z @ [0x55, 0xAA])"
    using wrn_app [of "replicate 446 0 @ ?z @ b" "0x1DE" ?z c "?z @ [0x55, 0xAA]"] assms by simp
  have d: "wrn (replicate 446 0 @ ?z @ b @ c @ ?z @ [0x55, 0xAA]) 0x1EE d
      = Some (replicate 446 0 @ ?z @ b @ c @ d @ [0x55, 0xAA])"
    using wrn_app [of "replicate 446 0 @ ?z @ b @ c" "0x1EE" ?z d "[0x55, 0xAA]"] assms by simp
  have a: "wrn (replicate 446 0 @ ?z @ b @ c @ d @ [0x55, 0xAA]) 0x1BE a = Some (mbr_of a b c d)"
    using wrn_app [of "replicate 446 0" "0x1BE" ?z a "b @ c @ d @ [0x55, 0xAA]"] assms by (simp add: mbr_of_def)
  have l: "510 < length (replicate 446 0 @ ?z @ ?z @ ?z @ ?z @ [0, 0 :: byte])"
    "511 < length (replicate 446 0 @ ?z @ ?z @ ?z @ ?z @ [0x55, 0 :: byte])" by simp_all
  show ?thesis
    unfolding w unfolding z Option.bind_lunit wr_in [OF l(1)] u(1) wr_in [OF l(2)] u(2) b c d a ..
qed

text \<open>An entry is read back as it was written.\<close>

lemma decode_at:
  assumes "length pre = at" and "length e = 16"
  shows "decode_partitionInfo (pre @ e @ post) at =
    Some (e ! 0, e ! 4, get_le32 (take 4 (drop 8 e)), get_le32 (take 4 (drop 12 e)))"
  using assms by (simp add: decode_partitionInfo_def nth_append rdn_def)

lemma decode_encode:
  assumes "length pre = at"
  shows "decode_partitionInfo (pre @ encode_partitionInfo p @ post) at =
    Some (pi_bootable p, pi_partitionId p, pi_block_start p, pi_block_count p)"
proof -
  let ?e = "encode_partitionInfo p"
  have f: "?e ! 0 = pi_bootable p" "?e ! 4 = pi_partitionId p" "take 4 (drop 8 ?e) = put_le32 (pi_block_start p)"
    "take 4 (drop 12 ?e) = put_le32 (pi_block_count p)"
    by (simp_all add: encode_partitionInfo_def encode_chs_def put_le32_def eval_nat_numeral)
  show ?thesis unfolding decode_at [OF assms length_encode] f get_put_le32 ..
qed

lemma mbr_entry:
  assumes "length a = 16" "length b = 16" "length c = 16" "length d = 16"
  shows "a = encode_partitionInfo p \<Longrightarrow> decode_partitionInfo (mbr_of a b c d) 0x1BE =
      Some (pi_bootable p, pi_partitionId p, pi_block_start p, pi_block_count p)"
    and "b = encode_partitionInfo p \<Longrightarrow> decode_partitionInfo (mbr_of a b c d) 0x1CE =
      Some (pi_bootable p, pi_partitionId p, pi_block_start p, pi_block_count p)"
    and "c = encode_partitionInfo p \<Longrightarrow> decode_partitionInfo (mbr_of a b c d) 0x1DE =
      Some (pi_bootable p, pi_partitionId p, pi_block_start p, pi_block_count p)"
    and "d = encode_partitionInfo p \<Longrightarrow> decode_partitionInfo (mbr_of a b c d) 0x1EE =
      Some (pi_bootable p, pi_partitionId p, pi_block_start p, pi_block_count p)"
  using decode_encode [of "replicate 446 0" "0x1BE" p "b @ c @ d @ [0x55, 0xAA]"]
    decode_encode [of "replicate 446 0 @ a" "0x1CE" p "c @ d @ [0x55, 0xAA]"]
    decode_encode [of "replicate 446 0 @ a @ b" "0x1DE" p "d @ [0x55, 0xAA]"]
    decode_encode [of "replicate 446 0 @ a @ b @ c" "0x1EE" p "[0x55, 0xAA]"] assms
  by (simp_all add: mbr_of_def)

section \<open>The layout\<close>

text \<open>The size of a partition in bytes as it reaches \<open>calc_unit\<close>.\<close>

definition part_bytes :: "bool \<Rightarrow> byte list list \<Rightarrow> nat \<Rightarrow> u32 \<Rightarrow> u32 option" where
  "part_bytes flag argv k dflt =
     (if flag then do { a \<leftarrow> rd argv k; (v, _) \<leftarrow> simple_strtoul (a @ [0]) 0 0; Some (v * (1024 * 1024)) }
      else Some dflt)"

lemma ucast_times: "(ucast (a * b :: u64) :: u32) = ucast a * ucast b"
  by transfer (subst (2) take_bit_mult [symmetric], simp add: take_bit_mult min_def)

lemma mega_cut: "(ucast ((ucast v :: u64) * 1024 * 1024) :: u32) = v * (1024 * 1024)"
proof -
  have "(ucast (ucast v :: u64) :: u32) = v" by transfer simp
  then show ?thesis unfolding ucast_times by (simp add: mult.assoc)
qed

lemma part_blocks_bytes:
  assumes "sd_card t u e sd" and "part_bytes flag argv k dflt = Some l"
  shows "part_blocks flag argv k dflt sd = Some (of_nat (blocks u l))"
proof (cases flag)
  case True
  then obtain a v n where a: "rd argv k = Some a" "simple_strtoul (a @ [0]) 0 0 = Some (v, n)" "l = v * (1024 * 1024)"
    using assms(2) by (auto simp: part_bytes_def bind_eq_Some_conv simp del: rd_eq_Some)
  then show ?thesis using calc_unit_blocks(1) [OF assms(1), of l] True
    unfolding part_blocks_def mega_cut by simp
next
  case False
  then show ?thesis using assms calc_unit_blocks(1) [OF assms(1), of l]
    by (simp add: part_blocks_def part_bytes_def)
qed

lemma mbr_of_facts:
  assumes "length a = 16" "length b = 16" "length c = 16" "length d = 16"
  shows "length (mbr_of a b c d) = 512" "mbr_of a b c d ! 510 = 0x55" "mbr_of a b c d ! 511 = 0xAA"
  using assms by (simp_all add: mbr_of_def nth_append)

text \<open>The four entries of a sector: the three Linux partitions and, first in the table, the last one.\<close>

definition entries :: "mem \<Rightarrow> (u32 \<times> u32) list \<Rightarrow> u32 \<times> u32 \<Rightarrow> bool" where
  "entries m linux fat \<longleftrightarrow> length m = 512 \<and> m ! 510 = 0x55 \<and> m ! 511 = 0xAA \<and> length linux = 3 \<and>
     (\<forall>k < 3. decode_partitionInfo m (0x1CE + 16 * k) = Some (0, 0x83, fst (linux ! k), snd (linux ! k))) \<and>
     decode_partitionInfo m 0x1BE = Some (0, 0x0C, fst fat, snd fat)"

lemma tf_card:
  assumes "flag \<or> 2 < length argv \<and> 0 \<notin> set (argv ! 2)"
    and "part_bytes flag argv k (if argv ! 2 = txt_bytes ''1'' then a else b) = Some l"
  shows "\<exists>tf. (if flag then Some False
      else do { a \<leftarrow> rd argv 2; map_option (\<lambda>r. r = 0) (str_cmp a (txt_bytes ''1'')) }) = Some tf \<and>
    part_bytes flag argv k (if tf then a else b) = Some l"
proof (cases flag)
  case True
  then show ?thesis using assms(2) by (intro exI [of _ False]) (simp add: part_bytes_def)
next
  case False
  have "0 \<notin> set (txt_bytes ''1'')" by (simp add: txt_bytes_def)
  then obtain r where "str_cmp (argv ! 2) (txt_bytes ''1'') = Some r" "r = 0 \<longleftrightarrow> argv ! 2 = txt_bytes ''1''"
    using str_cmp_eq [of "argv ! 2" "txt_bytes ''1''"] assms(1) False by blast
  then show ?thesis using assms False by simp
qed

lemma fdisk_layout_card:
  assumes "get_SDInfo tot sd_zero = Some sd" and card: "sd_card t u e sd"
    and l: "part_bytes flag argv 3 ONE_GB = Some l1"
      "part_bytes flag argv 4 (if argv ! 2 = txt_bytes ''1'' then THREE_HUNDRED_MB else ONE_GB) = Some l2"
      "part_bytes flag argv 5 THREE_HUNDRED_MB = Some l3"
    and "flag \<or> 2 < length argv \<and> 0 \<notin> set (argv ! 2)" and "length mbr = 512"
  defines "s0 \<equiv> of_nat (blocks u DISK_START) :: u32" and "n1 \<equiv> of_nat (blocks u l1) :: u32"
    and "n2 \<equiv> of_nat (blocks u l2) :: u32" and "n3 \<equiv> of_nat (blocks u l3) :: u32"
  shows "\<exists>m. make_mmc_partition p tot mbr flag argv = Some m \<and>
    entries m [(s0, n1), (s0 + n1, n2), (s0 + n1 + n2, n3)]
      (s0 + n1 + n2 + n3, of_nat e - of_nat (blocks u TEN_MB) - (s0 + n1 + n2 + n3))"
proof -
  let ?p = "\<lambda>k. p\<lparr>pi_bootable := 0, pi_partitionId := k\<rparr>"
  have ne: "of_nat (blocks u x) \<noteq> BLOCK_END" for x
  proof
    assume "of_nat (blocks u x) = BLOCK_END"
    then have "unat (of_nat (blocks u x) :: u32) = 0xFFFFFFFF" by (simp add: BLOCK_END_def)
    then show False using calc_unit_blocks(2) [OF card, of x] unat_small [of "blocks u x"] by simp
  qed
  obtain tf where tf: "(if flag then Some False
      else do { a \<leftarrow> rd argv 2; map_option (\<lambda>r. r = 0) (str_cmp a (txt_bytes ''1'')) }) = Some tf"
    "part_bytes flag argv 4 (if tf then THREE_HUNDRED_MB else ONE_GB) = Some l2"
    using tf_card [OF assms(6) l(2)] by blast
  note b = part_blocks_bytes [OF card l(1)] part_blocks_bytes [OF card tf(2)] part_blocks_bytes [OF card l(3)]
  note mk = make_partitionInfo_blocks [OF card]
  obtain q0 where q0: "make_partitionInfo s0 n1 sd (?p 0x83) = Some q0" "pi_bootable q0 = 0" "pi_partitionId q0 = 0x83"
    "pi_block_start q0 = s0" "pi_block_count q0 = n1"
    using mk [of s0 n1 "?p 0x83"] ne [of l1] by (auto simp: n1_def)
  obtain q1 where q1: "make_partitionInfo (s0 + n1) n2 sd (?p 0x83) = Some q1" "pi_bootable q1 = 0" "pi_partitionId q1 = 0x83"
    "pi_block_start q1 = s0 + n1" "pi_block_count q1 = n2"
    using mk [of "s0 + n1" n2 "?p 0x83"] ne [of l2] by (auto simp: n2_def)
  obtain q2 where q2: "make_partitionInfo (s0 + n1 + n2) n3 sd (?p 0x83) = Some q2" "pi_bootable q2 = 0" "pi_partitionId q2 = 0x83"
    "pi_block_start q2 = s0 + n1 + n2" "pi_block_count q2 = n3"
    using mk [of "s0 + n1 + n2" n3 "?p 0x83"] ne [of l3] by (auto simp: n3_def)
  obtain q3 where q3: "make_partitionInfo (s0 + n1 + n2 + n3) BLOCK_END sd (?p 0x0C) = Some q3" "pi_bootable q3 = 0"
    "pi_partitionId q3 = 0x0C" "pi_block_start q3 = s0 + n1 + n2 + n3"
    "pi_block_count q3 = of_nat e - of_nat (blocks u TEN_MB) - (s0 + n1 + n2 + n3)"
    using mk [of "s0 + n1 + n2 + n3" BLOCK_END "?p 0x0C"] by auto
  let ?e = encode_partitionInfo
  let ?m = "mbr_of (?e q3) (?e q0) (?e q1) (?e q2)"
  have w: "do { m \<leftarrow> wrn mbr 0 (replicate 512 0); m \<leftarrow> wr m 510 0x55; m \<leftarrow> wr m 511 0xAA;
      m \<leftarrow> wrn m 0x1CE (?e q0); m \<leftarrow> wrn m 0x1DE (?e q1); m \<leftarrow> wrn m 0x1EE (?e q2); wrn m 0x1BE (?e q3) } = Some ?m"
    by (rule mbr_writes) (use assms(7) in simp_all)
  have "make_mmc_partition p tot mbr flag argv = Some ?m"
    unfolding make_mmc_partition_def assms(1) tf(1) b calc_unit_blocks(1) [OF card] Let_def Option.bind_lunit
    by (simp only: tf(1) b q0(1) q1(1) q2(1) q3(1) Option.bind_lunit w flip: s0_def n1_def n2_def n3_def)
  moreover have "entries ?m [(s0, n1), (s0 + n1, n2), (s0 + n1 + n2, n3)]
      (s0 + n1 + n2 + n3, of_nat e - of_nat (blocks u TEN_MB) - (s0 + n1 + n2 + n3))"
    using mbr_entry [of "?e q3" "?e q0" "?e q1" "?e q2"] q0 q1 q2 q3 mbr_of_facts [of "?e q3" "?e q0" "?e q1" "?e q2"]
    by (auto simp: entries_def less_Suc_eq numeral_3_eq_3)
  ultimately show ?thesis by blast
qed

section \<open>Properties\<close>

definition fits :: "nat \<Rightarrow> nat \<Rightarrow> u32" where
  "fits end s = (if s \<le> end then of_nat (end - s) else - of_nat (s - end))"

lemma fits_eq: "of_nat end - of_nat s = fits end s"
  by (auto simp: fits_def of_nat_diff)

text \<open>C36. The partition table written for a card of \<open>tot\<close> blocks. The three Linux partitions
  follow each other from the end of the raw area, each at least as large as the number of bytes that the
  code computes for it (\<open>part_bytes\<close>: the size asked for cut to 32 bits, so that 4096 MB are none), and the last
  partition follows them up to ten megabytes before the end of the card; in cylinders of \<open>u\<close> blocks
  below 8.4 GB, else in blocks. Nothing is checked: when the sizes leave no room, the length of the
  last partition is a negative number.\<close>

theorem fdisk_layout:
  assumes "2 ^ 16 \<le> unat tot" and "unat tot < 2 ^ 31"
    and "part_bytes flag argv 3 ONE_GB = Some l1"
    and "part_bytes flag argv 4 (if argv ! 2 = txt_bytes ''1'' then THREE_HUNDRED_MB else ONE_GB) = Some l2"
    and "part_bytes flag argv 5 THREE_HUNDRED_MB = Some l3"
    and "flag \<or> 2 < length argv \<and> 0 \<notin> set (argv ! 2)" and "length mbr = 512"
  shows "\<exists>m u e. make_mmc_partition p tot mbr flag argv = Some m \<and>
    (u = 0 \<longleftrightarrow> 1023 * 254 * 63 \<le> unat tot) \<and> u \<le> 255 * 63 \<and> e \<le> unat tot \<and> unat tot < e + max u 1 \<and>
    (let s0 = blocks u DISK_START; s1 = s0 + blocks u l1; s2 = s1 + blocks u l2; s3 = s2 + blocks u l3;
         end = e - blocks u TEN_MB
     in entries m [(of_nat s0, of_nat (s1 - s0)), (of_nat s1, of_nat (s2 - s1)), (of_nat s2, of_nat (s3 - s2))]
          (of_nat s3, fits end s3) \<and>
        32768 \<le> s0 \<and> unat l1 div 512 \<le> s1 - s0 \<and> unat l2 div 512 \<le> s2 - s1 \<and> unat l3 div 512 \<le> s3 - s2 \<and>
        s3 < 2 ^ 26 \<and> end + 20480 \<le> unat tot)"
proof -
  define t where "t = unat tot"
  have t: "tot = of_nat t" "t = unat tot" by (simp_all add: t_def)
  have "t < 2 ^ 31" using assms(2) unfolding t(2) .
  from get_SDInfo_card [OF this, of sd_zero] obtain u e sd where
    sd: "get_SDInfo tot sd_zero = Some sd" "sd_card t u e sd" "u = 0 \<longleftrightarrow> 1023 * 254 * 63 \<le> t"
    unfolding t(1) [symmetric] by blast
  have ue: "u \<le> 255 * 63" "e \<le> t" "t < e + max u 1" using sd(2) by (auto simp: sd_card_def split: if_splits)
  note c = calc_unit_blocks(2,3) [OF sd(2)]
  have ten: "20480 \<le> blocks u TEN_MB" using c(2) [of TEN_MB] by (simp add: TEN_MB_def)
  have tb: "blocks u TEN_MB \<le> 36545"
  proof (cases "u = 0")
    case False
    have "20480 div u * u \<le> 20480" by (rule div_times_less_eq_dividend)
    then have "u + 20480 div u * u \<le> 36545" using ue(1) by linarith
    then show ?thesis using False by (simp add: blocks_def TEN_MB_def)
  qed (simp add: blocks_def TEN_MB_def)
  have "max u 1 \<le> 16065" "65536 \<le> t" using ue(1) assms(1) t(2) by simp_all
  then have be: "blocks u TEN_MB \<le> e" using tb ue(3) by linarith
  let ?s0 = "blocks u DISK_START"
  let ?s3 = "?s0 + blocks u l1 + blocks u l2 + blocks u l3"
  have s0: "32768 \<le> ?s0" using c(2) [of DISK_START] by (simp add: DISK_START_def)
  have "of_nat e - of_nat (blocks u TEN_MB) = (of_nat (e - blocks u TEN_MB) :: u32)" using be by (simp add: of_nat_diff)
  then have last: "of_nat e - of_nat (blocks u TEN_MB) - of_nat ?s3 = fits (e - blocks u TEN_MB) ?s3"
    using fits_eq [of "e - blocks u TEN_MB" ?s3] by simp
  obtain m where m: "make_mmc_partition p tot mbr flag argv = Some m"
    "entries m [(of_nat ?s0, of_nat (blocks u l1)), (of_nat (?s0 + blocks u l1), of_nat (blocks u l2)),
      (of_nat (?s0 + blocks u l1 + blocks u l2), of_nat (blocks u l3))] (of_nat ?s3, fits (e - blocks u TEN_MB) ?s3)"
    using fdisk_layout_card [OF sd(1,2) assms(3-7), of p] last by (auto simp: add.assoc)
  have "?s3 < 2 ^ 26" using c(1) [of DISK_START] c(1) [of l1] c(1) [of l2] c(1) [of l3] by simp
  moreover have "e - blocks u TEN_MB + 20480 \<le> t" using be ten ue(2) by simp
  ultimately show ?thesis
    using m sd(3) ue s0 c(2) [of l1] c(2) [of l2] c(2) [of l3] t(2)
    by (intro exI [of _ m] exI [of _ u] exI [of _ e]) (simp add: Let_def)
qed

definition stale_part :: PartitionInfo where
  "stale_part = \<lparr>pi_bootable = 7, pi_partitionId = 7, pi_C_start = 7, pi_H_start = 7, pi_S_start = 7, pi_C_end = 7,
     pi_H_end = 7, pi_S_end = 7, pi_block_start = 7, pi_block_count = 7, pi_block_end = 7\<rparr>"

theorem fdisk_layout_witness:
  "\<exists>m. make_mmc_partition stale_part 31116288 (replicate 512 7) False [txt_bytes ''fdisk'', txt_bytes ''-c'', txt_bytes ''0''] = Some m \<and>
    entries m [(32768, 2097152), (2129920, 2097152), (4227072, 614400)] (4841472, 26254336)"
proof -
  let ?argv = "[txt_bytes ''fdisk'', txt_bytes ''-c'', txt_bytes ''0'']"
  have b: "part_bytes False ?argv 3 ONE_GB = Some ONE_GB" "part_bytes False ?argv 5 THREE_HUNDRED_MB = Some THREE_HUNDRED_MB"
    "part_bytes False ?argv 4 (if ?argv ! 2 = txt_bytes ''1'' then THREE_HUNDRED_MB else ONE_GB) = Some ONE_GB"
    by (simp_all add: part_bytes_def txt_bytes_def)
  have t: "2 ^ 16 \<le> unat (31116288 :: u32)" "unat (31116288 :: u32) < 2 ^ 31" by simp_all
  have f: "False \<or> 2 < length ?argv \<and> 0 \<notin> set (?argv ! 2)" "length (replicate 512 (7 :: byte)) = 512"
    by (simp_all add: txt_bytes_def)
  from fdisk_layout [OF t b(1,3,2) f, of stale_part] obtain m u e where
    m: "make_mmc_partition stale_part 31116288 (replicate 512 7) False ?argv = Some m" "u = 0" "e \<le> 31116288" "31116288 < e + max u 1"
    and en: "let s0 = blocks u DISK_START; s1 = s0 + blocks u ONE_GB; s2 = s1 + blocks u ONE_GB; s3 = s2 + blocks u THREE_HUNDRED_MB;
         end = e - blocks u TEN_MB
     in entries m [(of_nat s0, of_nat (s1 - s0)), (of_nat s1, of_nat (s2 - s1)), (of_nat s2, of_nat (s3 - s2))]
          (of_nat s3, fits end s3)"
    by (auto simp: Let_def)
  have e: "e = 31116288" using m(2,3,4) by simp
  have bl: "blocks 0 DISK_START = 32768" "blocks 0 ONE_GB = 2097152" "blocks 0 THREE_HUNDRED_MB = 614400" "blocks 0 TEN_MB = 20480"
    by (simp_all add: blocks_def DISK_START_def ONE_GB_def THREE_HUNDRED_MB_def TEN_MB_def)
  show ?thesis using m(1) en unfolding m(2) e bl Let_def by (intro exI [of _ m]) (simp add: fits_def)
qed

end
