(* ===== verification/PartDos.thy ===== *)
theory PartDos
  imports Prelude
begin

text \<open>
  The reader of DOS partition tables, \<^verbatim>\<open>disk/part_dos.c\<close>. Reading a sector is a parameter: it
  gives a buffer of \<open>DEFAULT_SECTOR_SIZE\<close> bytes, or nothing when the driver fails. The functions that
  follow the chain of extended partitions call themselves on what the disk says, so they need not
  end: they are partial functions, and \<open>None\<close> is a call that never returns.
\<close>

definition DEFAULT_SECTOR_SIZE :: nat where "DEFAULT_SECTOR_SIZE = 512"
definition DOS_PART_TBL_OFFSET :: nat where "DOS_PART_TBL_OFFSET = 0x1be"
definition DOS_PART_MAGIC_OFFSET :: nat where "DOS_PART_MAGIC_OFFSET = 0x1fe"
definition DOS_PBR_FSTYPE_OFFSET :: nat where "DOS_PBR_FSTYPE_OFFSET = 0x36"
definition DOS_PBR_MEDIA_TYPE_OFFSET :: nat where "DOS_PBR_MEDIA_TYPE_OFFSET = 0x15"

record dos_partition =
  boot_ind :: byte
  sys_ind :: byte
  start4 :: "byte list"
  size4 :: "byte list"

definition le32_to_int :: "byte list \<Rightarrow> u32" where
  "le32_to_int b = push_bit 24 (ucast (b ! 3)) + push_bit 16 (ucast (b ! 2)) + push_bit 8 (ucast (b ! 1)) + ucast (b ! 0)"

definition is_extended :: "byte \<Rightarrow> bool" where
  "is_extended t \<longleftrightarrow> t = 0x5 \<or> t = 0xf \<or> t = 0x85"

text \<open>The entry \<open>i\<close> of the table of a sector; the cylinder, head and sector fields are not used.\<close>

definition dos_entry :: "mem \<Rightarrow> nat \<Rightarrow> dos_partition" where
  "dos_entry buffer i =
     (let at = DOS_PART_TBL_OFFSET + 16 * i
      in \<lparr>boot_ind = buffer ! at, sys_ind = buffer ! (at + 4), start4 = take 4 (drop (at + 8) buffer),
          size4 = take 4 (drop (at + 12) buffer)\<rparr>)"

definition dos_table :: "mem \<Rightarrow> dos_partition list" where
  "dos_table buffer = map (dos_entry buffer) [0, 1, 2, 3]"

definition has_magic :: "mem \<Rightarrow> bool" where
  "has_magic buffer \<longleftrightarrow>
     buffer ! DOS_PART_MAGIC_OFFSET = 0x55 \<and> buffer ! (DOS_PART_MAGIC_OFFSET + 1) = 0xaa"

datatype block_type = No_signature | DOS_MBR | DOS_PBR

definition test_block_type :: "mem \<Rightarrow> block_type" where
  "test_block_type buffer =
     (if \<not> has_magic buffer then No_signature
      else if take 3 (drop DOS_PBR_FSTYPE_OFFSET buffer) = [0x46, 0x41, 0x54] then DOS_PBR
      else DOS_MBR)"

definition test_part_dos :: "(u32 \<Rightarrow> mem option) \<Rightarrow> int" where
  "test_part_dos block_read =
     (case block_read 0 of None \<Rightarrow> - 1 | Some buffer \<Rightarrow> if has_magic buffer then 0 else 1)"

section \<open>Looking up a partition\<close>

text \<open>Whether an entry can be the partition asked for, and whether it takes a number.\<close>

definition dos_hit :: "dos_partition \<Rightarrow> bool" where
  "dos_hit pt \<longleftrightarrow> boot_ind pt AND NOT 0x80 = 0 \<and> sys_ind pt \<noteq> 0 \<and> \<not> is_extended (sys_ind pt)"

definition takes_number :: "u32 \<Rightarrow> dos_partition \<Rightarrow> bool" where
  "takes_number ext_part_sector pt \<longleftrightarrow> ext_part_sector = 0 \<or> sys_ind pt \<noteq> 0 \<and> \<not> is_extended (sys_ind pt)"

text \<open>The first loop: the partition found, or the number of the next one.\<close>

fun dos_scan :: "u32 \<Rightarrow> dos_partition list \<Rightarrow> nat \<Rightarrow> nat \<Rightarrow> dos_partition option \<times> nat" where
  "dos_scan ext_part_sector [] part_num which_part = (None, part_num)"
| "dos_scan ext_part_sector (pt # pts) part_num which_part =
     (if part_num = which_part \<and> dos_hit pt then (Some pt, part_num)
      else dos_scan ext_part_sector pts
             (if takes_number ext_part_sector pt then part_num + 1 else part_num) which_part)"

text \<open>Start and size in blocks of 512 bytes; \<open>Some None\<close> is the result \<open>-1\<close>.\<close>

partial_function (option) get_partition_info_extended ::
  "(u32 \<Rightarrow> mem option) \<Rightarrow> u32 \<Rightarrow> u32 \<Rightarrow> nat \<Rightarrow> nat \<Rightarrow> (u32 \<times> u32) option option" where
  "get_partition_info_extended block_read ext_part_sector relative part_num which_part =
     (case block_read ext_part_sector of
        None \<Rightarrow> Some None
      | Some buffer \<Rightarrow>
          (if \<not> has_magic buffer then Some None
           else (case dos_scan ext_part_sector (dos_table buffer) part_num which_part of
                   (Some pt, _) \<Rightarrow> Some (Some (ext_part_sector + le32_to_int (start4 pt), le32_to_int (size4 pt)))
                 | (None, part_num) \<Rightarrow>
                     (case find (\<lambda>pt. is_extended (sys_ind pt)) (dos_table buffer) of
                        None \<Rightarrow> Some None
                      | Some pt \<Rightarrow>
                          (let lba_start = le32_to_int (start4 pt) + relative
                           in get_partition_info_extended block_read lba_start
                                (if ext_part_sector = 0 then lba_start else relative) part_num which_part)))))"

definition get_partition_info_dos :: "(u32 \<Rightarrow> mem option) \<Rightarrow> nat \<Rightarrow> (u32 \<times> u32) option option" where
  "get_partition_info_dos block_read part = get_partition_info_extended block_read 0 0 1 part"

section \<open>Listing the partitions\<close>

text \<open>A line: number, start, size and type, or the capacity of a disk that is one partition.\<close>

datatype dos_line = Part nat u32 u32 byte | Whole byte

fun dos_list :: "u32 \<Rightarrow> dos_partition list \<Rightarrow> nat \<Rightarrow> dos_line list \<times> nat" where
  "dos_list ext_part_sector [] part_num = ([], part_num)"
| "dos_list ext_part_sector (pt # pts) part_num =
     (let out = (if sys_ind pt \<noteq> 0 \<and> (ext_part_sector = 0 \<or> \<not> is_extended (sys_ind pt))
                 then [Part part_num (ext_part_sector + le32_to_int (start4 pt)) (le32_to_int (size4 pt)) (sys_ind pt)]
                 else []);
          (rest, n) = dos_list ext_part_sector pts
             (if takes_number ext_part_sector pt then part_num + 1 else part_num)
      in (out @ rest, n))"

text \<open>The lines of the table and of all extended partitions in it, one after the other.\<close>

partial_function (option) print_partition_extended ::
  "(u32 \<Rightarrow> mem option) \<Rightarrow> u32 \<Rightarrow> u32 \<Rightarrow> nat \<Rightarrow> dos_line list option" where
  "print_partition_extended block_read ext_part_sector relative part_num =
     (case block_read ext_part_sector of
        None \<Rightarrow> Some []
      | Some buffer \<Rightarrow>
          (case test_block_type buffer of
             No_signature \<Rightarrow> Some []
           | DOS_PBR \<Rightarrow> Some [Whole (buffer ! DOS_PBR_MEDIA_TYPE_OFFSET)]
           | DOS_MBR \<Rightarrow>
               do {
                 a \<leftarrow> (if is_extended (sys_ind (dos_table buffer ! 0))
                      then print_partition_extended block_read (le32_to_int (start4 (dos_table buffer ! 0)) + relative)
                             (if ext_part_sector = 0 then le32_to_int (start4 (dos_table buffer ! 0)) + relative else relative)
                             (snd (dos_list ext_part_sector (dos_table buffer) part_num))
                      else Some []);
                 b \<leftarrow> (if is_extended (sys_ind (dos_table buffer ! 1))
                      then print_partition_extended block_read (le32_to_int (start4 (dos_table buffer ! 1)) + relative)
                             (if ext_part_sector = 0 then le32_to_int (start4 (dos_table buffer ! 1)) + relative else relative)
                             (snd (dos_list ext_part_sector (dos_table buffer) part_num))
                      else Some []);
                 c \<leftarrow> (if is_extended (sys_ind (dos_table buffer ! 2))
                      then print_partition_extended block_read (le32_to_int (start4 (dos_table buffer ! 2)) + relative)
                             (if ext_part_sector = 0 then le32_to_int (start4 (dos_table buffer ! 2)) + relative else relative)
                             (snd (dos_list ext_part_sector (dos_table buffer) part_num))
                      else Some []);
                 d \<leftarrow> (if is_extended (sys_ind (dos_table buffer ! 3))
                      then print_partition_extended block_read (le32_to_int (start4 (dos_table buffer ! 3)) + relative)
                             (if ext_part_sector = 0 then le32_to_int (start4 (dos_table buffer ! 3)) + relative else relative)
                             (snd (dos_list ext_part_sector (dos_table buffer) part_num))
                      else Some []);
                 Some (fst (dos_list ext_part_sector (dos_table buffer) part_num) @ a @ b @ c @ d)
               }))"

definition print_part_dos :: "(u32 \<Rightarrow> mem option) \<Rightarrow> dos_line list option" where
  "print_part_dos block_read = print_partition_extended block_read 0 0 1"

end
