(* ===== verification/PartDosCorrect.thy ===== *)
theory PartDosCorrect
  imports PartDos
begin

text \<open>
  What the reader of DOS partition tables finds: the primary partitions by their place in the table,
  the logical ones in the order of the chain. A chain that leads back to itself is followed for ever.
\<close>

section \<open>Chains\<close>

abbreviation is_logical :: "dos_partition \<Rightarrow> bool" where
  "is_logical pt \<equiv> sys_ind pt \<noteq> 0 \<and> \<not> is_extended (sys_ind pt)"

abbreviation ext_entry :: "mem \<Rightarrow> dos_partition option" where
  "ext_entry b \<equiv> find (\<lambda>pt. is_extended (sys_ind pt)) (dos_table b)"

definition boots_ok :: "mem \<Rightarrow> bool" where
  "boots_ok b \<longleftrightarrow> (\<forall>pt \<in> set (dos_table b). is_logical pt \<longrightarrow> boot_ind pt AND NOT 0x80 = 0)"

definition place :: "u32 \<Rightarrow> dos_partition \<Rightarrow> u32 \<times> u32" where
  "place s pt = (s + le32_to_int (start4 pt), le32_to_int (size4 pt))"

definition logicals :: "u32 \<Rightarrow> mem \<Rightarrow> (u32 \<times> u32) list" where
  "logicals s b = map (place s) (filter is_logical (dos_table b))"

text \<open>The logical partitions from the table at sector \<open>s\<close> on; \<open>base\<close> is the start of the extended
  partition. A sector that cannot be read or is not a table ends the chain.\<close>

inductive ext_chain :: "(u32 \<Rightarrow> mem option) \<Rightarrow> u32 \<Rightarrow> u32 \<Rightarrow> (u32 \<times> u32) list \<Rightarrow> bool"
  for br :: "u32 \<Rightarrow> mem option" and base :: u32 where
  Unread: "br s = None \<Longrightarrow> ext_chain br base s []"
| Unsigned: "br s = Some b \<Longrightarrow> \<not> has_magic b \<Longrightarrow> ext_chain br base s []"
| Last: "br s = Some b \<Longrightarrow> has_magic b \<Longrightarrow> s \<noteq> 0 \<Longrightarrow> boots_ok b \<Longrightarrow> ext_entry b = None \<Longrightarrow>
    ext_chain br base s (logicals s b)"
| Link: "br s = Some b \<Longrightarrow> has_magic b \<Longrightarrow> s \<noteq> 0 \<Longrightarrow> boots_ok b \<Longrightarrow> ext_entry b = Some pt \<Longrightarrow>
    ext_chain br base (le32_to_int (start4 pt) + base) ls \<Longrightarrow> ext_chain br base s (logicals s b @ ls)"

definition pick :: "(u32 \<times> u32) list \<Rightarrow> nat \<Rightarrow> nat \<Rightarrow> (u32 \<times> u32) option" where
  "pick ls k n = (if k \<le> n \<and> n < k + length ls then Some (ls ! (n - k)) else None)"

lemma pick_append: "pick (xs @ ys) k n = (case pick xs k n of Some p \<Rightarrow> Some p | None \<Rightarrow> pick ys (k + length xs) n)"
  by (auto simp: pick_def nth_append)

section \<open>The scan of a table\<close>

lemma dos_scan_ext:
  assumes "s \<noteq> 0" and "\<forall>pt \<in> set t. is_logical pt \<longrightarrow> boot_ind pt AND NOT 0x80 = 0"
  shows "(case dos_scan s t k n of (r, k') \<Rightarrow> (map_option (place s) r, k')) =
    (let ls = map (place s) (filter is_logical t) in (pick ls k n, if pick ls k n = None then k + length ls else n))"
  using assms(2)
proof (induction t arbitrary: k)
  case Nil
  then show ?case by (simp add: pick_def)
next
  case (Cons pt t)
  have ih: "(case dos_scan s t k n of (r, k') \<Rightarrow> (map_option (place s) r, k')) =
    (let ls = map (place s) (filter is_logical t) in (pick ls k n, if pick ls k n = None then k + length ls else n))" for k
    using Cons.IH Cons.prems by simp
  show ?case
  proof (cases "is_logical pt")
    case True
    then have "dos_hit pt" using Cons.prems by (auto simp: dos_hit_def)
    then show ?thesis using True assms(1) ih [of "k + 1"]
      by (auto simp: takes_number_def pick_def Let_def nth_Cons' split: prod.splits)
  next
    case False
    then have "\<not> dos_hit pt" "\<not> takes_number s pt" using assms(1) by (auto simp: dos_hit_def takes_number_def)
    then show ?thesis using False ih [of k] by (cases "sys_ind pt = 0") simp_all
  qed
qed

text \<open>In the first table every entry has its own number.\<close>

definition primaries :: "mem \<Rightarrow> (u32 \<times> u32) option list" where
  "primaries b = map (\<lambda>pt. if dos_hit pt then Some (place 0 pt) else None) (dos_table b)"

lemma dos_scan_mbr:
  "(case dos_scan 0 t k n of (r, k') \<Rightarrow> (map_option (place 0) r, k')) =
    (let r = (if k \<le> n \<and> n < k + length t then (if dos_hit (t ! (n - k)) then Some (place 0 (t ! (n - k))) else None) else None)
     in (r, if r = None then k + length t else n))"
proof (induction t arbitrary: k)
  case Nil
  then show ?case by simp
next
  case (Cons pt t)
  show ?case using Cons [of "k + 1"]
    by (auto simp: takes_number_def Let_def nth_Cons' split: prod.splits if_splits)
qed

lemma length_dos_table [simp]: "length (dos_table b) = 4"
  by (simp add: dos_table_def)

section \<open>Following the chain\<close>

lemma table_scan:
  assumes "s \<noteq> 0" and "boots_ok b"
  obtains r k' where "dos_scan s (dos_table b) k n = (r, k')" and "pick (logicals s b) k n = map_option (place s) r"
    and "r = None \<Longrightarrow> k' = k + length (logicals s b)"
proof -
  obtain r k' where r: "dos_scan s (dos_table b) k n = (r, k')" by (cases "dos_scan s (dos_table b) k n")
  then show thesis using dos_scan_ext [of s "dos_table b" k n] assms
    by (intro that [of r k']) (auto simp: boots_ok_def logicals_def Let_def split: if_splits)
qed

lemma chain_found:
  assumes "ext_chain br base s ls" and "base \<noteq> 0"
  shows "get_partition_info_extended br s base k n = Some (pick ls k n)"
  using assms(1)
proof (induction arbitrary: k)
  case (Unread s)
  then show ?case by (subst get_partition_info_extended.simps) (simp add: pick_def)
next
  case (Unsigned s b)
  then show ?case by (subst get_partition_info_extended.simps) (simp add: pick_def)
next
  case (Last s b)
  obtain r k' where "dos_scan s (dos_table b) k n = (r, k')" "pick (logicals s b) k n = map_option (place s) r"
    using table_scan [OF Last(3,4)] by blast
  then show ?case using Last
    by (subst get_partition_info_extended.simps) (cases r; simp add: place_def)
next
  case (Link s b pt ls)
  obtain r k' where "dos_scan s (dos_table b) k n = (r, k')" "pick (logicals s b) k n = map_option (place s) r"
    "r = None \<Longrightarrow> k' = k + length (logicals s b)"
    using table_scan [OF Link(3,4)] by blast
  then show ?case using Link
    by (subst get_partition_info_extended.simps) (cases r; simp add: place_def pick_append Let_def)
qed

section \<open>Properties\<close>

text \<open>C23. On a disk whose first sector is a table and whose extended partition, if there is one, begins
  a chain that ends, looking up a partition returns: 1 to 4 are the entries of the first table,
  5 and up the logical partitions in the order of the chain, and any other number is refused.\<close>

theorem part_dos_finds:
  assumes "br 0 = Some b" and "has_magic b"
    and "\<And>pt. ext_entry b = Some pt \<Longrightarrow> le32_to_int (start4 pt) \<noteq> 0 \<and>
      ext_chain br (le32_to_int (start4 pt)) (le32_to_int (start4 pt)) ls"
    and "ext_entry b = None \<Longrightarrow> ls = []"
  shows "get_partition_info_dos br n =
    Some (if 1 \<le> n \<and> n \<le> 4 then primaries b ! (n - 1) else pick ls 5 n)"
proof -
  obtain r k' where r: "dos_scan 0 (dos_table b) 1 n = (r, k')" by (cases "dos_scan 0 (dos_table b) 1 n")
  let ?r = "if 1 \<le> n \<and> n \<le> 4 then primaries b ! (n - 1) else None"
  have m: "map_option (place 0) r = ?r" "r = None \<Longrightarrow> k' = 5"
    using dos_scan_mbr [of "dos_table b" 1 n] r
    by (auto simp: Let_def primaries_def split: if_splits)
  have none: "1 \<le> n \<and> n \<le> 4 \<Longrightarrow> pick ls 5 n = None" by (auto simp: pick_def)
  show ?thesis
  proof (cases r)
    case (Some pt)
    then have "?r = Some (place 0 pt)" using m(1) by simp
    then show ?thesis using assms(1,2) r Some unfolding get_partition_info_dos_def
      by (subst get_partition_info_extended.simps) (auto simp: place_def split: if_splits)
  next
    case None
    then have k: "k' = 5" "?r = None" using m by simp_all
    show ?thesis
    proof (cases "ext_entry b")
      case e: None
      then show ?thesis using assms(1,2,4) r None k(2) unfolding get_partition_info_dos_def
        by (subst get_partition_info_extended.simps) (auto simp: pick_def split: if_splits)
    next
      case (Some pt)
      note c = chain_found [OF assms(3) [OF Some, THEN conjunct2] assms(3) [OF Some, THEN conjunct1], of 5 n]
      then show ?thesis using assms(1,2) r None k Some none unfolding get_partition_info_dos_def
        by (subst get_partition_info_extended.simps) (auto simp: Let_def split: if_splits)
    qed
  qed
qed

text \<open>A table whose extended entry leads back to the table itself is followed for ever.\<close>

lemma self_loop_diverges:
  assumes "br e = Some b" and "has_magic b" and "e \<noteq> 0" and "ext_entry b = Some q" and "le32_to_int (start4 q) = 0"
    and "\<forall>pt \<in> set (dos_table b). \<not> dos_hit pt"
  shows "get_partition_info_extended br e e k n = None"
proof -
  have scan: "\<forall>pt \<in> set t. \<not> dos_hit pt \<Longrightarrow> fst (dos_scan e t k n) = None" for t k n
    by (induction t arbitrary: k) auto
  have "get_partition_info_extended br' s rel k n \<noteq> None \<Longrightarrow> \<not> (br' = br \<and> s = e \<and> rel = e)" for br' s rel k
  proof -
    assume "get_partition_info_extended br' s rel k n \<noteq> None"
    then obtain y where y: "get_partition_info_extended br' s rel k n = Some y" by blast
    show "\<not> (br' = br \<and> s = e \<and> rel = e)"
    proof (rule get_partition_info_extended.raw_induct
        [where P = "\<lambda>br' s rel k n y. \<not> (br' = br \<and> s = e \<and> rel = e)", OF _ y], rule notI)
      fix f br' s rel k n y
      assume ih: "\<And>br' s rel k n y. f br' s rel k n = Some y \<Longrightarrow> \<not> (br' = br \<and> s = e \<and> rel = e)"
        and eq: "(case br' s of
          None \<Rightarrow> Some None
        | Some buffer \<Rightarrow>
            (if \<not> has_magic buffer then Some None
             else (case dos_scan s (dos_table buffer) k n of
                     (Some pt, _) \<Rightarrow> Some (Some (s + le32_to_int (start4 pt), le32_to_int (size4 pt)))
                   | (None, part_num) \<Rightarrow>
                       (case ext_entry buffer of
                          None \<Rightarrow> Some None
                        | Some pt \<Rightarrow>
                            (let lba_start = le32_to_int (start4 pt) + rel
                             in f br' lba_start (if s = 0 then lba_start else rel) part_num n))))) = Some y"
        and loop: "br' = br \<and> s = e \<and> rel = e"
      obtain k' where "dos_scan e (dos_table b) k n = (None, k')"
        using scan [OF assms(6)] by (metis prod.collapse)
      then have "f br e e k' n = Some y" using eq loop assms(1-5) by (simp add: Let_def)
      from ih [OF this] show False by simp
    qed
  qed
  then show ?thesis by blast
qed

text \<open>A table in the chain whose extended entry leads back to the table itself: a lookup of a
  partition that is not found before, and a table without logical partitions, never return.\<close>

theorem part_dos_loops:
  assumes "br 0 = Some b0" and "has_magic b0" and "ext_entry b0 = Some pt"
    and "\<not> (1 \<le> n \<and> n \<le> 4 \<and> dos_hit (dos_table b0 ! (n - 1)))"
    and "br (le32_to_int (start4 pt)) = Some b" and "has_magic b" and "le32_to_int (start4 pt) \<noteq> 0"
    and "ext_entry b = Some q" and "le32_to_int (start4 q) = 0" and "\<forall>p \<in> set (dos_table b). \<not> dos_hit p"
  shows "get_partition_info_dos br n = None"
proof -
  obtain r k' where r: "dos_scan 0 (dos_table b0) 1 n = (r, k')" by (cases "dos_scan 0 (dos_table b0) 1 n")
  have "r = None"
    using dos_scan_mbr [of "dos_table b0" 1 n] r assms(4) by (auto simp: Let_def split: if_splits)
  then show ?thesis
    using assms(1-3) r self_loop_diverges [where e = "le32_to_int (start4 pt)" and br = br and b = b, OF assms(5,6,7,8,9,10), of k' n]
    unfolding get_partition_info_dos_def
    by (subst get_partition_info_extended.simps) (simp add: Let_def)
qed

section \<open>Sectors\<close>

definition dos_bytes :: "byte \<Rightarrow> byte \<Rightarrow> u32 \<Rightarrow> u32 \<Rightarrow> byte list" where
  "dos_bytes boot ty start n = [boot, 0, 0, 0, ty, 0, 0, 0] @ put_le32 start @ put_le32 n"

definition sector_of :: "byte list \<Rightarrow> byte list \<Rightarrow> byte list \<Rightarrow> byte list \<Rightarrow> mem" where
  "sector_of a b c d = replicate 446 0 @ a @ b @ c @ d @ [0x55, 0xAA]"

definition entry_of :: "byte list \<Rightarrow> dos_partition" where
  "entry_of e = \<lparr>boot_ind = e ! 0, sys_ind = e ! 4, start4 = take 4 (drop 8 e), size4 = take 4 (drop 12 e)\<rparr>"

lemma dos_entry_at:
  assumes "length pre = DOS_PART_TBL_OFFSET + 16 * i" and "length e = 16"
  shows "dos_entry (pre @ e @ post) i = entry_of e"
  using assms by (simp add: dos_entry_def entry_of_def nth_append Let_def)

lemma dos_table_sector:
  assumes "length a = 16" "length b = 16" "length c = 16" "length d = 16"
  shows "dos_table (sector_of a b c d) = [entry_of a, entry_of b, entry_of c, entry_of d]"
  using dos_entry_at [of "replicate 446 0" 0 a "b @ c @ d @ [0x55, 0xAA]"]
    dos_entry_at [of "replicate 446 0 @ a" 1 b "c @ d @ [0x55, 0xAA]"]
    dos_entry_at [of "replicate 446 0 @ a @ b" 2 c "d @ [0x55, 0xAA]"]
    dos_entry_at [of "replicate 446 0 @ a @ b @ c" 3 d "[0x55, 0xAA]"] assms
  by (simp add: dos_table_def sector_of_def DOS_PART_TBL_OFFSET_def)

lemma sector_magic:
  assumes "length a = 16" "length b = 16" "length c = 16" "length d = 16"
  shows "has_magic (sector_of a b c d)"
  using assms by (simp add: has_magic_def sector_of_def DOS_PART_MAGIC_OFFSET_def nth_append)

lemma le32_to_int_get: "le32_to_int bs = get_le32 bs"
proof -
  have "push_bit 24 (ucast (bs ! 3)) + push_bit 16 (ucast (bs ! 2)) = (push_bit 24 (ucast (bs ! 3)) OR push_bit 16 (ucast (bs ! 2)) :: u32)"
    by (rule disjunctive_add_eq_or, rule bit_word_eqI) (auto simp: bit_simps dest: byte_bit_less)
  moreover have "(push_bit 24 (ucast (bs ! 3)) OR push_bit 16 (ucast (bs ! 2))) + push_bit 8 (ucast (bs ! 1)) =
      ((push_bit 24 (ucast (bs ! 3)) OR push_bit 16 (ucast (bs ! 2))) OR push_bit 8 (ucast (bs ! 1)) :: u32)"
    by (rule disjunctive_add_eq_or, rule bit_word_eqI) (auto simp: bit_simps dest: byte_bit_less)
  moreover have "(push_bit 24 (ucast (bs ! 3)) OR push_bit 16 (ucast (bs ! 2)) OR push_bit 8 (ucast (bs ! 1))) + ucast (bs ! 0) =
      ((push_bit 24 (ucast (bs ! 3)) OR push_bit 16 (ucast (bs ! 2)) OR push_bit 8 (ucast (bs ! 1))) OR ucast (bs ! 0) :: u32)"
    by (rule disjunctive_add_eq_or, rule bit_word_eqI) (auto simp: bit_simps dest: byte_bit_less)
  ultimately show ?thesis by (simp add: le32_to_int_def get_le32_def ac_simps)
qed

lemma entry_of_bytes:
  "boot_ind (entry_of (dos_bytes x y s n)) = x" "sys_ind (entry_of (dos_bytes x y s n)) = y"
  "le32_to_int (start4 (entry_of (dos_bytes x y s n))) = s" "le32_to_int (size4 (entry_of (dos_bytes x y s n))) = n"
  "length (dos_bytes x y s n) = 16"
proof -
  have e: "entry_of (dos_bytes x y s n) = \<lparr>boot_ind = x, sys_ind = y, start4 = put_le32 s, size4 = put_le32 n\<rparr>"
    by (simp add: entry_of_def dos_bytes_def put_le32_def eval_nat_numeral)
  show "boot_ind (entry_of (dos_bytes x y s n)) = x" "sys_ind (entry_of (dos_bytes x y s n)) = y"
    "le32_to_int (start4 (entry_of (dos_bytes x y s n))) = s" "le32_to_int (size4 (entry_of (dos_bytes x y s n))) = n"
    unfolding e by (simp_all add: le32_to_int_get)
  show "length (dos_bytes x y s n) = 16" by (simp add: dos_bytes_def)
qed

section \<open>A disk\<close>

text \<open>A primary FAT partition, an extended one with two logical partitions, and behind them an extended
  table that leads back to itself, on another disk.\<close>

definition free_entry :: "byte list" where "free_entry = dos_bytes 0 0 0 0"

definition ex_disk :: "u32 \<Rightarrow> mem option" where
  "ex_disk k =
     (if k = 0 then Some (sector_of (dos_bytes 0x80 0x0C 64 100) (dos_bytes 0 5 1000 2000) free_entry free_entry)
      else if k = 1000 then Some (sector_of (dos_bytes 0 0x83 16 50) (dos_bytes 0 5 500 100) free_entry free_entry)
      else if k = 1500 then Some (sector_of (dos_bytes 0 0x83 16 60) free_entry free_entry free_entry)
      else None)"

definition ex_loop :: "u32 \<Rightarrow> mem option" where
  "ex_loop k =
     (if k = 0 then Some (sector_of (dos_bytes 0x80 0x0C 64 100) (dos_bytes 0 5 1000 2000) free_entry free_entry)
      else if k = 1000 then Some (sector_of (dos_bytes 0 5 0 2000) free_entry free_entry free_entry)
      else None)"

lemmas ex_table = dos_table_sector sector_magic entry_of_bytes free_entry_def is_extended_def

lemma ex_chain: "ext_chain ex_disk 1000 1000 [(1016, 50), (1516, 60)]"
proof -
  let ?b = "sector_of (dos_bytes 0 0x83 16 50) (dos_bytes 0 5 500 100) free_entry free_entry"
  let ?c = "sector_of (dos_bytes 0 0x83 16 60) free_entry free_entry free_entry"
  have "ext_chain ex_disk 1000 1500 (logicals 1500 ?c)"
    by (rule ext_chain.Last) (simp_all add: ex_disk_def ex_table boots_ok_def)
  then have "ext_chain ex_disk 1000 1000 (logicals 1000 ?b @ logicals 1500 ?c)"
    by (intro ext_chain.Link [where pt = "entry_of (dos_bytes 0 5 500 100)"])
      (simp_all add: ex_disk_def ex_table boots_ok_def)
  moreover have "logicals 1000 ?b = [(1016, 50)]" "logicals 1500 ?c = [(1516, 60)]"
    by (simp_all add: logicals_def ex_table place_def)
  ultimately show ?thesis by simp
qed

theorem part_dos_finds_witness:
  "get_partition_info_dos ex_disk 1 = Some (Some (64, 100)) \<and> get_partition_info_dos ex_disk 2 = Some None \<and>
   get_partition_info_dos ex_disk 6 = Some (Some (1516, 60)) \<and> get_partition_info_dos ex_disk 7 = Some None"
proof -
  let ?m = "sector_of (dos_bytes 0x80 0x0C 64 100) (dos_bytes 0 5 1000 2000) free_entry free_entry"
  have d: "ex_disk 0 = Some ?m" "has_magic ?m" "ext_entry ?m = Some (entry_of (dos_bytes 0 5 1000 2000))"
    by (simp_all add: ex_disk_def ex_table)
  have p: "primaries ?m = [Some (64, 100), None, None, None]"
    by (simp add: primaries_def ex_table dos_hit_def place_def)
  have "get_partition_info_dos ex_disk n =
      Some (if 1 \<le> n \<and> n \<le> 4 then primaries ?m ! (n - 1) else pick [(1016, 50), (1516, 60)] 5 n)" for n
    by (rule part_dos_finds [where br = ex_disk and b = ?m, OF d(1,2)]) (use d(3) ex_chain in \<open>simp_all add: entry_of_bytes\<close>)
  then show ?thesis unfolding p by (simp add: pick_def)
qed

theorem part_dos_loops_witness: "get_partition_info_dos ex_loop 5 = None"
  by (rule part_dos_loops
      [where ?b0.0 = "sector_of (dos_bytes 0x80 0x0C 64 100) (dos_bytes 0 5 1000 2000) free_entry free_entry"
        and b = "sector_of (dos_bytes 0 5 0 2000) free_entry free_entry free_entry"
        and pt = "entry_of (dos_bytes 0 5 1000 2000)" and q = "entry_of (dos_bytes 0 5 0 2000)"])
    (simp_all add: ex_loop_def ex_table dos_hit_def)

end
