(* ===== verification/DiskProps.thy ===== *)
theory DiskProps
  imports FdiskCorrect PartDosCorrect
begin

text \<open>
  The two ends of a partition table together: what \<^verbatim>\<open>fdisk\<close> writes to a card is what it prints
  and what the reader of DOS partition tables finds there.
\<close>

lemma decode_dos_entry:
  assumes "decode_partitionInfo m (0x1BE + 16 * i) = Some (b, k, s, c)"
  shows "boot_ind (dos_entry m i) = b" and "sys_ind (dos_entry m i) = k"
    and "le32_to_int (start4 (dos_entry m i)) = s" and "le32_to_int (size4 (dos_entry m i)) = c"
  using assms by (auto simp: decode_partitionInfo_def dos_entry_def DOS_PART_TBL_OFFSET_def Let_def
      bind_eq_Some_conv le32_to_int_get)

lemma entries_read:
  assumes "entries m linux fat" and "br 0 = Some m"
  shows "get_partition_info_dos br 1 = Some (Some fat)"
    and "k < 3 \<Longrightarrow> get_partition_info_dos br (2 + k) = Some (Some (linux ! k))"
proof -
  have d: "decode_partitionInfo m (0x1BE + 16 * 0) = Some (0, 0x0C, fst fat, snd fat)"
    "decode_partitionInfo m (0x1BE + 16 * 1) = Some (0, 0x83, fst (linux ! 0), snd (linux ! 0))"
    "decode_partitionInfo m (0x1BE + 16 * 2) = Some (0, 0x83, fst (linux ! 1), snd (linux ! 1))"
    "decode_partitionInfo m (0x1BE + 16 * 3) = Some (0, 0x83, fst (linux ! 2), snd (linux ! 2))"
    using assms(1) by (auto simp: entries_def dest: spec [of _ 0] spec [of _ 1] spec [of _ 2])
  note e = decode_dos_entry [OF d(1)] decode_dos_entry [OF d(2)] decode_dos_entry [OF d(3)] decode_dos_entry [OF d(4)]
  have magic: "has_magic m" using assms(1) by (simp add: entries_def has_magic_def DOS_PART_MAGIC_OFFSET_def)
  have scan: "get_partition_info_dos br n = Some (map_option (place 0) (fst (dos_scan 0 (dos_table m) 1 n)))"
    if "fst (dos_scan 0 (dos_table m) 1 n) \<noteq> None" for n
    using that assms(2) magic unfolding get_partition_info_dos_def
    by (subst get_partition_info_extended.simps) (auto simp: place_def split: prod.splits option.splits)
  note s = dos_table_def dos_hit_def e is_extended_def takes_number_def
  show "get_partition_info_dos br 1 = Some (Some fat)"
    using scan [of 1] by (simp add: s [unfolded One_nat_def] place_def)
  show "get_partition_info_dos br (2 + k) = Some (Some (linux ! k))" if k: "k < 3"
  proof -
    consider "k = 0" | "k = 1" | "k = 2" using k by linarith
    then show ?thesis using scan [of "2 + k"] by cases (simp_all add: s [unfolded One_nat_def] place_def)
  qed
qed

text \<open>The card driver: a written first block is read back and the geometry stays.\<close>

definition card_writes :: "'w mmc_ops \<Rightarrow> 'w \<Rightarrow> u32 \<Rightarrow> u32 \<Rightarrow> u32 \<Rightarrow> bool" where
  "card_writes ops w d capacity read_bl_len \<longleftrightarrow> mmc_geometry ops w d = Some (capacity, read_bl_len) \<and>
     (\<forall>m. snd (mmc_write ops w d 0 m) \<and> mmc_read ops (fst (mmc_write ops w d 0 m)) d 0 = Some m \<and>
        mmc_geometry ops (fst (mmc_write ops w d 0 m)) d = Some (capacity, read_bl_len))"

definition table_lines :: "(u32 \<times> u32) list \<Rightarrow> u32 \<times> u32 \<Rightarrow> (nat \<times> int \<times> u32 \<times> u32 \<times> byte) list" where
  "table_lines linux fat = print_line 1 (fst fat, snd fat, 0x0C) @
     concat (map (\<lambda>k. print_line (k + 2) (fst (linux ! k), snd (linux ! k), 0x83)) [0, 1, 2])"

lemma part_info_read:
  assumes "dev_number dev = Some d" and "mmc_geometry ops w d = Some g" and "mmc_read ops w d 0 = Some m"
    and "entries m linux fat"
  shows "get_mmc_part_info ops w dev 1 = Some (Some (fst fat, snd fat, 0x0C))"
    and "get_mmc_part_info ops w dev 2 = Some (Some (fst (linux ! 0), snd (linux ! 0), 0x83))"
    and "get_mmc_part_info ops w dev 3 = Some (Some (fst (linux ! 1), snd (linux ! 1), 0x83))"
    and "get_mmc_part_info ops w dev 4 = Some (Some (fst (linux ! 2), snd (linux ! 2), 0x83))"
proof -
  have r: "get_mmc_mbr ops w dev = Some (Some m)" using assms(1-3) by (simp add: get_mmc_mbr_def)
  have d: "decode_partitionInfo m 0x1BE = Some (0, 0x0C, fst fat, snd fat)"
    "decode_partitionInfo m 0x1CE = Some (0, 0x83, fst (linux ! 0), snd (linux ! 0))"
    "decode_partitionInfo m 0x1DE = Some (0, 0x83, fst (linux ! 1), snd (linux ! 1))"
    "decode_partitionInfo m 0x1EE = Some (0, 0x83, fst (linux ! 2), snd (linux ! 2))"
    using assms(4) by (auto simp: entries_def dest: spec [of _ 0] spec [of _ 1] spec [of _ 2])
  then show "get_mmc_part_info ops w dev 1 = Some (Some (fst fat, snd fat, 0x0C))"
    "get_mmc_part_info ops w dev 2 = Some (Some (fst (linux ! 0), snd (linux ! 0), 0x83))"
    "get_mmc_part_info ops w dev 3 = Some (Some (fst (linux ! 1), snd (linux ! 1), 0x83))"
    "get_mmc_part_info ops w dev 4 = Some (Some (fst (linux ! 2), snd (linux ! 2), 0x83))"
    by (simp_all add: get_mmc_part_info_def r case_prod_beta)
qed

text \<open>C9. The command \<open>fdisk -c\<close> on a card that can be written: it ends with result 0, the sector on the card
  is the one \<open>make_mmc_partition\<close> builds, the lines printed are its entries, and
  \<open>get_partition_info_dos\<close> finds the FAT partition as number 1 and the Linux partitions as 2 to 4.\<close>

theorem fdisk_then_part_dos:
  assumes "card_writes ops w d capacity read_bl_len" and "dev_number (argv ! 2) = Some d"
    and "2 ^ 16 \<le> unat (capacity * (read_bl_len div 512))" and "unat (capacity * (read_bl_len div 512)) < 2 ^ 31"
    and "length argv = 3 \<or> length argv = 6" and "argv ! 1 = txt_bytes ''-c''" and "0 \<notin> set (argv ! 2)"
    and "part_bytes (length argv = 6) argv 3 ONE_GB = Some l1"
    and "part_bytes (length argv = 6) argv 4
      (if argv ! 2 = txt_bytes ''1'' then THREE_HUNDRED_MB else ONE_GB) = Some l2"
    and "part_bytes (length argv = 6) argv 5 THREE_HUNDRED_MB = Some l3"
  shows "\<exists>w' m linux fat. do_fdisk ops p w argv = Some (w', 0, table_lines linux fat) \<and>
    make_mmc_partition p (capacity * (read_bl_len div 512)) (replicate 512 0) (length argv = 6) argv = Some m \<and>
    mmc_read ops w' d 0 = Some m \<and> entries m linux fat \<and>
    get_partition_info_dos (mmc_read ops w' d) 1 = Some (Some fat) \<and>
    (\<forall>k < 3. get_partition_info_dos (mmc_read ops w' d) (2 + k) = Some (Some (linux ! k)))"
proof -
  let ?tot = "capacity * (read_bl_len div 512)"
  let ?flag = "length argv = 6"
  define t where "t = unat ?tot"
  have tot: "?tot = of_nat t" and t: "t < 2 ^ 31" using assms(4) by (simp_all add: t_def)
  from get_SDInfo_card [OF t, of sd_zero] obtain u e sd where
    sd: "get_SDInfo ?tot sd_zero = Some sd" "sd_card t u e sd" unfolding tot by blast
  have f: "?flag \<or> 2 < length argv \<and> 0 \<notin> set (argv ! 2)" using assms(5,7) by auto
  obtain m linux fat where m: "make_mmc_partition p ?tot (replicate 512 0) ?flag argv = Some m" "entries m linux fat"
    using fdisk_layout_card [OF sd assms(8-10) f length_replicate, of p] by blast
  obtain w' where w: "mmc_write ops w d 0 m = (w', True)" "mmc_read ops w' d 0 = Some m"
    "mmc_geometry ops w d = Some (capacity, read_bl_len)" "mmc_geometry ops w' d = Some (capacity, read_bl_len)"
    using assms(1) by (cases "mmc_write ops w d 0 m") (auto simp: card_writes_def dest: spec [of _ m])
  have "\<not> sint ?tot < 0" using sint_small [OF t] unfolding tot by simp
  moreover have "rd argv 2 = Some (argv ! 2)" using assms(5) by auto
  moreover have "print_mmc_part_info ops w' argv = Some (table_lines linux fat)"
    using calculation(2) part_info_read [OF assms(2) w(4) w(2) m(2)]
    by (simp add: print_mmc_part_info_def table_lines_def numeral_eq_Suc)
  ultimately have c: "create_mmc_fdisk ops p w argv = Some (w', 0, table_lines linux fat)"
    using assms(2) w m(1) by (simp add: create_mmc_fdisk_def get_mmc_block_count_def put_mmc_mbr_def)
  have "0 \<notin> set (txt_bytes ''-c'')" by (simp add: txt_bytes_def)
  from str_cmp_eq [OF this this] have "str_cmp (argv ! 1) (txt_bytes ''-c'') = Some 0" unfolding assms(6) by auto
  then have "do_fdisk ops p w argv = Some (w', 0, table_lines linux fat)" using assms(5) c by (simp add: do_fdisk_def)
  then show ?thesis using m w(2) entries_read [OF m(2), of "mmc_read ops w' d"] by blast
qed

section \<open>A card\<close>

text \<open>A card whose state is its first block.\<close>

definition toy_card :: "mem mmc_ops" where
  "toy_card = \<lparr>mmc_geometry = (\<lambda>w d. if d = 0 then Some (31116288, 512) else None),
     mmc_read = (\<lambda>w d k. if d = 0 \<and> k = 0 then Some w else None),
     mmc_write = (\<lambda>w d k m. if d = 0 \<and> k = 0 then (m, True) else (w, False))\<rparr>"

theorem fdisk_then_part_dos_witness:
  "\<exists>w' linux fat. do_fdisk toy_card stale_part [1] [txt_bytes ''fdisk'', txt_bytes ''-c'', txt_bytes ''0''] =
      Some (w', 0, table_lines linux fat) \<and>
    get_partition_info_dos (mmc_read toy_card w' 0) 1 = Some (Some fat)"
proof -
  let ?argv = "[txt_bytes ''fdisk'', txt_bytes ''-c'', txt_bytes ''0'']"
  have c: "card_writes toy_card [1] 0 31116288 512" by (simp add: card_writes_def toy_card_def)
  have d: "dev_number (?argv ! 2) = Some 0" by code_simp
  have b: "part_bytes (length ?argv = 6) ?argv 3 ONE_GB = Some ONE_GB"
    "part_bytes (length ?argv = 6) ?argv 4 (if ?argv ! 2 = txt_bytes ''1'' then THREE_HUNDRED_MB else ONE_GB) = Some ONE_GB"
    "part_bytes (length ?argv = 6) ?argv 5 THREE_HUNDRED_MB = Some THREE_HUNDRED_MB"
    by (simp_all add: part_bytes_def txt_bytes_def)
  have s: "2 ^ 16 \<le> unat (31116288 * (512 div 512) :: u32)" "unat (31116288 * (512 div 512) :: u32) < 2 ^ 31" by simp_all
  have a: "length ?argv = 3 \<or> length ?argv = 6" "?argv ! 1 = txt_bytes ''-c''" "0 \<notin> set (?argv ! 2)"
    by (simp_all add: txt_bytes_def)
  from fdisk_then_part_dos [OF c d s a b, of stale_part] show ?thesis by blast
qed

end
