(* ===== verification/Format.thy ===== *)
theory Format
  imports Vsprintf
begin

text \<open>
  The interpreter of format strings, \<open>vsprintf\<close> of \<^verbatim>\<open>lib_generic/vsprintf.c\<close>, for a build without
  network commands. The format is an object with its terminator; the arguments are a list, and
  an argument of another type than the conversion asks for, like one that is missing, is \<open>None\<close>.
  The result is the text that is stored, without its terminator. The conversion \<open>%n\<close>, which stores
  through a pointer, is \<open>None\<close>.
\<close>

datatype va = VInt u32 | VQuad u64 | VStr "byte list option" | VPtr u32

fun va_int :: "va list \<Rightarrow> (u32 \<times> va list) option" where
  "va_int (VInt x # as) = Some (x, as)"
| "va_int _ = None"

fun va_quad :: "va list \<Rightarrow> (u64 \<times> va list) option" where
  "va_quad (VQuad x # as) = Some (x, as)"
| "va_quad _ = None"

fun va_str :: "va list \<Rightarrow> (byte list option \<times> va list) option" where
  "va_str (VStr s # as) = Some (s, as)"
| "va_str _ = None"

fun va_ptr :: "va list \<Rightarrow> (u32 \<times> va list) option" where
  "va_ptr (VPtr x # as) = Some (x, as)"
| "va_ptr _ = None"

section \<open>The parts of a conversion\<close>

definition flag_of :: "byte \<Rightarrow> u32 option" where
  "flag_of c = (if c = 45 then Some 16 else if c = 43 then Some 4 else if c = 32 then Some 8
     else if c = 35 then Some 64 else if c = 48 then Some 1 else None)"

function fmt_flags :: "mem \<Rightarrow> nat \<Rightarrow> u32 \<Rightarrow> (nat \<times> u32) option" where
  "fmt_flags m p flags =
     (if p < length m
      then (case flag_of (m ! p) of Some f \<Rightarrow> fmt_flags m (p + 1) (flags OR f) | None \<Rightarrow> Some (p, flags))
      else None)"
  by pat_completeness auto
termination by (relation "measure (\<lambda>(m, p, f). length m - p)") auto

declare fmt_flags.simps [simp del]

definition fmt_digit :: "byte \<Rightarrow> bool" where
  "fmt_digit c \<longleftrightarrow> 48 \<le> c \<and> c \<le> 57"

definition fmt_width :: "mem \<Rightarrow> nat \<Rightarrow> u32 \<Rightarrow> va list \<Rightarrow> (nat \<times> int \<times> u32 \<times> va list) option" where
  "fmt_width m p flags as = do {
     c \<leftarrow> rd m p;
     if fmt_digit c then map_option (\<lambda>(n, p). (p, sint n, flags, as)) (skip_atoi m p 0)
     else if c = 42
     then map_option (\<lambda>(n, as). if sint n < 0 then (p + 1, sint (- n), flags OR 16, as) else (p + 1, sint n, flags, as)) (va_int as)
     else Some (p, - 1, flags, as)
   }"

definition fmt_precision :: "mem \<Rightarrow> nat \<Rightarrow> va list \<Rightarrow> (nat \<times> int \<times> va list) option" where
  "fmt_precision m p as = do {
     c \<leftarrow> rd m p;
     if c = 46
     then do {
       c \<leftarrow> rd m (p + 1);
       (p, n, as) \<leftarrow>
         (if fmt_digit c then map_option (\<lambda>(n, p). (p, sint n, as)) (skip_atoi m (p + 1) 0)
          else if c = 42 then map_option (\<lambda>(n, as). (p + 2, sint n, as)) (va_int as)
          else Some (p + 1, - 1, as));
       Some (p, if n < 0 then 0 else n, as)
     }
     else Some (p, - 1, as)
   }"

text \<open>The qualifier, 0 for none.\<close>

definition fmt_qualifier :: "mem \<Rightarrow> nat \<Rightarrow> (nat \<times> byte) option" where
  "fmt_qualifier m p = do {
     c \<leftarrow> rd m p;
     if c \<in> {104, 108, 76, 90, 122, 116}
     then do {
       d \<leftarrow> rd m (p + 1);
       Some (if c = 108 \<and> d = 108 then (p + 2, 76) else (p + 1, c))
     }
     else Some (p, 0)
   }"

text \<open>The value of an integer argument.\<close>

definition fmt_num :: "byte \<Rightarrow> u32 \<Rightarrow> va list \<Rightarrow> (u64 \<times> va list) option" where
  "fmt_num qualifier flags as =
     (if qualifier = 76 then va_quad as
      else map_option (\<lambda>(x, as). (
        (if qualifier = 90 \<or> qualifier = 122 then ucast x
         else if qualifier = 116 then scast x
         else if qualifier = 104
         then (if flags AND 2 \<noteq> 0 then scast (ucast x :: u16) else ucast (ucast x :: u16))
         else if flags AND 2 \<noteq> 0 then scast x else ucast x), as)) (va_int as))"

definition pointer :: "u32 \<Rightarrow> int \<Rightarrow> nat \<Rightarrow> int \<Rightarrow> u32 \<Rightarrow> byte list" where
  "pointer ptr field_width string_precision precision flags =
     (if ptr = 0 then string_field (Some [40, 110, 117, 108, 108, 41]) field_width string_precision flags
      else if field_width = - 1 then number (ucast ptr) 16 8 precision (flags OR 32 OR 1)
      else number (ucast ptr) 16 field_width precision (flags OR 32))"

definition isalnum :: "byte \<Rightarrow> bool" where
  "isalnum c \<longleftrightarrow> ctype_mask c AND (0x01 OR 0x02 OR 0x04) \<noteq> 0"

function skip_alnum :: "mem \<Rightarrow> nat \<Rightarrow> nat option" where
  "skip_alnum m p =
     (if p < length m then if isalnum (m ! p) then skip_alnum m (p + 1) else Some p else None)"
  by pat_completeness auto
termination by (relation "measure (\<lambda>(m, p). length m - p)") auto

declare skip_alnum.simps [simp del]

text \<open>The conversion at \<open>p\<close>: the text, where the format goes on, and the arguments left.\<close>

definition fmt_convert ::
  "mem \<Rightarrow> nat \<Rightarrow> u32 \<Rightarrow> int \<Rightarrow> int \<Rightarrow> byte \<Rightarrow> va list \<Rightarrow> (byte list \<times> nat \<times> va list) option" where
  "fmt_convert m p flags width precision qualifier as = do {
     c \<leftarrow> rd m p;
     let sprec = (if precision < 0 then 2 ^ 32 - 1 else nat precision);
     let num = (\<lambda>base flags. map_option
       (\<lambda>(x, as). (number x base width precision flags, p + 1, as)) (fmt_num qualifier flags as));
     if c = 99 then map_option (\<lambda>(x, as).
        ((if flags AND 16 = 0 then pad_with 32 (width - 1) @ [ucast x] else [ucast x] @ pad_with 32 (width - 1)), p + 1, as)) (va_int as)
     else if c = 115 then map_option (\<lambda>(s, as). (string_field s width sprec flags, p + 1, as)) (va_str as)
     else if c = 112 then do {
       (x, as) \<leftarrow> va_ptr as;
       q \<leftarrow> skip_alnum m (p + 1);
       Some (pointer x width sprec precision flags, q, as)
     }
     else if c = 110 then None
     else if c = 37 then Some ([37], p + 1, as)
     else if c = 111 then num 8 flags
     else if c = 120 then num 16 (flags OR 32)
     else if c = 88 then num 16 flags
     else if c = 100 \<or> c = 105 then num 10 (flags OR 2)
     else if c = 117 then num 10 flags
     else if c = 0 then Some ([37], p, as)
     else Some ([37, c], p + 1, as)
   }"

definition fmt_item :: "mem \<Rightarrow> nat \<Rightarrow> va list \<Rightarrow> (byte list \<times> nat \<times> va list) option" where
  "fmt_item m p as = do {
     (p, flags) \<leftarrow> fmt_flags m (p + 1) 0;
     (p, width, flags, as) \<leftarrow> fmt_width m p flags as;
     (p, precision, as) \<leftarrow> fmt_precision m p as;
     (p, qualifier) \<leftarrow> fmt_qualifier m p;
     fmt_convert m p flags width precision qualifier as
   }"

text \<open>Every conversion moves on in the format.\<close>

lemma fmt_flags_ge: "fmt_flags m p f = Some (q, f') \<Longrightarrow> p \<le> q"
proof (induction m p f rule: fmt_flags.induct)
  case (1 m p f)
  then show ?case by (subst (asm) (2) fmt_flags.simps) (force split: if_splits option.splits)
qed

lemma skip_atoi_ge: "skip_atoi m p n = Some (n', q) \<Longrightarrow> p \<le> q"
proof (induction m p n rule: skip_atoi.induct)
  case (1 m p n)
  then show ?case by (subst (asm) (2) skip_atoi.simps) (force split: if_splits)
qed

lemma skip_alnum_ge: "skip_alnum m p = Some q \<Longrightarrow> p \<le> q"
proof (induction m p rule: skip_alnum.induct)
  case (1 m p)
  then show ?case by (subst (asm) (2) skip_alnum.simps) (force split: if_splits)
qed

lemma fmt_item_gt: "fmt_item m p as = Some (out, q, as') \<Longrightarrow> p < q"
proof -
  assume "fmt_item m p as = Some (out, q, as')"
  then obtain p1 f p2 w f2 a2 p3 pr a3 p4 ql where
    "fmt_flags m (p + 1) 0 = Some (p1, f)" "fmt_width m p1 f as = Some (p2, w, f2, a2)"
    "fmt_precision m p2 a2 = Some (p3, pr, a3)" "fmt_qualifier m p3 = Some (p4, ql)"
    "fmt_convert m p4 f2 w pr ql a3 = Some (out, q, as')"
    by (auto simp: fmt_item_def bind_eq_Some_conv)
  moreover from this(2) have "p1 \<le> p2"
    by (auto simp: fmt_width_def bind_eq_Some_conv dest: skip_atoi_ge split: if_splits)
  moreover from calculation(3) have "p2 \<le> p3"
    by (auto simp: fmt_precision_def bind_eq_Some_conv dest: skip_atoi_ge split: if_splits)
  moreover from calculation(4) have "p3 \<le> p4"
    by (auto simp: fmt_qualifier_def bind_eq_Some_conv split: if_splits)
  moreover from calculation(5) have "p4 \<le> q"
    by (auto simp: fmt_convert_def Let_def bind_eq_Some_conv dest: skip_alnum_ge split: if_splits)
  ultimately show "p < q" using fmt_flags_ge by fastforce
qed

section \<open>The loop\<close>

function vsprintf :: "mem \<Rightarrow> nat \<Rightarrow> va list \<Rightarrow> byte list option" where
  "vsprintf m p as =
     (if length m \<le> p then None
      else if m ! p = 0 then Some []
      else if m ! p \<noteq> 37 then map_option (\<lambda>out. m ! p # out) (vsprintf m (p + 1) as)
      else (case fmt_item m p as of
              None \<Rightarrow> None
            | Some (out, p, as) \<Rightarrow> map_option (\<lambda>rest. out @ rest) (vsprintf m p as)))"
  by pat_completeness auto
termination
  by (relation "measure (\<lambda>(m, p, as). length m - p)") (auto dest: fmt_item_gt intro: diff_less_mono2)

declare vsprintf.simps [simp del]

text \<open>The text stored and the value returned.\<close>

definition sprintf :: "byte list \<Rightarrow> va list \<Rightarrow> (byte list \<times> nat) option" where
  "sprintf fmt as = map_option (\<lambda>out. (out, length out)) (vsprintf (fmt @ [0]) 0 as)"

end
