(* ===== verification/Ext4.thy ===== *)
theory Ext4
  imports Command Format
begin

text \<open>
  Compressed file-system images, \<^verbatim>\<open>common/decompress_ext4.c\<close> and
  \<^verbatim>\<open>include/decompress_ext4.h\<close>: a header, then chunks that are stored, skipped or unknown. The image
  is an object in memory whose first byte has the address \<open>base\<close>; \<open>run\<close> is
  \<open>run_command\<close> on the world.
\<close>

definition EXT4_FILE_HEADER_MAGIC :: u32 where "EXT4_FILE_HEADER_MAGIC = 0xED26FF3A"
definition EXT4_FILE_HEADER_MAJOR :: u16 where "EXT4_FILE_HEADER_MAJOR = 0x0001"
definition EXT4_FILE_BLOCK_SIZE :: u32 where "EXT4_FILE_BLOCK_SIZE = 0x1000"
definition EXT4_FILE_HEADER_SIZE :: nat where "EXT4_FILE_HEADER_SIZE = 28"
definition EXT4_CHUNK_HEADER_SIZE :: nat where "EXT4_CHUNK_HEADER_SIZE = 12"
definition EXT4_CHUNK_TYPE_RAW :: u16 where "EXT4_CHUNK_TYPE_RAW = 0xCAC1"
definition EXT4_CHUNK_TYPE_FILL :: u16 where "EXT4_CHUNK_TYPE_FILL = 0xCAC2"
definition EXT4_CHUNK_TYPE_NONE :: u16 where "EXT4_CHUNK_TYPE_NONE = 0xCAC3"
definition SECTOR_BITS :: nat where "SECTOR_BITS = 9"

text \<open>The fields of the two headers.\<close>

definition field32 :: "mem \<Rightarrow> nat \<Rightarrow> u32 option" where
  "field32 m p = map_option get_le32 (rdn m p 4)"

definition field16 :: "mem \<Rightarrow> nat \<Rightarrow> u16 option" where
  "field16 m p = map_option get_le16 (rdn m p 2)"

definition fh_magic :: "mem \<Rightarrow> nat \<Rightarrow> u32 option" where "fh_magic m p = field32 m p"
definition fh_major :: "mem \<Rightarrow> nat \<Rightarrow> u16 option" where "fh_major m p = field16 m (p + 4)"
definition fh_file_header_size :: "mem \<Rightarrow> nat \<Rightarrow> u16 option" where "fh_file_header_size m p = field16 m (p + 8)"
definition fh_chunk_header_size :: "mem \<Rightarrow> nat \<Rightarrow> u16 option" where "fh_chunk_header_size m p = field16 m (p + 10)"
definition fh_block_size :: "mem \<Rightarrow> nat \<Rightarrow> u32 option" where "fh_block_size m p = field32 m (p + 12)"
definition fh_total_blocks :: "mem \<Rightarrow> nat \<Rightarrow> u32 option" where "fh_total_blocks m p = field32 m (p + 16)"
definition fh_total_chunks :: "mem \<Rightarrow> nat \<Rightarrow> u32 option" where "fh_total_chunks m p = field32 m (p + 20)"

definition ch_type :: "mem \<Rightarrow> nat \<Rightarrow> u16 option" where "ch_type m p = field16 m p"
definition ch_chunk_size :: "mem \<Rightarrow> nat \<Rightarrow> u32 option" where "ch_chunk_size m p = field32 m (p + 4)"
definition ch_total_size :: "mem \<Rightarrow> nat \<Rightarrow> u32 option" where "ch_total_size m p = field32 m (p + 8)"

text \<open>The check: a result, or the endless loop behind the message about the size of the volume.\<close>

datatype check = Result int | Hangs

definition check_compress_ext4 :: "mem \<Rightarrow> nat \<Rightarrow> u32 \<Rightarrow> check option" where
  "check_compress_ext4 m img_base parti_size = do {
     magic \<leftarrow> fh_magic m img_base;
     if magic \<noteq> EXT4_FILE_HEADER_MAGIC then Some (Result (- 1))
     else do {
       major \<leftarrow> fh_major m img_base;
       if major \<noteq> EXT4_FILE_HEADER_MAJOR then Some (Result (- 1))
       else do {
         fsize \<leftarrow> fh_file_header_size m img_base;
         if unat fsize \<noteq> EXT4_FILE_HEADER_SIZE then Some (Result (- 1))
         else do {
           csize \<leftarrow> fh_chunk_header_size m img_base;
           if unat csize \<noteq> EXT4_CHUNK_HEADER_SIZE then Some (Result (- 1))
           else do {
             bsize \<leftarrow> fh_block_size m img_base;
             if bsize \<noteq> EXT4_FILE_BLOCK_SIZE then Some (Result (- 1))
             else do {
               blocks \<leftarrow> fh_total_blocks m img_base;
               Some (if parti_size div bsize < blocks then Hangs else Result 0)
             }
           }
         }
       }
     }
   }"

definition write_raw_chunk ::
  "(byte list \<Rightarrow> 'w \<Rightarrow> ('w \<times> int) option) \<Rightarrow> u32 \<Rightarrow> u32 \<Rightarrow> u32 \<Rightarrow> u32 \<Rightarrow> 'w \<Rightarrow> ('w \<times> int) option" where
  "write_raw_chunk run dev_number_write data sector sector_size w = do {
     (run_cmd, _) \<leftarrow> sprintf (txt_bytes ''mmc write %s 0x%x 0x%x 0x%x'')
       [VStr (Some (if dev_number_write \<noteq> 0 then txt_bytes ''1'' else txt_bytes ''0'')), VInt data, VInt sector, VInt sector_size];
     (w, err) \<leftarrow> run run_cmd w;
     Some (w, 1 - err)
   }"

text \<open>The loop, for \<open>n\<close> chunks that are left; the error of a chunk that could not be stored ends it.\<close>

primrec write_chunks ::
  "nat \<Rightarrow> (byte list \<Rightarrow> 'w \<Rightarrow> ('w \<times> int) option) \<Rightarrow> u32 \<Rightarrow> u32 \<Rightarrow> u32 \<Rightarrow> mem \<Rightarrow> nat \<Rightarrow> u32 \<Rightarrow> 'w \<Rightarrow> ('w \<times> int) option" where
  "write_chunks 0 run dev_number_write base block_size m p sector_base w = Some (w, 0)"
| "write_chunks (Suc n) run dev_number_write base block_size m p sector_base w = do {
     chunk_size \<leftarrow> ch_chunk_size m p;
     type \<leftarrow> ch_type m p;
     let sector_size = drop_bit SECTOR_BITS (chunk_size * block_size);
     if type = EXT4_CHUNK_TYPE_RAW
     then do {
       (w, err) \<leftarrow> write_raw_chunk run dev_number_write (base + of_nat (p + EXT4_CHUNK_HEADER_SIZE)) sector_base sector_size w;
       if err \<noteq> 0 then Some (w, err)
       else do {
         total_size \<leftarrow> ch_total_size m p;
         write_chunks n run dev_number_write base block_size m (p + unat total_size) (sector_base + sector_size) w
       }
     }
     else do {
       total_size \<leftarrow> ch_total_size m p;
       write_chunks n run dev_number_write base block_size m (p + unat total_size) (sector_base + sector_size) w
     }
   }"

definition write_compressed_ext4 ::
  "(byte list \<Rightarrow> 'w \<Rightarrow> ('w \<times> int) option) \<Rightarrow> u32 \<Rightarrow> u32 \<Rightarrow> mem \<Rightarrow> nat \<Rightarrow> u32 \<Rightarrow> 'w \<Rightarrow> ('w \<times> int) option" where
  "write_compressed_ext4 run dev_number_write base m img_base sector_base w = do {
     total_chunks \<leftarrow> fh_total_chunks m img_base;
     if total_chunks = 0 then Some (w, 0)
     else do {
       block_size \<leftarrow> fh_block_size m img_base;
       write_chunks (unat total_chunks) run dev_number_write base block_size m (img_base + EXT4_FILE_HEADER_SIZE) sector_base w
     }
   }"

end
