(* ===== verification/Mmc.thy ===== *)
theory Mmc
  imports Command
begin

text \<open>
  Reading and writing cards: the block functions of \<^verbatim>\<open>drivers/mmc/mmc.c\<close> and the command
  \<^verbatim>\<open>mmc\<close> of \<^verbatim>\<open>common/cmd_mmc.c\<close>. The state is the memory of the board, the list of
  registered cards, and whatever the cards hold. The host controller, the start-up of a card, erasing and
  the allocator are parameters; a data transfer is a command of the controller.
\<close>

definition MMC_DATA_READ :: u32 where "MMC_DATA_READ = 1"
definition MMC_DATA_WRITE :: u32 where "MMC_DATA_WRITE = 2"
definition MMC_CMD_READ_SINGLE_BLOCK :: u32 where "MMC_CMD_READ_SINGLE_BLOCK = 17"
definition MMC_CMD_READ_MULTIPLE_BLOCK :: u32 where "MMC_CMD_READ_MULTIPLE_BLOCK = 18"
definition MMC_CMD_WRITE_SINGLE_BLOCK :: u32 where "MMC_CMD_WRITE_SINGLE_BLOCK = 24"
definition MMC_CMD_WRITE_MULTIPLE_BLOCK :: u32 where "MMC_CMD_WRITE_MULTIPLE_BLOCK = 25"
definition MMC_RSP_R1 :: u32 where "MMC_RSP_R1 = 1 OR 4 OR 16"
definition MAXBLKCNT :: u32 where "MAXBLKCNT = 0xFFFF"

record mmc_cmd =
  cmdidx :: u32
  resp_type :: u32
  cmdarg :: u32
  cmd_flags :: u32

record mmc_data =
  data_at :: u32
  data_flags :: u32
  data_blocks :: u32
  data_blocksize :: u32

text \<open>What these functions use of \<open>struct mmc\<close>.\<close>

record mmc_dev =
  d_dev :: u32
  d_high_capacity :: bool
  d_capacity :: u32
  d_boot_size_multi :: u32

record 'c machine =
  mach_ram :: "u32 \<Rightarrow> byte"
  mach_devs :: "mmc_dev list"
  mach_cards :: 'c

text \<open>The functions called through \<open>struct mmc\<close> and in other files: \<open>send_cmd\<close>, \<open>init\<close>,
  \<open>mmc_init\<close>, \<open>mmc_erase\<close>, \<open>malloc\<close> and \<open>free\<close>.\<close>

record 'c driver =
  drv_send_cmd :: "mmc_dev \<Rightarrow> mmc_cmd \<Rightarrow> mmc_data option \<Rightarrow> 'c machine \<Rightarrow> 'c machine \<times> u32"
  drv_init :: "mmc_dev \<Rightarrow> 'c machine \<Rightarrow> 'c machine"
  drv_mmc_init :: "mmc_dev \<Rightarrow> 'c machine \<Rightarrow> 'c machine \<times> int"
  drv_erase :: "mmc_dev \<Rightarrow> u32 \<Rightarrow> u32 \<Rightarrow> u32 \<Rightarrow> 'c machine \<Rightarrow> 'c machine \<times> int"
  drv_malloc :: "u32 \<Rightarrow> 'c machine \<Rightarrow> 'c machine \<times> u32"
  drv_free :: "u32 \<Rightarrow> 'c machine \<Rightarrow> 'c machine"

section \<open>Blocks\<close>

definition find_mmc_device :: "mmc_dev list \<Rightarrow> u32 \<Rightarrow> mmc_dev option" where
  "find_mmc_device devs dev_num = find (\<lambda>m. d_dev m = dev_num) devs"

definition rw_cmd :: "mmc_dev \<Rightarrow> u32 \<Rightarrow> u32 \<Rightarrow> mmc_cmd" where
  "rw_cmd host idx start =
     \<lparr>cmdidx = idx, resp_type = MMC_RSP_R1, cmdarg = (if d_high_capacity host then start else start * push_bit 9 1),
      cmd_flags = 0\<rparr>"

definition rw_data :: "u32 \<Rightarrow> u32 \<Rightarrow> u32 \<Rightarrow> mmc_data" where
  "rw_data at flags blkcnt = \<lparr>data_at = at, data_flags = flags, data_blocks = blkcnt, data_blocksize = push_bit 9 1\<rparr>"

definition mmc_bread_primitive ::
  "'c driver \<Rightarrow> u32 \<Rightarrow> u32 \<Rightarrow> u32 \<Rightarrow> u32 \<Rightarrow> 'c machine \<Rightarrow> 'c machine \<times> u32" where
  "mmc_bread_primitive drv dev_num start blkcnt dst w =
     (case find_mmc_device (mach_devs w) dev_num of
        None \<Rightarrow> (w, 0)
      | Some host \<Rightarrow>
          (case drv_send_cmd drv host
                  (rw_cmd host (if 1 < blkcnt then MMC_CMD_READ_MULTIPLE_BLOCK else MMC_CMD_READ_SINGLE_BLOCK) start)
                  (Some (rw_data dst MMC_DATA_READ blkcnt)) w of
             (w, err) \<Rightarrow> (w, if err \<noteq> 0 then err else blkcnt)))"

function mmc_bread_loop ::
  "'c driver \<Rightarrow> u32 \<Rightarrow> u32 \<Rightarrow> u32 \<Rightarrow> u32 \<Rightarrow> u32 \<Rightarrow> 'c machine \<Rightarrow> 'c machine \<times> u32" where
  "mmc_bread_loop drv dev_num start blkcnt_tmp dst ret w =
     (if MAXBLKCNT \<le> blkcnt_tmp
      then (case mmc_bread_primitive drv dev_num start MAXBLKCNT dst w of
              (w, r) \<Rightarrow> mmc_bread_loop drv dev_num (start + MAXBLKCNT) (blkcnt_tmp - MAXBLKCNT)
                         (dst + MAXBLKCNT * 512) (ret + r) w)
      else (case mmc_bread_primitive drv dev_num start blkcnt_tmp dst w of (w, r) \<Rightarrow> (w, ret + r)))"
  by pat_completeness auto
termination
  by (relation "measure (\<lambda>(drv, dev_num, start, n, dst, ret, w). unat n)")
    (auto simp: MAXBLKCNT_def unat_sub word_le_nat_alt)

declare mmc_bread_loop.simps [simp del]

definition mmc_bread :: "'c driver \<Rightarrow> u32 \<Rightarrow> u32 \<Rightarrow> u32 \<Rightarrow> u32 \<Rightarrow> 'c machine \<Rightarrow> 'c machine \<times> u32" where
  "mmc_bread drv dev_num start blkcnt dst w = mmc_bread_loop drv dev_num start blkcnt dst 0 w"

definition mmc_bwrite :: "'c driver \<Rightarrow> u32 \<Rightarrow> u32 \<Rightarrow> u32 \<Rightarrow> u32 \<Rightarrow> 'c machine \<Rightarrow> 'c machine \<times> u32" where
  "mmc_bwrite drv dev_num start blkcnt src w =
     (case find_mmc_device (mach_devs w) dev_num of
        None \<Rightarrow> (w, 0)
      | Some host \<Rightarrow>
          (case drv_send_cmd drv host
                  (rw_cmd host (if 1 < blkcnt then MMC_CMD_WRITE_MULTIPLE_BLOCK else MMC_CMD_WRITE_SINGLE_BLOCK) start)
                  (Some (rw_data src MMC_DATA_WRITE blkcnt)) w of
             (w, err) \<Rightarrow> (w, if err \<noteq> 0 then err else blkcnt)))"

definition movi_write :: "'c driver \<Rightarrow> u32 \<Rightarrow> u32 \<Rightarrow> u32 \<Rightarrow> 'c machine \<Rightarrow> 'c machine \<times> u32" where
  "movi_write drv start blkcnt src w = mmc_bwrite drv 0 start blkcnt src w"

definition movi_read :: "'c driver \<Rightarrow> u32 \<Rightarrow> u32 \<Rightarrow> u32 \<Rightarrow> 'c machine \<Rightarrow> 'c machine \<times> u32" where
  "movi_read drv start blkcnt dst w = mmc_bread drv 0 start blkcnt dst w"

section \<open>The command\<close>

text \<open>A number of the command line; a missing argument is a null pointer.\<close>

definition arg_num :: "byte list list \<Rightarrow> nat \<Rightarrow> nat \<Rightarrow> u32 option" where
  "arg_num argv k base = do { a \<leftarrow> rd argv k; map_option fst (simple_strtoul (a @ [0]) 0 base) }"

definition arg_is :: "byte list list \<Rightarrow> nat \<Rightarrow> char list \<Rightarrow> bool option" where
  "arg_is argv k s = do { a \<leftarrow> rd argv k; map_option (\<lambda>r. r = 0) (str_cmp a (txt_bytes s)) }"

definition ram_bytes :: "(u32 \<Rightarrow> byte) \<Rightarrow> u32 \<Rightarrow> nat \<Rightarrow> byte list" where
  "ram_bytes r a n = map (\<lambda>i. r (a + of_nat i)) [0..<n]"

definition mmc_cmd_erase :: "'c driver \<Rightarrow> 'c machine \<Rightarrow> byte list list \<Rightarrow> ('c machine \<times> int) option" where
  "mmc_cmd_erase drv w argv = do {
     dev \<leftarrow> arg_num argv 3 10;
     start \<leftarrow> arg_num argv 4 10;
     block \<leftarrow> arg_num argv 5 10;
     boot \<leftarrow> arg_is argv 2 ''boot'';
     mmc \<leftarrow> find_mmc_device (mach_devs w) dev;
     let part = (if boot then 0 else 1);
     let count = (if boot then d_boot_size_multi mmc * 256 else d_capacity mmc);
     let block = (if count < start + block then count - start - 1 else block);
     let block = (if block = 0 then count - start - 1 else block);
     (case drv_erase drv mmc part start block w of (w, rc) \<Rightarrow> Some (w, if rc = 0 then 0 else - 1))
   }"

definition mmc_cmd_read :: "'c driver \<Rightarrow> 'c machine \<Rightarrow> byte list list \<Rightarrow> ('c machine \<times> int) option" where
  "mmc_cmd_read drv w argv = do {
     dev \<leftarrow> arg_num argv 2 10;
     addr \<leftarrow> arg_num argv 3 16;
     cnt \<leftarrow> arg_num argv 5 16;
     blk \<leftarrow> arg_num argv 4 16;
     (case find_mmc_device (mach_devs w) dev of
        None \<Rightarrow> Some (w, 1)
      | Some mmc \<Rightarrow> (case mmc_bread drv dev blk cnt addr w of (w, n) \<Rightarrow> Some (w, if n = cnt then 0 else 1)))
   }"

text \<open>A write is read back into a buffer and compared, if there is room for one.\<close>

definition mmc_cmd_write :: "'c driver \<Rightarrow> 'c machine \<Rightarrow> byte list list \<Rightarrow> ('c machine \<times> int) option" where
  "mmc_cmd_write drv w argv = do {
     dev \<leftarrow> arg_num argv 2 10;
     addr \<leftarrow> arg_num argv 3 16;
     cnt \<leftarrow> arg_num argv 5 16;
     blk \<leftarrow> arg_num argv 4 16;
     (case find_mmc_device (mach_devs w) dev of
        None \<Rightarrow> Some (w, 1)
      | Some mmc \<Rightarrow>
          (case mmc_bwrite drv dev blk cnt addr w of (w, wblocks) \<Rightarrow>
           case drv_malloc drv (cnt * 512) w of (w, readbuf) \<Rightarrow>
             if readbuf = 0 then Some (w, if wblocks = cnt then 0 else 1)
             else (case mmc_bread drv dev blk cnt readbuf w of (w, rblocks) \<Rightarrow>
               let rc = (if wblocks = rblocks \<and> wblocks = cnt
                         then if ram_bytes (mach_ram w) addr (unat (cnt * 512)) =
                                 ram_bytes (mach_ram w) readbuf (unat (cnt * 512)) then 0 else 1
                         else 1)
               in Some (drv_free drv readbuf w, rc))))
   }"

definition do_mmcops :: "'c driver \<Rightarrow> 'c machine \<Rightarrow> byte list list \<Rightarrow> ('c machine \<times> int) option" where
  "do_mmcops drv w argv =
     (if length argv = 2
      then do {
        list \<leftarrow> arg_is argv 1 ''list'';
        Some (if list then (fold (drv_init drv) (mach_devs w) w, 0) else (w, 1))
      }
      else if length argv = 3
      then do {
        rescan \<leftarrow> arg_is argv 1 ''rescan'';
        if rescan
        then do {
          dev \<leftarrow> arg_num argv 2 10;
          (case find_mmc_device (mach_devs w) dev of None \<Rightarrow> Some (w, 1) | Some mmc \<Rightarrow> Some (drv_mmc_init drv mmc w))
        }
        else Some (w, 1)
      }
      else if length argv \<in> {0, 1, 4} then Some (w, 1)
      else do {
        erase \<leftarrow> arg_is argv 1 ''erase'';
        read \<leftarrow> arg_is argv 1 ''read'';
        write \<leftarrow> arg_is argv 1 ''write'';
        if erase then mmc_cmd_erase drv w argv
        else if read then mmc_cmd_read drv w argv
        else if write then mmc_cmd_write drv w argv
        else Some (w, 1)
      })"

end
