(* ===== verification/MmcCorrect.thy ===== *)
theory MmcCorrect
  imports Mmc CommandCorrect
begin

text \<open>
  What the \<^verbatim>\<open>mmc\<close> command does on a card that obeys its data-transfer commands: the blocks of
  the card become what memory holds, and reading in pieces is reading in one.
\<close>

section \<open>Cards\<close>

text \<open>The contents of cards: a block of 512 bytes for every device and number.\<close>

type_synonym cards = "u32 \<Rightarrow> u32 \<Rightarrow> byte list"

definition ram_block :: "(u32 \<Rightarrow> byte) \<Rightarrow> u32 \<Rightarrow> nat \<Rightarrow> byte list" where
  "ram_block r a i = ram_bytes r (a + of_nat (512 * i)) 512"

text \<open>The blocks from \<open>s\<close> on replaced by what memory holds from \<open>a\<close> on, and memory from \<open>a\<close>
  on replaced by blocks.\<close>

definition put_blocks :: "(u32 \<Rightarrow> byte list) \<Rightarrow> u32 \<Rightarrow> (u32 \<Rightarrow> byte) \<Rightarrow> u32 \<Rightarrow> nat \<Rightarrow> u32 \<Rightarrow> byte list" where
  "put_blocks c s r a n = (\<lambda>b. if unat (b - s) < n then ram_block r a (unat (b - s)) else c b)"

definition get_blocks :: "(u32 \<Rightarrow> byte list) \<Rightarrow> u32 \<Rightarrow> (u32 \<Rightarrow> byte) \<Rightarrow> u32 \<Rightarrow> nat \<Rightarrow> u32 \<Rightarrow> byte" where
  "get_blocks c s r a n = (\<lambda>x. if unat (x - a) < 512 * n
     then c (s + of_nat (unat (x - a) div 512)) ! (unat (x - a) mod 512) else r x)"

text \<open>The commands for a transfer of at least one block inside the card succeed and do what they say.\<close>

definition obeys :: "cards driver \<Rightarrow> mmc_dev \<Rightarrow> bool" where
  "obeys drv h \<longleftrightarrow> (\<forall>w s a n. 0 < n \<longrightarrow> unat s + unat n \<le> unat (d_capacity h) \<longrightarrow> 512 * unat n < 2 ^ 32 \<longrightarrow>
     drv_send_cmd drv h (rw_cmd h (if 1 < n then 25 else 24) s) (Some (rw_data a 2 n)) w =
       (w\<lparr>mach_cards := (mach_cards w)(d_dev h := put_blocks (mach_cards w (d_dev h)) s (mach_ram w) a (unat n))\<rparr>, 0) \<and>
     drv_send_cmd drv h (rw_cmd h (if 1 < n then 18 else 17) s) (Some (rw_data a 1 n)) w =
       (w\<lparr>mach_ram := get_blocks (mach_cards w (d_dev h)) s (mach_ram w) a (unat n)\<rparr>, 0))"

definition present :: "cards machine \<Rightarrow> mmc_dev \<Rightarrow> bool" where
  "present w h \<longleftrightarrow> find_mmc_device (mach_devs w) (d_dev h) = Some h"

lemma obeys_cmds:
  assumes "obeys drv h" and "0 < n" and "unat s + unat n \<le> unat (d_capacity h)" and "512 * unat n < 2 ^ 32"
  shows "drv_send_cmd drv h (rw_cmd h (if 1 < n then 25 else 24) s) (Some (rw_data a 2 n)) w =
      (w\<lparr>mach_cards := (mach_cards w)(d_dev h := put_blocks (mach_cards w (d_dev h)) s (mach_ram w) a (unat n))\<rparr>, 0)"
    and "drv_send_cmd drv h (rw_cmd h (if 1 < n then 18 else 17) s) (Some (rw_data a 1 n)) w =
      (w\<lparr>mach_ram := get_blocks (mach_cards w (d_dev h)) s (mach_ram w) a (unat n)\<rparr>, 0)"
  using assms unfolding obeys_def by blast+

lemma obeys_write:
  "obeys drv h \<Longrightarrow> present w h \<Longrightarrow> 0 < n \<Longrightarrow> unat s + unat n \<le> unat (d_capacity h) \<Longrightarrow> 512 * unat n < 2 ^ 32 \<Longrightarrow>
   mmc_bwrite drv (d_dev h) s n a w =
     (w\<lparr>mach_cards := (mach_cards w)(d_dev h := put_blocks (mach_cards w (d_dev h)) s (mach_ram w) a (unat n))\<rparr>, n)"
  using obeys_cmds(1) [of drv h n s a w]
  by (cases "1 < n") (simp_all add: mmc_bwrite_def present_def MMC_CMD_WRITE_SINGLE_BLOCK_def
      MMC_CMD_WRITE_MULTIPLE_BLOCK_def MMC_DATA_WRITE_def)

lemma obeys_read:
  "obeys drv h \<Longrightarrow> present w h \<Longrightarrow> 0 < n \<Longrightarrow> unat s + unat n \<le> unat (d_capacity h) \<Longrightarrow> 512 * unat n < 2 ^ 32 \<Longrightarrow>
   mmc_bread_primitive drv (d_dev h) s n a w =
     (w\<lparr>mach_ram := get_blocks (mach_cards w (d_dev h)) s (mach_ram w) a (unat n)\<rparr>, n)"
  using obeys_cmds(2) [of drv h n s a w]
  by (cases "1 < n") (simp_all add: mmc_bread_primitive_def present_def MMC_CMD_READ_SINGLE_BLOCK_def
      MMC_CMD_READ_MULTIPLE_BLOCK_def MMC_DATA_READ_def)

section \<open>Reading in pieces\<close>

lemma unat_less: "unat (x :: u32) < 2 ^ 32"
proof -
  have "unat x < 2 ^ LENGTH(32)" by (rule unsigned_less)
  then show ?thesis by simp
qed

lemma unat_minus: "unat (x - y :: u32) = (if unat y \<le> unat x then unat x - unat y else unat x + 2 ^ 32 - unat y)"
proof (cases "unat y \<le> unat x")
  case True
  then show ?thesis by (simp add: unat_sub word_le_nat_alt)
next
  case False
  then show ?thesis by (simp add: unat_sub_if')
qed

lemma unat_of_small: "k < 2 ^ 32 \<Longrightarrow> unat (of_nat k :: u32) = k"
  by (simp add: unsigned_of_nat take_bit_nat_eq_self)

lemma unat_shift:
  assumes "unat (x - a) = k" and "j \<le> k"
  shows "unat (x - (a + of_nat j) :: u32) = k - j"
proof -
  have j: "j < 2 ^ 32" using assms unat_less [of "x - a"] by simp
  have "x - (a + of_nat j) = (x - a) - of_nat j" by simp
  also have "unat \<dots> = k - j" using unat_minus [of "x - a" "of_nat j"] assms j unat_of_small [of j] by simp
  finally show ?thesis .
qed

lemma unat_shift_less:
  assumes "unat (x - a) = k" and "k < j" and "j + l \<le> 2 ^ 32"
  shows "\<not> unat (x - (a + of_nat j) :: u32) < l"
proof (cases "j < 2 ^ 32")
  case True
  have "x - (a + of_nat j) = (x - a) - of_nat j" by simp
  also have "unat \<dots> = k + 2 ^ 32 - j" using unat_minus [of "x - a" "of_nat j"] assms True unat_of_small [of j] by simp
  finally show ?thesis using assms by simp
next
  case False
  then show ?thesis using assms by simp
qed

lemma get_blocks_append:
  assumes "512 * (i + j) < 2 ^ 32"
  shows "get_blocks c (s + of_nat i) (get_blocks c s r a i) (a + of_nat (512 * i)) j = get_blocks c s r a (i + j)"
proof
  fix x :: u32
  define k where "k = unat (x - a)"
  show "get_blocks c (s + of_nat i) (get_blocks c s r a i) (a + of_nat (512 * i)) j x = get_blocks c s r a (i + j) x"
  proof (cases "k < 512 * i")
    case True
    then have "\<not> unat (x - (a + of_nat (512 * i))) < 512 * j"
      using assms by (intro unat_shift_less [OF k_def [symmetric]]) simp_all
    then show ?thesis using True by (simp add: get_blocks_def k_def del: of_nat_mult)
  next
    case False
    then have u: "unat (x - (a + of_nat (512 * i))) = k - 512 * i"
      by (intro unat_shift [OF k_def [symmetric]]) simp
    obtain q where q: "k = 512 * i + q" using False by (metis le_Suc_ex not_less)
    then have d: "(k - 512 * i) div 512 + i = k div 512" "(k - 512 * i) mod 512 = k mod 512" by simp_all
    have e: "s + of_nat i + of_nat ((k - 512 * i) div 512) = s + of_nat (k div 512)"
      by (simp add: add.commute flip: d(1))
    have l: "k - 512 * i < 512 * j \<longleftrightarrow> k < 512 * (i + j)" using False by auto
    show ?thesis unfolding get_blocks_def u k_def [symmetric] d(2) e l using False by simp
  qed
qed


lemma get_blocks_0 [simp]: "get_blocks c s r a 0 = r"
  by (simp add: get_blocks_def)

text \<open>The last command of a read is for what is left after whole pieces of 65535 blocks, which must not be
  nothing.\<close>

lemma read_loop:
  assumes "obeys drv h" and "present w h" and "unat s + unat n \<le> unat (d_capacity h)" and "512 * unat n < 2 ^ 32"
    and "unat n mod 0xFFFF \<noteq> 0"
  shows "mmc_bread_loop drv (d_dev h) s n a ret w =
    (w\<lparr>mach_ram := get_blocks (mach_cards w (d_dev h)) s (mach_ram w) a (unat n)\<rparr>, ret + n)"
  using assms(2-)
proof (induction "unat n" arbitrary: s n a ret w rule: less_induct)
  case less
  show ?case
  proof (cases "MAXBLKCNT \<le> n")
    case False
    moreover have "0 < n" using less(5) by (metis mod_0 unat_0 word_gt_0)
    ultimately show ?thesis
      using obeys_read [OF assms(1) less(2) _ less(3,4)] by (subst mmc_bread_loop.simps) (simp add: add.commute)
  next
    case True
    let ?m = "0xFFFF :: u32"
    let ?w = "w\<lparr>mach_ram := get_blocks (mach_cards w (d_dev h)) s (mach_ram w) a 0xFFFF\<rparr>"
    have m: "MAXBLKCNT = ?m" "unat ?m = 0xFFFF" by (simp_all add: MAXBLKCNT_def)
    have n: "0xFFFF \<le> unat n" using True by (simp add: m word_le_nat_alt)
    have u: "unat (n - ?m) = unat n - 0xFFFF" using n by (simp add: unat_sub word_le_nat_alt)
    have "unat s + 0xFFFF < 2 ^ 32" using less(3) n unat_less [of "d_capacity h"] less(5) by (cases "unat n = 0xFFFF") auto
    then have us: "unat (s + ?m) = unat s + 0xFFFF" by (simp add: unat_word_ariths(1))
    have p: "mmc_bread_primitive drv (d_dev h) s ?m a w = (?w, ?m)"
      using obeys_read [OF assms(1) less(2), of ?m s a] less(3,4) n by simp
    have mod: "(unat n - 0xFFFF) mod 0xFFFF = unat n mod 0xFFFF" using n by (metis le_mod_geq)
    have "mmc_bread_loop drv (d_dev h) (s + ?m) (n - ?m) (a + ?m * 512) (ret + ?m) ?w =
      (?w\<lparr>mach_ram := get_blocks (mach_cards ?w (d_dev h)) (s + ?m) (mach_ram ?w) (a + ?m * 512) (unat (n - ?m))\<rparr>,
       ret + ?m + (n - ?m))"
      by (rule less(1)) (use less(2-5) n mod in \<open>simp_all add: u us present_def\<close>)
    moreover have "get_blocks c (s + ?m) (get_blocks c s r a 0xFFFF) (a + ?m * 512) (unat n - 0xFFFF) =
        get_blocks c s r a (unat n)" for c r
      using get_blocks_append [of "0xFFFF" "unat n - 0xFFFF" c s r a] n less(4) by simp
    ultimately show ?thesis
      using True p by (subst mmc_bread_loop.simps) (simp add: m(1) u)
  qed
qed

section \<open>The write command\<close>

text \<open>An allocator that only gives out memory of the heap, or nothing.\<close>

definition heap_ok :: "cards driver \<Rightarrow> u32 set \<Rightarrow> bool" where
  "heap_ok drv heap \<longleftrightarrow> (\<forall>sz w. \<exists>p. drv_malloc drv sz w = (w, p) \<and>
     (p \<noteq> 0 \<longrightarrow> (\<forall>i < unat sz. p + of_nat i \<in> heap)) \<and> (\<forall>w'. drv_free drv p w' = w'))"

definition off_heap :: "u32 set \<Rightarrow> u32 \<Rightarrow> nat \<Rightarrow> bool" where
  "off_heap heap a n \<longleftrightarrow> (\<forall>i < n. a + of_nat i \<notin> heap)"

text \<open>The machine after blocks were stored: the card is changed as said, and memory outside the heap is not.\<close>

definition stored :: "u32 set \<Rightarrow> u32 \<Rightarrow> u32 \<Rightarrow> u32 \<Rightarrow> nat \<Rightarrow> cards machine \<Rightarrow> cards machine \<Rightarrow> bool" where
  "stored heap d s a n w w' \<longleftrightarrow>
     mach_cards w' = (mach_cards w)(d := put_blocks (mach_cards w d) s (mach_ram w) a n) \<and>
     mach_devs w' = mach_devs w \<and> (\<forall>x. x \<notin> heap \<longrightarrow> mach_ram w' x = mach_ram w x)"

lemma ram_block_nth: "j < 512 \<Longrightarrow> ram_block r a k ! j = r (a + of_nat (512 * k + j))"
  by (simp add: ram_block_def ram_bytes_def add.assoc)

lemma get_put_blocks:
  assumes "i < 512 * n" and "512 * n < 2 ^ 32"
  shows "get_blocks (put_blocks c s r a n) s r' p n (p + of_nat i) = r (a + of_nat i)"
proof -
  have i: "unat (of_nat i :: u32) = i" using assms by (intro unat_of_small) simp
  have k: "unat (of_nat (i div 512) :: u32) = i div 512" using assms by (intro unat_of_small) simp
  have "i div 512 < n" using assms by (simp add: less_mult_imp_div_less mult.commute)
  then show ?thesis
    using assms i k by (simp add: get_blocks_def put_blocks_def ram_block_nth del: of_nat_mult)
qed

lemma get_blocks_outside:
  assumes "\<And>i. i < 512 * n \<Longrightarrow> p + of_nat i \<in> heap" and "x \<notin> heap"
  shows "get_blocks c s r p n x = r x"
proof -
  have "x = p + of_nat (unat (x - p))" by simp
  then have "\<not> unat (x - p) < 512 * n" using assms by metis
  then show ?thesis by (simp add: get_blocks_def)
qed

lemma mmc_write_stored:
  assumes "obeys drv h" and "present w h" and "heap_ok drv heap" and "off_heap heap a (512 * unat n)"
    and "arg_num argv 2 10 = Some (d_dev h)" and "arg_num argv 3 16 = Some a"
    and "arg_num argv 4 16 = Some s" and "arg_num argv 5 16 = Some n"
    and "unat s + unat n \<le> unat (d_capacity h)" and "512 * unat n < 2 ^ 32" and "unat n mod 0xFFFF \<noteq> 0"
  shows "\<exists>w'. mmc_cmd_write drv w argv = Some (w', 0) \<and> stored heap (d_dev h) s a (unat n) w w'"
proof -
  let ?c = "put_blocks (mach_cards w (d_dev h)) s (mach_ram w) a (unat n)"
  let ?w1 = "w\<lparr>mach_cards := (mach_cards w)(d_dev h := ?c)\<rparr>"
  have n0: "0 < n" using assms(11) by (metis mod_0 unat_0 word_gt_0)
  have n512: "unat (n * 512) = 512 * unat n" using assms(10) by (simp add: unat_word_ariths(2))
  have wr: "mmc_bwrite drv (d_dev h) s n a w = (?w1, n)" by (rule obeys_write [OF assms(1,2) n0 assms(9,10)])
  have present1: "present ?w1 h" using assms(2) by (simp add: present_def)
  obtain p where p: "drv_malloc drv (n * 512) ?w1 = (?w1, p)" "\<And>w'. drv_free drv p w' = w'"
    "p \<noteq> 0 \<Longrightarrow> \<forall>i < 512 * unat n. p + of_nat i \<in> heap"
    using assms(3) n512 unfolding heap_ok_def by metis
  have start: "mmc_cmd_write drv w argv =
    (if p = 0 then Some (?w1, 0)
     else (case mmc_bread drv (d_dev h) s n p ?w1 of (w, rblocks) \<Rightarrow>
       let rc = (if n = rblocks then if ram_bytes (mach_ram w) a (unat (n * 512)) =
             ram_bytes (mach_ram w) p (unat (n * 512)) then 0 else 1 else 1)
       in Some (w, rc)))"
    using assms(2,5-8) wr p(1,2) by (simp add: mmc_cmd_write_def present_def)
  show ?thesis
  proof (cases "p = 0")
    case True
    then show ?thesis using start by (simp add: stored_def)
  next
    case False
    let ?r = "get_blocks ?c s (mach_ram w) p (unat n)"
    let ?w2 = "?w1\<lparr>mach_ram := ?r\<rparr>"
    have rdb: "mmc_bread drv (d_dev h) s n p ?w1 = (?w2, n)"
      using read_loop [OF assms(1) present1 assms(9-11), of p 0] by (simp add: mmc_bread_def)
    have out: "?r x = mach_ram w x" if "x \<notin> heap" for x
      by (rule get_blocks_outside [of "unat n" p heap]) (use p(3) False that in auto)
    have "ram_bytes ?r a (512 * unat n) = ram_bytes ?r p (512 * unat n)"
      using out assms(4,10) by (auto simp: ram_bytes_def off_heap_def get_put_blocks simp del: of_nat_mult)
    then have "mmc_cmd_write drv w argv = Some (?w2, 0)" using start False rdb n512 by simp
    moreover have "stored heap (d_dev h) s a (unat n) w ?w2" using out by (simp add: stored_def)
    ultimately show ?thesis by blast
  qed
qed

end
