(* ===== verification/Movi.thy ===== *)
theory Movi
  imports Command Format
begin

text \<open>
  The raw area of the board's card and the command \<^verbatim>\<open>movi\<close>, \<^verbatim>\<open>common/cmd_movi.c\<close> and
  \<^verbatim>\<open>include/movi.h\<close>, without \<^verbatim>\<open>CONFIG_SECURE\<close> and with \<^verbatim>\<open>CONFIG_RECOVERY\<close>. The
  command does not access the card: it builds lines for \<open>run_command\<close>, which are part of its result.
\<close>

definition MAGIC_NUMBER_MOVI :: u32 where "MAGIC_NUMBER_MOVI = 0x24564236"
definition eFUSE_SIZE :: u32 where "eFUSE_SIZE = 1 * 512"
definition MOVI_BLKSIZE :: u32 where "MOVI_BLKSIZE = 512"
definition FWBL1_SIZE :: u32 where "FWBL1_SIZE = 8 * 1024"
definition BL2_SIZE :: u32 where "BL2_SIZE = 16 * 1024"
definition PART_SIZE_UBOOT :: u32 where "PART_SIZE_UBOOT = 495 * 1024"
definition PART_SIZE_KERNEL :: u32 where "PART_SIZE_KERNEL = 6 * 1024 * 1024"
definition PART_SIZE_ROOTFS :: u32 where "PART_SIZE_ROOTFS = 2 * 1024 * 1024"
definition RAW_AREA_SIZE :: u32 where "RAW_AREA_SIZE = 16 * 1024 * 1024"
definition CONFIG_ENV_SIZE :: u32 where "CONFIG_ENV_SIZE = 0x4000"
definition MOVI_FWBL1_BLKCNT :: u32 where "MOVI_FWBL1_BLKCNT = FWBL1_SIZE div MOVI_BLKSIZE"
definition MOVI_BL2_BLKCNT :: u32 where "MOVI_BL2_BLKCNT = BL2_SIZE div MOVI_BLKSIZE"
definition MOVI_ENV_BLKCNT :: u32 where "MOVI_ENV_BLKCNT = CONFIG_ENV_SIZE div MOVI_BLKSIZE"
definition MOVI_UBOOT_BLKCNT :: u32 where "MOVI_UBOOT_BLKCNT = PART_SIZE_UBOOT div MOVI_BLKSIZE"
definition MOVI_ZIMAGE_BLKCNT :: u32 where "MOVI_ZIMAGE_BLKCNT = PART_SIZE_KERNEL div MOVI_BLKSIZE"
definition MOVI_ROOTFS_BLKCNT :: u32 where "MOVI_ROOTFS_BLKCNT = PART_SIZE_ROOTFS div MOVI_BLKSIZE"

record member =
  start_blk :: u32
  used_blk :: u32
  m_size :: u32
  attribute :: u32
  description :: "byte list"

record raw_area =
  ra_magic :: u32
  ra_start_blk :: u32
  ra_total_blk :: u32
  ra_next :: u32
  ra_description :: "byte list"
  ra_image :: "member list"

section \<open>The table\<close>

text \<open>What is known of the card: its name, whether it counts in blocks, capacity and block length.\<close>

record mmc_host =
  h_name :: "byte list"
  h_high_capacity :: bool
  h_capacity :: u32
  h_read_bl_len :: u32

definition emmc_name :: "byte list" where "emmc_name = txt_bytes ''S5P_MSHC4''"

definition set_member :: "nat \<Rightarrow> u32 \<Rightarrow> u32 \<Rightarrow> u32 \<Rightarrow> u32 \<Rightarrow> byte list \<Rightarrow> member list \<Rightarrow> member list option" where
  "set_member i start used sz attr desc img =
     wr img i \<lparr>start_blk = start, used_blk = used, m_size = sz, attribute = attr, description = desc\<rparr>"

definition clear_member :: "nat \<Rightarrow> member list \<Rightarrow> member list option" where
  "clear_member i img = do { e \<leftarrow> rd img i; wr img i (e\<lparr>start_blk := 0, used_blk := 0\<rparr>) }"

definition init_images :: "bool \<Rightarrow> u32 \<Rightarrow> member list \<Rightarrow> member list option" where
  "init_images emmc capacity img = do {
     let start0 = (if emmc then 0 else eFUSE_SIZE div MOVI_BLKSIZE);
     img \<leftarrow> set_member 0 start0 MOVI_FWBL1_BLKCNT FWBL1_SIZE 0 (txt_bytes ''fwbl1'') img;
     img \<leftarrow> set_member 1 (start0 + MOVI_FWBL1_BLKCNT) MOVI_BL2_BLKCNT BL2_SIZE 3 (txt_bytes ''bl2'') img;
     img \<leftarrow> set_member 2 start0 (MOVI_FWBL1_BLKCNT + MOVI_UBOOT_BLKCNT + MOVI_BL2_BLKCNT)
       (PART_SIZE_UBOOT + FWBL1_SIZE + BL2_SIZE) 2 (txt_bytes ''bootloader'') img;
     let start3 = 544 * 1024 div MOVI_BLKSIZE;
     img \<leftarrow> set_member 3 start3 MOVI_ENV_BLKCNT CONFIG_ENV_SIZE 0x10 (txt_bytes ''environment'') img;
     let start4 = start3 + MOVI_ENV_BLKCNT;
     img \<leftarrow> set_member 4 start4 MOVI_ZIMAGE_BLKCNT PART_SIZE_KERNEL 4 (txt_bytes ''kernel'') img;
     let start5 = start4 + MOVI_ZIMAGE_BLKCNT;
     img \<leftarrow> set_member 5 start5 MOVI_ROOTFS_BLKCNT PART_SIZE_ROOTFS 8 (txt_bytes ''ramdisk'') img;
     let start6 = start5 + MOVI_ROOTFS_BLKCNT;
     let used6 = RAW_AREA_SIZE div MOVI_BLKSIZE - start5;
     img \<leftarrow> set_member 6 start6 used6 (used6 * MOVI_BLKSIZE) 6 (txt_bytes ''Recovery'') img;
     let size7 = capacity - RAW_AREA_SIZE;
     img \<leftarrow> set_member 7 (RAW_AREA_SIZE div MOVI_BLKSIZE) (size7 div MOVI_BLKSIZE) size7 0xff (txt_bytes ''disk'') img;
     foreach [8..<15] clear_member img
   }"

text \<open>The description of the table is copied into its 16 characters; of the 18 with the terminator the last two run into
  the first field of the table behind it. Here the description is the array, a name of an image the string in its array.\<close>

definition copy_description :: "raw_area \<Rightarrow> raw_area option" where
  "copy_description ra = do {
     let text = txt_bytes ''initial raw table'' @ [0];
     m \<leftarrow> rd (ra_image ra) 0;
     img \<leftarrow> wr (ra_image ra) 0 (m\<lparr>start_blk := get_le32 (drop 16 text @ drop 2 (put_le32 (start_blk m)))\<rparr>);
     Some (ra\<lparr>ra_description := take 16 text, ra_image := img\<rparr>)
   }"

definition init_raw_area_table :: "mmc_host \<Rightarrow> raw_area \<Rightarrow> raw_area option" where
  "init_raw_area_table host ra =
     (if ra_magic ra \<noteq> MAGIC_NUMBER_MOVI
      then do {
        let capacity = (if h_high_capacity host then h_capacity host
                        else h_capacity host * (h_read_bl_len host div MOVI_BLKSIZE));
        ra \<leftarrow> copy_description (ra\<lparr>ra_magic := MAGIC_NUMBER_MOVI, ra_start_blk := 16 * 1024 * 1024 div MOVI_BLKSIZE,
          ra_total_blk := capacity, ra_next := 0\<rparr>);
        r \<leftarrow> str_cmp (h_name host) emmc_name;
        img \<leftarrow> init_images (r = 0) capacity (ra_image ra);
        Some (ra\<lparr>ra_image := img\<rparr>)
      }
      else Some ra)"

section \<open>The command\<close>

definition BOOT_MMCSD :: u32 where "BOOT_MMCSD = 3"
definition BOOT_EMMC441 :: u32 where "BOOT_EMMC441 = 7"

text \<open>What the command reads besides its arguments: how the board was started, the name of the first
  card if there is one, and the variables of fastboot.\<close>

record movi_env =
  om_pin :: u32
  mmc0_name :: "byte list option"
  fuse_by_fastboot :: u32
  dev_number_write :: u32

text \<open>The table, the lines for \<open>run_command\<close> in order, and the result.\<close>

type_synonym movi_result = "raw_area \<times> byte list list \<times> int"

definition find_image :: "raw_area \<Rightarrow> u32 \<Rightarrow> nat" where
  "find_image ra attr = length (takeWhile (\<lambda>m. attribute m \<noteq> attr) (take 15 (ra_image ra)))"

definition rw_text :: "bool \<Rightarrow> va" where
  "rw_text rw = VStr (Some (if rw then txt_bytes ''write'' else txt_bytes ''read''))"

definition usage :: "raw_area \<Rightarrow> movi_result" where
  "usage ra = (ra, [], - 1)"

text \<open>The first character of an argument.\<close>

definition first_char :: "byte list list \<Rightarrow> nat \<Rightarrow> byte option" where
  "first_char argv k = map_option (\<lambda>a. hd (a @ [0])) (rd argv k)"

definition area_line :: "movi_env \<Rightarrow> bool \<Rightarrow> u32 \<Rightarrow> u32 \<Rightarrow> u32 \<Rightarrow> u32 \<Rightarrow> byte list option" where
  "area_line e rw boot_dev addr start blkcnt = map_option fst
     (if fuse_by_fastboot e = 1
      then sprintf (txt_bytes ''mmc %s %s 0x%lx 0x%lx 0x%lx'')
        [rw_text rw, VStr (Some (if dev_number_write e \<noteq> 0 then txt_bytes ''1'' else txt_bytes ''0'')),
         VInt addr, VInt start, VInt blkcnt]
      else sprintf (txt_bytes ''mmc %s %d 0x%lx 0x%lx 0x%lx'')
        [rw_text rw, VInt boot_dev, VInt addr, VInt start, VInt blkcnt])"

definition movi_boot_dev :: "movi_env \<Rightarrow> u32 option" where
  "movi_boot_dev e =
     (if om_pin e = BOOT_EMMC441 then Some 0
      else if om_pin e = BOOT_MMCSD
      then do { n \<leftarrow> mmc0_name e; r \<leftarrow> str_cmp n emmc_name; Some (if r = 0 then 1 else 0) }
      else Some 0)"

text \<open>The areas whose size is given on the command line.\<close>

definition movi_sized :: "movi_env \<Rightarrow> raw_area \<Rightarrow> bool \<Rightarrow> u32 \<Rightarrow> u32 \<Rightarrow> u32 \<Rightarrow> byte list list \<Rightarrow> movi_result option" where
  "movi_sized e ra rw boot_dev attr addr argv = do {
     a \<leftarrow> rd argv 4;
     (rfs_size, _) \<leftarrow> simple_strtoul (a @ [0]) 0 16;
     let i = find_image ra attr;
     m \<leftarrow> rd (ra_image ra) i;
     let blkcnt = rfs_size div MOVI_BLKSIZE + (if rfs_size AND (MOVI_BLKSIZE - 1) \<noteq> 0 then 1 else 0);
     img \<leftarrow> wr (ra_image ra) i (m\<lparr>used_blk := blkcnt\<rparr>);
     line \<leftarrow> area_line e rw boot_dev addr (start_blk m) blkcnt;
     Some (ra\<lparr>ra_image := img\<rparr>, [line], 1)
   }"

definition movi_area :: "movi_env \<Rightarrow> raw_area \<Rightarrow> bool \<Rightarrow> u32 \<Rightarrow> u32 \<Rightarrow> byte list list \<Rightarrow> movi_result option" where
  "movi_area e ra rw attr addr argv = do {
     boot_dev \<leftarrow> movi_boot_dev e;
     if attr = 0
     then do {
       m \<leftarrow> rd (ra_image ra) (find_image ra attr);
       (line, _) \<leftarrow> sprintf (txt_bytes ''mmc %s 0 0x%lx 0x%lx 0x%lx'')
         [rw_text rw, VInt addr, VInt (start_blk m), VInt (used_blk m)];
       Some (ra, [line], 1)
     }
     else if attr = 2
     then do {
       m \<leftarrow> rd (ra_image ra) (find_image ra attr);
       (line, _) \<leftarrow> sprintf (txt_bytes ''mmc %s 1 0x%lx 0x%lx 0x%lx'')
         [rw_text rw, VInt addr, VInt 1, VInt (used_blk m)];
       Some (ra, [line], 1)
     }
     else if attr = 0x20
     then do {
       m \<leftarrow> rd (ra_image ra) (find_image ra 2);
       (opn, _) \<leftarrow> sprintf (txt_bytes ''emmc open 0'') [];
       (line, _) \<leftarrow> sprintf (txt_bytes ''mmc %s 0 0x%lx 0x%lx 0x%lx'')
         [rw_text rw, VInt addr, VInt 0, VInt (used_blk m)];
       (cls, _) \<leftarrow> sprintf (txt_bytes ''emmc close 0'') [];
       Some (ra, [opn, line, cls], 1)
     }
     else if attr = 4
     then do {
       m \<leftarrow> rd (ra_image ra) (find_image ra attr);
       line \<leftarrow> area_line e rw boot_dev addr (start_blk m) (used_blk m);
       Some (ra, [line], 1)
     }
     else if attr = 8 \<or> attr = 6 then movi_sized e ra rw boot_dev attr addr argv
     else Some (usage ra)
   }"

text \<open>The letter of an area: its number of arguments and its attribute.\<close>

definition movi_letter :: "byte \<Rightarrow> (nat \<times> u32) option" where
  "movi_letter c = (if c = 102 then Some (4, 0) else if c = 117 then Some (4, 2) else if c = 107 then Some (4, 4)
     else if c = 82 then Some (5, 6) else if c = 114 then Some (5, 8) else if c = 101 then Some (4, 0x20) else None)"

definition do_movi :: "movi_env \<Rightarrow> raw_area \<Rightarrow> byte list list \<Rightarrow> movi_result option" where
  "do_movi e ra argv = do {
     c \<leftarrow> first_char argv 1;
     if c = 105 then Some (ra\<lparr>ra_magic := 0\<rparr>, [txt_bytes ''mmcinfo''], 1)
     else if c = 114 \<or> c = 119
     then do {
       d \<leftarrow> first_char argv 2;
       (case movi_letter d of
          None \<Rightarrow> Some (usage ra)
        | Some (argc, attr) \<Rightarrow>
            (if length argv \<noteq> argc then Some (usage ra)
             else do {
               a \<leftarrow> rd argv 3;
               (addr, _) \<leftarrow> simple_strtoul (a @ [0]) 0 16;
               movi_area e ra (c = 119) attr addr argv
             }))
     }
     else Some (usage ra)
   }"

end
