(* ===== verification/FormatCorrect.thy ===== *)
theory FormatCorrect
  imports Format VsprintfCorrect
begin

text \<open>
  Format strings: hexadecimal text reads back as the number it was printed from, and the steps of
  the interpreter on the conversions that the commands of the board use.
\<close>

section \<open>Hexadecimal\<close>

definition hex_char :: "nat \<Rightarrow> byte" where
  "hex_char d = upper_digits ! d OR 32"

definition hex :: "u32 \<Rightarrow> byte list" where
  "hex v = number (ucast v) 16 (- 1) (- 1) 32"

fun value16 :: "nat list \<Rightarrow> nat" where
  "value16 [] = 0"
| "value16 (d # ds) = d + 16 * value16 ds"

definition hex_msb :: "nat \<Rightarrow> nat list \<Rightarrow> nat" where
  "hex_msb r ds = foldl (\<lambda>r d. r * 16 + d) r ds"

lemma hex_msb_simps [simp]: "hex_msb r [] = r" "hex_msb r (d # ds) = hex_msb (r * 16 + d) ds"
  by (simp_all add: hex_msb_def)

lemma hex_msb_rev: "hex_msb 0 (rev ds) = value16 ds"
  by (induction ds) (simp_all add: hex_msb_def mult.commute)

lemma low_nibble: "unat ((ucast (x :: u64) :: byte) AND 15) = unat x mod 16"
proof -
  have "(15 :: byte) = mask 4" by (simp add: mask_eq_exp_minus_1)
  then have "(ucast x :: byte) AND 15 = take_bit 4 (ucast x)" by (simp only: take_bit_eq_mask)
  then have "unat ((ucast x :: byte) AND 15) = take_bit 4 (unat (ucast x :: byte))"
    by (simp only: unsigned_take_bit_eq)
  also have "unat (ucast x :: byte) = take_bit 8 (unat x)" by (simp add: unsigned_ucast_eq)
  finally show ?thesis by (simp add: take_bit_eq_mod [of 4])
qed

lemma put_pow2_digits:
  "\<exists>ds. put_pow2 4 15 32 x = map hex_char ds \<and> value16 ds = unat x \<and> (\<forall>d \<in> set ds. d < 16) \<and> ds \<noteq> []"
proof (induction "unat x" arbitrary: x rule: less_induct)
  case less
  let ?d = "unat x mod 16" and ?y = "drop_bit 4 x"
  have y: "unat ?y = unat x div 16"
  proof -
    have "unat ?y = unat x div 2 ^ 4" by (simp only: unat_drop_bit_eq drop_bit_eq_div [of 4 "unat x"])
    then show ?thesis by simp
  qed
  have c: "upper_digits ! unat ((ucast x :: byte) AND 15) OR 32 = hex_char ?d"
    by (simp only: hex_char_def low_nibble)
  show ?case
  proof (cases "?y = 0")
    case True
    then have "unat x div 16 = 0" using y by simp
    then have "unat x < 16" by simp
    then show ?thesis using True c by (intro exI [of _ "[?d]"]) (simp add: put_pow2.simps [of 4 15 32 x])
  next
    case False
    then have "unat ?y < unat x" using y by (metis div_less_dividend div_0 one_less_numeral_iff semiring_norm(76) unat_eq_zero neq0_conv)
    from less [OF this] obtain ds where ds: "put_pow2 4 15 32 ?y = map hex_char ds" "value16 ds = unat ?y"
      "\<forall>d \<in> set ds. d < 16" by blast
    have "put_pow2 4 15 32 x = map hex_char (?d # ds)"
      using False c ds(1) by (subst put_pow2.simps) (simp add: Let_def)
    then show ?thesis using ds(2,3) y by (intro exI [of _ "?d # ds"]) simp
  qed
qed

lemma hex_digits:
  "\<exists>ds. hex v = map hex_char ds \<and> (\<forall>d \<in> set ds. d < 16) \<and> ds \<noteq> [] \<and> hex_msb 0 ds = unat v"
proof (cases "v = 0")
  case True
  then show ?thesis
    by (intro exI [of _ "[0]"]) (simp add: hex_def number_def pad_with_def hex_char_def upper_digits_def Let_def)
next
  case False
  have u: "unat (ucast v :: u64) = unat v"
  proof -
    have "unat v < 2 ^ LENGTH(32)" by (rule unsigned_less)
    then show ?thesis by (simp add: unsigned_ucast_eq take_bit_nat_eq_self)
  qed
  then have n: "(ucast v :: u64) \<noteq> 0" using False by (metis unat_0 unat_eq_zero)
  obtain ds where ds: "put_pow2 4 15 32 (ucast v :: u64) = map hex_char ds"
    "value16 ds = unat (ucast v :: u64)" "\<forall>d \<in> set ds. d < 16" "ds \<noteq> []" using put_pow2_digits by blast
  then show ?thesis
    using n u
    by (intro exI [of _ "rev ds"]) (simp add: hex_def number_def pad_with_def rev_map hex_msb_rev Let_def)
qed

lemma hex_char_class:
  assumes "d < 16"
  shows "isxdigit (hex_char d) \<and> digit_value (hex_char d) = int d \<and> hex_char d \<notin> {0, 9, 32, 36, 39, 59, 92, 120}"
proof -
  have "d \<in> {0, 1, 2, 3, 4, 5, 6, 7, 8, 9, 10, 11, 12, 13, 14, 15}"
    using assms unfolding insert_iff empty_iff by presburger
  then show ?thesis
    by (elim insertE emptyE; simp add: hex_char_def upper_digits_def isxdigit_def digit_value_def isdigit_def
        islower_def toupper_def ctype_mask_def ctype_table_def)
qed

lemma digit_loop_hex:
  assumes "\<forall>d \<in> set ds. d < 16" and "drop cp m = map hex_char ds @ 0 # rest"
  shows "digit_loop m cp 16 (of_nat r :: 'a::len word) = Some (of_nat (hex_msb r ds), cp + length ds)"
  using assms
proof (induction ds arbitrary: cp r)
  case Nil
  then have "cp < length m" "m ! cp = 0" using drop_Cons_nth [of cp m 0 rest] by auto
  then show ?case by (subst digit_loop.simps) (simp add: nul_class)
next
  case (Cons d ds)
  then have d: "d < 16" and n: "cp < length m" "m ! cp = hex_char d"
    "drop (cp + 1) m = map hex_char ds @ 0 # rest"
    using drop_Cons_nth [of cp m "hex_char d" "map hex_char ds @ 0 # rest"] by auto
  have "digit_loop m cp 16 (of_nat r :: 'a word) =
      digit_loop m (cp + 1) 16 (of_nat r * of_nat 16 + of_int (int d))"
    using n d hex_char_class [OF d] by (subst digit_loop.simps) (simp add: Let_def)
  also have "of_nat r * of_nat 16 + of_int (int d) = (of_nat (r * 16 + d) :: 'a word)" by simp
  also have "digit_loop m (cp + 1) 16 \<dots> = Some (of_nat (hex_msb (r * 16 + d) ds), cp + 1 + length ds)"
    using Cons n by (intro Cons.IH) auto
  finally show ?case by simp
qed

text \<open>Text of the form \<open>0x%lx\<close> reads back, whatever base is asked for.\<close>

lemma parse_hex: "simple_strtoul ([48, 120] @ hex v @ [0]) 0 base = Some (v, length (hex v) + 2)"
proof -
  obtain ds where d: "hex v = map hex_char ds" "\<forall>d \<in> set ds. d < 16" "ds \<noteq> []" "hex_msb 0 ds = unat v"
    using hex_digits by blast
  obtain e es where e: "ds = e # es" using d(3) by (cases ds) auto
  let ?m = "[48, 120] @ hex v @ [0]"
  have x: "isxdigit (hex_char e)" using d(2) e hex_char_class by simp
  have "number_prefix ?m 0 base = Some (2, 16)"
    using x e d(1) by (simp add: number_prefix_def)
  moreover have "digit_loop ?m 2 16 (of_nat 0 :: u32) = Some (of_nat (hex_msb 0 ds), 2 + length ds)"
    by (rule digit_loop_hex [of _ _ _ "[]"]) (use d in simp_all)
  ultimately show ?thesis using d by (simp add: simple_strtoul_def)
qed

lemma hex_plain: "c \<in> set (hex v) \<Longrightarrow> c \<notin> {0, 9, 32, 36, 39, 59, 92}"
  using hex_digits [of v] hex_char_class by auto

section \<open>Conversions\<close>

lemma vs_end: "p < length m \<Longrightarrow> m ! p = 0 \<Longrightarrow> vsprintf m p as = Some []"
  by (simp add: vsprintf.simps [of m p])

lemma vs_char:
  "p < length m \<Longrightarrow> m ! p \<noteq> 0 \<Longrightarrow> m ! p \<noteq> 37 \<Longrightarrow>
   vsprintf m p as = map_option (\<lambda>out. m ! p # out) (vsprintf m (p + 1) as)"
  by (simp add: vsprintf.simps [of m p])

lemma vs_item:
  "p < length m \<Longrightarrow> m ! p = 37 \<Longrightarrow> fmt_item m p as = Some (out, q, bs) \<Longrightarrow>
   vsprintf m p as = map_option (\<lambda>rest. out @ rest) (vsprintf m q bs)"
  by (simp add: vsprintf.simps [of m p])

lemma no_flags: "p < length m \<Longrightarrow> flag_of (m ! p) = None \<Longrightarrow> fmt_flags m p f = Some (p, f)"
  by (simp add: fmt_flags.simps [of m p])

lemma fmt_s:
  assumes "p + 1 < length m" and "m ! (p + 1) = 115" and "length s < 2 ^ 32"
  shows "fmt_item m p (VStr (Some s) # as) = Some (s, p + 2, as)"
  using assms no_flags [of "p + 1" m 0]
  by (simp add: fmt_item_def flag_of_def fmt_width_def fmt_digit_def fmt_precision_def fmt_qualifier_def
      fmt_convert_def string_field_def pad_with_def Let_def)

lemma fmt_d:
  assumes "p + 1 < length m" and "m ! (p + 1) = 100"
  shows "fmt_item m p (VInt x # as) = Some (number (scast x) 10 (- 1) (- 1) 2, p + 2, as)"
  using assms no_flags [of "p + 1" m 0]
  by (simp add: fmt_item_def flag_of_def fmt_width_def fmt_digit_def fmt_precision_def fmt_qualifier_def
      fmt_convert_def fmt_num_def Let_def)

lemma fmt_lx:
  assumes "p + 2 < length m" and "m ! (p + 1) = 108" and "m ! (p + 2) = 120"
  shows "fmt_item m p (VInt x # as) = Some (hex x, p + 3, as)"
  using assms no_flags [of "p + 1" m 0]
  by (simp add: fmt_item_def flag_of_def fmt_width_def fmt_digit_def fmt_precision_def fmt_qualifier_def
      fmt_convert_def fmt_num_def hex_def Let_def)

end
