(* ===== verification/MoviCorrect.thy ===== *)
theory MoviCorrect
  imports Movi FormatCorrect ShellCorrect
begin

text \<open>
  Lines without special characters at the command parser, the lines that \<^verbatim>\<open>movi\<close> builds, and the
  table of the raw area.
\<close>

section \<open>Plain lines\<close>

definition plain :: "byte \<Rightarrow> bool" where
  "plain c \<longleftrightarrow> c \<notin> {0, 36, 39, 59, 92}"

lemma ex_step_plain: "plain c \<Longrightarrow> ex_step genv 0 prev name c = ([c], 0, name)"
  by (simp add: ex_step_def plain_def)

lemma expand_from_plain: "\<forall>c \<in> set s. plain c \<Longrightarrow> expand_from genv 0 prev name s = s"
proof (induction s arbitrary: prev)
  case Nil
  then show ?case by (simp add: expand_from.simps)
next
  case (Cons c s)
  then have "c \<noteq> 92" by (simp add: plain_def)
  then show ?case using Cons by (subst expand_from.simps) (simp add: ex_step_plain)
qed

lemma seg_len_plain: "\<forall>c \<in> set s. plain c \<Longrightarrow> seg_len first prev False s = length s"
  by (induction s arbitrary: first prev) (auto simp: plain_def)

lemma commands_plain: "s \<noteq> [] \<Longrightarrow> \<forall>c \<in> set s. plain c \<Longrightarrow> commands s = [s]"
  by (subst commands.simps) (simp add: seg_len_plain commands.simps [of "[]"])

fun join_words :: "byte list list \<Rightarrow> byte list" where
  "join_words [] = []"
| "join_words [w] = w"
| "join_words (w # v # ws) = w @ 32 # join_words (v # ws)"

definition word_ok :: "byte list \<Rightarrow> bool" where
  "word_ok w \<longleftrightarrow> w \<noteq> [] \<and> (\<forall>c \<in> set w. \<not> blank c)"

lemma words_of_first:
  "w \<noteq> [] \<Longrightarrow> \<not> blank (hd w) \<Longrightarrow>
   words_of w = takeWhile (\<lambda>c. \<not> blank c) w # words_of (dropWhile (\<lambda>c. \<not> blank c) w)"
  by (subst words_of.simps) (cases w; simp)

lemma words_of_Nil [simp]: "words_of [] = []"
  by (subst words_of.simps) simp

lemma words_of_blank: "blank c \<Longrightarrow> words_of (c # s) = words_of s"
  by (subst words_of.simps, subst (2) words_of.simps) simp

lemma words_of_append:
  assumes "word_ok w" and "s = [] \<or> blank (hd s)"
  shows "words_of (w @ s) = w # words_of s"
proof -
  have w: "w \<noteq> []" "\<forall>c \<in> set w. \<not> blank c" using assms(1) by (auto simp: word_ok_def)
  have tw: "takeWhile (\<lambda>c. \<not> blank c) (w @ s) = w" "dropWhile (\<lambda>c. \<not> blank c) (w @ s) = s"
    using w assms(2) by (cases s; simp)+
  have "words_of (w @ s) = takeWhile (\<lambda>c. \<not> blank c) (w @ s) # words_of (dropWhile (\<lambda>c. \<not> blank c) (w @ s))"
    by (rule words_of_first) (use w in auto)
  then show ?thesis unfolding tw .
qed

lemma words_of_join: "\<forall>w \<in> set ws. word_ok w \<Longrightarrow> words_of (join_words ws) = ws"
proof (induction ws rule: join_words.induct)
  case (2 w)
  then show ?case using words_of_append [of w "[]"] by simp
next
  case (3 w v ws)
  then show ?case
    using words_of_append [of w "32 # join_words (v # ws)"] by (simp add: blank_def words_of_blank)
qed simp

lemma join_words_chars: "c \<in> set (join_words ws) \<Longrightarrow> c = 32 \<or> (\<exists>w \<in> set ws. c \<in> set w)"
  by (induction ws rule: join_words.induct) auto

lemma plain_blank: "plain 32"
  by (simp add: plain_def)

lemma join_words_plain:
  assumes "\<forall>w \<in> set ws. \<forall>c \<in> set w. plain c"
  shows "\<forall>c \<in> set (join_words ws). plain c"
proof
  fix c assume "c \<in> set (join_words ws)"
  from join_words_chars [OF this] show "plain c" using assms plain_blank by metis
qed

text \<open>The command with the number \<open>k\<close> is called with these words.\<close>

definition called ::
  "('h, 'w) shell_env \<Rightarrow> nat \<Rightarrow> byte list list \<Rightarrow> 'w \<Rightarrow> int \<Rightarrow> ('w \<times> int) option" where
  "called env k ws w flag = map_option (\<lambda>(w', r). (w', if sh_had_ctrlc env w' then - 1
      else if r \<noteq> 0 then - 1 else 1 AND cmd_repeatable (sh_cmds env ! k)))
    (sh_exec env (cmd_fn (sh_cmds env ! k)) flag ws (sh_clear_ctrlc env w))"

text \<open>A plain line with the name of a command calls that command, once, with the words of the line.\<close>

lemma run_plain_line:
  assumes "env_ok env" and "length cmdbuf = CBSIZE" and "length finaltoken = CBSIZE"
    and "length argv = MAXARGS + 1" and "ws \<noteq> []" and "length ws \<le> MAXARGS"
    and "\<forall>w \<in> set ws. word_ok w \<and> (\<forall>c \<in> set w. plain c)" and "length (join_words ws) < CBSIZE"
    and "find_spec (stem (hd ws)) (map cmd_name (sh_cmds env)) = Some k"
    and "\<not> sh_is_bootd env (cmd_fn (sh_cmds env ! k))" and "int (length ws) \<le> cmd_maxargs (sh_cmds env ! k)"
  shows "run_command env cmdbuf finaltoken argv (Some (join_words ws)) w flag = called env k ws w flag"
proof -
  let ?s = "join_words ws"
  have words: "words_of ?s = ws" using assms(7) by (intro words_of_join) simp
  have pl: "\<forall>c \<in> set ?s. plain c" by (rule join_words_plain) (use assms(7) in blast)
  have ne: "?s \<noteq> []" using words assms(5) by (metis words_of_Nil)
  have "hd ?s \<noteq> 39" "0 \<notin> set ?s" using pl ne by (auto simp: plain_def)
  then have r: "run_command env cmdbuf finaltoken argv (Some ?s) w flag =
    abs_run env [?s] \<lparr>r_world = sh_clear_ctrlc env w, r_flag = flag, r_repeatable = 1, r_rc = 0\<rparr>"
    using assms(1-4,8) ne commands_plain [OF ne pl] by (simp add: run_command_abs)
  have e: "expand (sh_getenv env (sh_clear_ctrlc env w)) ?s = ?s" using pl by (simp add: expand_def expand_from_plain)
  have t: "take (CBSIZE - 1) ?s = ?s" "take MAXARGS ws = ws" using assms(6,8) by simp_all
  show ?thesis
    unfolding r abs_run.simps abs_token_def run_st.simps e t words
    using assms(5,9-11)
    by (cases "sh_exec env (cmd_fn (sh_cmds env ! k)) flag ws (sh_clear_ctrlc env w)") (auto simp: Let_def called_def)
qed


section \<open>The lines of \<open>movi\<close>\<close>

lemma vs_s:
  "p + 1 < length m \<Longrightarrow> m ! p = 37 \<Longrightarrow> m ! (p + 1) = 115 \<Longrightarrow> length s < 2 ^ 32 \<Longrightarrow>
   vsprintf m p (VStr (Some s) # as) = map_option (\<lambda>rest. s @ rest) (vsprintf m (p + 2) as)"
  by (intro vs_item fmt_s) simp_all

lemma vs_d:
  "p + 1 < length m \<Longrightarrow> m ! p = 37 \<Longrightarrow> m ! (p + 1) = 100 \<Longrightarrow>
   vsprintf m p (VInt x # as) = map_option (\<lambda>rest. number (scast x) 10 (- 1) (- 1) 2 @ rest) (vsprintf m (p + 2) as)"
  by (intro vs_item fmt_d) simp_all

lemma vs_lx:
  "p + 2 < length m \<Longrightarrow> m ! p = 37 \<Longrightarrow> m ! (p + 1) = 108 \<Longrightarrow> m ! (p + 2) = 120 \<Longrightarrow>
   vsprintf m p (VInt x # as) = map_option (\<lambda>rest. hex x @ rest) (vsprintf m (p + 3) as)"
  by (intro vs_item fmt_lx) simp_all

text \<open>The words of the line for an access to the card.\<close>

definition hex_word :: "u32 \<Rightarrow> byte list" where
  "hex_word x = [48, 120] @ hex x"

definition mmc_words :: "bool \<Rightarrow> byte list \<Rightarrow> u32 \<Rightarrow> u32 \<Rightarrow> u32 \<Rightarrow> byte list list" where
  "mmc_words rw dev addr start cnt =
     [txt_bytes ''mmc'', if rw then txt_bytes ''write'' else txt_bytes ''read'', dev,
      hex_word addr, hex_word start, hex_word cnt]"

lemma line_fixed:
  "sprintf (txt_bytes ''mmc %s 0 0x%lx 0x%lx 0x%lx'') [rw_text rw, VInt addr, VInt start, VInt cnt] =
     Some (join_words (mmc_words rw [48] addr start cnt), length (join_words (mmc_words rw [48] addr start cnt)))"
  by (cases rw) (simp_all add: sprintf_def txt_bytes_def rw_text_def mmc_words_def hex_word_def vs_char vs_s vs_lx vs_end)

lemma line_boot:
  "sprintf (txt_bytes ''mmc %s 1 0x%lx 0x%lx 0x%lx'') [rw_text rw, VInt addr, VInt start, VInt cnt] =
     Some (join_words (mmc_words rw [49] addr start cnt), length (join_words (mmc_words rw [49] addr start cnt)))"
  by (cases rw) (simp_all add: sprintf_def txt_bytes_def rw_text_def mmc_words_def hex_word_def vs_char vs_s vs_lx vs_end)

text \<open>The device of the areas that do not have a fixed one.\<close>

definition boot_card :: "movi_env \<Rightarrow> u32" where
  "boot_card e = (if om_pin e = BOOT_MMCSD \<and> mmc0_name e = Some emmc_name then 1 else 0)"

definition movi_dev :: "movi_env \<Rightarrow> byte list" where
  "movi_dev e = (if (if fuse_by_fastboot e = 1 then dev_number_write e \<noteq> 0 else boot_card e = 1) then [49] else [48])"

lemma line_s:
  "length d < 2 ^ 32 \<Longrightarrow>
   sprintf (txt_bytes ''mmc %s %s 0x%lx 0x%lx 0x%lx'') [rw_text rw, VStr (Some d), VInt addr, VInt start, VInt cnt] =
     Some (join_words (mmc_words rw d addr start cnt), length (join_words (mmc_words rw d addr start cnt)))"
  by (cases rw) (simp_all add: sprintf_def txt_bytes_def rw_text_def mmc_words_def hex_word_def vs_char vs_s vs_lx vs_end)

lemma line_d:
  "number (scast x) 10 (- 1) (- 1) 2 = d \<Longrightarrow>
   sprintf (txt_bytes ''mmc %s %d 0x%lx 0x%lx 0x%lx'') [rw_text rw, VInt x, VInt addr, VInt start, VInt cnt] =
     Some (join_words (mmc_words rw d addr start cnt), length (join_words (mmc_words rw d addr start cnt)))"
  by (cases rw)
    (simp_all add: sprintf_def txt_bytes_def rw_text_def mmc_words_def hex_word_def vs_char vs_s vs_d vs_lx vs_end)

lemma area_line_words:
  "area_line e rw (boot_card e) addr start cnt = Some (join_words (mmc_words rw (movi_dev e) addr start cnt))"
proof (cases "fuse_by_fastboot e = 1")
  case True
  have t: "txt_bytes ''1'' = [49]" "txt_bytes ''0'' = [48]" by (simp_all add: txt_bytes_def)
  show ?thesis using True by (simp add: area_line_def t line_s movi_dev_def)
next
  case False
  have d: "number 0 10 (- 1) (- 1) 2 = [48]" "number 1 10 (- 1) (- 1) 2 = [49]"
    by (simp_all add: number_def put_dec.simps [of "Suc 0"] put_dec_trunc_def digit_char_def pad_with_def Let_def)
  have "number (scast (boot_card e)) 10 (- 1) (- 1) 2 = movi_dev e"
    using False by (simp add: boot_card_def movi_dev_def d)
  from line_d [OF this] show ?thesis using False by (simp add: area_line_def)
qed

lemma emmc_name_chars: "0 \<notin> set emmc_name"
  by (simp add: emmc_name_def txt_bytes_def)

lemma movi_boot_dev_card:
  assumes "om_pin e = BOOT_MMCSD \<longrightarrow> (\<exists>n. mmc0_name e = Some n \<and> 0 \<notin> set n)"
  shows "movi_boot_dev e = Some (boot_card e)"
proof (cases "om_pin e = BOOT_MMCSD")
  case True
  then obtain n where n: "mmc0_name e = Some n" "0 \<notin> set n" using assms by auto
  obtain r where "str_cmp n emmc_name = Some r" "r = 0 \<longleftrightarrow> n = emmc_name"
    using str_cmp_eq [OF n(2) emmc_name_chars] by blast
  then show ?thesis using True n by (simp add: movi_boot_dev_def boot_card_def BOOT_MMCSD_def BOOT_EMMC441_def)
qed (simp add: movi_boot_dev_def boot_card_def)

section \<open>The line at the command parser\<close>

lemma put_pow2_length:
  "0 < k \<Longrightarrow> unat x < 16 ^ k \<Longrightarrow> length (put_pow2 4 m l x) \<le> k"
proof (induction k arbitrary: x)
  case (Suc k)
  let ?y = "drop_bit 4 x"
  have "unat ?y = unat x div 2 ^ 4" by (simp only: unat_drop_bit_eq drop_bit_eq_div [of 4 "unat x"])
  then have y: "unat ?y < 16 ^ k" using Suc.prems(2) by (simp add: less_mult_imp_div_less mult.commute)
  show ?case
  proof (cases "?y = 0")
    case False
    then have "0 < k" using y by (cases k) (auto simp: unat_eq_zero)
    then show ?thesis using Suc.IH [OF _ y] False by (subst put_pow2.simps) (simp add: Let_def)
  qed (subst put_pow2.simps, simp)
qed simp

lemma hex_length: "length (hex v) \<le> 8"
proof (cases "v = 0")
  case False
  have v: "unat v < 2 ^ LENGTH(32)" by (rule unsigned_less)
  then have u: "unat (ucast v :: u64) = unat v" by (simp add: unsigned_ucast_eq take_bit_nat_eq_self)
  have "length (put_pow2 4 15 32 (ucast v :: u64)) \<le> 8"
    by (rule put_pow2_length) (use u v in simp_all)
  moreover have "(ucast v :: u64) \<noteq> 0" using False u by (metis unat_0 unat_eq_zero)
  ultimately show ?thesis by (simp add: hex_def number_def pad_with_def Let_def)
qed (simp add: hex_def number_def pad_with_def Let_def)

lemma hex_word_ok: "word_ok (hex_word v) \<and> (\<forall>c \<in> set (hex_word v). plain c)"
proof -
  have "\<not> blank c" "plain c" if "c \<in> set (hex v)" for c
    using hex_plain [OF that] by (auto simp: blank_def plain_def)
  then show ?thesis by (auto simp: word_ok_def hex_word_def blank_def plain_def)
qed

lemma mmc_words_ok:
  "dev = [48] \<or> dev = [49] \<Longrightarrow>
   \<forall>w \<in> set (mmc_words rw dev addr start cnt). word_ok w \<and> (\<forall>c \<in> set w. plain c)"
  using hex_word_ok by (auto simp: mmc_words_def word_ok_def blank_def plain_def txt_bytes_def)

lemma mmc_line_length:
  "dev = [48] \<or> dev = [49] \<Longrightarrow> length (join_words (mmc_words rw dev addr start cnt)) < 100"
  using hex_length [of addr] hex_length [of start] hex_length [of cnt]
  by (auto simp: mmc_words_def hex_word_def txt_bytes_def)

end
