(* ===== verification/MoviProps.thy ===== *)
theory MoviProps
  imports MoviCorrect ShellProps
begin

text \<open>
  The properties of the raw card area: where its table puts the images, and what a \<^verbatim>\<open>movi\<close>
  command makes the command parser do.
\<close>

section \<open>The table\<close>

text \<open>The fields of the areas that no command changes, for a card that counts from \<open>s\<close>: attributes
  and first blocks of the first seven, and the blocks used by the first five.\<close>

definition laid_out :: "u32 \<Rightarrow> raw_area \<Rightarrow> bool" where
  "laid_out s ra \<longleftrightarrow> length (ra_image ra) = 15 \<and>
     map attribute (take 7 (ra_image ra)) = [0, 3, 2, 0x10, 4, 8, 6] \<and>
     map start_blk (take 7 (ra_image ra)) = [s, s + 16, s, 1088, 1120, 13408, 17504] \<and>
     map used_blk (take 5 (ra_image ra)) = [16, 32, 1038, 32, 12288]"

definition first_block :: "mmc_host \<Rightarrow> u32" where
  "first_block host = (if h_name host = emmc_name then 0 else 1)"

lemma init_images_some:
  assumes "length imgs = 15"
  shows "\<exists>imgs'. init_images emmc capacity imgs = Some imgs' \<and> length imgs' = 15 \<and>
    map attribute (take 8 imgs') = [0, 3, 2, 0x10, 4, 8, 6, 0xff] \<and>
    map start_blk (take 8 imgs') =
      (let s = if emmc then 0 else 1 in [s, s + 16, s, 1088, 1120, 13408, 17504, 32768]) \<and>
    map used_blk (take 8 imgs') =
      [16, 32, 1038, 32, 12288, 4096, 19360, (capacity - 0x1000000) div 512]"
proof -
  obtain a0 a1 a2 a3 a4 a5 a6 a7 a8 a9 a10 a11 a12 a13 a14 where
    i: "imgs = [a0, a1, a2, a3, a4, a5, a6, a7, a8, a9, a10, a11, a12, a13, a14]"
    using assms by (auto simp: length_Suc_conv eval_nat_numeral)
  show ?thesis
    by (cases emmc)
      (simp_all add: i init_images_def set_member_def clear_member_def eFUSE_SIZE_def upt_conv_Cons
        MOVI_BLKSIZE_def FWBL1_SIZE_def BL2_SIZE_def PART_SIZE_UBOOT_def PART_SIZE_KERNEL_def
        PART_SIZE_ROOTFS_def RAW_AREA_SIZE_def CONFIG_ENV_SIZE_def MOVI_FWBL1_BLKCNT_def MOVI_BL2_BLKCNT_def
        MOVI_ENV_BLKCNT_def MOVI_UBOOT_BLKCNT_def MOVI_ZIMAGE_BLKCNT_def MOVI_ROOTFS_BLKCNT_def Let_def)
qed

text \<open>C37. The table of a card without one: environment, kernel and ramdisk follow each other without a
  gap behind the boot code, and the disk begins at block 32768, where the raw area of 16 MB ends; but the
  area \<open>Recovery\<close> runs 4096 blocks into the disk. The description, which is copied with its terminator over the end of its
  array into the first entry, stays without a terminator, and the entry is set afterwards. A second call changes nothing.\<close>

theorem movi_table_layout:
  assumes "ra_magic ra \<noteq> MAGIC_NUMBER_MOVI" and "length (ra_image ra) = 15" and "0 \<notin> set (h_name host)"
  shows "\<exists>ra'. init_raw_area_table host ra = Some ra' \<and> init_raw_area_table host ra' = Some ra' \<and>
    laid_out (first_block host) ra' \<and> ra_description ra' = txt_bytes ''initial raw tabl'' \<and>
    (let at = (\<lambda>i. start_blk (ra_image ra' ! i)); stop = (\<lambda>i. at i + used_blk (ra_image ra' ! i))
     in stop 2 \<le> at 3 \<and> stop 3 = at 4 \<and> stop 4 = at 5 \<and> stop 5 = at 6 \<and>
       at 7 = 32768 \<and> stop 6 = at 7 + 4096)"
proof -
  obtain r where r: "str_cmp (h_name host) emmc_name = Some r" "r = 0 \<longleftrightarrow> h_name host = emmc_name"
    using str_cmp_eq [OF assms(3) emmc_name_chars] by blast
  define cap where "cap = (if h_high_capacity host then h_capacity host
    else h_capacity host * (h_read_bl_len host div MOVI_BLKSIZE))"
  define m0 where "m0 = (ra_image ra ! 0)\<lparr>start_blk := get_le32 (drop 16 (txt_bytes ''initial raw table'' @ [0]) @
    drop 2 (put_le32 (start_blk (ra_image ra ! 0))))\<rparr>"
  obtain imgs where i: "init_images (r = 0) cap ((ra_image ra)[0 := m0]) = Some imgs" "length imgs = 15"
    "map attribute (take 8 imgs) = [0, 3, 2, 0x10, 4, 8, 6, 0xff]"
    "map start_blk (take 8 imgs) =
      (let s = first_block host in [s, s + 16, s, 1088, 1120, 13408, 17504, 32768])"
    "map used_blk (take 8 imgs) = [16, 32, 1038, 32, 12288, 4096, 19360, (cap - 0x1000000) div 512]"
    using init_images_some [of "(ra_image ra)[0 := m0]" "r = 0" cap] assms(2) r(2) unfolding first_block_def by auto
  obtain a0 a1 a2 a3 a4 a5 a6 a7 rest where l: "imgs = a0 # a1 # a2 # a3 # a4 # a5 # a6 # a7 # rest"
    "length rest = 7" using i(2) by (auto simp: length_Suc_conv eval_nat_numeral)
  define ra1 where "ra1 = ra\<lparr>ra_magic := MAGIC_NUMBER_MOVI, ra_start_blk := 16 * 1024 * 1024 div MOVI_BLKSIZE,
    ra_total_blk := cap, ra_next := 0\<rparr>"
  define ra' where "ra' = ra1\<lparr>ra_description := take 16 (txt_bytes ''initial raw table'' @ [0]), ra_image := imgs\<rparr>"
  have "ra_image ra1 = ra_image ra" by (simp add: ra1_def)
  then have "copy_description ra1 = Some (ra1\<lparr>ra_description := take 16 (txt_bytes ''initial raw table'' @ [0]),
      ra_image := (ra_image ra)[0 := m0]\<rparr>)"
    using assms(2) by (simp add: copy_description_def Let_def m0_def)
  then have t: "init_raw_area_table host ra = Some ra'"
    using assms(1) r(1) i(1) unfolding init_raw_area_table_def Let_def cap_def [symmetric] ra1_def [symmetric]
    by (simp add: ra'_def)
  moreover have "init_raw_area_table host ra' = Some ra'"
    by (simp add: init_raw_area_table_def ra'_def ra1_def)
  moreover have "ra_description ra' = txt_bytes ''initial raw tabl''" by (simp add: ra'_def txt_bytes_def)
  moreover have "ra_image ra' = imgs" "ra_magic ra' = MAGIC_NUMBER_MOVI" by (simp_all add: ra'_def ra1_def)
  ultimately show ?thesis
    using i l by (intro exI [of _ ra']) (auto simp: laid_out_def Let_def first_block_def)
qed

theorem movi_table_layout_witness:
  "\<exists>ra'. init_raw_area_table
      \<lparr>h_name = emmc_name, h_high_capacity = True, h_capacity = 15269888, h_read_bl_len = 512\<rparr>
      \<lparr>ra_magic = 0, ra_start_blk = 0, ra_total_blk = 0, ra_next = 0, ra_description = [],
        ra_image = replicate 15 \<lparr>start_blk = 7, used_blk = 7, m_size = 0, attribute = 0, description = []\<rparr>\<rparr> = Some ra' \<and>
    laid_out 0 ra' \<and> start_blk (ra_image ra' ! 7) = 32768"
proof -
  let ?h = "\<lparr>h_name = emmc_name, h_high_capacity = True, h_capacity = 15269888, h_read_bl_len = 512\<rparr>"
  let ?ra = "\<lparr>ra_magic = 0, ra_start_blk = 0, ra_total_blk = 0, ra_next = 0, ra_description = [],
    ra_image = replicate 15 \<lparr>start_blk = 7, used_blk = 7, m_size = 0, attribute = 0, description = []\<rparr>\<rparr>"
  have "first_block ?h = 0" by (simp add: first_block_def)
  then show ?thesis
    using movi_table_layout [of ?ra ?h] emmc_name_chars by (auto simp: MAGIC_NUMBER_MOVI_def Let_def)
qed

section \<open>The command\<close>

text \<open>What an access to an area asks of the card, as the words of lines: the bootloader on the internal card is
  written between two commands that open and close its boot partition.\<close>

definition blocks_for :: "u32 \<Rightarrow> u32" where
  "blocks_for n = of_nat ((unat n + 511) div 512)"

definition movi_words :: "movi_env \<Rightarrow> u32 \<Rightarrow> bool \<Rightarrow> byte \<Rightarrow> u32 \<Rightarrow> u32 \<Rightarrow> byte list list list" where
  "movi_words e s rw area addr n =
     (if area = 102 then [mmc_words rw [48] addr s 16]
      else if area = 117 then [mmc_words rw [49] addr 1 1038]
      else if area = 101
      then [[txt_bytes ''emmc'', txt_bytes ''open'', [48]], mmc_words rw [48] addr 0 1038,
            [txt_bytes ''emmc'', txt_bytes ''close'', [48]]]
      else if area = 107 then [mmc_words rw (movi_dev e) addr 1120 12288]
      else if area = 82 then [mmc_words rw (movi_dev e) addr 17504 (blocks_for n)]
      else [mmc_words rw (movi_dev e) addr 13408 (blocks_for n)])"

lemma div_round_up: "(a + 511) div 512 = a div 512 + (if a mod 512 = 0 then 0 else (1 :: nat))"
proof -
  have "a + 511 = 512 * (a div 512) + (a mod 512 + 511)" by simp
  then have "(a + 511) div 512 = a div 512 + (a mod 512 + 511) div 512" by (metis div_mult_self4 zero_neq_numeral add.commute)
  moreover have "(a mod 512 + 511) div 512 = (if a mod 512 = 0 then 0 else 1)"
  proof (cases "a mod 512 = 0")
    case False
    have "a mod 512 < 512" by simp
    with False have "512 \<le> a mod 512 + 511" "a mod 512 + 511 < 2 * 512" by linarith+
    then show ?thesis using False by (simp add: div_nat_eqI)
  qed simp
  ultimately show ?thesis by simp
qed

lemma blocks_rounded:
  "n div 512 + (if n AND 511 \<noteq> 0 then 1 else 0) = blocks_for (n :: u32)"
proof -
  have n: "unat n < 2 ^ LENGTH(32)" by (rule unsigned_less)
  have m: "n AND 511 = n mod 512"
    using take_bit_eq_mask [of 9 n] by (simp add: mask_eq_exp_minus_1 take_bit_eq_mod)
  have "unat (n mod 512) = unat n mod 512" by (simp add: unat_mod_distrib)
  then have "n mod 512 = 0 \<longleftrightarrow> unat n mod 512 = 0" by (metis unat_eq_zero)
  moreover have "n div 512 = of_nat (unat n div 512)" by (simp add: word_arith_nat_div)
  moreover have "(unat n + 511) div 512 = unat n div 512 + (if unat n mod 512 = 0 then 0 else 1)"
    by (rule div_round_up)
  ultimately show ?thesis by (simp add: blocks_for_def m)
qed

lemma laid_out_find:
  assumes "laid_out s ra"
  shows "find_image ra 0 = 0" "find_image ra 2 = 2" "find_image ra 4 = 4" "find_image ra 8 = 5" "find_image ra 6 = 6"
    "length (ra_image ra) = 15"
    "start_blk (ra_image ra ! 0) = s" "used_blk (ra_image ra ! 0) = 16" "used_blk (ra_image ra ! 2) = 1038"
    "start_blk (ra_image ra ! 4) = 1120" "used_blk (ra_image ra ! 4) = 12288"
    "start_blk (ra_image ra ! 5) = 13408" "start_blk (ra_image ra ! 6) = 17504"
proof -
  obtain a0 a1 a2 a3 a4 a5 a6 rest where l: "ra_image ra = a0 # a1 # a2 # a3 # a4 # a5 # a6 # rest"
    using assms by (auto simp: laid_out_def length_Suc_conv eval_nat_numeral)
  show "find_image ra 0 = 0" "find_image ra 2 = 2" "find_image ra 4 = 4" "find_image ra 8 = 5" "find_image ra 6 = 6"
    "length (ra_image ra) = 15"
    "start_blk (ra_image ra ! 0) = s" "used_blk (ra_image ra ! 0) = 16" "used_blk (ra_image ra ! 2) = 1038"
    "start_blk (ra_image ra ! 4) = 1120" "used_blk (ra_image ra ! 4) = 12288"
    "start_blk (ra_image ra ! 5) = 13408" "start_blk (ra_image ra ! 6) = 17504"
    using assms by (simp_all add: laid_out_def find_image_def l)
qed

lemma laid_out_used:
  assumes "laid_out s ra" and "i = 5 \<or> i = 6"
  shows "laid_out s (ra\<lparr>ra_image := (ra_image ra)[i := (ra_image ra ! i)\<lparr>used_blk := n\<rparr>]\<rparr>)"
proof -
  obtain a0 a1 a2 a3 a4 a5 a6 rest where l: "ra_image ra = a0 # a1 # a2 # a3 # a4 # a5 # a6 # rest"
    using assms by (auto simp: laid_out_def length_Suc_conv eval_nat_numeral)
  show ?thesis using assms by (auto simp: laid_out_def l)
qed

lemma line_plain:
  "sprintf (txt_bytes ''emmc open 0'') [] = Some (join_words [txt_bytes ''emmc'', txt_bytes ''open'', [48]], 11)"
  "sprintf (txt_bytes ''emmc close 0'') [] = Some (join_words [txt_bytes ''emmc'', txt_bytes ''close'', [48]], 12)"
  by (simp_all add: sprintf_def txt_bytes_def vs_char vs_end)

lemma do_movi_lines:
  assumes "laid_out s ra" and "om_pin e = BOOT_MMCSD \<longrightarrow> (\<exists>n. mmc0_name e = Some n \<and> 0 \<notin> set n)"
    and "argv = name # op # dest # a # rest" and "hd (op @ [0]) = (if rw then 119 else 114)"
    and "hd (dest @ [0]) = area" and "area \<in> {102, 117, 101, 107} \<and> rest = [] \<or> area \<in> {82, 114} \<and> rest = [sz]"
    and "simple_strtoul (a @ [0]) 0 16 = Some (addr, i)"
    and "area \<in> {82, 114} \<longrightarrow> simple_strtoul (sz @ [0]) 0 16 = Some (n, j)"
  shows "\<exists>ra'. do_movi e ra argv = Some (ra', map join_words (movi_words e s rw area addr n), 1) \<and> laid_out s ra'"
proof -
  note f = laid_out_find [OF assms(1)]
  have c: "first_char argv 1 = Some (if rw then 119 else 114)" "first_char argv 2 = Some area"
    "rd argv 3 = Some a" "area \<in> {82, 114} \<Longrightarrow> rd argv 4 = Some sz"
    using assms(3-6) by (auto simp: first_char_def)
  have b: "movi_boot_dev e = Some (boot_card e)" by (rule movi_boot_dev_card [OF assms(2)])
  have p: "do_movi e ra argv = (case movi_letter area of None \<Rightarrow> Some (usage ra)
    | Some (argc, attr) \<Rightarrow> if length argv \<noteq> argc then Some (usage ra) else movi_area e ra rw attr addr argv)"
    using c(1-3) assms(7) by (simp add: do_movi_def split: option.split)
  note lines = line_fixed line_boot line_plain area_line_words
  consider (fixed) "area \<in> {102, 117, 101, 107}" "rest = []" | (sized) "area \<in> {82, 114}" "rest = [sz]"
    using assms(6) by blast
  then show ?thesis
  proof cases
    case fixed
    then have "length argv = 4" using assms(3) by simp
    with fixed(1) show ?thesis unfolding p
      by (elim insertE emptyE; simp add: movi_letter_def movi_area_def movi_words_def b f lines assms(1))
  next
    case sized
    have r: "movi_sized e ra rw (boot_card e) attr addr argv = Some (ra\<lparr>ra_image := (ra_image ra)
        [find_image ra attr := (ra_image ra ! find_image ra attr)\<lparr>used_blk := blocks_for n\<rparr>]\<rparr>,
        [join_words (mmc_words rw (movi_dev e) addr (start_blk (ra_image ra ! find_image ra attr)) (blocks_for n))], 1)"
      if "find_image ra attr < 15" for attr
      using sized(1) assms(8) c(4) f(6) that
      by (simp add: movi_sized_def MOVI_BLKSIZE_def area_line_words blocks_rounded Let_def)
    have "length argv = 5" using sized assms(3) by simp
    with sized(1) show ?thesis unfolding p
      by (elim insertE emptyE; simp add: movi_letter_def movi_area_def movi_words_def b r f laid_out_used [OF assms(1)])
  qed
qed

lemma movi_words_ok:
  assumes "ws \<in> set (movi_words e s rw area addr n)"
  shows "\<forall>w \<in> set ws. word_ok w \<and> (\<forall>c \<in> set w. plain c)" and "length (join_words ws) < 100"
    and "ws \<noteq> []" and "hd ws = txt_bytes ''mmc'' \<and> length ws = 6 \<or> hd ws = txt_bytes ''emmc'' \<and> length ws = 3"
proof -
  have d: "movi_dev e = [48] \<or> movi_dev e = [49]" by (simp add: movi_dev_def)
  have emmc: "\<forall>w \<in> set [txt_bytes ''emmc'', v, [48]]. word_ok w \<and> (\<forall>c \<in> set w. plain c)"
    if "v = txt_bytes ''open'' \<or> v = txt_bytes ''close''" for v
    using that by (auto simp: word_ok_def blank_def plain_def txt_bytes_def)
  consider v where "ws = [txt_bytes ''emmc'', v, [48]]" "v = txt_bytes ''open'' \<or> v = txt_bytes ''close''"
    | dev ad st cnt where "ws = mmc_words rw dev ad st cnt" "dev = [48] \<or> dev = [49]"
    using assms d by (auto simp: movi_words_def split: if_split_asm)
  then have "(\<forall>w \<in> set ws. word_ok w \<and> (\<forall>c \<in> set w. plain c)) \<and> length (join_words ws) < 100 \<and>
    ws \<noteq> [] \<and> (hd ws = txt_bytes ''mmc'' \<and> length ws = 6 \<or> hd ws = txt_bytes ''emmc'' \<and> length ws = 3)"
  proof cases
    case 1
    show ?thesis unfolding 1(1) using emmc [OF 1(2)] 1(2) by (auto simp: txt_bytes_def)
  next
    case 2
    show ?thesis unfolding 2(1) using mmc_words_ok [OF 2(2)] mmc_line_length [OF 2(2)] by (simp add: mmc_words_def)
  qed
  then show "\<forall>w \<in> set ws. word_ok w \<and> (\<forall>c \<in> set w. plain c)" "length (join_words ws) < 100"
    "ws \<noteq> []" "hd ws = txt_bytes ''mmc'' \<and> length ws = 6 \<or> hd ws = txt_bytes ''emmc'' \<and> length ws = 3" by blast+
qed

text \<open>C24. An access to an area: the lines that \<^verbatim>\<open>movi\<close> builds fit its buffer of 100 bytes, and the command
  parser runs each of them as exactly one call of the command \<^verbatim>\<open>mmc\<close> or \<^verbatim>\<open>emmc\<close> with
  the words meant, whose numbers are the address, the first block and the number of blocks, rounded up,
  of the area; the layout of the table is kept. The size that is given for the ramdisk or the recovery image
  is not compared with the size of its area.\<close>

theorem movi_lines_run:
  assumes "laid_out s ra" and "om_pin e = BOOT_MMCSD \<longrightarrow> (\<exists>n. mmc0_name e = Some n \<and> 0 \<notin> set n)"
    and "argv = name # op # dest # a # rest" and "hd (op @ [0]) = (if rw then 119 else 114)"
    and "hd (dest @ [0]) = area" and "area \<in> {102, 117, 101, 107} \<and> rest = [] \<or> area \<in> {82, 114} \<and> rest = [sz]"
    and "simple_strtoul (a @ [0]) 0 16 = Some (addr, i)"
    and "area \<in> {82, 114} \<longrightarrow> simple_strtoul (sz @ [0]) 0 16 = Some (n, j)"
    and "env_ok env" and "length cmdbuf = CBSIZE" and "length finaltoken = CBSIZE" and "length av = MAXARGS + 1"
    and "find_spec (txt_bytes ''mmc'') (map cmd_name (sh_cmds env)) = Some km"
    and "find_spec (txt_bytes ''emmc'') (map cmd_name (sh_cmds env)) = Some ke"
    and "\<not> sh_is_bootd env (cmd_fn (sh_cmds env ! km)) \<and> 6 \<le> cmd_maxargs (sh_cmds env ! km)"
    and "\<not> sh_is_bootd env (cmd_fn (sh_cmds env ! ke)) \<and> 3 \<le> cmd_maxargs (sh_cmds env ! ke)"
  shows "\<exists>ra'. do_movi e ra argv = Some (ra', map join_words (movi_words e s rw area addr n), 1) \<and> laid_out s ra' \<and>
    (\<forall>ws \<in> set (movi_words e s rw area addr n). length (join_words ws) < 100 \<and>
      run_command env cmdbuf finaltoken av (Some (join_words ws)) w flag =
        called env (if hd ws = txt_bytes ''mmc'' then km else ke) ws w flag) \<and>
    (\<forall>v. map_option fst (simple_strtoul (hex_word v @ [0]) 0 16) = Some v)"
proof -
  have run: "run_command env cmdbuf finaltoken av (Some (join_words ws)) w flag =
      called env (if hd ws = txt_bytes ''mmc'' then km else ke) ws w flag"
    if m: "ws \<in> set (movi_words e s rw area addr n)" for ws
  proof (rule run_plain_line [OF assms(9-12)])
    note k = movi_words_ok [OF m]
    show "ws \<noteq> []" "\<forall>w \<in> set ws. word_ok w \<and> (\<forall>c \<in> set w. plain c)" by (rule k)+
    show "length ws \<le> MAXARGS" "length (join_words ws) < CBSIZE" using k(2,4) by (auto simp: MAXARGS_def CBSIZE_def)
    have ne: "txt_bytes ''emmc'' \<noteq> txt_bytes ''mmc''" "stem (txt_bytes ''mmc'') = txt_bytes ''mmc''"
      "stem (txt_bytes ''emmc'') = txt_bytes ''emmc''" by (simp_all add: txt_bytes_def stem_def)
    then show "find_spec (stem (hd ws)) (map cmd_name (sh_cmds env)) =
        Some (if hd ws = txt_bytes ''mmc'' then km else ke)"
      using k(4) assms(13,14) by auto
    show "\<not> sh_is_bootd env (cmd_fn (sh_cmds env ! (if hd ws = txt_bytes ''mmc'' then km else ke)))"
      "int (length ws) \<le> cmd_maxargs (sh_cmds env ! (if hd ws = txt_bytes ''mmc'' then km else ke))"
      using k(4) assms(15,16) ne by auto
  qed
  from do_movi_lines [OF assms(1-8)] obtain ra' where
    "do_movi e ra argv = Some (ra', map join_words (movi_words e s rw area addr n), 1)" "laid_out s ra'" by blast
  moreover have "map_option fst (simple_strtoul (hex_word v @ [0]) 0 16) = Some v" for v
    using parse_hex [of v 16] by (simp add: hex_word_def)
  ultimately show ?thesis using run movi_words_ok(2) by blast
qed

lemma ex_addr: "simple_strtoul (txt_bytes ''40008000'' @ [0]) 0 16 = Some (0x40008000, 8)"
  by code_simp

definition ex_area :: "u32 \<Rightarrow> u32 \<Rightarrow> u32 \<Rightarrow> member" where
  "ex_area attr start used =
     \<lparr>start_blk = start, used_blk = used, m_size = used * 512, attribute = attr, description = []\<rparr>"

definition ex_table :: raw_area where
  "ex_table = \<lparr>ra_magic = MAGIC_NUMBER_MOVI, ra_start_blk = 32768, ra_total_blk = 15269888, ra_next = 0,
     ra_description = [],
     ra_image = [ex_area 0 0 16, ex_area 3 16 32, ex_area 2 0 1038, ex_area 0x10 1088 32, ex_area 4 1120 12288,
       ex_area 8 13408 4096, ex_area 6 17504 19360] @ replicate 8 (ex_area 0 0 0)\<rparr>"

definition ex_movi_env :: movi_env where
  "ex_movi_env = \<lparr>om_pin = BOOT_MMCSD, mmc0_name = Some emmc_name, fuse_by_fastboot = 0, dev_number_write = 0\<rparr>"

definition card_env :: "(nat, byte list list list) shell_env" where
  "card_env = toy_env\<lparr>sh_cmds := [toy_cmd ''mmc'' 6 1 0, toy_cmd ''emmc'' 5 0 0]\<rparr>"

theorem movi_lines_run_witness:
  "\<exists>ra' line. do_movi ex_movi_env ex_table
      (map txt_bytes [''movi'', ''write'', ''Recovery'', ''40008000'', ''600001'']) = Some (ra', [line], 1) \<and>
    run_command card_env (replicate 256 1) (replicate 256 2) (replicate 17 None) (Some line) [] 0 =
      Some ([[txt_bytes ''mmc'', txt_bytes ''write'', [49], hex_word 0x40008000, hex_word 17504, hex_word 12289]], 1)"
proof -
  let ?e = ex_movi_env and ?a = "map txt_bytes [''movi'', ''write'', ''Recovery'', ''40008000'', ''600001'']"
  have lo: "laid_out 0 ex_table"
    by (simp add: laid_out_def ex_table_def ex_area_def eval_nat_numeral)
  have sz: "simple_strtoul (txt_bytes ''600001'' @ [0]) 0 16 = Some (0x600001, 6)" by code_simp
  have w: "movi_words ?e 0 True 82 0x40008000 0x600001 = [mmc_words True [49] 0x40008000 17504 12289]"
    by (simp add: movi_words_def movi_dev_def boot_card_def ex_movi_env_def blocks_for_def)
  have env: "env_ok card_env"
    using toy_env_ok by (auto simp: env_ok_def card_env_def toy_env_def toy_cmd_def txt_bytes_def)
  have fs: "find_spec (txt_bytes ''mmc'') (map cmd_name (sh_cmds card_env)) = Some 0"
    "find_spec (txt_bytes ''emmc'') (map cmd_name (sh_cmds card_env)) = Some 1"
    by (simp_all add: find_spec_def card_env_def toy_cmd_def txt_bytes_def)
  have boot: "om_pin ?e = BOOT_MMCSD \<longrightarrow> (\<exists>n. mmc0_name ?e = Some n \<and> 0 \<notin> set n)"
    using emmc_name_chars by (simp add: ex_movi_env_def)
  have argv: "?a = txt_bytes ''movi'' # txt_bytes ''write'' # txt_bytes ''Recovery'' # txt_bytes ''40008000'' # [txt_bytes ''600001'']"
    "hd (txt_bytes ''write'' @ [0]) = (if True then 119 else 114)" "hd (txt_bytes ''Recovery'' @ [0]) = 82"
    "82 \<in> {102, 117, 101, 107 :: byte} \<and> [txt_bytes ''600001''] = [] \<or> 82 \<in> {82, 114 :: byte} \<and> [txt_bytes ''600001''] = [txt_bytes ''600001'']"
    "82 \<in> {82, 114 :: byte} \<longrightarrow> simple_strtoul (txt_bytes ''600001'' @ [0]) 0 16 = Some (0x600001, 6)"
    using sz by (simp_all add: txt_bytes_def)
  have bufs: "length (replicate 256 (1 :: byte)) = CBSIZE" "length (replicate 256 (2 :: byte)) = CBSIZE"
    "length (replicate 17 (None :: nat option)) = MAXARGS + 1" by (simp_all add: CBSIZE_def MAXARGS_def)
  have cmds: "\<not> sh_is_bootd card_env (cmd_fn (sh_cmds card_env ! 0)) \<and> 6 \<le> cmd_maxargs (sh_cmds card_env ! 0)"
    "\<not> sh_is_bootd card_env (cmd_fn (sh_cmds card_env ! 1)) \<and> 3 \<le> cmd_maxargs (sh_cmds card_env ! 1)"
    by (simp_all add: card_env_def toy_env_def toy_cmd_def)
  have hd: "hd (mmc_words True [49] 0x40008000 17504 12289) = txt_bytes ''mmc''" by (simp add: mmc_words_def)
  from movi_lines_run [OF lo boot argv(1-4) ex_addr argv(5) env bufs fs cmds, of "[]" 0]
  have "\<exists>ra'. do_movi ?e ex_table ?a = Some (ra', [join_words (mmc_words True [49] 0x40008000 17504 12289)], 1) \<and>
    run_command card_env (replicate 256 1) (replicate 256 2) (replicate 17 None)
      (Some (join_words (mmc_words True [49] 0x40008000 17504 12289))) [] 0 =
    called card_env 0 (mmc_words True [49] 0x40008000 17504 12289) [] 0"
    unfolding w by (auto simp: hd)
  then show ?thesis
    by (auto simp: called_def card_env_def toy_env_def toy_cmd_def toy_exec_def mmc_words_def)
qed

end
