(* ===== verification/MmcProps.thy ===== *)
theory MmcProps
  imports MmcCorrect MoviProps
begin

text \<open>
  From the command line to the card: the lines that other commands build, run by the command parser,
  reach the card through the \<^verbatim>\<open>mmc\<close> command and the block functions.
\<close>

section \<open>The command table of the board\<close>

text \<open>The parser acts on the machine; the command \<open>mmc\<close> is the entry \<open>k\<close> of its table, and nobody
  presses control-C.\<close>

definition runs_mmc :: "('h, cards machine) shell_env \<Rightarrow> cards driver \<Rightarrow> nat \<Rightarrow> bool" where
  "runs_mmc env drv k \<longleftrightarrow> env_ok env \<and>
     find_spec (txt_bytes ''mmc'') (map cmd_name (sh_cmds env)) = Some k \<and>
     \<not> sh_is_bootd env (cmd_fn (sh_cmds env ! k)) \<and> cmd_maxargs (sh_cmds env ! k) = 6 \<and>
     cmd_repeatable (sh_cmds env ! k) = 1 \<and>
     (\<forall>flag args w. sh_exec env (cmd_fn (sh_cmds env ! k)) flag args w = do_mmcops drv w args) \<and>
     (\<forall>w. \<not> sh_had_ctrlc env w \<and> sh_clear_ctrlc env w = w)"

definition dev_text :: "u32 \<Rightarrow> byte list" where
  "dev_text d = (if d = 0 then [48] else [49])"

lemma dev_text_num: "d = 0 \<or> d = 1 \<Longrightarrow> map_option fst (simple_strtoul (dev_text d @ [0]) 0 10) = Some d"
proof -
  have "simple_strtoul [48, 0] 0 10 = Some (0, 1)" "simple_strtoul [49, 0] 0 10 = Some (1, 1)" by code_simp+
  then show "d = 0 \<or> d = 1 \<Longrightarrow> map_option fst (simple_strtoul (dev_text d @ [0]) 0 10) = Some d"
    by (auto simp: dev_text_def)
qed

lemma mmc_words_args:
  assumes "d = 0 \<or> d = 1"
  shows "arg_num (mmc_words rw (dev_text d) a s n) 2 10 = Some d" "arg_num (mmc_words rw (dev_text d) a s n) 3 16 = Some a"
    "arg_num (mmc_words rw (dev_text d) a s n) 4 16 = Some s" "arg_num (mmc_words rw (dev_text d) a s n) 5 16 = Some n"
  using dev_text_num [OF assms] parse_hex [of a 16] parse_hex [of s 16] parse_hex [of n 16]
  by (simp_all add: arg_num_def mmc_words_def hex_word_def)

lemma arg_is_eq: "0 \<notin> set (argv ! k) \<Longrightarrow> k < length argv \<Longrightarrow> 0 \<notin> set (txt_bytes s) \<Longrightarrow>
    arg_is argv k s = Some (argv ! k = txt_bytes s)"
  using str_cmp_eq [of "argv ! k" "txt_bytes s"] by (auto simp: arg_is_def)

lemma do_mmcops_write:
  "d = 0 \<or> d = 1 \<Longrightarrow> do_mmcops drv w (mmc_words True (dev_text d) a s n) =
    mmc_cmd_write drv w (mmc_words True (dev_text d) a s n)"
  by (simp add: do_mmcops_def arg_is_eq mmc_words_def txt_bytes_def)

text \<open>A line \<open>mmc write\<close> stores memory on the card.\<close>

lemma line_stores:
  assumes "runs_mmc env drv k" and "obeys drv h" and "present w h" and "heap_ok drv heap"
    and "d_dev h = 0 \<or> d_dev h = 1" and "off_heap heap a (512 * unat n)"
    and "unat s + unat n \<le> unat (d_capacity h)" and "512 * unat n < 2 ^ 32" and "unat n mod 0xFFFF \<noteq> 0"
    and "length cmdbuf = CBSIZE" and "length finaltoken = CBSIZE" and "length av = MAXARGS + 1"
  shows "\<exists>w'. run_command env cmdbuf finaltoken av (Some (join_words (mmc_words True (dev_text (d_dev h)) a s n))) w flag =
      Some (w', 1) \<and> stored heap (d_dev h) s a (unat n) w w'"
proof -
  let ?ws = "mmc_words True (dev_text (d_dev h)) a s n"
  have dev: "dev_text (d_dev h) = [48] \<or> dev_text (d_dev h) = [49]" by (simp add: dev_text_def)
  obtain w' where w': "mmc_cmd_write drv w ?ws = Some (w', 0)" "stored heap (d_dev h) s a (unat n) w w'"
    using mmc_write_stored [OF assms(2,3,4,6) mmc_words_args [OF assms(5)] assms(7,8,9)] by blast
  have "run_command env cmdbuf finaltoken av (Some (join_words ?ws)) w flag = called env k ?ws w flag"
  proof (rule run_plain_line [OF _ assms(10-12)])
    show "env_ok env" "\<not> sh_is_bootd env (cmd_fn (sh_cmds env ! k))" using assms(1) by (simp_all add: runs_mmc_def)
    show "\<forall>w \<in> set ?ws. word_ok w \<and> (\<forall>c \<in> set w. plain c)" by (rule mmc_words_ok [OF dev])
    show "length (join_words ?ws) < CBSIZE" using mmc_line_length [OF dev, of True a s n] by (simp add: CBSIZE_def)
    have "hd ?ws = txt_bytes ''mmc''" "stem (txt_bytes ''mmc'') = txt_bytes ''mmc''"
      by (simp_all add: mmc_words_def stem_def txt_bytes_def)
    then show "find_spec (stem (hd ?ws)) (map cmd_name (sh_cmds env)) = Some k"
      using assms(1) by (simp add: runs_mmc_def)
    show "?ws \<noteq> []" "length ?ws \<le> MAXARGS" "int (length ?ws) \<le> cmd_maxargs (sh_cmds env ! k)"
      using assms(1) by (simp_all add: mmc_words_def MAXARGS_def runs_mmc_def)
  qed
  also have "\<dots> = Some (w', 1)"
    using assms(1) w'(1) by (simp add: called_def runs_mmc_def do_mmcops_write [OF assms(5)])
  finally show ?thesis using w'(2) by blast
qed

section \<open>Storing an area\<close>

text \<open>Where an access to an area other than the internal bootloader goes: device, first block, number
  of blocks.\<close>

definition movi_target :: "movi_env \<Rightarrow> u32 \<Rightarrow> byte \<Rightarrow> u32 \<Rightarrow> u32 \<times> u32 \<times> u32" where
  "movi_target e s area n =
     (let d = (if movi_dev e = [48] then 0 else 1)
      in if area = 102 then (0, s, 16)
      else if area = 117 then (1, 1, 1038)
      else if area = 107 then (d, 1120, 12288)
      else if area = 82 then (d, 17504, blocks_for n)
      else (d, 13408, blocks_for n))"

lemma movi_words_target:
  "area \<noteq> 101 \<Longrightarrow> movi_target e s area n = (d, st, cnt) \<Longrightarrow>
   movi_words e s rw area addr n = [mmc_words rw (dev_text d) addr st cnt] \<and> (d = 0 \<or> d = 1)"
  by (auto simp: movi_words_def movi_target_def dev_text_def movi_dev_def Let_def split: if_splits)

text \<open>C3. From the command line to the card: \<^verbatim>\<open>movi write\<close> with an address and, where needed, a size
  stores the area. The one line it gives to the command parser runs the \<^verbatim>\<open>mmc\<close> command, which succeeds,
  and afterwards the blocks of the area on the device meant hold what memory held from the address on;
  no other block of any card is changed, and memory only inside the heap, where the check reads the blocks
  back. The card must have the blocks, memory to be stored must not be in the heap, and the
  number of blocks must not be a multiple of 65535, for which the read-back ends with a command for no block.\<close>

theorem movi_write_stores:
  assumes "laid_out s ra" and "om_pin e = BOOT_MMCSD \<longrightarrow> (\<exists>n. mmc0_name e = Some n \<and> 0 \<notin> set n)"
    and "argv = name # op # dest # a # rest" and "hd (op @ [0]) = 119" and "hd (dest @ [0]) = area"
    and "area \<in> {102, 117, 107} \<and> rest = [] \<or> area \<in> {82, 114} \<and> rest = [sz]"
    and "simple_strtoul (a @ [0]) 0 16 = Some (addr, i)"
    and "area \<in> {82, 114} \<longrightarrow> simple_strtoul (sz @ [0]) 0 16 = Some (n, j)"
    and "movi_target e s area n = (d_dev h, st, cnt)"
    and "runs_mmc env drv k" and "obeys drv h" and "present w h" and "heap_ok drv heap"
    and "off_heap heap addr (512 * unat cnt)" and "unat st + unat cnt \<le> unat (d_capacity h)"
    and "512 * unat cnt < 2 ^ 32" and "unat cnt mod 0xFFFF \<noteq> 0"
    and "length cmdbuf = CBSIZE" and "length finaltoken = CBSIZE" and "length av = MAXARGS + 1"
  shows "\<exists>ra' line w'. do_movi e ra argv = Some (ra', [line], 1) \<and>
    run_command env cmdbuf finaltoken av (Some line) w flag = Some (w', 1) \<and>
    (\<forall>d b. mach_cards w' d b =
      (if d = d_dev h \<and> unat (b - st) < unat cnt then ram_block (mach_ram w) addr (unat (b - st))
       else mach_cards w d b)) \<and>
    (\<forall>x. x \<notin> heap \<longrightarrow> mach_ram w' x = mach_ram w x)"
proof -
  have ne: "area \<noteq> 101" using assms(6) by auto
  from movi_words_target [OF ne assms(9), of True addr]
  have t: "movi_words e s True area addr n = [mmc_words True (dev_text (d_dev h)) addr st cnt]"
    "d_dev h = 0 \<or> d_dev h = 1" by simp_all
  have "hd (op @ [0]) = (if True then 119 else 114)"
    "area \<in> {102, 117, 101, 107} \<and> rest = [] \<or> area \<in> {82, 114} \<and> rest = [sz]" using assms(4,6) by auto
  from do_movi_lines [OF assms(1-3) this(1) assms(5) this(2) assms(7,8)] obtain ra' where
    "do_movi e ra argv = Some (ra', [join_words (mmc_words True (dev_text (d_dev h)) addr st cnt)], 1)"
    unfolding t(1) by auto
  moreover obtain w' where
    "run_command env cmdbuf finaltoken av (Some (join_words (mmc_words True (dev_text (d_dev h)) addr st cnt))) w flag = Some (w', 1)"
    "stored heap (d_dev h) st addr (unat cnt) w w'"
    using line_stores [OF assms(10-13) t(2) assms(14-20)] by blast
  ultimately show ?thesis by (intro exI [of _ ra'] exI conjI) (auto simp: stored_def put_blocks_def)
qed

section \<open>An instance\<close>

text \<open>A card of high capacity with 15269888 blocks as device 1, a controller that does what it is told, and a heap
  of one megabyte.\<close>

definition ideal_dev :: mmc_dev where
  "ideal_dev = \<lparr>d_dev = 1, d_high_capacity = True, d_capacity = 15269888, d_boot_size_multi = 16\<rparr>"

definition ideal_transfer :: "u32 \<Rightarrow> u32 \<Rightarrow> mmc_data \<Rightarrow> cards machine \<Rightarrow> cards machine" where
  "ideal_transfer d s dat w =
     (if data_flags dat = 2
      then w\<lparr>mach_cards := (mach_cards w)
             (d := put_blocks (mach_cards w d) s (mach_ram w) (data_at dat) (unat (data_blocks dat)))\<rparr>
      else w\<lparr>mach_ram := get_blocks (mach_cards w d) s (mach_ram w) (data_at dat) (unat (data_blocks dat))\<rparr>)"

definition ideal_heap :: "u32 set" where
  "ideal_heap = {x. unat (x - 0x60000000) < 0x100000}"

definition ideal_driver :: "cards driver" where
  "ideal_driver = \<lparr>drv_send_cmd = (\<lambda>h c dat w. case dat of None \<Rightarrow> (w, 1)
       | Some dat \<Rightarrow> (ideal_transfer (d_dev h) (cmdarg c) dat w, 0)),
     drv_init = (\<lambda>h w. w), drv_mmc_init = (\<lambda>h w. (w, 0)), drv_erase = (\<lambda>h part s n w. (w, 1)),
     drv_malloc = (\<lambda>sz w. (w, if unat sz \<le> 0x100000 then 0x60000000 else 0)), drv_free = (\<lambda>p w. w)\<rparr>"

lemma ideal_obeys: "obeys ideal_driver ideal_dev"
  by (simp add: obeys_def ideal_driver_def rw_cmd_def rw_data_def ideal_transfer_def ideal_dev_def)

lemma ideal_heap_ok: "heap_ok ideal_driver ideal_heap"
proof -
  have "0x60000000 + of_nat i \<in> ideal_heap" if "i < unat sz" "unat sz \<le> 0x100000" for i and sz :: u32
    using that unat_of_small [of i] by (simp add: ideal_heap_def)
  then show ?thesis by (simp add: heap_ok_def ideal_driver_def)
qed

lemma off_ideal_heap:
  assumes "512 * n \<le> 0x10000000"
  shows "off_heap ideal_heap 0x40008000 (512 * n)"
  unfolding off_heap_def
proof (intro allI impI)
  fix i assume i: "i < 512 * n"
  have "0x40008000 + of_nat i - 0x60000000 = (0xE0008000 :: u32) + of_nat i" by simp
  moreover have "unat ((0xE0008000 :: u32) + of_nat i) = 0xE0008000 + i"
    using i assms by (subst unat_word_ariths(1)) (simp add: unat_of_small)
  ultimately have "unat (0x40008000 + of_nat i - 0x60000000 :: u32) = 0xE0008000 + i" by (simp only:)
  then show "(0x40008000 :: u32) + of_nat i \<notin> ideal_heap" unfolding ideal_heap_def mem_Collect_eq by simp
qed

definition mmc_env :: "(nat, cards machine) shell_env" where
  "mmc_env = \<lparr>sh_exec = (\<lambda>h flag args w. if h = 0 then do_mmcops ideal_driver w args else Some (w, 1)),
     sh_getenv = (\<lambda>w name. None), sh_had_ctrlc = (\<lambda>w. False), sh_clear_ctrlc = id, sh_is_bootd = (\<lambda>h. h = 2),
     sh_cmds = [toy_cmd ''mmc'' 6 1 0, toy_cmd ''emmc'' 5 0 1, toy_cmd ''bootd'' 1 1 2]\<rparr>"

lemma mmc_env_runs: "runs_mmc mmc_env ideal_driver 0"
  by (auto simp: runs_mmc_def mmc_env_def env_ok_def clean_vars_def toy_cmd_def txt_bytes_def find_spec_def)

definition blank_machine :: "cards machine" where
  "blank_machine = \<lparr>mach_ram = (\<lambda>x. ucast x), mach_devs = [ideal_dev], mach_cards = (\<lambda>d b. replicate 512 0)\<rparr>"

theorem movi_write_stores_witness:
  "\<exists>ra' line w'. do_movi ex_movi_env ex_table (map txt_bytes [''movi'', ''write'', ''kernel'', ''40008000'']) = Some (ra', [line], 1) \<and>
    run_command mmc_env (replicate 256 1) (replicate 256 2) (replicate 17 None) (Some line) blank_machine 0 = Some (w', 1) \<and>
    mach_cards w' 1 1121 = ram_block (\<lambda>x. ucast x) 0x40008000 1 \<and> mach_cards w' 1 1119 = replicate 512 0 \<and>
    mach_cards w' 0 1120 = replicate 512 0"
proof -
  let ?a = "map txt_bytes [''movi'', ''write'', ''kernel'', ''40008000'']"
  have lo: "laid_out 0 ex_table"
    by (simp add: laid_out_def ex_table_def ex_area_def eval_nat_numeral)
  have boot: "om_pin ex_movi_env = BOOT_MMCSD \<longrightarrow> (\<exists>n. mmc0_name ex_movi_env = Some n \<and> 0 \<notin> set n)"
    using emmc_name_chars by (simp add: ex_movi_env_def)
  have argv: "?a = txt_bytes ''movi'' # txt_bytes ''write'' # txt_bytes ''kernel'' # txt_bytes ''40008000'' # []"
    "hd (txt_bytes ''write'' @ [0]) = 119" "hd (txt_bytes ''kernel'' @ [0]) = 107"
    "107 \<in> {102, 117, 107 :: byte} \<and> [] = [] \<or> 107 \<in> {82, 114 :: byte} \<and> [] = [[] :: byte list]"
    "107 \<in> {82, 114 :: byte} \<longrightarrow> simple_strtoul ([] @ [0]) 0 16 = Some (0 :: u32, 0)" by (simp_all add: txt_bytes_def)
  have tg: "movi_target ex_movi_env 0 107 0 = (d_dev ideal_dev, 1120, 12288)"
    by (simp add: movi_target_def movi_dev_def boot_card_def ex_movi_env_def ideal_dev_def)
  have pres: "present blank_machine ideal_dev"
    by (simp add: present_def blank_machine_def find_mmc_device_def)
  have size: "off_heap ideal_heap 0x40008000 (512 * unat (12288 :: u32))"
    "unat (1120 :: u32) + unat (12288 :: u32) \<le> unat (d_capacity ideal_dev)" "512 * unat (12288 :: u32) < 2 ^ 32"
    "unat (12288 :: u32) mod 0xFFFF \<noteq> 0"
    using off_ideal_heap [of 12288] by (simp_all add: ideal_dev_def)
  have bufs: "length (replicate 256 (1 :: byte)) = CBSIZE" "length (replicate 256 (2 :: byte)) = CBSIZE"
    "length (replicate 17 (None :: nat option)) = MAXARGS + 1" by (simp_all add: CBSIZE_def MAXARGS_def)
  note st = movi_write_stores [OF lo boot argv(1-4) ex_addr argv(5) tg mmc_env_runs ideal_obeys pres ideal_heap_ok size bufs, of 0]
  obtain ra' line w' where r: "do_movi ex_movi_env ex_table ?a = Some (ra', [line], 1)"
    "run_command mmc_env (replicate 256 1) (replicate 256 2) (replicate 17 None) (Some line) blank_machine 0 = Some (w', 1)"
    "\<forall>d b. mach_cards w' d b =
      (if d = d_dev ideal_dev \<and> unat (b - 1120) < unat (12288 :: u32)
       then ram_block (mach_ram blank_machine) 0x40008000 (unat (b - 1120)) else mach_cards blank_machine d b)"
    using st by (elim exE conjE) (rule that)
  have m: "unat (1121 - 1120 :: u32) = 1" "unat (1119 - 1120 :: u32) = 4294967295"
    by (simp_all add: unsigned_minus_1_eq_mask mask_eq_exp_minus_1)
  have "mach_cards w' 1 1121 = ram_block (\<lambda>x. ucast x) 0x40008000 1" "mach_cards w' 1 1119 = replicate 512 0"
    "mach_cards w' 0 1120 = replicate 512 0"
    unfolding r(3) [rule_format] m by (simp_all add: blank_machine_def ideal_dev_def)
  then show ?thesis using r(1,2) by blast
qed

end
