(* ===== verification/Ext4Props.thy ===== *)
theory Ext4Props
  imports Ext4 MmcProps
begin

text \<open>
  Writing a compressed image: the chunks of the image, what they mean for the sectors of a card, and
  that the loop, through the command parser and the \<^verbatim>\<open>mmc\<close> command, makes the card so.
\<close>

section \<open>Chunks\<close>

text \<open>A chunk: its type, its length in blocks of the file system, the bytes that it holds.\<close>

type_synonym chunk = "u16 \<times> u32 \<times> byte list"

fun chunks_at :: "mem \<Rightarrow> nat \<Rightarrow> chunk list \<Rightarrow> bool" where
  "chunks_at m p [] \<longleftrightarrow> True"
| "chunks_at m p ((t, k, bytes) # cs) \<longleftrightarrow>
     ch_type m p = Some t \<and> ch_chunk_size m p = Some k \<and>
     ch_total_size m p = Some (of_nat (12 + length bytes)) \<and> 12 + length bytes < 2 ^ 32 \<and>
     rdn m (p + 12) (length bytes) = Some bytes \<and> chunks_at m (p + 12 + length bytes) cs"

text \<open>A stored chunk of at least one block holds its blocks; what lies behind its end is counted in fewer than \<open>2 ^ 32\<close> bytes.\<close>

fun chunk_ok :: "chunk \<Rightarrow> bool" where
  "chunk_ok (t, k, bytes) \<longleftrightarrow> 4096 * unat k < 2 ^ 32 \<and>
     (t = EXT4_CHUNK_TYPE_RAW \<longrightarrow> length bytes = 4096 * unat k \<and> (8 * unat k) mod 0xFFFF \<noteq> 0)"

fun sectors :: "chunk list \<Rightarrow> nat" where
  "sectors [] = 0"
| "sectors ((t, k, bytes) # cs) = 8 * unat k + sectors cs"

text \<open>The sectors of a card after the chunks: those of stored chunks hold their bytes, the others are kept,
  also those of fill chunks.\<close>

definition put_bytes :: "(u32 \<Rightarrow> byte list) \<Rightarrow> nat \<Rightarrow> byte list \<Rightarrow> u32 \<Rightarrow> byte list" where
  "put_bytes c s bytes = (\<lambda>b. if s \<le> unat b \<and> 512 * (unat b - s) < length bytes
     then take 512 (drop (512 * (unat b - s)) bytes) else c b)"

fun sparse :: "(u32 \<Rightarrow> byte list) \<Rightarrow> nat \<Rightarrow> chunk list \<Rightarrow> u32 \<Rightarrow> byte list" where
  "sparse c s [] = c"
| "sparse c s ((t, k, bytes) # cs) =
     sparse (if t = EXT4_CHUNK_TYPE_RAW then put_bytes c s bytes else c) (s + 8 * unat k) cs"

section \<open>One chunk\<close>

lemma fmt_x:
  assumes "p + 1 < length m" and "m ! (p + 1) = 120"
  shows "fmt_item m p (VInt x # as) = Some (hex x, p + 2, as)"
  using assms no_flags [of "p + 1" m 0]
  by (simp add: fmt_item_def flag_of_def fmt_width_def fmt_digit_def fmt_precision_def fmt_qualifier_def
      fmt_convert_def fmt_num_def hex_def Let_def)

lemma vs_x:
  "p + 1 < length m \<Longrightarrow> m ! p = 37 \<Longrightarrow> m ! (p + 1) = 120 \<Longrightarrow>
   vsprintf m p (VInt x # as) = map_option (\<lambda>rest. hex x @ rest) (vsprintf m (p + 2) as)"
  by (intro vs_item fmt_x) simp_all

lemma line_x:
  "length d < 2 ^ 32 \<Longrightarrow>
   sprintf (txt_bytes ''mmc write %s 0x%x 0x%x 0x%x'') [VStr (Some d), VInt addr, VInt start, VInt cnt] =
     Some (join_words (mmc_words True d addr start cnt), length (join_words (mmc_words True d addr start cnt)))"
  by (simp add: sprintf_def txt_bytes_def mmc_words_def hex_word_def vs_char vs_s vs_x vs_end)

text \<open>The object \<open>m\<close> at the address \<open>base\<close>.\<close>

definition loaded :: "(u32 \<Rightarrow> byte) \<Rightarrow> u32 \<Rightarrow> mem \<Rightarrow> bool" where
  "loaded r base m \<longleftrightarrow> (\<forall>i < length m. r (base + of_nat i) = m ! i)"

lemma ram_block_loaded:
  assumes "loaded r base m" and "rdn m p (length bytes) = Some bytes" and "512 * i + 512 \<le> length bytes"
  shows "ram_block r (base + of_nat p) i = take 512 (drop (512 * i) bytes)"
proof (rule nth_equalityI)
  have b: "p + length bytes \<le> length m" "bytes = take (length bytes) (drop p m)" using assms(2) by auto
  show "length (ram_block r (base + of_nat p) i) = length (take 512 (drop (512 * i) bytes))"
    using assms(3) by (simp add: ram_block_def ram_bytes_def)
  fix j assume "j < length (ram_block r (base + of_nat p) i)"
  then have j: "j < 512" by (simp add: ram_block_def ram_bytes_def)
  have in_m: "p + (512 * i + j) < length m" using assms(3) j b(1) by simp
  have "ram_block r (base + of_nat p) i ! j = r (base + of_nat (p + (512 * i + j)))"
    using j by (simp add: ram_block_nth add.assoc)
  also have "\<dots> = m ! (p + (512 * i + j))" using assms(1) in_m unfolding loaded_def by blast
  also have "\<dots> = take (length bytes) (drop p m) ! (512 * i + j)" using assms(3) j b(1) by simp
  also have "\<dots> = bytes ! (512 * i + j)" by (simp only: b(2) [symmetric])
  finally show "ram_block r (base + of_nat p) i ! j = take 512 (drop (512 * i) bytes) ! j"
    using assms(3) j by simp
qed

lemma put_blocks_bytes:
  assumes "loaded r base m" and "rdn m p (length bytes) = Some bytes" and "length bytes = 512 * n"
    and "unat s + n < 2 ^ 32"
  shows "put_blocks c s r (base + of_nat p) n = put_bytes c (unat s) bytes"
proof
  fix b :: u32
  have i: "unat (b - s) < n \<longleftrightarrow> unat s \<le> unat b \<and> unat b - unat s < n"
    using assms(4) unat_less [of s] by (auto simp: unat_minus)
  show "put_blocks c s r (base + of_nat p) n b = put_bytes c (unat s) bytes b"
  proof (cases "unat s \<le> unat b \<and> unat b - unat s < n")
    case True
    then have "unat (b - s) = unat b - unat s" by (simp add: unat_minus)
    moreover have "512 * (unat b - unat s) + 512 \<le> length bytes" using True assms(3) by simp
    ultimately show ?thesis
      using True i assms(3) ram_block_loaded [OF assms(1,2)] by (simp add: put_blocks_def put_bytes_def)
  next
    case False
    then show ?thesis using i assms(3) by (auto simp: put_blocks_def put_bytes_def)
  qed
qed

section \<open>The image\<close>

text \<open>The fixed surroundings: the parser with the command \<open>mmc\<close> on a card that obeys, and its buffers.\<close>

definition flash_ok :: "('h, cards machine) shell_env \<Rightarrow> cards driver \<Rightarrow> nat \<Rightarrow> mmc_dev \<Rightarrow> u32 set \<Rightarrow> bool" where
  "flash_ok env drv k h heap \<longleftrightarrow> runs_mmc env drv k \<and> obeys drv h \<and> heap_ok drv heap \<and> (d_dev h = 0 \<or> d_dev h = 1)"

definition shell_run ::
  "('h, cards machine) shell_env \<Rightarrow> mem \<Rightarrow> mem \<Rightarrow> nat option list \<Rightarrow> byte list \<Rightarrow> cards machine \<Rightarrow> (cards machine \<times> int) option" where
  "shell_run env cmdbuf finaltoken av line w = run_command env cmdbuf finaltoken av (Some line) w 0"

definition bufs :: "mem \<Rightarrow> mem \<Rightarrow> nat option list \<Rightarrow> bool" where
  "bufs cmdbuf finaltoken av \<longleftrightarrow> length cmdbuf = CBSIZE \<and> length finaltoken = CBSIZE \<and> length av = MAXARGS + 1"

lemma raw_chunk_stores:
  assumes "flash_ok env drv k h heap" and "bufs cmdbuf finaltoken av" and "present w h"
    and "off_heap heap data (512 * unat n)" and "unat s + unat n \<le> unat (d_capacity h)"
    and "512 * unat n < 2 ^ 32" and "unat n mod 0xFFFF \<noteq> 0"
  shows "\<exists>w'. write_raw_chunk (shell_run env cmdbuf finaltoken av) (d_dev h) data s n w = Some (w', 0) \<and>
    stored heap (d_dev h) s data (unat n) w w'"
proof -
  have e: "(if d_dev h \<noteq> 0 then txt_bytes ''1'' else txt_bytes ''0'') = dev_text (d_dev h)"
    by (simp add: dev_text_def txt_bytes_def)
  have l: "length (dev_text (d_dev h)) < 2 ^ 32" by (simp add: dev_text_def)
  obtain w' where w': "run_command env cmdbuf finaltoken av
      (Some (join_words (mmc_words True (dev_text (d_dev h)) data s n))) w 0 = Some (w', 1)"
    "stored heap (d_dev h) s data (unat n) w w'"
    using line_stores [of env drv k h w heap data n s cmdbuf finaltoken av 0] assms
    unfolding flash_ok_def bufs_def by blast
  then show ?thesis by (simp add: write_raw_chunk_def e line_x [OF l] shell_run_def)
qed

lemma sector_count:
  "4096 * unat k < 2 ^ 32 \<Longrightarrow> unat (drop_bit SECTOR_BITS (k * 4096 :: u32)) = 8 * unat k"
proof -
  assume "4096 * unat k < 2 ^ 32"
  then have "unat (k * 4096) = 4096 * unat k" by (simp add: unat_word_ariths(2))
  moreover have "unat (drop_bit SECTOR_BITS (k * 4096)) = unat (k * 4096) div 2 ^ 9"
    by (simp only: SECTOR_BITS_def unat_drop_bit_eq drop_bit_eq_div [of 9 "unat (k * 4096)"])
  ultimately show ?thesis by simp
qed

lemma write_chunks_stores:
  assumes "flash_ok env drv kc h heap" and "bufs cmdbuf finaltoken av"
    and "chunks_at m p cs" and "\<forall>c \<in> set cs. chunk_ok c"
    and "present w h" and "loaded (mach_ram w) base m" and "off_heap heap base (length m)"
    and "unat s + sectors cs \<le> unat (d_capacity h)"
  shows "\<exists>w'. write_chunks (length cs) (shell_run env cmdbuf finaltoken av) (d_dev h) base 4096 m p s w = Some (w', 0) \<and>
    mach_cards w' = (mach_cards w)(d_dev h := sparse (mach_cards w (d_dev h)) (unat s) cs) \<and>
    (\<forall>x. x \<notin> heap \<longrightarrow> mach_ram w' x = mach_ram w x)"
  using assms(3-)
proof (induction cs arbitrary: p s w)
  case Nil
  then show ?case by simp
next
  case (Cons c cs)
  obtain t k bytes where c: "c = (t, k, bytes)" by (cases c)
  have at: "ch_type m p = Some t" "ch_chunk_size m p = Some k" "ch_total_size m p = Some (of_nat (12 + length bytes))"
    "12 + length bytes < 2 ^ 32" "rdn m (p + 12) (length bytes) = Some bytes" "chunks_at m (p + 12 + length bytes) cs"
    using Cons.prems(1) c by simp_all
  have ok: "4096 * unat k < 2 ^ 32" "t = EXT4_CHUNK_TYPE_RAW \<Longrightarrow> length bytes = 4096 * unat k \<and> (8 * unat k) mod 0xFFFF \<noteq> 0"
    "\<forall>c \<in> set cs. chunk_ok c" using Cons.prems(2) c by simp_all
  let ?n = "drop_bit SECTOR_BITS (k * 4096 :: u32)"
  have n: "unat ?n = 8 * unat k" by (rule sector_count [OF ok(1)])
  obtain tw where tw: "ch_total_size m p = Some tw" "unat tw = 12 + length bytes"
    using at(3,4) unat_of_small [of "12 + length bytes"] by blast
  have cap: "unat s + 8 * unat k + sectors cs \<le> unat (d_capacity h)" using Cons.prems(6) c by simp
  then have s: "unat (s + ?n) = unat s + 8 * unat k"
    using n unat_less [of "d_capacity h"] by (simp add: unat_word_ariths(1))
  have next_chunk: "\<exists>w'. write_chunks (length cs) (shell_run env cmdbuf finaltoken av) (d_dev h) base 4096 m
        (p + 12 + length bytes) (s + ?n) v = Some (w', 0) \<and>
      mach_cards w' = (mach_cards v)(d_dev h := sparse (mach_cards v (d_dev h)) (unat s + 8 * unat k) cs) \<and>
      (\<forall>x. x \<notin> heap \<longrightarrow> mach_ram w' x = mach_ram v x)"
    if "present v h" "loaded (mach_ram v) base m" for v
  proof -
    have "unat (s + ?n) + sectors cs \<le> unat (d_capacity h)" using cap s by simp
    from Cons.IH [OF at(6) ok(3) that Cons.prems(5) this] show ?thesis unfolding s .
  qed
  show ?case
  proof (cases "t = EXT4_CHUNK_TYPE_RAW")
    case False
    obtain w' where w': "write_chunks (length cs) (shell_run env cmdbuf finaltoken av) (d_dev h) base 4096 m
         (p + 12 + length bytes) (s + ?n) w = Some (w', 0)"
      "mach_cards w' = (mach_cards w)(d_dev h := sparse (mach_cards w (d_dev h)) (unat s + 8 * unat k) cs)"
      "\<forall>x. x \<notin> heap \<longrightarrow> mach_ram w' x = mach_ram w x" using next_chunk [OF Cons.prems(3,4)] by blast
    have "write_chunks (length (c # cs)) (shell_run env cmdbuf finaltoken av) (d_dev h) base 4096 m p s w = Some (w', 0)"
      using w'(1) False at(1,2) tw by (simp add: add.assoc)
    moreover have "sparse (mach_cards w (d_dev h)) (unat s) (c # cs) =
        sparse (mach_cards w (d_dev h)) (unat s + 8 * unat k) cs" using False c by simp
    ultimately show ?thesis using w'(2,3) by (intro exI [of _ w']) simp
  next
    case True
    let ?data = "base + of_nat (p + 12) :: u32"
    have len: "length bytes = 512 * (8 * unat k)" using ok(2) True by simp
    have in_m: "p + 12 + length bytes \<le> length m" using at(5) by simp
    have "off_heap heap ?data (512 * unat ?n)"
      unfolding off_heap_def n
    proof (intro allI impI)
      fix i assume "i < 512 * (8 * unat k)"
      then have "p + 12 + i < length m" using in_m len by simp
      then have "base + of_nat (p + 12 + i) \<notin> heap" using Cons.prems(5) unfolding off_heap_def by blast
      then show "?data + of_nat i \<notin> heap" by (simp add: add.assoc)
    qed
    then obtain v where v: "write_raw_chunk (shell_run env cmdbuf finaltoken av) (d_dev h) ?data s ?n w = Some (v, 0)"
      "stored heap (d_dev h) s ?data (unat ?n) w v"
      using raw_chunk_stores [OF assms(1,2) Cons.prems(3), of ?data ?n s] cap ok True unfolding n by auto
    have "unat s + 8 * unat k < 2 ^ 32" using cap unat_less [of "d_capacity h"] by simp
    then have put: "put_blocks (mach_cards w (d_dev h)) s (mach_ram w) ?data (8 * unat k) =
        put_bytes (mach_cards w (d_dev h)) (unat s) bytes"
      by (rule put_blocks_bytes [OF Cons.prems(4) at(5) len])
    have "present v h" "loaded (mach_ram v) base m"
      using v(2) Cons.prems(3-5) by (auto simp: stored_def present_def loaded_def off_heap_def)
    then obtain w' where w':
      "write_chunks (length cs) (shell_run env cmdbuf finaltoken av) (d_dev h) base 4096 m
         (p + 12 + length bytes) (s + ?n) v = Some (w', 0)"
      "mach_cards w' = (mach_cards v)(d_dev h := sparse (mach_cards v (d_dev h)) (unat s + 8 * unat k) cs)"
      "\<forall>x. x \<notin> heap \<longrightarrow> mach_ram w' x = mach_ram v x" using next_chunk by blast
    have "write_chunks (length (c # cs)) (shell_run env cmdbuf finaltoken av) (d_dev h) base 4096 m p s w = Some (w', 0)"
      using w'(1) v(1) True at(1,2) tw by (simp add: add.assoc EXT4_CHUNK_HEADER_SIZE_def)
    moreover have "mach_cards v = (mach_cards w)(d_dev h := put_bytes (mach_cards w (d_dev h)) (unat s) bytes)"
      "\<forall>x. x \<notin> heap \<longrightarrow> mach_ram v x = mach_ram w x"
      using v(2) put unfolding stored_def n by simp_all
    moreover have "sparse (mach_cards w (d_dev h)) (unat s) (c # cs) =
        sparse (put_bytes (mach_cards w (d_dev h)) (unat s) bytes) (unat s + 8 * unat k) cs" using True c by simp
    ultimately show ?thesis using w'(2,3) by (intro exI [of _ w']) simp
  qed
qed

section \<open>Headers\<close>

text \<open>The header the check accepts.\<close>

definition header_ok :: "mem \<Rightarrow> nat \<Rightarrow> bool" where
  "header_ok m p \<longleftrightarrow> fh_magic m p = Some 0xED26FF3A \<and> fh_major m p = Some 1 \<and> fh_file_header_size m p = Some 28 \<and>
     fh_chunk_header_size m p = Some 12 \<and> fh_block_size m p = Some 4096"

section \<open>An instance\<close>

text \<open>An image of a stored block, a fill chunk of two blocks and a hole of one.\<close>

definition ex_header :: "byte list" where
  "ex_header = [0x3A, 0xFF, 0x26, 0xED, 1, 0, 0, 0, 28, 0, 12, 0, 0, 0x10, 0, 0, 4, 0, 0, 0, 3, 0, 0, 0, 0, 0, 0, 0]"

definition ex_image :: mem where
  "ex_image = ex_header @
     [0xC1, 0xCA, 0, 0, 1, 0, 0, 0, 0x0C, 0x10, 0, 0] @ replicate 4096 7 @
     [0xC2, 0xCA, 0, 0, 2, 0, 0, 0, 16, 0, 0, 0] @ [1, 1, 1, 1] @
     [0xC3, 0xCA, 0, 0, 1, 0, 0, 0, 12, 0, 0, 0]"

definition ex_chunks :: "chunk list" where
  "ex_chunks = [(0xCAC1, 1, replicate 4096 7), (0xCAC2, 2, [1, 1, 1, 1]), (0xCAC3, 1, [])]"

lemma ex_image_length: "length ex_image = 4164"
  by (simp add: ex_image_def ex_header_def)

lemma ex_image_header: "header_ok ex_image 0" "fh_total_blocks ex_image 0 = Some 4" "fh_total_chunks ex_image 0 = Some 3"
  by (simp_all add: header_ok_def fh_magic_def fh_major_def fh_file_header_size_def fh_chunk_header_size_def
      fh_block_size_def fh_total_blocks_def fh_total_chunks_def field32_def field16_def ex_image_length)
    (simp_all add: ex_image_def ex_header_def get_le32_def get_le16_def)

lemma ex_image_chunks: "chunks_at ex_image 28 ex_chunks"
  by (simp add: ex_chunks_def ch_type_def ch_chunk_size_def ch_total_size_def field32_def field16_def ex_image_length)
    (simp add: ex_image_def ex_header_def get_le32_def get_le16_def)

lemma ex_image_check: "check_compress_ext4 ex_image 0 0x4000 = Some (Result 0)"
  using ex_image_header
  by (simp add: check_compress_ext4_def header_ok_def EXT4_FILE_HEADER_MAGIC_def EXT4_FILE_HEADER_MAJOR_def
      EXT4_FILE_HEADER_SIZE_def EXT4_CHUNK_HEADER_SIZE_def EXT4_FILE_BLOCK_SIZE_def)

text \<open>Writing an image that passed the check, on a card that obeys, through the command parser: the result is 0 and
  the sectors of the card from the first one on are those that the chunks of the image mean; stored chunks
  are written where the lengths of the chunks before them put them, all other sectors are kept, and memory outside
  the heap is not changed. A fill chunk is passed over like a hole: its sectors keep what they held.\<close>

theorem write_compressed_ext4_stores:
  assumes "check_compress_ext4 m p psize = Some (Result 0)"
    and "fh_total_chunks m p = Some (of_nat (length cs))" and "length cs < 2 ^ 32"
    and "chunks_at m (p + 28) cs" and "\<forall>c \<in> set cs. chunk_ok c"
    and "flash_ok env drv k h heap" and "bufs cmdbuf finaltoken av" and "present w h"
    and "loaded (mach_ram w) base m" and "off_heap heap base (length m)"
    and "unat s + sectors cs \<le> unat (d_capacity h)"
  shows "\<exists>w'. write_compressed_ext4 (shell_run env cmdbuf finaltoken av) (d_dev h) base m p s w = Some (w', 0) \<and>
    mach_cards w' = (mach_cards w)(d_dev h := sparse (mach_cards w (d_dev h)) (unat s) cs) \<and>
    (\<forall>x. x \<notin> heap \<longrightarrow> mach_ram w' x = mach_ram w x)"
proof -
  have b: "fh_block_size m p = Some 4096"
    using assms(1) by (auto simp: check_compress_ext4_def bind_eq_Some_conv EXT4_FILE_BLOCK_SIZE_def split: if_splits)
  have n: "unat (of_nat (length cs) :: u32) = length cs" using assms(3) by (rule unat_of_small)
  show ?thesis
  proof (cases "cs = []")
    case True
    then show ?thesis using assms(2) by (simp add: write_compressed_ext4_def)
  next
    case False
    then have "(of_nat (length cs) :: u32) \<noteq> 0" using n by (metis length_0_conv unat_0)
    then show ?thesis
      using write_chunks_stores [OF assms(6,7,4,5,8-11)] assms(2) b n
      by (simp add: write_compressed_ext4_def EXT4_FILE_HEADER_SIZE_def)
  qed
qed

definition image_machine :: "cards machine" where
  "image_machine = blank_machine\<lparr>mach_ram := (\<lambda>x. if unat (x - 0x40008000) < length ex_image
     then ex_image ! unat (x - 0x40008000) else 0)\<rparr>"

lemma image_loaded: "loaded (mach_ram image_machine) 0x40008000 ex_image"
proof -
  have "unat (of_nat i :: u32) = i" if "i < 4164" for i using that by (intro unat_of_small) simp
  then show ?thesis by (simp add: loaded_def image_machine_def ex_image_length)
qed

theorem write_compressed_ext4_stores_witness:
  "\<exists>w'. write_compressed_ext4 (shell_run mmc_env (replicate 256 1) (replicate 256 2) (replicate 17 None)) 1
      0x40008000 ex_image 0 4096 image_machine = Some (w', 0) \<and>
    mach_cards w' 1 4103 = replicate 512 7 \<and> mach_cards w' 1 4104 = replicate 512 0"
proof -
  have n: "fh_total_chunks ex_image 0 = Some (of_nat (length ex_chunks))" "length ex_chunks < 2 ^ 32"
    using ex_image_header by (simp_all add: ex_chunks_def)
  have c: "\<forall>c \<in> set ex_chunks. chunk_ok c"
    by (simp add: ex_chunks_def EXT4_CHUNK_TYPE_RAW_def)
  have at: "chunks_at ex_image (0 + 28) ex_chunks" using ex_image_chunks by simp
  have env: "flash_ok mmc_env ideal_driver 0 ideal_dev ideal_heap"
    using mmc_env_runs ideal_obeys ideal_heap_ok by (simp add: flash_ok_def ideal_dev_def)
  have b: "bufs (replicate 256 1) (replicate 256 2) (replicate 17 None)"
    by (simp add: bufs_def CBSIZE_def MAXARGS_def)
  have p: "present image_machine ideal_dev"
    by (simp add: present_def image_machine_def blank_machine_def find_mmc_device_def)
  have o: "off_heap ideal_heap 0x40008000 (length ex_image)"
    using off_ideal_heap [of 9] by (simp add: off_heap_def ex_image_length)
  have s: "unat (4096 :: u32) + sectors ex_chunks \<le> unat (d_capacity ideal_dev)"
    by (simp add: ex_chunks_def ideal_dev_def)
  note st = write_compressed_ext4_stores [OF ex_image_check n at c env b p image_loaded o s]
  have d: "d_dev ideal_dev = 1" by (simp add: ideal_dev_def)
  obtain w' where w': "write_compressed_ext4 (shell_run mmc_env (replicate 256 1) (replicate 256 2) (replicate 17 None)) 1
      0x40008000 ex_image 0 4096 image_machine = Some (w', 0)"
    "mach_cards w' = (mach_cards image_machine)(1 := sparse (mach_cards image_machine 1) 4096 ex_chunks)"
    using st unfolding d by (elim exE conjE) (rule that, simp_all)
  have "sparse (mach_cards image_machine 1) 4096 ex_chunks 4103 = replicate 512 7"
    "sparse (mach_cards image_machine 1) 4096 ex_chunks 4104 = replicate 512 0"
    by (simp_all add: ex_chunks_def put_bytes_def image_machine_def blank_machine_def EXT4_CHUNK_TYPE_RAW_def)
  then show ?thesis using w' by simp
qed

end
