(* ===== verification/Console.thy ===== *)
theory Console
  imports Cli Shell
begin

text \<open>
  Reading a line at the console: \<open>readline_into_buffer\<close> of \<^verbatim>\<open>common/main.c\<close> with both of
  its editors. The one with the history is used when \<^verbatim>\<open>GD_FLG_RELOC\<close> is set, which
  \<^verbatim>\<open>lib_arm/board.c\<close> no longer does; so the one that this board runs is the loop behind it and
  \<open>delete_char\<close>. The loop works on the buffer, an offset, a count and a column, and what it writes
  to the console is part of its result.
\<close>

definition MAX_CMDBUF_SIZE :: nat where "MAX_CMDBUF_SIZE = 256"

definition erase_seq :: "byte list" where "erase_seq = [8, 32, 8]"
definition tab_seq :: "byte list" where "tab_seq = replicate 8 32"

section \<open>The editor without history\<close>

text \<open>\<open>p\<close>, \<open>n\<close>, \<open>col\<close> and what was written.\<close>

record sline =
  sl_p :: nat
  sl_n :: nat
  sl_col :: nat
  sl_out :: "byte list"

fun erase_to :: "nat \<Rightarrow> nat \<Rightarrow> nat \<times> byte list" where
  "erase_to plen 0 = (0, [])"
| "erase_to plen (Suc col) =
     (if plen < Suc col then (case erase_to plen col of (c, out) \<Rightarrow> (c, erase_seq @ out)) else (Suc col, []))"

text \<open>One character shown at a column, and the column behind it.\<close>

definition echo :: "byte \<Rightarrow> nat \<Rightarrow> nat \<times> byte list" where
  "echo c col = (if c = 9 then (col + (8 - col mod 8), drop (col mod 8) tab_seq) else (col + 1, [c]))"

fun retype :: "byte list \<Rightarrow> nat \<Rightarrow> nat \<times> byte list" where
  "retype [] col = (col, [])"
| "retype (c # cs) col =
     (case echo c col of (col, out) \<Rightarrow> case retype cs col of (col, outs) \<Rightarrow> (col, out @ outs))"

definition delete_char :: "mem \<Rightarrow> nat \<Rightarrow> sline \<Rightarrow> sline option" where
  "delete_char buffer plen s =
     (if sl_n s = 0 then Some s
      else do {
        let p = sl_p s - 1;
        c \<leftarrow> rd buffer p;
        let (col, out) = (if c = 9
          then (case erase_to plen (sl_col s) of (col, out) \<Rightarrow>
                case retype (take p buffer) col of (col, outs) \<Rightarrow> (col, out @ outs))
          else (sl_col s - 1, erase_seq));
        Some \<lparr>sl_p = p, sl_n = sl_n s - 1, sl_col = col, sl_out = sl_out s @ out\<rparr>
      })"

text \<open>The loop of control-W behind its first \<open>delete_char\<close>.\<close>

function erase_word :: "mem \<Rightarrow> nat \<Rightarrow> sline \<Rightarrow> sline option" where
  "erase_word buffer plen s =
     (if 0 < sl_n s
      then (case rd buffer (sl_p s) of
          None \<Rightarrow> None
        | Some c \<Rightarrow>
            (if c \<noteq> 32
             then (case delete_char buffer plen s of None \<Rightarrow> None | Some s' \<Rightarrow> erase_word buffer plen s')
             else Some s))
      else Some s)"
  by pat_completeness auto
termination
  by (relation "measure (\<lambda>(buffer, plen, s). sl_n s)")
    (auto simp: delete_char_def Let_def bind_eq_Some_conv split: if_splits prod.splits)

declare erase_word.simps [simp del]

text \<open>The buffer, the result if there is one, what was written, and the keys left.\<close>

fun read_keys :: "nat \<Rightarrow> mem \<Rightarrow> sline \<Rightarrow> byte list \<Rightarrow> (mem \<times> int option \<times> byte list \<times> byte list) option" where
  "read_keys plen buf s [] = Some (buf, None, sl_out s, [])"
| "read_keys plen buf s (c # keys) =
     (if c = 13 \<or> c = 10
      then (case wr buf (sl_p s) 0 of
          None \<Rightarrow> None
        | Some buf \<Rightarrow> Some (buf, Some (int (sl_p s)), sl_out s @ [13, 10], keys))
      else if c = 0 then read_keys plen buf s keys
      else if c = 3 then (case wr buf 0 0 of None \<Rightarrow> None | Some buf \<Rightarrow> Some (buf, Some (- 1), sl_out s, keys))
      else if c = 0x15
      then (case erase_to plen (sl_col s) of (col, out) \<Rightarrow>
              read_keys plen buf \<lparr>sl_p = 0, sl_n = 0, sl_col = col, sl_out = sl_out s @ out\<rparr> keys)
      else if c = 0x17
      then (case do { s \<leftarrow> delete_char buf plen s; erase_word buf plen s } of
          None \<Rightarrow> None
        | Some s \<Rightarrow> read_keys plen buf s keys)
      else if c = 8 \<or> c = 0x7F
      then (case delete_char buf plen s of None \<Rightarrow> None | Some s \<Rightarrow> read_keys plen buf s keys)
      else if sl_n s < CBSIZE - 2
      then (case wr buf (sl_p s) c of
          None \<Rightarrow> None
        | Some buf \<Rightarrow> (case echo c (sl_col s) of (col, out) \<Rightarrow>
            read_keys plen buf \<lparr>sl_p = sl_p s + 1, sl_n = sl_n s + 1, sl_col = col, sl_out = sl_out s @ out\<rparr> keys))
      else read_keys plen buf (s\<lparr>sl_out := sl_out s @ [7]\<rparr>) keys)"

definition plain_readline :: "byte list \<Rightarrow> mem \<Rightarrow> byte list \<Rightarrow> (mem \<times> int option \<times> byte list \<times> byte list) option" where
  "plain_readline prompt buf keys =
     read_keys (length prompt) buf \<lparr>sl_p = 0, sl_n = 0, sl_col = length prompt, sl_out = prompt\<rparr> keys"

section \<open>The choice of the editor\<close>

text \<open>The state of the console that is kept between lines: whether the history was set up, and the history.\<close>

record console =
  con_initted :: bool
  con_hist :: hist

text \<open>\<open>flg\<close> is the flag; \<open>esc\<close> what the buffer of the other editor for escape sequences holds.
  No result while it waits for keys.\<close>

definition readline_into_buffer ::
  "bool \<Rightarrow> mem \<Rightarrow> byte list \<Rightarrow> mem \<Rightarrow> console \<Rightarrow> byte list \<Rightarrow> (mem \<times> int option \<times> console \<times> byte list) option" where
  "readline_into_buffer flg esc prompt buf con keys =
     (if flg
      then do {
        let h = (if con_initted con then con_hist con else hist_init (con_hist con));
        (buf, len, h, rc, keys) \<leftarrow> cread_line esc buf MAX_CMDBUF_SIZE h keys;
        Some (buf, map_option (\<lambda>rc. if rc < 0 then rc else int len) rc,
          \<lparr>con_initted = True, con_hist = h\<rparr>, keys)
      }
      else do {
        (buf, rc, out, keys) \<leftarrow> plain_readline prompt buf keys;
        Some (buf, rc, con, keys)
      })"

definition readline ::
  "bool \<Rightarrow> mem \<Rightarrow> byte list \<Rightarrow> mem \<Rightarrow> console \<Rightarrow> byte list \<Rightarrow> (mem \<times> int option \<times> console \<times> byte list) option" where
  "readline flg esc prompt console_buffer con keys = do {
     console_buffer \<leftarrow> wr console_buffer 0 0;
     readline_into_buffer flg esc prompt console_buffer con keys
   }"

end
