(* ===== verification/MainLoop.thy ===== *)
theory MainLoop
  imports Console
begin

text \<open>
  The console of the boot loader: \<open>abortboot\<close> and \<open>main_loop\<close> of \<^verbatim>\<open>common/main.c\<close>, for
  the board's configuration (no \<^verbatim>\<open>CONFIG_SYS_HUSH_PARSER\<close>, no keyed autoboot, no retry time).
  The keys that will be typed at the prompt are a list. What is printed is not modelled here.
\<close>

section \<open>Autoboot\<close>

text \<open>\<open>tstc k\<close> says whether a key is there at the \<open>k\<close>-th look, ten milliseconds after the one before.\<close>

fun look_for_key :: "(nat \<Rightarrow> bool) \<Rightarrow> nat \<Rightarrow> nat \<Rightarrow> bool" where
  "look_for_key tstc k 0 = False"
| "look_for_key tstc k (Suc i) = (if tstc k then True else look_for_key tstc (k + 1) i)"

fun abort_loop :: "(nat \<Rightarrow> bool) \<Rightarrow> nat \<Rightarrow> nat \<Rightarrow> bool" where
  "abort_loop tstc k 0 = False"
| "abort_loop tstc k (Suc bootdelay) =
     (if look_for_key tstc k 100 then True else abort_loop tstc (k + 100) bootdelay)"

definition abortboot :: "(nat \<Rightarrow> bool) \<Rightarrow> int \<Rightarrow> bool" where
  "abortboot tstc bootdelay = abort_loop tstc 0 (nat bootdelay)"

definition CONFIG_BOOTDELAY :: int where "CONFIG_BOOTDELAY = 2"

text \<open>What the arrays of \<open>run_command\<close> on the stack hold at entry.\<close>

type_synonym stack = "mem \<times> mem \<times> nat option list"

definition run_line ::
  "('h, 'w) shell_env \<Rightarrow> stack \<Rightarrow> byte list \<Rightarrow> 'w \<Rightarrow> int \<Rightarrow> ('w \<times> int) option" where
  "run_line env stk cmd w flag =
     (case stk of (cmdbuf, finaltoken, argv) \<Rightarrow> run_command env cmdbuf finaltoken argv (Some cmd) w flag)"

text \<open>Until the loop: the key that stops autoboot is read.\<close>

definition autoboot ::
  "('h, 'w) shell_env \<Rightarrow> (nat \<Rightarrow> bool) \<Rightarrow> stack \<Rightarrow> 'w \<Rightarrow> byte list \<Rightarrow> ('w \<times> byte list) option" where
  "autoboot env tstc stk w keys = do {
     bootdelay \<leftarrow> (case sh_getenv env w (txt_bytes ''bootdelay'') of
         None \<Rightarrow> Some CONFIG_BOOTDELAY
       | Some s \<Rightarrow> map_option (\<lambda>(r, _). sint r) (simple_strtol (s @ [0]) 0 10));
     (case sh_getenv env w (txt_bytes ''bootcmd'') of
        None \<Rightarrow> Some (w, keys)
      | Some s \<Rightarrow>
          (if 0 \<le> bootdelay
           then if abortboot tstc bootdelay then Some (w, tl keys)
                else map_option (\<lambda>(w, _). (w, keys)) (run_line env stk s w 0)
           else Some (w, keys)))
   }"

section \<open>The loop\<close>

definition CMD_FLAG_REPEAT :: int where "CMD_FLAG_REPEAT = 1"

record 'w main_st =
  ms_last :: mem
  ms_buf :: mem
  ms_con :: console
  ms_rc :: int
  ms_world :: 'w
  ms_keys :: "byte list"

text \<open>One turn of the loop; \<open>Some None\<close> when \<open>readline\<close> waits for a key.\<close>

definition main_turn ::
  "bool \<Rightarrow> mem \<Rightarrow> ('h, 'w) shell_env \<Rightarrow> stack \<Rightarrow> 'w main_st \<Rightarrow> 'w main_st option option" where
  "main_turn flg esc env stk s = do {
     (buf, len, con, keys) \<leftarrow> readline flg esc (txt_bytes ''iTOP-4412 # '') (ms_buf s) (ms_con s) (ms_keys s);
     (case len of
        None \<Rightarrow> Some None
      | Some len \<Rightarrow> do {
          last \<leftarrow> (if 0 < len then copy_line (ms_last s) buf else Some (ms_last s));
          (w, rc) \<leftarrow>
            (if len = - 1 then Some (ms_world s, ms_rc s)
             else do {
               e \<leftarrow> str_end last 0;
               run_line env stk (take e last) (ms_world s) (if len = 0 then CMD_FLAG_REPEAT else 0)
             });
          last \<leftarrow> (if rc \<le> 0 then wr last 0 0 else Some last);
          Some (Some \<lparr>ms_last = last, ms_buf = buf, ms_con = con, ms_rc = rc, ms_world = w, ms_keys = keys\<rparr>)
        })
   }"

text \<open>At most \<open>n\<close> turns, each with a stack of its own; the state and whether it waits.\<close>

fun main_loop ::
  "bool \<Rightarrow> mem \<Rightarrow> ('h, 'w) shell_env \<Rightarrow> (nat \<Rightarrow> stack) \<Rightarrow> nat \<Rightarrow> 'w main_st \<Rightarrow> ('w main_st \<times> bool) option" where
  "main_loop flg esc env stk 0 s = Some (s, False)"
| "main_loop flg esc env stk (Suc n) s =
     (case main_turn flg esc env (stk n) s of
        None \<Rightarrow> None
      | Some None \<Rightarrow> Some (s, True)
      | Some (Some s) \<Rightarrow> main_loop flg esc env stk n s)"

end
