(* ===== verification/ConsoleCorrect.thy ===== *)
theory ConsoleCorrect
  imports Console
begin

text \<open>
  The editor without history does what its user means: it is an editor of a list of characters, and
  the line on the screen is the prompt with the list behind it, tabs expanded.
\<close>

section \<open>A terminal\<close>

text \<open>The characters left of the cursor and from it on: backspace moves the cursor, the bell does
  nothing, every other character is put at the cursor.\<close>

type_synonym screen = "byte list \<times> byte list"

fun tty :: "byte \<Rightarrow> screen \<Rightarrow> screen" where
  "tty c (l, r) =
     (if c = 7 then (l, r)
      else if c = 8 then (if l = [] then (l, r) else (butlast l, last l # r))
      else (l @ [c], drop 1 r))"

text \<open>What was written shows the line \<open>l\<close>, with the cursor at its end and only blanks behind.\<close>

definition shows_line :: "byte list \<Rightarrow> byte list \<Rightarrow> bool" where
  "shows_line out l \<longleftrightarrow> (\<exists>k. fold tty out ([], []) = (l, replicate k 32))"

lemma shows_type: "shows_line out l \<Longrightarrow> c \<noteq> 7 \<Longrightarrow> c \<noteq> 8 \<Longrightarrow> shows_line (out @ [c]) (l @ [c])"
  by (auto simp: shows_line_def intro: exI [of _ "k - 1" for k])

lemma shows_types: "shows_line out l \<Longrightarrow> 7 \<notin> set x \<Longrightarrow> 8 \<notin> set x \<Longrightarrow> shows_line (out @ x) (l @ x)"
proof (induction x arbitrary: out l)
  case (Cons c x)
  from Cons.IH [OF shows_type [OF Cons.prems(1), of c]] Cons.prems(2,3) show ?case by auto
qed simp

lemma shows_bell: "shows_line out l \<Longrightarrow> shows_line (out @ [7]) l"
  by (auto simp add: shows_line_def)

lemma shows_erase:
  assumes "shows_line out (l @ [c])"
  shows "shows_line (out @ erase_seq) l"
proof -
  obtain k where "fold tty out ([], []) = (l @ [c], replicate k 32)" using assms by (auto simp: shows_line_def)
  then have "fold tty (out @ erase_seq) ([], []) = (l, replicate (Suc k) 32)" by (simp add: erase_seq_def)
  then show ?thesis unfolding shows_line_def by blast
qed

lemma shows_erase_all: "shows_line out (l @ x) \<Longrightarrow> shows_line (out @ concat (replicate (length x) erase_seq)) l"
proof (induction x arbitrary: out rule: rev_induct)
  case (snoc c x)
  from snoc.IH [OF shows_erase [of out "l @ x" c]] snoc.prems show ?case by simp
qed simp

section \<open>Columns\<close>

fun tabbed :: "nat \<Rightarrow> byte list \<Rightarrow> byte list" where
  "tabbed col [] = []"
| "tabbed col (c # cs) =
     (if c = 9 then replicate (8 - col mod 8) 32 @ tabbed (col + (8 - col mod 8)) cs else c # tabbed (col + 1) cs)"

lemma tabbed_append: "tabbed col (xs @ ys) = tabbed col xs @ tabbed (col + length (tabbed col xs)) ys"
  by (induction col xs rule: tabbed.induct) (simp_all add: add.assoc)

lemma tabbed_quiet: "7 \<notin> set t \<Longrightarrow> 8 \<notin> set t \<Longrightarrow> 7 \<notin> set (tabbed col t) \<and> 8 \<notin> set (tabbed col t)"
  by (induction col t rule: tabbed.induct) auto

lemma echo_tabbed: "echo c col = (col + length (tabbed col [c]), tabbed col [c])"
  by (simp add: echo_def tab_seq_def)

lemma retype_tabbed: "retype t col = (col + length (tabbed col t), tabbed col t)"
  by (induction t arbitrary: col) (auto simp: echo_tabbed)

lemma erase_to_is: "erase_to plen (plen + n) = (plen, concat (replicate n erase_seq))"
proof (induction n)
  case 0
  then show ?case by (cases plen) simp_all
qed simp

section \<open>The abstract editor\<close>

text \<open>Control-W takes characters from the end up to and with a space.\<close>

definition word_erase :: "byte list \<Rightarrow> byte list" where
  "word_erase t = rev (drop 1 (dropWhile (\<lambda>c. c \<noteq> 32) (rev t)))"

lemma word_erase_simps [simp]: "word_erase [] = []" "word_erase (t @ [c]) = (if c = 32 then t else word_erase t)"
  by (simp_all add: word_erase_def)

definition ed_key :: "byte \<Rightarrow> byte list \<Rightarrow> byte list" where
  "ed_key c t =
     (if c = 0 then t else if c = 0x15 then [] else if c = 0x17 then word_erase t
      else if c = 8 \<or> c = 0x7F then butlast t else if length t < 254 then t @ [c] else t)"

datatype ed_result = Typing "byte list" | Typed "byte list" | Stopped

fun ed_keys :: "byte list \<Rightarrow> byte list \<Rightarrow> ed_result \<times> byte list" where
  "ed_keys [] t = (Typing t, [])"
| "ed_keys (c # keys) t =
     (if c = 13 \<or> c = 10 then (Typed t, keys)
      else if c = 3 then (Stopped, keys)
      else ed_keys keys (ed_key c t))"

text \<open>Keys that a terminal shows: printing characters, tab, and the keys the editor knows.\<close>

definition typed_key :: "byte \<Rightarrow> bool" where
  "typed_key c \<longleftrightarrow> 32 \<le> c \<or> c \<in> {0, 3, 8, 9, 10, 13, 0x15, 0x17}"

section \<open>The invariant\<close>

definition sl_ok :: "byte list \<Rightarrow> bool \<Rightarrow> mem \<Rightarrow> sline \<Rightarrow> byte list \<Rightarrow> bool" where
  "sl_ok prompt vis buf s t \<longleftrightarrow> sl_p s = length t \<and> sl_n s = length t \<and> length buf = CBSIZE \<and> length t \<le> 254 \<and>
     take (length t) buf = t \<and> sl_col s = length prompt + length (tabbed (length prompt) t) \<and>
     (vis \<longrightarrow> shows_line (sl_out s) (prompt @ tabbed (length prompt) t) \<and> 7 \<notin> set t \<and> 8 \<notin> set t)"

lemma take_snoc:
  assumes "take (length (t @ [c])) buf = t @ [c]"
  shows "length t < length buf \<and> take (length t) buf = t \<and> buf ! length t = c"
proof -
  have l: "length t < length buf" using arg_cong [OF assms, of length] by simp
  then show ?thesis using assms by (simp add: take_Suc_conv_app_nth)
qed

lemma delete_char_ok:
  assumes "sl_ok prompt vis buf s t"
  shows "\<exists>s'. delete_char buf (length prompt) s = Some s' \<and> sl_ok prompt vis buf s' (butlast t)"
proof (cases t rule: rev_cases)
  case Nil
  then show ?thesis using assms by (auto simp: delete_char_def sl_ok_def)
next
  case (snoc u c)
  let ?pl = "length prompt" and ?e = "tabbed (length prompt) u"
  have a: "sl_p s = Suc (length u)" "sl_n s = Suc (length u)" "length buf = CBSIZE" "length u \<le> 253"
    "take (length (u @ [c])) buf = u @ [c]" "sl_col s = ?pl + length (tabbed ?pl (u @ [c]))"
    and sh: "vis \<Longrightarrow> shows_line (sl_out s) (prompt @ tabbed ?pl (u @ [c])) \<and> 7 \<notin> set u \<and> 8 \<notin> set u"
    using assms by (simp_all add: sl_ok_def snoc)
  note b = take_snoc [OF a(5)]
  show ?thesis
  proof (cases "c = 9")
    case True
    let ?out = "sl_out s @ concat (replicate (length (tabbed ?pl (u @ [c]))) erase_seq)"
    have d: "delete_char buf ?pl s = Some \<lparr>sl_p = length u, sl_n = length u, sl_col = ?pl + length ?e, sl_out = ?out @ ?e\<rparr>"
      using b True by (simp add: delete_char_def a erase_to_is retype_tabbed Let_def)
    have "vis \<Longrightarrow> shows_line (?out @ ?e) (prompt @ ?e)"
      using sh shows_erase_all [of "sl_out s" prompt "tabbed ?pl (u @ [c])"] tabbed_quiet [of u ?pl]
      by (intro shows_types) auto
    then show ?thesis unfolding d using sh a b by (simp add: sl_ok_def snoc)
  next
    case False
    then have ex: "tabbed ?pl (u @ [c]) = ?e @ [c]" by (simp add: tabbed_append)
    have d: "delete_char buf ?pl s = Some \<lparr>sl_p = length u, sl_n = length u, sl_col = ?pl + length ?e, sl_out = sl_out s @ erase_seq\<rparr>"
      using b False ex by (simp add: delete_char_def a Let_def)
    have "vis \<Longrightarrow> shows_line (sl_out s @ erase_seq) (prompt @ ?e)"
      using sh shows_erase [of "sl_out s" "prompt @ ?e" c] by (simp add: ex)
    then show ?thesis unfolding d using sh a b by (simp add: sl_ok_def snoc)
  qed
qed

lemma erase_word_ok:
  assumes "sl_ok prompt vis buf s t" and "buf ! length t = d"
  shows "\<exists>s'. erase_word buf (length prompt) s = Some s' \<and> sl_ok prompt vis buf s' (if d = 32 then t else word_erase t)"
  using assms
proof (induction t arbitrary: s d rule: rev_induct)
  case Nil
  then show ?case by (simp add: erase_word.simps sl_ok_def)
next
  case (snoc c t)
  have s: "sl_n s = Suc (length t)" "sl_p s = Suc (length t)" "length buf = 256" "length t \<le> 253"
    "take (length (t @ [c])) buf = t @ [c]" using snoc.prems(1) by (simp_all add: sl_ok_def CBSIZE_def)
  show ?case
  proof (cases "d = 32")
    case True
    then show ?thesis using s snoc.prems by (simp add: erase_word.simps [of buf])
  next
    case False
    obtain s' where s': "delete_char buf (length prompt) s = Some s'" "sl_ok prompt vis buf s' t"
      using delete_char_ok [OF snoc.prems(1)] by auto
    have c: "buf ! length t = c" using take_snoc [OF s(5)] by simp
    from snoc.IH [OF s'(2) c] show ?thesis
      using s s'(1) snoc.prems(2) False by (simp add: erase_word.simps [of buf _ s])
  qed
qed

lemma control_w_ok:
  assumes "sl_ok prompt vis buf s t"
  shows "\<exists>s'. do { s \<leftarrow> delete_char buf (length prompt) s; erase_word buf (length prompt) s } = Some s' \<and>
    sl_ok prompt vis buf s' (word_erase t)"
proof (cases t rule: rev_cases)
  case Nil
  then have "delete_char buf (length prompt) s = Some s" "erase_word buf (length prompt) s = Some s"
    using assms by (simp_all add: sl_ok_def delete_char_def erase_word.simps)
  then show ?thesis using assms Nil by simp
next
  case (snoc u c)
  obtain s' where s': "delete_char buf (length prompt) s = Some s'" "sl_ok prompt vis buf s' u"
    using delete_char_ok [OF assms] snoc by auto
  have "buf ! length u = c" using assms snoc take_snoc [of u c buf] by (simp add: sl_ok_def)
  from erase_word_ok [OF s'(2) this] show ?thesis using s'(1) snoc by simp
qed

lemma type_ok:
  assumes "sl_ok prompt vis buf s t" and "length t < 254" and "vis \<longrightarrow> c \<noteq> 7 \<and> c \<noteq> 8"
  shows "sl_ok prompt vis (buf[length t := c]) \<lparr>sl_p = sl_p s + 1, sl_n = sl_n s + 1,
      sl_col = fst (echo c (sl_col s)), sl_out = sl_out s @ snd (echo c (sl_col s))\<rparr> (t @ [c])"
proof -
  have "7 \<notin> set (tabbed k [c])" "8 \<notin> set (tabbed k [c])" if vis for k
    using that assms(3) tabbed_quiet [of "[c]" k] by auto
  moreover have "length t < length buf" using assms(1,2) by (simp add: sl_ok_def CBSIZE_def)
  then have "take (Suc (length t)) (buf[length t := c]) = take (length t) buf @ [c]"
    by (simp add: take_Suc_conv_app_nth)
  ultimately show ?thesis using assms
    by (auto simp: sl_ok_def echo_tabbed tabbed_append simp del: tabbed.simps(2) intro: shows_types [of _ "a @ b" for a b, simplified])
qed

lemma clear_ok:
  assumes "sl_ok prompt vis buf s t"
  shows "sl_ok prompt vis buf \<lparr>sl_p = 0, sl_n = 0, sl_col = fst (erase_to (length prompt) (sl_col s)),
    sl_out = sl_out s @ snd (erase_to (length prompt) (sl_col s))\<rparr> []"
  using assms shows_erase_all [of "sl_out s" prompt "tabbed (length prompt) t"]
  by (simp add: sl_ok_def erase_to_is)

lemma read_keys_ok:
  assumes "sl_ok prompt vis buf s t" and "vis \<longrightarrow> (\<forall>c \<in> set keys. typed_key c)"
  shows "case ed_keys keys t of
      (Typing u, rest) \<Rightarrow> \<exists>buf' out. read_keys (length prompt) buf s keys = Some (buf', None, out, rest) \<and>
        length buf' = CBSIZE \<and> (vis \<longrightarrow> shows_line out (prompt @ tabbed (length prompt) u))
    | (Typed u, rest) \<Rightarrow> \<exists>buf' out. read_keys (length prompt) buf s keys = Some (buf', Some (int (length u)), out @ [13, 10], rest) \<and>
        length buf' = CBSIZE \<and> length u \<le> 254 \<and> take (length u + 1) buf' = u @ [0] \<and>
        (vis \<longrightarrow> shows_line out (prompt @ tabbed (length prompt) u))
    | (Stopped, rest) \<Rightarrow> \<exists>buf' out. read_keys (length prompt) buf s keys = Some (buf', Some (- 1), out, rest) \<and>
        length buf' = CBSIZE \<and> buf' ! 0 = 0"
  using assms
proof (induction keys arbitrary: buf s t)
  case Nil
  then show ?case by (simp add: sl_ok_def)
next
  case (Cons c keys)
  let ?pl = "length prompt"
  have len: "length buf = 256" and p: "sl_p s = length t" "sl_n s = length t" and t: "length t \<le> 254" "take (length t) buf = t"
    and vis: "vis \<longrightarrow> shows_line (sl_out s) (prompt @ tabbed ?pl t)"
    using Cons.prems(1) by (simp_all add: sl_ok_def CBSIZE_def)
  have vk: "vis \<longrightarrow> (\<forall>c \<in> set keys. typed_key c)" using Cons.prems(2) by simp
  note step = Cons.IH [OF _ vk]
  consider (enter) "c = 13 \<or> c = 10" | (nul) "c = 0" | (brk) "c = 3" | (clr) "c = 0x15" | (word) "c = 0x17"
    | (bs) "c = 8 \<or> c = 0x7F"
    | (char) "c \<notin> {13, 10, 0, 3, 0x15, 0x17, 8, 0x7F}" "length t < 254"
    | (full) "c \<notin> {13, 10, 0, 3, 0x15, 0x17, 8, 0x7F}" "\<not> length t < 254" by blast
  then show ?case
  proof cases
    case enter
    have "take (Suc (length t)) (buf[length t := 0]) = t @ [0]"
      using len t by (simp add: take_Suc_conv_app_nth)
    then show ?thesis using enter len p t vis by (auto simp: CBSIZE_def)
  next
    case nul
    then have r: "read_keys ?pl buf s (c # keys) = read_keys ?pl buf s keys"
      and e: "ed_keys (c # keys) t = ed_keys keys t" by (simp_all add: ed_key_def)
    show ?thesis unfolding r e by (rule step [OF Cons.prems(1)])
  next
    case brk
    then show ?thesis using len by (simp add: CBSIZE_def)
  next
    case clr
    then have r: "read_keys ?pl buf s (c # keys) = read_keys ?pl buf
        \<lparr>sl_p = 0, sl_n = 0, sl_col = fst (erase_to ?pl (sl_col s)), sl_out = sl_out s @ snd (erase_to ?pl (sl_col s))\<rparr> keys"
      and e: "ed_keys (c # keys) t = ed_keys keys []" by (simp_all add: ed_key_def split_beta)
    show ?thesis unfolding r e by (rule step [OF clear_ok [OF Cons.prems(1)]])
  next
    case word
    obtain s' where s': "do { s \<leftarrow> delete_char buf ?pl s; erase_word buf ?pl s } = Some s'" "sl_ok prompt vis buf s' (word_erase t)"
      using control_w_ok [OF Cons.prems(1)] by blast
    have r: "read_keys ?pl buf s (c # keys) = read_keys ?pl buf s' keys"
      and e: "ed_keys (c # keys) t = ed_keys keys (word_erase t)" using word by (simp_all add: ed_key_def s'(1))
    show ?thesis unfolding r e by (rule step [OF s'(2)])
  next
    case bs
    obtain s' where s': "delete_char buf ?pl s = Some s'" "sl_ok prompt vis buf s' (butlast t)"
      using delete_char_ok [OF Cons.prems(1)] by blast
    have r: "read_keys ?pl buf s (c # keys) = read_keys ?pl buf s' keys"
      and e: "ed_keys (c # keys) t = ed_keys keys (butlast t)" using bs by (auto simp: ed_key_def s'(1))
    show ?thesis unfolding r e by (rule step [OF s'(2)])
  next
    case char
    have q: "vis \<longrightarrow> c \<noteq> 7 \<and> c \<noteq> 8" using Cons.prems(2) char(1) by (auto simp: typed_key_def)
    have r: "read_keys ?pl buf s (c # keys) = read_keys ?pl (buf[length t := c]) \<lparr>sl_p = sl_p s + 1, sl_n = sl_n s + 1,
        sl_col = fst (echo c (sl_col s)), sl_out = sl_out s @ snd (echo c (sl_col s))\<rparr> keys"
      and e: "ed_keys (c # keys) t = ed_keys keys (t @ [c])"
      using char len p by (simp_all add: ed_key_def split_beta CBSIZE_def)
    show ?thesis unfolding r e by (rule step [OF type_ok [OF Cons.prems(1) char(2) q]])
  next
    case full
    have "sl_ok prompt vis buf (s\<lparr>sl_out := sl_out s @ [7]\<rparr>) t"
      using Cons.prems(1) shows_bell by (auto simp: sl_ok_def)
    moreover have r: "read_keys ?pl buf s (c # keys) = read_keys ?pl buf (s\<lparr>sl_out := sl_out s @ [7]\<rparr>) keys"
      and e: "ed_keys (c # keys) t = ed_keys keys t"
      using full p by (simp_all add: ed_key_def CBSIZE_def)
    ultimately show ?thesis unfolding r e by (intro step)
  qed
qed

lemma plain_readline_ok:
  assumes "length buf = CBSIZE" and "7 \<notin> set prompt" and "8 \<notin> set prompt"
  shows "sl_ok prompt vis buf \<lparr>sl_p = 0, sl_n = 0, sl_col = length prompt, sl_out = prompt\<rparr> []"
proof -
  have "shows_line [] []" by (auto simp: shows_line_def intro: exI [of _ 0])
  from shows_types [OF this assms(2,3)] show ?thesis using assms(1) by (simp add: sl_ok_def)
qed

lemma plain_readline_spec:
  assumes "length buf = CBSIZE" and "7 \<notin> set prompt" and "8 \<notin> set prompt"
  shows "case ed_keys keys [] of
      (Typing u, rest) \<Rightarrow> \<exists>buf' out. plain_readline prompt buf keys = Some (buf', None, out, rest) \<and>
        length buf' = CBSIZE \<and> ((\<forall>c \<in> set keys. typed_key c) \<longrightarrow> shows_line out (prompt @ tabbed (length prompt) u))
    | (Typed u, rest) \<Rightarrow> \<exists>buf' out. plain_readline prompt buf keys = Some (buf', Some (int (length u)), out @ [13, 10], rest) \<and>
        length buf' = CBSIZE \<and> length u \<le> 254 \<and> take (length u + 1) buf' = u @ [0] \<and>
        ((\<forall>c \<in> set keys. typed_key c) \<longrightarrow> shows_line out (prompt @ tabbed (length prompt) u))
    | (Stopped, rest) \<Rightarrow> \<exists>buf' out. plain_readline prompt buf keys = Some (buf', Some (- 1), out, rest) \<and>
        length buf' = CBSIZE \<and> buf' ! 0 = 0"
  unfolding plain_readline_def by (rule read_keys_ok [OF plain_readline_ok [OF assms]]) simp

section \<open>The property\<close>

text \<open>C21. The editor that the board runs is the abstract editor, whatever keys come: while keys are
  missing it waits; control-C gives \<open>- 1\<close> and an empty string; enter gives the length of the line, and
  the line, of at most 254 characters, with its terminator in the buffer, and nothing is stored outside
  the buffer. With keys that a terminal shows, the screen then has the prompt and the
  line with tabs expanded, and the cursor behind it, after any deleting of characters, tabs, words and lines.\<close>

theorem plain_readline_edits:
  assumes "length buf = CBSIZE" and "7 \<notin> set prompt" and "8 \<notin> set prompt"
  shows "case ed_keys keys [] of
      (Typing u, rest) \<Rightarrow> \<exists>buf' out. plain_readline prompt buf keys = Some (buf', None, out, rest) \<and>
        length buf' = CBSIZE \<and> ((\<forall>c \<in> set keys. typed_key c) \<longrightarrow> shows_line out (prompt @ tabbed (length prompt) u))
    | (Typed u, rest) \<Rightarrow> \<exists>buf' out. plain_readline prompt buf keys = Some (buf', Some (int (length u)), out @ [13, 10], rest) \<and>
        length buf' = CBSIZE \<and> length u \<le> 254 \<and> take (length u + 1) buf' = u @ [0] \<and>
        ((\<forall>c \<in> set keys. typed_key c) \<longrightarrow> shows_line out (prompt @ tabbed (length prompt) u))
    | (Stopped, rest) \<Rightarrow> \<exists>buf' out. plain_readline prompt buf keys = Some (buf', Some (- 1), out, rest) \<and>
        length buf' = CBSIZE \<and> buf' ! 0 = 0"
  by (rule plain_readline_spec [OF assms])

text \<open>The keys \<open>ab\<close>, tab, \<open>c\<close>, backspace twice, \<open>d e\<close>, control-W, enter.\<close>

lemma plain_readline_edits_witness:
  "\<exists>buf' out. plain_readline [62, 32] (replicate 256 0) [97, 98, 9, 99, 8, 8, 100, 32, 101, 23, 13, 120] =
      Some (buf', Some 3, out @ [13, 10], [120]) \<and> take 4 buf' = [97, 98, 100, 0] \<and>
    shows_line out [62, 32, 97, 98, 100]"
proof -
  let ?keys = "[97, 98, 9, 99, 8, 8, 100, 32, 101, 23, 13, 120]"
  have k: "ed_keys ?keys [] = (Typed [97, 98, 100], [120])" by code_simp
  have v: "\<forall>c \<in> set ?keys. typed_key c" by code_simp
  have "length (replicate 256 (0 :: byte)) = CBSIZE" "7 \<notin> set [62, 32 :: byte]" "8 \<notin> set [62, 32 :: byte]"
    by (simp_all add: CBSIZE_def)
  note e = plain_readline_edits [OF this, of ?keys, unfolded k, simplified prod.case ed_result.case]
  have "tabbed (length [62, 32 :: byte]) [97, 98, 100] = [97, 98, 100]" "int (length [97, 98, 100 :: byte]) = 3"
    "length [97, 98, 100 :: byte] + 1 = 4" by code_simp+
  note e = e [unfolded this]
  show ?thesis using e v by auto
qed

end
