(* ===== verification/EnvEdit.thy ===== *)
theory EnvEdit
  imports EnvProps CliCorrect ConsoleCorrect FormatCorrect
begin

text \<open>
  Editing a variable at the console: \<open>do_editenv\<close> of \<^verbatim>\<open>common/cmd_nvedit.c\<close>, which puts the
  environment, the formatter and the line editors together.
\<close>

text \<open>\<open>buffer\<close> is what the array on the stack holds at entry. The result of the editor is not looked at.\<close>

definition do_editenv ::
  "(nat \<Rightarrow> byte list \<Rightarrow> bool) \<Rightarrow> mem \<Rightarrow> mem \<Rightarrow> env_st \<Rightarrow> console \<Rightarrow> byte list list \<Rightarrow> byte list \<Rightarrow>
   (env_st \<times> int option \<times> console \<times> byte list) option" where
  "do_editenv console_ok esc buffer st con argv keys =
     (if length argv < 2 then Some (st, Some 1, con, keys)
      else do {
        name \<leftarrow> rd argv 1;
        init_val \<leftarrow> getenv st name;
        buffer \<leftarrow> (case init_val of
            None \<Rightarrow> wr buffer 0 0
          | Some k \<Rightarrow> do {
              e \<leftarrow> str_end (env_get_addr st) k;
              (text, _) \<leftarrow> sprintf [37, 115] [VStr (Some (take (e - k) (drop k (env_get_addr st))))];
              wrn buffer 0 (text @ [0])
            });
        (buffer, rc, con, keys) \<leftarrow> readline_into_buffer (reloc st) esc (txt_bytes ''edit: '') buffer con keys;
        (case rc of
           None \<Rightarrow> Some (st, None, con, keys)
         | Some _ \<Rightarrow> do {
             e \<leftarrow> str_end buffer 0;
             (st, rc) \<leftarrow> setenv console_ok st name (Some (take e buffer));
             Some (st, Some rc, con, keys)
           })
      })"

section \<open>What editing does\<close>

definition con_ok :: "console \<Rightarrow> bool" where
  "con_ok con \<longleftrightarrow> (if con_initted con then hist_ok (con_hist con)
     else length (hist_lines (con_hist con)) = HIST_MAX \<and> (\<forall>r \<in> set (hist_lines (con_hist con)). length r = HIST_SIZE))"

definition con_view :: "console \<Rightarrow> line_hist" where
  "con_view con = (if con_initted con then hist_view (con_hist con) else \<lparr>lh_lines = [], lh_pos = None\<rparr>)"

definition edit_start :: "byte list \<Rightarrow> line_ed" where
  "edit_start s = \<lparr>le_before = s, le_after = [], le_insert = True, le_esc = []\<rparr>"

lemma con_ok_new [simp]: "con_ok \<lparr>con_initted = True, con_hist = h\<rparr> = hist_ok h"
  by (simp add: con_ok_def)

text \<open>How the line ends, with either editor: the one without history starts from nothing.\<close>

definition edit_result :: "bool \<Rightarrow> console \<Rightarrow> byte list \<Rightarrow> byte list \<Rightarrow> ed_result \<times> byte list" where
  "edit_result flg con s keys =
     (if flg
      then (case le_keys keys (edit_start s) (con_view con) of
          (Edit e v, rest) \<Rightarrow> (Typing (le_before e @ le_after e), rest)
        | (Cancel v, rest) \<Rightarrow> (Stopped, rest)
        | (Line t v, rest) \<Rightarrow> (Typed t, rest))
      else ed_keys keys [])"

lemma readline_spec:
  assumes "con_ok con" and "length buf = HIST_SIZE" and "has_str buf 0 s" and "length esc = 8"
    and "7 \<notin> set prompt" and "8 \<notin> set prompt"
  shows "case edit_result flg con s keys of
      (Typing u, rest) \<Rightarrow> \<exists>buf' con'. readline_into_buffer flg esc prompt buf con keys = Some (buf', None, con', rest) \<and> con_ok con'
    | (Stopped, rest) \<Rightarrow> \<exists>buf' con'. readline_into_buffer flg esc prompt buf con keys = Some (buf', Some (- 1), con', rest) \<and>
        buf' ! 0 = 0 \<and> length buf' = HIST_SIZE \<and> con_ok con'
    | (Typed t, rest) \<Rightarrow>
        if length t < HIST_SIZE
        then \<exists>buf' con'. readline_into_buffer flg esc prompt buf con keys = Some (buf', Some (int (length t)), con', rest) \<and>
          take (length t + 1) buf' = t @ [0] \<and> length buf' = HIST_SIZE \<and> con_ok con'
        else readline_into_buffer flg esc prompt buf con keys = None"
proof (cases flg)
  case False
  have l: "length buf = CBSIZE" using assms(2) by (simp add: HIST_SIZE_def CBSIZE_def)
  have r: "readline_into_buffer flg esc prompt buf con keys =
      map_option (\<lambda>(buf, rc, out, keys). (buf, rc, con, keys)) (plain_readline prompt buf keys)"
    using False by (cases "plain_readline prompt buf keys") (auto simp: readline_into_buffer_def)
  obtain a rest where a: "ed_keys keys [] = (a, rest)" by (cases "ed_keys keys []")
  note spec = plain_readline_spec [OF l assms(5,6), of keys, unfolded a]
  show ?thesis unfolding edit_result_def if_not_P [OF False] a r
    using spec assms(1) by (cases a) (auto simp: HIST_SIZE_def CBSIZE_def)
next
  case flg: True
  let ?h = "if con_initted con then con_hist con else hist_init (con_hist con)"
  have h: "hist_ok ?h" "hist_view ?h = con_view con"
    using assms(1) hist_init_ok [of "con_hist con"] by (simp_all add: con_ok_def con_view_def)
  have r: "readline_into_buffer flg esc prompt buf con keys =
    map_option (\<lambda>(buf, len, h, rc, keys). (buf, map_option (\<lambda>rc. if rc < 0 then rc else int len) rc,
      \<lparr>con_initted = True, con_hist = h\<rparr>, keys)) (cread_line esc buf HIST_SIZE ?h keys)"
    by (cases "cread_line esc buf HIST_SIZE ?h keys")
      (auto simp: readline_into_buffer_def MAX_CMDBUF_SIZE_def HIST_SIZE_def Let_def flg)
  obtain a rest where a: "le_keys keys (edit_start s) (con_view con) = (a, rest)"
    by (cases "le_keys keys (edit_start s) (con_view con)")
  note spec = cread_line_spec [OF h(1) assms(2-4), of keys, folded edit_start_def, unfolded h(2) a]
  note e = edit_result_def [of flg con s keys, unfolded a if_P [OF flg] prod.case]
  show ?thesis
  proof (cases a)
    case (Edit l v)
    then show ?thesis using spec unfolding r e by (auto split: if_splits)
  next
    case (Cancel v)
    with spec obtain buf' h' where "cread_line esc buf HIST_SIZE ?h keys = Some (buf', HIST_SIZE, h', Some (- 1), rest)"
      "buf' ! 0 = 0" "length buf' = HIST_SIZE" "hist_ok h'" by auto
    then show ?thesis unfolding r e Cancel by simp
  next
    case (Line t v)
    then show ?thesis using spec unfolding r e by (auto split: if_splits)
  qed
qed

text \<open>What is done with the text that the user leaves: nothing is deleted, and neither is a text that is
  empty; other text is set when it fits.\<close>

definition edited :: "env_st \<Rightarrow> var list \<Rightarrow> byte list \<Rightarrow> byte list \<Rightarrow> env_st \<Rightarrow> int \<Rightarrow> bool" where
  "edited st kvs name v st' rc \<longleftrightarrow>
     (if v = [] then rc = 0 \<and> env_inv st' (others name kvs)
      else if used (others name kvs) + length name + length v + 3 \<le> length (env_data st)
      then rc = 0 \<and> env_inv st' (others name kvs @ [(name, v)])
      else rc = 1 \<and> env_inv st' (others name kvs))"

lemma setenv_edited:
  assumes "env_inv st kvs" and "plain name" and "0 \<notin> set v"
  shows "\<exists>st' rc. setenv console_ok st name (Some v) = Some (st', rc) \<and> edited st kvs name v st' rc"
proof (cases "v = []")
  case True
  let ?argv = "[Some (str ''setenv''), Some name, Some [], None]"
  from setenv_delete_step [OF assms(1,2), of ?argv console_ok 2] obtain st' where
    s: "do_setenv_raw console_ok st 2 ?argv = setenv_append st' name 2 ?argv" "env_inv st' (others name kvs)" by auto
  from crc_update [of st'] obtain c where c: "env_crc_update st' = Some (st'\<lparr>stored_crc := c\<rparr>)" by auto
  show ?thesis using s c True
    by (intro exI [of _ "st'\<lparr>stored_crc := c\<rparr>"]) (simp add: setenv_def setenv_append_def env_inv_def edited_def)
next
  case False
  then have v: "storable v" using assms(3) by (simp add: storable_def)
  show ?thesis using False by (cases rule: setenv_put_cases [OF assms(1,2) v, of console_ok]) (auto simp: edited_def)
qed

lemma has_str_first:
  assumes "take (length t + 1) buf = t @ [0]"
  shows "has_str buf 0 (takeWhile (\<lambda>c. c \<noteq> 0) t)"
proof -
  let ?v = "takeWhile (\<lambda>c. c \<noteq> 0) t"
  obtain rest where b: "buf = t @ 0 # rest" using assms by (metis append_take_drop_id append_Cons append_Nil append_assoc)
  obtain more where "buf = ?v @ 0 # more"
  proof (cases "0 \<in> set t")
    case True
    then obtain ys us where t: "t = ys @ 0 # us" "0 \<notin> set ys" by (meson split_list_first)
    then have "?v = ys" by (induction ys arbitrary: t) auto
    then show ?thesis using that [of "us @ 0 # rest"] b unfolding t(1) by simp
  next
    case False
    then have v: "?v = t" by (induction t) auto
    have "buf = ?v @ 0 # rest" unfolding v by (rule b)
    then show ?thesis by (rule that)
  qed
  moreover have "0 \<notin> set ?v" by (auto dest: set_takeWhileD)
  ultimately show ?thesis by (simp add: has_str_def)
qed

lemma str_end_is: "has_str buf 0 v \<Longrightarrow> str_end buf 0 = Some (length v) \<and> take (length v) buf = v"
  using str_end_has [of buf 0 v] by (simp add: has_str_def)

lemma str_end_first:
  "take (length t + 1) buf = t @ [0] \<Longrightarrow> \<exists>e. str_end buf 0 = Some e \<and> take e buf = takeWhile (\<lambda>c. c \<noteq> 0) t"
  using str_end_is [OF has_str_first] by blast

text \<open>Text \<open>%s\<close> is the string itself.\<close>

lemma sprintf_s: "length s < 2 ^ 32 \<Longrightarrow> sprintf [37, 115] [VStr (Some s)] = Some (s, length s)"
  by (simp add: sprintf_def vs_item [OF _ _ fmt_s] vs_end)

text \<open>The text that the editor starts with.\<close>

definition value_of :: "var list \<Rightarrow> byte list \<Rightarrow> byte list" where
  "value_of kvs name = (case map_of kvs name of None \<Rightarrow> [] | Some v \<Rightarrow> v)"

definition edit_buffer :: "mem \<Rightarrow> env_st \<Rightarrow> byte list \<Rightarrow> mem option" where
  "edit_buffer buffer st name = do {
     init_val \<leftarrow> getenv st name;
     (case init_val of
         None \<Rightarrow> wr buffer 0 0
       | Some k \<Rightarrow> do {
           e \<leftarrow> str_end (env_get_addr st) k;
           (text, _) \<leftarrow> sprintf [37, 115] [VStr (Some (take (e - k) (drop k (env_get_addr st))))];
           wrn buffer 0 (text @ [0])
         })
   }"

lemma edit_buffer_is:
  assumes inv: "env_inv st kvs" and name: "plain name" and size: "length (env_data st) < 2 ^ 32" and "0 < length buffer"
  shows "edit_buffer buffer st name =
    (if length (value_of kvs name) < length buffer
     then Some (value_of kvs name @ 0 # drop (length (value_of kvs name) + 1) buffer) else None)"
    and "0 \<notin> set (value_of kvs name)"
proof -
  have src: "env_src st = env_data st" "env_get_addr st = env_data st"
    using inv by (simp_all add: env_inv_def env_src_def env_addr_def env_get_addr_def)
  have rep: "env_rep (env_data st) kvs" and lim: "length (env_data st) \<le> config_env_size st"
    using inv by (simp_all add: env_inv_def config_env_size_def)
  note g = getenv_rep [OF rep plain_name_ok [OF name] lim]
  have "edit_buffer buffer st name =
      (if length (value_of kvs name) < length buffer
       then Some (value_of kvs name @ 0 # drop (length (value_of kvs name) + 1) buffer) else None) \<and>
    0 \<notin> set (value_of kvs name)"
  proof (cases "map_of kvs name")
    case None
    then show ?thesis using g assms(4)
      by (simp add: edit_buffer_def getenv_def src value_of_def wr_def) (cases buffer; simp)
  next
    case (Some v)
    then obtain k where k: "getenv_from (env_data st) (config_env_size st) name 0 = Some (Some k)" "has_str (env_data st) k v"
      using g by auto
    then have "take (length v) (drop k (env_data st)) = v" "length v < 2 ^ 32" "0 \<notin> set v"
      using size by (auto simp: has_str_def)
    then show ?thesis using Some k str_end_has [OF k(2)]
      by (simp add: edit_buffer_def getenv_def src value_of_def sprintf_s wrn_def)
  qed
  then show "edit_buffer buffer st name =
      (if length (value_of kvs name) < length buffer
       then Some (value_of kvs name @ 0 # drop (length (value_of kvs name) + 1) buffer) else None)"
    and "0 \<notin> set (value_of kvs name)" by simp_all
qed

lemma do_editenv_buffer:
  "do_editenv console_ok esc buffer st con [cmd, name] keys = do {
     buffer \<leftarrow> edit_buffer buffer st name;
     (buffer, rc, con, keys) \<leftarrow> readline_into_buffer (reloc st) esc (txt_bytes ''edit: '') buffer con keys;
     (case rc of
        None \<Rightarrow> Some (st, None, con, keys)
      | Some _ \<Rightarrow> do {
          e \<leftarrow> str_end buffer 0;
          (st, rc) \<leftarrow> setenv console_ok st name (Some (take e buffer));
          Some (st, Some rc, con, keys)
        })
   }"
  by (simp add: do_editenv_def edit_buffer_def rd_def Let_def bind_assoc cong: option.case_cong)

section \<open>The property\<close>

text \<open>C30. \<open>editenv\<close> of an ordinary variable, with either line editor: a value of 256 bytes or more is
  printed over the end of the buffer on the stack; while keys are missing nothing changes; the
  line entered becomes the value (an empty line deletes the variable; one that fills the buffer, which
  only the editor with the history lets in, is terminated behind it); and control-C, which should leave
  the variable alone, deletes it.\<close>

theorem editenv_edits:
  assumes "env_inv st kvs" and "plain name" and "length (env_data st) < 2 ^ 32"
    and "con_ok con" and "length buffer = 256" and "length esc = 8"
  shows "if 256 \<le> length (value_of kvs name) then do_editenv console_ok esc buffer st con [cmd, name] keys = None
    else case edit_result (reloc st) con (value_of kvs name) keys of
      (Typing u, rest) \<Rightarrow> \<exists>con'. con_ok con' \<and>
        do_editenv console_ok esc buffer st con [cmd, name] keys = Some (st, None, con', rest)
    | (Stopped, rest) \<Rightarrow> \<exists>st' con'. con_ok con' \<and> env_inv st' (others name kvs) \<and>
        do_editenv console_ok esc buffer st con [cmd, name] keys = Some (st', Some 0, con', rest)
    | (Typed t, rest) \<Rightarrow>
        if length t < 256
        then \<exists>st' rc con'. con_ok con' \<and> edited st kvs name (takeWhile (\<lambda>c. c \<noteq> 0) t) st' rc \<and>
          do_editenv console_ok esc buffer st con [cmd, name] keys = Some (st', Some rc, con', rest)
        else do_editenv console_ok esc buffer st con [cmd, name] keys = None"
proof (cases "256 \<le> length (value_of kvs name)")
  case True
  have "0 < length buffer" using assms(5) by simp
  from edit_buffer_is(1) [OF assms(1-3) this] True show ?thesis
    using assms(5) by (simp add: do_editenv_buffer)
next
  case False
  let ?s = "value_of kvs name" let ?b = "?s @ 0 # drop (length ?s + 1) buffer"
  let ?r = "readline_into_buffer (reloc st) esc (txt_bytes ''edit: '') ?b con keys"
  have "0 < length buffer" using assms(5) by simp
  from edit_buffer_is [OF assms(1-3) this] False assms(5)
  have b: "edit_buffer buffer st name = Some ?b" and s: "has_str ?b 0 ?s" by (simp_all add: has_str_def)
  have l: "length ?b = HIST_SIZE" using False assms(5) by (simp add: HIST_SIZE_def)
  have q: "7 \<notin> set (txt_bytes ''edit: '')" "8 \<notin> set (txt_bytes ''edit: '')" by (simp_all add: txt_bytes_def)
  obtain a rest where a: "edit_result (reloc st) con ?s keys = (a, rest)"
    by (cases "edit_result (reloc st) con ?s keys")
  note spec = readline_spec [OF assms(4) l s assms(6) q, of "reloc st" keys, unfolded a]
  note run = do_editenv_buffer [of console_ok esc buffer st con cmd name keys, unfolded b, simplified]
  note set = setenv_edited [OF assms(1,2), where console_ok = console_ok]
  show ?thesis
  proof (cases a)
    case (Typing u)
    then show ?thesis using spec False unfolding a run by auto
  next
    case Stopped
    with spec obtain buf' con' where r: "?r = Some (buf', Some (- 1), con', rest)"
      "buf' ! 0 = 0" "length buf' = HIST_SIZE" "con_ok con'" by auto
    then have "str_end buf' 0 = Some 0" by (simp add: str_end.simps HIST_SIZE_def)
    then show ?thesis using r set [of "[]"] False unfolding a run Stopped by (auto simp: edited_def)
  next
    case (Typed t)
    show ?thesis
    proof (cases "length t < 256")
      case True
      with spec Typed obtain buf' con' where r: "?r = Some (buf', Some (int (length t)), con', rest)"
        "take (length t + 1) buf' = t @ [0]" "con_ok con'" by (auto simp: HIST_SIZE_def)
      obtain e where e: "str_end buf' 0 = Some e" "take e buf' = takeWhile (\<lambda>c. c \<noteq> 0) t"
        using str_end_first [OF r(2)] by auto
      have "0 \<notin> set (takeWhile (\<lambda>c. c \<noteq> 0) t)" by (auto dest: set_takeWhileD)
      from set [OF this] obtain st' rc where "setenv console_ok st name (Some (takeWhile (\<lambda>c. c \<noteq> 0) t)) = Some (st', rc)"
        "edited st kvs name (takeWhile (\<lambda>c. c \<noteq> 0) t) st' rc" by auto
      then show ?thesis using r e True False unfolding a run Typed by auto
    next
      case nospace: False
      then show ?thesis using spec False unfolding a run Typed by (simp add: HIST_SIZE_def)
    qed
  qed
qed

text \<open>The variable \<open>a\<close> is \<open>1\<close>. The keys \<open>2\<close>, enter, with the history and without; control-C.\<close>

lemma editenv_edits_witness:
  "(\<exists>st' rc con'. con_ok con' \<and> edited (env1\<lparr>reloc := True\<rparr>) [([97], [49])] [97] [49, 50] st' rc \<and>
      do_editenv (\<lambda>_ _. True) (replicate 8 0) (replicate 256 0) (env1\<lparr>reloc := True\<rparr>)
        \<lparr>con_initted = False, con_hist = ex_hist\<rparr> [str ''editenv'', [97]] [50, 13, 98] = Some (st', Some rc, con', [98])) \<and>
   (\<exists>st' rc con'. con_ok con' \<and> edited env1 [([97], [49])] [97] [50] st' rc \<and>
      do_editenv (\<lambda>_ _. True) (replicate 8 0) (replicate 256 0) env1
        \<lparr>con_initted = False, con_hist = ex_hist\<rparr> [str ''editenv'', [97]] [50, 13, 98] = Some (st', Some rc, con', [98])) \<and>
   (\<exists>st' con'. con_ok con' \<and> env_inv st' [] \<and>
      do_editenv (\<lambda>_ _. True) (replicate 8 0) (replicate 256 0) env1
        \<lparr>con_initted = False, con_hist = ex_hist\<rparr> [str ''editenv'', [97]] [50, 3] = Some (st', Some 0, con', []))"
proof -
  let ?con = "\<lparr>con_initted = False, con_hist = ex_hist\<rparr>" and ?e = "env1\<lparr>reloc := True\<rparr>"
  have con: "con_ok ?con" by (simp add: con_ok_def ex_hist_def HIST_MAX_def HIST_SIZE_def)
  have size: "length (env_data env1) < 2 ^ 32" "length (env_data ?e) < 2 ^ 32" and rel: "\<not> reloc env1" "reloc ?e"
    by (simp_all add: env1_def)
  have inv: "env_inv ?e [([97], [49])]" using env1_inv by (simp add: env_inv_def)
  have v: "value_of [([97], [49])] [97] = [49]" and w: "con_view ?con = \<lparr>lh_lines = [], lh_pos = None\<rparr>"
    by (simp_all add: value_of_def con_view_def)
  have k: "le_keys [50, 13, 98] (edit_start [49]) \<lparr>lh_lines = [], lh_pos = None\<rparr> =
      (Line [49, 50] \<lparr>lh_lines = [], lh_pos = None\<rparr>, [98])"
    "ed_keys [50, 13, 98] [] = (Typed [50], [98])" "ed_keys [50, 3] [] = (Stopped, [])"
    by code_simp+
  have r: "edit_result True ?con [49] [50, 13, 98] = (Typed [49, 50], [98])"
    "edit_result False ?con [49] [50, 13, 98] = (Typed [50], [98])" "edit_result False ?con [49] [50, 3] = (Stopped, [])"
    by (simp_all add: edit_result_def w k del: le_keys.simps ed_keys.simps)
  have o: "others [97] [([97], [49 :: byte])] = []" by (simp add: others_def)
  have len: "length (replicate 256 (0 :: byte)) = 256" "length (replicate 8 (0 :: byte)) = 8" by simp_all
  note e = editenv_edits [OF env1_inv env1_plain(2) size(1) con len, where cmd = "str ''editenv''" and console_ok = "\<lambda>_ _. True"]
    and f = editenv_edits [OF inv env1_plain(2) size(2) con len, where cmd = "str ''editenv''" and console_ok = "\<lambda>_ _. True"]
  show ?thesis
    using e [of "[50, 13, 98]"] e [of "[50, 3]"] f [of "[50, 13, 98]"] by (simp add: v r rel o)
qed

end
