(* ===== verification/MainProps.thy ===== *)
theory MainProps
  imports MainLoop EnvEdit ShellProps
begin

text \<open>
  The console as its user sees it: lines, the line kept for repeating, and the commands run.
\<close>

section \<open>Autoboot\<close>

lemma look_for_key_iff: "look_for_key tstc k n \<longleftrightarrow> (\<exists>i<n. tstc (k + i))"
proof (induction n arbitrary: k)
  case (Suc n)
  have "(\<exists>i<Suc n. tstc (k + i)) \<longleftrightarrow> tstc k \<or> (\<exists>i<n. tstc (k + 1 + i))"
    by (simp add: Ex_less_Suc2)
  then show ?case using Suc by simp
qed simp

lemma abort_loop_iff: "abort_loop tstc k d \<longleftrightarrow> (\<exists>i < 100 * d. tstc (k + i))"
proof (induction d arbitrary: k)
  case (Suc d)
  have "(\<exists>i < 100 * Suc d. tstc (k + i)) \<longleftrightarrow> (\<exists>i<100. tstc (k + i)) \<or> (\<exists>i < 100 * d. tstc (k + 100 + i))"
  proof
    assume "\<exists>i < 100 * Suc d. tstc (k + i)"
    then obtain i where i: "i < 100 * Suc d" "tstc (k + i)" by blast
    then show "(\<exists>i<100. tstc (k + i)) \<or> (\<exists>i < 100 * d. tstc (k + 100 + i))"
      by (cases "i < 100") (auto intro: exI [of _ "i - 100"])
  next
    assume "(\<exists>i<100. tstc (k + i)) \<or> (\<exists>i < 100 * d. tstc (k + 100 + i))"
    then show "\<exists>i < 100 * Suc d. tstc (k + i)"
    proof
      assume "\<exists>i<100. tstc (k + i)"
      then obtain i where "i < 100" "tstc (k + i)" by blast
      then show ?thesis by (intro exI [of _ i]) simp
    next
      assume "\<exists>i < 100 * d. tstc (k + 100 + i)"
      then obtain i where "i < 100 * d" "tstc (k + (100 + i))" by (auto simp: add.assoc)
      then show ?thesis by (intro exI [of _ "100 + i"]) simp
    qed
  qed
  then show ?case using Suc.IH by (auto simp: look_for_key_iff)
qed simp

section \<open>One line\<close>

definition stack_ok :: "stack \<Rightarrow> bool" where
  "stack_ok stk = (case stk of (cmdbuf, finaltoken, argv) \<Rightarrow>
     length cmdbuf = CBSIZE \<and> length finaltoken = CBSIZE \<and> length argv = MAXARGS + 1)"

text \<open>What a line does. A line that begins with a quote makes the code read in front of its buffer.\<close>

definition line_meaning :: "('h, 'w) shell_env \<Rightarrow> byte list \<Rightarrow> 'w \<Rightarrow> int \<Rightarrow> ('w \<times> int) option" where
  "line_meaning env l w flag =
     (if l = [] then Some (sh_clear_ctrlc env w, - 1)
      else if CBSIZE \<le> length l then Some (sh_clear_ctrlc env w, - 1)
      else if hd l = 39 then None
      else abs_run env (commands l) \<lparr>r_world = sh_clear_ctrlc env w, r_flag = flag, r_repeatable = 1, r_rc = 0\<rparr>)"

lemma run_line_meaning:
  assumes "env_ok env" and "stack_ok stk" and "0 \<notin> set l"
  shows "run_line env stk l w flag = line_meaning env l w flag"
proof -
  obtain cmdbuf fin argv where s: "stk = (cmdbuf, fin, argv)" "length cmdbuf = CBSIZE" "length fin = CBSIZE"
    "length argv = MAXARGS + 1" using assms(2) by (auto simp: stack_ok_def)
  consider "l = [] \<or> CBSIZE \<le> length l" | "l \<noteq> []" "length l < CBSIZE" "hd l = 39"
    | "l \<noteq> []" "length l < CBSIZE" "hd l \<noteq> 39" by fastforce
  then show ?thesis
  proof cases
    case 1
    then show ?thesis by (auto simp: run_line_def s(1) run_command_def line_meaning_def Let_def)
  next
    case 2
    then obtain c where c: "wrn cmdbuf 0 (l @ [0]) = Some c" "rd c 0 = Some 39" "c ! 0 = 39"
      using s(2) by (cases l) (auto simp: wrn_def)
    have "next_token c 0 = None"
      using c(2,3) by (simp add: next_token_def find_sep.simps [of c 0 0])
    then show ?thesis using 2 c by (simp add: run_line_def s(1) run_command_def line_meaning_def run_tokens.simps Let_def)
  next
    case 3
    then show ?thesis using run_command_abs [OF assms(1) s(2-4) 3(1,2) assms(3) 3(3)]
      by (simp add: run_line_def s(1) line_meaning_def)
  qed
qed

section \<open>One turn\<close>

definition main_ok :: "'w main_st \<Rightarrow> byte list \<Rightarrow> bool" where
  "main_ok s l \<longleftrightarrow> length (ms_last s) = 256 \<and> length (ms_buf s) = 256 \<and> has_str (ms_last s) 0 l \<and> con_ok (ms_con s) \<and>
     (ms_rc s \<le> 0 \<longrightarrow> l = [])"

definition turn_ends :: "bool \<Rightarrow> mem \<Rightarrow> ('h, 'w) shell_env \<Rightarrow> stack \<Rightarrow> 'w main_st \<Rightarrow> byte list \<Rightarrow> 'w \<Rightarrow> int \<Rightarrow> byte list \<Rightarrow> bool" where
  "turn_ends flg esc env stk s l w rc rest \<longleftrightarrow>
     (\<exists>s'. main_turn flg esc env stk s = Some (Some s') \<and> main_ok s' l \<and> ms_world s' = w \<and> ms_rc s' = rc \<and> ms_keys s' = rest)"

lemma wr_first: "length m = 256 \<Longrightarrow> wr m 0 0 = Some (m[0 := 0]) \<and> has_str (m[0 := 0]) 0 []"
  by (cases m) (simp_all add: has_str_Nil)

lemma turn_endsI:
  assumes "main_turn flg esc env stk s = do {
      la \<leftarrow> (if rc \<le> 0 then wr la 0 0 else Some la);
      Some (Some \<lparr>ms_last = la, ms_buf = buf, ms_con = con, ms_rc = rc, ms_world = w, ms_keys = rest\<rparr>) }"
    and "length la = 256" and "length buf = 256" and "has_str la 0 l" and "con_ok con"
  shows "turn_ends flg esc env stk s (if rc \<le> 0 then [] else l) w rc rest"
  using assms wr_first [OF assms(2)] by (simp add: turn_ends_def main_ok_def)

lemma main_turn_spec:
  assumes "env_ok env" and "stack_ok stk" and "main_ok s l" and "length esc = 8"
  shows "case edit_result flg (ms_con s) [] (ms_keys s) of
      (Typing u, rest) \<Rightarrow> main_turn flg esc env stk s = Some None
    | (Stopped, rest) \<Rightarrow> turn_ends flg esc env stk s l (ms_world s) (ms_rc s) rest
    | (Typed t, rest) \<Rightarrow>
        if length t < 256
        then (let v = if t = [] then l else takeWhile (\<lambda>c. c \<noteq> 0) t in
          case line_meaning env v (ms_world s) (if t = [] then CMD_FLAG_REPEAT else 0) of
            None \<Rightarrow> main_turn flg esc env stk s = None
          | Some (w, rc) \<Rightarrow> turn_ends flg esc env stk s (if rc \<le> 0 then [] else v) w rc rest)
        else main_turn flg esc env stk s = None"
proof -
  let ?p = "txt_bytes ''iTOP-4412 # ''" and ?b = "(ms_buf s)[0 := 0]"
  have m: "length (ms_last s) = 256" "length (ms_buf s) = 256" "has_str (ms_last s) 0 l" "con_ok (ms_con s)"
    "ms_rc s \<le> 0 \<Longrightarrow> l = []" using assms(3) by (simp_all add: main_ok_def)
  have b: "length ?b = HIST_SIZE" "has_str ?b 0 []" "wr (ms_buf s) 0 0 = Some ?b"
    using m(2) wr_first by (simp_all add: HIST_SIZE_def)
  have q: "7 \<notin> set ?p" "8 \<notin> set ?p" by (simp_all add: txt_bytes_def)
  obtain a rest where a: "edit_result flg (ms_con s) [] (ms_keys s) = (a, rest)"
    by (cases "edit_result flg (ms_con s) [] (ms_keys s)")
  note spec = readline_spec [OF m(4) b(1,2) assms(4) q, of flg "ms_keys s", unfolded a]
  have r: "readline flg esc ?p (ms_buf s) (ms_con s) (ms_keys s) = readline_into_buffer flg esc ?p ?b (ms_con s) (ms_keys s)"
    by (simp add: readline_def b(3))
  show ?thesis
  proof (cases a)
    case (Typing u)
    then show ?thesis using spec unfolding a by (auto simp: main_turn_def r)
  next
    case Stopped
    with spec obtain buf' con' where i: "readline_into_buffer flg esc ?p ?b (ms_con s) (ms_keys s) = Some (buf', Some (- 1), con', rest)"
      "length buf' = 256" "con_ok con'" by (auto simp: HIST_SIZE_def)
    have "turn_ends flg esc env stk s (if ms_rc s \<le> 0 then [] else l) (ms_world s) (ms_rc s) rest"
      by (rule turn_endsI [OF _ m(1) i(2) m(3) i(3)]) (simp add: main_turn_def r i(1))
    then show ?thesis unfolding a Stopped using m(5) by (simp split: if_splits)
  next
    case (Typed t)
    show ?thesis
    proof (cases "length t < 256")
      case False
      then show ?thesis using spec unfolding a Typed by (simp add: main_turn_def r HIST_SIZE_def)
    next
      case True
      with spec Typed obtain buf' con' where i: "readline_into_buffer flg esc ?p ?b (ms_con s) (ms_keys s) =
          Some (buf', Some (int (length t)), con', rest)"
        "take (length t + 1) buf' = t @ [0]" "length buf' = 256" "con_ok con'" by (auto simp: HIST_SIZE_def)
      define v where "v = (if t = [] then l else takeWhile (\<lambda>c. c \<noteq> 0) t)"
      define la where "la = (if t = [] then ms_last s
        else take (length v + 1) buf' @ drop (length v + 1) (ms_last s))"
      have "has_str buf' 0 (takeWhile (\<lambda>c. c \<noteq> 0) t)" by (rule has_str_first [OF i(2)])
      then have hv: "t \<noteq> [] \<Longrightarrow> has_str buf' 0 v" by (simp add: v_def)
      have lv: "t \<noteq> [] \<Longrightarrow> length v < 256" using True length_takeWhile_le [of "\<lambda>c. c \<noteq> 0" t] by (simp add: v_def)
      have c: "(if 0 < int (length t) then copy_line (ms_last s) buf' else Some (ms_last s)) = Some la"
        using str_end_is [OF hv] lv m(1) i(3) by (auto simp: copy_line_def la_def)
      have hl: "has_str la 0 v" and ll: "length la = 256"
        using m(1,3) hv lv by (auto simp: la_def v_def has_str_def nth_append min_def)
      have z: "0 \<notin> set v" using hl by (simp add: has_str_def)
      let ?f = "if t = [] then CMD_FLAG_REPEAT else 0"
      have run: "run_line env stk (take (length v) la) (ms_world s) ?f = line_meaning env v (ms_world s) ?f"
        using run_line_meaning [OF assms(1,2) z] str_end_is [OF hl] by simp
      have turn: "main_turn flg esc env stk s = do {
          (w, rc) \<leftarrow> line_meaning env v (ms_world s) ?f;
          la \<leftarrow> (if rc \<le> 0 then wr la 0 0 else Some la);
          Some (Some \<lparr>ms_last = la, ms_buf = buf', ms_con = con', ms_rc = rc, ms_world = w, ms_keys = rest\<rparr>) }"
        unfolding main_turn_def r i(1) using c str_end_is [OF hl] run by (simp del: wr_eq_Some)
      show ?thesis
      proof (cases "line_meaning env v (ms_world s) ?f")
        case None
        then show ?thesis using True unfolding a Typed turn by (simp add: v_def)
      next
        case (Some p)
        obtain w rc where p: "p = (w, rc)" by (cases p)
        have "turn_ends flg esc env stk s (if rc \<le> 0 then [] else v) w rc rest"
          by (rule turn_endsI [OF _ ll i(3) hl i(4)]) (simp add: turn Some p)
        then show ?thesis using Some True unfolding a Typed v_def by (simp add: p)
      qed
    qed
  qed
qed

section \<open>A session\<close>

lemma ed_keys_less: "ed_keys keys t = (r, rest) \<Longrightarrow> (\<And>u. r \<noteq> Typing u) \<Longrightarrow> length rest < length keys"
  by (induction keys arbitrary: t) (force split: if_splits)+

lemma ed_key_ok: "0 \<notin> set t \<and> length t \<le> 254 \<Longrightarrow> 0 \<notin> set (ed_key c t) \<and> length (ed_key c t) \<le> 254"
proof -
  have "set (word_erase t) \<subseteq> set t" "length (word_erase t) \<le> length t"
    unfolding word_erase_def
    using set_drop_subset [of 1 "dropWhile (\<lambda>c. c \<noteq> 32) (rev t)"] set_dropWhileD [of _ "\<lambda>c. c \<noteq> 32" "rev t"]
      length_dropWhile_le [of "\<lambda>c. c \<noteq> 32" "rev t"] by (force, simp)
  then show "0 \<notin> set t \<and> length t \<le> 254 \<Longrightarrow> 0 \<notin> set (ed_key c t) \<and> length (ed_key c t) \<le> 254"
    by (auto simp: ed_key_def dest: in_set_butlastD)
qed

lemma ed_keys_ok: "ed_keys keys t = (Typed u, rest) \<Longrightarrow> 0 \<notin> set t \<and> length t \<le> 254 \<Longrightarrow> 0 \<notin> set u \<and> length u \<le> 254"
proof (induction keys arbitrary: t)
  case (Cons c keys)
  then show ?case using ed_key_ok [of t c] by (cases "c = 13 \<or> c = 10 \<or> c = 3") auto
qed simp

text \<open>The console on lines: \<open>l\<close> is the line that enter alone runs again. An interrupt changes nothing; a
  line whose result is not positive is not kept. At the end there is the text typed so far.\<close>

function session ::
  "('h, 'w) shell_env \<Rightarrow> byte list \<Rightarrow> 'w \<Rightarrow> byte list \<Rightarrow> ('w \<times> byte list \<times> byte list) option" where
  "session env l w keys =
     (case ed_keys keys [] of
        (Typing u, rest) \<Rightarrow> Some (w, l, u)
      | (Stopped, rest) \<Rightarrow> session env l w rest
      | (Typed t, rest) \<Rightarrow>
          (case line_meaning env (if t = [] then l else t) w (if t = [] then CMD_FLAG_REPEAT else 0) of
             None \<Rightarrow> None
           | Some (w, rc) \<Rightarrow> session env (if rc \<le> 0 then [] else if t = [] then l else t) w rest))"
  by pat_completeness auto
termination
  by (relation "measure (\<lambda>(env, l, w, keys). length keys)")
    (auto dest: ed_keys_less [OF sym] ed_keys_less)

declare session.simps [simp del]

lemma main_loop_session:
  assumes "env_ok env" and "\<forall>k. stack_ok (stk k)" and "main_ok s l" and "length esc = 8"
    and "length (ms_keys s) < n"
  shows "case session env l (ms_world s) (ms_keys s) of
      None \<Rightarrow> main_loop False esc env stk n s = None
    | Some (w, l', u) \<Rightarrow> \<exists>s'. main_loop False esc env stk n s = Some (s', True) \<and> main_ok s' l' \<and>
        ms_world s' = w \<and> fst (ed_keys (ms_keys s') []) = Typing u"
  using assms(3,5)
proof (induction n arbitrary: s l)
  case (Suc n)
  obtain a rest where a: "ed_keys (ms_keys s) [] = (a, rest)" by (cases "ed_keys (ms_keys s) []")
  note turn = main_turn_spec [OF assms(1) spec [OF assms(2), of n] Suc.prems(1) assms(4), of False,
      unfolded edit_result_def if_False a]
  note sess = session.simps [of env l "ms_world s" "ms_keys s", unfolded a]
  have ih: "case session env l1 w rest of
      None \<Rightarrow> main_loop False esc env stk (Suc n) s = None
    | Some (w, l', u) \<Rightarrow> \<exists>s'. main_loop False esc env stk (Suc n) s = Some (s', True) \<and> main_ok s' l' \<and>
        ms_world s' = w \<and> fst (ed_keys (ms_keys s') []) = Typing u"
    if te: "turn_ends False esc env (stk n) s l1 w rc rest" and ln: "length rest < n" for l1 w rc
  proof -
    obtain s1 where s1: "main_turn False esc env (stk n) s = Some (Some s1)" "main_ok s1 l1" "ms_world s1 = w" "ms_keys s1 = rest"
      using te unfolding turn_ends_def by blast
    have e: "main_loop False esc env stk (Suc n) s = main_loop False esc env stk n s1" using s1(1) by simp
    show ?thesis unfolding e using Suc.IH [OF s1(2)] s1(3,4) ln by simp
  qed
  show ?case
  proof (cases a)
    case (Typing u)
    then show ?thesis using turn Suc.prems(1) a by (auto simp: sess)
  next
    case Stopped
    then have "length rest < n" using ed_keys_less [OF a] Suc.prems(2) by simp
    then show ?thesis using turn ih [of l "ms_world s" "ms_rc s"] Stopped by (simp add: sess)
  next
    case (Typed t)
    have t: "0 \<notin> set t" "length t < 256" using ed_keys_ok [of "ms_keys s" "[]" t rest] a Typed by simp_all
    then have tw: "takeWhile (\<lambda>c. c \<noteq> 0) t = t" by (induction t) auto
    have r: "length rest < n" using ed_keys_less [OF a] Suc.prems(2) Typed by simp
    let ?l = "if t = [] then l else t" and ?f = "if t = [] then CMD_FLAG_REPEAT else 0"
    have sess: "session env l (ms_world s) (ms_keys s) = (case line_meaning env ?l (ms_world s) ?f of
        None \<Rightarrow> None | Some (w, rc) \<Rightarrow> session env (if rc \<le> 0 then [] else ?l) w rest)"
      unfolding sess Typed by (simp split: option.splits)
    have turn: "case line_meaning env ?l (ms_world s) ?f of
        None \<Rightarrow> main_turn False esc env (stk n) s = None
      | Some (w, rc) \<Rightarrow> turn_ends False esc env (stk n) s (if rc \<le> 0 then [] else ?l) w rc rest"
      using turn t(2) unfolding Typed by (simp only: prod.case ed_result.case tw Let_def if_True)
    show ?thesis
    proof (cases "line_meaning env ?l (ms_world s) ?f")
      case None
      then show ?thesis using turn unfolding sess by simp
    next
      case (Some p)
      then show ?thesis using turn ih [OF _ r, of "if snd p \<le> 0 then [] else ?l" "fst p" "snd p"] unfolding sess Some
        by (cases p) (simp only: option.case prod.case fst_conv snd_conv)
    qed
  qed
qed simp

lemma autoboot_is:
  assumes "env_ok env" and "stack_ok stk"
  shows "autoboot env tstc stk w keys = do {
    d \<leftarrow> (case sh_getenv env w (txt_bytes ''bootdelay'') of
        None \<Rightarrow> Some CONFIG_BOOTDELAY
      | Some s \<Rightarrow> map_option (\<lambda>(r, _). sint r) (simple_strtol (s @ [0]) 0 10));
    (case sh_getenv env w (txt_bytes ''bootcmd'') of
       None \<Rightarrow> Some (w, keys)
     | Some c \<Rightarrow>
         if d < 0 then Some (w, keys)
         else if \<exists>k. int k < 100 * d \<and> tstc k then Some (w, tl keys)
         else map_option (\<lambda>(w, rc). (w, keys)) (line_meaning env c w 0))
  }"
proof -
  have c: "sh_getenv env w (txt_bytes ''bootcmd'') = Some c \<Longrightarrow> run_line env stk c w 0 = line_meaning env c w 0" for c
    using assms run_line_meaning [OF assms] by (auto simp: env_ok_def clean_vars_def)
  have d: "0 \<le> d \<Longrightarrow> abortboot tstc d \<longleftrightarrow> (\<exists>k. int k < 100 * d \<and> tstc k)" for d
  proof -
    assume "0 \<le> d"
    then have "k < 100 * nat d \<longleftrightarrow> int k < 100 * d" for k by linarith
    then show ?thesis by (auto simp: abortboot_def abort_loop_iff)
  qed
  show ?thesis unfolding autoboot_def
    by (intro bind_option_cong refl) (auto simp: c d split: option.splits)
qed

section \<open>The properties\<close>

text \<open>C1. The console of the board, from a list of keys: with at least as many turns as there are keys, the
  loop runs exactly the commands of the lines typed, in order, and then waits with the rest of the keys as
  the text typed so far. Enter alone runs the line kept again, with the flag for repeating; control-C changes
  nothing; a line whose result is not positive (it failed, or may not be repeated) is not
  kept; and the loop stops only where a line does not return. What the arrays on the stack
  hold is of no effect.\<close>

theorem main_loop_runs_session:
  assumes "env_ok env" and "\<forall>k. stack_ok (stk k)" and "main_ok s l" and "length esc = 8"
    and "length (ms_keys s) < n"
  shows "case session env l (ms_world s) (ms_keys s) of
      None \<Rightarrow> main_loop False esc env stk n s = None
    | Some (w, l', u) \<Rightarrow> \<exists>s'. main_loop False esc env stk n s = Some (s', True) \<and> main_ok s' l' \<and>
        ms_world s' = w \<and> fst (ed_keys (ms_keys s') []) = Typing u"
  by (rule main_loop_session [OF assms])

text \<open>The line \<open>echo 1\<close>, enter twice more, then \<open>false\<close>, enter, and the beginning of a line.\<close>

definition toy_stack :: stack where
  "toy_stack = (replicate 256 1, replicate 256 2, replicate 17 None)"

definition toy_main :: "byte list list list main_st" where
  "toy_main = \<lparr>ms_last = replicate 256 0, ms_buf = replicate 256 7, ms_con = \<lparr>con_initted = False, con_hist = ex_hist\<rparr>,
     ms_rc = 1, ms_world = [], ms_keys = txt_bytes ''echo 1'' @ [13, 13, 13] @ txt_bytes ''false'' @ [13, 13] @ txt_bytes ''ec''\<rparr>"

lemma main_loop_runs_session_witness:
  "\<exists>s'. main_loop False (replicate 8 0) toy_env (\<lambda>_. toy_stack) 30 toy_main = Some (s', True) \<and> main_ok s' [] \<and>
     ms_world s' = replicate 3 [txt_bytes ''echo'', txt_bytes ''1''] @ [[txt_bytes ''false'']] \<and>
     fst (ed_keys (ms_keys s') []) = Typing (txt_bytes ''ec'')"
proof -
  have m: "main_ok toy_main []"
    by (simp add: main_ok_def toy_main_def has_str_def con_ok_def ex_hist_def HIST_MAX_def HIST_SIZE_def)
  have k: "\<forall>k :: nat. stack_ok toy_stack" by (simp add: stack_ok_def toy_stack_def CBSIZE_def MAXARGS_def)
  have s: "session toy_env [] (ms_world toy_main) (ms_keys toy_main) =
      Some (replicate 3 [txt_bytes ''echo'', txt_bytes ''1''] @ [[txt_bytes ''false'']], [], txt_bytes ''ec'')"
    by code_simp
  have l: "length (ms_keys toy_main) < 30" by (simp add: toy_main_def txt_bytes_def)
  have e: "length (replicate 8 (0 :: byte)) = 8" by simp
  show ?thesis using main_loop_runs_session [OF toy_env_ok k m e l] unfolding s by simp
qed

text \<open>Autoboot: the variable \<open>bootcmd\<close> is run, and the prompt comes after it, unless it is not set, the
  delay (the variable \<open>bootdelay\<close> as a signed number, or two seconds) is negative, or a key is there
  at one of the first hundred looks of each second of the delay; that key is taken from the input. A delay of
  0 is not looked at.\<close>

theorem autoboot_unless_key:
  assumes "env_ok env" and "stack_ok stk"
  shows "autoboot env tstc stk w keys = do {
    d \<leftarrow> (case sh_getenv env w (txt_bytes ''bootdelay'') of
        None \<Rightarrow> Some CONFIG_BOOTDELAY
      | Some s \<Rightarrow> map_option (\<lambda>(r, _). sint r) (simple_strtol (s @ [0]) 0 10));
    (case sh_getenv env w (txt_bytes ''bootcmd'') of
       None \<Rightarrow> Some (w, keys)
     | Some c \<Rightarrow>
         if d < 0 then Some (w, keys)
         else if \<exists>k. int k < 100 * d \<and> tstc k then Some (w, tl keys)
         else map_option (\<lambda>(w, rc). (w, keys)) (line_meaning env c w 0))
  }"
  by (rule autoboot_is [OF assms])

definition boot_env :: "(nat, byte list list list) shell_env" where
  "boot_env = toy_env\<lparr>sh_getenv := (\<lambda>w name. if name = txt_bytes ''bootdelay'' then Some (txt_bytes ''3'')
     else if name = txt_bytes ''bootcmd'' then Some (txt_bytes ''echo a;echo b'') else None)\<rparr>"

lemma autoboot_unless_key_witness:
  "autoboot boot_env (\<lambda>k. k = 300) toy_stack [] [120, 121] =
     Some ([[txt_bytes ''echo'', txt_bytes ''a''], [txt_bytes ''echo'', txt_bytes ''b'']], [120, 121]) \<and>
   autoboot boot_env (\<lambda>k. k = 299) toy_stack [] [120, 121] = Some ([], [121])"
proof -
  have env: "env_ok boot_env"
    using toy_env_ok by (auto simp: env_ok_def boot_env_def clean_vars_def txt_bytes_def)
  have k: "stack_ok toy_stack" by (simp add: stack_ok_def toy_stack_def CBSIZE_def MAXARGS_def)
  have v: "sh_getenv boot_env w (txt_bytes ''bootdelay'') = Some (txt_bytes ''3'')"
    "sh_getenv boot_env w (txt_bytes ''bootcmd'') = Some (txt_bytes ''echo a;echo b'')" for w
    by (simp_all add: boot_env_def txt_bytes_def)
  have n: "simple_strtol (txt_bytes ''3'' @ [0]) 0 10 = Some (3, 1)" by code_simp
  have l: "line_meaning boot_env (txt_bytes ''echo a;echo b'') [] 0 =
    Some ([[txt_bytes ''echo'', txt_bytes ''a''], [txt_bytes ''echo'', txt_bytes ''b'']], 1)" by code_simp
  have "(\<exists>k. int k < 300 \<and> k = 299) \<longleftrightarrow> True" "(\<exists>k. int k < 300 \<and> k = 300) \<longleftrightarrow> False" by auto
  then show ?thesis
    using autoboot_unless_key [OF env k, of "\<lambda>k. k = 300" "[]" "[120, 121]"]
      autoboot_unless_key [OF env k, of "\<lambda>k. k = 299" "[]" "[120, 121]"]
    by (simp add: v n l)
qed

end
