(* ===== verification/EnvAuto.thy ===== *)
theory EnvAuto
  imports Env Movi Mmc
begin

text \<open>
  Keeping the environment over a restart: \<^verbatim>\<open>common/env_auto.c\<close>, \<open>env_relocate\<close> of
  \<^verbatim>\<open>common/env_common.c\<close>, \<open>do_saveenv\<close> and the functions of
  \<^verbatim>\<open>cpu/arm_cortexa9/s5pc210/movi.c\<close> that store on the card, for the board's configuration
  (\<^verbatim>\<open>CONFIG_CMD_MOVINAND\<close> and \<^verbatim>\<open>CONFIG_S5P_MSHC\<close>, no NAND and no OneNAND commands,
  the environment not embedded). \<open>inf_reg3\<close> is the register that tells what the board was started from.
\<close>

definition virt_to_phys :: "u32 \<Rightarrow> u32" where
  "virt_to_phys addr = (if 0xC0000000 \<le> addr \<and> addr < 0xD0000000 then addr - 0xC0000000 + 0x40000000 else addr)"

section \<open>Storing on the card\<close>

definition movi_write_env :: "'c driver \<Rightarrow> raw_area \<Rightarrow> u32 \<Rightarrow> 'c machine \<Rightarrow> 'c machine option" where
  "movi_write_env drv ra addr w = do {
     e \<leftarrow> rd (ra_image ra) 2;
     Some (fst (movi_write drv (start_blk e) (used_blk e) addr w))
   }"

definition movi_read_env :: "'c driver \<Rightarrow> raw_area \<Rightarrow> u32 \<Rightarrow> 'c machine \<Rightarrow> 'c machine option" where
  "movi_read_env drv ra addr w = do {
     e \<leftarrow> rd (ra_image ra) 2;
     Some (fst (movi_read drv (start_blk e) (used_blk e) addr w))
   }"

text \<open>The first-stage loader carries a sum of its bytes; memory gets it for the time of the write only.\<close>

fun add_bytes :: "(u32 \<Rightarrow> byte) \<Rightarrow> u32 \<Rightarrow> nat \<Rightarrow> u32 \<Rightarrow> u32 \<times> u32" where
  "add_bytes r addr 0 checksum = (checksum, addr)"
| "add_bytes r addr (Suc n) checksum = add_bytes r (addr + 1) n (checksum + ucast (r addr))"

definition ram_word :: "(u32 \<Rightarrow> byte) \<Rightarrow> u32 \<Rightarrow> u32" where
  "ram_word r a = get_le32 [r a, r (a + 1), r (a + 2), r (a + 3)]"

definition put_ram_word :: "(u32 \<Rightarrow> byte) \<Rightarrow> u32 \<Rightarrow> u32 \<Rightarrow> u32 \<Rightarrow> byte" where
  "put_ram_word r a x = r(a := put_le32 x ! 0, a + 1 := put_le32 x ! 1, a + 2 := put_le32 x ! 2, a + 3 := put_le32 x ! 3)"

definition movi_write_bl1 :: "'c driver \<Rightarrow> raw_area \<Rightarrow> u32 \<Rightarrow> 'c machine \<Rightarrow> 'c machine option" where
  "movi_write_bl1 drv ra src w = do {
     let (checksum, addr) = add_bytes (mach_ram w) src (14 * 1024 - 4) 0;
     let tmp = ram_word (mach_ram w) addr;
     let w = w\<lparr>mach_ram := put_ram_word (mach_ram w) addr checksum\<rparr>;
     e \<leftarrow> rd (ra_image ra) 1;
     let w = fst (movi_write drv (start_blk e) (used_blk e) src w);
     Some (w\<lparr>mach_ram := put_ram_word (mach_ram w) addr tmp\<rparr>)
   }"

definition movi_calc_checksum_bl1 :: "u32 \<Rightarrow> 'c machine \<Rightarrow> 'c machine" where
  "movi_calc_checksum_bl1 addr w =
     (case add_bytes (mach_ram w) addr (14 * 1024 - 4) 0 of
        (checksum, addr) \<Rightarrow> w\<lparr>mach_ram := put_ram_word (mach_ram w) addr checksum\<rparr>)"

section \<open>The command\<close>

text \<open>Without a card the start-up function is given a null pointer.\<close>

definition saveenv_movinand :: "'c driver \<Rightarrow> raw_area \<Rightarrow> u32 \<Rightarrow> 'c machine \<Rightarrow> ('c machine \<times> int) option" where
  "saveenv_movinand drv ra env_ptr w = do {
     mmc \<leftarrow> find_mmc_device (mach_devs w) 0;
     let w = fst (drv_mmc_init drv mmc w);
     w \<leftarrow> movi_write_env drv ra (virt_to_phys env_ptr) w;
     Some (w, 1)
   }"

definition saveenv_onenand :: int where "saveenv_onenand = 1"

definition saveenv :: "u32 \<Rightarrow> 'c driver \<Rightarrow> raw_area \<Rightarrow> u32 \<Rightarrow> 'c machine \<Rightarrow> ('c machine \<times> int) option" where
  "saveenv inf_reg3 drv ra env_ptr w =
     (if inf_reg3 = 1 then (let r = saveenv_onenand in Some (w, 0))
      else if inf_reg3 = 3 then map_option (\<lambda>(w, _). (w, 0)) (saveenv_movinand drv ra env_ptr w)
      else Some (w, 0))"

definition do_saveenv :: "u32 \<Rightarrow> 'c driver \<Rightarrow> raw_area \<Rightarrow> u32 \<Rightarrow> 'c machine \<Rightarrow> ('c machine \<times> int) option" where
  "do_saveenv inf_reg3 drv ra env_ptr w =
     map_option (\<lambda>(w, r). (w, if r \<noteq> 0 then 1 else 0)) (saveenv inf_reg3 drv ra env_ptr w)"

section \<open>Starting\<close>

definition env_init :: "env_st \<Rightarrow> env_st \<times> int" where
  "env_init st = (st\<lparr>env_moved := False, env_valid := True\<rparr>, 0)"

definition use_default :: "env_st \<Rightarrow> env_st option" where
  "use_default st =
     (if length (env_data st) + 4 < length (default_environment st) then Some st
      else do {
        data \<leftarrow> wrn (replicate (length (env_data st)) 0) 0 (default_environment st);
        st \<leftarrow> env_crc_update (st\<lparr>env_data := data\<rparr>);
        Some (st\<lparr>env_valid := True\<rparr>)
      })"

definition env_relocate_spec_nand :: "env_st \<Rightarrow> env_st option" where
  "env_relocate_spec_nand st = use_default st"

text \<open>The environment is not read from the card.\<close>

definition env_relocate_spec_movinand :: "env_st \<Rightarrow> env_st option" where
  "env_relocate_spec_movinand st = do {
     c \<leftarrow> crc32 (env_data st) 0 0 (length (env_data st));
     if c \<noteq> stored_crc st then use_default st else Some st
   }"

definition env_relocate_spec_onenand :: "env_st \<Rightarrow> env_st option" where
  "env_relocate_spec_onenand st = Some st"

definition env_relocate_spec :: "u32 \<Rightarrow> env_st \<Rightarrow> env_st option" where
  "env_relocate_spec inf_reg3 st =
     (if inf_reg3 = 1 then env_relocate_spec_onenand st
      else if inf_reg3 = 2 then env_relocate_spec_nand st
      else if inf_reg3 = 3 then env_relocate_spec_movinand st
      else use_default st)"

text \<open>\<open>fresh\<close> is what the new buffer holds, in the place of the checksum and behind it; none without memory,
  where the code goes on with a null pointer.\<close>

definition env_relocate :: "u32 \<Rightarrow> (u32 \<times> mem) option \<Rightarrow> env_st \<Rightarrow> env_st option" where
  "env_relocate inf_reg3 fresh st = do {
     (c, d) \<leftarrow> fresh;
     let st = st\<lparr>stored_crc := c, env_data := d\<rparr>;
     st \<leftarrow> (if \<not> env_valid st then set_default_env st else env_relocate_spec inf_reg3 st);
     Some (st\<lparr>env_moved := True\<rparr>)
   }"

end
