(* ===== verification/EnvAutoProps.thy ===== *)
theory EnvAutoProps
  imports EnvAuto EnvProps MmcProps
begin

text \<open>
  What \<^verbatim>\<open>saveenv\<close> stores, and where; and what the environment is after a start.
\<close>

section \<open>Starting\<close>

definition env_crc :: "mem \<Rightarrow> u32" where
  "env_crc d = crc_ref 0xffffffff d XOR 0xffffffff"

lemma crc32_env: "crc32 d 0 0 (length d) = Some (env_crc d)"
  by (simp add: crc32_ref env_crc_def)

text \<open>After the built-in environment was copied into the buffer.\<close>

lemma use_default_rep:
  assumes "env_rep (default_environment st) kvs" and "distinct (map fst kvs)"
    and "length (default_environment st) \<le> length (env_data st)"
  shows "\<exists>st'. use_default st = Some st' \<and> env_inv (st'\<lparr>env_moved := True\<rparr>) kvs \<and> crc_ok st' \<and>
    length (env_data st') = length (env_data st) \<and> reloc st' = reloc st"
proof -
  let ?d = "default_environment st @ replicate (length (env_data st) - length (default_environment st)) 0"
  from crc_update [of "st\<lparr>env_data := ?d\<rparr>"] obtain c where
    c: "env_crc_update (st\<lparr>env_data := ?d\<rparr>) = Some (st\<lparr>env_data := ?d, stored_crc := c\<rparr>)"
    "crc_ok (st\<lparr>env_data := ?d, stored_crc := c\<rparr>)" by auto
  have "wrn (replicate (length (env_data st)) 0) 0 (default_environment st) = Some ?d"
    using assms(3) by (simp add: drop_replicate)
  then have "use_default st = Some (st\<lparr>env_data := ?d, stored_crc := c, env_valid := True\<rparr>)"
    using c(1) assms(3) by (simp add: use_default_def)
  moreover have "env_rep ?d kvs" using assms(1) by (force simp: env_rep_def)
  ultimately show ?thesis using c(2) assms(2,3) by (auto simp: env_inv_def crc_ok_def)
qed

lemma use_default_overflow:
  "length (env_data st) < length (default_environment st) \<Longrightarrow>
   length (default_environment st) \<le> length (env_data st) + 4 \<Longrightarrow> use_default st = None"
  by (simp add: use_default_def wrn_def)

lemma boot_crc:
  "env_relocate 3 (Some (c, d)) (fst (env_init st)) =
     (if env_crc d = c then Some (st\<lparr>env_valid := True, stored_crc := c, env_data := d, env_moved := True\<rparr>)
      else map_option (\<lambda>st. st\<lparr>env_moved := True\<rparr>)
        (use_default (st\<lparr>env_valid := True, env_moved := False, stored_crc := c, env_data := d\<rparr>)))"
proof -
  have s: "st\<lparr>env_moved := False, env_valid := True, stored_crc := c, env_data := d\<rparr> =
      st\<lparr>env_valid := True, env_moved := False, stored_crc := c, env_data := d\<rparr>" by simp
  show ?thesis
    by (simp add: env_relocate_def env_init_def env_relocate_spec_def env_relocate_spec_movinand_def crc32_env s
        map_conv_bind_option o_def)
qed

section \<open>Saving\<close>

definition saved_area :: "cards machine \<Rightarrow> u32 \<Rightarrow> u32 \<Rightarrow> u32 \<Rightarrow> cards machine" where
  "saved_area w s a n = w\<lparr>mach_cards := (mach_cards w)(0 := put_blocks (mach_cards w 0) s (mach_ram w) a (unat n))\<rparr>"

lemma movi_write_area:
  assumes "obeys drv h" and "present w h" and "d_dev h = 0" and "0 < n" and "unat s + unat n \<le> unat (d_capacity h)"
    and "512 * unat n < 2 ^ 32"
  shows "fst (movi_write drv s n a w) = saved_area w s a n"
  using obeys_write [OF assms(1,2,4-6), of a] assms(3) by (simp add: movi_write_def saved_area_def)

lemma do_saveenv_is:
  assumes "laid_out s ra" and "obeys drv h" and "present w h" and "d_dev h = 0"
    and "unat s + 1038 \<le> unat (d_capacity h)" and "fst (drv_mmc_init drv h w) = w"
  shows "do_saveenv 3 drv ra env_ptr w = Some (saved_area w s (virt_to_phys env_ptr) 1038, 0)"
proof -
  have "length (ra_image ra) = 15" "map start_blk (take 7 (ra_image ra)) ! 2 = s" "map used_blk (take 5 (ra_image ra)) ! 2 = 1038"
    using assms(1) by (simp_all add: laid_out_def)
  then have e: "rd (ra_image ra) 2 = Some (ra_image ra ! 2)" "start_blk (ra_image ra ! 2) = s" "used_blk (ra_image ra ! 2) = 1038"
    by simp_all
  have "find_mmc_device (mach_devs w) 0 = Some h" using assms(3,4) by (simp add: present_def)
  then show ?thesis
    using e assms(6) movi_write_area [OF assms(2,3,4), of 1038 s "virt_to_phys env_ptr"] assms(5)
    by (simp add: do_saveenv_def saveenv_def saveenv_movinand_def movi_write_env_def Let_def)
qed

lemma ram_block_take:
  assumes "512 * Suc j \<le> n"
  shows "ram_block r a j = take 512 (drop (512 * j) (ram_bytes r a n))"
proof (rule nth_equalityI)
  show "length (ram_block r a j) = length (take 512 (drop (512 * j) (ram_bytes r a n)))"
    using assms by (simp add: ram_block_def ram_bytes_def)
next
  fix i assume "i < length (ram_block r a j)"
  then have i: "i < 512" by (simp add: ram_block_def ram_bytes_def)
  then show "ram_block r a j ! i = take 512 (drop (512 * j) (ram_bytes r a n)) ! i"
    using assms by (simp add: ram_block_nth ram_bytes_def del: of_nat_mult)
qed

text \<open>What an area holds after it was stored: its blocks are the memory, and nothing else changed.\<close>

lemma saved_area_blocks:
  assumes "j < unat n"
  shows "mach_cards (saved_area w s a n) 0 (s + of_nat j) = ram_block (mach_ram w) a j"
proof -
  have "j < 2 ^ 32" using assms unat_less [of n] by simp
  then show ?thesis using assms by (simp add: saved_area_def put_blocks_def unat_of_small)
qed

lemma saved_area_else:
  "mach_cards (saved_area w s a n) d b \<noteq> mach_cards w d b \<Longrightarrow> d = 0 \<and> unat (b - s) < unat n"
  by (auto simp: saved_area_def put_blocks_def split: if_splits)

section \<open>The first-stage loader\<close>

lemma add_bytes_is:
  "add_bytes r a n c = (c + sum_list (map ucast (ram_bytes r a n)), a + of_nat n)"
proof (induction n arbitrary: a c)
  case 0
  then show ?case by (simp add: ram_bytes_def)
next
  case (Suc n)
  have "ram_bytes r a (Suc n) = r a # ram_bytes r (a + 1) n"
    by (simp add: ram_bytes_def map_upt_Suc add.assoc del: upt_Suc)
  then show ?case using Suc by (simp add: add.assoc)
qed

lemma put_get_le32: "put_le32 (get_le32 [a, b, c, d]) = [a, b, c, d]"
proof -
  have "ucast (drop_bit k (get_le32 [a, b, c, d])) = x"
    if "(k, x) \<in> {(0, a), (8, b), (16, c), (24, d)}" for k and x :: byte
  proof (rule bit_word_eqI)
    fix n assume "n < LENGTH(8)"
    then have "n < 8" by simp
    then show "bit (ucast (drop_bit k (get_le32 [a, b, c, d])) :: byte) n = bit x n"
      using that by (auto simp: get_le32_def bit_simps no_high_bit)
  qed
  from this [of 0 a] this [of 8 b] this [of 16 c] this [of 24 d] show ?thesis by (simp add: put_le32_def)
qed

lemma put_ram_word_back: "put_ram_word (put_ram_word r a x) a (ram_word r a) = r"
  by (auto simp: put_ram_word_def ram_word_def put_get_le32 fun_eq_iff)

lemma of_nat_add_neq: "i \<noteq> j \<Longrightarrow> i < 2 ^ 32 \<Longrightarrow> j < 2 ^ 32 \<Longrightarrow> (a :: u32) + of_nat i \<noteq> a + of_nat j"
  using unat_of_small [of i] unat_of_small [of j] by (metis add_left_cancel)

lemma put_ram_word_at:
  assumes "k + 4 \<le> n" and "n < 2 ^ 32" and "i < n"
  shows "put_ram_word r (a + of_nat k) x (a + of_nat i) =
    (if k \<le> i \<and> i < k + 4 then put_le32 x ! (i - k) else r (a + of_nat i))"
proof -
  have w: "a + of_nat k + 1 = a + of_nat (k + 1)" "a + of_nat k + 2 = a + of_nat (k + 2)" "a + of_nat k + 3 = a + of_nat (k + 3)"
    by (simp_all add: add.assoc)
  have e: "a + of_nat i = a + of_nat (k + j) \<longleftrightarrow> i = k + j" if "j < 4" for j
    using of_nat_add_neq [of i "k + j" a] assms that by fastforce
  consider "i < k \<or> k + 4 \<le> i" | "i = k" | "i = k + 1" | "i = k + 2" | "i = k + 3" by linarith
  then show ?thesis
    unfolding put_ram_word_def w fun_upd_apply using e [of 0] e [of 1] e [of 2] e [of 3]
    by cases (simp_all del: of_nat_add)
qed

lemma ram_bytes_put:
  assumes "k + 4 \<le> n" and "n < 2 ^ 32"
  shows "ram_bytes (put_ram_word r (a + of_nat k) x) a n =
    take k (ram_bytes r a n) @ put_le32 x @ drop (k + 4) (ram_bytes r a n)"
proof (rule nth_equalityI)
  show "length (ram_bytes (put_ram_word r (a + of_nat k) x) a n) =
      length (take k (ram_bytes r a n) @ put_le32 x @ drop (k + 4) (ram_bytes r a n))"
    using assms(1) by (simp add: ram_bytes_def)
next
  fix i assume "i < length (ram_bytes (put_ram_word r (a + of_nat k) x) a n)"
  then have i: "i < n" by (simp add: ram_bytes_def)
  show "ram_bytes (put_ram_word r (a + of_nat k) x) a n ! i =
      (take k (ram_bytes r a n) @ put_le32 x @ drop (k + 4) (ram_bytes r a n)) ! i"
    using put_ram_word_at [OF assms i, of r a x] i assms(1) by (auto simp: ram_bytes_def nth_append)
qed

lemma movi_write_bl1_is:
  assumes "laid_out s ra" and "obeys drv h" and "present w h" and "d_dev h = 0"
    and "unat (s + 16) + 32 \<le> unat (d_capacity h)"
  shows "movi_write_bl1 drv ra src w = Some ((saved_area (w\<lparr>mach_ram := put_ram_word (mach_ram w) (src + 14332)
      (sum_list (map ucast (ram_bytes (mach_ram w) src 14332)))\<rparr>) (s + 16) src 32)\<lparr>mach_ram := mach_ram w\<rparr>)"
proof -
  have "length (ra_image ra) = 15" "map start_blk (take 7 (ra_image ra)) ! 1 = s + 16" "map used_blk (take 5 (ra_image ra)) ! 1 = 32"
    using assms(1) by (simp_all add: laid_out_def)
  then have e: "rd (ra_image ra) 1 = Some (ra_image ra ! 1)" "start_blk (ra_image ra ! 1) = s + 16" "used_blk (ra_image ra ! 1) = 32"
    by simp_all
  let ?w = "w\<lparr>mach_ram := put_ram_word (mach_ram w) (src + 14332) (sum_list (map ucast (ram_bytes (mach_ram w) src 14332)))\<rparr>"
  have "present ?w h" using assms(3) by (simp add: present_def)
  from movi_write_area [OF assms(2) this assms(4), of 32 "s + 16" src] assms(5)
  have "fst (movi_write drv (s + 16) 32 src ?w) = saved_area ?w (s + 16) src 32" by simp
  then show ?thesis
    using e by (simp add: movi_write_bl1_def add_bytes_is Let_def saved_area_def put_ram_word_back)
qed

section \<open>The properties\<close>

text \<open>C10. \<^verbatim>\<open>saveenv\<close> on a board started from a card reports success and destroys the boot
  loader: the environment, which has an area of its own in the table (blocks 1088 to 1119), is written
  from the first block of the boot loader on, 1038 blocks of which only the first 32 are the
  environment and the rest is what follows it in memory; the area of the environment is not touched.\<close>

theorem saveenv_overwrites_loader:
  assumes "laid_out s ra" and "unat s \<le> 1" and "obeys drv h" and "present w h" and "d_dev h = 0"
    and "unat s + 1038 \<le> unat (d_capacity h)" and "fst (drv_mmc_init drv h w) = w"
    and "ram_bytes (mach_ram w) (virt_to_phys env_ptr) 0x4000 = env"
  shows "\<exists>w'. do_saveenv 3 drv ra env_ptr w = Some (w', 0) \<and>
    (\<forall>j<32. mach_cards w' 0 (s + of_nat j) = take 512 (drop (512 * j) env)) \<and>
    (\<forall>j. 32 \<le> j \<and> j < 1038 \<longrightarrow>
      mach_cards w' 0 (s + of_nat j) = ram_block (mach_ram w) (virt_to_phys env_ptr) j) \<and>
    (\<forall>d b. mach_cards w' d b \<noteq> mach_cards w d b \<longrightarrow> d = 0 \<and> unat (b - s) < 1038) \<and>
    (\<forall>b. 1088 \<le> unat b \<and> unat b < 1120 \<longrightarrow> mach_cards w' 0 b = mach_cards w 0 b)"
proof -
  let ?w = "saved_area w s (virt_to_phys env_ptr) 1038"
  have blocks: "mach_cards ?w 0 (s + of_nat j) = ram_block (mach_ram w) (virt_to_phys env_ptr) j" if "j < 1038" for j
    using that by (intro saved_area_blocks) simp
  have env: "ram_block (mach_ram w) (virt_to_phys env_ptr) j = take 512 (drop (512 * j) env)" if "j < 32" for j
    using ram_block_take [of j "0x4000" "mach_ram w" "virt_to_phys env_ptr"] that assms(8) by simp
  have out: "mach_cards ?w d b \<noteq> mach_cards w d b \<Longrightarrow> d = 0 \<and> unat (b - s) < 1038" for d b
    using saved_area_else [of w s "virt_to_phys env_ptr" 1038 d b] by simp
  have "mach_cards ?w 0 b = mach_cards w 0 b" if "1088 \<le> unat b" for b
  proof (rule ccontr)
    assume "mach_cards ?w 0 b \<noteq> mach_cards w 0 b"
    then have "unat (b - s) < 1038" using out by blast
    then show False using that assms(2) by (simp add: unat_minus split: if_splits)
  qed
  then show ?thesis
    using do_saveenv_is [OF assms(1,3-7)] blocks env out by (intro exI [of _ ?w]) auto
qed

definition dev0 :: mmc_dev where
  "dev0 = ideal_dev\<lparr>d_dev := 0\<rparr>"

definition full_machine :: "cards machine" where
  "full_machine = blank_machine\<lparr>mach_devs := [dev0], mach_cards := (\<lambda>d b. replicate 512 7)\<rparr>"

lemma dev0_ok: "obeys ideal_driver dev0" "present full_machine dev0" "d_dev dev0 = 0" "unat (d_capacity dev0) = 15269888"
  by (simp_all add: obeys_def ideal_driver_def rw_cmd_def rw_data_def ideal_transfer_def ideal_dev_def dev0_def
      present_def full_machine_def blank_machine_def find_mmc_device_def)

lemma ex_table_laid_out: "laid_out 0 ex_table"
  by (simp add: laid_out_def ex_table_def ex_area_def eval_nat_numeral)

text \<open>The first block of the boot loader, its last one, and the area of the environment.\<close>

lemma saveenv_overwrites_loader_witness:
  "\<exists>w'. do_saveenv 3 ideal_driver ex_table 0xC3E00000 full_machine = Some (w', 0) \<and>
     mach_cards w' 0 0 = ram_bytes (\<lambda>x. ucast x) 0x43E00000 512 \<and>
     mach_cards w' 0 1037 = ram_block (\<lambda>x. ucast x) 0x43E00000 1037 \<and>
     mach_cards w' 0 1088 = replicate 512 7"
proof -
  let ?env = "ram_bytes (\<lambda>x. ucast x) 0x43E00000 0x4000"
  have v: "virt_to_phys 0xC3E00000 = 0x43E00000" by (simp add: virt_to_phys_def)
  have m: "fst (drv_mmc_init ideal_driver dev0 full_machine) = full_machine" by (simp add: ideal_driver_def)
  have r: "mach_ram full_machine = (\<lambda>x. ucast x)" by (simp add: full_machine_def blank_machine_def)
  have e: "ram_bytes (mach_ram full_machine) (virt_to_phys 0xC3E00000) 0x4000 = ?env" by (simp only: v r)
  have c: "unat (0 :: u32) + 1038 \<le> unat (d_capacity dev0)" using dev0_ok(4) by simp
  have z: "unat (0 :: u32) \<le> 1" by simp
  obtain w' where w': "do_saveenv 3 ideal_driver ex_table 0xC3E00000 full_machine = Some (w', 0)"
    "\<forall>j<32. mach_cards w' 0 (0 + of_nat j) = take 512 (drop (512 * j) ?env)"
    "\<forall>j. 32 \<le> j \<and> j < 1038 \<longrightarrow>
      mach_cards w' 0 (0 + of_nat j) = ram_block (mach_ram full_machine) (virt_to_phys 0xC3E00000) j"
    "\<forall>b. 1088 \<le> unat b \<and> unat b < 1120 \<longrightarrow> mach_cards w' 0 b = mach_cards full_machine 0 b"
    using saveenv_overwrites_loader [OF ex_table_laid_out z dev0_ok(1-3) c m e] by (elim exE conjE) (rule that)
  have "mach_cards w' 0 0 = ram_bytes (\<lambda>x. ucast x) 0x43E00000 512"
    using w'(2) [rule_format, of 0] ram_block_take [of 0 "0x4000" "\<lambda>x. ucast x" "0x43E00000"] by (simp add: ram_block_def)
  moreover have "mach_cards w' 0 1037 = ram_block (\<lambda>x. ucast x) 0x43E00000 1037"
    using w'(3) [rule_format, of 1037] by (simp add: v r)
  moreover have "mach_cards w' 0 1088 = replicate 512 7"
    using w'(4) [rule_format, of 1088] by (simp add: full_machine_def)
  ultimately show ?thesis using w'(1) by blast
qed

text \<open>C31. Starting from a card: nothing is read from it, so the environment is what the new buffer happens to
  hold when its checksum fits, and the built-in one otherwise, with its checksum, when that fits
  the buffer. A built-in environment that is up to four bytes too long is copied over the end of the
  buffer; a longer one leaves the buffer as it is and valid.\<close>

theorem env_relocate_cases:
  assumes "env_rep (default_environment st) kvs" and "distinct (map fst kvs)" and "name_ok name"
  shows "if env_crc d = c
    then env_relocate 3 (Some (c, d)) (fst (env_init st)) =
      Some (st\<lparr>env_valid := True, stored_crc := c, env_data := d, env_moved := True\<rparr>)
    else if length (default_environment st) \<le> length d
    then \<exists>st'. env_relocate 3 (Some (c, d)) (fst (env_init st)) = Some st' \<and> env_inv st' kvs \<and> crc_ok st' \<and>
      length (env_data st') = length d \<and> getenv_str st' name = Some (map_of kvs name)
    else if length (default_environment st) \<le> length d + 4
    then env_relocate 3 (Some (c, d)) (fst (env_init st)) = None
    else env_relocate 3 (Some (c, d)) (fst (env_init st)) =
      Some (st\<lparr>env_valid := True, stored_crc := c, env_data := d, env_moved := True\<rparr>)"
proof -
  let ?st = "st\<lparr>env_valid := True, env_moved := False, stored_crc := c, env_data := d\<rparr>"
  show ?thesis
  proof (cases "env_crc d = c \<or> length d < length (default_environment st)")
    case True
    then show ?thesis using use_default_overflow [of ?st] by (auto simp: boot_crc) (simp add: use_default_def)
  next
    case False
    then obtain st' where st': "use_default ?st = Some st'" "env_inv (st'\<lparr>env_moved := True\<rparr>) kvs" "crc_ok st'"
      "length (env_data st') = length d" using use_default_rep [of ?st kvs] assms(1,2) by auto
    then show ?thesis using getenv_map [OF st'(2) assms(3)] False by (simp add: boot_crc crc_ok_def)
  qed
qed

lemma env_relocate_cases_witness:
  "\<exists>st'. env_relocate 3 (Some (env_crc (replicate 12 1) + 1, replicate 12 1)) (fst (env_init env1)) = Some st' \<and> env_inv st' [([98], [50])] \<and>
     crc_ok st' \<and> length (env_data st') = 12 \<and> getenv_str st' [98] = Some (Some [50])"
proof -
  have r: "env_rep (default_environment env1) [([98], [50])]"
    by (simp add: env1_def env_rep_def flat_def entry_def var_ok_def)
  have c: "env_crc (replicate 12 1) \<noteq> env_crc (replicate 12 1) + 1" by simp
  have "distinct (map fst [([98 :: byte], [50 :: byte])])" "name_ok [98]" by (simp_all add: name_ok_def)
  from env_relocate_cases [OF r this, of "replicate 12 1" "env_crc (replicate 12 1) + 1"] c show ?thesis by (simp add: env1_def)
qed

text \<open>\<open>movi_write_bl1\<close> stores sixteen kilobytes with the sum of the first 14332 bytes behind them, and
  leaves memory as it found it.\<close>

theorem movi_write_bl1_stores:
  assumes "laid_out s ra" and "obeys drv h" and "present w h" and "d_dev h = 0"
    and "unat (s + 16) + 32 \<le> unat (d_capacity h)" and "ram_bytes (mach_ram w) src 0x4000 = m"
    and "stamped = take 14332 m @ put_le32 (sum_list (map ucast (take 14332 m))) @ drop 14336 m"
  shows "\<exists>w'. movi_write_bl1 drv ra src w = Some w' \<and> mach_ram w' = mach_ram w \<and>
    (\<forall>j<32. mach_cards w' 0 (s + 16 + of_nat j) = take 512 (drop (512 * j) stamped)) \<and>
    (\<forall>d b. mach_cards w' d b \<noteq> mach_cards w d b \<longrightarrow> d = 0 \<and> unat (b - (s + 16)) < 32)"
proof -
  let ?sum = "sum_list (map ucast (ram_bytes (mach_ram w) src 14332))"
  let ?r = "put_ram_word (mach_ram w) (src + 14332) ?sum"
  let ?w1 = "w\<lparr>mach_ram := ?r\<rparr>"
  let ?w = "(saved_area ?w1 (s + 16) src 32)\<lparr>mach_ram := mach_ram w\<rparr>"
  have t: "ram_bytes (mach_ram w) src 14332 = take 14332 m"
    using assms(6) by (auto simp: ram_bytes_def take_map)
  have i: "ram_bytes ?r src 0x4000 = stamped"
    using ram_bytes_put [of 14332 "0x4000" "mach_ram w" src ?sum] unfolding assms(7) t assms(6) by simp
  have "mach_cards ?w 0 (s + 16 + of_nat j) = take 512 (drop (512 * j) stamped)" if "j < 32" for j
    using saved_area_blocks [of j 32 ?w1 "s + 16" src] ram_block_take [of j "0x4000" ?r src] that i by simp
  moreover have "mach_cards ?w d b \<noteq> mach_cards w d b \<Longrightarrow> d = 0 \<and> unat (b - (s + 16)) < 32" for d b
    using saved_area_else [of ?w1 "s + 16" src 32 d b] by simp
  ultimately show ?thesis using movi_write_bl1_is [OF assms(1-5), of src] by (intro exI [of _ ?w]) auto
qed

end
