(* ===== verification/Fastboot.thy ===== *)
theory Fastboot
  imports Movi Mmc Ext4 Fdisk
begin

text \<open>
  The state of the fastboot protocol and its partition table, \<^verbatim>\<open>common/cmd_fastboot.c\<close>,
  \<^verbatim>\<open>include/fastboot.h\<close> and \<^verbatim>\<open>cpu/arm_cortexa9/s5pc210/fastboot.c\<close>, for the configuration with
  \<^verbatim>\<open>CFG_FASTBOOT_SDMMCBSP\<close> and \<^verbatim>\<open>CONFIG_RECOVERY\<close>: the answers on their way to the host, the
  search of a partition, the table of a card, the default table and the one of the variable
  \<^verbatim>\<open>fbparts\<close>. A name is the string in its array.
\<close>

definition FASTBOOT_PTENTRY_FLAGS_WRITE_HW_ECC :: u32 where "FASTBOOT_PTENTRY_FLAGS_WRITE_HW_ECC = 0x40"
definition FASTBOOT_PTENTRY_FLAGS_WRITE_SW_ECC :: u32 where "FASTBOOT_PTENTRY_FLAGS_WRITE_SW_ECC = 0x80"
definition FASTBOOT_PTENTRY_FLAGS_WRITE_I :: u32 where "FASTBOOT_PTENTRY_FLAGS_WRITE_I = 0x100"
definition FASTBOOT_PTENTRY_FLAGS_WRITE_YAFFS :: u32 where "FASTBOOT_PTENTRY_FLAGS_WRITE_YAFFS = 0x200"
definition FASTBOOT_PTENTRY_FLAGS_WRITE_ENV :: u32 where "FASTBOOT_PTENTRY_FLAGS_WRITE_ENV = 0x400"
definition FASTBOOT_PTENTRY_FLAGS_USE_MMC_CMD :: u32 where "FASTBOOT_PTENTRY_FLAGS_USE_MMC_CMD = 0x10000"
definition FASTBOOT_PTENTRY_FLAGS_USE_MOVI_CMD :: u32 where "FASTBOOT_PTENTRY_FLAGS_USE_MOVI_CMD = 0x20000"
definition CFG_FASTBOOT_SDMMC_BLOCKSIZE :: u32 where "CFG_FASTBOOT_SDMMC_BLOCKSIZE = 512"
definition MAX_PTN :: nat where "MAX_PTN = 16"
definition BOOT_ONENAND :: u32 where "BOOT_ONENAND = 1"
definition BOOT_NAND :: u32 where "BOOT_NAND = 0x40000"
definition BOOT_EMMC43 :: u32 where "BOOT_EMMC43 = 6"

record ptentry =
  pt_name :: "byte list"
  pt_start :: u32
  pt_length :: u32
  pt_flags :: u32

record fb_interface =
  product_name :: "byte list option"
  serial_no :: "byte list option"
  nand_block_size :: u32
  transfer_buffer :: u32
  transfer_buffer_size :: u32

text \<open>The variables of the two files, the raw area of the card, and the board. \<open>reply_msg\<close> is the text the
  pointer of that name was last set to, \<open>sent\<close> are the texts written to the endpoint of the host: the
  text is that of the array when it was handed over, and \<open>Stale\<close> says that the array, a local variable, was there no
  more when it was written.\<close>

datatype reply = Intact "byte list" | Stale "byte list"

record 'c fastboot =
  fb_if :: fb_interface
  download_size :: u32
  download_bytes :: u32
  download_error :: u32
  ptable :: "ptentry list"
  pcount :: nat
  static_pcount :: int
  fb_dev :: u32
  fb_fuse :: u32
  bulk_fifo :: mem
  reply_msg :: "byte list option"
  tx_size :: nat
  response_flag :: bool
  sent :: "reply list"
  fb_raw :: raw_area
  fb_mach :: "'c machine"

text \<open>How the board was started, and the functions that are called: the driver of the cards, their first
  blocks, \<open>run_command\<close>, \<open>do_bootm\<close> (nothing when the kernel runs), \<open>do_setenv\<close> and
  \<open>getenv\<close>. \<open>fb_spill k s\<close> is what a pointer to \<open>s\<close> does that is stored at the index \<open>k\<close> behind the array
  \<open>device_strings\<close> of two pointers, which the link of the program decides; \<open>fb_residue\<close> are the bytes behind a packet
  in the last word of the packet buffer of the controller; \<open>fb_junk\<close> is what follows a string that is not terminated, \<open>fb_status\<close> a local variable
  that is not set.\<close>

record 'c fb_env =
  fb_om :: u32
  fb_mmc0 :: "byte list option"
  fb_drv :: "'c driver"
  fb_ops :: "'c machine mmc_ops"
  fb_run :: "byte list \<Rightarrow> 'c machine \<Rightarrow> ('c machine \<times> int) option"
  fb_bootm :: "byte list list \<Rightarrow> 'c machine \<Rightarrow> 'c machine option"
  fb_setenv :: "byte list \<Rightarrow> byte list \<Rightarrow> 'c machine \<Rightarrow> 'c machine"
  fb_getenv :: "byte list \<Rightarrow> byte list option"
  fb_spill :: "nat \<Rightarrow> byte list \<Rightarrow> 'c fastboot \<Rightarrow> 'c fastboot option"
  fb_residue :: "byte list \<Rightarrow> nat \<Rightarrow> byte"
  fb_junk :: "byte list"
  fb_status :: int

definition has_flag :: "ptentry \<Rightarrow> u32 \<Rightarrow> bool" where
  "has_flag p f \<longleftrightarrow> pt_flags p AND f \<noteq> 0"

section \<open>Comparing and reading strings\<close>

text \<open>Whether the characters \<open>l\<close> stand at \<open>p\<close>, read up to the first difference: \<open>memcmp\<close> or
  \<open>strncmp\<close> with a literal of that length gives zero, and, with the terminator in \<open>l\<close>,
  \<open>strcmp\<close> does.\<close>

primrec lit_at :: "byte list \<Rightarrow> mem \<Rightarrow> nat \<Rightarrow> bool option" where
  "lit_at [] m p = Some True"
| "lit_at (c # cs) m p = do { x \<leftarrow> rd m p; if x = c then lit_at cs m (p + 1) else Some False }"

definition str_at :: "mem \<Rightarrow> nat \<Rightarrow> byte list option" where
  "str_at m p = do { e \<leftarrow> str_end m p; Some (take (e - p) (drop p m)) }"

section \<open>Answers\<close>

text \<open>The interrupt of the endpoint to the host sends the answer that waits; \<open>live\<close>: its array is still there.\<close>

definition fboot_usb_int_bulkin :: "bool \<Rightarrow> 'c fastboot \<Rightarrow> 'c fastboot" where
  "fboot_usb_int_bulkin live st =
     (case reply_msg st of
        None \<Rightarrow> st
      | Some reply \<Rightarrow> if response_flag st then st\<lparr>sent := sent st @ [(if live then Intact else Stale) reply], response_flag := False\<rparr> else st)"

text \<open>The synchronous form polls until the interrupt has happened, so that the array of its caller is still there; the
  host sends nothing meanwhile.\<close>

definition fastboot_tx_status :: "byte list \<Rightarrow> bool \<Rightarrow> 'c fastboot \<Rightarrow> 'c fastboot" where
  "fastboot_tx_status buffer need_sync st =
     (let st = st\<lparr>tx_size := min 64 (length buffer), reply_msg := Some buffer, response_flag := True\<rparr>
      in if need_sync then fboot_usb_int_bulkin True st else st)"

definition reset_handler :: "'c fastboot \<Rightarrow> 'c fastboot" where
  "reset_handler st = st\<lparr>download_size := 0, download_bytes := 0, download_error := 0\<rparr>"

section \<open>The partition table\<close>

definition fastboot_flash_add_ptn :: "ptentry \<Rightarrow> 'c fastboot \<Rightarrow> 'c fastboot option" where
  "fastboot_flash_add_ptn p st =
     (if pcount st < MAX_PTN
      then do { t \<leftarrow> wr (ptable st) (pcount st) p; Some (st\<lparr>ptable := t, pcount := pcount st + 1\<rparr>) }
      else Some st)"

primrec find_ptn :: "ptentry list \<Rightarrow> byte list \<Rightarrow> ptentry option option" where
  "find_ptn [] name = Some None"
| "find_ptn (p # ps) name =
     (if length name = length (pt_name p)
      then do {
        r \<leftarrow> str_cmp (pt_name p) name;
        if r = 0 then Some (Some p) else find_ptn ps name
      }
      else find_ptn ps name)"

definition fastboot_flash_find_ptn :: "'c fastboot \<Rightarrow> byte list \<Rightarrow> ptentry option option" where
  "fastboot_flash_find_ptn st name = find_ptn (take (pcount st) (ptable st)) name"

definition fastboot_flash_get_ptn :: "'c fastboot \<Rightarrow> nat \<Rightarrow> ptentry option" where
  "fastboot_flash_get_ptn st n = (if n < pcount st then rd (ptable st) n else None)"

definition fastboot_flash_get_ptn_count :: "'c fastboot \<Rightarrow> nat" where
  "fastboot_flash_get_ptn_count st = pcount st"

section \<open>Partitions of the variable \<open>fbparts\<close>\<close>

text \<open>Whether the loop stops at the entry \<open>c\<close>.\<close>

definition static_hit :: "ptentry \<Rightarrow> ptentry \<Rightarrow> bool option" where
  "static_hit p c =
     (if pt_length p = 0 then Some True
      else if pt_start c \<le> pt_start p \<and> pt_start p < pt_start c + pt_length c then Some True
      else if pt_start c < pt_start p + pt_length p \<and> pt_start p + pt_length p \<le> pt_start c + pt_length c then Some True
      else do {
        r \<leftarrow> str_cmp (pt_name p) (pt_name c);
        if r \<noteq> 0 then Some False
        else map_option (\<lambda>r. r = 0) (str_cmp (pt_name c) (pt_name p))
      })"

primrec static_free :: "nat list \<Rightarrow> 'c fastboot \<Rightarrow> ptentry \<Rightarrow> bool option" where
  "static_free [] st p = Some True"
| "static_free (i # is) st p = do {
     c \<leftarrow> fastboot_flash_get_ptn st i;
     hit \<leftarrow> static_hit p c;
     if hit then Some False else static_free is st p
   }"

text \<open>True: the partition may be added.\<close>

definition check_against_static_partition :: "'c fastboot \<Rightarrow> ptentry \<Rightarrow> bool option" where
  "check_against_static_partition st p = static_free [0..<nat (static_pcount st)] st p"

definition memparse :: "mem \<Rightarrow> nat \<Rightarrow> (u32 \<times> nat) option" where
  "memparse m ptr = do {
     (ret, endptr) \<leftarrow> simple_strtoul m ptr 0;
     c \<leftarrow> rd m endptr;
     Some (if c = 77 \<or> c = 109 then (push_bit 20 ret, endptr + 1)
           else if c = 75 \<or> c = 107 then (push_bit 10 ret, endptr + 1)
           else (ret, endptr))
   }"

text \<open>One option, if there is one: its flag and its length.\<close>

definition part_option :: "mem \<Rightarrow> nat \<Rightarrow> (u32 \<times> nat) option option" where
  "part_option m s = do {
     i \<leftarrow> lit_at (txt_bytes ''i'') m s;
     if i then Some (Some (FASTBOOT_PTENTRY_FLAGS_WRITE_I, 1))
     else do {
       y \<leftarrow> lit_at (txt_bytes ''yaffs'') m s;
       if y then Some (Some (FASTBOOT_PTENTRY_FLAGS_WRITE_YAFFS, 5))
       else do {
         w \<leftarrow> lit_at (txt_bytes ''swecc'') m s;
         if w then Some (Some (FASTBOOT_PTENTRY_FLAGS_WRITE_SW_ECC, 5))
         else do {
           h \<leftarrow> lit_at (txt_bytes ''hwecc'') m s;
           Some (if h then Some (FASTBOOT_PTENTRY_FLAGS_WRITE_HW_ECC, 5) else None)
         }
       }
     }
   }"

text \<open>The options from \<open>s\<close> on, each with a bar behind it or not. A successful option has read its characters,
  so the pointer stays in the object.\<close>

lemma lit_at_len: "lit_at l m p = Some True \<Longrightarrow> l \<noteq> [] \<Longrightarrow> p + length l \<le> length m"
proof (induction l arbitrary: p)
  case (Cons c cs)
  then have "p < length m" "lit_at cs m (p + 1) = Some True" by (auto simp: bind_eq_Some_conv split: if_splits)
  then show ?case using Cons.IH [of "p + 1"] by (cases cs) auto
qed simp

lemma part_option_len: "part_option m s = Some (Some (f, n)) \<Longrightarrow> 0 < n \<and> s + n \<le> length m"
  by (auto simp: part_option_def txt_bytes_def bind_eq_Some_conv split: if_splits dest!: lit_at_len)

function part_options :: "mem \<Rightarrow> nat \<Rightarrow> u32 \<Rightarrow> (u32 \<times> nat) option" where
  "part_options m s flags =
     (case part_option m s of
        None \<Rightarrow> None
      | Some None \<Rightarrow> Some (flags, s)
      | Some (Some (f, n)) \<Rightarrow>
          (case lit_at (txt_bytes ''|'') m (s + n) of
             None \<Rightarrow> None
           | Some bar \<Rightarrow> part_options m (s + n + (if bar then 1 else 0)) (flags OR f)))"
  by pat_completeness auto
termination
proof (relation "measure (\<lambda>(m, s, flags). length m - s)")
  fix m s flags o1 r f n bar
  assume "part_option m s = Some o1" "o1 = Some r" "(f, n) = r"
  then show "((m, s + n + (if bar then 1 else 0), flags OR f), m, s, flags) \<in> measure (\<lambda>(m, s, flags). length m - s)"
    using part_option_len [of m s f n] by auto
qed simp

declare part_options.simps [simp del]
text \<open>A partition: size, offset, name and options. Nothing means that the description is refused; a name of
  sixteen characters or more is refused, too.\<close>

definition parse_partition :: "mem \<Rightarrow> nat \<Rightarrow> (ptentry \<times> nat) option option" where
  "parse_partition m s = do {
     (size, s) \<leftarrow> memparse m s;
     if size = 0 then Some None
     else do {
       c \<leftarrow> rd m s;
       if c \<noteq> 64 then Some None
       else do {
         (offset, s) \<leftarrow> memparse m (s + 1);
         c \<leftarrow> rd m s;
         if c \<noteq> 40 then Some None
         else do {
           p \<leftarrow> c_strchr m (s + 1) 41;
           (case p of
              None \<Rightarrow> Some None
            | Some p \<Rightarrow> do {
                (flags, e) \<leftarrow> part_options m (p + 1) 0;
                let name = take (p - (s + 1)) (drop (s + 1) m);
                Some (if 16 \<le> length name then None
                  else Some (\<lparr>pt_name = name, pt_start = offset, pt_length = size, pt_flags = flags\<rparr>, e))
              })
         }
       }
     }
   }"

definition add_partition_from_environment :: "mem \<Rightarrow> nat \<Rightarrow> 'c fastboot \<Rightarrow> ('c fastboot \<times> nat option) option" where
  "add_partition_from_environment m s st = do {
     r \<leftarrow> parse_partition m s;
     (case r of
        None \<Rightarrow> Some (st, None)
      | Some (p, e) \<Rightarrow> do {
          free \<leftarrow> check_against_static_partition st p;
          st \<leftarrow> (if free then fastboot_flash_add_ptn p st else Some st);
          Some (st, Some e)
        })
   }"

definition fb_delim :: "byte \<Rightarrow> bool" where
  "fb_delim c \<longleftrightarrow> c = 32 \<or> c = 9 \<or> c = 10 \<or> c = 13 \<or> c = 44"

text \<open>The delimiters from \<open>s\<close> up to \<open>e\<close>.\<close>

function skip_delims :: "mem \<Rightarrow> nat \<Rightarrow> nat \<Rightarrow> nat option" where
  "skip_delims m s e =
     (if s < e
      then (case rd m s of None \<Rightarrow> None | Some c \<Rightarrow> if fb_delim c then skip_delims m (s + 1) e else Some s)
      else Some s)"
  by pat_completeness auto
termination by (relation "measure (\<lambda>(m, s, e). e - s)") auto

declare skip_delims.simps [simp del]

text \<open>The loop over the descriptions; the number of rounds is at most the number of characters.\<close>

primrec add_partitions :: "nat \<Rightarrow> mem \<Rightarrow> nat \<Rightarrow> nat \<Rightarrow> 'c fastboot \<Rightarrow> 'c fastboot option" where
  "add_partitions 0 m s e st = (if s < e then None else Some st)"
| "add_partitions (Suc n) m s e st =
     (if s < e
      then do {
        (st, s') \<leftarrow> add_partition_from_environment m s st;
        (case s' of
           None \<Rightarrow> Some (st\<lparr>pcount := nat (static_pcount st)\<rparr>)
         | Some s' \<Rightarrow> do { s' \<leftarrow> skip_delims m s' e; add_partitions n m s' e st })
      }
      else Some st)"

text \<open>The table that is built in.\<close>

definition ptable_default :: "ptentry list" where
  "ptable_default =
     [\<lparr>pt_name = txt_bytes ''bootloader'', pt_start = 0, pt_length = 0x100000, pt_flags = 0\<rparr>,
      \<lparr>pt_name = txt_bytes ''recovery'', pt_start = 0x100000, pt_length = 0x500000, pt_flags = 0\<rparr>,
      \<lparr>pt_name = txt_bytes ''kernel'', pt_start = 0x600000, pt_length = 0x500000, pt_flags = 0\<rparr>,
      \<lparr>pt_name = txt_bytes ''ramdisk'', pt_start = 0xB00000, pt_length = 0x300000, pt_flags = 0\<rparr>,
      \<lparr>pt_name = txt_bytes ''system'', pt_start = 0xE00000, pt_length = 0x5A00000,
        pt_flags = FASTBOOT_PTENTRY_FLAGS_WRITE_YAFFS\<rparr>,
      \<lparr>pt_name = txt_bytes ''cache'', pt_start = 0x6800000, pt_length = 0x5000000,
        pt_flags = FASTBOOT_PTENTRY_FLAGS_WRITE_YAFFS\<rparr>,
      \<lparr>pt_name = txt_bytes ''userdata'', pt_start = 0xB800000, pt_length = 0,
        pt_flags = FASTBOOT_PTENTRY_FLAGS_WRITE_YAFFS\<rparr>]"

text \<open>The buffer \<open>fbparts\<close> holds the value and its terminator; what lies behind them is not read.\<close>

definition set_partition_table :: "'c fb_env \<Rightarrow> 'c fastboot \<Rightarrow> 'c fastboot option" where
  "set_partition_table env st =
     (let st = (if 0 \<le> static_pcount st then st\<lparr>pcount := nat (static_pcount st)\<rparr>
                else st\<lparr>static_pcount := int (pcount st)\<rparr>)
      in (case fb_getenv env (txt_bytes ''fbparts'') of
            Some v \<Rightarrow>
              (if v \<noteq> [] \<and> length v < 4096 then add_partitions (length v) (v @ [0]) 0 (length v) st else Some st)
          | None \<Rightarrow> do {
              t \<leftarrow> wrn (ptable st) 0 ptable_default;
              Some (st\<lparr>ptable := t, pcount := length ptable_default\<rparr>)
            }))"

section \<open>Partitions of a card\<close>

definition put_ptn :: "byte list \<Rightarrow> u32 \<Rightarrow> u32 \<Rightarrow> u32 \<Rightarrow> 'c fastboot \<Rightarrow> 'c fastboot option" where
  "put_ptn name start len flags st = do {
     t \<leftarrow> wr (ptable st) (pcount st) \<lparr>pt_name = name, pt_start = start, pt_length = len, pt_flags = flags\<rparr>;
     Some (st\<lparr>ptable := t, pcount := pcount st + 1\<rparr>)
   }"

text \<open>The entry of a partition of the card. When \<open>get_mmc_part_info\<close> fails its results keep what
  was in them: \<open>start\<close>, \<open>count\<close> and \<open>pid\<close> of the partition before.\<close>

definition card_ptn ::
  "'c fb_env \<Rightarrow> nat \<Rightarrow> byte \<Rightarrow> byte list \<Rightarrow> 'c fastboot \<times> (u32 \<times> u32 \<times> byte) \<Rightarrow>
   ('c fastboot \<times> (u32 \<times> u32 \<times> byte) \<times> bool) option" where
  "card_ptn env n want name s = (case s of (st, old) \<Rightarrow> do {
     r \<leftarrow> get_mmc_part_info (fb_ops env) (fb_mach st) (txt_bytes (if fb_dev st = 0 then ''0'' else ''1'')) n;
     let new = (case r of None \<Rightarrow> old | Some i \<Rightarrow> i);
     (case new of (start, count, pid) \<Rightarrow>
        if pid \<noteq> want then Some (st, new, False)
        else do {
          st \<leftarrow> put_ptn name (start * CFG_FASTBOOT_SDMMC_BLOCKSIZE) (count * CFG_FASTBOOT_SDMMC_BLOCKSIZE)
            FASTBOOT_PTENTRY_FLAGS_USE_MMC_CMD st;
          Some (st, new, True)
        })
   })"

primrec card_ptns ::
  "'c fb_env \<Rightarrow> (nat \<times> byte \<times> byte list) list \<Rightarrow> 'c fastboot \<times> (u32 \<times> u32 \<times> byte) \<Rightarrow> ('c fastboot \<times> int) option" where
  "card_ptns env [] s = Some (fst s, 0)"
| "card_ptns env (p # ps) s = (case p of (n, want, name) \<Rightarrow> do {
     (st, new, ok) \<leftarrow> card_ptn env n want name s;
     if ok then card_ptns env ps (st, new) else Some (st, - 1)
   })"

text \<open>\<open>unset\<close> is what the three locals hold before they are set.\<close>

definition set_partition_table_sdmmc ::
  "'c fb_env \<Rightarrow> u32 \<times> u32 \<times> byte \<Rightarrow> 'c fastboot \<Rightarrow> ('c fastboot \<times> int) option" where
  "set_partition_table_sdmmc env unset st = do {
     let st = st\<lparr>pcount := 0\<rparr>;
     st \<leftarrow> put_ptn (txt_bytes ''bootloader'') 0 0 FASTBOOT_PTENTRY_FLAGS_USE_MOVI_CMD st;
     st \<leftarrow> put_ptn (txt_bytes ''kernel'') 0 0 FASTBOOT_PTENTRY_FLAGS_USE_MOVI_CMD st;
     st \<leftarrow> put_ptn (txt_bytes ''ramdisk'') 0 0x300000 FASTBOOT_PTENTRY_FLAGS_USE_MOVI_CMD st;
     st \<leftarrow> put_ptn (txt_bytes ''Recovery'') 0 0x600000 FASTBOOT_PTENTRY_FLAGS_USE_MOVI_CMD st;
     card_ptns env [(2, 0x83, txt_bytes ''system''), (3, 0x83, txt_bytes ''userdata''), (4, 0x83, txt_bytes ''cache''),
       (1, 0xc, txt_bytes ''fat'')] (st, unset)
   }"

end
