(* ===== verification/FastbootRx.thy ===== *)
theory FastbootRx
  imports Fastboot
begin

text \<open>
  The handler of received packets, \<open>rx_handler\<close> of \<^verbatim>\<open>common/cmd_fastboot.c\<close>, the packets
  themselves (\<open>fboot_usb_int_bulkout\<close> of \<^verbatim>\<open>cpu/arm_cortexa9/s5pc210/fastboot.c\<close>), and the
  functions that store images. What is printed and shown on the display is left out.
\<close>

definition FASTBOOT_VERSION :: "byte list" where "FASTBOOT_VERSION = txt_bytes ''0.4''"
definition FASTBOOT_REBOOT_MAGIC :: "byte list" where "FASTBOOT_REBOOT_MAGIC = txt_bytes ''REBOOT-FASTBOOT''"
definition FASTBOOT_REBOOT_MAGIC_SIZE :: nat where "FASTBOOT_REBOOT_MAGIC_SIZE = 15"
definition CFG_FASTBOOT_MKBOOTIMAGE_PAGE_SIZE :: u32 where "CFG_FASTBOOT_MKBOOTIMAGE_PAGE_SIZE = 2048"
definition CFG_FASTBOOT_ADDR_KERNEL :: u32 where "CFG_FASTBOOT_ADDR_KERNEL = 0x40008000"
definition CFG_FASTBOOT_ADDR_RAMDISK :: u32 where "CFG_FASTBOOT_ADDR_RAMDISK = 0x40800000"
definition IH_MAGIC :: u32 where "IH_MAGIC = 0x27051956"

text \<open>How a function ends: with a result, or without coming back, by a reset, in a kernel, or in an endless loop.\<close>

datatype halt = Reset | Booted | Stuck

datatype ending = Ret int | Halt halt

section \<open>Memory\<close>

definition ram_put :: "(u32 \<Rightarrow> byte) \<Rightarrow> u32 \<Rightarrow> byte list \<Rightarrow> u32 \<Rightarrow> byte" where
  "ram_put r a bytes = (\<lambda>x. if unat (x - a) < length bytes then bytes ! unat (x - a) else r x)"

text \<open>\<open>memcpy\<close> from low to high addresses.\<close>

primrec ram_copy :: "nat \<Rightarrow> (u32 \<Rightarrow> byte) \<Rightarrow> u32 \<Rightarrow> u32 \<Rightarrow> u32 \<Rightarrow> byte" where
  "ram_copy 0 r d s = r"
| "ram_copy (Suc n) r d s = ram_copy n (r(d := r s)) (d + 1) (s + 1)"

text \<open>The string at \<open>a\<close>, if it ends within \<open>n\<close> bytes.\<close>

primrec ram_str :: "nat \<Rightarrow> (u32 \<Rightarrow> byte) \<Rightarrow> u32 \<Rightarrow> byte list option" where
  "ram_str 0 r a = None"
| "ram_str (Suc n) r a = (if r a = 0 then Some [] else map_option (\<lambda>s. r a # s) (ram_str n r (a + 1)))"

definition set_ram :: "(u32 \<Rightarrow> byte) \<Rightarrow> 'c fastboot \<Rightarrow> 'c fastboot" where
  "set_ram r st = st\<lparr>fb_mach := (fb_mach st)\<lparr>mach_ram := r\<rparr>\<rparr>"

definition fb_ram :: "'c fastboot \<Rightarrow> u32 \<Rightarrow> byte" where
  "fb_ram st = mach_ram (fb_mach st)"

definition fb_buf :: "'c fastboot \<Rightarrow> u32" where
  "fb_buf st = transfer_buffer (fb_if st)"

text \<open>The rest of the transfer buffer from \<open>a\<close> on, as an object.\<close>

definition buffer_from :: "'c fastboot \<Rightarrow> u32 \<Rightarrow> mem" where
  "buffer_from st a = ram_bytes (fb_ram st) a (unat (fb_buf st + transfer_buffer_size (fb_if st) - a))"

section \<open>Storing an image\<close>

text \<open>The lines of \<^verbatim>\<open>movi\<close>, run one after the other; their results are not looked at.\<close>

primrec run_lines :: "(byte list \<Rightarrow> 'w \<Rightarrow> ('w \<times> int) option) \<Rightarrow> byte list list \<Rightarrow> 'w \<Rightarrow> 'w option" where
  "run_lines run [] w = Some w"
| "run_lines run (l # ls) w = do { (w, r) \<leftarrow> run l w; run_lines run ls w }"

definition fb_movi_env :: "'c fb_env \<Rightarrow> 'c fastboot \<Rightarrow> movi_env" where
  "fb_movi_env env st = \<lparr>om_pin = fb_om env, mmc0_name = fb_mmc0 env, fuse_by_fastboot = fb_fuse st,
     dev_number_write = fb_dev st\<rparr>"

text \<open>\<open>do_movi\<close> as the other files call it.\<close>

definition call_movi :: "'c fb_env \<Rightarrow> byte list list \<Rightarrow> 'c fastboot \<Rightarrow> ('c fastboot \<times> int) option" where
  "call_movi env argv st = do {
     (ra, lines, r) \<leftarrow> do_movi (fb_movi_env env st) (fb_raw st) argv;
     w \<leftarrow> run_lines (fb_run env) lines (fb_mach st);
     Some (st\<lparr>fb_raw := ra, fb_mach := w\<rparr>, r)
   }"

definition hex_arg :: "u32 \<Rightarrow> byte list option" where
  "hex_arg x = map_option fst (sprintf (txt_bytes ''0x%x'') [VInt x])"

definition rounded_size :: "u32 \<Rightarrow> u32" where
  "rounded_size sz = (sz + CFG_FASTBOOT_SDMMC_BLOCKSIZE - 1) div CFG_FASTBOOT_SDMMC_BLOCKSIZE * CFG_FASTBOOT_SDMMC_BLOCKSIZE"

text \<open>A partition that the card's table describes. The first word of a line, a null pointer in the code, is not looked at.\<close>

definition write_mmc_ptn :: "'c fb_env \<Rightarrow> ptentry \<Rightarrow> u32 \<Rightarrow> 'c fastboot \<Rightarrow> ('c fastboot \<times> ending) option" where
  "write_mmc_ptn env p addr st = do {
     (device, _) \<leftarrow> sprintf (txt_bytes ''mmc %d'') [VInt 1];
     buffer \<leftarrow> hex_arg addr;
     start \<leftarrow> hex_arg (pt_start p div CFG_FASTBOOT_SDMMC_BLOCKSIZE);
     len \<leftarrow> hex_arg (pt_length p div CFG_FASTBOOT_SDMMC_BLOCKSIZE);
     check \<leftarrow> check_compress_ext4 (buffer_from st addr) 0 (pt_length p);
     (case check of
        Hangs \<Rightarrow> Some (st, Halt Stuck)
      | Result r \<Rightarrow> do {
          (w, ret) \<leftarrow> (if r \<noteq> 0
            then do_mmcops (fb_drv env) (fb_mach st) [[], txt_bytes ''write'', device, buffer, start, len]
            else write_compressed_ext4 (fb_run env) (fb_dev st) addr (buffer_from st addr) 0
              (pt_start p div CFG_FASTBOOT_SDMMC_BLOCKSIZE) (fb_mach st));
          Some (st\<lparr>fb_mach := w\<rparr>, Ret ret)
        })
   }"

text \<open>An area of the raw part of the card. Seven characters of the name of the recovery area are copied, without
  an end.\<close>

definition movi_part :: "'c fb_env \<Rightarrow> 'c fastboot \<Rightarrow> ptentry \<Rightarrow> (byte list \<times> bool) option" where
  "movi_part env st p = do {
     b \<leftarrow> str_cmp (pt_name p) (txt_bytes ''bootloader'');
     if b = 0 then Some (if fb_dev st = 0 then txt_bytes ''emmc-uboot'' else txt_bytes ''u-boot'', False)
     else do {
       r \<leftarrow> str_cmp (pt_name p) (txt_bytes ''ramdisk'');
       if r = 0 then Some (txt_bytes ''rootfs'', True)
       else do {
         c \<leftarrow> str_cmp (pt_name p) (txt_bytes ''Recovery'');
         Some (if c = 0 then (txt_bytes ''Recover'' @ fb_junk env, True) else (pt_name p, False))
       }
     }
   }"

definition write_movi_ptn :: "'c fb_env \<Rightarrow> ptentry \<Rightarrow> u32 \<Rightarrow> u32 \<Rightarrow> 'c fastboot \<Rightarrow> ('c fastboot \<times> ending) option" where
  "write_movi_ptn env p addr sz st = do {
     (part, sized) \<leftarrow> movi_part env st p;
     buffer \<leftarrow> hex_arg addr;
     len \<leftarrow> hex_arg (rounded_size sz);
     (st, ret) \<leftarrow> call_movi env ([[], txt_bytes ''write'', part, buffer] @ (if sized then [len] else [])) st;
     Some (st, Ret (1 - ret))
   }"

definition write_to_ptn_sdmmc :: "'c fb_env \<Rightarrow> ptentry \<Rightarrow> u32 \<Rightarrow> u32 \<Rightarrow> 'c fastboot \<Rightarrow> ('c fastboot \<times> ending) option" where
  "write_to_ptn_sdmmc env p addr sz st =
     (if pt_length p \<noteq> 0 \<and> pt_length p < sz then Some (st, Ret 1)
      else if has_flag p FASTBOOT_PTENTRY_FLAGS_USE_MMC_CMD then write_mmc_ptn env p addr st
      else if has_flag p FASTBOOT_PTENTRY_FLAGS_USE_MOVI_CMD then write_movi_ptn env p addr sz st
      else Some (st, Ret 1))"

section \<open>Variables in the transfer buffer\<close>

text \<open>The locals of \<open>parse_env\<close>; a pointer into the buffer is its offset. Without a flash memory of
  another kind \<open>save_env\<close> is empty.\<close>

record envp =
  ep_ram :: "u32 \<Rightarrow> byte"
  ep_comment :: bool
  ep_var :: "nat option"
  ep_var_end :: "nat option"
  ep_val :: "nat option"
  ep_val_end :: "nat option"
  ep_sets :: u32

definition ep_put :: "u32 \<Rightarrow> nat \<Rightarrow> byte \<Rightarrow> envp \<Rightarrow> envp" where
  "ep_put a i x s = s\<lparr>ep_ram := (ep_ram s)(a + of_nat i := x)\<rparr>"

definition eol :: "byte \<Rightarrow> bool" where "eol c \<longleftrightarrow> c = 13 \<or> c = 10"
definition gap :: "byte \<Rightarrow> bool" where "gap c \<longleftrightarrow> c = 32 \<or> c = 9"

text \<open>One character: the chain of cases, then the pair that may be complete. The case behind the last one, with the
  end of a value still set, is the internal error.\<close>

definition ep_cases :: "u32 \<Rightarrow> bool \<Rightarrow> nat \<Rightarrow> envp \<Rightarrow> envp option" where
  "ep_cases a save i s =
     (let c = ep_ram s (a + of_nat i)
      in if ep_var s = None
         then (let s = (if c = 35 then s\<lparr>ep_comment := True\<rparr> else s)
               in Some (if ep_comment s then (if eol c then s\<lparr>ep_comment := False\<rparr> else s)
                        else if \<not> gap c \<and> \<not> eol c then s\<lparr>ep_var := Some i\<rparr> else s))
         else if (ep_var_end s = None \<or> ep_val s = None) \<and> eol c
         then (let s = (if save then ep_put a i 0 s else s)
               in Some (s\<lparr>ep_var := None, ep_var_end := None, ep_sets := ep_sets s + 1\<rparr>))
         else if ep_var_end s = None then Some (if gap c then s\<lparr>ep_var_end := Some i\<rparr> else s)
         else if ep_val s = None then Some (if \<not> gap c then s\<lparr>ep_val := Some i\<rparr> else s)
         else if ep_val_end s = None
         then Some (if eol c
               then (if ep_ram s (a + of_nat i - 1) = 92
                     then (let s = (if c = 13 \<and> ep_ram s (a + of_nat i + 1) = 10 then ep_put a (i + 1) 32 s else s)
                           in ep_put a i 32 (s\<lparr>ep_ram := (ep_ram s)(a + of_nat i - 1 := 32)\<rparr>))
                     else s\<lparr>ep_val_end := Some i\<rparr>)
               else s)
         else None)"

definition ep_pair :: "u32 \<Rightarrow> bool \<Rightarrow> envp \<Rightarrow> envp option" where
  "ep_pair a save s =
     (case ep_val_end s of
        None \<Rightarrow> Some s
      | Some e \<Rightarrow> do {
          v \<leftarrow> ep_var_end s;
          let s = (if save then ep_put a e 0 (ep_put a v 0 s) else s);
          Some (s\<lparr>ep_var := None, ep_var_end := None, ep_val := None, ep_val_end := None, ep_sets := ep_sets s + 1\<rparr>)
        })"

text \<open>The loop from \<open>i\<close> on for \<open>n\<close> characters; nothing inside is the internal error.\<close>

primrec ep_loop :: "nat \<Rightarrow> u32 \<Rightarrow> bool \<Rightarrow> nat \<Rightarrow> envp \<Rightarrow> envp option option" where
  "ep_loop 0 a save i s = Some (Some s)"
| "ep_loop (Suc n) a save i s =
     (case ep_cases a save i s of
        None \<Rightarrow> Some None
      | Some s \<Rightarrow> do { s \<leftarrow> ep_pair a save s; ep_loop n a save (i + 1) s })"

text \<open>The result, and the message of an error.\<close>

definition parse_env :: "bool \<Rightarrow> 'c fastboot \<Rightarrow> ('c fastboot \<times> byte list option) option" where
  "parse_env save st =
     (let a = fb_buf st; n = unat (download_bytes st);
          r = (if save then (fb_ram st)(a + of_nat n := 0) else fb_ram st)
      in do {
        res \<leftarrow> ep_loop n a save 0 \<lparr>ep_ram = r, ep_comment = False, ep_var = None, ep_var_end = None,
          ep_val = None, ep_val_end = None, ep_sets = 0\<rparr>;
        (case res of
           None \<Rightarrow> Some (st, Some (txt_bytes ''Internal Error''))
         | Some s \<Rightarrow>
             (let tail = (ep_var s \<noteq> None \<and> ep_val_end s = None);
                  s = (case ep_var_end s of Some v \<Rightarrow> if tail \<and> save then ep_put a v 0 s else s | None \<Rightarrow> s);
                  sets = (if tail then ep_sets s + 1 else ep_sets s)
              in Some (set_ram (ep_ram s) st, if sets = 0 then Some (txt_bytes ''No variables set'') else None)))
      })"

definition saveenv_to_ptn :: "'c fastboot \<Rightarrow> ('c fastboot \<times> byte list option) option" where
  "saveenv_to_ptn st = do {
     (st, e) \<leftarrow> parse_env False st;
     (case e of Some m \<Rightarrow> Some (st, Some m) | None \<Rightarrow> parse_env True st)
   }"

section \<open>Commands\<close>

text \<open>\<open>answer\<close> is the end of most commands: the response is sent later, and the result given.\<close>

definition answer :: "byte list \<Rightarrow> int \<Rightarrow> 'c fastboot \<Rightarrow> ('c fastboot \<times> ending) option" where
  "answer response ret st = Some (fastboot_tx_status response False st, Ret ret)"

definition rx_data :: "mem \<Rightarrow> nat \<Rightarrow> 'c fastboot \<Rightarrow> ('c fastboot \<times> ending) option" where
  "rx_data buffer buffer_size st =
     (if buffer_size = 0 then Some (st, Ret 0)
      else do {
        let transfer_size = min (unat (download_size st - download_bytes st)) buffer_size;
        bytes \<leftarrow> rdn buffer 0 transfer_size;
        let st = (set_ram (ram_put (fb_ram st) (fb_buf st + download_bytes st) bytes) st)
          \<lparr>download_bytes := download_bytes st + of_nat transfer_size\<rparr>;
        if download_size st \<le> download_bytes st
        then answer (txt_bytes (if download_error st \<noteq> 0 then ''ERROR'' else ''OKAY'')) 0 (st\<lparr>download_size := 0\<rparr>)
        else Some (st, Ret 0)
      })"

definition rx_reboot :: "mem \<Rightarrow> 'c fastboot \<Rightarrow> ('c fastboot \<times> ending) option" where
  "rx_reboot cmdbuf st = do {
     loader \<leftarrow> lit_at (txt_bytes ''-bootloader'' @ [0]) cmdbuf 6;
     let st = set_ram (ram_put (fb_ram st) (fb_buf st)
       (if loader then FASTBOOT_REBOOT_MAGIC @ [0] else replicate FASTBOOT_REBOOT_MAGIC_SIZE 0)) st;
     Some (fastboot_tx_status (txt_bytes ''OKAY'') True st, Halt Reset)
   }"

text \<open>A text copied behind the first four characters of the response, which has 65.\<close>

definition okay_text :: "byte list option \<Rightarrow> byte list option" where
  "okay_text t = (case t of None \<Rightarrow> Some (txt_bytes ''OKAY'')
     | Some s \<Rightarrow> if length s \<le> 60 then Some (txt_bytes ''OKAY'' @ s) else None)"

definition rx_getvar :: "mem \<Rightarrow> 'c fastboot \<Rightarrow> ('c fastboot \<times> ending) option" where
  "rx_getvar cmdbuf st = do {
     version \<leftarrow> lit_at (txt_bytes ''version'' @ [0]) cmdbuf 7;
     product \<leftarrow> lit_at (txt_bytes ''product'' @ [0]) cmdbuf 7;
     serialno \<leftarrow> lit_at (txt_bytes ''serialno'' @ [0]) cmdbuf 7;
     downloadsize \<leftarrow> lit_at (txt_bytes ''downloadsize'' @ [0]) cmdbuf 7;
     response \<leftarrow>
       (if version then okay_text (Some FASTBOOT_VERSION)
        else if product then okay_text (product_name (fb_if st))
        else if serialno then okay_text (serial_no (fb_if st))
        else if downloadsize
        then (if transfer_buffer_size (fb_if st) \<noteq> 0
              then do { (t, _) \<leftarrow> sprintf (txt_bytes ''%08x'') [VInt (transfer_buffer_size (fb_if st))]; okay_text (Some t) }
              else okay_text None)
        else okay_text None);
     answer response 0 st
   }"

text \<open>The board was started from a card.\<close>

definition card_boot :: "'c fb_env \<Rightarrow> bool" where
  "card_boot env \<longleftrightarrow> fb_om env = BOOT_MMCSD \<or> fb_om env = BOOT_EMMC441 \<or> fb_om env = BOOT_EMMC43"

text \<open>The line that formats a partition.\<close>

definition format_line :: "byte list \<Rightarrow> byte list \<Rightarrow> byte list option option" where
  "format_line dev name = do {
     u \<leftarrow> str_cmp name (txt_bytes ''userdata'');
     c \<leftarrow> str_cmp name (txt_bytes ''cache'');
     f \<leftarrow> str_cmp name (txt_bytes ''fat'');
     Some (if u = 0 then Some (txt_bytes ''ext3format mmc '' @ dev @ txt_bytes '':3'')
       else if c = 0 then Some (txt_bytes ''ext3format mmc '' @ dev @ txt_bytes '':4'')
       else if f = 0 then Some (txt_bytes ''fatformat mmc '' @ dev @ txt_bytes '':1'')
       else None)
   }"

definition erase_ptn :: "'c fb_env \<Rightarrow> ptentry \<Rightarrow> 'c fastboot \<Rightarrow> ('c fastboot \<times> int) option" where
  "erase_ptn env p st =
     (if fb_dev st = 1 \<or> card_boot env
      then do {
        line \<leftarrow> format_line (txt_bytes (if fb_dev st = 1 then ''1'' else ''0'')) (pt_name p);
        (case line of
           None \<Rightarrow> Some (st, 1)
         | Some l \<Rightarrow> do { (w, status) \<leftarrow> fb_run env l (fb_mach st); Some (st\<lparr>fb_mach := w\<rparr>, status) })
      }
      else Some (st, fb_status env))"

definition rx_erase :: "'c fb_env \<Rightarrow> mem \<Rightarrow> 'c fastboot \<Rightarrow> ('c fastboot \<times> ending) option" where
  "rx_erase env cmdbuf st = do {
     name \<leftarrow> str_at cmdbuf 6;
     ptn \<leftarrow> fastboot_flash_find_ptn st name;
     (case ptn of
        None \<Rightarrow> answer (txt_bytes ''FAILpartition does not exist'') 0 st
      | Some p \<Rightarrow> do {
          (st, status) \<leftarrow> erase_ptn env p st;
          answer (txt_bytes (if status \<noteq> 0 then ''FAILfailed to erase partition'' else ''OKAY'')) 0 st
        })
   }"

definition rx_download :: "mem \<Rightarrow> 'c fastboot \<Rightarrow> ('c fastboot \<times> ending) option" where
  "rx_download cmdbuf st = do {
     (n, _) \<leftarrow> simple_strtoul cmdbuf 9 16;
     let st = st\<lparr>download_size := n, download_bytes := 0, download_error := 0\<rparr>;
     if n = 0 then answer (txt_bytes ''FAILdata invalid size'') 0 st
     else if transfer_buffer_size (fb_if st) < n then answer (txt_bytes ''FAILdata too large'') 0 (st\<lparr>download_size := 0\<rparr>)
     else do {
       (t, _) \<leftarrow> sprintf (txt_bytes ''DATA%08x'') [VInt n];
       answer t 0 st
     }
   }"

section \<open>Boot images\<close>

text \<open>The fields of the header at the start of the transfer buffer.\<close>

definition hdr_kernel_size :: "'c fastboot \<Rightarrow> u32" where
  "hdr_kernel_size st = get_le32 (ram_bytes (fb_ram st) (fb_buf st + 8) 4)"

definition hdr_ramdisk_size :: "'c fastboot \<Rightarrow> u32" where
  "hdr_ramdisk_size st = get_le32 (ram_bytes (fb_ram st) (fb_buf st + 16) 4)"

definition kernel_at :: "'c fastboot \<Rightarrow> u32" where
  "kernel_at st = fb_buf st + CFG_FASTBOOT_MKBOOTIMAGE_PAGE_SIZE"

definition ramdisk_at :: "'c fastboot \<Rightarrow> u32" where
  "ramdisk_at st =
     (let pageoffset_ramdisk = 1 + (hdr_kernel_size st + CFG_FASTBOOT_MKBOOTIMAGE_PAGE_SIZE - 1) div CFG_FASTBOOT_MKBOOTIMAGE_PAGE_SIZE
      in fb_buf st + pageoffset_ramdisk * CFG_FASTBOOT_MKBOOTIMAGE_PAGE_SIZE)"

text \<open>The kernel and the ramdisk are copied to their places, then \<open>do_bootm\<close> is called. The command line of
  the header, if there is one, becomes the variable \<open>bootargs\<close>. The sizes are those of the header.\<close>

definition boot_copied :: "'c fastboot \<Rightarrow> 'c fastboot" where
  "boot_copied st =
     (let r = ram_copy (unat (hdr_kernel_size st)) (fb_ram st) CFG_FASTBOOT_ADDR_KERNEL (kernel_at st);
          st1 = set_ram r st
      in set_ram (ram_copy (unat (hdr_ramdisk_size st1)) r CFG_FASTBOOT_ADDR_RAMDISK (ramdisk_at st)) st1)"

definition rx_boot :: "'c fb_env \<Rightarrow> 'c fastboot \<Rightarrow> ('c fastboot \<times> ending) option" where
  "rx_boot env st =
     (if download_bytes st \<noteq> 0 \<and> CFG_FASTBOOT_MKBOOTIMAGE_PAGE_SIZE < download_bytes st
      then do {
        kernel \<leftarrow> hex_arg CFG_FASTBOOT_ADDR_KERNEL;
        ramdisk \<leftarrow> hex_arg CFG_FASTBOOT_ADDR_RAMDISK;
        let st = fastboot_tx_status (txt_bytes ''OKAY'') True (boot_copied st);
        (w, argv) \<leftarrow>
          (if get_be32 (ram_bytes (fb_ram st) (kernel_at st) 4) = IH_MAGIC
           then do {
             args \<leftarrow> ram_str (unat (transfer_buffer_size (fb_if st)) - 64) (fb_ram st) (fb_buf st + 64);
             Some (if args \<noteq> [] then fb_setenv env (txt_bytes ''bootargs'') args (fb_mach st) else fb_mach st,
               [txt_bytes ''bootm'', kernel])
           }
           else Some (fb_mach st, [txt_bytes ''bootm'', kernel, ramdisk]));
        (case fb_bootm env argv w of
           None \<Rightarrow> Some (st\<lparr>fb_mach := w\<rparr>, Halt Booted)
         | Some w \<Rightarrow> answer (txt_bytes ''FAILinvalid boot image'') 0 (st\<lparr>fb_mach := w\<rparr>))
      }
      else answer (txt_bytes ''FAILinvalid boot image'') 0 st)"

section \<open>Flashing\<close>

text \<open>Storing for the way the board was started; otherwise the result stays as it is.\<close>

definition store_ptn :: "'c fb_env \<Rightarrow> ptentry \<Rightarrow> u32 \<Rightarrow> u32 \<Rightarrow> int \<Rightarrow> 'c fastboot \<Rightarrow> ('c fastboot \<times> ending) option" where
  "store_ptn env p addr sz ret st = (if card_boot env then write_to_ptn_sdmmc env p addr sz st else Some (st, Ret ret))"

definition too_large :: "ptentry \<Rightarrow> u32 \<Rightarrow> bool" where
  "too_large p sz \<longleftrightarrow> pt_length p \<noteq> 0 \<and> pt_length p < sz"

text \<open>The image \<open>boot.img\<close>: kernel and ramdisk. A partition that is missing is a null pointer.\<close>

definition rx_flash_boot :: "'c fb_env \<Rightarrow> 'c fastboot \<Rightarrow> ('c fastboot \<times> ending) option" where
  "rx_flash_boot env st = do {
     ptn \<leftarrow> fastboot_flash_find_ptn st (txt_bytes ''kernel'');
     kp \<leftarrow> ptn;
     if too_large kp (hdr_kernel_size st) then answer (txt_bytes ''FAILimage too large for partition'') 1 st
     else do {
       (st, r) \<leftarrow> store_ptn env kp (kernel_at st) (hdr_kernel_size st) 1 st;
       (case r of
          Halt h \<Rightarrow> Some (st, Halt h)
        | Ret ret \<Rightarrow> do {
            ptn \<leftarrow> fastboot_flash_find_ptn st (txt_bytes ''ramdisk'');
            rp \<leftarrow> ptn;
            if too_large rp (hdr_ramdisk_size st) then answer (txt_bytes ''FAILimage too large for partition'') ret st
            else do {
              (st, r) \<leftarrow> store_ptn env rp (ramdisk_at st) (hdr_ramdisk_size st) 0 st;
              (case r of
                 Halt h \<Rightarrow> Some (st, Halt h)
               | Ret ret2 \<Rightarrow> answer (txt_bytes (if ret OR ret2 \<noteq> 0 then ''FAILfailed to flash partition'' else ''OKAY'')) 0 st)
            }
          })
     }
   }"

text \<open>One partition. After an error on a board started from its internal card, the access mode of that card is reset.\<close>

definition rx_flash_ptn :: "'c fb_env \<Rightarrow> ptentry \<Rightarrow> 'c fastboot \<Rightarrow> ('c fastboot \<times> ending) option" where
  "rx_flash_ptn env p st =
     (if has_flag p FASTBOOT_PTENTRY_FLAGS_WRITE_ENV
      then do {
        (st, e) \<leftarrow> saveenv_to_ptn st;
        answer (case e of Some m \<Rightarrow> txt_bytes ''FAIL'' @ m | None \<Rightarrow> txt_bytes ''OKAY'') 0 st
      }
      else if \<not> card_boot env then answer (txt_bytes ''FAIL'') 0 st
      else do {
        (st, r) \<leftarrow> write_to_ptn_sdmmc env p (fb_buf st) (download_bytes st) st;
        (case r of
           Halt h \<Rightarrow> Some (st, Halt h)
         | Ret ret \<Rightarrow>
             if ret = 0 then answer (txt_bytes ''OKAY'') 0 st
             else if fb_om env = BOOT_MMCSD then answer (txt_bytes ''FAILfailed to flash partition'') 0 st
             else do {
               (w, _) \<leftarrow> fb_run env (txt_bytes ''emmc mode 0 0 1'') (fb_mach st);
               answer (txt_bytes ''FAILfailed to flash partition'') 0 (st\<lparr>fb_mach := w\<rparr>)
             })
      })"

definition rx_flash :: "'c fb_env \<Rightarrow> mem \<Rightarrow> 'c fastboot \<Rightarrow> ('c fastboot \<times> ending) option" where
  "rx_flash env cmdbuf st =
     (if download_bytes st = 0 then answer (txt_bytes ''FAILno image downloaded'') 0 st
      else do {
        boot \<leftarrow> lit_at (txt_bytes ''boot'' @ [0]) cmdbuf 6;
        if boot then rx_flash_boot env st
        else do {
          name \<leftarrow> str_at cmdbuf 6;
          ptn \<leftarrow> fastboot_flash_find_ptn st name;
          (case ptn of
             None \<Rightarrow> answer (txt_bytes ''FAILpartition does not exist'') 0 st
           | Some p \<Rightarrow>
               if pt_length p < download_bytes st \<and> pt_length p \<noteq> 0 \<and> \<not> has_flag p FASTBOOT_PTENTRY_FLAGS_WRITE_ENV
               then answer (txt_bytes ''FAILimage too large for partition'') 0 st
               else rx_flash_ptn env p st)
        }
      })"

section \<open>The handler\<close>

definition rx_oem :: "'c fastboot \<Rightarrow> ('c fastboot \<times> ending) option" where
  "rx_oem st = answer (txt_bytes ''OKAY'') 0 (fastboot_tx_status (txt_bytes ''INFOunknown OEM command'') False st)"

text \<open>The tests of the command stand one behind the other; no two of them hold of one packet, and a command that
  is none of them gets the generic answer.\<close>

definition rx_command :: "'c fb_env \<Rightarrow> mem \<Rightarrow> 'c fastboot \<Rightarrow> ('c fastboot \<times> ending) option" where
  "rx_command env cmdbuf st = do {
     reboot \<leftarrow> lit_at (txt_bytes ''reboot'') cmdbuf 0;
     if reboot then rx_reboot cmdbuf st
     else do {
       getvar \<leftarrow> lit_at (txt_bytes ''getvar:'') cmdbuf 0;
       if getvar then rx_getvar cmdbuf st
       else do {
         erase \<leftarrow> lit_at (txt_bytes ''erase:'') cmdbuf 0;
         if erase then rx_erase env cmdbuf st
         else do {
           download \<leftarrow> lit_at (txt_bytes ''download:'') cmdbuf 0;
           if download then rx_download cmdbuf st
           else do {
             boot \<leftarrow> lit_at (txt_bytes ''boot'') cmdbuf 0;
             if boot then rx_boot env st
             else do {
               flash \<leftarrow> lit_at (txt_bytes ''flash:'') cmdbuf 0;
               if flash then rx_flash env cmdbuf st
               else do {
                 oem \<leftarrow> lit_at (txt_bytes ''oem'') cmdbuf 0;
                 if oem then rx_oem st else answer (txt_bytes ''FAIL'') 1 st
               }
             }
           }
         }
       }
     }
   }"

definition rx_handler :: "'c fb_env \<Rightarrow> mem \<Rightarrow> nat \<Rightarrow> 'c fastboot \<Rightarrow> ('c fastboot \<times> ending) option" where
  "rx_handler env buffer buffer_size st =
     (if download_size st \<noteq> 0 then rx_data buffer buffer_size st else rx_command env buffer st)"

text \<open>A packet has arrived: it is read, in whole words, into \<open>fastboot_bulk_fifo\<close>, a terminator is put behind one of fewer than 64
  bytes, and the handler called. The result of the handler is not looked at.\<close>

definition fboot_usb_read_out_fifo :: "'c fb_env \<Rightarrow> byte list \<Rightarrow> mem \<Rightarrow> mem option" where
  "fboot_usb_read_out_fifo env packet buf =
     wrn buf 0 (packet @ map (fb_residue env packet) [0..<(4 - length packet mod 4) mod 4])"

definition fboot_usb_int_bulkout :: "'c fb_env \<Rightarrow> byte list \<Rightarrow> 'c fastboot \<Rightarrow> ('c fastboot \<times> ending) option" where
  "fboot_usb_int_bulkout env packet st = do {
     fifo \<leftarrow> fboot_usb_read_out_fifo env packet (bulk_fifo st);
     fifo \<leftarrow> (if length packet < 64 then wr fifo (length packet) 0 else Some fifo);
     rx_handler env fifo (length packet) (st\<lparr>bulk_fifo := fifo\<rparr>)
   }"

end
