(* ===== verification/FastbootLoop.thy ===== *)
theory FastbootLoop
  imports FastbootRx
begin

text \<open>
  The commands \<^verbatim>\<open>fastboot\<close> and \<^verbatim>\<open>sdfuse\<close> of \<^verbatim>\<open>common/cmd_fastboot.c\<close> with the
  functions of \<^verbatim>\<open>cpu/arm_cortexa9/s5pc210/fastboot.c\<close> that they call: the start of the interface, the polls,
  the loop with its time limit, and the update from a file system.
\<close>

definition CFG_FASTBOOT_TRANSFER_BUFFER :: u32 where "CFG_FASTBOOT_TRANSFER_BUFFER = 0x48000000"
definition CFG_FASTBOOT_TRANSFER_BUFFER_SIZE :: u32 where "CFG_FASTBOOT_TRANSFER_BUFFER_SIZE = 0x36000000"
definition CFG_FASTBOOT_PAGESIZE :: u32 where "CFG_FASTBOOT_PAGESIZE = 2048"
definition FASTBOOT_OK :: int where "FASTBOOT_OK = 0"
definition FASTBOOT_ERROR :: int where "FASTBOOT_ERROR = - 1"
definition FASTBOOT_DISCONNECT :: int where "FASTBOOT_DISCONNECT = 1"
definition FASTBOOT_INACTIVE :: int where "FASTBOOT_INACTIVE = 2"

section \<open>The interface\<close>

definition serial_number :: "'c fb_env \<Rightarrow> byte list" where
  "serial_number env = (case fb_getenv env (txt_bytes ''dieid#'') of
     None \<Rightarrow> txt_bytes ''SLSI0123'' | Some dieid \<Rightarrow> take 30 dieid)"

text \<open>The array \<open>device_strings\<close> has two elements, and it is not read but for the product and the serial number; of the
  strings only the first is stored in it. What is stored behind it is read back from there.\<close>

definition store_string :: "'c fb_env \<Rightarrow> nat \<Rightarrow> byte list \<Rightarrow> 'c fastboot \<Rightarrow> 'c fastboot option" where
  "store_string env k s st = (if k < 2 then Some st else fb_spill env k s st)"

definition fastboot_init :: "'c fb_env \<Rightarrow> 'c fastboot \<Rightarrow> ('c fastboot \<times> int) option" where
  "fastboot_init env st = do {
     st \<leftarrow> store_string env 1 (txt_bytes ''Samsung S.LSI'') st;
     st \<leftarrow> store_string env 2 (txt_bytes ''smdkc210'') st;
     st \<leftarrow> store_string env 3 (serial_number env) st;
     st \<leftarrow> store_string env 4 (txt_bytes ''Android Fastboot'') st;
     st \<leftarrow> store_string env 5 (txt_bytes ''Android Fastboot'') st;
     let st = st\<lparr>fb_if := \<lparr>product_name = Some (txt_bytes ''smdkc210''), serial_no = Some (serial_number env),
       nand_block_size = CFG_FASTBOOT_PAGESIZE * 64, transfer_buffer = CFG_FASTBOOT_TRANSFER_BUFFER,
       transfer_buffer_size = CFG_FASTBOOT_TRANSFER_BUFFER_SIZE\<rparr>\<rparr>;
     Some (set_ram (ram_put (fb_ram st) CFG_FASTBOOT_TRANSFER_BUFFER (replicate FASTBOOT_REBOOT_MAGIC_SIZE 0)) st, 0)
   }"

text \<open>The test before the prompt; when memory does not hold the mark, a key decides (\<open>key\<close>: it is pressed).\<close>

definition fastboot_preboot :: "bool \<Rightarrow> (u32 \<Rightarrow> byte) \<Rightarrow> int" where
  "fastboot_preboot key r =
     (if ram_bytes r CFG_FASTBOOT_TRANSFER_BUFFER FASTBOOT_REBOOT_MAGIC_SIZE = FASTBOOT_REBOOT_MAGIC then 1
      else if key then 1 else 0)"

text \<open>What a poll finds: no cable, no interrupt, a packet from the host, a free endpoint to the host, or
  another interrupt that was handled or not.\<close>

datatype usb_event = Unplugged | Quiet | Packet "byte list" | Ready | Other bool

definition fastboot_poll :: "'c fb_env \<Rightarrow> usb_event \<Rightarrow> 'c fastboot \<Rightarrow> ('c fastboot \<times> ending) option" where
  "fastboot_poll env ev st =
     (case ev of
        Unplugged \<Rightarrow> Some (st, Ret FASTBOOT_DISCONNECT)
      | Quiet \<Rightarrow> Some (st, Ret FASTBOOT_INACTIVE)
      | Packet bytes \<Rightarrow> do {
          (st, r) \<leftarrow> fboot_usb_int_bulkout env bytes st;
          Some (st, case r of Ret _ \<Rightarrow> Ret FASTBOOT_OK | Halt h \<Rightarrow> Halt h)
        }
      | Ready \<Rightarrow> Some (fboot_usb_int_bulkin False st, Ret FASTBOOT_OK)
      | Other ok \<Rightarrow> Some (st, Ret (if ok then FASTBOOT_OK else FASTBOOT_ERROR)))"

section \<open>The loop\<close>

text \<open>One round: what the poll finds, the time, and whether control-C is pressed.\<close>

record round =
  rd_event :: usb_event
  rd_time :: u64
  rd_ctrlc :: bool

text \<open>The end of a connection: whether to go on with the next one, no return, or no more input.\<close>

datatype conn_end = Leave bool | Gone halt | Open

primrec fb_rounds :: "'c fb_env \<Rightarrow> u64 option \<Rightarrow> round list \<Rightarrow> u64 \<Rightarrow> 'c fastboot \<Rightarrow> ('c fastboot \<times> conn_end) option" where
  "fb_rounds env limit [] endtime st = Some (st, Open)"
| "fb_rounds env limit (r # rs) endtime st = do {
     (st, p) \<leftarrow> fastboot_poll env (rd_event r) st;
     (case p of
        Halt h \<Rightarrow> Some (st, Gone h)
      | Ret status \<Rightarrow>
          if status \<noteq> FASTBOOT_OK \<and> rd_ctrlc r then Some (st, Leave False)
          else if status = FASTBOOT_ERROR then Some (st, Leave False)
          else if status = FASTBOOT_DISCONNECT then Some (st, Leave True)
          else (case limit of
                  None \<Rightarrow> fb_rounds env limit rs endtime st
                | Some ticks \<Rightarrow>
                    if status = FASTBOOT_INACTIVE
                    then (if endtime \<le> rd_time r then Some (st, Leave False) else fb_rounds env limit rs endtime st)
                    else fb_rounds env limit rs (rd_time r + ticks) st))
   }"

text \<open>The connections, each with the time it starts at.\<close>

primrec fb_connections ::
  "'c fb_env \<Rightarrow> u64 option \<Rightarrow> (u64 \<times> round list) list \<Rightarrow> 'c fastboot \<Rightarrow> ('c fastboot \<times> conn_end) option" where
  "fb_connections env limit [] st = Some (st, Open)"
| "fb_connections env limit (c # cs) st = do {
     (st, _) \<leftarrow> fastboot_init env st;
     (st, e) \<leftarrow> fb_rounds env limit (snd c) (fst c + (case limit of None \<Rightarrow> 0 | Some ticks \<Rightarrow> ticks)) st;
     (if e = Leave True then fb_connections env limit cs st else Some (st, e))
   }"

section \<open>The command \<open>fastboot\<close>\<close>

text \<open>The limit in ticks of a given number of seconds; the product is 32 bits wide.\<close>

definition fb_limit :: "u32 \<Rightarrow> byte list list \<Rightarrow> u64 option option" where
  "fb_limit tbclk argv =
     (if length argv = 3
      then do {
        a \<leftarrow> rd argv 2;
        (s, e) \<leftarrow> simple_strtol (a @ [0]) 0 10;
        Some (if e \<noteq> 0 \<and> 0 \<le> sint s then Some (ucast (s * tbclk)) else None)
      }
      else Some None)"

definition fb_table :: "'c fb_env \<Rightarrow> u32 \<times> u32 \<times> byte \<Rightarrow> 'c fastboot \<Rightarrow> ('c fastboot \<times> int) option" where
  "fb_table env unset st =
     (if fb_om env = BOOT_ONENAND \<or> fb_om env = BOOT_NAND
      then do { st \<leftarrow> set_partition_table env st; Some (st, 0) }
      else if card_boot env
      then do {
        (st, r) \<leftarrow> set_partition_table_sdmmc env unset st;
        Some (if r \<noteq> 0 then st\<lparr>fb_fuse := 0, fb_dev := 0\<rparr> else st, r)
      }
      else Some (st, 0))"

datatype fb_end = Fb_ret int | Fb_gone halt | Fb_open

definition do_fastboot ::
  "'c fb_env \<Rightarrow> u32 \<Rightarrow> u32 \<times> u32 \<times> byte \<Rightarrow> byte list list \<Rightarrow> (u64 \<times> round list) list \<Rightarrow> 'c fastboot \<Rightarrow>
   ('c fastboot \<times> fb_end) option" where
  "do_fastboot env tbclk unset argv conns st = do {
     (dev, fuse) \<leftarrow>
       (if length argv = 1 then Some (0, 0)
        else do { a \<leftarrow> rd argv 1; (n, _) \<leftarrow> simple_strtoul (a @ [0]) 0 10; Some (n, 1) });
     if length argv \<noteq> 1 \<and> find_mmc_device (mach_devs (fb_mach st)) dev = None
     then Some (st\<lparr>fb_fuse := 0, fb_dev := 0\<rparr>, Fb_ret 1)
     else do {
       (st, r) \<leftarrow> fb_table env unset (st\<lparr>fb_fuse := fuse, fb_dev := dev\<rparr>);
       if r \<noteq> 0 then Some (st, Fb_ret 1)
       else do {
         limit \<leftarrow> fb_limit tbclk argv;
         (st, e) \<leftarrow> fb_connections env limit conns st;
         Some (case e of
             Leave _ \<Rightarrow> (st\<lparr>fb_dev := 0, fb_fuse := 0\<rparr>, Fb_ret 0)
           | Gone h \<Rightarrow> (st, Fb_gone h)
           | Open \<Rightarrow> (st, Fb_open))
       }
     }
   }"

section \<open>The command \<open>sdfuse\<close>\<close>

text \<open>The functions of the file systems, the chip, and the buffer on the stack for the command: whether there is a
  device, whether its first partition is a FAT one, the read of a file to the transfer buffer with its size or
  \<open>-1\<close>, the reading of the partition table, the formatting of a partition (true: it failed).\<close>

record 'c sd_env =
  sd_get_dev :: "'c machine \<Rightarrow> u32 \<Rightarrow> bool"
  sd_fat_register :: "'c machine \<Rightarrow> bool"
  sd_fat_read :: "byte list \<Rightarrow> 'c machine \<Rightarrow> 'c machine \<times> u32"
  sd_init_part :: "'c machine \<Rightarrow> 'c machine"
  sd_fat_format :: "nat \<Rightarrow> 'c machine \<Rightarrow> 'c machine \<times> bool"
  sd_ext_format :: "nat \<Rightarrow> 'c machine \<Rightarrow> 'c machine \<times> bool"
  sd_cpu_id :: u32
  sd_dvt :: bool
  sd_stack :: mem

definition CFG_FASTBOOT_SDFUSE_DIR :: "byte list" where "CFG_FASTBOOT_SDFUSE_DIR = txt_bytes ''/sdupdate/''"
definition CFG_UPDATE_FILE_SRC_DEV :: u32 where "CFG_UPDATE_FILE_SRC_DEV = 1"

text \<open>A string with its terminator put into a buffer of 32 characters.\<close>

definition in_buffer :: "byte list \<Rightarrow> byte list option" where
  "in_buffer s = (if length s < 32 then Some s else None)"

text \<open>The image of a partition from a file, or nothing: then it is erased.\<close>

definition sd_command :: "'c fb_env \<Rightarrow> 'c sd_env \<Rightarrow> byte list \<Rightarrow> 'c fastboot \<Rightarrow> ('c fastboot \<times> ending) option" where
  "sd_command env sd part st = do {
     text \<leftarrow> in_buffer (txt_bytes (if download_bytes st = 0 then ''erase'' else ''flash'') @ [58] @ part);
     command \<leftarrow> wrn (sd_stack sd) 0 (text @ [0]);
     rx_handler env command 32 st
   }"

definition update_from_sd ::
  "'c fb_env \<Rightarrow> 'c sd_env \<Rightarrow> byte list \<Rightarrow> byte list option \<Rightarrow> 'c fastboot \<Rightarrow> ('c fastboot \<times> ending) option" where
  "update_from_sd env sd part file st =
     (case file of
        None \<Rightarrow> sd_command env sd part (st\<lparr>download_size := 0, download_bytes := 0\<rparr>)
      | Some file \<Rightarrow>
          if \<not> sd_get_dev sd (fb_mach st) CFG_UPDATE_FILE_SRC_DEV then Some (st, Ret 1)
          else if \<not> sd_fat_register sd (fb_mach st) then Some (st, Ret 1)
          else do {
            filename \<leftarrow> in_buffer (CFG_FASTBOOT_SDFUSE_DIR @ file);
            let (w, n) = sd_fat_read sd filename (fb_mach st);
            let st = st\<lparr>fb_mach := w\<rparr>;
            if n = - 1 then Some (st, Ret 1)
            else sd_command env sd part (st\<lparr>download_size := 0, download_bytes := n\<rparr>)
          })"

text \<open>Several updates; \<open>strict\<close> ones end the command when they fail.\<close>

primrec updates ::
  "'c fb_env \<Rightarrow> 'c sd_env \<Rightarrow> (bool \<times> byte list \<times> byte list option) list \<Rightarrow> 'c fastboot \<Rightarrow> ('c fastboot \<times> ending) option" where
  "updates env sd [] st = Some (st, Ret 0)"
| "updates env sd (u # us) st = (case u of (strict, part, file) \<Rightarrow> do {
     (st, r) \<leftarrow> update_from_sd env sd part file st;
     (case r of
        Halt h \<Rightarrow> Some (st, Halt h)
      | Ret n \<Rightarrow> if strict \<and> n \<noteq> 0 then Some (st, Ret n) else updates env sd us st)
   })"

definition SMDK4212_AP10_ID :: u32 where "SMDK4212_AP10_ID = 0x43220200"
definition SMDK4212_AP11_ID :: u32 where "SMDK4212_AP11_ID = 0x43220210"
definition SMDK4412_ID :: u32 where "SMDK4412_ID = 0xE4412000"

definition loader_file :: "'c sd_env \<Rightarrow> byte list option" where
  "loader_file sd =
     (if sd_cpu_id sd = SMDK4212_AP10_ID then Some (txt_bytes ''u-boot-exynos4212-evt0-nonfused.bin'')
      else if sd_cpu_id sd = SMDK4212_AP11_ID then Some (txt_bytes ''u-boot-exynos4212-evt1-efused.bin'')
      else if sd_cpu_id sd AND 0xfffff000 = SMDK4412_ID \<and> \<not> sd_dvt sd then Some (txt_bytes ''u-boot-iTOP-4412.bin'')
      else if sd_cpu_id sd AND 0xfffff000 = SMDK4412_ID \<and> sd_dvt sd then Some (txt_bytes ''u-boot-iTOP-4412.bin'')
      else None)"

definition flashall_updates :: "byte list \<Rightarrow> (bool \<times> byte list \<times> byte list option) list" where
  "flashall_updates loader =
     [(False, txt_bytes ''bootloader'', Some loader), (False, txt_bytes ''kernel'', Some (txt_bytes ''zImage'')),
      (False, txt_bytes ''ramdisk'', Some (txt_bytes ''ramdisk-uboot.img'')),
      (False, txt_bytes ''Recovery'', Some (txt_bytes ''ramdisk-recovery-uboot.img'')),
      (False, txt_bytes ''system'', Some (txt_bytes ''system.img'')),
      (True, txt_bytes ''userdata'', None), (True, txt_bytes ''cache'', None), (True, txt_bytes ''fat'', None)]"

text \<open>Formatting the four partitions: true when one of them failed, and the rest is left.\<close>

primrec ext_formats :: "'c sd_env \<Rightarrow> nat list \<Rightarrow> 'c machine \<Rightarrow> 'c machine \<times> bool" where
  "ext_formats sd [] w = (w, False)"
| "ext_formats sd (p # ps) w = (case sd_ext_format sd p w of (w, bad) \<Rightarrow> if bad then (w, True) else ext_formats sd ps w)"

definition sd_format_mmcs :: "'c sd_env \<Rightarrow> 'c machine \<Rightarrow> 'c machine \<times> int" where
  "sd_format_mmcs sd w =
     (if \<not> sd_get_dev sd w 0 then (w, - 1)
      else (case sd_fat_format sd 1 w of (w, bad) \<Rightarrow>
        if bad then (w, - 1) else (case ext_formats sd [2, 3, 4] w of (w, bad) \<Rightarrow> (w, if bad then - 1 else 0))))"

definition booting_dev_init :: "'c fb_env \<Rightarrow> 'c sd_env \<Rightarrow> 'c machine \<Rightarrow> ('c machine \<times> int) option" where
  "booting_dev_init env sd w = do {
     (w, _) \<leftarrow> fb_run env (txt_bytes ''fdisk -c 0'') w;
     if \<not> sd_get_dev sd w 0 then None
     else (case sd_format_mmcs sd (sd_init_part sd w) of (w, r) \<Rightarrow> Some (w, if r \<noteq> 0 then - 1 else 0))
   }"

text \<open>The end of the command behind the table. The result of the updates is not kept: \<open>ret\<close> is still the zero
  of \<open>mmc_init\<close> when one of them ends the command.\<close>

definition sdfuse_rest :: "'c fb_env \<Rightarrow> 'c sd_env \<Rightarrow> byte list list \<Rightarrow> 'c fastboot \<Rightarrow> ('c fastboot \<times> ending) option" where
  "sdfuse_rest env sd argv st = do {
     info \<leftarrow> (if length argv = 2 then arg_is argv 1 ''info'' else Some False);
     flashall \<leftarrow> (if length argv = 2 then arg_is argv 1 ''flashall'' else Some False);
     flash \<leftarrow> (if length argv = 4 then arg_is argv 1 ''flash'' else Some False);
     erase \<leftarrow> (if length argv = 3 then arg_is argv 1 ''erase'' else Some False);
     us \<leftarrow>
       (if flashall then Some (case loader_file sd of None \<Rightarrow> [] | Some f \<Rightarrow> flashall_updates f)
        else if flash then do { p \<leftarrow> rd argv 2; f \<leftarrow> rd argv 3; Some [(True, p, Some f)] }
        else if erase then do { p \<leftarrow> rd argv 2; Some [(True, p, None)] }
        else Some []);
     if info then Some (st, Ret 0)
     else if flashall \<or> flash \<or> erase
     then do {
       (st, r) \<leftarrow> updates env sd us st;
       Some (st, case r of Halt h \<Rightarrow> Halt h | Ret _ \<Rightarrow> Ret 0)
     }
     else Some (st, Ret 1)
   }"

definition do_sdfuse ::
  "'c fb_env \<Rightarrow> 'c sd_env \<Rightarrow> u32 \<times> u32 \<times> byte \<Rightarrow> byte list list \<Rightarrow> 'c fastboot \<Rightarrow> ('c fastboot \<times> ending) option" where
  "do_sdfuse env sd unset argv st =
     (case find_mmc_device (mach_devs (fb_mach st)) CFG_UPDATE_FILE_SRC_DEV of
        None \<Rightarrow> Some (st, Ret (- 1))
      | Some mmc \<Rightarrow>
          (case drv_mmc_init (fb_drv env) mmc (fb_mach st) of (w, ret) \<Rightarrow>
             if ret \<noteq> 0 then Some (st\<lparr>fb_mach := w\<rparr>, Ret ret)
             else do {
               let st = st\<lparr>fb_mach := w, fb_if := (fb_if st)\<lparr>nand_block_size := CFG_FASTBOOT_PAGESIZE * 64,
                 transfer_buffer := CFG_FASTBOOT_TRANSFER_BUFFER,
                 transfer_buffer_size := CFG_FASTBOOT_TRANSFER_BUFFER_SIZE\<rparr>\<rparr>;
               flashall \<leftarrow> (if length argv = 2 then arg_is argv 1 ''flashall'' else Some False);
               (w, r) \<leftarrow> (if flashall then booting_dev_init env sd (fb_mach st) else Some (fb_mach st, 0));
               let st = st\<lparr>fb_mach := w\<rparr>;
               if r \<noteq> 0 then Some (st, Ret (- 1))
               else do {
                 (st, r) \<leftarrow> set_partition_table_sdmmc env unset st;
                 if r \<noteq> 0 then Some (st, Ret 1) else sdfuse_rest env sd argv st
               }
             }))"

end
