(* ===== verification/FastbootCorrect.thy ===== *)
theory FastbootCorrect
  imports FastbootLoop Ext4Props
begin

text \<open>
  Facts about the parts of fastboot: numbers of eight hexadecimal digits, the tests of a command in the
  packet buffer, the search of a partition, the invariant of the protocol's state, and what each step of
  the protocol does to it.
\<close>

section \<open>Eight digits\<close>

definition hex8 :: "u32 \<Rightarrow> byte list" where
  "hex8 v = replicate (8 - length (hex v)) 48 @ hex v"

lemma hex8_length [simp]: "length (hex8 v) = 8"
  using hex_length [of v] by (simp add: hex8_def)

lemma hex8_digits: "\<exists>ds. hex8 v = map hex_char ds \<and> (\<forall>d \<in> set ds. d < 16) \<and> length ds = 8 \<and> hex_msb 0 ds = unat v"
proof -
  obtain ds where ds: "hex v = map hex_char ds" "\<forall>d \<in> set ds. d < 16" "hex_msb 0 ds = unat v"
    using hex_digits by blast
  have z: "hex_msb 0 (replicate k 0 @ ds) = hex_msb 0 ds" for k
    by (induction k) simp_all
  have "hex_char 0 = 48" by (simp add: hex_char_def upper_digits_def)
  then have "hex8 v = map hex_char (replicate (8 - length (hex v)) 0 @ ds)" using ds(1) by (simp add: hex8_def)
  moreover have "length (replicate (8 - length (hex v)) 0 @ ds) = 8"
    using hex8_length [of v] ds(1) by (simp add: hex8_def)
  ultimately show ?thesis using ds(2,3) z
    by (intro exI [of _ "replicate (8 - length (hex v)) 0 @ ds"]) auto
qed

lemma hex8_plain: "0 \<notin> set (hex8 v)"
  using hex8_digits [of v] hex_char_class by auto

lemma fmt_08x:
  assumes "p + 3 < length m" and "m ! (p + 1) = 48" and "m ! (p + 2) = 56" and "m ! (p + 3) = 120"
  shows "fmt_item m p (VInt x # as) = Some (hex8 x, p + 4, as)"
proof -
  have f: "fmt_flags m (p + 1) 0 = Some (p + 2, 1)"
    using assms no_flags [of "p + 2" m 1] by (subst fmt_flags.simps) (simp add: flag_of_def)
  have a: "skip_atoi m (p + 2) 0 = Some (8, p + 3)"
    using assms
    by (simp add: skip_atoi.simps [of m "Suc (Suc p)"] skip_atoi.simps [of m "Suc (Suc (Suc p))"] numeral_3_eq_3)
  have n: "number (ucast x) 16 8 (- 1) 33 = hex8 x"
    using hex_length [of x]
    by (auto simp: hex8_def hex_def number_def pad_with_def Let_def)
  show ?thesis
    using assms f a n
    by (simp add: fmt_item_def fmt_width_def fmt_digit_def fmt_precision_def fmt_qualifier_def
        fmt_convert_def fmt_num_def Let_def numeral_3_eq_3)
qed

lemma strtoul_hex8:
  assumes "drop p m = hex8 v @ 0 # rest"
  shows "simple_strtoul m p 16 = Some (v, p + 8)"
proof -
  obtain ds where ds: "hex8 v = map hex_char ds" "\<forall>d \<in> set ds. d < 16" "length ds = 8" "hex_msb 0 ds = unat v"
    using hex8_digits by blast
  obtain d e es where l: "ds = d # e # es" "length es = 6" using ds(3) by (auto simp: length_Suc_conv eval_nat_numeral)
  have m: "drop p m = hex_char d # hex_char e # map hex_char es @ 0 # rest" using assms ds(1) l(1) by simp
  from drop_Cons_nth [OF m] have n: "p < length m" "m ! p = hex_char d" "drop (p + 1) m = hex_char e # map hex_char es @ 0 # rest"
    by (auto intro: ccontr)
  from drop_Cons_nth [OF n(3)] have n1: "p + 1 < length m" "m ! (p + 1) = hex_char e" by (auto intro: ccontr)
  have lt: "d < 16" "e < 16" "\<forall>x \<in> set (e # es). x < 16" using ds(2) l(1) by simp_all
  have z: "hex_char d = 48 \<longleftrightarrow> d = 0" using lt(1)
    by (cases d rule: nat.exhaust; simp add: hex_char_def upper_digits_def nth_Cons split: nat.splits)
  have x: "hex_char e \<noteq> 120" using hex_char_class [OF lt(2)] by simp
  have all: "digit_loop m p 16 (of_nat 0 :: u32) = Some (of_nat (hex_msb 0 ds), p + length ds)"
    by (rule digit_loop_hex [of _ _ _ rest]) (use ds assms in simp_all)
  have rest: "digit_loop m (p + 1) 16 (of_nat 0 :: u32) = Some (of_nat (hex_msb 0 (e # es)), p + 1 + length (e # es))"
    by (rule digit_loop_hex [of _ _ _ rest]) (use lt n(3) in simp_all)
  show ?thesis
  proof (cases "d = 0")
    case True
    then show ?thesis using rest n n1 x z ds(4) l by (simp add: simple_strtoul_def number_prefix_def)
  next
    case False
    then show ?thesis using all n z ds(3,4) by (simp add: simple_strtoul_def number_prefix_def)
  qed
qed

section \<open>The packet buffer\<close>

lemma lit_at_take: "p + length l \<le> length m \<Longrightarrow> lit_at l m p = Some (take (length l) (drop p m) = l)"
proof (induction l arbitrary: p)
  case (Cons c cs)
  then have "drop p m = m ! p # drop (p + 1) m" by (simp add: Cons_nth_drop_Suc)
  then show ?case using Cons by (simp add: rd_def)
qed simp

text \<open>The buffer after a packet, and the part of the state that the protocol keeps in order.\<close>

definition fifo_words :: "'c fb_env \<Rightarrow> byte list \<Rightarrow> byte list" where
  "fifo_words env packet = packet @ map (fb_residue env packet) [0..<(4 - length packet mod 4) mod 4]"

definition fifo_filled :: "'c fb_env \<Rightarrow> mem \<Rightarrow> byte list \<Rightarrow> mem" where
  "fifo_filled env f packet = fifo_words env packet @ drop (length (fifo_words env packet)) f"

definition fifo_after :: "'c fb_env \<Rightarrow> mem \<Rightarrow> byte list \<Rightarrow> mem" where
  "fifo_after env f packet =
     (let f = fifo_filled env f packet in if length packet < 64 then f[length packet := 0] else f)"

definition fifo_tail :: "'c fb_env \<Rightarrow> mem \<Rightarrow> byte list \<Rightarrow> mem" where
  "fifo_tail env f packet = drop (Suc (length packet)) (fifo_filled env f packet)"

definition fifo_ok :: "mem \<Rightarrow> bool" where
  "fifo_ok f \<longleftrightarrow> length f = 513 \<and> f ! 512 = 0"

lemma fifo_words_length: "length packet \<le> 512 \<Longrightarrow> length packet \<le> length (fifo_words env packet) \<and> length (fifo_words env packet) \<le> 512"
proof -
  assume l: "length packet \<le> 512"
  have q: "length packet = 4 * (length packet div 4) + length packet mod 4" by simp
  have "length packet mod 4 < 4" by simp
  then consider "length packet mod 4 = 0" | "length packet mod 4 = 1" | "length packet mod 4 = 2" | "length packet mod 4 = 3"
    by linarith
  then have "length packet + (4 - length packet mod 4) mod 4 \<le> 512"
  proof cases
    case 1
    then show ?thesis using l by simp
  next
    case 2
    then have "length packet div 4 < 128" using l q by linarith
    then show ?thesis using 2 q by simp
  next
    case 3
    then have "length packet div 4 < 128" using l q by linarith
    then show ?thesis using 3 q by simp
  next
    case 4
    then have "length packet div 4 < 128" using l q by linarith
    then show ?thesis using 4 q by simp
  qed
  then show ?thesis by (simp add: fifo_words_def)
qed

lemma fifo_filled_ok: "fifo_ok f \<Longrightarrow> length packet \<le> 512 \<Longrightarrow> fifo_ok (fifo_filled env f packet)"
  using fifo_words_length [of packet env] by (simp add: fifo_ok_def fifo_filled_def nth_append)

lemma fifo_after_ok: "fifo_ok f \<Longrightarrow> length packet \<le> 512 \<Longrightarrow> fifo_ok (fifo_after env f packet)"
  using fifo_filled_ok [of f packet env] by (simp add: fifo_ok_def fifo_after_def nth_list_update Let_def)

lemma fifo_filled_take: "take (length packet) (fifo_filled env f packet) = packet"
  by (simp add: fifo_filled_def fifo_words_def)

lemma fifo_after_take: "length packet \<le> 512 \<Longrightarrow> take (length packet) (fifo_after env f packet) = packet"
  by (simp add: fifo_after_def fifo_filled_take Let_def)

lemma bulkout_is:
  assumes "fifo_ok (bulk_fifo st)" and "length packet \<le> 512"
  shows "fboot_usb_int_bulkout env packet st =
    rx_handler env (fifo_after env (bulk_fifo st) packet) (length packet) (st\<lparr>bulk_fifo := fifo_after env (bulk_fifo st) packet\<rparr>)"
proof -
  have "fboot_usb_read_out_fifo env packet (bulk_fifo st) = Some (fifo_filled env (bulk_fifo st) packet)"
    using assms fifo_words_length [OF assms(2), of env]
    by (simp add: fboot_usb_read_out_fifo_def fifo_filled_def fifo_ok_def flip: fifo_words_def)
  moreover have "length (fifo_filled env (bulk_fifo st) packet) = 513" using fifo_filled_ok [OF assms, of env] by (simp add: fifo_ok_def)
  ultimately show ?thesis by (simp add: fboot_usb_int_bulkout_def fifo_after_def Let_def)
qed

lemma fifo_lit:
  assumes "fifo_ok f" and "p + length l \<le> 513"
  shows "lit_at l f p = Some (take (length l) (drop p f) = l)"
  using assms by (simp add: lit_at_take fifo_ok_def)

definition fb_inv :: "'c fastboot \<Rightarrow> bool" where
  "fb_inv st \<longleftrightarrow> fifo_ok (bulk_fifo st) \<and>
     unat (transfer_buffer (fb_if st)) + unat (transfer_buffer_size (fb_if st)) < 2 ^ 32 \<and>
     download_bytes st \<le> transfer_buffer_size (fb_if st) \<and>
     (download_size st \<noteq> 0 \<longrightarrow> download_bytes st < download_size st \<and> download_size st \<le> transfer_buffer_size (fb_if st))"

lemma ram_put_app:
  assumes "length xs + length ys \<le> 2 ^ 32"
  shows "ram_put (ram_put r a xs) (a + of_nat (length xs)) ys = ram_put r a (xs @ ys)"
proof
  fix x
  let ?k = "unat (x - a)"
  have k: "?k < 2 ^ 32" using unat_less [of "x - a"] by simp
  have d: "x - (a + of_nat (length xs)) = (x - a) - of_nat (length xs)" by simp
  show "ram_put (ram_put r a xs) (a + of_nat (length xs)) ys x = ram_put r a (xs @ ys) x"
  proof (cases "length xs < 2 ^ 32")
    case True
    then have l: "unat (of_nat (length xs) :: u32) = length xs" by (rule unat_of_small)
    have "unat ((x - a) - of_nat (length xs)) = (if length xs \<le> ?k then ?k - length xs else ?k + 2 ^ 32 - length xs)"
      using l k by (simp add: unat_minus)
    then show ?thesis using assms k unfolding ram_put_def d by (auto simp: nth_append)
  next
    case False
    then have "length ys = 0" using assms by linarith
    then show ?thesis by (simp add: ram_put_def)
  qed
qed

lemma ram_put_else: "ram_put r a xs x \<noteq> r x \<Longrightarrow> unat (x - a) < length xs"
  by (simp add: ram_put_def split: if_splits)

lemma ram_bytes_ram_put:
  assumes "k + n \<le> length xs" and "length xs < 2 ^ 32"
  shows "ram_bytes (ram_put r a xs) (a + of_nat k) n = take n (drop k xs)"
proof (rule nth_equalityI)
  show "length (ram_bytes (ram_put r a xs) (a + of_nat k) n) = length (take n (drop k xs))"
    using assms(1) by (simp add: ram_bytes_def)
next
  fix i assume "i < length (ram_bytes (ram_put r a xs) (a + of_nat k) n)"
  then have i: "i < n" by (simp add: ram_bytes_def)
  have "a + of_nat k + of_nat i - a = (of_nat (k + i) :: u32)" by simp
  moreover have "unat (of_nat (k + i) :: u32) = k + i" using i assms by (intro unat_of_small) simp
  ultimately show "ram_bytes (ram_put r a xs) (a + of_nat k) n ! i = take n (drop k xs) ! i"
    using i assms(1) by (simp add: ram_bytes_def ram_put_def del: of_nat_add)
qed

section \<open>Receiving data\<close>

text \<open>Polls that all find something and end well.\<close>

primrec polls :: "'c fb_env \<Rightarrow> usb_event list \<Rightarrow> 'c fastboot \<Rightarrow> 'c fastboot option" where
  "polls env [] st = Some st"
| "polls env (ev # evs) st = do {
     (st, r) \<leftarrow> fastboot_poll env ev st;
     if r = Ret FASTBOOT_OK then polls env evs st else None
   }"

lemma polls_append: "polls env (xs @ ys) st = do { st \<leftarrow> polls env xs st; polls env ys st }"
  by (induction xs arbitrary: st) (auto split: bind_split)

text \<open>The state after \<open>bytes\<close> have come behind the first \<open>download_bytes\<close> bytes.\<close>

definition got :: "byte list \<Rightarrow> mem \<Rightarrow> 'c fastboot \<Rightarrow> 'c fastboot" where
  "got bytes f st = (set_ram (ram_put (fb_ram st) (fb_buf st + download_bytes st) bytes) (st\<lparr>bulk_fifo := f\<rparr>))
     \<lparr>download_bytes := download_bytes st + of_nat (length bytes)\<rparr>"

lemma got_simps [simp]:
  "download_size (got bytes f st) = download_size st" "fb_if (got bytes f st) = fb_if st"
  "download_bytes (got bytes f st) = download_bytes st + of_nat (length bytes)" "bulk_fifo (got bytes f st) = f"
  "download_error (got bytes f st) = download_error st" "sent (got bytes f st) = sent st"
  by (simp_all add: got_def set_ram_def)

lemma got_ram [simp]: "fb_ram (got bytes f st) = ram_put (fb_ram st) (fb_buf st + download_bytes st) bytes"
  "fb_buf (got bytes f st) = fb_buf st"
  by (simp_all add: got_def fb_ram_def fb_buf_def set_ram_def)

lemma got_got:
  assumes "length xs + length ys \<le> 2 ^ 32"
  shows "got ys g (got xs f st) = got (xs @ ys) g st"
  using ram_put_app [OF assms, of "fb_ram st" "fb_buf st + download_bytes st"]
  by (cases st) (simp add: got_def set_ram_def fb_ram_def fb_buf_def add.assoc)

lemma data_packet:
  assumes "fb_inv st" and "download_size st \<noteq> 0" and "d \<noteq> []" and "length d \<le> 512"
    and "k = min (unat (download_size st) - unat (download_bytes st)) (length d)"
    and "f = fifo_after env (bulk_fifo st) d"
  shows "fboot_usb_int_bulkout env d st =
    (if unat (download_size st) \<le> unat (download_bytes st) + length d
     then answer (txt_bytes (if download_error st \<noteq> 0 then ''ERROR'' else ''OKAY'')) 0 ((got (take k d) f st)\<lparr>download_size := 0\<rparr>)
     else Some (got d f st, Ret 0))"
proof -
  have b: "download_bytes st < download_size st" using assms(1,2) by (simp add: fb_inv_def)
  then have u: "unat (download_size st - download_bytes st) = unat (download_size st) - unat (download_bytes st)"
    by (simp add: unat_minus word_less_nat_alt)
  have t: "rdn f 0 k = Some (take k d)"
    using fifo_after_take [OF assms(4), of env "bulk_fifo st"] fifo_after_ok [of "bulk_fifo st" d env] assms(1,4,5)
    unfolding assms(6) by (auto simp: fb_inv_def fifo_ok_def) (metis min.absorb_iff1 min.cobounded2 take_take)
  have len: "length (take k d) = k" using assms(5) by simp
  have k: "unat (download_bytes st + of_nat k) = unat (download_bytes st) + k"
  proof -
    have "unat (download_bytes st) + k < 2 ^ 32"
      using b assms(5) unat_less [of "download_size st"] by (simp add: word_less_nat_alt)
    then show ?thesis by (simp add: unat_word_ariths(1) unat_of_small)
  qed
  have e: "download_size st \<le> download_bytes st + of_nat k \<longleftrightarrow> unat (download_size st) \<le> unat (download_bytes st) + length d"
    unfolding word_le_nat_alt k using b assms(5) by (auto simp: word_less_nat_alt)
  have d: "take k d = d" "k = length d" if "\<not> unat (download_size st) \<le> unat (download_bytes st) + length d"
    using that assms(5) by auto
  have r: "rx_handler env f (length d) (st\<lparr>bulk_fifo := f\<rparr>) =
    (if unat (download_size st) \<le> unat (download_bytes st) + length d
     then answer (txt_bytes (if download_error st \<noteq> 0 then ''ERROR'' else ''OKAY'')) 0 ((got (take k d) f st)\<lparr>download_size := 0\<rparr>)
     else Some (got d f st, Ret 0))"
    using assms(2,3) t e d len fifo_after_take [OF assms(4), of env "bulk_fifo st", folded assms(6)]
    by (simp add: rx_handler_def rx_data_def u assms(5) [symmetric] got_def set_ram_def fb_ram_def fb_buf_def)
  show ?thesis using bulkout_is [OF _ assms(4), of st env] assms(1) r unfolding assms(6) [symmetric] by (simp add: fb_inv_def)
qed

lemma got_inv:
  assumes "fb_inv st" and "download_size st \<noteq> 0" and "length d \<le> 512"
    and "unat (download_bytes st) + length d < unat (download_size st)"
  shows "fb_inv (got d (fifo_after env (bulk_fifo st) d) st)"
proof -
  have "unat (download_bytes st) + length d < 2 ^ 32" using assms(4) unat_less [of "download_size st"] by simp
  then have "unat (download_bytes st + of_nat (length d)) = unat (download_bytes st) + length d"
    by (simp add: unat_word_ariths(1) unat_of_small)
  then show ?thesis using assms fifo_after_ok [OF _ assms(3), of "bulk_fifo st" env]
    by (auto simp: fb_inv_def word_less_nat_alt word_le_nat_alt)
qed

lemma data_packets:
  assumes "fb_inv st" and "download_size st \<noteq> 0" and "\<forall>d \<in> set ds. d \<noteq> [] \<and> length d \<le> 512"
    and "unat (download_bytes st) + length (concat ds) < unat (download_size st)"
  shows "polls env (map Packet ds) st = Some (got (concat ds) (foldl (fifo_after env) (bulk_fifo st) ds) st) \<and>
    fb_inv (got (concat ds) (foldl (fifo_after env) (bulk_fifo st) ds) st)"
  using assms
proof (induction ds arbitrary: st)
  case Nil
  have "ram_put r a [] = r" for r a by (simp add: ram_put_def)
  then show ?case using Nil by (simp add: got_def set_ram_def fb_ram_def)
next
  case (Cons d ds)
  let ?st = "got d (fifo_after env (bulk_fifo st) d) st"
  have d: "d \<noteq> []" "length d \<le> 512" "unat (download_bytes st) + length d < unat (download_size st)" using Cons.prems by auto
  have p: "polls env (map Packet (d # ds)) st = polls env (map Packet ds) ?st"
    using data_packet [OF Cons.prems(1,2) d(1,2) refl refl, of env] d(3) by (simp add: fastboot_poll_def)
  have inv: "fb_inv ?st" by (rule got_inv [OF Cons.prems(1,2) d(2,3)])
  have "unat (download_bytes st) + length d < 2 ^ 32" using d(3) unat_less [of "download_size st"] by simp
  then have "unat (download_bytes ?st) = unat (download_bytes st) + length d"
    by (simp add: unat_word_ariths(1) unat_of_small)
  then have "unat (download_bytes ?st) + length (concat ds) < unat (download_size ?st)" using Cons.prems(4) by simp
  from Cons.IH [OF inv _ _ this] have
    "polls env (map Packet ds) ?st = Some (got (concat ds) (foldl (fifo_after env) (bulk_fifo ?st) ds) ?st)"
    "fb_inv (got (concat ds) (foldl (fifo_after env) (bulk_fifo ?st) ds) ?st)" using Cons.prems(2,3) by simp_all
  moreover have l: "length d + length (concat ds) \<le> 2 ^ 32"
    using Cons.prems(4) unat_less [of "download_size st"] by simp
  ultimately show ?case unfolding p got_got [OF l] by simp
qed

section \<open>Commands\<close>

lemma rx_command_cases:
  assumes "13 \<le> length m"
  shows "rx_command env m st =
    (if take 6 m = txt_bytes ''reboot'' then rx_reboot m st
     else if take 7 m = txt_bytes ''getvar:'' then rx_getvar m st
     else if take 6 m = txt_bytes ''erase:'' then rx_erase env m st
     else if take 9 m = txt_bytes ''download:'' then rx_download m st
     else if take 4 m = txt_bytes ''boot'' then rx_boot env st
     else if take 6 m = txt_bytes ''flash:'' then rx_flash env m st
     else if take 3 m = txt_bytes ''oem'' then rx_oem st
     else answer (txt_bytes ''FAIL'') 1 st)"
proof -
  have l: "lit_at l m 0 = Some (take (length l) m = l)" if "length l \<le> 13" for l
    using lit_at_take [of 0 l m] that assms by simp
  have n: "length (txt_bytes s) = length s" for s by (simp add: txt_bytes_def)
  have "lit_at (txt_bytes ''reboot'') m 0 = Some (take 6 m = txt_bytes ''reboot'')"
    "lit_at (txt_bytes ''getvar:'') m 0 = Some (take 7 m = txt_bytes ''getvar:'')"
    "lit_at (txt_bytes ''erase:'') m 0 = Some (take 6 m = txt_bytes ''erase:'')"
    "lit_at (txt_bytes ''download:'') m 0 = Some (take 9 m = txt_bytes ''download:'')"
    "lit_at (txt_bytes ''boot'') m 0 = Some (take 4 m = txt_bytes ''boot'')"
    "lit_at (txt_bytes ''flash:'') m 0 = Some (take 6 m = txt_bytes ''flash:'')"
    "lit_at (txt_bytes ''oem'') m 0 = Some (take 3 m = txt_bytes ''oem'')"
    by (subst l; simp add: n numeral_eq_Suc)+
  then show ?thesis unfolding rx_command_def by (simp only: Option.bind.bind_lunit)
qed

lemma fifo_short:
  assumes "length packet < 64" "fifo_ok f"
  shows "fifo_after env f packet = packet @ 0 # fifo_tail env f packet"
proof -
  let ?g = "fifo_filled env f packet"
  have "length ?g = 513" using fifo_filled_ok [OF assms(2), of packet env] assms(1) by (simp add: fifo_ok_def)
  then have "?g[length packet := 0] = take (length packet) ?g @ 0 # drop (Suc (length packet)) ?g"
    using assms(1) by (simp add: upd_conv_take_nth_drop)
  then show ?thesis using assms(1) by (simp add: fifo_after_def fifo_tail_def fifo_filled_take Let_def)
qed

text \<open>A command as the host sends it, when no data is due.\<close>

lemma command_packet:
  assumes "fifo_ok (bulk_fifo st)" and "download_size st = 0" and "length packet < 64"
  shows "fboot_usb_int_bulkout env packet st =
    rx_command env (packet @ 0 # fifo_tail env (bulk_fifo st) packet)
      (st\<lparr>bulk_fifo := fifo_after env (bulk_fifo st) packet\<rparr>)"
  using bulkout_is [OF assms(1), of packet env] assms fifo_short [OF assms(3,1), of env] by (simp add: rx_handler_def)

lemma vs_08x:
  "p + 3 < length m \<Longrightarrow> m ! p = 37 \<Longrightarrow> m ! (p + 1) = 48 \<Longrightarrow> m ! (p + 2) = 56 \<Longrightarrow> m ! (p + 3) = 120 \<Longrightarrow>
   vsprintf m p (VInt x # as) = map_option (\<lambda>rest. hex8 x @ rest) (vsprintf m (p + 4) as)"
  by (intro vs_item fmt_08x) simp_all

lemma data_text:
  "sprintf (txt_bytes ''DATA%08x'') [VInt n] = Some (txt_bytes ''DATA'' @ hex8 n, 12)"
  "sprintf (txt_bytes ''%08x'') [VInt n] = Some (hex8 n, 8)"
  by (simp_all add: sprintf_def txt_bytes_def vs_char vs_08x vs_end)

lemma hex_arg_is: "hex_arg x = Some (hex_word x)"
proof -
  have "sprintf (txt_bytes ''0x%x'') [VInt x] = Some (hex_word x, length (hex_word x))"
    by (simp add: sprintf_def txt_bytes_def vs_char vs_x vs_end hex_word_def)
  then show ?thesis by (simp add: hex_arg_def)
qed

lemma fb_dl: "st\<lparr>download_size := n, download_bytes := b, download_error := e\<rparr> =
    st\<lparr>download_bytes := b, download_error := e, download_size := n\<rparr>"
  by (cases st) simp

lemma download_command:
  assumes "fifo_ok (bulk_fifo st)" and "download_size st = 0"
  shows "fboot_usb_int_bulkout env (txt_bytes ''download:'' @ hex8 n) st =
    (let st = st\<lparr>bulk_fifo := fifo_after env (bulk_fifo st) (txt_bytes ''download:'' @ hex8 n),
         download_bytes := 0, download_error := 0, download_size := (if n \<le> transfer_buffer_size (fb_if st) then n else 0)\<rparr>
     in answer (if n = 0 then txt_bytes ''FAILdata invalid size''
          else if transfer_buffer_size (fb_if st) < n then txt_bytes ''FAILdata too large''
          else txt_bytes ''DATA'' @ hex8 n) 0 st)"
proof -
  let ?p = "txt_bytes ''download:'' @ hex8 n"
  let ?m = "?p @ 0 # fifo_tail env (bulk_fifo st) ?p"
  have n: "simple_strtoul ?m 9 16 = Some (n, 17)"
    using strtoul_hex8 [of 9 ?m n "fifo_tail env (bulk_fifo st) ?p"] by (simp add: txt_bytes_def)
  have l: "length ?p < 64" by (simp add: txt_bytes_def)
  have c: "rx_command env ?m s = rx_download ?m s" for s
    using assms(1) by (subst rx_command_cases) (simp_all add: txt_bytes_def fifo_ok_def)
  show ?thesis
    unfolding command_packet [OF assms l] c rx_download_def n
    by (cases "n \<le> transfer_buffer_size (fb_if st)") (auto simp: data_text Let_def not_le fb_dl)
qed

end
