(* ===== verification/FastbootFlash.thy ===== *)
theory FastbootFlash
  imports FastbootCorrect EnvCorrect
begin

text \<open>
  What flashing does: the lines and words that the storing functions build, and where the image
  goes on a card that obeys.
\<close>

section \<open>Finding a partition\<close>

lemma find_ptn_is:
  assumes "0 \<notin> set name" and "\<forall>p \<in> set ps. 0 \<notin> set (pt_name p)"
  shows "find_ptn ps name = Some (find (\<lambda>p. pt_name p = name) ps)"
  using assms(2)
proof (induction ps)
  case (Cons p ps)
  have "0 \<notin> set (pt_name p)" using Cons.prems by simp
  from str_cmp_eq [OF this assms(1)] obtain r where "str_cmp (pt_name p) name = Some r" "r = 0 \<longleftrightarrow> pt_name p = name" by blast
  then show ?case using Cons by auto
qed simp

definition names_ok :: "'c fastboot \<Rightarrow> bool" where
  "names_ok st \<longleftrightarrow> (\<forall>p \<in> set (take (pcount st) (ptable st)). 0 \<notin> set (pt_name p))"

definition ptn_of :: "'c fastboot \<Rightarrow> byte list \<Rightarrow> ptentry option" where
  "ptn_of st name = find (\<lambda>p. pt_name p = name) (take (pcount st) (ptable st))"

lemma find_ptn_of: "names_ok st \<Longrightarrow> 0 \<notin> set name \<Longrightarrow> fastboot_flash_find_ptn st name = Some (ptn_of st name)"
  by (simp add: fastboot_flash_find_ptn_def ptn_of_def names_ok_def find_ptn_is)

section \<open>The command\<close>

lemma str_at_has: "has_str m p s \<Longrightarrow> str_at m p = Some s"
  by (simp add: str_at_def str_end_has has_str_def)

lemma lit_at_str:
  assumes "0 \<notin> set l" and "0 \<notin> set name"
  shows "lit_at (l @ [0]) (pre @ name @ 0 # rest) (length pre) = Some (name = l)"
  using assms
proof (induction l arbitrary: pre name)
  case Nil
  then show ?case by (cases name) (simp_all add: rd_def nth_append)
next
  case (Cons c cs)
  show ?case
  proof (cases name)
    case Nil
    then show ?thesis using Cons.prems by (simp add: rd_def nth_append)
  next
    case (Cons d ds)
    then show ?thesis using Cons.IH [of ds "pre @ [c]"] Cons.prems by (simp add: rd_def nth_append)
  qed
qed

text \<open>A command with a name behind the colon.\<close>

lemma name_command:
  assumes "fifo_ok f" and "length (cmd @ name) < 64" and "0 \<notin> set name"
  shows "str_at (fifo_after env f (cmd @ name)) (length cmd) = Some name"
    and "0 \<notin> set l \<Longrightarrow> lit_at (l @ [0]) (fifo_after env f (cmd @ name)) (length cmd) = Some (name = l)"
proof -
  let ?rest = "fifo_tail env f (cmd @ name)"
  have f: "fifo_after env f (cmd @ name) = cmd @ name @ 0 # ?rest" using fifo_short [OF assms(2,1), of env] by simp
  show "str_at (fifo_after env f (cmd @ name)) (length cmd) = Some name"
    using has_str_at [OF f assms(3)] by (rule str_at_has)
  show "0 \<notin> set l \<Longrightarrow> lit_at (l @ [0]) (fifo_after env f (cmd @ name)) (length cmd) = Some (name = l)"
    unfolding f by (rule lit_at_str) (use assms(3) in simp_all)
qed

lemma command_is:
  assumes "fifo_ok (bulk_fifo st)" and "download_size st = 0" and "length (cmd @ name) < 64"
  shows "fboot_usb_int_bulkout env (cmd @ name) st =
    rx_command env (fifo_after env (bulk_fifo st) (cmd @ name)) (st\<lparr>bulk_fifo := fifo_after env (bulk_fifo st) (cmd @ name)\<rparr>)"
  using command_packet [OF assms, of env] fifo_short [OF assms(3,1), of env] by simp

lemma flash_command:
  assumes "fifo_ok (bulk_fifo st)" and "download_size st = 0" and "length name < 58" and "0 \<notin> set name" and "names_ok st"
    and "download_bytes st \<noteq> 0" and "name \<noteq> txt_bytes ''boot''" and "ptn_of st name = Some p"
    and "pt_length p = 0 \<or> download_bytes st \<le> pt_length p" and "\<not> has_flag p FASTBOOT_PTENTRY_FLAGS_WRITE_ENV"
  shows "fboot_usb_int_bulkout env (txt_bytes ''flash:'' @ name) st =
    rx_flash_ptn env p (st\<lparr>bulk_fifo := fifo_after env (bulk_fifo st) (txt_bytes ''flash:'' @ name)\<rparr>)"
proof -
  let ?f = "fifo_after env (bulk_fifo st) (txt_bytes ''flash:'' @ name)"
  let ?st = "st\<lparr>bulk_fifo := ?f\<rparr>"
  have l: "length (txt_bytes ''flash:'' @ name) < 64" "length (txt_bytes ''flash:'') = 6" using assms(3) by (simp_all add: txt_bytes_def)
  have f: "?f = txt_bytes ''flash:'' @ name @ 0 # fifo_tail env (bulk_fifo st) (txt_bytes ''flash:'' @ name)"
    using fifo_short [OF l(1) assms(1), of env] by simp
  note n = name_command [OF assms(1) l(1) assms(4), unfolded l(2)]
  have b: "lit_at (txt_bytes ''boot'' @ [0]) ?f 6 = Some False" using n(2) [of "txt_bytes ''boot''"] assms(7) by (simp add: txt_bytes_def)
  have p: "fastboot_flash_find_ptn ?st name = Some (Some p)"
    using find_ptn_of [OF assms(5,4)] assms(8) by (simp add: fastboot_flash_find_ptn_def)
  have len: "13 \<le> length ?f"
    using fifo_after_ok [OF assms(1), of "txt_bytes ''flash:'' @ name" env] l(1) by (simp add: fifo_ok_def)
  have "take 6 ?f = txt_bytes ''flash:''" "take 7 ?f \<noteq> txt_bytes ''getvar:''" "take 9 ?f \<noteq> txt_bytes ''download:''"
    "take 4 ?f \<noteq> txt_bytes ''boot''" unfolding f by (simp_all add: txt_bytes_def)
  then have "rx_command env ?f ?st = rx_flash env ?f ?st"
    unfolding rx_command_cases [OF len] by (simp add: txt_bytes_def)
  also have "\<dots> = rx_flash_ptn env p ?st"
    using b n(1) [of env] p assms(6,9,10) by (auto simp: rx_flash_def not_less)
  finally show ?thesis using command_is [OF assms(1,2) l(1), of env] by simp
qed

section \<open>A partition of the card\<close>

lemma mmc_words_parse:
  "arg_num [[], txt_bytes ''write'', txt_bytes ''mmc 1'', hex_word a, hex_word s, hex_word n] 2 10 = Some 0"
  "arg_num [[], txt_bytes ''write'', txt_bytes ''mmc 1'', hex_word a, hex_word s, hex_word n] 3 16 = Some a"
  "arg_num [[], txt_bytes ''write'', txt_bytes ''mmc 1'', hex_word a, hex_word s, hex_word n] 4 16 = Some s"
  "arg_num [[], txt_bytes ''write'', txt_bytes ''mmc 1'', hex_word a, hex_word s, hex_word n] 5 16 = Some n"
proof -
  have "simple_strtoul (txt_bytes ''mmc 1'' @ [0]) 0 10 = Some (0 :: u32, 0)" by code_simp
  then show "arg_num [[], txt_bytes ''write'', txt_bytes ''mmc 1'', hex_word a, hex_word s, hex_word n] 2 10 = Some 0"
    "arg_num [[], txt_bytes ''write'', txt_bytes ''mmc 1'', hex_word a, hex_word s, hex_word n] 3 16 = Some a"
    "arg_num [[], txt_bytes ''write'', txt_bytes ''mmc 1'', hex_word a, hex_word s, hex_word n] 4 16 = Some s"
    "arg_num [[], txt_bytes ''write'', txt_bytes ''mmc 1'', hex_word a, hex_word s, hex_word n] 5 16 = Some n"
    using parse_hex [of a 16] parse_hex [of s 16] parse_hex [of n 16] by (simp_all add: arg_num_def hex_word_def)
qed

lemma do_mmcops_six:
  "do_mmcops drv w [[], txt_bytes ''write'', d, a, s, n] = mmc_cmd_write drv w [[], txt_bytes ''write'', d, a, s, n]"
  by (simp add: do_mmcops_def arg_is_eq txt_bytes_def)

lemma device_text: "sprintf (txt_bytes ''mmc %d'') [VInt 1] = Some (txt_bytes ''mmc 1'', 5)"
proof -
  have "number (scast (1 :: u32)) 10 (- 1) (- 1) 2 = [49]"
    by (simp add: number_def put_dec.simps [of "Suc 0"] put_dec_trunc_def digit_char_def pad_with_def Let_def)
  then show ?thesis by (simp add: sprintf_def txt_bytes_def vs_char vs_d vs_end)
qed

text \<open>An image that is not a compressed one: the first word is another one.\<close>

definition raw_image :: "(u32 \<Rightarrow> byte) \<Rightarrow> u32 \<Rightarrow> bool" where
  "raw_image r a \<longleftrightarrow> get_le32 (ram_bytes r a 4) \<noteq> EXT4_FILE_HEADER_MAGIC"

lemma check_raw:
  assumes "raw_image (fb_ram st) a" and "4 \<le> unat (fb_buf st + transfer_buffer_size (fb_if st) - a)"
  shows "check_compress_ext4 (buffer_from st a) 0 len = Some (Result (- 1))"
proof -
  have "take 4 (buffer_from st a) = ram_bytes (fb_ram st) a 4"
    using assms(2) by (simp add: buffer_from_def ram_bytes_def take_map)
  moreover have "4 \<le> length (buffer_from st a)" using assms(2) by (simp add: buffer_from_def ram_bytes_def)
  ultimately have "fh_magic (buffer_from st a) 0 = Some (get_le32 (ram_bytes (fb_ram st) a 4))"
    by (simp add: fh_magic_def field32_def)
  then show ?thesis using assms(1) by (simp add: check_compress_ext4_def raw_image_def)
qed

lemma write_mmc_raw:
  assumes "raw_image (fb_ram st) a" and "4 \<le> unat (fb_buf st + transfer_buffer_size (fb_if st) - a)"
  shows "write_mmc_ptn env p a st = map_option (\<lambda>(w, ret). (st\<lparr>fb_mach := w\<rparr>, Ret ret))
    (mmc_cmd_write (fb_drv env) (fb_mach st) [[], txt_bytes ''write'', txt_bytes ''mmc 1'', hex_word a,
      hex_word (pt_start p div 512), hex_word (pt_length p div 512)])"
  by (simp add: write_mmc_ptn_def device_text hex_arg_is check_raw [OF assms] do_mmcops_six CFG_FASTBOOT_SDMMC_BLOCKSIZE_def)
    (simp split: bind_split option.splits)

lemma rx_flash_card:
  assumes "card_boot env" and "\<not> has_flag p FASTBOOT_PTENTRY_FLAGS_WRITE_ENV"
    and "pt_length p = 0 \<or> download_bytes st \<le> pt_length p"
    and "(if has_flag p FASTBOOT_PTENTRY_FLAGS_USE_MMC_CMD then write_mmc_ptn env p (fb_buf st) st
      else write_movi_ptn env p (fb_buf st) (download_bytes st) st) = Some (st', Ret 0)"
    and "has_flag p FASTBOOT_PTENTRY_FLAGS_USE_MMC_CMD \<or> has_flag p FASTBOOT_PTENTRY_FLAGS_USE_MOVI_CMD"
  shows "rx_flash_ptn env p st = answer (txt_bytes ''OKAY'') 0 st'"
  using assms by (auto simp: rx_flash_ptn_def write_to_ptn_sdmmc_def not_less split: if_splits)

section \<open>Objects that are the start of larger ones\<close>

lemma rdn_app: "rdn m p n = Some xs \<Longrightarrow> rdn (m @ r) p n = Some xs"
  by auto

lemma field_app: "field32 m p = Some x \<Longrightarrow> field32 (m @ r) p = Some x" "field16 m p = Some y \<Longrightarrow> field16 (m @ r) p = Some y"
  by (auto simp: field32_def field16_def)

lemma header_app:
  "fh_magic m p = Some a \<Longrightarrow> fh_magic (m @ r) p = Some a" "fh_major m p = Some b \<Longrightarrow> fh_major (m @ r) p = Some b"
  "fh_file_header_size m p = Some b \<Longrightarrow> fh_file_header_size (m @ r) p = Some b"
  "fh_chunk_header_size m p = Some b \<Longrightarrow> fh_chunk_header_size (m @ r) p = Some b"
  "fh_block_size m p = Some a \<Longrightarrow> fh_block_size (m @ r) p = Some a"
  "fh_total_blocks m p = Some a \<Longrightarrow> fh_total_blocks (m @ r) p = Some a"
  "fh_total_chunks m p = Some a \<Longrightarrow> fh_total_chunks (m @ r) p = Some a"
  "ch_type m p = Some b \<Longrightarrow> ch_type (m @ r) p = Some b" "ch_chunk_size m p = Some a \<Longrightarrow> ch_chunk_size (m @ r) p = Some a"
  "ch_total_size m p = Some a \<Longrightarrow> ch_total_size (m @ r) p = Some a"
  by (simp_all add: fh_magic_def fh_major_def fh_file_header_size_def fh_chunk_header_size_def fh_block_size_def
      fh_total_blocks_def fh_total_chunks_def ch_type_def ch_chunk_size_def ch_total_size_def field_app)

text \<open>A computation that gives a result also gives it when its reads succeed more often.\<close>

lemma bind_ext: "Option.bind f g = Some c \<Longrightarrow> (\<And>x. f = Some x \<Longrightarrow> f' = Some x) \<Longrightarrow> (\<And>x. g x = Some c \<Longrightarrow> g' x = Some c) \<Longrightarrow>
    Option.bind f' g' = Some c"
  by (cases f) auto

lemma if_ext: "(if b then t else e) = Some c \<Longrightarrow> (t = Some c \<Longrightarrow> t' = Some c) \<Longrightarrow> (e = Some c \<Longrightarrow> e' = Some c) \<Longrightarrow>
    (if b then t' else e') = Some c"
  by auto

lemma check_app: "check_compress_ext4 m p n = Some c \<Longrightarrow> check_compress_ext4 (m @ r) p n = Some c"
  unfolding check_compress_ext4_def
  by (erule bind_ext, erule header_app, (erule if_ext, assumption)?)+ assumption

lemma write_chunks_app:
  "write_chunks n run dev base bs m p s w = Some res \<Longrightarrow> write_chunks n run dev base bs (m @ r) p s w = Some res"
proof (induction n arbitrary: p s w)
  case (Suc n)
  show ?case
    using Suc.prems unfolding write_chunks.simps Let_def
    apply -
    apply (erule bind_ext, erule header_app)+
    apply (erule if_ext)
     apply (erule bind_ext, assumption)
     apply (clarsimp split: if_splits)
     apply (erule bind_ext, erule header_app, erule Suc.IH)
    apply (erule bind_ext, erule header_app, erule Suc.IH)
    done
qed simp

lemma write_compressed_app:
  "write_compressed_ext4 run dev base m p s w = Some res \<Longrightarrow> write_compressed_ext4 run dev base (m @ r) p s w = Some res"
  unfolding write_compressed_ext4_def
  by (erule bind_ext, erule header_app, erule if_ext, assumption, erule bind_ext, erule header_app, erule write_chunks_app)

lemma buffer_from_put:
  assumes "fb_ram st = ram_put ram (fb_buf st) bytes" and "length bytes \<le> unat (transfer_buffer_size (fb_if st))"
  shows "\<exists>r. buffer_from st (fb_buf st) = bytes @ r"
proof -
  let ?n = "unat (transfer_buffer_size (fb_if st))"
  have "length bytes < 2 ^ 32" using assms(2) unat_less [of "transfer_buffer_size (fb_if st)"] by simp
  from ram_bytes_ram_put [of 0 "length bytes" bytes ram "fb_buf st", OF _ this]
  have "ram_bytes (fb_ram st) (fb_buf st) (length bytes) = bytes" using assms(1) by simp
  moreover have "ram_bytes r a n = ram_bytes r a k @ drop k (ram_bytes r a n)" if "k \<le> n" for r a n k
  proof -
    have "take k (ram_bytes r a n) = ram_bytes r a k" using that by (simp add: ram_bytes_def take_map)
    then show ?thesis using append_take_drop_id [of k "ram_bytes r a n"] by simp
  qed
  note this [OF assms(2), of "fb_ram st" "fb_buf st"]
  ultimately show ?thesis unfolding buffer_from_def by (intro exI) simp
qed

section \<open>An area of the raw part\<close>

text \<open>The letter of the area for \<^verbatim>\<open>movi\<close>, and whether its size is given.\<close>

definition fb_area :: "'c fastboot \<Rightarrow> byte list \<Rightarrow> (byte \<times> bool) option" where
  "fb_area st name =
     (if name = txt_bytes ''kernel'' then Some (107, False)
      else if name = txt_bytes ''ramdisk'' then Some (114, True)
      else if name = txt_bytes ''Recovery'' then Some (82, True)
      else if name = txt_bytes ''bootloader'' then Some (if fb_dev st = 0 then 101 else 117, False)
      else None)"

lemma movi_part_area:
  assumes "fb_area st (pt_name p) = Some (area, sized)"
  shows "\<exists>part. movi_part env st p = Some (part, sized) \<and> hd (part @ [0]) = area"
proof -
  have z: "0 \<notin> set (pt_name p)" using assms by (auto simp: fb_area_def txt_bytes_def split: if_splits)
  have c: "0 \<notin> set (txt_bytes ''bootloader'')" "0 \<notin> set (txt_bytes ''ramdisk'')" "0 \<notin> set (txt_bytes ''Recovery'')"
    by (simp_all add: txt_bytes_def)
  obtain b r k where s: "str_cmp (pt_name p) (txt_bytes ''bootloader'') = Some b" "b = 0 \<longleftrightarrow> pt_name p = txt_bytes ''bootloader''"
    "str_cmp (pt_name p) (txt_bytes ''ramdisk'') = Some r" "r = 0 \<longleftrightarrow> pt_name p = txt_bytes ''ramdisk''"
    "str_cmp (pt_name p) (txt_bytes ''Recovery'') = Some k" "k = 0 \<longleftrightarrow> pt_name p = txt_bytes ''Recovery''"
    using str_cmp_eq [OF z c(1)] str_cmp_eq [OF z c(2)] str_cmp_eq [OF z c(3)] by blast
  then show ?thesis using assms
    by (auto simp: movi_part_def fb_area_def txt_bytes_def split: if_splits)
qed

lemma write_movi_lines:
  assumes "fb_area st (pt_name p) = Some (area, sized)" and "laid_out s (fb_raw st)"
    and "fb_om env = BOOT_MMCSD \<longrightarrow> (\<exists>n. fb_mmc0 env = Some n \<and> 0 \<notin> set n)"
  shows "\<exists>ra'. laid_out s ra' \<and> write_movi_ptn env p addr sz st = map_option (\<lambda>w. (st\<lparr>fb_raw := ra', fb_mach := w\<rparr>, Ret 0))
    (run_lines (fb_run env) (map join_words (movi_words (fb_movi_env env st) s True area addr (rounded_size sz))) (fb_mach st))"
proof -
  obtain part where part: "movi_part env st p = Some (part, sized)" "hd (part @ [0]) = area"
    using movi_part_area [OF assms(1)] by blast
  have a: "area \<in> {102, 117, 101, 107} \<and> \<not> sized \<or> area \<in> {82, 114} \<and> sized"
    using assms(1) by (auto simp: fb_area_def split: if_splits)
  let ?argv = "[] # txt_bytes ''write'' # part # hex_word addr # (if sized then [hex_word (rounded_size sz)] else [])"
  have w: "hd (txt_bytes ''write'' @ [0]) = (if True then 119 else 114)" by (simp add: txt_bytes_def)
  have h: "simple_strtoul (hex_word v @ [0]) 0 16 = Some (v, length (hex v) + 2)" for v
    using parse_hex [of v 16] by (simp add: hex_word_def)
  have env: "om_pin (fb_movi_env env st) = BOOT_MMCSD \<longrightarrow> (\<exists>n. mmc0_name (fb_movi_env env st) = Some n \<and> 0 \<notin> set n)"
    using assms(3) by (simp add: fb_movi_env_def)
  have rest: "area \<in> {102, 117, 101, 107} \<and> (if sized then [hex_word (rounded_size sz)] else []) = [] \<or>
      area \<in> {82, 114} \<and> (if sized then [hex_word (rounded_size sz)] else []) = [hex_word (rounded_size sz)]" using a by auto
  obtain ra' where ra: "do_movi (fb_movi_env env st) (fb_raw st) ?argv =
      Some (ra', map join_words (movi_words (fb_movi_env env st) s True area addr (rounded_size sz)), 1)" "laid_out s ra'"
    using do_movi_lines [OF assms(2) env refl w part(2) rest h] h by blast
  have "write_movi_ptn env p addr sz st = map_option (\<lambda>w. (st\<lparr>fb_raw := ra', fb_mach := w\<rparr>, Ret 0))
    (run_lines (fb_run env) (map join_words (movi_words (fb_movi_env env st) s True area addr (rounded_size sz))) (fb_mach st))"
    using part(1) ra(1) by (cases sized) (simp_all add: write_movi_ptn_def hex_arg_is call_movi_def map_option_case split: bind_split option.split)
  then show ?thesis using ra(2) by blast
qed

section \<open>What the properties assume\<close>

text \<open>The partition \<open>p\<close> has the name, and an image of \<open>n\<close> bytes may be flashed to it.\<close>

definition takes :: "'c fastboot \<Rightarrow> byte list \<Rightarrow> ptentry \<Rightarrow> u32 \<Rightarrow> bool" where
  "takes st name p n \<longleftrightarrow> names_ok st \<and> 0 \<notin> set name \<and> length name < 58 \<and> name \<noteq> txt_bytes ''boot'' \<and> ptn_of st name = Some p \<and>
     (pt_length p = 0 \<or> n \<le> pt_length p) \<and> \<not> has_flag p FASTBOOT_PTENTRY_FLAGS_WRITE_ENV"

definition has_image :: "u32 \<Rightarrow> byte list \<Rightarrow> mem \<Rightarrow> 'c fastboot \<Rightarrow> bool" where
  "has_image n bytes f st \<longleftrightarrow> fb_inv st \<and> fifo_ok f \<and> length bytes = unat n \<and> 0 < n \<and> n \<le> transfer_buffer_size (fb_if st)"

text \<open>The first sector with its four entries, on the card that is used.\<close>

definition sector_of :: "'c fb_env \<Rightarrow> 'c fastboot \<Rightarrow> (nat \<Rightarrow> byte \<times> u32 \<times> u32) \<Rightarrow> bool" where
  "sector_of env st e \<longleftrightarrow> (\<exists>m. mmc_geometry (fb_ops env) (fb_mach st) (if fb_dev st = 0 then 0 else 1) \<noteq> None \<and>
     mmc_read (fb_ops env) (fb_mach st) (if fb_dev st = 0 then 0 else 1) 0 = Some m \<and>
     (\<forall>i<4. \<exists>b. decode_partitionInfo m (0x1BE + 16 * i) = Some (b, e i)))"

end
