(* ===== verification/FastbootExample.thy ===== *)
theory FastbootExample
  imports FastbootFlash EnvAutoProps
begin

text \<open>
  A board with two cards, the partition table of its second card and the environment of its calls, to which the
  properties of fastboot are applied.
\<close>

definition raw_partitions :: "ptentry list" where
  "raw_partitions = map (\<lambda>(name, len). \<lparr>pt_name = txt_bytes name, pt_start = 0, pt_length = len, pt_flags = FASTBOOT_PTENTRY_FLAGS_USE_MOVI_CMD\<rparr>)
     [(''bootloader'', 0), (''kernel'', 0), (''ramdisk'', 0x300000), (''Recovery'', 0x600000)]"

definition card_partition :: "char list \<Rightarrow> u32 \<Rightarrow> u32 \<Rightarrow> ptentry" where
  "card_partition name s c = \<lparr>pt_name = txt_bytes name, pt_start = s * 512, pt_length = c * 512, pt_flags = FASTBOOT_PTENTRY_FLAGS_USE_MMC_CMD\<rparr>"

definition table_with :: "'c fastboot \<Rightarrow> ptentry list \<Rightarrow> 'c fastboot" where
  "table_with st ps = st\<lparr>ptable := ps @ drop (length ps) (ptable st), pcount := length ps\<rparr>"

text \<open>The table that entries of a first sector give.\<close>

definition partitions_of :: "(nat \<Rightarrow> byte \<times> u32 \<times> u32) \<Rightarrow> ptentry list" where
  "partitions_of e = raw_partitions @ map (\<lambda>(name, i). card_partition name (fst (snd (e i))) (snd (snd (e i))))
     [(''system'', 1), (''userdata'', 2), (''cache'', 3), (''fat'', 0)]"

definition ex_entries :: "nat \<Rightarrow> byte \<times> u32 \<times> u32" where
  "ex_entries i = [(0x0C, 0x140000, 0x900000), (0x83, 0x20000, 0x80000), (0x83, 0xA0000, 0x80000), (0x83, 0x120000, 0x20000)] ! i"

definition ex_sector :: mem where
  "ex_sector = replicate 0x1BE 0 @
     [0, 0, 0, 0, 0x0C, 0, 0, 0, 0, 0, 0x14, 0, 0, 0, 0x90, 0,
      0, 0, 0, 0, 0x83, 0, 0, 0, 0, 0, 0x02, 0, 0, 0, 0x08, 0,
      0, 0, 0, 0, 0x83, 0, 0, 0, 0, 0, 0x0A, 0, 0, 0, 0x08, 0,
      0, 0, 0, 0, 0x83, 0, 0, 0, 0, 0, 0x12, 0, 0, 0, 0x02, 0, 0x55, 0xAA]"

definition two_cards :: "cards machine" where
  "two_cards = full_machine\<lparr>mach_devs := [dev0, ideal_dev], mach_cards := (\<lambda>d b. replicate 512 9)\<rparr>"

definition ex_board :: "u32 \<Rightarrow> cards fastboot" where
  "ex_board d =
     \<lparr>fb_if = \<lparr>product_name = Some (txt_bytes ''smdkc210''), serial_no = Some (txt_bytes ''SLSI0123''), nand_block_size = 0,
        transfer_buffer = 0x48000000, transfer_buffer_size = 0x36000000\<rparr>,
      download_size = 0, download_bytes = 0, download_error = 0,
      ptable = partitions_of ex_entries @ replicate 8 (card_partition [] 0 0), pcount = 8, static_pcount = 0,
      fb_dev = d, fb_fuse = 0, bulk_fifo = replicate 513 0, reply_msg = None, tx_size = 0, response_flag = False, sent = [],
      fb_raw = ex_table, fb_mach = two_cards\<rparr>"

definition ex_calls :: "cards fb_env" where
  "ex_calls =
     \<lparr>fb_om = BOOT_MMCSD, fb_mmc0 = Some emmc_name, fb_drv = ideal_driver,
      fb_ops = \<lparr>mmc_geometry = (\<lambda>w d. Some (0xE90000, 512)), mmc_read = (\<lambda>w d b. Some ex_sector), mmc_write = (\<lambda>w d b m. (w, False))\<rparr>,
      fb_run = shell_run mmc_env (replicate 256 1) (replicate 256 2) (replicate 17 None),
      fb_bootm = (\<lambda>argv w. None), fb_setenv = (\<lambda>n v w. w), fb_getenv = (\<lambda>n. None), fb_spill = (\<lambda>k s st. Some st), fb_residue = (\<lambda>p i. 0), fb_junk = [], fb_status = 0\<rparr>"

lemma off_transfer_heap:
  assumes "n \<le> 0x18000000"
  shows "off_heap ideal_heap 0x48000000 n"
  unfolding off_heap_def
proof (intro allI impI)
  fix i assume i: "i < n"
  have "0x48000000 + of_nat i - 0x60000000 = (0xE8000000 :: u32) + of_nat i" by simp
  moreover have "unat ((0xE8000000 :: u32) + of_nat i) = 0xE8000000 + i"
    using i assms by (subst unat_word_ariths(1)) (simp add: unat_of_small)
  ultimately have "unat (0x48000000 + of_nat i - 0x60000000 :: u32) = 0xE8000000 + i" by (simp only:)
  then show "(0x48000000 :: u32) + of_nat i \<notin> ideal_heap" unfolding ideal_heap_def mem_Collect_eq by simp
qed

lemma two_present: "present two_cards dev0" "present two_cards ideal_dev" "d_dev dev0 = 0" "d_dev ideal_dev = 1"
  "d_capacity dev0 = 15269888" "d_capacity ideal_dev = 15269888"
  by (simp_all add: present_def two_cards_def find_mmc_device_def dev0_def ideal_dev_def full_machine_def)

lemma ex_board_simps [simp]:
  "fb_mach (ex_board d) = two_cards" "fb_raw (ex_board d) = ex_table" "fb_dev (ex_board d) = d" "fb_buf (ex_board d) = 0x48000000"
  "transfer_buffer_size (fb_if (ex_board d)) = 0x36000000" "download_size (ex_board d) = 0" "length (ptable (ex_board d)) = 16"
  "download_error (ex_board d) = 0" "sent (ex_board d) = []" "bulk_fifo (ex_board d) = replicate 513 0"
  by (simp_all add: ex_board_def fb_buf_def partitions_of_def raw_partitions_def)

lemma ex_board_inv: "fb_inv (ex_board d)"
  by (simp add: fb_inv_def fifo_ok_def) (simp add: ex_board_def)

lemma ex_calls_simps [simp]:
  "card_boot ex_calls" "fb_om ex_calls = BOOT_MMCSD" "fb_mmc0 ex_calls = Some emmc_name" "fb_drv ex_calls = ideal_driver"
  "fb_run ex_calls = shell_run mmc_env (replicate 256 1) (replicate 256 2) (replicate 17 None)"
  by (simp_all add: ex_calls_def card_boot_def)

lemma ex_bufs: "bufs (replicate 256 1) (replicate 256 2) (replicate 17 None)"
  by (simp add: bufs_def CBSIZE_def MAXARGS_def)

lemma ex_flash_ok: "flash_ok mmc_env ideal_driver 0 ideal_dev ideal_heap"
  using mmc_env_runs ideal_obeys ideal_heap_ok by (simp add: flash_ok_def two_present)

lemma ex_take: "take (pcount (ex_board d)) (ptable (ex_board d)) = partitions_of ex_entries"
  by (simp add: ex_board_def partitions_of_def raw_partitions_def)

lemma ex_names: "names_ok (ex_board d)"
  unfolding names_ok_def ex_take by (simp add: partitions_of_def raw_partitions_def card_partition_def txt_bytes_def)

lemma ex_ptn:
  "ptn_of (ex_board d) (txt_bytes ''system'') = Some (card_partition ''system'' 0x20000 0x80000)"
  "ptn_of (ex_board d) (txt_bytes ''ramdisk'') =
     Some \<lparr>pt_name = txt_bytes ''ramdisk'', pt_start = 0, pt_length = 0x300000, pt_flags = FASTBOOT_PTENTRY_FLAGS_USE_MOVI_CMD\<rparr>"
  unfolding ptn_of_def ex_take
  by (simp_all add: partitions_of_def raw_partitions_def card_partition_def txt_bytes_def ex_entries_def)

lemma ex_takes:
  "n \<le> 0x10000000 \<Longrightarrow> takes (ex_board d) (txt_bytes ''system'') (card_partition ''system'' 0x20000 0x80000) n"
  "n \<le> 0x300000 \<Longrightarrow> takes (ex_board d) (txt_bytes ''ramdisk'')
     \<lparr>pt_name = txt_bytes ''ramdisk'', pt_start = 0, pt_length = 0x300000, pt_flags = FASTBOOT_PTENTRY_FLAGS_USE_MOVI_CMD\<rparr> n"
  by (simp_all add: takes_def ex_names ex_ptn)
    (simp_all add: txt_bytes_def card_partition_def has_flag_def FASTBOOT_PTENTRY_FLAGS_WRITE_ENV_def
      FASTBOOT_PTENTRY_FLAGS_USE_MMC_CMD_def FASTBOOT_PTENTRY_FLAGS_USE_MOVI_CMD_def)

lemma ex_image_there: "length bytes = unat n \<Longrightarrow> 0 < n \<Longrightarrow> n \<le> 0x36000000 \<Longrightarrow> has_image n bytes (replicate 513 0) (ex_board d)"
  by (simp add: has_image_def ex_board_inv fifo_ok_def)

lemma ex_sector_of: "sector_of ex_calls (ex_board d) ex_entries"
  unfolding sector_of_def
proof (intro exI [of _ ex_sector] conjI allI impI)
  fix i :: nat assume "i < 4"
  then consider "i = 0" | "i = 1" | "i = 2" | "i = 3" by linarith
  then show "\<exists>b. decode_partitionInfo ex_sector (0x1BE + 16 * i) = Some (b, ex_entries i)"
    by cases (simp_all add: decode_partitionInfo_def ex_sector_def ex_entries_def rd_def rdn_def get_le32_def nth_append)
qed (simp_all add: ex_calls_def)

end
