(* ===== verification/FastbootSafe.thy ===== *)
theory FastbootSafe
  imports FastbootExample
begin

text \<open>
  Every packet is handled: the state that the protocol keeps, what each command does to it, and the
  form of the answers.
\<close>

section \<open>Texts in the packet buffer\<close>

lemma str_end_total: "p \<le> e \<Longrightarrow> e < length m \<Longrightarrow> m ! e = 0 \<Longrightarrow> \<exists>q. str_end m p = Some q \<and> p \<le> q \<and> q \<le> e \<and> (\<forall>i. p \<le> i \<and> i < q \<longrightarrow> m ! i \<noteq> 0)"
proof (induction m p rule: str_end.induct)
  case (1 m p)
  show ?case
  proof (cases "m ! p = 0")
    case True
    then show ?thesis using 1 by (subst str_end.simps) auto
  next
    case False
    then have "p + 1 \<le> e" using 1 by (metis Suc_eq_plus1 Suc_leI le_neq_implies_less)
    with 1 False obtain q where q: "str_end m (p + 1) = Some q" "p + 1 \<le> q" "q \<le> e" "\<forall>i. p + 1 \<le> i \<and> i < q \<longrightarrow> m ! i \<noteq> 0" by auto
    have "str_end m p = Some q" using q(1) False 1 by (subst str_end.simps) auto
    moreover have "m ! i \<noteq> 0" if "p \<le> i" "i < q" for i using that q(4) False by (cases "i = p") auto
    ultimately show ?thesis using q(2,3) by (intro exI [of _ q]) auto
  qed
qed

lemma str_at_total:
  assumes "fifo_ok f" and "p \<le> 512"
  shows "\<exists>name. str_at f p = Some name \<and> 0 \<notin> set name"
proof -
  obtain q where q: "str_end f p = Some q" "p \<le> q" "q \<le> 512" "\<forall>i. p \<le> i \<and> i < q \<longrightarrow> f ! i \<noteq> 0"
    using str_end_total [OF assms(2), of f] assms(1) by (auto simp: fifo_ok_def)
  have "0 \<notin> set (take (q - p) (drop p f))" using q assms(1) by (auto simp: in_set_conv_nth fifo_ok_def)
  then show ?thesis using q(1) by (simp add: str_at_def)
qed

lemma digit_loop_total:
  "p \<le> e \<Longrightarrow> e < length m \<Longrightarrow> m ! e = 0 \<Longrightarrow> \<exists>r q. digit_loop m p base (x :: 'a::len word) = Some (r, q)"
proof (induction m p base x rule: digit_loop.induct)
  case (1 m p base x)
  show ?case
  proof (cases "isxdigit (m ! p) \<and> digit_value (m ! p) < int base")
    case True
    then have "p \<noteq> e" using 1 nul_class by auto
    then have "p + 1 \<le> e" using 1 by simp
    with 1 True show ?thesis by (subst digit_loop.simps) (auto simp: Let_def)
  next
    case False
    then show ?thesis using 1 by (subst digit_loop.simps) (auto simp: Let_def)
  qed
qed

lemma strtoul_total:
  assumes "fifo_ok f" and "p \<le> 500"
  shows "\<exists>n q. simple_strtoul f p base = Some (n, q)"
proof -
  have l: "length f = 513" "f ! 512 = 0" using assms(1) by (simp_all add: fifo_ok_def)
  obtain cp b where c: "number_prefix f p base = Some (cp, b)" "cp \<le> 512"
    using assms(2) l by (cases "f ! p = 48"; cases "f ! (p + 1) = 120"; cases "isxdigit (f ! (p + 2))") (simp_all add: number_prefix_def Let_def)
  then show ?thesis using digit_loop_total [of cp 512 f b 0] l by (auto simp: simple_strtoul_def)
qed

section \<open>The state that is kept\<close>

definition raw_names :: "byte list set" where
  "raw_names = {txt_bytes ''kernel'', txt_bytes ''ramdisk'', txt_bytes ''Recovery'', txt_bytes ''bootloader''}"

text \<open>A table as that of a card: every entry is one of the card or of the raw part, and the kernel and the ramdisk are there.\<close>

definition board_ptns :: "ptentry list \<Rightarrow> bool" where
  "board_ptns ps \<longleftrightarrow> (\<forall>p \<in> set ps. 0 \<notin> set (pt_name p) \<and> \<not> has_flag p FASTBOOT_PTENTRY_FLAGS_WRITE_ENV \<and>
       (has_flag p FASTBOOT_PTENTRY_FLAGS_USE_MMC_CMD \<or>
        has_flag p FASTBOOT_PTENTRY_FLAGS_USE_MOVI_CMD \<and> pt_name p \<in> raw_names)) \<and>
     (\<forall>name \<in> {txt_bytes ''kernel'', txt_bytes ''ramdisk''}. \<exists>p. find (\<lambda>p. pt_name p = name) ps = Some p \<and>
        \<not> has_flag p FASTBOOT_PTENTRY_FLAGS_USE_MMC_CMD)"

definition serving :: "u32 \<Rightarrow> 'c fastboot \<Rightarrow> bool" where
  "serving s st \<longleftrightarrow> fb_inv st \<and> download_error st = 0 \<and> laid_out s (fb_raw st) \<and> board_ptns (take (pcount st) (ptable st)) \<and>
     (\<forall>t. product_name (fb_if st) = Some t \<or> serial_no (fb_if st) = Some t \<longrightarrow> length t \<le> 60)"

definition calls_ok :: "'c fb_env \<Rightarrow> bool" where
  "calls_ok env \<longleftrightarrow> (\<forall>l w. fb_run env l w \<noteq> None) \<and>
     (fb_om env = BOOT_MMCSD \<longrightarrow> (\<exists>n. fb_mmc0 env = Some n \<and> 0 \<notin> set n))"

definition well_formed :: "byte list \<Rightarrow> bool" where
  "well_formed t \<longleftrightarrow> length t \<le> 64 \<and> take 4 t \<in> {txt_bytes ''OKAY'', txt_bytes ''FAIL'', txt_bytes ''DATA''}"

definition answered :: "'c fastboot \<Rightarrow> bool" where
  "answered st \<longleftrightarrow> response_flag st \<and> (\<exists>t. reply_msg st = Some t \<and> well_formed t)"

text \<open>A result that keeps the state and has an answer waiting.\<close>

definition good :: "u32 \<Rightarrow> ('c fastboot \<times> ending) option \<Rightarrow> bool" where
  "good s res \<longleftrightarrow> (\<exists>st' r. res = Some (st', Ret r) \<and> serving s st' \<and> answered st')"

lemma good_answer: "serving s st \<Longrightarrow> well_formed t \<Longrightarrow> good s (answer t r st)"
  by (simp add: good_def answer_def fastboot_tx_status_def answered_def serving_def fb_inv_def Let_def)

lemma well_formed_text: "s \<in> {''OKAY'', ''FAILpartition does not exist'', ''FAILfailed to erase partition'', ''FAILdata invalid size'',
    ''FAILdata too large'', ''FAILinvalid boot image'', ''FAILimage too large for partition'', ''FAILfailed to flash partition'',
    ''FAILno image downloaded'', ''FAIL''} \<Longrightarrow> well_formed (txt_bytes s)"
  by (elim insertE emptyE; simp add: well_formed_def txt_bytes_def)

lemma good_text: "serving s st \<Longrightarrow> x \<in> {''OKAY'', ''FAILpartition does not exist'', ''FAILfailed to erase partition'', ''FAILdata invalid size'',
    ''FAILdata too large'', ''FAILinvalid boot image'', ''FAILimage too large for partition'', ''FAILfailed to flash partition'',
    ''FAILno image downloaded'', ''FAIL''} \<Longrightarrow> good s (answer (txt_bytes x) r st)"
  by (rule good_answer [OF _ well_formed_text])

lemma serving_simps [simp]:
  "serving s (st\<lparr>fb_mach := w\<rparr>) = serving s st"
  "serving s (st\<lparr>fb_raw := ra, fb_mach := w\<rparr>) = (serving s (st\<lparr>fb_raw := ra\<rparr>))"
  by (simp_all add: serving_def fb_inv_def)

lemma serving_raw: "serving s st \<Longrightarrow> laid_out s ra \<Longrightarrow> serving s (st\<lparr>fb_raw := ra\<rparr>)"
  by (simp add: serving_def fb_inv_def)

lemma serving_fifo: "serving s st \<Longrightarrow> fifo_ok f \<Longrightarrow> serving s (st\<lparr>bulk_fifo := f\<rparr>)"
  by (simp add: serving_def fb_inv_def)

lemma board_find:
  assumes "board_ptns (take (pcount st) (ptable st))" and "0 \<notin> set name"
  shows "fastboot_flash_find_ptn st name = Some (ptn_of st name)"
    and "ptn_of st name = Some p \<Longrightarrow> p \<in> set (take (pcount st) (ptable st)) \<and> pt_name p = name"
proof -
  have "names_ok st" using assms(1) by (simp add: names_ok_def board_ptns_def)
  then show "fastboot_flash_find_ptn st name = Some (ptn_of st name)" by (rule find_ptn_of [OF _ assms(2)])
  show "ptn_of st name = Some p \<Longrightarrow> p \<in> set (take (pcount st) (ptable st)) \<and> pt_name p = name"
    unfolding ptn_of_def find_Some_iff by (metis nth_mem)
qed

section \<open>The commands\<close>

lemma good_getvar:
  assumes "serving s st" and "fifo_ok m"
  shows "good s (rx_getvar m st)"
proof -
  have ok: "\<exists>t. okay_text x = Some t \<and> well_formed t" if "\<forall>t. x = Some t \<longrightarrow> length t \<le> 60" for x
    using that by (cases x) (simp_all add: okay_text_def well_formed_def txt_bytes_def)
  have l: "\<exists>b. lit_at (txt_bytes x @ [0]) m 7 = Some b" if "length x \<le> 100" for x
    using fifo_lit [OF assms(2), of 7 "txt_bytes x @ [0]"] that by (simp add: txt_bytes_def)
  obtain v p n d where b: "lit_at (txt_bytes ''version'' @ [0]) m 7 = Some v" "lit_at (txt_bytes ''product'' @ [0]) m 7 = Some p"
    "lit_at (txt_bytes ''serialno'' @ [0]) m 7 = Some n" "lit_at (txt_bytes ''downloadsize'' @ [0]) m 7 = Some d"
    using l [of "''version''"] l [of "''product''"] l [of "''serialno''"] l [of "''downloadsize''"] by auto
  have i: "\<forall>t. product_name (fb_if st) = Some t \<longrightarrow> length t \<le> 60" "\<forall>t. serial_no (fb_if st) = Some t \<longrightarrow> length t \<le> 60"
    using assms(1) by (simp_all add: serving_def)
  have ver: "length FASTBOOT_VERSION \<le> 60" by (simp add: FASTBOOT_VERSION_def txt_bytes_def)
  have d: "\<exists>t. (if transfer_buffer_size (fb_if st) \<noteq> 0
      then do { (t, _) \<leftarrow> sprintf (txt_bytes ''%08x'') [VInt (transfer_buffer_size (fb_if st))]; okay_text (Some t) }
      else okay_text None) = Some t \<and> well_formed t"
    using ok [of None] ok [of "Some (hex8 (transfer_buffer_size (fb_if st)))"] by (simp add: data_text)
  obtain t where t: "well_formed t" "rx_getvar m st = answer t 0 st"
    using b ok [OF i(1)] ok [OF i(2)] ok [of None] ok [of "Some FASTBOOT_VERSION"] ver d unfolding rx_getvar_def
    by (cases v; cases p; cases n; cases d) auto
  show ?thesis unfolding t(2) by (rule good_answer [OF assms(1) t(1)])
qed

lemma good_erase:
  assumes "serving s st" and "fifo_ok m" and "calls_ok env"
  shows "good s (rx_erase env m st)"
proof -
  obtain name where name: "str_at m 6 = Some name" "0 \<notin> set name" using str_at_total [OF assms(2), of 6] by auto
  have board: "board_ptns (take (pcount st) (ptable st))" using assms(1) by (simp add: serving_def)
  note f = board_find [OF board name(2)]
  show ?thesis
  proof (cases "ptn_of st name")
    case None
    then show ?thesis using name(1) f(1) good_text [OF assms(1)] by (simp add: rx_erase_def)
  next
    case (Some p)
    have z: "0 \<notin> set (pt_name p)" using f(2) [OF Some] name(2) by simp
    have "\<exists>l. format_line dev (pt_name p) = Some l" for dev
    proof -
      have c: "0 \<notin> set (txt_bytes ''userdata'')" "0 \<notin> set (txt_bytes ''cache'')" "0 \<notin> set (txt_bytes ''fat'')" by (simp_all add: txt_bytes_def)
      then show ?thesis using str_cmp_eq [OF z c(1)] str_cmp_eq [OF z c(2)] str_cmp_eq [OF z c(3)] by (auto simp: format_line_def)
    qed
    then obtain st' r where e: "erase_ptn env p st = Some (st', r)" "serving s st'"
    proof -
      obtain l where l: "format_line (txt_bytes (if fb_dev st = 1 then ''1'' else ''0'')) (pt_name p) = Some l"
        using \<open>\<And>dev. \<exists>l. format_line dev (pt_name p) = Some l\<close> by blast
      show ?thesis
      proof (cases "fb_dev st = 1 \<or> card_boot env")
        case False
        then show ?thesis using that assms(1) by (simp add: erase_ptn_def)
      next
        case True
        show ?thesis
        proof (cases l)
          case None
          then show ?thesis using True l that assms(1) by (simp add: erase_ptn_def)
        next
          case (Some x)
          obtain w r where "fb_run env x (fb_mach st) = Some (w, r)" using assms(3) by (fastforce simp: calls_ok_def)
          then show ?thesis using True l Some that assms(1) by (simp add: erase_ptn_def)
        qed
      qed
    qed
    then show ?thesis using name(1) f(1) Some good_text [OF e(2)] e(1) by (simp add: rx_erase_def)
  qed
qed

lemma good_download:
  assumes "serving s st" and "fifo_ok m"
  shows "good s (rx_download m st)"
proof -
  obtain n q where n: "simple_strtoul m 9 16 = Some (n, q)" using strtoul_total [OF assms(2)] by force
  have w: "well_formed (txt_bytes ''DATA'' @ hex8 n)" by (simp add: well_formed_def txt_bytes_def)
  have sv: "serving s (st\<lparr>download_size := x, download_bytes := 0, download_error := 0\<rparr>)" if "x \<le> transfer_buffer_size (fb_if st)" for x
    using assms(1) that by (auto simp: serving_def fb_inv_def word_gt_0)
  have sz: "st\<lparr>download_size := n, download_bytes := 0, download_error := 0, download_size := 0\<rparr> =
      st\<lparr>download_size := 0, download_bytes := 0, download_error := 0\<rparr>" by (cases st) simp
  consider "n = 0" | "n \<noteq> 0" "transfer_buffer_size (fb_if st) < n" | "n \<noteq> 0" "n \<le> transfer_buffer_size (fb_if st)" by force
  then show ?thesis
  proof cases
    case 1
    then show ?thesis using n good_text [OF sv [of 0]] by (simp add: rx_download_def)
  next
    case 2
    then show ?thesis using n good_text [OF sv [of 0]] by (simp add: rx_download_def sz)
  next
    case 3
    then show ?thesis using n sv [of n] good_answer [OF _ w] by (simp add: rx_download_def data_text Let_def leD)
  qed
qed

text \<open>Storing an image ends with a result and keeps the state, when the image is not a compressed one.\<close>

lemma run_lines_total: "\<forall>l w. run l w \<noteq> None \<Longrightarrow> \<exists>w'. run_lines run ls w = Some w'"
proof (induction ls arbitrary: w)
  case (Cons l ls)
  obtain v r where "run l w = Some (v, r)" using Cons.prems by force
  then show ?case using Cons by auto
qed simp

lemma fb_area_names: "pt_name p \<in> raw_names \<Longrightarrow> \<exists>a z. fb_area st (pt_name p) = Some (a, z)"
  by (auto simp: raw_names_def fb_area_def)

lemma keeps_movi:
  assumes "serving s st" and "calls_ok env" and "pt_name p \<in> raw_names"
  shows "\<exists>st'. write_movi_ptn env p addr sz st = Some (st', Ret 0) \<and> serving s st'"
proof -
  obtain a z where a: "fb_area st (pt_name p) = Some (a, z)" using fb_area_names [OF assms(3)] by blast
  have lo: "laid_out s (fb_raw st)" and om: "fb_om env = BOOT_MMCSD \<longrightarrow> (\<exists>n. fb_mmc0 env = Some n \<and> 0 \<notin> set n)"
    using assms(1,2) by (simp_all add: serving_def calls_ok_def)
  obtain ra where ra: "laid_out s ra" "write_movi_ptn env p addr sz st = map_option (\<lambda>w. (st\<lparr>fb_raw := ra, fb_mach := w\<rparr>, Ret 0))
    (run_lines (fb_run env) (map join_words (movi_words (fb_movi_env env st) s True a addr (rounded_size sz))) (fb_mach st))"
    using write_movi_lines [OF a lo om] by blast
  obtain w where "run_lines (fb_run env) (map join_words (movi_words (fb_movi_env env st) s True a addr (rounded_size sz))) (fb_mach st) = Some w"
    using run_lines_total assms(2) by (metis calls_ok_def)
  then show ?thesis using ra serving_raw [OF assms(1) ra(1)] by simp
qed

lemma mmc_write_total:
  "\<exists>w' r. mmc_cmd_write drv w [[], txt_bytes ''write'', txt_bytes ''mmc 1'', hex_word a, hex_word b, hex_word n] = Some (w', r)"
  using mmc_words_parse [of a b n]
  by (simp add: mmc_cmd_write_def Let_def split: option.split prod.split)

lemma keeps_mmc:
  assumes "serving s st" and "raw_image (fb_ram st) a" and "4 \<le> unat (fb_buf st + transfer_buffer_size (fb_if st) - a)"
  shows "\<exists>st' r. write_mmc_ptn env p a st = Some (st', Ret r) \<and> serving s st'"
proof -
  obtain w r where "mmc_cmd_write (fb_drv env) (fb_mach st) [[], txt_bytes ''write'', txt_bytes ''mmc 1'', hex_word a,
      hex_word (pt_start p div 512), hex_word (pt_length p div 512)] = Some (w, r)" using mmc_write_total by blast
  then show ?thesis using write_mmc_raw [OF assms(2,3), of env p] assms(1) by simp
qed

text \<open>An image at the start of the transfer buffer that is not a compressed one.\<close>

definition plain_image :: "'c fastboot \<Rightarrow> bool" where
  "plain_image st \<longleftrightarrow> raw_image (fb_ram st) (fb_buf st) \<and> 4 \<le> transfer_buffer_size (fb_if st)"

lemma good_flash_ptn:
  assumes "serving s st" and "calls_ok env" and "plain_image st" and "p \<in> set (take (pcount st) (ptable st))"
  shows "good s (rx_flash_ptn env p st)"
proof -
  have p: "\<not> has_flag p FASTBOOT_PTENTRY_FLAGS_WRITE_ENV" "has_flag p FASTBOOT_PTENTRY_FLAGS_USE_MMC_CMD \<or>
      has_flag p FASTBOOT_PTENTRY_FLAGS_USE_MOVI_CMD \<and> pt_name p \<in> raw_names"
    using assms(1,4) by (auto simp: serving_def board_ptns_def)
  have four: "raw_image (fb_ram st) (fb_buf st)" "4 \<le> unat (fb_buf st + transfer_buffer_size (fb_if st) - fb_buf st)"
    using assms(3) by (simp_all add: plain_image_def word_le_nat_alt)
  obtain st' r where w: "write_to_ptn_sdmmc env p (fb_buf st) (download_bytes st) st = Some (st', Ret r)" "serving s st'"
  proof -
    have "\<exists>st' r. write_to_ptn_sdmmc env p (fb_buf st) (download_bytes st) st = Some (st', Ret r) \<and> serving s st'"
    proof (cases "pt_length p \<noteq> 0 \<and> pt_length p < download_bytes st")
      case True
      then show ?thesis using assms(1) by (simp add: write_to_ptn_sdmmc_def)
    next
      case False
      show ?thesis
      proof (cases "has_flag p FASTBOOT_PTENTRY_FLAGS_USE_MMC_CMD")
        case True
        then show ?thesis using keeps_mmc [OF assms(1) four, of env p] False assms(1) by (auto simp: write_to_ptn_sdmmc_def)
      next
        case no: False
        then show ?thesis using keeps_movi [OF assms(1,2), of p "fb_buf st" "download_bytes st"] False p(2) assms(1) by (auto simp: write_to_ptn_sdmmc_def)
      qed
    qed
    then show ?thesis using that by blast
  qed
  obtain v q where e: "fb_run env (txt_bytes ''emmc mode 0 0 1'') (fb_mach st') = Some (v, q)"
    using assms(2) by (fastforce simp: calls_ok_def)
  show ?thesis
    using p(1) w e good_text [OF assms(1)] good_text [OF w(2)] good_text [of s "st'\<lparr>fb_mach := v\<rparr>"]
    by (simp add: rx_flash_ptn_def)
qed

lemma good_flash_boot:
  assumes "serving s st" and "calls_ok env"
  shows "good s (rx_flash_boot env st)"
proof -
  have st: "\<exists>p. fastboot_flash_find_ptn st' (txt_bytes n) = Some (Some p) \<and> pt_name p \<in> raw_names \<and>
      \<not> has_flag p FASTBOOT_PTENTRY_FLAGS_USE_MMC_CMD \<and> has_flag p FASTBOOT_PTENTRY_FLAGS_USE_MOVI_CMD"
    if sv: "serving s st'" and nm: "n = ''kernel'' \<or> n = ''ramdisk''" for st' :: "'a fastboot" and n
  proof -
    have board: "board_ptns (take (pcount st') (ptable st'))" using sv by (simp add: serving_def)
    have z: "0 \<notin> set (txt_bytes n)" using nm by (auto simp: txt_bytes_def)
    obtain p where p: "ptn_of st' (txt_bytes n) = Some p" "\<not> has_flag p FASTBOOT_PTENTRY_FLAGS_USE_MMC_CMD"
      using board nm by (auto simp: board_ptns_def ptn_of_def)
    note f = board_find [OF board z]
    have "pt_name p \<in> raw_names" "has_flag p FASTBOOT_PTENTRY_FLAGS_USE_MOVI_CMD"
      using f(2) [OF p(1)] board p(2) by (auto simp: board_ptns_def)
    then show ?thesis using f(1) p by auto
  qed
  have store: "\<exists>st'' r'. store_ptn env p addr sz r st' = Some (st'', Ret r') \<and> serving s st''"
    if "serving s st'" "pt_name p \<in> raw_names" "\<not> has_flag p FASTBOOT_PTENTRY_FLAGS_USE_MMC_CMD" "has_flag p FASTBOOT_PTENTRY_FLAGS_USE_MOVI_CMD"
    for p addr sz r and st' :: "'a fastboot"
    using keeps_movi [OF that(1) assms(2) that(2), of addr sz] that by (auto simp: store_ptn_def write_to_ptn_sdmmc_def)
  obtain kp where kp: "fastboot_flash_find_ptn st (txt_bytes ''kernel'') = Some (Some kp)" "pt_name kp \<in> raw_names"
    "\<not> has_flag kp FASTBOOT_PTENTRY_FLAGS_USE_MMC_CMD" "has_flag kp FASTBOOT_PTENTRY_FLAGS_USE_MOVI_CMD" using st [OF assms(1)] by blast
  obtain st1 r1 where s1: "store_ptn env kp (kernel_at st) (hdr_kernel_size st) 1 st = Some (st1, Ret r1)" "serving s st1"
    using store [OF assms(1) kp(2-4)] by blast
  obtain rp where rp: "fastboot_flash_find_ptn st1 (txt_bytes ''ramdisk'') = Some (Some rp)" "pt_name rp \<in> raw_names"
    "\<not> has_flag rp FASTBOOT_PTENTRY_FLAGS_USE_MMC_CMD" "has_flag rp FASTBOOT_PTENTRY_FLAGS_USE_MOVI_CMD" using st [OF s1(2)] by blast
  obtain st2 r2 where s2: "store_ptn env rp (ramdisk_at st1) (hdr_ramdisk_size st1) 0 st1 = Some (st2, Ret r2)" "serving s st2"
    using store [OF s1(2) rp(2-4)] by blast
  show ?thesis
    using kp(1) s1(1) rp(1) s2(1) good_text [OF assms(1)] good_text [OF s1(2)] good_text [OF s2(2)]
    by (simp add: rx_flash_boot_def)
qed

lemma good_flash:
  assumes "serving s st" and "fifo_ok m" and "calls_ok env" and "plain_image st"
  shows "good s (rx_flash env m st)"
proof -
  obtain name where name: "str_at m 6 = Some name" "0 \<notin> set name" using str_at_total [OF assms(2), of 6] by auto
  obtain b where b: "lit_at (txt_bytes ''boot'' @ [0]) m 6 = Some b"
    using fifo_lit [OF assms(2), of 6 "txt_bytes ''boot'' @ [0]"] by (simp add: txt_bytes_def)
  have board: "board_ptns (take (pcount st) (ptable st))" using assms(1) by (simp add: serving_def)
  note f = board_find [OF board name(2)]
  show ?thesis
  proof (cases "ptn_of st name")
    case None
    then show ?thesis using name(1) b f(1) good_text [OF assms(1)] good_flash_boot [OF assms(1,3)] by (simp add: rx_flash_def)
  next
    case (Some p)
    have p: "p \<in> set (take (pcount st) (ptable st))" using f(2) [OF Some] by blast
    show ?thesis using name(1) b f(1) Some good_text [OF assms(1)] good_flash_boot [OF assms(1,3)]
        good_flash_ptn [OF assms(1,3,4) p] by (simp add: rx_flash_def)
  qed
qed

lemma good_oem: "serving s st \<Longrightarrow> good s (rx_oem st)"
proof -
  assume "serving s st"
  then have "serving s (fastboot_tx_status (txt_bytes ''INFOunknown OEM command'') False st)"
    by (simp add: serving_def fb_inv_def fastboot_tx_status_def Let_def)
  then show ?thesis unfolding rx_oem_def by (rule good_text) simp
qed

lemma take_fifo:
  assumes "0 \<notin> set l" and "length l < 64" and "fifo_ok f" and "length packet \<le> 512" and "n = length l"
  shows "take n (fifo_after env f packet) = l \<longleftrightarrow> take n packet = l"
proof (cases "length l \<le> length packet")
  case True
  then have "take (length l) (fifo_after env f packet) = take (length l) packet"
    using fifo_after_take [OF assms(4), of env f] by (metis min.absorb_iff1 take_take)
  then show ?thesis using assms(5) by simp
next
  case False
  then have "length packet < 64" using assms(2) by simp
  from fifo_short [OF this assms(3), of env] False have "0 \<in> set (take (length l) (fifo_after env f packet))"
    by (cases "length l - length packet") simp_all
  moreover have "take (length l) packet \<noteq> l" using False by (metis nat_le_linear take_all)
  ultimately show ?thesis using assms(1,5) by auto
qed

lemma data_good:
  assumes "serving s st" and "download_size st \<noteq> 0" and "length d \<le> 512"
  shows "\<exists>st'. fboot_usb_int_bulkout env d st = Some (st', Ret 0) \<and> serving s st' \<and>
    (download_size st' = 0 \<longrightarrow> answered st')"
proof (cases "d = []")
  case True
  have f: "fifo_ok (bulk_fifo st)" using assms(1) by (simp add: serving_def fb_inv_def)
  have "fboot_usb_int_bulkout env d st = Some (st\<lparr>bulk_fifo := fifo_after env (bulk_fifo st) d\<rparr>, Ret 0)"
    using bulkout_is [OF f assms(3), of env] assms(2) True by (simp add: rx_handler_def rx_data_def)
  then show ?thesis using serving_fifo [OF assms(1) fifo_after_ok [OF f assms(3), of env]] assms(2) by simp
next
  case False
  let ?k = "min (unat (download_size st) - unat (download_bytes st)) (length d)"
  have inv: "fb_inv st" "download_error st = 0" using assms(1) by (simp_all add: serving_def)
  note p = data_packet [OF inv(1) assms(2) False assms(3) refl refl, of env]
  have sv: "serving s st'" if "fb_inv st'" "fb_if st' = fb_if st" "download_error st' = 0" "fb_raw st' = fb_raw st" "pcount st' = pcount st"
    "ptable st' = ptable st" for st' :: "'a fastboot" using that assms(1) by (simp add: serving_def)
  have g: "fb_raw (got b f st) = fb_raw st" "pcount (got b f st) = pcount st" "ptable (got b f st) = ptable st" for b f
    by (simp_all add: got_def set_ram_def)
  show ?thesis
  proof (cases "unat (download_size st) \<le> unat (download_bytes st) + length d")
    case False
    have "fb_inv (got d (fifo_after env (bulk_fifo st) d) st)" using got_inv [OF inv(1) assms(2,3)] False by simp
    from sv [OF this] show ?thesis using p False inv(2) assms(2) g by simp
  next
    case True
    let ?st = "(got (take ?k d) (fifo_after env (bulk_fifo st) d) st)\<lparr>download_size := 0\<rparr>"
    have b: "download_bytes st < download_size st" "download_size st \<le> transfer_buffer_size (fb_if st)"
      using inv(1) assms(2) by (simp_all add: fb_inv_def)
    have k: "?k = unat (download_size st) - unat (download_bytes st)" using True by simp
    have "(of_nat ?k :: u32) = download_size st - download_bytes st"
      unfolding k using b(1) by (simp add: word_less_nat_alt of_nat_diff)
    moreover have "length (take ?k d) = ?k" by simp
    ultimately have "download_bytes ?st = download_size st" by simp
    then have "fb_inv ?st" using inv(1) b(2) fifo_after_ok [OF _ assms(3), of "bulk_fifo st" env] by (simp add: fb_inv_def)
    then have "serving s ?st" using inv(2) g by (intro sv) simp_all
    from good_text [OF this, of "''OKAY''" 0] have "good s (fboot_usb_int_bulkout env d st)" using p True inv(2) by simp
    moreover have "fboot_usb_int_bulkout env d st = answer (txt_bytes ''OKAY'') 0 ?st" using p True inv(2) by simp
    ultimately show ?thesis by (auto simp: good_def answer_def)
  qed
qed

text \<open>The table that the first sector of a card gives, whatever its entries are, is one of those.\<close>

lemma partitions_board: "board_ptns (partitions_of e)"
  by (simp add: board_ptns_def partitions_of_def raw_partitions_def card_partition_def raw_names_def txt_bytes_def has_flag_def
      FASTBOOT_PTENTRY_FLAGS_WRITE_ENV_def FASTBOOT_PTENTRY_FLAGS_USE_MMC_CMD_def FASTBOOT_PTENTRY_FLAGS_USE_MOVI_CMD_def)

lemma ex_serving: "serving 0 (ex_board d)"
  using ex_table_laid_out by (simp add: serving_def ex_board_inv ex_take partitions_board) (auto simp: ex_board_def txt_bytes_def)



end
