(* ===== verification/FastbootProps.thy ===== *)
theory FastbootProps
  imports FastbootExample
begin

text \<open>
  The properties of fastboot: downloads, what flashing stores, and the partition table. The answers are in
  \<^verbatim>\<open>FastbootSafe\<close>, the ends of the commands \<^verbatim>\<open>fastboot\<close> and \<^verbatim>\<open>sdfuse\<close> in \<^verbatim>\<open>FastbootSession\<close>.
\<close>

section \<open>Downloads\<close>

text \<open>The state after a download of \<open>n\<close> bytes.\<close>

definition downloaded :: "u32 \<Rightarrow> byte list \<Rightarrow> mem \<Rightarrow> 'c fastboot \<Rightarrow> 'c fastboot" where
  "downloaded n bytes f st = (set_ram (ram_put (fb_ram st) (fb_buf st) bytes) st)
     \<lparr>download_size := 0, download_bytes := n, download_error := 0, bulk_fifo := f, reply_msg := Some (txt_bytes ''OKAY''),
       tx_size := 4, response_flag := False, sent := sent st @ [Stale (txt_bytes ''DATA'' @ hex8 n), Stale (txt_bytes ''OKAY'')]\<rparr>"

lemma foldl_fifo_ok: "fifo_ok f \<Longrightarrow> \<forall>d \<in> set ds. length d \<le> 512 \<Longrightarrow> fifo_ok (foldl (fifo_after env) f ds)"
  by (induction ds arbitrary: f) (simp_all add: fifo_after_ok)

lemma poll_packet: "fboot_usb_int_bulkout env d st = answer t r st' \<Longrightarrow>
    fastboot_poll env (Packet d) st = Some (fastboot_tx_status t False st', Ret FASTBOOT_OK)"
  by (simp add: fastboot_poll_def answer_def)

lemma poll_ready: "fastboot_poll env Ready (fastboot_tx_status t False st) =
    Some (st\<lparr>tx_size := min 64 (length t), reply_msg := Some t, response_flag := False, sent := sent st @ [Stale t]\<rparr>, Ret FASTBOOT_OK)"
  by (simp add: fastboot_poll_def fastboot_tx_status_def fboot_usb_int_bulkin_def)

definition announced :: "u32 \<Rightarrow> mem \<Rightarrow> 'c fastboot \<Rightarrow> 'c fastboot" where
  "announced n f st = st\<lparr>bulk_fifo := f, download_bytes := 0, download_error := 0, download_size := n,
      tx_size := 12, reply_msg := Some (txt_bytes ''DATA'' @ hex8 n), response_flag := False,
      sent := sent st @ [Stale (txt_bytes ''DATA'' @ hex8 n)]\<rparr>"

lemma download_announced:
  assumes "fb_inv st" and "download_size st = 0" and "0 < n" and "n \<le> transfer_buffer_size (fb_if st)"
  shows "\<exists>f. polls env [Packet (txt_bytes ''download:'' @ hex8 n), Ready] st = Some (announced n f st) \<and> fb_inv (announced n f st)"
proof -
  let ?f = "fifo_after env (bulk_fifo st) (txt_bytes ''download:'' @ hex8 n)"
  have f: "fifo_ok (bulk_fifo st)" using assms(1) by (simp add: fb_inv_def)
  have l: "length (txt_bytes ''download:'' @ hex8 n) \<le> 512" "length (txt_bytes ''DATA'') = 4"
    by (simp_all add: txt_bytes_def)
  have "fboot_usb_int_bulkout env (txt_bytes ''download:'' @ hex8 n) st = answer (txt_bytes ''DATA'' @ hex8 n) 0
      (st\<lparr>bulk_fifo := ?f, download_bytes := 0, download_error := 0, download_size := n\<rparr>)"
    using download_command [OF f assms(2), of env n] assms(3,4)
    by (simp add: Let_def linorder_not_less [symmetric] word_gt_0)
  note p = poll_packet [OF this]
  have "polls env [Packet (txt_bytes ''download:'' @ hex8 n), Ready] st = Some (announced n ?f st)"
    by (simp add: p poll_ready l(2) announced_def)
  moreover have "fb_inv (announced n ?f st)"
    using assms fifo_after_ok [OF f l(1), of env] by (auto simp: fb_inv_def announced_def word_gt_0)
  ultimately show ?thesis by blast
qed

text \<open>A download, from the first packet to the last answer.\<close>

lemma download_runs:
  assumes "fb_inv st" and "download_size st = 0" and "0 < n" and "n \<le> transfer_buffer_size (fb_if st)"
    and "\<forall>d \<in> set ds. d \<noteq> [] \<and> length d \<le> 512" and "ds \<noteq> []"
    and "length (concat (butlast ds)) < unat n" and "unat n \<le> length (concat ds)"
  shows "\<exists>f. polls env (Packet (txt_bytes ''download:'' @ hex8 n) # Ready # map Packet ds @ [Ready]) st =
      Some (downloaded n (take (unat n) (concat ds)) f st) \<and>
    fb_inv (downloaded n (take (unat n) (concat ds)) f st)"
proof -
  obtain f1 where st1: "polls env [Packet (txt_bytes ''download:'' @ hex8 n), Ready] st = Some (announced n f1 st)"
    "fb_inv (announced n f1 st)" using download_announced [OF assms(1-4)] by blast
  let ?st1 = "announced n f1 st"
  define es where "es = butlast ds"
  define d where "d = last ds"
  have ds1: "ds = es @ [d]" using assms(6) by (simp add: es_def d_def)
  have ds: "ds = es @ [d]" "concat ds = concat es @ d" by (fact ds1, simp add: ds1)
  have s: "download_size ?st1 = n" "download_bytes ?st1 = 0" "download_error ?st1 = 0" "fb_ram ?st1 = fb_ram st" "fb_buf ?st1 = fb_buf st"
    by (simp_all add: announced_def fb_ram_def fb_buf_def)
  have n0: "download_size ?st1 \<noteq> 0" using assms(3) s(1) by auto
  have small: "\<forall>d \<in> set es. d \<noteq> [] \<and> length d \<le> 512" "d \<noteq> []" "length d \<le> 512" using assms(5) ds(1) by auto
  have es: "unat (download_bytes ?st1) + length (concat es) < unat (download_size ?st1)" using assms(7) s by (simp add: es_def)
  let ?g = "foldl (fifo_after env) (bulk_fifo ?st1) es"
  let ?st2 = "got (concat es) ?g ?st1"
  note more = data_packets [OF st1(2) n0 small(1) es, of env]
  have b2: "unat (download_bytes ?st2) = length (concat es)"
    using es s unat_less [of n] by (simp add: unat_of_small)
  let ?k = "unat n - length (concat es)"
  let ?f = "fifo_after env ?g d"
  have k: "min (unat (download_size ?st2) - unat (download_bytes ?st2)) (length d) = ?k"
    using b2 s assms(8) ds(2) by simp
  have "fboot_usb_int_bulkout env d ?st2 = answer (txt_bytes ''OKAY'') 0 ((got (take ?k d) ?f ?st2)\<lparr>download_size := 0\<rparr>)"
    using data_packet [OF conjunct2 [OF more] _ small(2,3) k [symmetric] refl, of env] n0 b2 s assms(8) ds(2) by simp
  note fin = poll_packet [OF this]
  have "got (take ?k d) ?f ?st2 = got (concat es @ take ?k d) ?f ?st1"
  proof (rule got_got)
    show "length (concat es) + length (take ?k d) \<le> 2 ^ 32" using assms(7) unat_less [of n] by (simp add: es_def)
  qed
  moreover have "concat es @ take ?k d = take (unat n) (concat ds)" using assms(7) ds(2) by (simp add: es_def)
  ultimately have g: "got (take ?k d) ?f ?st2 = got (take (unat n) (concat ds)) ?f ?st1" by simp
  have len: "length (take (unat n) (concat ds)) = unat n" using assms(8) by simp
  have "polls env (map Packet ds @ [Ready]) ?st1 = polls env [Ready]
      (fastboot_tx_status (txt_bytes ''OKAY'') False ((got (take (unat n) (concat ds)) ?f ?st1)\<lparr>download_size := 0\<rparr>))"
    using more fin g by (simp add: ds(1) polls_append)
  also have "\<dots> = Some (downloaded n (take (unat n) (concat ds)) ?f st)"
  proof -
    have "length (txt_bytes ''OKAY'') = 4" by (simp add: txt_bytes_def)
    then show ?thesis
      by (simp only: polls.simps poll_ready got_def s len) (cases st, simp add: announced_def downloaded_def set_ram_def fb_ram_def fb_buf_def txt_bytes_def)
  qed
  finally have fin: "polls env (map Packet ds @ [Ready]) ?st1 = Some (downloaded n (take (unat n) (concat ds)) ?f st)" .
  have "polls env (Packet (txt_bytes ''download:'' @ hex8 n) # Ready # map Packet ds @ [Ready]) st =
      Some (downloaded n (take (unat n) (concat ds)) ?f st)"
    using st1(1) fin polls_append [of env "[Packet (txt_bytes ''download:'' @ hex8 n), Ready]" "map Packet ds @ [Ready]" st]
    by simp
  moreover have "fifo_ok ?f"
    using foldl_fifo_ok [of "bulk_fifo ?st1" es env] fifo_after_ok [OF _ small(3), of _ env] small(1) st1(2) by (simp add: fb_inv_def)
  then have "fb_inv (downloaded n (take (unat n) (concat ds)) ?f st)"
    using assms(1,4) by (simp add: fb_inv_def downloaded_def set_ram_def)
  ultimately show ?thesis by blast
qed

text \<open>C15. A download. The host announces \<open>n\<close> bytes, takes the answer, sends the bytes in packets of up to 512, whatever
  the packets are, and takes the answer again. The answers are the number repeated, when the first is taken, and
  \<open>OKAY\<close>, each out of an array that is there no more when it is taken (\<open>Stale\<close>); the transfer buffer holds the bytes, of a last packet that is longer only those that were
  announced; no other byte of memory and nothing else of the board is changed; and the protocol is ready
  for the next command with the number of bytes kept for it.\<close>

theorem download_stores:
  assumes "fb_inv st" and "download_size st = 0" and "0 < n" and "n \<le> transfer_buffer_size (fb_if st)"
    and "\<forall>d \<in> set ds. d \<noteq> [] \<and> length d \<le> 512" and "ds \<noteq> []"
    and "length (concat (butlast ds)) < unat n" and "unat n \<le> length (concat ds)"
  shows "\<exists>f. polls env (Packet (txt_bytes ''download:'' @ hex8 n) # Ready # map Packet ds @ [Ready]) st =
      Some (downloaded n (take (unat n) (concat ds)) f st) \<and>
    fb_inv (downloaded n (take (unat n) (concat ds)) f st)"
  by (rule download_runs [OF assms])

theorem download_stores_witness:
  "\<exists>f. polls ex_calls (Packet (txt_bytes ''download:00000406'') # Ready #
      map Packet [replicate 512 1, replicate 512 2, replicate 64 3] @ [Ready]) (ex_board 0) =
    Some (downloaded 0x406 (replicate 512 1 @ replicate 512 2 @ replicate 6 3) f (ex_board 0))"
proof -
  have h: "txt_bytes ''download:'' @ hex8 0x406 = txt_bytes ''download:00000406''" by code_simp
  let ?ds = "[replicate 512 1, replicate 512 2, replicate 64 (3 :: byte)]"
  have "take (unat (0x406 :: u32)) (concat ?ds) = replicate 512 1 @ replicate 512 2 @ replicate 6 3" by simp
  then show ?thesis
    using download_stores [OF ex_board_inv [of 0] _ _ _, of "0x406" ?ds ex_calls] unfolding h by fastforce
qed

section \<open>Flashing what was downloaded\<close>

lemma downloaded_simps [simp]:
  "download_size (downloaded n bytes f st) = 0" "download_bytes (downloaded n bytes f st) = n"
  "bulk_fifo (downloaded n bytes f st) = f" "fb_if (downloaded n bytes f st) = fb_if st"
  "ptable (downloaded n bytes f st) = ptable st" "pcount (downloaded n bytes f st) = pcount st"
  "fb_ram (downloaded n bytes f st) = ram_put (fb_ram st) (fb_buf st) bytes" "fb_buf (downloaded n bytes f st) = fb_buf st"
  "mach_cards (fb_mach (downloaded n bytes f st)) = mach_cards (fb_mach st)"
  "mach_devs (fb_mach (downloaded n bytes f st)) = mach_devs (fb_mach st)"
  "fb_raw (downloaded n bytes f st) = fb_raw st" "fb_dev (downloaded n bytes f st) = fb_dev st"
  "fb_fuse (downloaded n bytes f st) = fb_fuse st"
  by (simp_all add: downloaded_def set_ram_def fb_ram_def fb_buf_def)

lemma flash_polls:
  assumes "has_image n bytes f st" and "takes st name p n" and "card_boot env"
    and "has_flag p FASTBOOT_PTENTRY_FLAGS_USE_MMC_CMD \<or> has_flag p FASTBOOT_PTENTRY_FLAGS_USE_MOVI_CMD"
    and "g = fifo_after env f (txt_bytes ''flash:'' @ name)"
    and "(if has_flag p FASTBOOT_PTENTRY_FLAGS_USE_MMC_CMD then write_mmc_ptn env p (fb_buf st) (downloaded n bytes g st)
      else write_movi_ptn env p (fb_buf st) n (downloaded n bytes g st)) = Some ((downloaded n bytes g st)\<lparr>fb_raw := ra, fb_mach := w\<rparr>, Ret 0)"
  shows "\<exists>st'. polls env [Packet (txt_bytes ''flash:'' @ name), Ready] (downloaded n bytes f st) = Some st' \<and>
    sent st' = sent (downloaded n bytes f st) @ [Stale (txt_bytes ''OKAY'')] \<and> fb_mach st' = w \<and> fb_raw st' = ra"
proof -
  let ?st = "downloaded n bytes f st"
  have ok: "fifo_ok (bulk_fifo ?st)" "download_size ?st = 0" "names_ok ?st" "download_bytes ?st \<noteq> 0" "ptn_of ?st name = Some p"
    using assms(1,2) by (auto simp: has_image_def takes_def names_ok_def ptn_of_def)
  have t: "length name < 58" "0 \<notin> set name" "name \<noteq> txt_bytes ''boot''" "\<not> has_flag p FASTBOOT_PTENTRY_FLAGS_WRITE_ENV"
    "pt_length p = 0 \<or> n \<le> pt_length p" using assms(2) by (simp_all add: takes_def)
  have st_g: "?st\<lparr>bulk_fifo := g\<rparr> = downloaded n bytes g st" by (cases st) (simp add: downloaded_def set_ram_def fb_ram_def fb_buf_def)
  have "fboot_usb_int_bulkout env (txt_bytes ''flash:'' @ name) ?st = rx_flash_ptn env p (downloaded n bytes g st)"
    using flash_command [OF ok(1,2) t(1,2) ok(3,4) t(3) ok(5) _ t(4), of env] t(5) st_g assms(5) by simp
  also have "\<dots> = answer (txt_bytes ''OKAY'') 0 ((downloaded n bytes g st)\<lparr>fb_raw := ra, fb_mach := w\<rparr>)"
  proof (rule rx_flash_card [OF assms(3) t(4) _ _ assms(4)])
    show "pt_length p = 0 \<or> download_bytes (downloaded n bytes g st) \<le> pt_length p" using t(5) by simp
  qed (use assms(6) in \<open>simp only: downloaded_simps\<close>)
  finally have "fboot_usb_int_bulkout env (txt_bytes ''flash:'' @ name) ?st =
      answer (txt_bytes ''OKAY'') 0 ((downloaded n bytes g st)\<lparr>fb_raw := ra, fb_mach := w\<rparr>)" .
  note p = poll_packet [OF this]
  have "sent (downloaded n bytes g st) = sent ?st" by (simp add: downloaded_def set_ram_def)
  then show ?thesis by (simp add: p poll_ready)
qed

lemma div_blocks: "512 * unat (x div 512 :: u32) \<le> unat x" "unat n \<le> unat x \<Longrightarrow> 512 * j + 512 \<le> unat n \<Longrightarrow> j < unat (x div 512)"
proof -
  have d: "unat (x div 512) = unat x div 512" by (simp only: unat_div_distrib unat_numeral) simp
  then show "512 * unat (x div 512) \<le> unat x" by simp
  show "unat n \<le> unat x \<Longrightarrow> 512 * j + 512 \<le> unat n \<Longrightarrow> j < unat (x div 512)" unfolding d by linarith
qed

lemma blocks_of_image:
  assumes "length bytes < 2 ^ 32" and "512 * j + 512 \<le> length bytes"
  shows "ram_block (ram_put r a bytes) a j = take 512 (drop (512 * j) bytes)"
  using ram_block_take [of j "length bytes" "ram_put r a bytes" a] ram_bytes_ram_put [of 0 "length bytes" bytes r a] assms by simp

text \<open>Flashing a raw image to a partition of the card, after a download: the answer is \<open>OKAY\<close>, and the blocks of
  the partition hold the image, and behind it whatever the transfer buffer holds: the whole partition is written,
  whatever the size of the image. No other block of any card is changed. The card is always the first one, also when
  the second one was chosen with the command.\<close>

lemma raw_flash_runs:
  assumes "has_image n bytes f st" and "takes st name p n" and "card_boot env"
    and "has_flag p FASTBOOT_PTENTRY_FLAGS_USE_MMC_CMD" and "4 \<le> length bytes" and "get_le32 bytes \<noteq> EXT4_FILE_HEADER_MAGIC"
    and "s = pt_start p div 512" and "k = pt_length p div 512" and "unat k mod 0xFFFF \<noteq> 0"
    and "obeys (fb_drv env) h" and "present (fb_mach st) h" and "d_dev h = 0" and "heap_ok (fb_drv env) heap"
    and "off_heap heap (fb_buf st) (512 * unat k)" and "unat s + unat k \<le> unat (d_capacity h)"
  shows "\<exists>st'. polls env [Packet (txt_bytes ''flash:'' @ name), Ready] (downloaded n bytes f st) = Some st' \<and>
    sent st' = sent (downloaded n bytes f st) @ [Stale (txt_bytes ''OKAY'')] \<and>
    (\<forall>d b. mach_cards (fb_mach st') d b = (if d = 0 \<and> unat (b - s) < unat k
       then ram_block (ram_put (fb_ram st) (fb_buf st) bytes) (fb_buf st) (unat (b - s)) else mach_cards (fb_mach st) d b)) \<and>
    (\<forall>j. 512 * j + 512 \<le> length bytes \<longrightarrow> mach_cards (fb_mach st') 0 (s + of_nat j) = take 512 (drop (512 * j) bytes))"
proof -
  let ?st = "downloaded n bytes f st"
  let ?r = "ram_put (fb_ram st) (fb_buf st) bytes"
  have im: "length bytes = unat n" "n \<le> transfer_buffer_size (fb_if st)" using assms(1) by (simp_all add: has_image_def)
  have lb: "length bytes < 2 ^ 32" using im(1) unat_less [of n] by simp
  have kb: "512 * unat k \<le> unat (pt_length p)" unfolding assms(8) by (rule div_blocks)
  have k32: "512 * unat k < 2 ^ 32" using kb unat_less [of "pt_length p"] by simp
  have "ram_bytes ?r (fb_buf st) 4 = take 4 bytes"
    using ram_bytes_ram_put [of 0 4 bytes "fb_ram st" "fb_buf st"] assms(5) lb by simp
  moreover have "get_le32 (take 4 bytes) = get_le32 bytes" using assms(5) by (simp add: get_le32_def)
  ultimately have raw: "raw_image ?r (fb_buf st)" using assms(6) by (simp add: raw_image_def)
  have four: "4 \<le> unat (transfer_buffer_size (fb_if st))" using assms(5) im by (simp add: word_le_nat_alt)
  let ?argv = "[[], txt_bytes ''write'', txt_bytes ''mmc 1'', hex_word (fb_buf st), hex_word s, hex_word k]"
  have pres: "present (fb_mach ?st) h" using assms(11) by (simp add: present_def)
  obtain w where w: "mmc_cmd_write (fb_drv env) (fb_mach ?st) ?argv = Some (w, 0)"
    "stored heap 0 s (fb_buf st) (unat k) (fb_mach ?st) w"
  proof -
    have a: "arg_num ?argv 2 10 = Some (d_dev h)" using mmc_words_parse(1) assms(12) by simp
    show ?thesis
      using mmc_write_stored [OF assms(10) pres assms(13,14) a mmc_words_parse(2-4) assms(15) k32 assms(9)] that
      unfolding assms(12) by blast
  qed
  have same: "fb_mach (downloaded n bytes g st) = (fb_mach st)\<lparr>mach_ram := ?r\<rparr>" for g
    by (simp add: downloaded_def set_ram_def)
  have wr: "write_mmc_ptn env p (fb_buf st) (downloaded n bytes g st) =
      Some ((downloaded n bytes g st)\<lparr>fb_raw := fb_raw st, fb_mach := w\<rparr>, Ret 0)" for g
  proof -
    have "raw_image (fb_ram (downloaded n bytes g st)) (fb_buf st)"
      "4 \<le> unat (fb_buf (downloaded n bytes g st) + transfer_buffer_size (fb_if (downloaded n bytes g st)) - fb_buf st)"
      using raw four by simp_all
    note wm = write_mmc_raw [OF this, of env p, unfolded same, folded assms(7,8), unfolded w(1) [unfolded same]]
    have "(downloaded n bytes g st)\<lparr>fb_raw := fb_raw st, fb_mach := w\<rparr> = (downloaded n bytes g st)\<lparr>fb_mach := w\<rparr>"
      by (cases st) (simp add: downloaded_def set_ram_def)
    then show ?thesis unfolding wm by simp
  qed
  obtain st' where st': "polls env [Packet (txt_bytes ''flash:'' @ name), Ready] ?st = Some st'"
    "sent st' = sent ?st @ [Stale (txt_bytes ''OKAY'')]" "fb_mach st' = w"
    using flash_polls [OF assms(1-3), where ra = "fb_raw st" and w = w, OF _ refl] wr assms(4) by auto
  have mr: "mach_ram (fb_mach ?st) = ?r" using downloaded_simps(7) [of n bytes f st] by (simp add: fb_ram_def)
  have cards: "mach_cards w d b = (if d = 0 \<and> unat (b - s) < unat k then ram_block ?r (fb_buf st) (unat (b - s))
      else mach_cards (fb_mach st) d b)" for d b
    using w(2) by (simp add: stored_def put_blocks_def mr)
  have "mach_cards w 0 (s + of_nat j) = take 512 (drop (512 * j) bytes)" if "512 * j + 512 \<le> length bytes" for j
  proof -
    have "pt_length p = 0 \<Longrightarrow> unat k = 0" unfolding assms(8) by simp
    then have "unat n \<le> unat (pt_length p)" using assms(2,9) by (auto simp: takes_def word_le_nat_alt)
    then have "j < unat k" using that unfolding assms(8) im(1) by (rule div_blocks)
    moreover have "unat (of_nat j :: u32) = j" using that lb by (intro unat_of_small) simp
    ultimately show ?thesis using cards [of 0 "s + of_nat j"] blocks_of_image [OF lb that, of "fb_ram st" "fb_buf st"] by simp
  qed
  then show ?thesis using st' cards by (intro exI [of _ st']) simp
qed

text \<open>C16. Flashing a compressed image after a download: \<open>OKAY\<close>, and the sectors of the card that was chosen with the command
  are, from the start of the partition on, what the chunks of the image mean; every other sector is kept.\<close>

theorem flash_compressed_stores:
  assumes "has_image n bytes f st" and "takes st name p n" and "card_boot env"
    and "has_flag p FASTBOOT_PTENTRY_FLAGS_USE_MMC_CMD" and "check_compress_ext4 bytes 0 (pt_length p) = Some (Result 0)"
    and "fh_total_chunks bytes 0 = Some (of_nat (length cs))" and "length cs < 2 ^ 32"
    and "chunks_at bytes 28 cs" and "\<forall>c \<in> set cs. chunk_ok c" and "s = pt_start p div 512"
    and "fb_run env = shell_run shenv cmdbuf finaltoken av" and "flash_ok shenv drv k h heap" and "bufs cmdbuf finaltoken av"
    and "present (fb_mach st) h" and "d_dev h = fb_dev st" and "off_heap heap (fb_buf st) (length bytes)"
    and "unat s + sectors cs \<le> unat (d_capacity h)"
  shows "\<exists>st'. polls env [Packet (txt_bytes ''flash:'' @ name), Ready] (downloaded n bytes f st) = Some st' \<and>
    sent st' = sent (downloaded n bytes f st) @ [Stale (txt_bytes ''OKAY'')] \<and>
    mach_cards (fb_mach st') = (mach_cards (fb_mach st))
      (fb_dev st := sparse (mach_cards (fb_mach st) (fb_dev st)) (unat s) cs)"
proof -
  let ?r = "ram_put (fb_ram st) (fb_buf st) bytes"
  let ?w = "(fb_mach st)\<lparr>mach_ram := ?r\<rparr>"
  have im: "length bytes = unat n" "n \<le> transfer_buffer_size (fb_if st)" using assms(1) by (simp_all add: has_image_def)
  have same: "fb_mach (downloaded n bytes g st) = ?w" for g by (simp add: downloaded_def set_ram_def)
  have lb: "length bytes < 2 ^ 32" using im(1) unat_less [of n] by simp
  have ram: "ram_bytes ?r (fb_buf st) (length bytes) = bytes"
    using ram_bytes_ram_put [of 0 "length bytes" bytes "fb_ram st" "fb_buf st"] lb by simp
  have ld: "loaded (mach_ram ?w) (fb_buf st) bytes"
    unfolding loaded_def
  proof (intro allI impI)
    fix i assume i: "i < length bytes"
    have "ram_bytes ?r (fb_buf st) (length bytes) ! i = ?r (fb_buf st + of_nat i)" using i by (simp add: ram_bytes_def)
    then show "mach_ram ?w (fb_buf st + of_nat i) = bytes ! i" unfolding ram by simp
  qed
  have pres: "present ?w h" using assms(14) by (simp add: present_def)
  have at: "chunks_at bytes (0 + 28) cs" using assms(8) by simp
  obtain w where w: "write_compressed_ext4 (fb_run env) (fb_dev st) (fb_buf st) bytes 0 s ?w = Some (w, 0)"
    "mach_cards w = (mach_cards ?w)(fb_dev st := sparse (mach_cards ?w (fb_dev st)) (unat s) cs)"
    using write_compressed_ext4_stores [OF assms(5-7) at assms(9,12,13) pres ld assms(16,17)] unfolding assms(11,15) by blast
  have wr: "write_mmc_ptn env p (fb_buf st) (downloaded n bytes g st) =
      Some ((downloaded n bytes g st)\<lparr>fb_raw := fb_raw st, fb_mach := w\<rparr>, Ret 0)" for g
  proof -
    have "fb_ram (downloaded n bytes g st) = ram_put (fb_ram st) (fb_buf (downloaded n bytes g st)) bytes" by simp
    from buffer_from_put [OF this] im obtain r where r: "buffer_from (downloaded n bytes g st) (fb_buf st) = bytes @ r"
      by (auto simp: word_le_nat_alt)
    have "(downloaded n bytes g st)\<lparr>fb_raw := fb_raw st, fb_mach := w\<rparr> = (downloaded n bytes g st)\<lparr>fb_mach := w\<rparr>"
      by (cases st) (simp add: downloaded_def set_ram_def)
    then show ?thesis
      using check_app [OF assms(5), of r] write_compressed_app [OF w(1), of r] assms(10)
      by (simp add: write_mmc_ptn_def device_text hex_arg_is r same CFG_FASTBOOT_SDMMC_BLOCKSIZE_def)
  qed
  show ?thesis using flash_polls [OF assms(1-3), where ra = "fb_raw st" and w = w, OF _ refl] wr assms(4) w(2) by auto
qed

theorem flash_compressed_stores_witness:
  "\<exists>st'. polls ex_calls [Packet (txt_bytes ''flash:'' @ txt_bytes ''system''), Ready]
      (downloaded 4164 ex_image (replicate 513 0) (ex_board 1)) = Some st' \<and>
    mach_cards (fb_mach st') 1 0x20007 = replicate 512 7 \<and> mach_cards (fb_mach st') 1 0x20008 = replicate 512 9"
proof -
  have i: "has_image 4164 ex_image (replicate 513 0) (ex_board 1)" by (rule ex_image_there) (simp_all add: ex_image_length)
  have t: "takes (ex_board 1) (txt_bytes ''system'') (card_partition ''system'' 0x20000 0x80000) 4164" by (rule ex_takes) simp
  have p: "has_flag (card_partition ''system'' 0x20000 0x80000) FASTBOOT_PTENTRY_FLAGS_USE_MMC_CMD"
    "0x20000 = pt_start (card_partition ''system'' 0x20000 0x80000) div 512" "pt_length (card_partition ''system'' 0x20000 0x80000) = 0x10000000"
    by (simp_all add: card_partition_def has_flag_def FASTBOOT_PTENTRY_FLAGS_USE_MMC_CMD_def)
  have c: "check_compress_ext4 ex_image 0 (pt_length (card_partition ''system'' 0x20000 0x80000)) = Some (Result 0)"
    unfolding p(3) using ex_image_header
    by (simp add: check_compress_ext4_def header_ok_def EXT4_FILE_HEADER_MAGIC_def EXT4_FILE_HEADER_MAJOR_def
        EXT4_FILE_HEADER_SIZE_def EXT4_CHUNK_HEADER_SIZE_def EXT4_FILE_BLOCK_SIZE_def)
  have n: "fh_total_chunks ex_image 0 = Some (of_nat (length ex_chunks))" "length ex_chunks < 2 ^ 32" "\<forall>c \<in> set ex_chunks. chunk_ok c"
    using ex_image_header by (simp_all add: ex_chunks_def EXT4_CHUNK_TYPE_RAW_def)
  have o: "present (fb_mach (ex_board 1)) ideal_dev" "d_dev ideal_dev = fb_dev (ex_board 1)" using two_present by simp_all
  have h: "off_heap ideal_heap (fb_buf (ex_board 1)) (length ex_image)" using off_transfer_heap by (simp add: ex_image_length)
  have s: "unat (0x20000 :: u32) + sectors ex_chunks \<le> unat (d_capacity ideal_dev)" by (simp add: two_present ex_chunks_def)
  have sp: "sparse (mach_cards two_cards 1) 0x20000 ex_chunks 0x20007 = replicate 512 7"
    "sparse (mach_cards two_cards 1) 0x20000 ex_chunks 0x20008 = replicate 512 9"
    by (simp_all add: ex_chunks_def put_bytes_def two_cards_def EXT4_CHUNK_TYPE_RAW_def)
  show ?thesis
    using flash_compressed_stores [OF i t ex_calls_simps(1) p(1) c n(1,2) ex_image_chunks n(3) p(2) ex_calls_simps(5)
        ex_flash_ok ex_bufs o h s] sp by auto
qed

section \<open>The raw areas\<close>

text \<open>The areas: the letter, the first block and the number of blocks for an image of \<open>n\<close> bytes.\<close>

lemma flash_area_lines:
  assumes "has_image n bytes f st" and "takes st name p n" and "card_boot env"
    and "pt_flags p = FASTBOOT_PTENTRY_FLAGS_USE_MOVI_CMD" and "fb_area st name = Some (area, sized)"
    and "laid_out s (fb_raw st)" and "fb_om env = BOOT_MMCSD \<longrightarrow> (\<exists>n. fb_mmc0 env = Some n \<and> 0 \<notin> set n)"
    and "run_lines (fb_run env) (map join_words (movi_words (fb_movi_env env st) s True area (fb_buf st) (rounded_size n)))
      ((fb_mach st)\<lparr>mach_ram := ram_put (fb_ram st) (fb_buf st) bytes\<rparr>) = Some w"
  shows "\<exists>st'. polls env [Packet (txt_bytes ''flash:'' @ name), Ready] (downloaded n bytes f st) = Some st' \<and>
    sent st' = sent (downloaded n bytes f st) @ [Stale (txt_bytes ''OKAY'')] \<and> fb_mach st' = w \<and> laid_out s (fb_raw st')"
proof -
  have flags: "\<not> has_flag p FASTBOOT_PTENTRY_FLAGS_USE_MMC_CMD" "has_flag p FASTBOOT_PTENTRY_FLAGS_USE_MOVI_CMD"
    using assms(4) by (simp_all add: has_flag_def FASTBOOT_PTENTRY_FLAGS_USE_MMC_CMD_def FASTBOOT_PTENTRY_FLAGS_USE_MOVI_CMD_def)
  have pn: "pt_name p = name" using assms(2) by (auto simp: takes_def ptn_of_def find_Some_iff)
  have same: "fb_mach (downloaded n bytes g st) = (fb_mach st)\<lparr>mach_ram := ram_put (fb_ram st) (fb_buf st) bytes\<rparr>"
    "fb_movi_env env (downloaded n bytes g st) = fb_movi_env env st" for g
    by (simp_all add: downloaded_def set_ram_def fb_movi_env_def)
  let ?g = "fifo_after env f (txt_bytes ''flash:'' @ name)"
  have area: "fb_area (downloaded n bytes ?g st) (pt_name p) = Some (area, sized)"
  proof -
    have "fb_area (downloaded n bytes ?g st) name = fb_area st name" by (simp add: fb_area_def)
    then show ?thesis using assms(5) unfolding pn by (simp only:)
  qed
  have lo: "laid_out s (fb_raw (downloaded n bytes ?g st))" using assms(6) by simp
  obtain ra where ra: "laid_out s ra" "write_movi_ptn env p (fb_buf st) n (downloaded n bytes ?g st) =
      Some ((downloaded n bytes ?g st)\<lparr>fb_raw := ra, fb_mach := w\<rparr>, Ret 0)"
    using write_movi_lines [OF area lo assms(7), of "fb_buf st" n] assms(8) unfolding same by auto
  then show ?thesis
    using flash_polls [OF assms(1-3), where ra = ra and w = w, OF _ refl] flags by auto
qed

text \<open>C17. Flashing an area of the raw part of the card after a download (the kernel, the ramdisk, the recovery image, or the boot
  loader of a second card): \<open>OKAY\<close>, and the blocks of the area hold the image. As many blocks
  are written as the area has, for the kernel and the boot loader, and as the image has, for the others.\<close>

theorem flash_area_stores:
  assumes "has_image n bytes f st" and "takes st name p n" and "card_boot env"
    and "pt_flags p = FASTBOOT_PTENTRY_FLAGS_USE_MOVI_CMD" and "fb_area st name = Some (area, sized)" and "area \<noteq> 101"
    and "laid_out s (fb_raw st)" and "fb_om env = BOOT_MMCSD \<longrightarrow> (\<exists>n. fb_mmc0 env = Some n \<and> 0 \<notin> set n)"
    and "movi_target (fb_movi_env env st) s area (rounded_size n) = (d_dev h, blk, cnt)" and "unat cnt mod 0xFFFF \<noteq> 0"
    and "fb_run env = shell_run shenv cmdbuf finaltoken av" and "flash_ok shenv drv k h heap" and "bufs cmdbuf finaltoken av"
    and "present (fb_mach st) h" and "off_heap heap (fb_buf st) (512 * unat cnt)" and "unat blk + unat cnt \<le> unat (d_capacity h)"
    and "512 * unat cnt < 2 ^ 32"
  shows "\<exists>st'. polls env [Packet (txt_bytes ''flash:'' @ name), Ready] (downloaded n bytes f st) = Some st' \<and>
    sent st' = sent (downloaded n bytes f st) @ [Stale (txt_bytes ''OKAY'')] \<and>
    (\<forall>d b. mach_cards (fb_mach st') d b = (if d = d_dev h \<and> unat (b - blk) < unat cnt
       then ram_block (ram_put (fb_ram st) (fb_buf st) bytes) (fb_buf st) (unat (b - blk)) else mach_cards (fb_mach st) d b)) \<and>
    (\<forall>j. 512 * j + 512 \<le> length bytes \<longrightarrow> j < unat cnt \<longrightarrow>
       mach_cards (fb_mach st') (d_dev h) (blk + of_nat j) = take 512 (drop (512 * j) bytes))"
proof -
  let ?r = "ram_put (fb_ram st) (fb_buf st) bytes"
  let ?w = "(fb_mach st)\<lparr>mach_ram := ?r\<rparr>"
  have lb: "length bytes < 2 ^ 32" using assms(1) unat_less [of n] by (simp add: has_image_def)
  have d: "movi_words (fb_movi_env env st) s True area (fb_buf st) (rounded_size n) =
      [mmc_words True (dev_text (d_dev h)) (fb_buf st) blk cnt]"
    using movi_words_target [OF assms(6,9), of True "fb_buf st"] by simp
  have pres: "present ?w h" using assms(14) by (simp add: present_def)
  have ok: "runs_mmc shenv drv k" "obeys drv h" "heap_ok drv heap" "d_dev h = 0 \<or> d_dev h = 1" using assms(12) by (simp_all add: flash_ok_def)
  have bf: "length cmdbuf = CBSIZE" "length finaltoken = CBSIZE" "length av = MAXARGS + 1" using assms(13) by (simp_all add: bufs_def)
  obtain w where w: "fb_run env (join_words (mmc_words True (dev_text (d_dev h)) (fb_buf st) blk cnt)) ?w = Some (w, 1)"
    "stored heap (d_dev h) blk (fb_buf st) (unat cnt) ?w w"
    using line_stores [OF ok(1,2) pres ok(3,4) assms(15,16,17,10) bf, of 0] unfolding assms(11) shell_run_def by blast
  have run: "run_lines (fb_run env) (map join_words (movi_words (fb_movi_env env st) s True area (fb_buf st) (rounded_size n))) ?w = Some w"
    using w(1) by (simp add: d)
  have cards: "mach_cards w e b = (if e = d_dev h \<and> unat (b - blk) < unat cnt then ram_block ?r (fb_buf st) (unat (b - blk))
      else mach_cards (fb_mach st) e b)" for e b
    using w(2) by (simp add: stored_def put_blocks_def)
  have blocks: "mach_cards w (d_dev h) (blk + of_nat j) = take 512 (drop (512 * j) bytes)"
    if "512 * j + 512 \<le> length bytes" "j < unat cnt" for j
  proof -
    have "unat (of_nat j :: u32) = j" using that(1) lb by (intro unat_of_small) simp
    then show ?thesis using that(2) cards [of "d_dev h" "blk + of_nat j"] blocks_of_image [OF lb that(1), of "fb_ram st" "fb_buf st"] by simp
  qed
  obtain st' where st': "polls env [Packet (txt_bytes ''flash:'' @ name), Ready] (downloaded n bytes f st) = Some st'"
    "sent st' = sent (downloaded n bytes f st) @ [Stale (txt_bytes ''OKAY'')]" "fb_mach st' = w"
    using flash_area_lines [OF assms(1-5,7,8) run] by blast
  show ?thesis
    by (intro exI [of _ st'] conjI st'(1,2)) (use cards blocks in \<open>simp_all only: st'(3), blast+\<close>)
qed

theorem flash_area_stores_witness:
  "\<exists>st'. polls ex_calls [Packet (txt_bytes ''flash:'' @ txt_bytes ''ramdisk''), Ready]
      (downloaded 0x200200 (replicate 0x200200 5) (replicate 513 0) (ex_board 1)) = Some st' \<and>
    mach_cards (fb_mach st') 1 13408 = replicate 512 5 \<and> mach_cards (fb_mach st') 1 17504 = replicate 512 5"
proof -
  have i: "has_image 0x200200 (replicate 0x200200 5) (replicate 513 0) (ex_board 1)" by (rule ex_image_there) simp_all
  have t: "takes (ex_board 1) (txt_bytes ''ramdisk'')
      \<lparr>pt_name = txt_bytes ''ramdisk'', pt_start = 0, pt_length = 0x300000, pt_flags = FASTBOOT_PTENTRY_FLAGS_USE_MOVI_CMD\<rparr> 0x200200"
    by (rule ex_takes) simp
  have a: "fb_area (ex_board 1) (txt_bytes ''ramdisk'') = Some (114, True)" by (simp add: fb_area_def txt_bytes_def)
  have lo: "laid_out 0 (fb_raw (ex_board 1))" using ex_table_laid_out by simp
  have n: "fb_om ex_calls = BOOT_MMCSD \<longrightarrow> (\<exists>n. fb_mmc0 ex_calls = Some n \<and> 0 \<notin> set n)" by (simp add: emmc_name_chars)
  have tg: "movi_target (fb_movi_env ex_calls (ex_board 1)) 0 114 (rounded_size 0x200200) = (d_dev ideal_dev, 13408, 4097)"
    by (simp add: movi_target_def movi_dev_def boot_card_def fb_movi_env_def rounded_size_def blocks_for_def two_present
        CFG_FASTBOOT_SDMMC_BLOCKSIZE_def)
  have o: "present (fb_mach (ex_board 1)) ideal_dev" using two_present by simp
  have h: "off_heap ideal_heap (fb_buf (ex_board 1)) (512 * unat (4097 :: u32))" using off_transfer_heap by simp
  have c: "unat (13408 :: u32) + unat (4097 :: u32) \<le> unat (d_capacity ideal_dev)" by (simp add: two_present)
  obtain st' where st': "polls ex_calls [Packet (txt_bytes ''flash:'' @ txt_bytes ''ramdisk''), Ready]
      (downloaded 0x200200 (replicate 0x200200 5) (replicate 513 0) (ex_board 1)) = Some st'"
    "\<forall>j. 512 * j + 512 \<le> length (replicate 0x200200 (5 :: byte)) \<longrightarrow> j < unat (4097 :: u32) \<longrightarrow>
       mach_cards (fb_mach st') (d_dev ideal_dev) (13408 + of_nat j) = take 512 (drop (512 * j) (replicate 0x200200 5))"
    using flash_area_stores [OF i t ex_calls_simps(1) _ a _ lo n tg _ ex_calls_simps(5) ex_flash_ok ex_bufs o h c] by auto
  have "mach_cards (fb_mach st') 1 (13408 + of_nat j) = replicate 512 5" if "j \<in> {0, 4096}" for j
    using st'(2) [rule_format, of j] that by (auto simp: two_present)
  from this [of 0] this [of 4096] st'(1) show ?thesis by simp
qed

text \<open>The answer to flashing such an area does not depend on the card: it is \<open>OKAY\<close>, also when every line that
  \<^verbatim>\<open>movi\<close> gave to the command parser failed and nothing was stored.\<close>

theorem flash_area_ignores_errors:
  assumes "has_image n bytes f st" and "takes st name p n" and "card_boot env"
    and "pt_flags p = FASTBOOT_PTENTRY_FLAGS_USE_MOVI_CMD" and "fb_area st name = Some (area, sized)"
    and "laid_out s (fb_raw st)" and "fb_om env = BOOT_MMCSD \<longrightarrow> (\<exists>n. fb_mmc0 env = Some n \<and> 0 \<notin> set n)"
    and "\<forall>l w. fb_run env l w = Some (w, - 1)"
  shows "\<exists>st'. polls env [Packet (txt_bytes ''flash:'' @ name), Ready] (downloaded n bytes f st) = Some st' \<and>
    sent st' = sent (downloaded n bytes f st) @ [Stale (txt_bytes ''OKAY'')] \<and>
    mach_cards (fb_mach st') = mach_cards (fb_mach st)"
proof -
  have run: "run_lines (fb_run env) ls w = Some w" for ls w using assms(8) by (induction ls arbitrary: w) simp_all
  show ?thesis using flash_area_lines [OF assms(1-7) run] by fastforce
qed

theorem flash_area_ignores_errors_witness:
  "\<exists>st'. polls (ex_calls\<lparr>fb_run := \<lambda>l w. Some (w, - 1)\<rparr>) [Packet (txt_bytes ''flash:'' @ txt_bytes ''ramdisk''), Ready]
      (downloaded 600 (replicate 600 5) (replicate 513 0) (ex_board 1)) = Some st' \<and>
    last (sent st') = Stale (txt_bytes ''OKAY'') \<and> mach_cards (fb_mach st') 1 13408 = replicate 512 9"
proof -
  have i: "has_image 600 (replicate 600 5) (replicate 513 0) (ex_board 1)" by (rule ex_image_there) simp_all
  have t: "takes (ex_board 1) (txt_bytes ''ramdisk'')
      \<lparr>pt_name = txt_bytes ''ramdisk'', pt_start = 0, pt_length = 0x300000, pt_flags = FASTBOOT_PTENTRY_FLAGS_USE_MOVI_CMD\<rparr> 600"
    by (rule ex_takes) simp
  have a: "fb_area (ex_board 1) (txt_bytes ''ramdisk'') = Some (114, True)" by (simp add: fb_area_def txt_bytes_def)
  let ?env = "ex_calls\<lparr>fb_run := \<lambda>l w. Some (w, - 1)\<rparr>"
  have lo: "laid_out 0 (fb_raw (ex_board 1))" using ex_table_laid_out by simp
  have n: "card_boot ?env" "fb_om ?env = BOOT_MMCSD \<longrightarrow> (\<exists>n. fb_mmc0 ?env = Some n \<and> 0 \<notin> set n)" by (simp_all add: emmc_name_chars card_boot_def)
  show ?thesis
    using flash_area_ignores_errors [OF i t n(1) _ a lo n(2)] by (auto simp: two_cards_def)
qed

section \<open>The table of a card\<close>

lemma put_ptn_with:
  assumes "length ps < length (ptable st)"
  shows "put_ptn name s l fl (table_with st ps) =
    Some (table_with st (ps @ [\<lparr>pt_name = name, pt_start = s, pt_length = l, pt_flags = fl\<rparr>]))"
proof -
  have "drop (length ps) (ptable st) = ptable st ! length ps # drop (Suc (length ps)) (ptable st)"
    using assms by (simp add: Cons_nth_drop_Suc)
  then show ?thesis using assms by (cases st) (simp add: put_ptn_def table_with_def)
qed

lemma card_dev: "dev_number (txt_bytes (if d = 0 then ''0'' else ''1'')) = Some (if d = (0 :: u32) then 0 else 1)"
proof -
  have "dev_number (txt_bytes ''0'') = Some 0" "dev_number (txt_bytes ''1'') = Some 1" by code_simp+
  then show ?thesis by simp
qed

lemma card_ptn_is:
  assumes "sector_of env st e" and "n = i + 1" and "i < 4" and "length ps < length (ptable st)"
  shows "card_ptn env n want name (table_with st ps, old) =
    (case e i of (k, s, c) \<Rightarrow> if k = want
      then Some (table_with st (ps @ [\<lparr>pt_name = name, pt_start = s * 512, pt_length = c * 512, pt_flags = FASTBOOT_PTENTRY_FLAGS_USE_MMC_CMD\<rparr>]), (s, c, k), True)
      else Some (table_with st ps, (s, c, k), False))"
proof -
  have same: "fb_dev (table_with st ps) = fb_dev st" "fb_mach (table_with st ps) = fb_mach st" by (simp_all add: table_with_def)
  obtain m g b where m: "mmc_geometry (fb_ops env) (fb_mach st) (if fb_dev st = 0 then 0 else 1) = Some g"
    "mmc_read (fb_ops env) (fb_mach st) (if fb_dev st = 0 then 0 else 1) 0 = Some m"
    "decode_partitionInfo m (0x1BE + 16 * i) = Some (b, e i)" using assms(1,3) by (auto simp: sector_of_def)
  obtain k s c where e: "e i = (k, s, c)" by (cases "e i")
  have "get_mmc_mbr (fb_ops env) (fb_mach st) (txt_bytes (if fb_dev st = 0 then ''0'' else ''1'')) = Some (Some m)"
    using m(1,2) by (simp only: get_mmc_mbr_def card_dev) simp
  then have "get_mmc_part_info (fb_ops env) (fb_mach st) (txt_bytes (if fb_dev st = 0 then ''0'' else ''1'')) n = Some (Some (s, c, k))"
    using m(3) assms(2,3) by (simp add: get_mmc_part_info_def e)
  then show ?thesis
    by (simp add: card_ptn_def same e put_ptn_with [OF assms(4)] CFG_FASTBOOT_SDMMC_BLOCKSIZE_def)
qed

text \<open>The steps of the table, entry by entry.\<close>

lemma card_table_is:
  assumes "sector_of env st e" and "length (ptable st) = 16"
  shows "\<exists>st' r. set_partition_table_sdmmc env unset st = Some (st', r) \<and>
    (r = 0 \<longleftrightarrow> map (fst \<circ> e) [0, 1, 2, 3] = [0x0C, 0x83, 0x83, 0x83]) \<and>
    (r = 0 \<longrightarrow> st' = table_with st (partitions_of e))"
proof -
  have z: "st\<lparr>pcount := 0\<rparr> = table_with st []" by (cases st) (simp add: table_with_def)
  have t: "set_partition_table_sdmmc env unset st =
      card_ptns env [(2, 0x83, txt_bytes ''system''), (3, 0x83, txt_bytes ''userdata''), (4, 0x83, txt_bytes ''cache''),
       (1, 0xc, txt_bytes ''fat'')] (table_with st raw_partitions, unset)"
    using assms(2) by (simp add: set_partition_table_sdmmc_def z put_ptn_with raw_partitions_def)
  note c = card_ptn_is [OF assms(1)]
  have n: "length raw_partitions = 4" by (simp add: raw_partitions_def)
  obtain k0 s0 c0 k1 s1 c1 k2 s2 c2 k3 s3 c3 where e: "e 0 = (k0, s0, c0)" "e 1 = (k1, s1, c1)" "e 2 = (k2, s2, c2)" "e 3 = (k3, s3, c3)"
    by (cases "e 0", cases "e 1", cases "e 2", cases "e 3")
  have steps: "length ps < 16 \<Longrightarrow> card_ptn env 2 want name (table_with st ps, old) = (if k1 = want
      then Some (table_with st (ps @ [\<lparr>pt_name = name, pt_start = s1 * 512, pt_length = c1 * 512, pt_flags = FASTBOOT_PTENTRY_FLAGS_USE_MMC_CMD\<rparr>]), (s1, c1, k1), True)
      else Some (table_with st ps, (s1, c1, k1), False))"
    "length ps < 16 \<Longrightarrow> card_ptn env 3 want name (table_with st ps, old) = (if k2 = want
      then Some (table_with st (ps @ [\<lparr>pt_name = name, pt_start = s2 * 512, pt_length = c2 * 512, pt_flags = FASTBOOT_PTENTRY_FLAGS_USE_MMC_CMD\<rparr>]), (s2, c2, k2), True)
      else Some (table_with st ps, (s2, c2, k2), False))"
    "length ps < 16 \<Longrightarrow> card_ptn env 4 want name (table_with st ps, old) = (if k3 = want
      then Some (table_with st (ps @ [\<lparr>pt_name = name, pt_start = s3 * 512, pt_length = c3 * 512, pt_flags = FASTBOOT_PTENTRY_FLAGS_USE_MMC_CMD\<rparr>]), (s3, c3, k3), True)
      else Some (table_with st ps, (s3, c3, k3), False))"
    "length ps < 16 \<Longrightarrow> card_ptn env 1 want name (table_with st ps, old) = (if k0 = want
      then Some (table_with st (ps @ [\<lparr>pt_name = name, pt_start = s0 * 512, pt_length = c0 * 512, pt_flags = FASTBOOT_PTENTRY_FLAGS_USE_MMC_CMD\<rparr>]), (s0, c0, k0), True)
      else Some (table_with st ps, (s0, c0, k0), False))" for ps want name old
    using c [of 2 1] c [of 3 2] c [of 4 3] c [of 1 0] assms(2) e by simp_all
  show ?thesis unfolding t
    using e n steps(4) [unfolded One_nat_def] by (simp add: steps card_partition_def partitions_of_def)
qed

text \<open>C18. The partition table of a card with a readable first sector: it is accepted exactly when entry 1 is a FAT
  partition and entries 2 to 4 are Linux partitions. Then the table has the four areas of the raw part and, with the
  start and the length in bytes, cut to 32 bits, of their entries, the partitions system, userdata, cache and fat;
  nothing else is changed.\<close>

theorem card_table:
  assumes "sector_of env st e" and "length (ptable st) = 16"
  shows "\<exists>st' r. set_partition_table_sdmmc env unset st = Some (st', r) \<and>
    (r = 0 \<longleftrightarrow> map (fst \<circ> e) [0, 1, 2, 3] = [0x0C, 0x83, 0x83, 0x83]) \<and>
    (r = 0 \<longrightarrow> st' = table_with st (partitions_of e))"
  by (rule card_table_is [OF assms])

theorem card_table_witness:
  "\<exists>st'. set_partition_table_sdmmc ex_calls (0, 0, 0) (ex_board 0) = Some (st', 0) \<and> pcount st' = 8 \<and>
    pt_length (ptable st' ! 7) = 0x20000000"
  using card_table [OF ex_sector_of [of 0] ex_board_simps(7), of "(0, 0, 0)"]
  by (auto simp: ex_entries_def table_with_def partitions_of_def raw_partitions_def card_partition_def)

end
