(* ===== verification/FastbootSession.thy ===== *)
theory FastbootSession
  imports FastbootProps
begin

text \<open>
  The command \<^verbatim>\<open>fastboot\<close> from its line to its end, and the end of \<^verbatim>\<open>sdfuse\<close>.
\<close>

section \<open>Rounds of the loop\<close>

lemma fb_rounds_polls:
  assumes "polls env (map rd_event rs) st = Some st'"
  shows "fb_rounds env limit (rs @ qs) t st =
    fb_rounds env limit qs (if rs = [] then t else case limit of None \<Rightarrow> t | Some k \<Rightarrow> rd_time (last rs) + k) st'"
  using assms
proof (induction rs arbitrary: st t)
  case (Cons r rs)
  obtain st1 where p: "fastboot_poll env (rd_event r) st = Some (st1, Ret FASTBOOT_OK)" "polls env (map rd_event rs) st1 = Some st'"
    using Cons.prems by (auto simp: bind_eq_Some_conv split: if_splits)
  have ok: "FASTBOOT_OK \<noteq> FASTBOOT_ERROR" "FASTBOOT_OK \<noteq> FASTBOOT_DISCONNECT" "FASTBOOT_OK \<noteq> FASTBOOT_INACTIVE"
    by (simp_all add: FASTBOOT_OK_def FASTBOOT_ERROR_def FASTBOOT_DISCONNECT_def FASTBOOT_INACTIVE_def)
  show ?case using p Cons.IH [OF p(2)] ok by (cases limit; cases "rs = []") auto
qed simp

lemma quiet_codes: "FASTBOOT_INACTIVE \<noteq> FASTBOOT_OK" "FASTBOOT_INACTIVE \<noteq> FASTBOOT_ERROR" "FASTBOOT_INACTIVE \<noteq> FASTBOOT_DISCONNECT"
  by (simp_all add: FASTBOOT_OK_def FASTBOOT_ERROR_def FASTBOOT_DISCONNECT_def FASTBOOT_INACTIVE_def)

lemma fb_rounds_ctrlc:
  assumes "polls env (map rd_event rs) st = Some st'" and "rd_event r = Quiet" and "rd_ctrlc r"
  shows "fb_rounds env limit (rs @ r # qs) t st = Some (st', Leave False)"
  using fb_rounds_polls [OF assms(1), of limit "r # qs" t] assms(2,3) quiet_codes by (simp add: fastboot_poll_def)

section \<open>The start of the command\<close>

lemma find_in_table:
  assumes "(name, i) \<in> set [(''system'', 1), (''userdata'', 2), (''cache'', 3), (''fat'', 0)]" and "e i = (k, s, c)"
  shows "find (\<lambda>p. pt_name p = txt_bytes name) (partitions_of e) = Some (card_partition name s c)"
proof -
  consider "name = ''system''" "i = 1" | "name = ''userdata''" "i = 2" | "name = ''cache''" "i = 3" | "name = ''fat''" "i = 0"
    using assms(1) by (simp only: list.set insert_iff prod.inject empty_iff) blast
  then show ?thesis using assms(2) by cases (simp_all add: partitions_of_def raw_partitions_def card_partition_def txt_bytes_def)
qed

text \<open>The state in which the first connection is polled.\<close>

definition set_up :: "'c fb_env \<Rightarrow> 'c fastboot \<Rightarrow> 'c fastboot" where
  "set_up env st =
     (let st = st\<lparr>fb_if := \<lparr>product_name = Some (txt_bytes ''smdkc210''), serial_no = Some (serial_number env),
        nand_block_size = CFG_FASTBOOT_PAGESIZE * 64, transfer_buffer = CFG_FASTBOOT_TRANSFER_BUFFER,
        transfer_buffer_size = CFG_FASTBOOT_TRANSFER_BUFFER_SIZE\<rparr>\<rparr>
      in set_ram (ram_put (fb_ram st) CFG_FASTBOOT_TRANSFER_BUFFER (replicate FASTBOOT_REBOOT_MAGIC_SIZE 0)) st)"

definition connected :: "'c fb_env \<Rightarrow> u32 \<Rightarrow> u32 \<Rightarrow> ptentry list \<Rightarrow> 'c fastboot \<Rightarrow> 'c fastboot" where
  "connected env fuse d ps st = set_up env (table_with (st\<lparr>fb_fuse := fuse, fb_dev := d\<rparr>) ps)"

text \<open>A link of the program that has put nothing of this state behind the array \<open>device_strings\<close>: the four pointers that
  \<open>fastboot_init\<close> stores there change nothing that is modelled. The array has two elements and the stores go to
  the indices 2 to 5, so that without such a link nothing can be said of the command.\<close>

definition no_spill :: "'c fb_env \<Rightarrow> bool" where
  "no_spill env \<longleftrightarrow> (\<forall>k s st. fb_spill env k s st = Some st)"

lemma init_no_spill: "no_spill env \<Longrightarrow> fastboot_init env st = Some (set_up env st, 0)"
  by (simp add: no_spill_def fastboot_init_def store_string_def set_up_def Let_def)


lemma connected_simps:
  "ptable (connected env fuse d ps st) = ps @ drop (length ps) (ptable st)" "pcount (connected env fuse d ps st) = length ps"
  "download_size (connected env fuse d ps st) = download_size st" "bulk_fifo (connected env fuse d ps st) = bulk_fifo st"
  "fb_buf (connected env fuse d ps st) = 0x48000000" "transfer_buffer_size (fb_if (connected env fuse d ps st)) = 0x36000000"
  "transfer_buffer (fb_if (connected env fuse d ps st)) = 0x48000000" "download_bytes (connected env fuse d ps st) = download_bytes st"
  "mach_cards (fb_mach (connected env fuse d ps st)) = mach_cards (fb_mach st)"
  "mach_devs (fb_mach (connected env fuse d ps st)) = mach_devs (fb_mach st)" "sent (connected env fuse d ps st) = sent st"
  "fb_dev (connected env fuse d ps st) = d"
  by (simp_all add: connected_def set_up_def Let_def table_with_def set_ram_def fb_buf_def CFG_FASTBOOT_TRANSFER_BUFFER_def
      CFG_FASTBOOT_TRANSFER_BUFFER_SIZE_def)

lemma do_fastboot_is:
  assumes "sector_of env (st\<lparr>fb_dev := d\<rparr>) e" and "map (fst \<circ> e) [0, 1, 2, 3] = [0x0C, 0x83, 0x83, 0x83]"
    and "length (ptable st) = 16" and "card_boot env"
    and "d = 0 \<and> argv = [cmd] \<or> d = 1 \<and> argv = [cmd, txt_bytes ''1''] \<and> find_mmc_device (mach_devs (fb_mach st)) 1 \<noteq> None"
    and "fb_rounds env None rs t (connected env (if d = 0 then 0 else 1) d (partitions_of e) st) = Some (st', Leave False)"
    and "no_spill env"
  shows "do_fastboot env tbclk unset argv [(t, rs)] st = Some (st'\<lparr>fb_dev := 0, fb_fuse := 0\<rparr>, Fb_ret 0)"
proof -
  let ?st = "st\<lparr>fb_fuse := if d = 0 then 0 else 1, fb_dev := d\<rparr>"
  have "simple_strtoul (txt_bytes ''1'' @ [0]) 0 10 = Some (1, 1)" by code_simp
  then have a: "(if length argv = 1 then Some (0, 0) else do { a \<leftarrow> rd argv 1; (n, _) \<leftarrow> simple_strtoul (a @ [0]) 0 10; Some (n, 1) }) =
      Some (d, if d = 0 then 0 else 1)" "length argv \<noteq> 3" "length argv \<noteq> 1 \<and> find_mmc_device (mach_devs (fb_mach st)) d = None \<longleftrightarrow> False"
    using assms(5) by (auto simp: rd_def)
  have om: "\<not> (fb_om env = BOOT_ONENAND \<or> fb_om env = BOOT_NAND)"
    using assms(4) by (auto simp: card_boot_def BOOT_ONENAND_def BOOT_NAND_def BOOT_MMCSD_def BOOT_EMMC441_def BOOT_EMMC43_def)
  have "sector_of env ?st e" using assms(1) by (simp add: sector_of_def)
  from card_table_is [OF this, of unset] assms(2,3) have
    "set_partition_table_sdmmc env unset ?st = Some (table_with ?st (partitions_of e), 0)" by auto
  then have t: "fb_table env unset ?st = Some (table_with ?st (partitions_of e), 0)" using om assms(4) by (simp add: fb_table_def)
  show ?thesis unfolding do_fastboot_def a(1)
    using a(2,3) t assms(6) init_no_spill [OF assms(7)] by (simp add: fb_limit_def Let_def connected_def)
qed

section \<open>A session\<close>

lemma times_512:
  assumes "unat (x :: u32) < 2 ^ 23"
  shows "unat (x * 512) = 512 * unat x" and "x * 512 div 512 = x"
proof -
  show u: "unat (x * 512) = 512 * unat x" using assms by (simp add: unat_word_ariths(2))
  have "unat (x * 512 div 512) = unat x" by (simp only: unat_div_distrib u) simp
  then show "x * 512 div 512 = x" by (simp only: word_unat_eq_iff)
qed

lemma partitions_names: "p \<in> set (partitions_of e) \<Longrightarrow> 0 \<notin> set (pt_name p)"
  by (auto simp: partitions_of_def raw_partitions_def card_partition_def txt_bytes_def)

lemma connected_takes:
  assumes "(name, i) \<in> set [(''system'', 1), (''userdata'', 2), (''cache'', 3), (''fat'', 0)]" and "e i = (k, s, c)"
    and "unat n \<le> 512 * unat c" and "unat c < 2 ^ 23"
  shows "takes (connected env fuse d (partitions_of e) st) (txt_bytes name) (card_partition name s c) n"
proof -
  have t: "take (pcount (connected env fuse d (partitions_of e) st)) (ptable (connected env fuse d (partitions_of e) st)) = partitions_of e"
    by (simp add: connected_simps)
  have n: "0 \<notin> set (txt_bytes name)" "length (txt_bytes name) < 58" "txt_bytes name \<noteq> txt_bytes ''boot''"
    using assms(1) by (auto simp: txt_bytes_def)
  have "n \<le> c * 512" unfolding word_le_nat_alt times_512(1) [OF assms(4)] by (rule assms(3))
  then show ?thesis
    using n find_in_table [where e = e, OF assms(1,2)] partitions_names
    unfolding takes_def names_ok_def ptn_of_def t
    by (simp add: card_partition_def has_flag_def FASTBOOT_PTENTRY_FLAGS_USE_MMC_CMD_def FASTBOOT_PTENTRY_FLAGS_WRITE_ENV_def)
qed

lemma last_packet: "ds \<noteq> [] \<Longrightarrow> \<forall>d \<in> set ds. d \<noteq> [] \<Longrightarrow> length (concat (butlast ds)) < length (concat ds)"
  by (induction ds rule: rev_induct) auto

lemma session_polls:
  assumes "fb_inv st" and "download_size st = 0" and "transfer_buffer_size (fb_if st) = 0x36000000"
    and "takes st name p n" and "card_boot env" and "has_flag p FASTBOOT_PTENTRY_FLAGS_USE_MMC_CMD"
    and "concat ds = bytes" and "\<forall>d \<in> set ds. d \<noteq> [] \<and> length d \<le> 512" and "length bytes = unat n" and "n \<le> 0x36000000"
    and "4 \<le> length bytes" and "get_le32 bytes \<noteq> EXT4_FILE_HEADER_MAGIC"
    and "s = pt_start p div 512" and "k = pt_length p div 512" and "unat k mod 0xFFFF \<noteq> 0"
    and "obeys (fb_drv env) h" and "present (fb_mach st) h" and "d_dev h = 0" and "heap_ok (fb_drv env) heap"
    and "off_heap heap (fb_buf st) (512 * unat k)" and "unat s + unat k \<le> unat (d_capacity h)"
  shows "\<exists>st'. polls env (Packet (txt_bytes ''download:'' @ hex8 n) # Ready # map Packet ds @
      [Ready, Packet (txt_bytes ''flash:'' @ name), Ready]) st = Some st' \<and>
    sent st' = sent st @ [Stale (txt_bytes ''DATA'' @ hex8 n), Stale (txt_bytes ''OKAY''), Stale (txt_bytes ''OKAY'')] \<and>
    (\<forall>a b. \<not> (a = 0 \<and> unat (b - s) < unat k) \<longrightarrow> mach_cards (fb_mach st') a b = mach_cards (fb_mach st) a b) \<and>
    (\<forall>j. 512 * j + 512 \<le> length bytes \<longrightarrow> mach_cards (fb_mach st') 0 (s + of_nat j) = take 512 (drop (512 * j) bytes))"
proof -
  have ne: "ds \<noteq> []" using assms(7,11) by auto
  have n0: "0 < n" using assms(9,11) by (metis le_zero_eq unat_0 word_gt_0 zero_neq_numeral)
  have l: "length (concat (butlast ds)) < unat n" "unat n \<le> length (concat ds)"
    using last_packet [OF ne] assms(7-9) by auto
  have t: "take (unat n) (concat ds) = bytes" using assms(7,9) by simp
  obtain f where f: "polls env (Packet (txt_bytes ''download:'' @ hex8 n) # Ready # map Packet ds @ [Ready]) st =
      Some (downloaded n bytes f st)" "fb_inv (downloaded n bytes f st)"
    using download_runs [OF assms(1,2) n0 _ assms(8) ne l, of env] assms(3,10) unfolding t by auto
  have im: "has_image n bytes f st" using f(2) assms(1,3,9,10) n0 by (simp add: has_image_def fb_inv_def)
  obtain st' where st': "polls env [Packet (txt_bytes ''flash:'' @ name), Ready] (downloaded n bytes f st) = Some st'"
    "sent st' = sent (downloaded n bytes f st) @ [Stale (txt_bytes ''OKAY'')]"
    "\<forall>d b. mach_cards (fb_mach st') d b = (if d = 0 \<and> unat (b - s) < unat k
       then ram_block (ram_put (fb_ram st) (fb_buf st) bytes) (fb_buf st) (unat (b - s)) else mach_cards (fb_mach st) d b)"
    "\<forall>j. 512 * j + 512 \<le> length bytes \<longrightarrow> mach_cards (fb_mach st') 0 (s + of_nat j) = take 512 (drop (512 * j) bytes)"
    using raw_flash_runs [OF im assms(4-6,11-21)] by blast
  have "polls env (Packet (txt_bytes ''download:'' @ hex8 n) # Ready # map Packet ds @ [Ready, Packet (txt_bytes ''flash:'' @ name), Ready]) st = Some st'"
    using f(1) st'(1) polls_append [of env "Packet (txt_bytes ''download:'' @ hex8 n) # Ready # map Packet ds @ [Ready]"
        "[Packet (txt_bytes ''flash:'' @ name), Ready]" st] by simp
  moreover have "sent st' = sent st @ [Stale (txt_bytes ''DATA'' @ hex8 n), Stale (txt_bytes ''OKAY''), Stale (txt_bytes ''OKAY'')]"
    unfolding st'(2) by (simp add: downloaded_def)
  ultimately show ?thesis using st'(3,4) by (intro exI [of _ st'] conjI) simp_all
qed

text \<open>C4. A whole run of the command \<^verbatim>\<open>fastboot\<close>, without an argument or with the number 1 of the second card, on a
  board that was started from a card: the table is read from the first sector of the card that was named, the
  host downloads an image that is not a compressed one, in packets of any size, flashes it to one of the four partitions of the
  card, takes the answers, and the user ends the command. The program is linked so that the four pointers which
  \<open>fastboot_init\<close> stores behind its array of two hit nothing that is modelled (\<open>no_spill\<close>). The command returns 0, the host was
  given its number repeated and \<open>OKAY\<close> twice, each out of an array that was there no more (\<open>Stale\<close>), the blocks of the partition hold the image, and no block outside the partition is
  changed. The partition is that of the table of the named card, but the blocks are always those of the first card.\<close>

theorem fastboot_session_flashes:
  assumes "sector_of env (st\<lparr>fb_dev := d\<rparr>) e" and "map (fst \<circ> e) [0, 1, 2, 3] = [0x0C, 0x83, 0x83, 0x83]"
    and "length (ptable st) = 16" and "card_boot env" and "fifo_ok (bulk_fifo st)" and "download_size st = 0" and "download_bytes st \<le> 0x36000000"
    and "d = 0 \<and> argv = [cmd] \<or> d = 1 \<and> argv = [cmd, txt_bytes ''1''] \<and> find_mmc_device (mach_devs (fb_mach st)) 1 \<noteq> None"
    and "(name, i) \<in> set [(''system'', 1), (''userdata'', 2), (''cache'', 3), (''fat'', 0)]" and "e i = (k, s, c)"
    and "unat s < 2 ^ 23" and "unat c < 2 ^ 23" and "unat c mod 0xFFFF \<noteq> 0"
    and "concat ds = bytes" and "\<forall>d \<in> set ds. d \<noteq> [] \<and> length d \<le> 512" and "length bytes = unat n" and "n \<le> 0x36000000"
    and "4 \<le> length bytes" and "length bytes \<le> 512 * unat c" and "get_le32 bytes \<noteq> EXT4_FILE_HEADER_MAGIC"
    and "obeys (fb_drv env) h" and "present (fb_mach st) h" and "d_dev h = 0" and "heap_ok (fb_drv env) heap"
    and "off_heap heap 0x48000000 (512 * unat c)" and "unat s + unat c \<le> unat (d_capacity h)"
    and "map rd_event rs = Packet (txt_bytes ''download:'' @ hex8 n) # Ready # map Packet ds @
      [Ready, Packet (txt_bytes ''flash:'' @ txt_bytes name), Ready]" and "rd_event r = Quiet" and "rd_ctrlc r" and "no_spill env"
  shows "\<exists>st'. do_fastboot env tbclk unset argv [(t, rs @ [r])] st = Some (st', Fb_ret 0) \<and>
    sent st' = sent st @ [Stale (txt_bytes ''DATA'' @ hex8 n), Stale (txt_bytes ''OKAY''), Stale (txt_bytes ''OKAY'')] \<and>
    (\<forall>a b. \<not> (a = 0 \<and> unat (b - s) < unat c) \<longrightarrow> mach_cards (fb_mach st') a b = mach_cards (fb_mach st) a b) \<and>
    (\<forall>j. 512 * j + 512 \<le> length bytes \<longrightarrow> mach_cards (fb_mach st') 0 (s + of_nat j) = take 512 (drop (512 * j) bytes))"
proof -
  let ?c = "connected env (if d = 0 then 0 else 1) d (partitions_of e) st"
  have inv: "fb_inv ?c" "download_size ?c = 0" "transfer_buffer_size (fb_if ?c) = 0x36000000"
    using assms(5-7) by (simp_all add: fb_inv_def connected_simps)
  have tk: "takes ?c (txt_bytes name) (card_partition name s c) n"
    by (rule connected_takes [where e = e, OF assms(9,10) _ assms(12)]) (use assms(16,19) in simp)
  have p: "has_flag (card_partition name s c) FASTBOOT_PTENTRY_FLAGS_USE_MMC_CMD"
    "s = pt_start (card_partition name s c) div 512" "c = pt_length (card_partition name s c) div 512"
    using times_512(2) [OF assms(11)] times_512(2) [OF assms(12)]
    by (simp_all add: card_partition_def has_flag_def FASTBOOT_PTENTRY_FLAGS_USE_MMC_CMD_def)
  have pr: "present (fb_mach ?c) h" using assms(22) by (simp add: present_def connected_simps)
  have oh: "off_heap heap (fb_buf ?c) (512 * unat c)" using assms(25) by (simp add: connected_simps)
  obtain st' where st': "polls env (map rd_event rs) ?c = Some st'"
    "sent st' = sent ?c @ [Stale (txt_bytes ''DATA'' @ hex8 n), Stale (txt_bytes ''OKAY''), Stale (txt_bytes ''OKAY'')]"
    "\<forall>a b. \<not> (a = 0 \<and> unat (b - s) < unat c) \<longrightarrow> mach_cards (fb_mach st') a b = mach_cards (fb_mach ?c) a b"
    "\<forall>j. 512 * j + 512 \<le> length bytes \<longrightarrow> mach_cards (fb_mach st') 0 (s + of_nat j) = take 512 (drop (512 * j) bytes)"
    using session_polls [OF inv tk assms(4) p(1) assms(14-18,20) p(2,3) assms(13,21) pr assms(23,24) oh assms(26)]
    unfolding assms(27) by blast
  have "do_fastboot env tbclk unset argv [(t, rs @ [r])] st = Some (st'\<lparr>fb_dev := 0, fb_fuse := 0\<rparr>, Fb_ret 0)"
    by (rule do_fastboot_is [OF assms(1-4,8) fb_rounds_ctrlc [OF st'(1) assms(28,29), of None "[]"] assms(30)])
  then show ?thesis using st' by (simp add: connected_simps)
qed

definition ex_round :: "usb_event \<Rightarrow> round" where
  "ex_round ev = \<lparr>rd_event = ev, rd_time = 100, rd_ctrlc = False\<rparr>"

lemma ex_no_spill: "no_spill ex_calls"
  by (simp add: no_spill_def ex_calls_def)

theorem fastboot_session_flashes_witness:
  "\<exists>st'. do_fastboot ex_calls 1000 (0, 0, 0) [txt_bytes ''fastboot'', txt_bytes ''1'']
      [(0, map ex_round [Packet (txt_bytes ''download:00000258''), Ready, Packet (replicate 512 5), Packet (replicate 88 5), Ready,
        Packet (txt_bytes ''flash:'' @ txt_bytes ''system''), Ready] @ [\<lparr>rd_event = Quiet, rd_time = 200, rd_ctrlc = True\<rparr>])] (ex_board 1) =
      Some (st', Fb_ret 0) \<and>
    sent st' = [Stale (txt_bytes ''DATA00000258''), Stale (txt_bytes ''OKAY''), Stale (txt_bytes ''OKAY'')] \<and>
    mach_cards (fb_mach st') 0 0x20000 = replicate 512 5 \<and> mach_cards (fb_mach st') 1 0x20000 = replicate 512 9"
proof -
  have h: "txt_bytes ''download:'' @ hex8 0x258 = txt_bytes ''download:00000258''" "txt_bytes ''DATA'' @ hex8 0x258 = txt_bytes ''DATA00000258''"
    by code_simp+
  let ?rs = "map ex_round [Packet (txt_bytes ''download:'' @ hex8 0x258), Ready, Packet (replicate 512 5), Packet (replicate 88 5), Ready,
        Packet (txt_bytes ''flash:'' @ txt_bytes ''system''), Ready]"
  let ?ds = "[replicate 512 5, replicate 88 (5 :: byte)]"
  have c: "concat ?ds = replicate 600 5" "\<forall>d \<in> set ?ds. d \<noteq> [] \<and> length d \<le> 512" by (simp_all add: replicate_add [symmetric])
  have e: "sector_of ex_calls ((ex_board 1)\<lparr>fb_dev := 1\<rparr>) ex_entries" using ex_sector_of [of 1] by (simp add: ex_board_def)
  have t: "map (fst \<circ> ex_entries) [0, 1, 2, 3] = [0x0C, 0x83, 0x83, 0x83]" "ex_entries 1 = (0x83, 0x20000, 0x80000)" by (simp_all add: ex_entries_def)
  have b: "fifo_ok (bulk_fifo (ex_board 1))" "download_size (ex_board 1) = 0" "download_bytes (ex_board 1) \<le> 0x36000000"
    by (simp_all add: fifo_ok_def) (simp add: ex_board_def)
  have a: "(1 :: u32) = 0 \<and> [txt_bytes ''fastboot'', txt_bytes ''1''] = [txt_bytes ''fastboot''] \<or>
      (1 :: u32) = 1 \<and> [txt_bytes ''fastboot'', txt_bytes ''1''] = [txt_bytes ''fastboot'', txt_bytes ''1''] \<and>
      find_mmc_device (mach_devs (fb_mach (ex_board 1))) 1 \<noteq> None" using two_present(2) by (simp add: present_def two_present)
  have m: "get_le32 (replicate 600 5) \<noteq> EXT4_FILE_HEADER_MAGIC" by (simp add: get_le32_def EXT4_FILE_HEADER_MAGIC_def)
  have o: "obeys (fb_drv ex_calls) dev0" "heap_ok (fb_drv ex_calls) ideal_heap" "present (fb_mach (ex_board 1)) dev0"
    using dev0_ok(1) ideal_heap_ok two_present by simp_all
  have f: "off_heap ideal_heap 0x48000000 (512 * unat (0x80000 :: u32))" using off_transfer_heap [of "0x10000000"] by simp
  have i: "(''system'', 1) \<in> set [(''system'', 1), (''userdata'', 2), (''cache'', 3), (''fat'', 0 :: nat)]" by simp
  have u: "unat (0x20000 :: u32) + unat (0x80000 :: u32) \<le> unat (d_capacity dev0)" by (simp add: two_present)
  have s: "map rd_event ?rs = Packet (txt_bytes ''download:'' @ hex8 600) # Ready # map Packet ?ds @
      [Ready, Packet (txt_bytes ''flash:'' @ txt_bytes ''system''), Ready]" by (simp add: ex_round_def)
  have z: "unat (0x20000 :: u32) < 2 ^ 23" "unat (0x80000 :: u32) < 2 ^ 23" "unat (0x80000 :: u32) mod 0xFFFF \<noteq> 0"
    "length (replicate 600 (5 :: byte)) = unat (600 :: u32)" "(600 :: u32) \<le> 0x36000000" "4 \<le> length (replicate 600 (5 :: byte))"
    "length (replicate 600 (5 :: byte)) \<le> 512 * unat (0x80000 :: u32)" by simp_all
  have q: "rd_event \<lparr>rd_event = Quiet, rd_time = 200, rd_ctrlc = True\<rparr> = Quiet" "rd_ctrlc \<lparr>rd_event = Quiet, rd_time = 200, rd_ctrlc = True\<rparr>"
    by simp_all
  obtain st' where st': "do_fastboot ex_calls 1000 (0, 0, 0) [txt_bytes ''fastboot'', txt_bytes ''1'']
      [(0, ?rs @ [\<lparr>rd_event = Quiet, rd_time = 200, rd_ctrlc = True\<rparr>])] (ex_board 1) = Some (st', Fb_ret 0)"
    "sent st' = sent (ex_board 1) @ [Stale (txt_bytes ''DATA'' @ hex8 600), Stale (txt_bytes ''OKAY''), Stale (txt_bytes ''OKAY'')]"
    "\<forall>a b. \<not> (a = 0 \<and> unat (b - 0x20000) < unat (0x80000 :: u32)) \<longrightarrow> mach_cards (fb_mach st') a b = mach_cards (fb_mach (ex_board 1)) a b"
    "\<forall>j. 512 * j + 512 \<le> length (replicate 600 (5 :: byte)) \<longrightarrow>
      mach_cards (fb_mach st') 0 (0x20000 + of_nat j) = take 512 (drop (512 * j) (replicate 600 5))"
    using fastboot_session_flashes [where e = ex_entries and tbclk = 1000 and unset = "(0, 0, 0)" and t = 0,
        OF e t(1) ex_board_simps(7) ex_calls_simps(1) b a i t(2) z(1-3) c z(4-7) m o(1,3) two_present(3) o(2) f u s q ex_no_spill] by (elim exE conjE) (rule that)
  have "mach_cards (fb_mach st') 0 0x20000 = replicate 512 5" using st'(4) [rule_format, of 0] by simp
  moreover have "mach_cards (fb_mach st') 1 0x20000 = replicate 512 9" using st'(3) by (simp add: two_cards_def)
  ultimately show ?thesis using st'(1,2) unfolding h by auto
qed

section \<open>The limit of inactivity\<close>

lemma fb_rounds_quiet:
  assumes "\<forall>q \<in> set qs. rd_event q = Quiet \<and> \<not> rd_ctrlc q"
  shows "fb_rounds env (Some k) qs t st = Some (st, if \<exists>q \<in> set qs. t \<le> rd_time q then Leave False else Open)"
  using assms
proof (induction qs)
  case (Cons q qs)
  have "fastboot_poll env (rd_event q) st = Some (st, Ret FASTBOOT_INACTIVE)" using Cons.prems by (simp add: fastboot_poll_def)
  then show ?case using Cons quiet_codes by simp
qed simp

text \<open>C19. The limit of inactivity, when the start of the connection returned (whatever its stores behind
  \<open>device_strings\<close> left in the state): a host that has done something and then nothing ends the command, with 0, at the first round whose
  time is at least the time of the last action and the limit, in ticks, further; without such a round
  the command goes on. The number of ticks is a product of 32 bits.\<close>

theorem fastboot_idle_ends:
  assumes "simple_strtoul (dev @ [0]) 0 10 = Some (d, e1)" and "find_mmc_device (mach_devs (fb_mach st)) d \<noteq> None"
    and "simple_strtol (secs @ [0]) 0 10 = Some (n, e2)" and "e2 \<noteq> 0" and "0 \<le> sint n"
    and "fb_table env unset (st\<lparr>fb_fuse := 1, fb_dev := d\<rparr>) = Some (st1, 0)"
    and "fastboot_init env st1 = Some (st1', 0)" and "polls env (map rd_event rs) st1' = Some st2" and "rs \<noteq> []"
    and "\<forall>q \<in> set qs. rd_event q = Quiet \<and> \<not> rd_ctrlc q"
  shows "do_fastboot env tbclk unset [cmd, dev, secs] [(t, rs @ qs)] st = Some
    (if \<exists>q \<in> set qs. rd_time (last rs) + ucast (n * tbclk) \<le> rd_time q
     then (st2\<lparr>fb_dev := 0, fb_fuse := 0\<rparr>, Fb_ret 0) else (st2, Fb_open))"
proof -
  have l: "fb_limit tbclk [cmd, dev, secs] = Some (Some (ucast (n * tbclk)))" using assms(3-5) by (simp add: fb_limit_def rd_def)
  have r: "fb_rounds env (Some (ucast (n * tbclk))) (rs @ qs) t' st1' =
    Some (st2, if \<exists>q \<in> set qs. rd_time (last rs) + ucast (n * tbclk) \<le> rd_time q then Leave False else Open)" for t'
    using fb_rounds_polls [OF assms(8), of "Some (ucast (n * tbclk))" qs t'] assms(9) by (simp add: fb_rounds_quiet [OF assms(10)])
  show ?thesis unfolding do_fastboot_def using assms(1,2,6,7) l r by (simp add: rd_def Let_def)
qed

theorem fastboot_idle_ends_witness:
  "\<exists>st'. do_fastboot ex_calls 1000 (0, 0, 0) [txt_bytes ''fastboot'', txt_bytes ''0'', txt_bytes ''5'']
      [(0, [ex_round (Other True)] @ [ex_round Quiet, \<lparr>rd_event = Quiet, rd_time = 5100, rd_ctrlc = False\<rparr>])] (ex_board 0) = Some (st', Fb_ret 0)"
proof -
  have n: "simple_strtoul (txt_bytes ''0'' @ [0]) 0 10 = Some (0, 1)" "simple_strtol (txt_bytes ''5'' @ [0]) 0 10 = Some (5, 1)" by code_simp+
  have d: "find_mmc_device (mach_devs (fb_mach (ex_board 0))) 0 \<noteq> None" using two_present(1) by (simp add: present_def two_present)
  let ?st = "(ex_board 0)\<lparr>fb_fuse := 1, fb_dev := 0\<rparr>"
  have e: "sector_of ex_calls ?st ex_entries" using ex_sector_of [of 0] by (simp add: sector_of_def)
  have "set_partition_table_sdmmc ex_calls (0, 0, 0) ?st = Some (table_with ?st (partitions_of ex_entries), 0)"
    using card_table_is [OF e, of "(0, 0, 0)"] by (auto simp: ex_entries_def)
  then have t: "fb_table ex_calls (0, 0, 0) ?st = Some (table_with ?st (partitions_of ex_entries), 0)"
    by (simp add: fb_table_def BOOT_MMCSD_def BOOT_ONENAND_def BOOT_NAND_def)
  have p: "polls ex_calls (map rd_event [ex_round (Other True)]) s = Some s" for s
    by (simp add: ex_round_def fastboot_poll_def)
  show ?thesis
    using fastboot_idle_ends [OF n(1) d n(2) _ _ t init_no_spill [OF ex_no_spill] p, of "[ex_round Quiet, \<lparr>rd_event = Quiet, rd_time = 5100, rd_ctrlc = False\<rparr>]" 1000
        "txt_bytes ''fastboot''" 0] by (simp add: ex_round_def)
qed

section \<open>Updates from a card\<close>

text \<open>The directory and the name of the recovery image have 36 characters and are printed to an array of 32.\<close>

lemma recovery_name: "in_buffer (CFG_FASTBOOT_SDFUSE_DIR @ txt_bytes ''ramdisk-recovery-uboot.img'') = None"
  by (simp add: in_buffer_def CFG_FASTBOOT_SDFUSE_DIR_def txt_bytes_def)

lemma flashall_ends:
  assumes "\<forall>w. sd_get_dev sd w CFG_UPDATE_FILE_SRC_DEV \<and> sd_fat_register sd w"
    and "updates env sd (flashall_updates f) st = Some (st', Ret r)"
  shows "False"
proof -
  have stop: "updates env sd ((False, txt_bytes ''Recovery'', Some (txt_bytes ''ramdisk-recovery-uboot.img'')) # us) st = None" for us st
    using assms(1) recovery_name by (simp add: update_from_sd_def)
  have step: "\<exists>st'. updates env sd us st' = Some (st2, Ret r)" if a: "updates env sd ((False, part, img) # us) st1 = Some (st2, Ret r)"
    for part img us st1 st2
  proof -
    obtain st3 e where u: "update_from_sd env sd part img st1 = Some (st3, e)" using a by (auto simp: bind_eq_Some_conv)
    then show ?thesis using a by (cases e) auto
  qed
  note step [OF assms(2) [unfolded flashall_updates_def]]
  then have "\<exists>us s. updates env sd ((False, txt_bytes ''Recovery'', Some (txt_bytes ''ramdisk-recovery-uboot.img'')) # us) s = Some (st', Ret r)"
    by (elim exE) (drule step, elim exE, drule step, elim exE, intro exI)
  then show False using stop by simp
qed

text \<open>C20. Updating all images never succeeds. On a known board with a card that can be read, \<^verbatim>\<open>sdfuse flashall\<close>
  does not return 0: it reports an error before the images, or the image of the recovery system, whose name does
  not fit the array it is printed to, is reached (no result), or an image before it never lets the command return.\<close>

theorem sdfuse_flashall_fails:
  assumes "\<forall>w. sd_get_dev sd w CFG_UPDATE_FILE_SRC_DEV \<and> sd_fat_register sd w" and "loader_file sd \<noteq> None"
  shows "do_sdfuse env sd unset [cmd, txt_bytes ''flashall''] st \<noteq> Some (st', Ret 0)"
proof
  assume r: "do_sdfuse env sd unset [cmd, txt_bytes ''flashall''] st = Some (st', Ret 0)"
  obtain f where f: "loader_file sd = Some f" using assms(2) by auto
  have a: "arg_is [cmd, txt_bytes ''flashall''] 1 ''info'' = Some False" "arg_is [cmd, txt_bytes ''flashall''] 1 ''flashall'' = Some True"
    by (subst arg_is_eq; simp add: txt_bytes_def)+
  have "sdfuse_rest env sd [cmd, txt_bytes ''flashall''] s \<noteq> Some (st', Ret 0)" for s
    using flashall_ends [OF assms(1), of env f s] f a
    by (auto simp: sdfuse_rest_def bind_eq_Some_conv split: ending.splits)
  then show False using r a
    by (auto simp: do_sdfuse_def bind_eq_Some_conv Let_def split: option.splits prod.splits if_splits)
qed

definition ex_sd :: "cards sd_env" where
  "ex_sd = \<lparr>sd_get_dev = (\<lambda>w d. True), sd_fat_register = (\<lambda>w. True), sd_fat_read = (\<lambda>name w. (w, 0)), sd_init_part = id,
     sd_fat_format = (\<lambda>p w. (w, False)), sd_ext_format = (\<lambda>p w. (w, False)), sd_cpu_id = 0xE4412011, sd_dvt = False,
     sd_stack = replicate 32 0\<rparr>"

theorem sdfuse_flashall_fails_witness:
  "\<forall>st'. do_sdfuse ex_calls ex_sd (0, 0, 0) [txt_bytes ''sdfuse'', txt_bytes ''flashall''] (ex_board 0) \<noteq> Some (st', Ret 0)"
  using sdfuse_flashall_fails [of ex_sd]
  by (simp add: ex_sd_def loader_file_def SMDK4212_AP10_ID_def SMDK4212_AP11_ID_def SMDK4412_ID_def)

end
