(* ===== verification/BootImage.thy ===== *)
theory BootImage
  imports FastbootRx Crc
begin

text \<open>
  Images to boot, \<^verbatim>\<open>common/image.c\<close> and \<^verbatim>\<open>include/image.h\<close>, for the board's configuration: the
  format with a header of 64 bytes. A header is the list of its bytes; a pointer to one is an address of memory.
  What is printed is not modelled, but for the list of the components of an image, which is read from memory
  without a bound.
\<close>

definition HEADER_SIZE :: u32 where "HEADER_SIZE = 64"
definition IH_ARCH_ARM :: byte where "IH_ARCH_ARM = 2"
definition IH_OS_NETBSD :: byte where "IH_OS_NETBSD = 2"
definition IH_OS_LINUX :: byte where "IH_OS_LINUX = 5"
definition IH_OS_VXWORKS :: byte where "IH_OS_VXWORKS = 14"
definition IH_OS_QNX :: byte where "IH_OS_QNX = 16"
definition IH_OS_RTEMS :: byte where "IH_OS_RTEMS = 18"
definition IH_TYPE_STANDALONE :: byte where "IH_TYPE_STANDALONE = 1"
definition IH_TYPE_KERNEL :: byte where "IH_TYPE_KERNEL = 2"
definition IH_TYPE_RAMDISK :: byte where "IH_TYPE_RAMDISK = 3"
definition IH_TYPE_MULTI :: byte where "IH_TYPE_MULTI = 4"
definition IH_TYPE_SCRIPT :: byte where "IH_TYPE_SCRIPT = 6"
definition IH_COMP_NONE :: byte where "IH_COMP_NONE = 0"
definition IH_COMP_GZIP :: byte where "IH_COMP_GZIP = 1"
definition IMAGE_FORMAT_INVALID :: int where "IMAGE_FORMAT_INVALID = 0"
definition IMAGE_FORMAT_LEGACY :: int where "IMAGE_FORMAT_LEGACY = 1"

type_synonym ram = "u32 \<Rightarrow> byte"

section \<open>The header\<close>

definition hdr_at :: "ram \<Rightarrow> u32 \<Rightarrow> mem" where
  "hdr_at r h = ram_bytes r h 64"

definition image_get_hdr_l :: "nat \<Rightarrow> mem \<Rightarrow> u32" where
  "image_get_hdr_l k hdr = get_be32 (take 4 (drop k hdr))"

definition image_get_hdr_b :: "nat \<Rightarrow> mem \<Rightarrow> byte" where
  "image_get_hdr_b k hdr = hdr ! k"

definition image_set_hdr_l :: "nat \<Rightarrow> u32 \<Rightarrow> mem \<Rightarrow> mem" where
  "image_set_hdr_l k v hdr = take k hdr @ put_be32 v @ drop (k + 4) hdr"

abbreviation "image_get_magic \<equiv> image_get_hdr_l 0"
abbreviation "image_get_hcrc \<equiv> image_get_hdr_l 4"
abbreviation "image_get_size \<equiv> image_get_hdr_l 12"
abbreviation "image_get_load \<equiv> image_get_hdr_l 16"
abbreviation "image_get_ep \<equiv> image_get_hdr_l 20"
abbreviation "image_get_dcrc \<equiv> image_get_hdr_l 24"
abbreviation "image_get_os \<equiv> image_get_hdr_b 28"
abbreviation "image_get_arch \<equiv> image_get_hdr_b 29"
abbreviation "image_get_type \<equiv> image_get_hdr_b 30"
abbreviation "image_get_comp \<equiv> image_get_hdr_b 31"
abbreviation "image_set_hcrc \<equiv> image_set_hdr_l 4"

definition image_get_data :: "u32 \<Rightarrow> u32" where
  "image_get_data h = h + HEADER_SIZE"

definition image_get_image_end :: "ram \<Rightarrow> u32 \<Rightarrow> u32" where
  "image_get_image_end r h = h + (image_get_size (hdr_at r h) + HEADER_SIZE)"

definition image_check_magic :: "mem \<Rightarrow> bool" where
  "image_check_magic hdr \<longleftrightarrow> image_get_magic hdr = IH_MAGIC"

definition image_check_hcrc :: "mem \<Rightarrow> bool option" where
  "image_check_hcrc hdr = map_option (\<lambda>hcrc. hcrc = image_get_hcrc hdr) (crc32 (image_set_hcrc 0 hdr) 0 0 64)"

text \<open>The checksum of an area of memory, seen as an object from the last word boundary on.\<close>

definition ram_crc32 :: "ram \<Rightarrow> u32 \<Rightarrow> u32 \<Rightarrow> u32 option" where
  "ram_crc32 r a n = (let k = unat (a AND 3) in crc32 (ram_bytes r (a - (a AND 3)) (k + unat n)) 0 k (unat n))"

definition image_check_dcrc :: "ram \<Rightarrow> u32 \<Rightarrow> bool option" where
  "image_check_dcrc r h =
     map_option (\<lambda>dcrc. dcrc = image_get_dcrc (hdr_at r h)) (ram_crc32 r (image_get_data h) (image_get_size (hdr_at r h)))"

section \<open>Images with several components\<close>

definition ram_be32 :: "ram \<Rightarrow> u32 \<Rightarrow> u32" where
  "ram_be32 r a = get_be32 (ram_bytes r a 4)"

text \<open>The table of sizes at \<open>t\<close>, counted from its entry \<open>i\<close> on to the first that is zero.\<close>

partial_function (option) multi_count :: "ram \<Rightarrow> u32 \<Rightarrow> u32 \<Rightarrow> u32 option" where
  "multi_count r t i = (if ram_be32 r (t + 4 * i) \<noteq> 0 then multi_count r t (i + 1) else Some i)"

definition image_multi_count :: "ram \<Rightarrow> u32 \<Rightarrow> u32 option" where
  "image_multi_count r h = multi_count r (image_get_data h) 0"

definition image_multi_getimg :: "ram \<Rightarrow> u32 \<Rightarrow> u32 \<Rightarrow> (u32 \<times> u32) option" where
  "image_multi_getimg r h idx = do {
     count \<leftarrow> image_multi_count r h;
     let t = image_get_data h;
     let img_data = t + (count + 1) * 4;
     if idx < count
     then do {
       let offset = fold (\<lambda>i offset. offset + (ram_be32 r (t + 4 * of_nat i) + 3 AND NOT 3)) [0..<unat idx] 0;
       Some (img_data + offset, ram_be32 r (t + 4 * idx))
     }
     else Some (0, 0)
   }"

text \<open>The components that are listed: address and size.\<close>

definition image_print_contents :: "ram \<Rightarrow> u32 \<Rightarrow> (u32 \<times> u32) list option" where
  "image_print_contents r h =
     (if image_get_type (hdr_at r h) = IH_TYPE_MULTI \<or> image_get_type (hdr_at r h) = IH_TYPE_SCRIPT
      then do {
        count \<leftarrow> image_multi_count r h;
        foreach [0..<unat count] (\<lambda>i l. do { c \<leftarrow> image_multi_getimg r h (of_nat i); Some (l @ [c]) }) []
      }
      else Some [])"

section \<open>Names\<close>

text \<open>The tables: the identifier, the short name and the long one; the entry with the negative identifier, which
  ends each, is left out.\<close>

type_synonym table_entry = "int \<times> char list option \<times> char list"

definition uimage_arch :: "table_entry list" where
  "uimage_arch = [(0, None, ''Invalid ARCH''), (1, Some ''alpha'', ''Alpha''), (2, Some ''arm'', ''ARM''), (3, Some ''x86'', ''Intel x86''),
     (4, Some ''ia64'', ''IA64''), (12, Some ''m68k'', ''M68K''), (14, Some ''microblaze'', ''MicroBlaze''), (5, Some ''mips'', ''MIPS''),
     (6, Some ''mips64'', ''MIPS 64 Bit''), (13, Some ''nios'', ''NIOS''), (15, Some ''nios2'', ''NIOS II''),
     (7, Some ''powerpc'', ''PowerPC''), (7, Some ''ppc'', ''PowerPC''), (8, Some ''s390'', ''IBM S390''), (9, Some ''sh'', ''SuperH''),
     (10, Some ''sparc'', ''SPARC''), (11, Some ''sparc64'', ''SPARC 64 Bit''), (16, Some ''blackfin'', ''Blackfin''), (17, Some ''avr32'', ''AVR32'')]"

definition uimage_os :: "table_entry list" where
  "uimage_os = [(0, None, ''Invalid OS''), (5, Some ''linux'', ''Linux''), (2, Some ''netbsd'', ''NetBSD''), (18, Some ''rtems'', ''RTEMS''),
     (17, Some ''u-boot'', ''U-Boot''), (16, Some ''qnx'', ''QNX''), (14, Some ''vxworks'', ''VxWorks'')]"

definition uimage_type :: "table_entry list" where
  "uimage_type = [(0, None, ''Invalid Image''), (7, Some ''filesystem'', ''Filesystem Image''), (5, Some ''firmware'', ''Firmware''),
     (2, Some ''kernel'', ''Kernel Image''), (4, Some ''multi'', ''Multi-File Image''), (3, Some ''ramdisk'', ''RAMDisk Image''),
     (6, Some ''script'', ''Script''), (1, Some ''standalone'', ''Standalone Program''), (8, Some ''flat_dt'', ''Flat Device Tree''),
     (9, Some ''kwbimage'', ''Kirkwood Boot Image''), (10, Some ''imximage'', ''Freescale i.MX Boot Image'')]"

definition uimage_comp :: "table_entry list" where
  "uimage_comp = [(0, Some ''none'', ''uncompressed''), (2, Some ''bzip2'', ''bzip2 compressed''), (1, Some ''gzip'', ''gzip compressed''),
     (3, Some ''lzma'', ''lzma compressed''), (4, Some ''lzo'', ''lzo compressed'')]"

fun get_table_entry_name :: "table_entry list \<Rightarrow> char list \<Rightarrow> int \<Rightarrow> char list" where
  "get_table_entry_name [] msg n = msg"
| "get_table_entry_name ((k, s, l) # t) msg n = (if k = n then l else get_table_entry_name t msg n)"

fun get_table_entry_id :: "table_entry list \<Rightarrow> byte list \<Rightarrow> int option" where
  "get_table_entry_id [] name = Some (- 1)"
| "get_table_entry_id ((k, None, l) # t) name = get_table_entry_id t name"
| "get_table_entry_id ((k, Some s, l) # t) name = do {
     r \<leftarrow> str_cmp (txt_bytes s) name;
     if r = 0 then Some k else get_table_entry_id t name
   }"

definition genimg_get_os_name :: "byte \<Rightarrow> char list" where
  "genimg_get_os_name os = get_table_entry_name uimage_os ''Unknown OS'' (int (unat os))"
definition genimg_get_arch_name :: "byte \<Rightarrow> char list" where
  "genimg_get_arch_name arch = get_table_entry_name uimage_arch ''Unknown Architecture'' (int (unat arch))"
definition genimg_get_type_name :: "byte \<Rightarrow> char list" where
  "genimg_get_type_name t = get_table_entry_name uimage_type ''Unknown Image'' (int (unat t))"
definition genimg_get_comp_name :: "byte \<Rightarrow> char list" where
  "genimg_get_comp_name c = get_table_entry_name uimage_comp ''Unknown Compression'' (int (unat c))"
definition genimg_get_os_id :: "byte list \<Rightarrow> int option" where
  "genimg_get_os_id name = get_table_entry_id uimage_os name"
definition genimg_get_arch_id :: "byte list \<Rightarrow> int option" where
  "genimg_get_arch_id name = get_table_entry_id uimage_arch name"
definition genimg_get_type_id :: "byte list \<Rightarrow> int option" where
  "genimg_get_type_id name = get_table_entry_id uimage_type name"
definition genimg_get_comp_id :: "byte list \<Rightarrow> int option" where
  "genimg_get_comp_id name = get_table_entry_id uimage_comp name"

section \<open>Checking an image\<close>

definition genimg_get_format :: "ram \<Rightarrow> u32 \<Rightarrow> int" where
  "genimg_get_format r img_addr = (if image_check_magic (hdr_at r img_addr) then IMAGE_FORMAT_LEGACY else IMAGE_FORMAT_INVALID)"

definition getenv_yesno :: "byte list option \<Rightarrow> bool" where
  "getenv_yesno s = (case s of Some (c # cs) \<Rightarrow> c \<noteq> 110 | _ \<Rightarrow> True)"

text \<open>A ramdisk, true when it is valid.\<close>

definition image_get_ramdisk :: "ram \<Rightarrow> u32 \<Rightarrow> byte \<Rightarrow> bool \<Rightarrow> bool option" where
  "image_get_ramdisk r rd_addr arch verify =
     (let hdr = hdr_at r rd_addr
      in if \<not> image_check_magic hdr then Some False
         else do {
           hcrc \<leftarrow> image_check_hcrc hdr;
           if \<not> hcrc then Some False
           else do {
             _ \<leftarrow> image_print_contents r rd_addr;
             dcrc \<leftarrow> (if verify then image_check_dcrc r rd_addr else Some True);
             if \<not> dcrc then Some False
             else Some (image_get_os hdr = IH_OS_LINUX \<and> image_get_arch hdr = arch \<and> image_get_type hdr = IH_TYPE_RAMDISK)
           }
         })"

definition image_get_kernel :: "ram \<Rightarrow> u32 \<Rightarrow> bool \<Rightarrow> bool option" where
  "image_get_kernel r img_addr verify =
     (let hdr = hdr_at r img_addr
      in if \<not> image_check_magic hdr then Some False
         else do {
           hcrc \<leftarrow> image_check_hcrc hdr;
           if \<not> hcrc then Some False
           else do {
             _ \<leftarrow> image_print_contents r img_addr;
             dcrc \<leftarrow> (if verify then image_check_dcrc r img_addr else Some True);
             Some (dcrc \<and> image_get_arch hdr = IH_ARCH_ARM)
           }
         })"

text \<open>\<^verbatim>\<open>iminfo\<close>: the result for one address, and for the addresses given.\<close>

definition image_info :: "ram \<Rightarrow> u32 \<Rightarrow> int option" where
  "image_info r addr =
     (if genimg_get_format r addr = IMAGE_FORMAT_LEGACY
      then do {
        hcrc \<leftarrow> image_check_hcrc (hdr_at r addr);
        if \<not> hcrc then Some 1
        else do {
          _ \<leftarrow> image_print_contents r addr;
          dcrc \<leftarrow> image_check_dcrc r addr;
          Some (if dcrc then 0 else 1)
        }
      }
      else Some 1)"

definition hex_number :: "byte list \<Rightarrow> u32 option" where
  "hex_number s = map_option fst (simple_strtoul (s @ [0]) 0 16)"

definition do_iminfo :: "ram \<Rightarrow> u32 \<Rightarrow> byte list list \<Rightarrow> int option" where
  "do_iminfo r load_addr argv =
     (if length argv < 2 then image_info r load_addr
      else foreach [1..<length argv] (\<lambda>arg rcode. do {
        a \<leftarrow> rd argv arg;
        addr \<leftarrow> hex_number a;
        k \<leftarrow> image_info r addr;
        Some (if k \<noteq> 0 then 1 else rcode)
      }) 0)"

end
