(* ===== verification/Bootm.thy ===== *)
theory Bootm
  imports BootImage
begin

text \<open>
  The command \<^verbatim>\<open>bootm\<close>, \<^verbatim>\<open>common/cmd_bootm.c\<close>, with the ramdisk of \<^verbatim>\<open>common/image.c\<close> and the start of
  Linux of \<^verbatim>\<open>lib_arm/bootm.c\<close>, for the board's configuration (\<^verbatim>\<open>CONFIG_ZIMAGE_BOOT\<close>, no \<^verbatim>\<open>CONFIG_LMB\<close>). The
  state is memory, a world that the functions of the environment act on, and the variable \<open>images\<close>. Of a
  program that is started, where it starts and with what arguments is the result.
\<close>

definition BOOTM_STATE_START :: u32 where "BOOTM_STATE_START = 1"
definition BOOTM_STATE_LOADOS :: u32 where "BOOTM_STATE_LOADOS = 2"
definition BOOTM_STATE_OS_CMDLINE :: u32 where "BOOTM_STATE_OS_CMDLINE = 0x10"
definition BOOTM_STATE_OS_BD_T :: u32 where "BOOTM_STATE_OS_BD_T = 0x20"
definition BOOTM_STATE_OS_PREP :: u32 where "BOOTM_STATE_OS_PREP = 0x40"
definition BOOTM_STATE_OS_GO :: u32 where "BOOTM_STATE_OS_GO = 0x80"
definition BOOTM_ERR_RESET :: int where "BOOTM_ERR_RESET = - 1"
definition BOOTM_ERR_OVERLAP :: int where "BOOTM_ERR_OVERLAP = - 2"
definition BOOTM_ERR_UNIMPLEMENTED :: int where "BOOTM_ERR_UNIMPLEMENTED = - 3"
definition CONFIG_SYS_BOOTM_LEN :: u32 where "CONFIG_SYS_BOOTM_LEN = 0x800000"
definition LINUX_ZIMAGE_MAGIC :: u32 where "LINUX_ZIMAGE_MAGIC = 0x016f2818"
definition ATAG_NONE :: u32 where "ATAG_NONE = 0"
definition ATAG_CORE :: u32 where "ATAG_CORE = 0x54410001"
definition ATAG_MEM :: u32 where "ATAG_MEM = 0x54410002"
definition ATAG_CMDLINE :: u32 where "ATAG_CMDLINE = 0x54410009"
definition ATAG_INITRD2 :: u32 where "ATAG_INITRD2 = 0x54420005"

section \<open>The state\<close>

record os_image =
  os_start :: u32
  os_end :: u32
  os_image_start :: u32
  os_image_len :: u32
  os_load :: u32
  os_comp :: byte
  os_type :: byte
  os_os :: byte

record bootm_headers =
  legacy_hdr_os :: u32
  legacy_hdr_os_copy :: mem
  legacy_hdr_valid :: bool
  im_os :: os_image
  im_ep :: u32
  im_rd_start :: u32
  im_rd_end :: u32
  im_verify :: bool
  im_state :: u32

record 'w boot =
  bt_ram :: ram
  bt_world :: 'w
  bt_images :: bootm_headers

text \<open>The environment, the address of the last download, the description of the board, decompression to an address
  with a bound, of an area with its length (memory, and the length unless it fails), and what the variable \<open>hdr\<close> holds before it is set.\<close>

record 'w boot_env =
  bo_getenv :: "'w \<Rightarrow> byte list \<Rightarrow> byte list option"
  bo_setenv :: "byte list \<Rightarrow> byte list \<Rightarrow> 'w \<Rightarrow> 'w"
  bo_load_addr :: u32
  bo_arch_number :: u32
  bo_boot_params :: u32
  bo_dram :: "(u32 \<times> u32) list"
  bo_nr_banks :: int
  bo_gunzip :: "u32 \<Rightarrow> u32 \<Rightarrow> u32 \<Rightarrow> u32 \<Rightarrow> ram \<Rightarrow> ram \<times> u32 option"
  bo_hdr :: u32

text \<open>How a call ends: with a result, in one of the systems with its entry point and its arguments, in the loader of ELF
  images, in a program, or in a reset.\<close>

datatype started = Back int | Linux u32 u32 u32 | Netbsd u32 u32 "byte list" | Rtems u32 | Elf byte | Program u32 | Restart

definition no_os :: os_image where
  "no_os = \<lparr>os_start = 0, os_end = 0, os_image_start = 0, os_image_len = 0, os_load = 0, os_comp = 0, os_type = 0, os_os = 0\<rparr>"

definition no_images :: bootm_headers where
  "no_images = \<lparr>legacy_hdr_os = 0, legacy_hdr_os_copy = replicate 64 0, legacy_hdr_valid = False, im_os = no_os, im_ep = 0,
     im_rd_start = 0, im_rd_end = 0, im_verify = False, im_state = 0\<rparr>"

definition boot_var :: "'w boot_env \<Rightarrow> char list \<Rightarrow> 'w boot \<Rightarrow> byte list option" where
  "boot_var env name st = bo_getenv env (bt_world st) (txt_bytes name)"

section \<open>The ramdisk\<close>

text \<open>True when it is corrupt or invalid; its start and end.\<close>

definition boot_get_ramdisk :: "byte list list \<Rightarrow> byte \<Rightarrow> ram \<Rightarrow> bootm_headers \<Rightarrow> (bool \<times> u32 \<times> u32) option" where
  "boot_get_ramdisk argv arch r images = do {
     skip \<leftarrow> (if 3 \<le> length argv then do { c \<leftarrow> str_cmp (argv ! 2) [45]; Some (c = 0) } else Some False);
     found \<leftarrow>
       (if skip then Some (Some (0, 0))
        else if 3 \<le> length argv
        then do {
          rd_addr \<leftarrow> hex_number (argv ! 2);
          (if genimg_get_format r rd_addr = IMAGE_FORMAT_LEGACY
           then do {
             ok \<leftarrow> image_get_ramdisk r rd_addr arch (im_verify images);
             Some (if ok then Some (image_get_data rd_addr, image_get_size (hdr_at r rd_addr)) else None)
           }
           else Some None)
        }
        else if legacy_hdr_valid images \<and> image_get_type (legacy_hdr_os_copy images) = IH_TYPE_MULTI
        then map_option Some (image_multi_getimg r (legacy_hdr_os images) 1)
        else Some (Some (0, 0)));
     Some (case found of
         None \<Rightarrow> (True, 0, 0)
       | Some (rd_data, rd_len) \<Rightarrow> if rd_data = 0 then (False, 0, 0) else (False, rd_data, rd_data + rd_len))
   }"

section \<open>The tags for Linux\<close>

text \<open>A tag at \<open>params\<close>; its first word is its size in words.\<close>

definition put_words :: "u32 list \<Rightarrow> u32 \<Rightarrow> ram \<Rightarrow> ram" where
  "put_words ws p r = ram_put r p (concat (map put_le32 ws))"

definition put_tag :: "u32 list \<Rightarrow> ram \<times> u32 \<Rightarrow> ram \<times> u32" where
  "put_tag ws s = (case s of (r, p) \<Rightarrow> (put_words ws p r, p + 4 * hd ws))"

definition setup_start_tag :: "u32 \<Rightarrow> ram \<Rightarrow> ram \<times> u32" where
  "setup_start_tag boot_params r = put_tag [5, ATAG_CORE, 0, 0, 0] (r, boot_params)"

definition setup_memory_tags :: "'w boot_env \<Rightarrow> ram \<times> u32 \<Rightarrow> (ram \<times> u32) option" where
  "setup_memory_tags env = foreach [0..<nat (bo_nr_banks env)]
     (\<lambda>i s. do { (start, sz) \<leftarrow> rd (bo_dram env) i; Some (put_tag [4, ATAG_MEM, sz, start] s) })"

definition setup_commandline_tag :: "byte list option \<Rightarrow> ram \<times> u32 \<Rightarrow> ram \<times> u32" where
  "setup_commandline_tag commandline s =
     (case commandline of
        None \<Rightarrow> s
      | Some t \<Rightarrow>
          (let t = dropWhile (\<lambda>c. c = 32) t
           in if t = [] then s
              else (case s of (r, p) \<Rightarrow>
                (let sz = drop_bit 2 (8 + of_nat (length t) + 1 + 4)
                 in (ram_put (put_words [sz, ATAG_CMDLINE] p r) (p + 8) (t @ [0]), p + 4 * sz)))))"

definition setup_initrd_tag :: "u32 \<Rightarrow> u32 \<Rightarrow> ram \<times> u32 \<Rightarrow> ram \<times> u32" where
  "setup_initrd_tag initrd_start initrd_end = put_tag [4, ATAG_INITRD2, initrd_start, initrd_end - initrd_start]"

definition setup_end_tag :: "ram \<times> u32 \<Rightarrow> ram" where
  "setup_end_tag s = (case s of (r, p) \<Rightarrow> put_words [0, ATAG_NONE] p r)"

section \<open>Starting a system\<close>

text \<open>A function for a system is called with one of the states of the sub-commands, or zero; of those, but for the
  last one, it does nothing.\<close>

definition does_flag :: "u32 \<Rightarrow> bool" where
  "does_flag flag \<longleftrightarrow> flag = 0 \<or> flag = BOOTM_STATE_OS_GO"

definition do_bootm_linux :: "'w boot_env \<Rightarrow> u32 \<Rightarrow> byte list list \<Rightarrow> 'w boot \<Rightarrow> ('w boot \<times> started) option" where
  "do_bootm_linux env flag argv st =
     (if \<not> does_flag flag then Some (st, Back 1)
      else do {
        machid \<leftarrow> (case boot_var env ''machid'' st of None \<Rightarrow> Some (bo_arch_number env) | Some s \<Rightarrow> hex_number s);
        (_, rd_start, rd_end) \<leftarrow> boot_get_ramdisk argv IH_ARCH_ARM (bt_ram st) (bt_images st);
        let images = (bt_images st)\<lparr>im_rd_start := rd_start, im_rd_end := rd_end\<rparr>;
        s \<leftarrow> setup_memory_tags env (setup_start_tag (bo_boot_params env) (bt_ram st));
        let s = setup_commandline_tag (boot_var env ''bootargs'' st) s;
        let s = (if rd_start \<noteq> 0 \<and> rd_end \<noteq> 0 then setup_initrd_tag rd_start rd_end s else s);
        Some (st\<lparr>bt_ram := setup_end_tag s, bt_images := images\<rparr>, Linux (im_ep images) machid (bo_boot_params env))
      })"

text \<open>The words of the line with blanks between them, for which there is memory.\<close>

fun joined :: "byte list list \<Rightarrow> byte list" where
  "joined [] = []"
| "joined [w] = w"
| "joined (w # ws) = w @ 32 # joined ws"

definition do_bootm_netbsd :: "'w boot_env \<Rightarrow> u32 \<Rightarrow> byte list list \<Rightarrow> 'w boot \<Rightarrow> ('w boot \<times> started) option" where
  "do_bootm_netbsd env flag argv st =
     (if \<not> does_flag flag then Some (st, Back 1)
      else do {
        let images = bt_images st;
        os_hdr \<leftarrow> (if image_get_type (legacy_hdr_os_copy images) = IH_TYPE_MULTI
          then do {
            (_, kernel_len) \<leftarrow> image_multi_getimg (bt_ram st) (legacy_hdr_os images) 1;
            Some (if kernel_len \<noteq> 0 then legacy_hdr_os images else 0)
          }
          else Some 0);
        let cmdline = (if 2 < length argv then joined (drop 2 argv)
          else (case boot_var env ''bootargs'' st of None \<Rightarrow> [] | Some t \<Rightarrow> t));
        Some (st, Netbsd (im_ep images) os_hdr cmdline)
      })"

definition do_bootm_rtems :: "u32 \<Rightarrow> 'w boot \<Rightarrow> ('w boot \<times> started) option" where
  "do_bootm_rtems flag st = Some (st, if does_flag flag then Rtems (im_ep (bt_images st)) else Back 1)"

definition do_bootm_vxworks :: "'w boot_env \<Rightarrow> u32 \<Rightarrow> 'w boot \<Rightarrow> ('w boot \<times> started) option" where
  "do_bootm_vxworks env flag st =
     (if \<not> does_flag flag then Some (st, Back 1)
      else do {
        (text, _) \<leftarrow> sprintf (txt_bytes ''%lx'') [VInt (im_ep (bt_images st))];
        Some (st\<lparr>bt_world := bo_setenv env (txt_bytes ''loadaddr'') text (bt_world st)\<rparr>, Elf IH_OS_VXWORKS)
      })"

definition do_bootm_qnxelf :: "u32 \<Rightarrow> 'w boot \<Rightarrow> ('w boot \<times> started) option" where
  "do_bootm_qnxelf flag st = Some (st, if does_flag flag then Elf IH_OS_QNX else Back 1)"

text \<open>The table of the functions, by the number of the system; it has 19 entries. A null pointer is \<open>Some None\<close>.\<close>

definition boot_os ::
  "'w boot_env \<Rightarrow> byte \<Rightarrow> (u32 \<Rightarrow> byte list list \<Rightarrow> 'w boot \<Rightarrow> ('w boot \<times> started) option) option option" where
  "boot_os env os =
     (if os = IH_OS_LINUX then Some (Some (do_bootm_linux env))
      else if os = IH_OS_NETBSD then Some (Some (do_bootm_netbsd env))
      else if os = IH_OS_RTEMS then Some (Some (\<lambda>flag argv. do_bootm_rtems flag))
      else if os = IH_OS_VXWORKS then Some (Some (\<lambda>flag argv. do_bootm_vxworks env flag))
      else if os = IH_OS_QNX then Some (Some (\<lambda>flag argv. do_bootm_qnxelf flag))
      else if unat os < 19 then Some None
      else None)"

section \<open>The kernel\<close>

text \<open>The address of the image, zero for none; where the kernel is goes to \<open>images\<close>.\<close>

definition boot_get_kernel :: "u32 \<Rightarrow> byte list list \<Rightarrow> ram \<Rightarrow> bootm_headers \<Rightarrow> (bootm_headers \<times> u32) option" where
  "boot_get_kernel load_addr argv r images = do {
     img_addr \<leftarrow> (if length argv < 2 then Some load_addr else hex_number (argv ! 1));
     let at = (\<lambda>data len. images\<lparr>im_os := (im_os images)\<lparr>os_image_start := data, os_image_len := len\<rparr>\<rparr>);
     let hdr = hdr_at r img_addr;
     if genimg_get_format r img_addr \<noteq> IMAGE_FORMAT_LEGACY then Some (at 0 0, 0)
     else do {
       ok \<leftarrow> image_get_kernel r img_addr (im_verify images);
       if \<not> ok then Some (at 0 0, 0)
       else do {
         os \<leftarrow>
           (if image_get_type hdr = IH_TYPE_KERNEL \<or> image_get_type hdr = IH_TYPE_STANDALONE
            then Some (Some (image_get_data img_addr, image_get_size hdr))
            else if image_get_type hdr = IH_TYPE_MULTI then map_option Some (image_multi_getimg r img_addr 0)
            else Some None);
         Some (case os of
             None \<Rightarrow> (at 0 0, 0)
           | Some (data, len) \<Rightarrow>
               ((at data len)\<lparr>legacy_hdr_os_copy := hdr, legacy_hdr_os := img_addr, legacy_hdr_valid := True\<rparr>, img_addr))
       }
     }
   }"

definition set_image :: "ram \<Rightarrow> u32 \<Rightarrow> bootm_headers \<Rightarrow> bootm_headers" where
  "set_image r os_hdr images =
     images\<lparr>im_os := (im_os images)\<lparr>
       os_type := image_get_type (hdr_at r os_hdr), os_comp := image_get_comp (hdr_at r os_hdr),
       os_os := image_get_os (hdr_at r os_hdr), os_end := image_get_image_end r os_hdr,
       os_load := image_get_load (hdr_at r os_hdr)\<rparr>\<rparr>"

definition bootm_start :: "'w boot_env \<Rightarrow> byte list list \<Rightarrow> 'w boot \<Rightarrow> ('w boot \<times> int) option" where
  "bootm_start env argv st = do {
     let images = no_images\<lparr>im_verify := getenv_yesno (boot_var env ''verify'' st)\<rparr>;
     let r = bt_ram st;
     (images, os_hdr) \<leftarrow> boot_get_kernel (bo_load_addr env) argv r images;
     if os_image_len (im_os images) = 0 then Some (st\<lparr>bt_images := images\<rparr>, 1)
     else if genimg_get_format r os_hdr \<noteq> IMAGE_FORMAT_LEGACY then Some (st\<lparr>bt_images := images\<rparr>, 1)
     else do {
       let images = set_image r os_hdr images;
       if \<not> legacy_hdr_valid images then Some (st\<lparr>bt_images := images\<rparr>, 1)
       else do {
         let images = images\<lparr>im_ep := image_get_ep (legacy_hdr_os_copy images)\<rparr>;
         (ret, images) \<leftarrow>
           (if (os_type (im_os images) = IH_TYPE_KERNEL \<or> os_type (im_os images) = IH_TYPE_MULTI) \<and>
               os_os (im_os images) = IH_OS_LINUX
            then do {
              (ret, rd_start, rd_end) \<leftarrow> boot_get_ramdisk argv IH_ARCH_ARM r images;
              Some (ret, images\<lparr>im_rd_start := rd_start, im_rd_end := rd_end\<rparr>)
            }
            else Some (False, images));
         Some (if ret then (st\<lparr>bt_images := images\<rparr>, 1)
               else (st\<lparr>bt_images := images\<lparr>im_os := (im_os images)\<lparr>os_start := os_hdr\<rparr>, im_state := BOOTM_STATE_START\<rparr>\<rparr>, 0))
       }
     }
   }"

section \<open>Loading the system\<close>

definition bootm_load_os :: "'w boot_env \<Rightarrow> os_image \<Rightarrow> ram \<Rightarrow> ram \<times> int" where
  "bootm_load_os env os r =
     (let load = os_load os; image_start = os_image_start os; image_len = os_image_len os;
          finish = (\<lambda>r load_end.
            (r, if load < os_end os \<and> os_start os < load_end then BOOTM_ERR_OVERLAP else 0))
      in if os_comp os = IH_COMP_NONE
         then finish
           (if load \<noteq> os_start os \<and> load \<noteq> image_start then ram_put r load (ram_bytes r image_start (unat image_len)) else r)
           (load + image_len)
         else if os_comp os = IH_COMP_GZIP
         then (case bo_gunzip env load CONFIG_SYS_BOOTM_LEN image_start image_len r of
                 (r, None) \<Rightarrow> (r, BOOTM_ERR_RESET)
               | (r, Some len) \<Rightarrow> finish r (load + len))
         else (r, BOOTM_ERR_UNIMPLEMENTED))"

definition bootm_start_standalone :: "'w boot_env \<Rightarrow> 'w boot \<Rightarrow> ('w boot \<times> started) option" where
  "bootm_start_standalone env st = do {
     stays \<leftarrow> (case boot_var env ''autostart'' st of
         None \<Rightarrow> Some False
       | Some s \<Rightarrow> do { c \<leftarrow> str_cmp s (txt_bytes ''no''); Some (c = 0) });
     if stays
     then do {
       (text, _) \<leftarrow> sprintf (txt_bytes ''%lX'') [VInt (os_image_len (im_os (bt_images st)))];
       Some (st\<lparr>bt_world := bo_setenv env (txt_bytes ''filesize'') text (bt_world st)\<rparr>, Back 0)
     }
     else Some (st, Program (get_be32 (put_le32 (im_ep (bt_images st)))))
   }"

section \<open>The commands\<close>

definition bootm_sub :: "char list \<Rightarrow> u32 \<Rightarrow> u32 cmd_tbl" where
  "bootm_sub name state = \<lparr>cmd_name = txt_bytes name, cmd_maxargs = 0, cmd_repeatable = 1, cmd_fn = state,
     cmd_usage_text = Some [], cmd_help_text = Some []\<rparr>"

definition cmd_bootm_sub :: "u32 cmd_tbl list" where
  "cmd_bootm_sub = [bootm_sub ''start'' BOOTM_STATE_START, bootm_sub ''loados'' BOOTM_STATE_LOADOS,
     bootm_sub ''cmdline'' BOOTM_STATE_OS_CMDLINE, bootm_sub ''bdt'' BOOTM_STATE_OS_BD_T,
     bootm_sub ''prep'' BOOTM_STATE_OS_PREP, bootm_sub ''go'' BOOTM_STATE_OS_GO]"

text \<open>The result of a function for a system that is called with \<open>BOOTM_STATE_OS_GO\<close> is not used.\<close>

definition do_bootm_subcommand :: "'w boot_env \<Rightarrow> byte list list \<Rightarrow> 'w boot \<Rightarrow> ('w boot \<times> started) option" where
  "do_bootm_subcommand env argv st = do {
     c \<leftarrow> find_cmd_tbl (argv ! 1) cmd_bootm_sub;
     (case c of
        None \<Rightarrow> Some (st, Back 1)
      | Some k \<Rightarrow>
          (let state = cmd_fn (cmd_bootm_sub ! k)
           in if state = BOOTM_STATE_START
              then map_option (\<lambda>(st, ret). (st, Back ret)) (bootm_start env (tl argv) st)
              else if state \<le> im_state (bt_images st) then Some (st, Back 1)
              else do {
                let images = (bt_images st)\<lparr>im_state := im_state (bt_images st) OR state\<rparr>;
                let st = st\<lparr>bt_images := images\<rparr>;
                boot_fn \<leftarrow> boot_os env (os_os (im_os images));
                if state = BOOTM_STATE_LOADOS
                then (case bootm_load_os env (im_os images) (bt_ram st) of (r, ret) \<Rightarrow> Some (st\<lparr>bt_ram := r\<rparr>, Back ret))
                else do {
                  boot_fn \<leftarrow> boot_fn;
                  (st, how) \<leftarrow> boot_fn state argv st;
                  Some (st, if state = BOOTM_STATE_OS_GO then (case how of Back ret \<Rightarrow> Back 0 | _ \<Rightarrow> how) else how)
                }
              }))
   }"

text \<open>The end of \<open>do_bootm\<close>, from the label on.\<close>

definition after_header_check :: "'w boot_env \<Rightarrow> byte list list \<Rightarrow> u32 \<Rightarrow> 'w boot \<Rightarrow> ('w boot \<times> started) option" where
  "after_header_check env argv hdr st = do {
     let images = bt_images st;
     let images = images\<lparr>im_os := (im_os images)\<lparr>os_os := image_get_os (hdr_at (bt_ram st) hdr)\<rparr>,
       im_ep := image_get_ep (legacy_hdr_os_copy images)\<rparr>;
     let st = st\<lparr>bt_images := images\<rparr>;
     boot_fn \<leftarrow> boot_os env (os_os (im_os images));
     (case boot_fn of
        None \<Rightarrow> Some (st, Back 1)
      | Some boot_fn \<Rightarrow> map_option (\<lambda>(st, how). (st, case how of Back ret \<Rightarrow> Restart | _ \<Rightarrow> how)) (boot_fn 0 argv st))
   }"

definition is_zimage :: "ram \<Rightarrow> u32 \<Rightarrow> bool" where
  "is_zimage r addr \<longleftrightarrow> get_le32 (ram_bytes r (addr + 36) 4) = LINUX_ZIMAGE_MAGIC"

definition boot_zimage :: "'w boot_env \<Rightarrow> byte list list \<Rightarrow> u32 \<Rightarrow> 'w boot \<Rightarrow> ('w boot \<times> started) option" where
  "boot_zimage env argv addr st =
     (let r = ram_put (ram_put (bt_ram st) (addr + 28) [IH_OS_LINUX]) (addr + 20) (put_be32 addr);
          images = (bt_images st)\<lparr>legacy_hdr_os_copy := hdr_at r addr, legacy_hdr_os := addr, legacy_hdr_valid := True\<rparr>
      in after_header_check env argv addr (st\<lparr>bt_ram := r, bt_images := images\<rparr>))"

text \<open>Whether the first argument is the name of a sub-command: what is left of it after a number.\<close>

definition is_subcommand :: "byte list list \<Rightarrow> bool option" where
  "is_subcommand argv =
     (if 1 < length argv
      then do {
        (_, endp) \<leftarrow> simple_strtoul (argv ! 1 @ [0]) 0 16;
        c \<leftarrow> rd (argv ! 1 @ [0]) endp;
        Some (c \<noteq> 0 \<and> c \<noteq> 58 \<and> c \<noteq> 35)
      }
      else Some False)"

definition do_bootm :: "'w boot_env \<Rightarrow> byte list list \<Rightarrow> 'w boot \<Rightarrow> ('w boot \<times> started) option" where
  "do_bootm env argv st = do {
     addr \<leftarrow> (if length argv < 2 then Some (bo_load_addr env) else hex_number (argv ! 1));
     if is_zimage (bt_ram st) addr then boot_zimage env argv addr st
     else do {
       sub \<leftarrow> is_subcommand argv;
       if sub then do_bootm_subcommand env argv st
       else do {
         (st, ret) \<leftarrow> bootm_start env argv st;
         if ret \<noteq> 0 then Some (st, Back 1)
         else (case bootm_load_os env (im_os (bt_images st)) (bt_ram st) of (r, ret) \<Rightarrow>
           (let st = st\<lparr>bt_ram := r\<rparr>
            in if ret = BOOTM_ERR_RESET then Some (st, Restart)
               else if ret = BOOTM_ERR_OVERLAP \<and> \<not> legacy_hdr_valid (bt_images st) then Some (st, Restart)
               else if ret = BOOTM_ERR_UNIMPLEMENTED then Some (st, Back 1)
               else if os_type (im_os (bt_images st)) = IH_TYPE_STANDALONE then bootm_start_standalone env st
               else after_header_check env argv (bo_hdr env) st))
       }
     }
   }"

end
