(* ===== verification/Mkimage.thy ===== *)
theory Mkimage
  imports BootImage
begin

text \<open>
  The tool that writes images, \<^verbatim>\<open>tools/mkimage.c\<close> and \<^verbatim>\<open>tools/default_image.c\<close>: the options, the file that is
  written for an image with a header of 64 bytes, and the check of such a file. The files of the host are a map from names
  to contents; what is left of an image file when the tool fails is not modelled.
\<close>

record mk_params =
  mk_lflag :: bool
  mk_dflag :: bool
  mk_eflag :: bool
  mk_fflag :: bool
  mk_xflag :: bool
  mk_os :: int
  mk_arch :: int
  mk_type :: int
  mk_comp :: int
  mk_addr :: u32
  mk_ep :: u32
  mk_imagename :: "byte list"
  mk_datafile :: "byte list option"

definition mk_defaults :: mk_params where
  "mk_defaults = \<lparr>mk_lflag = False, mk_dflag = False, mk_eflag = False, mk_fflag = False, mk_xflag = False,
     mk_os = 5, mk_arch = 7, mk_type = 2, mk_comp = 1, mk_addr = 0, mk_ep = 0, mk_imagename = [], mk_datafile = None\<rparr>"

text \<open>How the tool ends: it fails, another type of image or the list of an image is asked for, or an image is
  written.\<close>

datatype mk_result = Mk_Fails | Mk_Other | Mk_Image "byte list"

section \<open>Options\<close>

text \<open>\<^verbatim>\<open>strtoul\<close> of the C library with base 16: white space, a sign, a prefix, digits; a number that is too large
  gives the largest. What is left of the string is the second part.\<close>

definition hex_digit :: "byte \<Rightarrow> int option" where
  "hex_digit c = (if 48 \<le> c \<and> c \<le> 57 then Some (uint c - 48) else if 97 \<le> c \<and> c \<le> 102 then Some (uint c - 87)
     else if 65 \<le> c \<and> c \<le> 70 then Some (uint c - 55) else None)"

fun hex_digits :: "int \<Rightarrow> byte list \<Rightarrow> int \<times> byte list" where
  "hex_digits v [] = (v, [])"
| "hex_digits v (c # s) = (case hex_digit c of None \<Rightarrow> (v, c # s) | Some d \<Rightarrow> hex_digits (16 * v + d) s)"

definition hex_prefix :: "byte list \<Rightarrow> byte list" where
  "hex_prefix s = (case s of z # x # d # t \<Rightarrow> if z = 48 \<and> (x = 120 \<or> x = 88) \<and> hex_digit d \<noteq> None then d # t else s | _ \<Rightarrow> s)"

definition c_strtoul16 :: "byte list \<Rightarrow> u64 \<times> byte list" where
  "c_strtoul16 str =
     (let s = dropWhile (\<lambda>c. c = 32 \<or> 9 \<le> c \<and> c \<le> 13) str;
          neg = (s \<noteq> [] \<and> hd s = 45);
          s = (if s \<noteq> [] \<and> (hd s = 45 \<or> hd s = 43) then tl s else s);
          d = hex_prefix s
      in if d = [] \<or> hex_digit (hd d) = None then (0, str)
         else case hex_digits 0 d of (v, rest) \<Rightarrow>
           (if 2 ^ 64 \<le> v then (- 1, rest) else (if neg then - of_int v else of_int v, rest)))"

text \<open>The systems that the tool knows, more than the boot loader does, and its search by name, where upper and lower case
  are the same (\<^verbatim>\<open>strcasecmp\<close>).\<close>

definition uimage_os_host :: "table_entry list" where
  "uimage_os_host = [(0, None, ''Invalid OS''), (5, Some ''linux'', ''Linux''), (13, Some ''lynxos'', ''LynxOS''), (2, Some ''netbsd'', ''NetBSD''),
     (18, Some ''rtems'', ''RTEMS''), (17, Some ''u-boot'', ''U-Boot''), (16, Some ''qnx'', ''QNX''), (14, Some ''vxworks'', ''VxWorks''),
     (21, Some ''integrity'', ''INTEGRITY''), (4, Some ''4_4bsd'', ''4_4BSD''), (11, Some ''dell'', ''Dell''), (7, Some ''esix'', ''Esix''),
     (3, Some ''freebsd'', ''FreeBSD''), (9, Some ''irix'', ''Irix''), (12, Some ''ncr'', ''NCR''), (1, Some ''openbsd'', ''OpenBSD''),
     (15, Some ''psos'', ''pSOS''), (10, Some ''sco'', ''SCO''), (8, Some ''solaris'', ''Solaris''), (6, Some ''svr4'', ''SVR4'')]"

definition lower_case :: "byte \<Rightarrow> byte" where
  "lower_case c = (if 65 \<le> c \<and> c \<le> 90 then c + 32 else c)"

fun host_table_id :: "table_entry list \<Rightarrow> byte list \<Rightarrow> int" where
  "host_table_id [] name = - 1"
| "host_table_id ((k, s, l) # t) name =
     (if (case s of None \<Rightarrow> False | Some w \<Rightarrow> map lower_case (txt_bytes w) = map lower_case name) then k
      else host_table_id t name)"

definition mk_flag :: "byte \<Rightarrow> mk_params \<Rightarrow> mk_params" where
  "mk_flag c p = (if c = 108 then p\<lparr>mk_lflag := True\<rparr> else if c = 120 then p\<lparr>mk_xflag := True\<rparr> else p)"

text \<open>An option with an argument; \<open>Some None\<close> when the tool fails.\<close>

definition mk_id :: "int \<Rightarrow> (int \<Rightarrow> mk_params) \<Rightarrow> mk_params option option" where
  "mk_id i put = Some (if i < 0 then None else Some (put i))"

definition mk_number :: "byte list \<Rightarrow> (u32 \<Rightarrow> mk_params) \<Rightarrow> mk_params option option" where
  "mk_number s put = Some (case c_strtoul16 s of (v, rest) \<Rightarrow> if rest = [] then Some (put (ucast v)) else None)"

definition mk_option :: "byte \<Rightarrow> byte list \<Rightarrow> mk_params \<Rightarrow> mk_params option option" where
  "mk_option c a p =
     (if c = 65 then mk_id (host_table_id uimage_arch a) (\<lambda>i. p\<lparr>mk_arch := i\<rparr>)
      else if c = 67 then mk_id (host_table_id uimage_comp a) (\<lambda>i. p\<lparr>mk_comp := i\<rparr>)
      else if c = 79 then mk_id (host_table_id uimage_os_host a) (\<lambda>i. p\<lparr>mk_os := i\<rparr>)
      else if c = 84 then mk_id (host_table_id uimage_type a) (\<lambda>i. p\<lparr>mk_type := i\<rparr>)
      else if c = 97 then mk_number a (\<lambda>n. p\<lparr>mk_addr := n\<rparr>)
      else if c = 101 then mk_number a (\<lambda>n. p\<lparr>mk_ep := n, mk_eflag := True\<rparr>)
      else if c = 100 then Some (Some (p\<lparr>mk_datafile := Some a, mk_dflag := True\<rparr>))
      else if c = 102 then Some (Some (p\<lparr>mk_type := 8, mk_datafile := Some a, mk_fflag := True\<rparr>))
      else if c = 110 then Some (Some (p\<lparr>mk_imagename := a\<rparr>))
      else Some (Some p))"

text \<open>The letters of an argument, with the arguments behind it; a letter that takes an argument ends it.\<close>

fun mk_letters :: "byte list \<Rightarrow> byte list list \<Rightarrow> mk_params \<Rightarrow> (mk_params \<times> byte list list) option option" where
  "mk_letters [] args p = Some (Some (p, args))"
| "mk_letters (c # cs) args p =
     (if c \<in> {108, 118, 120} then mk_letters cs args (mk_flag c p)
      else if c \<in> {65, 67, 68, 79, 84, 97, 100, 101, 102, 110}
      then (case args of
          [] \<Rightarrow> Some None
        | a # args \<Rightarrow> map_option (map_option (\<lambda>p. (p, args))) (mk_option c a p))
      else Some None)"

lemma mk_letters_length: "mk_letters cs args p = Some (Some (q, rest)) \<Longrightarrow> length rest \<le> length args"
  by (induction cs args p rule: mk_letters.induct) (auto split: if_splits list.splits)

function mk_args :: "byte list list \<Rightarrow> mk_params \<Rightarrow> (mk_params \<times> byte list list) option option" where
  "mk_args args p =
     (case args of
        (c # cs) # rest \<Rightarrow>
          if c = 45
          then (case mk_letters cs rest p of
              Some (Some (p, rest)) \<Rightarrow> mk_args rest p
            | Some None \<Rightarrow> Some None
            | None \<Rightarrow> None)
          else Some (Some (p, args))
      | _ \<Rightarrow> Some (Some (p, args)))"
  by pat_completeness auto
termination
  by (relation "measure (\<lambda>(args, p). length args)") (auto dest!: mk_letters_length)

declare mk_args.simps [simp del]

section \<open>The file\<close>

fun colon_parts :: "byte list \<Rightarrow> byte list list" where
  "colon_parts [] = [[]]"
| "colon_parts (c # cs) =
     (if c = 58 then [] # colon_parts cs
      else case colon_parts cs of p # ps \<Rightarrow> (c # p) # ps | [] \<Rightarrow> [[c]])"

text \<open>What is written of one data file; a file with no bytes cannot be mapped.\<close>

definition copy_file :: "bool \<Rightarrow> bool \<Rightarrow> byte list \<Rightarrow> byte list option" where
  "copy_file xflag pad content =
     (if content = [] \<or> xflag \<and> (length content < 64 \<or> (\<exists>x\<in>set (take 64 content). x \<noteq> 0xff)) then None
      else
        (let data = (if xflag then drop 64 content else content); tail = length data mod 4
         in Some (data @ (if pad \<and> tail \<noteq> 0 then replicate (4 - tail) 0 else []))))"

fun all_some :: "'a option list \<Rightarrow> 'a list option" where
  "all_some [] = Some []"
| "all_some (x # xs) = do { x \<leftarrow> x; xs \<leftarrow> all_some xs; Some (x # xs) }"

text \<open>The table of sizes with its end, and the padded files.\<close>

definition mk_multi :: "bool \<Rightarrow> byte list list \<Rightarrow> byte list option" where
  "mk_multi xflag contents = do {
     parts \<leftarrow> all_some (map (\<lambda>k. copy_file xflag (k + 1 < length contents) (contents ! k)) [0..<length contents]);
     Some (concat (map (\<lambda>c. put_be32 (of_nat (length c))) contents) @ put_be32 0 @ concat parts)
   }"

definition mk_payload :: "(byte list \<Rightarrow> byte list option) \<Rightarrow> bool \<Rightarrow> int \<Rightarrow> byte list \<Rightarrow> byte list option" where
  "mk_payload files xflag type datafile =
     (if type = 4 \<or> type = 6
      then do { contents \<leftarrow> all_some (map files (colon_parts datafile)); mk_multi xflag contents }
      else do { content \<leftarrow> files datafile; copy_file xflag False content })"

definition image_set_hdr_b :: "nat \<Rightarrow> byte \<Rightarrow> mem \<Rightarrow> mem" where
  "image_set_hdr_b k v hdr = hdr[k := v]"

definition image_set_name :: "byte list \<Rightarrow> mem \<Rightarrow> mem" where
  "image_set_name name hdr = take 32 hdr @ take 32 (name @ replicate 32 0) @ drop 64 hdr"

text \<open>The header at the start of the file, which is filled with zeros before.\<close>

definition image_set_header :: "mk_params \<Rightarrow> u32 \<Rightarrow> mem \<Rightarrow> mem option" where
  "image_set_header p mtime f = do {
     let len = (of_nat (length f - 64) :: u32);
     checksum \<leftarrow> crc32 f 0 64 (unat len);
     let f = image_set_hdr_l 0 IH_MAGIC f;
     let f = image_set_hdr_l 8 mtime f;
     let f = image_set_hdr_l 12 len f;
     let f = image_set_hdr_l 16 (mk_addr p) f;
     let f = image_set_hdr_l 20 (mk_ep p) f;
     let f = image_set_hdr_l 24 checksum f;
     let f = image_set_hdr_b 28 (of_int (mk_os p)) f;
     let f = image_set_hdr_b 29 (of_int (mk_arch p)) f;
     let f = image_set_hdr_b 30 (of_int (mk_type p)) f;
     let f = image_set_hdr_b 31 (of_int (mk_comp p)) f;
     let f = image_set_name (mk_imagename p) f;
     checksum \<leftarrow> crc32 f 0 0 64;
     Some (image_set_hdr_l 4 checksum f)
   }"

definition image_check_params :: "mk_params \<Rightarrow> bool" where
  "image_check_params p \<longleftrightarrow>
     mk_dflag p \<and> (mk_fflag p \<or> mk_lflag p) \<or> mk_fflag p \<and> (mk_dflag p \<or> mk_lflag p) \<or> mk_lflag p \<and> (mk_dflag p \<or> mk_fflag p)"

text \<open>\<^verbatim>\<open>main\<close> behind the name of the tool, for a time of writing.\<close>

definition mkimage :: "(byte list \<Rightarrow> byte list option) \<Rightarrow> u32 \<Rightarrow> byte list list \<Rightarrow> mk_result option" where
  "mkimage files mtime args = do {
     r \<leftarrow> mk_args args mk_defaults;
     (case r of
        None \<Rightarrow> Some Mk_Fails
      | Some (p, rest) \<Rightarrow>
          (if length rest \<noteq> 1 then Some Mk_Fails
           else if mk_type p = 0 then Some Mk_Fails
           else if 8 \<le> mk_type p then Some Mk_Other
           else if image_check_params p then Some Mk_Fails
           else
             (let p = (if mk_eflag p then p else p\<lparr>mk_ep := mk_addr p + (if mk_xflag p then 64 else 0)\<rparr>)
              in if mk_lflag p then Some Mk_Other
                 else case mk_datafile p of
                   None \<Rightarrow> if mk_type p = 4 \<or> mk_type p = 6 then None else Some Mk_Fails
                 | Some datafile \<Rightarrow>
                     (case mk_payload files (mk_xflag p) (mk_type p) datafile of
                        None \<Rightarrow> Some Mk_Fails
                      | Some payload \<Rightarrow> map_option Mk_Image (image_set_header p mtime (replicate 64 0 @ payload))))))
   }"

text \<open>The check of a file with such an image; true when the header and the data are right.\<close>

definition image_verify_header :: "mem \<Rightarrow> bool option" where
  "image_verify_header f =
     (let hdr = take 64 f
      in if image_get_magic hdr \<noteq> IH_MAGIC then Some False
         else do {
           c \<leftarrow> crc32 (image_set_hcrc 0 hdr) 0 0 64;
           if c \<noteq> image_get_hcrc hdr then Some False
           else do { d \<leftarrow> crc32 f 0 64 (length f - 64); Some (d = image_get_dcrc hdr) }
         })"

end
