(* ===== verification/ImageCorrect.thy ===== *)
theory ImageCorrect
  imports Mkimage CrcCorrect FastbootCorrect
begin

text \<open>
  The header of an image as a list: reading a field that was set, and the fields that stay. The file that the tool writes
  (\<open>image_of\<close>), and what the functions of \<^verbatim>\<open>common/image.c\<close> say of it when it is in memory.
\<close>

section \<open>Memory as lists\<close>

lemma length_ram_bytes [simp]: "length (ram_bytes r a n) = n"
  by (simp add: ram_bytes_def)

lemma nth_ram_bytes [simp]: "i < n \<Longrightarrow> ram_bytes r a n ! i = r (a + of_nat i)"
  by (simp add: ram_bytes_def)

lemma take_ram_bytes: "take k (ram_bytes r a n) = ram_bytes r a (min k n)"
  by (rule nth_equalityI) auto

lemma drop_ram_bytes: "drop k (ram_bytes r a n) = ram_bytes r (a + of_nat k) (n - k)"
  by (rule nth_equalityI) (auto simp: algebra_simps)

lemma ram_bytes_part:
  assumes "ram_bytes r a (length f) = f" "k + n \<le> length f"
  shows "ram_bytes r (a + of_nat k) n = take n (drop k f)"
proof -
  have "take n (drop k (ram_bytes r a (length f))) = ram_bytes r (a + of_nat k) n"
    using assms(2) by (simp add: drop_ram_bytes take_ram_bytes)
  then show ?thesis by (simp only: assms(1))
qed

definition crc_of :: "byte list \<Rightarrow> u32" where
  "crc_of xs = crc_ref 0xffffffff xs XOR 0xffffffff"

lemma crc32_of: "p + len \<le> length m \<Longrightarrow> crc32 m 0 p len = Some (crc_of (take len (drop p m)))"
  by (simp add: crc32_ref crc_of_def)

lemma ram_crc32_of: "ram_crc32 r a n = Some (crc_of (ram_bytes r a (unat n)))"
  unfolding ram_crc32_def Let_def by (subst crc32_of) (simp_all add: drop_ram_bytes)

lemma crc_of_change:
  assumes "i < length xs" "xs ! i \<noteq> x"
  shows "crc_of (xs[i := x]) \<noteq> crc_of xs"
proof
  assume e: "crc_of (xs[i := x]) = crc_of xs"
  define c where "c = crc_ref 0xffffffff (take i xs)"
  have "crc_ref 0xffffffff (xs[i := x]) = crc_ref 0xffffffff xs"
    using e unfolding crc_of_def by (rule word_xor_cancel2)
  moreover have "crc_ref 0xffffffff (xs[i := x]) = crc_ref (crc_byte x c) (drop (Suc i) xs)"
    using assms(1) by (simp add: upd_conv_take_nth_drop crc_ref_append c_def)
  moreover have "crc_ref 0xffffffff xs = crc_ref (crc_byte (xs ! i) c) (drop (Suc i) xs)"
    using assms(1) by (subst id_take_nth_drop [of i xs]) (simp_all add: crc_ref_append c_def)
  ultimately have "crc_byte x c = crc_byte (xs ! i) c" by (metis crc_ref_inj)
  then show False using assms(2) crc_byte_data by metis
qed

section \<open>Fields\<close>

lemma length_set_l [simp]: "k + 4 \<le> length h \<Longrightarrow> length (image_set_hdr_l k v h) = length h"
  by (simp add: image_set_hdr_l_def)

lemma length_set_b [simp]: "length (image_set_hdr_b k v h) = length h"
  by (simp add: image_set_hdr_b_def)

lemma length_set_name [simp]: "64 \<le> length h \<Longrightarrow> length (image_set_name n h) = length h"
  by (simp add: image_set_name_def)

lemma nth_set_l:
  "k + 4 \<le> length h \<Longrightarrow> i < length h \<Longrightarrow>
     image_set_hdr_l k v h ! i = (if k \<le> i \<and> i < k + 4 then put_be32 v ! (i - k) else h ! i)"
  by (auto simp: image_set_hdr_l_def nth_append min_def)

lemma nth_set_b: "k < length h \<Longrightarrow> image_set_hdr_b k v h ! i = (if i = k then v else h ! i)"
  by (simp add: image_set_hdr_b_def)

lemma nth_set_name:
  "64 \<le> length h \<Longrightarrow> i < length h \<Longrightarrow> i < 32 \<or> 64 \<le> i \<Longrightarrow> image_set_name n h ! i = h ! i"
  by (auto simp: image_set_name_def nth_append min_def)

lemma get_l_nth:
  assumes "k + 4 \<le> length h"
  shows "image_get_hdr_l k h = get_be32 [h ! k, h ! (k + 1), h ! (k + 2), h ! (k + 3)]"
proof -
  have "take 4 (drop k h) = [h ! k, h ! (k + 1), h ! (k + 2), h ! (k + 3)]"
    using assms by (intro nth_equalityI) (auto simp: less_Suc_eq numeral_eq_Suc)
  then show ?thesis by (simp add: image_get_hdr_l_def)
qed

lemma get_l_cong:
  assumes "k + 4 \<le> length h" "k + 4 \<le> length h'" "\<And>i. k \<le> i \<Longrightarrow> i < k + 4 \<Longrightarrow> h ! i = h' ! i"
  shows "image_get_hdr_l k h = image_get_hdr_l k h'"
  using assms by (simp add: get_l_nth)

lemma get_set_l: "k + 4 \<le> length h \<Longrightarrow> image_get_hdr_l k (image_set_hdr_l k v h) = v"
  by (simp add: image_get_hdr_l_def image_set_hdr_l_def)

lemma get_l_set_l:
  "j + 4 \<le> length h \<Longrightarrow> k + 4 \<le> length h \<Longrightarrow> j + 4 \<le> k \<or> k + 4 \<le> j \<Longrightarrow>
     image_get_hdr_l k (image_set_hdr_l j v h) = image_get_hdr_l k h"
  by (rule get_l_cong) (auto simp: nth_set_l)

lemma get_l_set_b:
  "k + 4 \<le> length h \<Longrightarrow> j < length h \<Longrightarrow> j < k \<or> k + 4 \<le> j \<Longrightarrow>
     image_get_hdr_l k (image_set_hdr_b j v h) = image_get_hdr_l k h"
  by (rule get_l_cong) (auto simp: nth_set_b)

lemma get_l_set_name:
  "64 \<le> length h \<Longrightarrow> k + 4 \<le> 32 \<Longrightarrow> image_get_hdr_l k (image_set_name n h) = image_get_hdr_l k h"
  by (rule get_l_cong) (auto simp: nth_set_name)

lemma get_b_set:
  "j + 4 \<le> length h \<Longrightarrow> k < length h \<Longrightarrow> k < j \<or> j + 4 \<le> k \<Longrightarrow>
     image_get_hdr_b k (image_set_hdr_l j v h) = image_get_hdr_b k h"
  "i < length h \<Longrightarrow> image_get_hdr_b k (image_set_hdr_b i b h) = (if k = i then b else image_get_hdr_b k h)"
  "64 \<le> length h \<Longrightarrow> k < 32 \<Longrightarrow> image_get_hdr_b k (image_set_name n h) = image_get_hdr_b k h"
  by (auto simp: image_get_hdr_b_def nth_set_l nth_set_b nth_set_name)

lemmas hdr_fields = get_set_l get_l_set_l get_l_set_b get_l_set_name get_b_set

lemma get_l_take: "k + 4 \<le> 64 \<Longrightarrow> 64 \<le> length f \<Longrightarrow> image_get_hdr_l k (take 64 f) = image_get_hdr_l k f"
  by (rule get_l_cong) auto

lemma get_b_take: "k < 64 \<Longrightarrow> image_get_hdr_b k (take 64 f) = image_get_hdr_b k f"
  by (simp add: image_get_hdr_b_def)

lemma take_set_l: "k + 4 \<le> 64 \<Longrightarrow> 64 \<le> length f \<Longrightarrow> take 64 (image_set_hdr_l k v f) = image_set_hdr_l k v (take 64 f)"
  by (rule nth_equalityI) (auto simp: nth_set_l)

lemma drop_set: "k + 4 \<le> 64 \<Longrightarrow> 64 \<le> length f \<Longrightarrow> drop 64 (image_set_hdr_l k v f) = drop 64 f"
  "k < 64 \<Longrightarrow> drop 64 (image_set_hdr_b k b f) = drop 64 f"
  "64 \<le> length f \<Longrightarrow> drop 64 (image_set_name n f) = drop 64 f"
  by (simp_all add: image_set_hdr_l_def image_set_hdr_b_def image_set_name_def)

section \<open>The file of the tool\<close>

definition image_of :: "mk_params \<Rightarrow> byte list \<Rightarrow> byte list \<Rightarrow> bool" where
  "image_of p d f \<longleftrightarrow> length f = 64 + length d \<and> drop 64 f = d \<and> image_get_magic f = IH_MAGIC \<and>
     image_get_size f = of_nat (length d) \<and> image_get_load f = mk_addr p \<and> image_get_ep f = mk_ep p \<and>
     image_get_dcrc f = crc_of d \<and> image_get_os f = of_int (mk_os p) \<and> image_get_arch f = of_int (mk_arch p) \<and>
     image_get_type f = of_int (mk_type p) \<and> image_get_comp f = of_int (mk_comp p) \<and>
     image_get_hcrc f = crc_of (image_set_hcrc 0 (take 64 f))"

lemma set_l_zero:
  assumes "8 \<le> length g" "\<And>i. 4 \<le> i \<Longrightarrow> i < 8 \<Longrightarrow> g ! i = 0"
  shows "image_set_hcrc 0 (image_set_hcrc c g) = g"
proof (rule nth_equalityI)
  show "length (image_set_hcrc 0 (image_set_hcrc c g)) = length g" using assms(1) by simp
next
  fix i assume i: "i < length (image_set_hcrc 0 (image_set_hcrc c g))"
  have z: "put_be32 0 = replicate 4 0" by (simp add: put_be32_def numeral_eq_Suc)
  show "image_set_hcrc 0 (image_set_hcrc c g) ! i = g ! i" using i assms by (auto simp: nth_set_l z)
qed

lemma set_header_image:
  assumes "image_set_header p t (replicate 64 0 @ d) = Some f" "length d < 2 ^ 32"
  shows "image_of p d f"
proof -
  let ?f0 = "replicate 64 (0 :: byte) @ d"
  have u: "unat (of_nat (length d) :: u32) = length d" using assms(2) by (simp add: unat_of_nat take_bit_eq_mod)
  define g where "g = image_set_name (mk_imagename p) (image_set_hdr_b 31 (of_int (mk_comp p))
    (image_set_hdr_b 30 (of_int (mk_type p)) (image_set_hdr_b 29 (of_int (mk_arch p)) (image_set_hdr_b 28 (of_int (mk_os p))
    (image_set_hdr_l 24 (crc_of d) (image_set_hdr_l 20 (mk_ep p) (image_set_hdr_l 16 (mk_addr p)
    (image_set_hdr_l 12 (of_nat (length d)) (image_set_hdr_l 8 t (image_set_hdr_l 0 IH_MAGIC ?f0))))))))))"
  have lg: "length g = 64 + length d" by (simp add: g_def)
  have "crc32 ?f0 0 64 (length d) = Some (crc_of d)" by (subst crc32_of) simp_all
  moreover have "crc32 g 0 0 64 = Some (crc_of (take 64 g))" by (subst crc32_of) (simp_all add: lg)
  ultimately have f: "f = image_set_hcrc (crc_of (take 64 g)) g"
    using assms(1) by (simp add: image_set_header_def Let_def u g_def)
  have z: "g ! i = 0" if "4 \<le> i" "i < 8" for i
    using that by (simp add: g_def nth_set_l nth_set_b nth_set_name nth_append)
  have d: "drop 64 g = d" by (simp add: g_def drop_set)
  have "image_set_hcrc 0 (take 64 f) = take 64 g"
    unfolding f by (simp add: take_set_l lg) (rule set_l_zero, simp_all add: lg z)
  then show ?thesis
    by (simp add: image_of_def f lg d drop_set hdr_fields) (simp add: g_def hdr_fields)
qed

lemma image_hdr_l: "image_of p d f \<Longrightarrow> k + 4 \<le> 64 \<Longrightarrow> image_get_hdr_l k (take 64 f) = image_get_hdr_l k f"
  by (rule get_l_take) (simp_all add: image_of_def)

lemma image_verifies: "image_of p d f \<Longrightarrow> image_verify_header f = Some True"
  by (simp add: image_verify_header_def Let_def image_hdr_l crc32_of) (simp add: image_of_def crc32_of get_l_take)

section \<open>An image in memory\<close>

definition image_at :: "ram \<Rightarrow> u32 \<Rightarrow> mk_params \<Rightarrow> byte list \<Rightarrow> byte list \<Rightarrow> bool" where
  "image_at r a p d f \<longleftrightarrow> image_of p d f \<and> ram_bytes r a (length f) = f \<and> length f < 2 ^ 32"

lemma image_at_data: "image_at r a p d f \<Longrightarrow> length f = 64 + length d" "image_at r a p d f \<Longrightarrow> drop 64 f = d"
  by (simp_all add: image_at_def image_of_def)

lemma image_at_part: "image_at r a p d f \<Longrightarrow> k + n \<le> length f \<Longrightarrow> ram_bytes r (a + of_nat k) n = take n (drop k f)"
  unfolding image_at_def by (rule ram_bytes_part) simp_all

lemma image_at_hdr: "image_at r a p d f \<Longrightarrow> hdr_at r a = take 64 f"
  using image_at_part [of r a p d f 0 64] image_at_data [of r a p d f] by (simp add: hdr_at_def)

lemma image_at_l: "image_at r a p d f \<Longrightarrow> k + 4 \<le> 64 \<Longrightarrow> image_get_hdr_l k (hdr_at r a) = image_get_hdr_l k f"
  by (simp add: image_at_hdr) (auto simp: image_at_def intro: image_hdr_l)

lemma image_at_b: "image_at r a p d f \<Longrightarrow> k < 64 \<Longrightarrow> image_get_hdr_b k (hdr_at r a) = image_get_hdr_b k f"
  by (simp add: image_at_hdr get_b_take)

lemma image_at_fields:
  assumes "image_at r a p d f"
  shows "image_get_load (hdr_at r a) = mk_addr p" "image_get_ep (hdr_at r a) = mk_ep p"
    "image_get_os (hdr_at r a) = of_int (mk_os p)" "image_get_arch (hdr_at r a) = of_int (mk_arch p)"
    "image_get_type (hdr_at r a) = of_int (mk_type p)" "image_get_comp (hdr_at r a) = of_int (mk_comp p)"
    "image_get_size (hdr_at r a) = of_nat (length d)" "unat (of_nat (length d) :: u32) = length d"
    "image_get_dcrc (hdr_at r a) = crc_of d" "image_get_magic (hdr_at r a) = IH_MAGIC"
  using assms image_at_data(1) [OF assms]
  by (simp_all add: image_at_l [OF assms] image_at_b [OF assms])
    (simp_all add: image_at_def image_of_def unat_of_nat take_bit_eq_mod)

lemma image_at_payload: "image_at r a p d f \<Longrightarrow> ram_bytes r (image_get_data a) (length d) = d"
  using image_at_part [of r a p d f 64 "length d"] image_at_data [of r a p d f]
  by (simp add: image_get_data_def HEADER_SIZE_def)

lemma image_at_magic: "image_at r a p d f \<Longrightarrow> image_check_magic (hdr_at r a)"
  by (simp add: image_check_magic_def image_at_fields)

lemma image_at_hcrc:
  assumes "image_at r a p d f" shows "image_check_hcrc (hdr_at r a) = Some True"
proof -
  have "image_check_hcrc (hdr_at r a) = Some (crc_of (image_set_hcrc 0 (take 64 f)) = image_get_hcrc f)"
    using image_at_data(1) [OF assms] image_at_l [OF assms, of 4]
    by (simp add: image_check_hcrc_def) (simp add: image_at_hdr [OF assms] crc32_of)
  then show ?thesis using assms by (simp add: image_at_def image_of_def)
qed

lemma image_at_dcrc: "image_at r a p d f \<Longrightarrow> image_check_dcrc r a = Some True"
  by (simp add: image_check_dcrc_def ram_crc32_of image_at_fields image_at_payload)

lemma image_at_format: "image_at r a p d f \<Longrightarrow> genimg_get_format r a = IMAGE_FORMAT_LEGACY"
  by (simp add: genimg_get_format_def image_at_magic)

text \<open>An image of another type than the two that have components.\<close>

lemma print_simple:
  "image_get_type (hdr_at r a) \<noteq> IH_TYPE_MULTI \<Longrightarrow> image_get_type (hdr_at r a) \<noteq> IH_TYPE_SCRIPT \<Longrightarrow>
     image_print_contents r a = Some []"
  by (simp add: image_print_contents_def)

lemma kernel_accepted:
  assumes "image_at r a p d f" "image_print_contents r a = Some l" "of_int (mk_arch p) = IH_ARCH_ARM"
  shows "image_get_kernel r a verify = Some True"
  using assms
  by (simp add: image_get_kernel_def Let_def image_at_magic image_at_hcrc image_at_dcrc image_at_fields)

lemma ramdisk_accepted:
  assumes "image_at r a p d f" "of_int (mk_arch p) = arch" "of_int (mk_type p) = IH_TYPE_RAMDISK" "of_int (mk_os p) = IH_OS_LINUX"
  shows "image_get_ramdisk r a arch verify = Some True"
  using assms print_simple [of r a]
  by (simp add: image_get_ramdisk_def Let_def image_at_magic image_at_hcrc image_at_dcrc image_at_fields
      IH_TYPE_RAMDISK_def IH_TYPE_MULTI_def IH_TYPE_SCRIPT_def)

lemma info_accepted:
  assumes "image_at r a p d f" "image_print_contents r a = Some l"
  shows "image_info r a = Some 0"
  using assms by (simp add: image_info_def image_at_format image_at_hcrc image_at_dcrc)

end
