(* ===== verification/BootCorrect.thy ===== *)
theory BootCorrect
  imports Bootm ImageCorrect
begin

text \<open>
  The tags for Linux as their reader sees them (\<open>tags_at\<close>), that the functions of \<^verbatim>\<open>lib_arm/bootm.c\<close> write them and
  nothing else, and what \<open>do_bootm_linux\<close> leaves and starts (\<open>linux_starts\<close>).
\<close>

section \<open>Tags\<close>

datatype tag = Core | Mem u32 u32 | Cmdline "byte list" | Initrd u32 u32

definition words_at :: "ram \<Rightarrow> u32 \<Rightarrow> u32 list \<Rightarrow> bool" where
  "words_at r a ws \<longleftrightarrow> ram_bytes r a (4 * length ws) = concat (map put_le32 ws)"

fun tag_len :: "tag \<Rightarrow> nat" where
  "tag_len Core = 20"
| "tag_len (Mem start sz) = 16"
| "tag_len (Cmdline s) = 4 * ((length s + 13) div 4)"
| "tag_len (Initrd start sz) = 16"

fun tag_at :: "ram \<Rightarrow> u32 \<Rightarrow> tag \<Rightarrow> bool" where
  "tag_at r a Core = words_at r a [5, ATAG_CORE, 0, 0, 0]"
| "tag_at r a (Mem start sz) = words_at r a [4, ATAG_MEM, sz, start]"
| "tag_at r a (Cmdline s) =
     (words_at r a [of_nat ((length s + 13) div 4), ATAG_CMDLINE] \<and> ram_bytes r (a + 8) (length s + 1) = s @ [0])"
| "tag_at r a (Initrd start sz) = words_at r a [4, ATAG_INITRD2, start, sz]"

text \<open>The list of tags with its end, where each tag follows the one before at the distance of its size.\<close>

fun tags_at :: "ram \<Rightarrow> u32 \<Rightarrow> tag list \<Rightarrow> bool" where
  "tags_at r a [] = words_at r a [0, ATAG_NONE]"
| "tags_at r a (t # ts) = (tag_at r a t \<and> tags_at r (a + of_nat (tag_len t)) ts)"

fun tags_before :: "ram \<Rightarrow> u32 \<Rightarrow> tag list \<Rightarrow> bool" where
  "tags_before r a [] = True"
| "tags_before r a (t # ts) = (tag_at r a t \<and> tags_before r (a + of_nat (tag_len t)) ts)"

definition tags_len :: "tag list \<Rightarrow> nat" where
  "tags_len ts = sum_list (map tag_len ts)"

lemma tags_len_simps [simp]: "tags_len [] = 0" "tags_len (t # ts) = tag_len t + tags_len ts"
  "tags_len (ts @ us) = tags_len ts + tags_len us"
  by (simp_all add: tags_len_def)

lemma concat_le_length [simp]: "length (concat (map put_le32 ws)) = 4 * length ws"
  by (induction ws) simp_all

lemma ram_bytes_cong: "(\<And>i. i < n \<Longrightarrow> r' (a + of_nat i) = r (a + of_nat i)) \<Longrightarrow> ram_bytes r' a n = ram_bytes r a n"
  by (simp add: ram_bytes_def)

lemma ram_bytes_tail:
  assumes "\<And>i. i < k + n \<Longrightarrow> r' (a + of_nat i) = r (a + of_nat i)"
  shows "ram_bytes r' (a + of_nat k) n = ram_bytes r (a + of_nat k) n"
  using assms [of "k + i" for i] by (intro ram_bytes_cong) (simp add: add.assoc)

lemma words_at_keep:
  "words_at r a ws \<Longrightarrow> (\<And>i. i < 4 * length ws \<Longrightarrow> r' (a + of_nat i) = r (a + of_nat i)) \<Longrightarrow> words_at r' a ws"
  using ram_bytes_cong [of "4 * length ws" r' a r] by (simp add: words_at_def)

lemma tag_at_keep:
  assumes "tag_at r a t" "\<And>i. i < tag_len t \<Longrightarrow> r' (a + of_nat i) = r (a + of_nat i)"
  shows "tag_at r' a t"
proof (cases t)
  case (Cmdline s)
  have "8 + (length s + 1) \<le> tag_len t" unfolding Cmdline tag_len.simps by presburger
  then have b: "r' (a + of_nat i) = r (a + of_nat i)" if "i < 8 + (length s + 1)" for i using assms(2) that by simp
  have "ram_bytes r' a 8 = ram_bytes r a 8" using b by (intro ram_bytes_cong) simp
  moreover have "ram_bytes r' (a + 8) (length s + 1) = ram_bytes r (a + 8) (length s + 1)"
    using ram_bytes_tail [of 8 "length s + 1" r' a r] b by simp
  ultimately show ?thesis using assms(1) by (simp add: Cmdline words_at_def)
qed (use assms in \<open>auto intro!: words_at_keep [of r a _ r']\<close>)

lemma tags_before_keep:
  assumes "tags_before r a ts" "\<And>i. i < tags_len ts \<Longrightarrow> r' (a + of_nat i) = r (a + of_nat i)"
  shows "tags_before r' a ts"
  using assms
proof (induction ts arbitrary: a)
  case (Cons t ts)
  have "tag_at r' a t" using Cons.prems by (intro tag_at_keep [of r a t r']) auto
  moreover have "tags_before r' (a + of_nat (tag_len t)) ts"
    using Cons.prems(1) Cons.prems(2) [of "tag_len t + i" for i] by (intro Cons.IH) (simp_all add: add.assoc)
  ultimately show ?case by simp
qed simp

lemma tags_before_append:
  "tags_before r a (ts @ us) \<longleftrightarrow> tags_before r a ts \<and> tags_before r (a + of_nat (tags_len ts)) us"
  by (induction ts arbitrary: a) (simp_all add: add.assoc)

lemma tags_at_before:
  "tags_at r a ts \<longleftrightarrow> tags_before r a ts \<and> words_at r (a + of_nat (tags_len ts)) [0, ATAG_NONE]"
  by (induction ts arbitrary: a) (simp_all add: add.assoc)

section \<open>Writing tags\<close>

definition tagged :: "u32 \<Rightarrow> ram \<Rightarrow> tag list \<Rightarrow> ram \<times> u32 \<Rightarrow> bool" where
  "tagged base r0 ts s \<longleftrightarrow> snd s = base + of_nat (tags_len ts) \<and> tags_before (fst s) base ts \<and>
     (\<forall>x. tags_len ts \<le> unat (x - base) \<longrightarrow> fst s x = r0 x)"

text \<open>What is behind the first \<open>n\<close> bytes, seen from there.\<close>

lemma offset_behind:
  fixes x base :: u32
  assumes "n \<le> unat (x - base)"
  shows "unat (x - (base + of_nat n)) = unat (x - base) - n"
proof -
  have "unat (x - base) < 2 ^ LENGTH(32)" by (rule unsigned_less)
  then have n: "n < 2 ^ 32" using assms by simp
  have e: "x - (base + of_nat n) = (x - base) - of_nat n" by simp
  have u: "unat (of_nat n :: u32) = n" using n by (simp add: unat_of_nat take_bit_eq_mod)
  have "unat ((x - base) - of_nat n) = unat (x - base) - unat (of_nat n :: u32)"
    using assms by (intro unat_sub) (simp only: word_le_nat_alt u)
  then show ?thesis by (simp only: e u)
qed

lemma offset_before:
  assumes "j < n" "n + m \<le> 2 ^ 32"
  shows "m \<le> unat ((base :: u32) + of_nat j - (base + of_nat n))"
proof -
  have "(of_nat (2 ^ 32 + j - n) :: u32) = of_nat (2 ^ 32 + j) - of_nat n" using assms by (intro of_nat_diff) simp
  moreover have "(of_nat (2 ^ 32) :: u32) = 0" by simp
  ultimately have e: "base + of_nat j - (base + of_nat n) = of_nat (2 ^ 32 + j - n)" by simp
  have u: "unat (of_nat (2 ^ 32 + j - n) :: u32) = 2 ^ 32 + j - n"
    using assms(1) by (simp add: unat_of_nat take_bit_eq_mod)
  show ?thesis unfolding e u using assms by simp
qed

lemma tagged_step:
  assumes "tagged base r0 ts (r, p)" "tag_at r' p t" "\<And>x. tag_len t \<le> unat (x - p) \<Longrightarrow> r' x = r x"
    and "tags_len ts + tag_len t \<le> 2 ^ 32"
  shows "tagged base r0 (ts @ [t]) (r', p + of_nat (tag_len t))"
proof -
  have p: "p = base + of_nat (tags_len ts)" using assms(1) by (simp add: tagged_def)
  have before: "tags_before r base ts" and same: "tags_len ts \<le> unat (x - base) \<Longrightarrow> r x = r0 x" for x
    using assms(1) by (simp_all add: tagged_def)
  have "r' (base + of_nat i) = r (base + of_nat i)" if i: "i < tags_len ts" for i
    using offset_before [OF i assms(4), of base] by (intro assms(3)) (simp only: p)
  then have "tags_before r' base ts" by (rule tags_before_keep [OF before])
  moreover have "r' x = r0 x" if x: "tags_len ts + tag_len t \<le> unat (x - base)" for x
  proof -
    have "unat (x - p) = unat (x - base) - tags_len ts" unfolding p using x by (intro offset_behind) simp
    then have "r' x = r x" using x by (intro assms(3)) simp
    then show ?thesis using same [of x] x by simp
  qed
  ultimately show ?thesis using assms(2) by (simp add: tagged_def p tags_before_append add.assoc)
qed

section \<open>The functions that write tags\<close>

lemma ram_put_outside: "length bs \<le> unat (x - p) \<Longrightarrow> ram_put r p bs x = r x"
  by (simp add: ram_put_def)

lemma put_words_at:
  assumes "4 * length ws < 2 ^ 32" shows "words_at (put_words ws p r) p ws"
  using ram_bytes_ram_put [of 0 "4 * length ws" "concat (map put_le32 ws)" r p] assms
  by (simp add: words_at_def put_words_def)

lemma put_words_outside: "4 * length ws \<le> unat (x - p) \<Longrightarrow> put_words ws p r x = r x"
  by (simp add: put_words_def ram_put_outside)

lemma tagged_words:
  assumes "tagged base r0 ts s" "tags_len ts + tag_len t \<le> 2 ^ 32"
    and "tag_len t = 4 * length ws" "hd ws = of_nat (length ws)" "4 * length ws < 2 ^ 32"
    and "\<And>r p. words_at r p ws \<Longrightarrow> tag_at r p t"
  shows "tagged base r0 (ts @ [t]) (put_tag ws s)"
proof -
  obtain r p where s: "s = (r, p)" by (cases s)
  have "tagged base r0 (ts @ [t]) (put_words ws p r, p + of_nat (tag_len t))"
    using assms put_words_at [OF assms(5), of p r] put_words_outside [of ws _ p r]
    by (intro tagged_step [of base r0 ts r]) (simp_all add: s)
  then show ?thesis using assms(3,4) by (simp add: put_tag_def s)
qed

lemma tagged_start: "tagged base r [Core] (setup_start_tag base r)"
proof -
  have "tagged base r [] (r, base)" by (simp add: tagged_def)
  then show ?thesis
    unfolding setup_start_tag_def by (rule tagged_words [where ts = "[]", simplified]) simp_all
qed

definition mem_tags :: "'w boot_env \<Rightarrow> nat \<Rightarrow> tag list" where
  "mem_tags env n = map (\<lambda>(start, sz). Mem start sz) (take n (bo_dram env))"

lemma tagged_memory:
  assumes "tagged base r0 ts s" "n \<le> length (bo_dram env)" "tags_len ts + 16 * n \<le> 2 ^ 32"
  shows "\<exists>s'. foreach [0..<n] (\<lambda>i s. do { (start, sz) \<leftarrow> rd (bo_dram env) i; Some (put_tag [4, ATAG_MEM, sz, start] s) }) s =
    Some s' \<and> tagged base r0 (ts @ mem_tags env n) s' \<and> tags_len (mem_tags env n) = 16 * n"
  using assms(2,3)
proof (induction n)
  case 0
  then show ?case using assms(1) by (simp add: mem_tags_def)
next
  case (Suc n)
  then obtain s' where s': "foreach [0..<n] (\<lambda>i s. do { (start, sz) \<leftarrow> rd (bo_dram env) i; Some (put_tag [4, ATAG_MEM, sz, start] s) }) s =
      Some s'" "tagged base r0 (ts @ mem_tags env n) s'" "tags_len (mem_tags env n) = 16 * n" by auto
  obtain start sz where d: "bo_dram env ! n = (start, sz)" by force
  have m: "mem_tags env (Suc n) = mem_tags env n @ [Mem start sz]"
    using Suc.prems(1) d by (simp add: mem_tags_def take_Suc_conv_app_nth)
  have "tagged base r0 ((ts @ mem_tags env n) @ [Mem start sz]) (put_tag [4, ATAG_MEM, sz, start] s')"
    using Suc.prems(2) s'(3) by (intro tagged_words [OF s'(2)]) simp_all
  then show ?case using Suc.prems(1) s'(1,3) d by (simp add: foreach_append m)
qed

text \<open>The command line without its leading blanks, when there is one.\<close>

definition cmd_tags :: "byte list option \<Rightarrow> tag list" where
  "cmd_tags commandline = (case commandline of None \<Rightarrow> []
     | Some t \<Rightarrow> (let t = dropWhile (\<lambda>c. c = 32) t in if t = [] then [] else [Cmdline t]))"

lemma cmdline_len: "length t + 9 \<le> tag_len (Cmdline t)"
  unfolding tag_len.simps by presburger

lemma cmdline_words:
  assumes "length t < 2 ^ 31"
  shows "drop_bit 2 (8 + of_nat (length t) + 1 + 4) = (of_nat ((length t + 13) div 4) :: u32)"
proof -
  have "8 + of_nat (length t) + 1 + 4 = (of_nat (length t + 13) :: u32)" by simp
  moreover have "drop_bit 2 (of_nat (length t + 13) :: u32) = of_nat ((length t + 13) div 4)"
  proof (rule iffD2 [OF word_unat_eq_iff])
    have u: "unat (of_nat (length t + 13) :: u32) = length t + 13" using assms by (intro unat_of_small) simp
    have "(length t + 13) div 4 \<le> length t + 13" by (rule div_le_dividend)
    then have v: "unat (of_nat ((length t + 13) div 4) :: u32) = (length t + 13) div 4" using assms by (intro unat_of_small) simp
    show "unat (drop_bit 2 (of_nat (length t + 13) :: u32)) = unat (of_nat ((length t + 13) div 4) :: u32)"
      unfolding v by (simp only: unat_drop_bit_eq u) (simp add: drop_bit_eq_div)
  qed
  ultimately show ?thesis by (simp only:)
qed

definition cmdline_put :: "byte list \<Rightarrow> u32 \<Rightarrow> ram \<Rightarrow> ram" where
  "cmdline_put t p r = ram_put (put_words [of_nat ((length t + 13) div 4), ATAG_CMDLINE] p r) (p + 8) (t @ [0])"

lemma cmdline_put_outside:
  assumes "tag_len (Cmdline t) \<le> unat (x - p)"
  shows "cmdline_put t p r x = r x"
proof -
  have l: "length t + 9 \<le> unat (x - p)" using cmdline_len assms by (rule le_trans)
  have "unat (x - (p + of_nat 8)) = unat (x - p) - 8" using l by (intro offset_behind) simp
  then have "length (t @ [0]) \<le> unat (x - (p + 8))" using l by simp
  then show ?thesis using l by (simp only: cmdline_put_def ram_put_outside) (intro put_words_outside, simp)
qed

lemma cmdline_put_at:
  assumes "length t < 2 ^ 31"
  shows "tag_at (cmdline_put t p r) p (Cmdline t)"
proof -
  let ?ws = "[of_nat ((length t + 13) div 4), ATAG_CMDLINE] :: u32 list"
  have k: "cmdline_put t p r (p + of_nat i) = put_words ?ws p r (p + of_nat i)" if i: "i < 8" for i
  proof -
    have "length (t @ [0]) \<le> unat (p + of_nat i - (p + of_nat 8))" using assms i by (intro offset_before) simp_all
    then show ?thesis unfolding cmdline_put_def by (intro ram_put_outside) simp
  qed
  have "words_at (put_words ?ws p r) p ?ws" by (rule put_words_at) simp
  then have "words_at (cmdline_put t p r) p ?ws" by (rule words_at_keep) (use k in simp)
  moreover have "ram_bytes (cmdline_put t p r) (p + 8) (length t + 1) = t @ [0]"
    using ram_bytes_ram_put [of 0 "length t + 1" "t @ [0]" _ "p + 8"] assms by (simp add: cmdline_put_def)
  ultimately show ?thesis by simp
qed

lemma tagged_commandline:
  assumes "tagged base r0 ts s" "tags_len ts + tags_len (cmd_tags commandline) \<le> 2 ^ 31"
  shows "tagged base r0 (ts @ cmd_tags commandline) (setup_commandline_tag commandline s)"
proof (cases "cmd_tags commandline = []")
  case True
  then show ?thesis using assms(1)
    by (auto simp: cmd_tags_def setup_commandline_tag_def Let_def split: option.splits if_splits)
next
  case False
  then obtain t0 t where t: "commandline = Some t0" "t = dropWhile (\<lambda>c. c = 32) t0" "t \<noteq> []"
    by (auto simp: cmd_tags_def Let_def split: option.splits if_splits)
  obtain r p where s: "s = (r, p)" by (cases s)
  have tags: "cmd_tags commandline = [Cmdline t]" using t by (simp add: cmd_tags_def)
  have sum: "tags_len ts + tag_len (Cmdline t) \<le> 2 ^ 31" using assms(2) unfolding tags by (simp only: tags_len_simps add_0_right)
  have len: "length t < 2 ^ 31" using cmdline_len [of t] sum by linarith
  have "tagged base r0 (ts @ [Cmdline t]) (cmdline_put t p r, p + of_nat (tag_len (Cmdline t)))"
    by (rule tagged_step [OF assms(1) [unfolded s] cmdline_put_at [OF len] cmdline_put_outside]) (assumption, rule le_trans [OF sum], simp)
  moreover have "setup_commandline_tag commandline s = (cmdline_put t p r, p + of_nat (tag_len (Cmdline t)))"
    unfolding setup_commandline_tag_def t(1) s option.case Let_def t(2) [symmetric] cmdline_words [OF len] case_prod_conv if_not_P [OF t(3)]
    by (simp add: cmdline_put_def)
  ultimately show ?thesis by (simp only: tags)
qed

definition initrd_tags :: "u32 \<Rightarrow> u32 \<Rightarrow> tag list" where
  "initrd_tags rd_start rd_end = (if rd_start \<noteq> 0 \<and> rd_end \<noteq> 0 then [Initrd rd_start (rd_end - rd_start)] else [])"

lemma tagged_initrd:
  assumes "tagged base r0 ts s" "tags_len ts + tags_len (initrd_tags rd_start rd_end) \<le> 2 ^ 31"
  shows "tagged base r0 (ts @ initrd_tags rd_start rd_end)
    (if rd_start \<noteq> 0 \<and> rd_end \<noteq> 0 then setup_initrd_tag rd_start rd_end s else s)"
proof (cases "rd_start \<noteq> 0 \<and> rd_end \<noteq> 0")
  case True
  have "tagged base r0 (ts @ [Initrd rd_start (rd_end - rd_start)]) (put_tag [4, ATAG_INITRD2, rd_start, rd_end - rd_start] s)"
    using assms(2) True by (intro tagged_words [OF assms(1)]) (simp_all add: initrd_tags_def)
  then show ?thesis using True by (simp add: initrd_tags_def setup_initrd_tag_def)
next
  case False
  then show ?thesis using assms(1) by (auto simp: initrd_tags_def)
qed

lemma end_outside: "8 \<le> unat (x - p) \<Longrightarrow> put_words [0, ATAG_NONE] p r x = r x"
  by (rule put_words_outside) simp

lemma tagged_end:
  assumes "tagged base r0 ts s" "tags_len ts + 8 \<le> 2 ^ 32"
  shows "tags_at (setup_end_tag s) base ts"
    and "tags_len ts + 8 \<le> unat (x - base) \<Longrightarrow> setup_end_tag s x = r0 x"
proof -
  obtain r p where s: "s = (r, p)" by (cases s)
  have p: "p = base + of_nat (tags_len ts)" and before: "tags_before r base ts"
    and same: "tags_len ts \<le> unat (x - base) \<Longrightarrow> r x = r0 x" for x
    using assms(1) by (simp_all add: tagged_def s)
  have e: "setup_end_tag s = put_words [0, ATAG_NONE] p r" by (simp add: setup_end_tag_def s)
  have "put_words [0, ATAG_NONE] p r (base + of_nat i) = r (base + of_nat i)" if i: "i < tags_len ts" for i
    by (rule end_outside) (simp only: p offset_before [OF i assms(2)])
  then have "tags_before (setup_end_tag s) base ts" unfolding e by (rule tags_before_keep [OF before])
  moreover have "words_at (setup_end_tag s) p [0, ATAG_NONE]" unfolding e by (rule put_words_at) simp
  ultimately show "tags_at (setup_end_tag s) base ts" unfolding tags_at_before p by blast
  show "setup_end_tag s x = r0 x" if x: "tags_len ts + 8 \<le> unat (x - base)"
  proof -
    have "unat (x - p) = unat (x - base) - tags_len ts" unfolding p using x by (intro offset_behind) linarith
    then have "setup_end_tag s x = r x" using x unfolding e by (intro end_outside) linarith
    also have "\<dots> = r0 x" using x by (intro same) linarith
    finally show ?thesis .
  qed
qed

section \<open>Starting Linux\<close>

text \<open>The tags that a board, a command line and a ramdisk give.\<close>

definition linux_tags :: "'w boot_env \<Rightarrow> byte list option \<Rightarrow> u32 \<Rightarrow> u32 \<Rightarrow> tag list" where
  "linux_tags env commandline rd_start rd_end =
     Core # mem_tags env (nat (bo_nr_banks env)) @ cmd_tags commandline @ initrd_tags rd_start rd_end"

definition machine_id :: "'w boot_env \<Rightarrow> 'w boot \<Rightarrow> u32 option" where
  "machine_id env st = (case boot_var env ''machid'' st of None \<Rightarrow> Some (bo_arch_number env) | Some s \<Rightarrow> hex_number s)"

lemma linux_starts:
  assumes "does_flag flag" "machine_id env st = Some machid"
    and "boot_get_ramdisk argv IH_ARCH_ARM (bt_ram st) (bt_images st) = Some (bad, rd_start, rd_end)"
    and "nat (bo_nr_banks env) \<le> length (bo_dram env)"
    and "ts = linux_tags env (boot_var env ''bootargs'' st) rd_start rd_end" "tags_len ts + 8 \<le> 2 ^ 31"
  shows "\<exists>r. do_bootm_linux env flag argv st =
      Some (st\<lparr>bt_ram := r, bt_images := (bt_images st)\<lparr>im_rd_start := rd_start, im_rd_end := rd_end\<rparr>\<rparr>,
        Linux (im_ep (bt_images st)) machid (bo_boot_params env)) \<and>
    tags_at r (bo_boot_params env) ts \<and>
    (\<forall>x. tags_len ts + 8 \<le> unat (x - bo_boot_params env) \<longrightarrow> r x = bt_ram st x)"
proof -
  let ?b = "bo_boot_params env" and ?n = "nat (bo_nr_banks env)" and ?c = "cmd_tags (boot_var env ''bootargs'' st)"
  let ?i = "initrd_tags rd_start rd_end"
  have n: "tags_len (mem_tags env ?n) = 16 * ?n"
    using assms(4) by (simp add: mem_tags_def tags_len_def o_def case_prod_unfold sum_list_triv)
  have sum: "20 + 16 * ?n + tags_len ?c + tags_len ?i + 8 \<le> 2 ^ 31"
    using assms(6) n by (simp add: assms(5) linux_tags_def)
  have one: "tagged ?b (bt_ram st) [Core] (setup_start_tag ?b (bt_ram st))" by (rule tagged_start)
  obtain s1 where s1: "setup_memory_tags env (setup_start_tag ?b (bt_ram st)) = Some s1" "tagged ?b (bt_ram st) ([Core] @ mem_tags env ?n) s1"
    using tagged_memory [OF one assms(4)] sum unfolding setup_memory_tags_def by auto
  define s2 where "s2 = setup_commandline_tag (boot_var env ''bootargs'' st) s1"
  have t2: "tagged ?b (bt_ram st) (([Core] @ mem_tags env ?n) @ ?c) s2"
    unfolding s2_def using sum n by (intro tagged_commandline [OF s1(2)]) simp
  define s3 where "s3 = (if rd_start \<noteq> 0 \<and> rd_end \<noteq> 0 then setup_initrd_tag rd_start rd_end s2 else s2)"
  have t3: "tagged ?b (bt_ram st) ((([Core] @ mem_tags env ?n) @ ?c) @ ?i) s3"
    unfolding s3_def using sum n by (intro tagged_initrd [OF t2]) simp
  then have t: "tagged ?b (bt_ram st) ts s3" by (simp add: assms(5) linux_tags_def)
  have run: "do_bootm_linux env flag argv st =
      Some (st\<lparr>bt_ram := setup_end_tag s3, bt_images := (bt_images st)\<lparr>im_rd_start := rd_start, im_rd_end := rd_end\<rparr>\<rparr>,
        Linux (im_ep (bt_images st)) machid ?b)"
    using assms(1,2,3) s1(1) by (simp add: do_bootm_linux_def machine_id_def Let_def flip: s2_def) (simp add: s3_def)
  have l: "tags_len ts + 8 \<le> 2 ^ 32" using assms(6) by simp
  show ?thesis
    using run tagged_end [OF t l] by (intro exI [of _ "setup_end_tag s3"]) simp
qed

end
