(* ===== verification/MkimageCorrect.thy ===== *)
theory MkimageCorrect
  imports ImageCorrect
begin

text \<open>
  What the tool writes, for any options: the image of the options' parameters (\<open>mkimage_image\<close>), and of an image with
  several components, the table and where each component lies (\<open>multi_payload\<close>, \<open>part_at\<close>).
\<close>

section \<open>The options decide the image\<close>

definition mk_entry :: "mk_params \<Rightarrow> mk_params" where
  "mk_entry p = (if mk_eflag p then p else p\<lparr>mk_ep := mk_addr p + (if mk_xflag p then 64 else 0)\<rparr>)"

lemma mk_entry_simps [simp]: "mk_addr (mk_entry p) = mk_addr p" "mk_os (mk_entry p) = mk_os p" "mk_arch (mk_entry p) = mk_arch p"
  "mk_type (mk_entry p) = mk_type p" "mk_comp (mk_entry p) = mk_comp p" "mk_datafile (mk_entry p) = mk_datafile p"
  "mk_xflag (mk_entry p) = mk_xflag p" "mk_lflag (mk_entry p) = mk_lflag p"
  by (simp_all add: mk_entry_def)

lemma mk_number_ok: "mk_number s g = Some (Some p) \<Longrightarrow> \<exists>n. p = g n"
  by (auto simp: mk_number_def split: prod.splits if_splits)

lemma mk_id_ok: "mk_id i g = Some (Some p) \<Longrightarrow> \<exists>n. 0 \<le> n \<and> p = g n"
  by (auto simp: mk_id_def not_less split: if_splits)

lemma mk_option_type:
  assumes "mk_option c x p = Some (Some q)" "0 \<le> mk_type p" shows "0 \<le> mk_type q"
  using assms unfolding mk_option_def
  by (auto split: if_splits dest!: mk_number_ok mk_id_ok)

lemma mk_letters_type:
  "mk_letters cs args p = Some (Some (q, rest)) \<Longrightarrow> 0 \<le> mk_type p \<Longrightarrow> 0 \<le> mk_type q"
proof (induction cs args p rule: mk_letters.induct)
  case (2 c cs args p)
  then show ?case by (auto split: if_splits list.splits simp: mk_flag_def dest: mk_option_type)
qed simp

lemma mk_args_type: "mk_args args p = Some (Some (q, rest)) \<Longrightarrow> 0 \<le> mk_type p \<Longrightarrow> 0 \<le> mk_type q"
proof (induction args p rule: mk_args.induct)
  case (1 args p)
  then show ?case
    by (subst (asm) mk_args.simps) (auto split: if_splits list.splits option.splits dest: mk_letters_type)
qed

lemma mkimage_image:
  assumes "mkimage files t args = Some (Mk_Image f)" "mk_args args mk_defaults = Some (Some (p, rest))"
  shows "\<exists>name payload. mk_datafile p = Some name \<and> 0 < mk_type p \<and> mk_type p < 8 \<and>
    mk_payload files (mk_xflag p) (mk_type p) name = Some payload \<and>
    image_set_header (mk_entry p) t (replicate 64 0 @ payload) = Some f"
proof -
  have "0 \<le> mk_type p" using mk_args_type [OF assms(2)] by (simp add: mk_defaults_def)
  then show ?thesis
    using assms by (auto simp: mkimage_def Let_def mk_entry_def split: if_splits option.splits)
qed

section \<open>The table\<close>

lemma concat_words_length [simp]: "length (concat (map put_be32 ws)) = 4 * length ws"
  by (induction ws) simp_all

lemma concat_words_nth:
  "i < length ws \<Longrightarrow> take 4 (drop (4 * i) (concat (map put_be32 ws) @ xs)) = put_be32 (ws ! i)"
proof (induction ws arbitrary: i)
  case (Cons w ws)
  then show ?case by (cases i) simp_all
qed simp

lemma all_some_map [simp]: "all_some (map Some ys) = Some ys"
  by (induction ys) simp_all

lemma all_some_is: "all_some xs = Some ys \<Longrightarrow> xs = map Some ys"
proof (induction xs arbitrary: ys)
  case (Cons x xs)
  then obtain v vs where "x = Some v" "all_some xs = Some vs" "ys = v # vs"
    by (cases x; cases "all_some xs") auto
  with Cons.IH show ?case by simp
qed simp

lemma copy_file_some:
  assumes "copy_file xflag pad c = Some d"
  shows "c \<noteq> []" "length c \<le> 64 + length d"
    "\<not> xflag \<Longrightarrow> d = c @ (if pad \<and> length c mod 4 \<noteq> 0 then replicate (4 - length c mod 4) 0 else [])"
  using assms by (auto simp: copy_file_def Let_def split: if_splits)

definition pad4 :: "nat \<Rightarrow> nat" where
  "pad4 n = 4 * ((n + 3) div 4)"

lemma pad4_length: "n + (if n mod 4 \<noteq> 0 then 4 - n mod 4 else 0) = pad4 n"
  unfolding pad4_def by presburger

lemma round_up: "((of_nat n + 3 :: u32) AND NOT 3) = of_nat (pad4 n)"
proof -
  let ?x = "of_nat (n + 3) :: u32"
  have "?x = (?x AND 3) + (?x AND NOT 3)"
    by (subst disjunctive_add) (auto simp: bit_simps intro: bit_word_eqI)
  moreover have "?x AND 3 = of_nat ((n + 3) mod 4)"
  proof -
    have "?x AND 3 = take_bit 2 ?x" by (simp add: take_bit_eq_mask mask_eq_exp_minus_1)
    also have "\<dots> = of_nat (take_bit 2 (n + 3))" by (rule take_bit_of_nat)
    also have "take_bit 2 (n + 3) = (n + 3) mod 4" by (simp add: take_bit_eq_mod)
    finally show ?thesis .
  qed
  moreover have "n + 3 = (n + 3) mod 4 + pad4 n" by (simp add: pad4_def)
  then have "?x = of_nat ((n + 3) mod 4) + of_nat (pad4 n)" by (metis of_nat_add)
  ultimately show ?thesis by (simp add: add.commute)
qed

lemma multi_count_is:
  assumes "\<And>j. j < n \<Longrightarrow> ram_be32 r (t + 4 * of_nat j) \<noteq> 0" "ram_be32 r (t + 4 * of_nat n) = 0" "i \<le> n"
  shows "multi_count r t (of_nat i) = Some (of_nat n)"
  using assms(3)
proof (induction "n - i" arbitrary: i)
  case 0
  then show ?case using assms(2) by (simp add: multi_count.simps)
next
  case (Suc m)
  then have "multi_count r t (of_nat (Suc i)) = Some (of_nat n)" using Suc.hyps(1) [of "Suc i"] by simp
  then show ?case using Suc.hyps(2) assms(1) [of i] by (subst multi_count.simps) (simp add: add.commute)
qed

section \<open>The components\<close>

definition parts_of :: "bool \<Rightarrow> byte list list \<Rightarrow> byte list list \<Rightarrow> bool" where
  "parts_of xflag cs parts \<longleftrightarrow> length parts = length cs \<and>
     (\<forall>k < length cs. copy_file xflag (k + 1 < length cs) (cs ! k) = Some (parts ! k))"

definition multi_payload :: "byte list list \<Rightarrow> byte list list \<Rightarrow> byte list" where
  "multi_payload cs parts =
     concat (map put_be32 (map (\<lambda>c. of_nat (length c)) cs)) @ put_be32 0 @ concat parts"

lemma payload_length: "length (multi_payload cs parts) = 4 * length cs + 4 + length (concat parts)"
  unfolding multi_payload_def by (simp only: length_append concat_words_length length_map length_put)

lemma payload_data: "drop (4 * length cs + 4 + j) (multi_payload cs parts) = drop j (concat parts)"
proof -
  have "length (concat (map put_be32 (map (\<lambda>c. of_nat (length c)) cs)) @ put_be32 0) = 4 * length cs + 4"
    by (simp only: length_append concat_words_length length_map length_put)
  then show ?thesis unfolding multi_payload_def append_assoc [symmetric] by (simp only: drop_append) simp
qed

lemma part_concat:
  "k < length parts \<Longrightarrow> concat parts = concat (take k parts) @ parts ! k @ concat (drop (Suc k) parts)"
  by (metis append_take_drop_id concat.simps(2) concat_append Cons_nth_drop_Suc)

lemma multi_is:
  assumes "mk_multi xflag cs = Some payload"
  shows "\<exists>parts. parts_of xflag cs parts \<and> payload = multi_payload cs parts"
proof -
  obtain parts where parts: "all_some (map (\<lambda>k. copy_file xflag (k + 1 < length cs) (cs ! k)) [0..<length cs]) = Some parts"
      "payload = multi_payload cs parts"
    using assms by (auto simp: mk_multi_def multi_payload_def comp_def split: bind_splits)
  have e: "map (\<lambda>k. copy_file xflag (k + 1 < length cs) (cs ! k)) [0..<length cs] = map Some parts"
    using all_some_is [OF parts(1)] .
  have "length parts = length cs" using arg_cong [OF e, of length] by simp
  moreover have "copy_file xflag (k + 1 < length cs) (cs ! k) = Some (parts ! k)" if "k < length cs" for k
    using arg_cong [OF e, of "\<lambda>xs. xs ! k"] that calculation by simp
  ultimately show ?thesis using parts(2) by (auto simp: parts_of_def)
qed

text \<open>The component \<open>k\<close> starts at this place of the data.\<close>

definition part_start :: "byte list list \<Rightarrow> nat \<Rightarrow> nat" where
  "part_start cs k = 4 * length cs + 4 + sum_list (map (\<lambda>c. pad4 (length c)) (take k cs))"

lemma part_length:
  assumes "parts_of False cs parts" "k + 1 < length cs"
  shows "length (parts ! k) = pad4 (length (cs ! k))"
proof -
  have "copy_file False True (cs ! k) = Some (parts ! k)"
    using assms by (auto simp: parts_of_def dest: spec [of _ k])
  then have "length (parts ! k) = length (cs ! k) + (if length (cs ! k) mod 4 \<noteq> 0 then 4 - length (cs ! k) mod 4 else 0)"
    by (subst copy_file_some(3) [of False True]) auto
  then show ?thesis by (simp only: pad4_length)
qed

lemma parts_before:
  assumes "parts_of False cs parts" "k < length cs"
  shows "length (concat (take k parts)) = sum_list (map (\<lambda>c. pad4 (length c)) (take k cs))"
  using assms(2)
proof (induction k)
  case (Suc k)
  then have "k < length parts" using assms(1) by (simp add: parts_of_def)
  then show ?case using Suc part_length [OF assms(1), of k] by (simp add: take_Suc_conv_app_nth)
qed simp

lemma part_in_payload:
  assumes "parts_of False cs parts" "k < length cs"
  shows "take (length (cs ! k)) (drop (part_start cs k) (multi_payload cs parts)) = cs ! k"
    "part_start cs k + length (cs ! k) \<le> length (multi_payload cs parts)"
proof -
  have k: "k < length parts" using assms by (simp add: parts_of_def)
  have cp: "copy_file False (k + 1 < length cs) (cs ! k) = Some (parts ! k)" using assms by (simp add: parts_of_def)
  obtain z where z: "parts ! k = cs ! k @ z" using copy_file_some(3) [OF cp] by auto
  have "drop (part_start cs k) (multi_payload cs parts) = drop (length (concat (take k parts))) (concat parts)"
    unfolding part_start_def payload_data parts_before [OF assms] ..
  also have "\<dots> = cs ! k @ z @ concat (drop (Suc k) parts)" by (subst part_concat [OF k]) (simp add: z)
  finally have d: "drop (part_start cs k) (multi_payload cs parts) = cs ! k @ z @ concat (drop (Suc k) parts)" .
  show "take (length (cs ! k)) (drop (part_start cs k) (multi_payload cs parts)) = cs ! k" unfolding d by simp
  have "length (cs ! k) \<le> length (multi_payload cs parts) - part_start cs k"
    using arg_cong [OF d, of length] by simp
  moreover have "cs ! k \<noteq> []" using copy_file_some(1) [OF cp] .
  ultimately show "part_start cs k + length (cs ! k) \<le> length (multi_payload cs parts)"
    by (cases "part_start cs k \<le> length (multi_payload cs parts)") auto
qed

text \<open>The table in memory.\<close>

lemma table_word:
  assumes "image_at r a p (multi_payload cs parts) f" "i \<le> length cs"
  shows "ram_be32 r (image_get_data a + 4 * of_nat i) = (if i < length cs then of_nat (length (cs ! i)) else 0)"
proof -
  let ?ws = "map (\<lambda>c. of_nat (length c)) cs @ [0 :: u32]"
  have pay: "multi_payload cs parts = concat (map put_be32 ?ws) @ concat parts" by (simp add: multi_payload_def)
  have l: "64 + 4 * i + 4 \<le> length f"
    using image_at_data(1) [OF assms(1)] assms(2) by (simp add: payload_length)
  have "ram_bytes r (a + of_nat (64 + 4 * i)) 4 = take 4 (drop (4 * i) (drop 64 f))"
    using image_at_part [OF assms(1), of "64 + 4 * i" 4] l by (simp add: add.commute)
  also have "drop 64 f = concat (map put_be32 ?ws) @ concat parts" using image_at_data(2) [OF assms(1)] pay by simp
  also have "take 4 (drop (4 * i) \<dots>) = put_be32 (?ws ! i)"
    using assms(2) by (intro concat_words_nth) simp
  finally have "ram_bytes r (image_get_data a + 4 * of_nat i) 4 = put_be32 (?ws ! i)"
    by (simp add: image_get_data_def HEADER_SIZE_def add.assoc)
  then show ?thesis using assms(2) by (simp add: ram_be32_def nth_append)
qed

lemma part_size:
  assumes "image_at r a p (multi_payload cs parts) f" "parts_of xflag cs parts" "i < length cs"
  shows "0 < length (cs ! i)" "length (cs ! i) < 2 ^ 32"
proof -
  have cp: "copy_file xflag (i + 1 < length cs) (cs ! i) = Some (parts ! i)" using assms(2,3) by (simp add: parts_of_def)
  show "0 < length (cs ! i)" using copy_file_some(1) [OF cp] by simp
  have i: "i < length parts" using assms(2,3) by (simp add: parts_of_def)
  have "length (parts ! i) \<le> length (concat parts)" by (subst part_concat [OF i]) simp
  moreover have "length f < 2 ^ 32" using assms(1) by (simp add: image_at_def)
  ultimately show "length (cs ! i) < 2 ^ 32"
    using image_at_data(1) [OF assms(1)] copy_file_some(2) [OF cp] unfolding payload_length by linarith
qed

lemma multi_count_image:
  assumes "image_at r a p (multi_payload cs parts) f" "parts_of xflag cs parts"
  shows "image_multi_count r a = Some (of_nat (length cs))" "length cs < 2 ^ 30"
proof -
  have "of_nat (length (cs ! i)) \<noteq> (0 :: u32)" if "i < length cs" for i
    using part_size [OF assms that] by (simp add: word_of_nat_eq_0_iff nat_dvd_not_less)
  then show "image_multi_count r a = Some (of_nat (length cs))"
    unfolding image_multi_count_def
    using multi_count_is [of "length cs" r "image_get_data a" 0] by (simp add: table_word [OF assms(1)])
  have "length f < 2 ^ 32" using assms(1) by (simp add: image_at_def)
  then show "length cs < 2 ^ 30" using image_at_data(1) [OF assms(1)] unfolding payload_length by simp
qed

section \<open>What is found of a component\<close>

lemma offset_sum:
  assumes "\<And>i. i < k \<Longrightarrow> ram_be32 r (t + 4 * of_nat i) = of_nat (length (cs ! i))" "k \<le> length cs"
  shows "fold (\<lambda>i offset. offset + (ram_be32 r (t + 4 * of_nat i) + 3 AND NOT 3)) [0..<k] 0 =
    (of_nat (sum_list (map (\<lambda>c. pad4 (length c)) (take k cs))) :: u32)"
  using assms
proof (induction k)
  case (Suc k)
  then show ?case by (simp add: take_Suc_conv_app_nth round_up [simplified])
qed simp

definition part_at :: "u32 \<Rightarrow> byte list list \<Rightarrow> nat \<Rightarrow> u32" where
  "part_at a cs k = image_get_data a + of_nat (part_start cs k)"

lemma getimg_part:
  assumes "image_at r a p (multi_payload cs parts) f" "parts_of xflag cs parts" "k < length cs"
  shows "image_multi_getimg r a (of_nat k) = Some (part_at a cs k, of_nat (length (cs ! k)))"
proof -
  have n: "length cs < 2 ^ 30" using multi_count_image [OF assms(1,2)] by simp
  then have "of_nat k < (of_nat (length cs) :: u32)" using assms(3) by (simp add: word_less_nat_alt unat_of_nat take_bit_eq_mod)
  moreover have "unat (of_nat k :: u32) = k" using n assms(3) by (simp add: unat_of_nat take_bit_eq_mod)
  moreover have "fold (\<lambda>i offset. offset + (ram_be32 r (image_get_data a + 4 * of_nat i) + 3 AND NOT 3)) [0..<k] 0 =
      of_nat (sum_list (map (\<lambda>c. pad4 (length c)) (take k cs)))"
    using assms(3) table_word [OF assms(1)] by (intro offset_sum) simp_all
  ultimately show ?thesis
    using multi_count_image(1) [OF assms(1,2)] table_word [OF assms(1), of k] assms(3)
    by (simp add: image_multi_getimg_def Let_def part_at_def part_start_def algebra_simps)
qed

lemma getimg_beyond:
  assumes "image_at r a p (multi_payload cs parts) f" "parts_of xflag cs parts" "of_nat (length cs) \<le> k"
  shows "image_multi_getimg r a k = Some (0, 0)"
  using multi_count_image(1) [OF assms(1,2)] leD [OF assms(3)] by (simp add: image_multi_getimg_def Let_def)

lemma part_bytes:
  assumes "image_at r a p (multi_payload cs parts) f" "parts_of False cs parts" "k < length cs"
  shows "ram_bytes r (part_at a cs k) (length (cs ! k)) = cs ! k"
proof -
  let ?s = "part_start cs k" and ?n = "length (cs ! k)"
  have l: "64 + ?s + ?n \<le> length f"
    using part_in_payload(2) [OF assms(2,3)] image_at_data(1) [OF assms(1)] by simp
  have "ram_bytes r (a + of_nat (64 + ?s)) ?n = take ?n (drop ?s (drop 64 f))"
    using image_at_part [OF assms(1) l] by (simp add: add.commute)
  also have "\<dots> = cs ! k"
    unfolding image_at_data(2) [OF assms(1)] by (rule part_in_payload(1) [OF assms(2,3)])
  finally show ?thesis by (simp add: part_at_def image_get_data_def HEADER_SIZE_def add.assoc)
qed

lemma foreach_map:
  assumes "\<And>i. i < n \<Longrightarrow> g i = Some (h i)"
  shows "foreach [0..<n] (\<lambda>i l. do { c \<leftarrow> g i; Some (l @ [c]) }) [] = Some (map h [0..<n])"
  using assms by (induction n) (simp_all add: foreach_append)

lemma contents_listed:
  assumes "image_at r a p (multi_payload cs parts) f" "parts_of xflag cs parts" "mk_type p = 4 \<or> mk_type p = 6"
  shows "image_print_contents r a = Some (map (\<lambda>k. (part_at a cs k, of_nat (length (cs ! k)))) [0..<length cs])"
proof -
  have ty: "image_get_type (hdr_at r a) = IH_TYPE_MULTI \<or> image_get_type (hdr_at r a) = IH_TYPE_SCRIPT"
    using assms(3) by (auto simp: image_at_fields [OF assms(1)] IH_TYPE_MULTI_def IH_TYPE_SCRIPT_def)
  have u: "unat (of_nat (length cs) :: u32) = length cs"
    using multi_count_image(2) [OF assms(1,2)] by (simp add: unat_of_nat take_bit_eq_mod)
  have "foreach [0..<length cs] (\<lambda>i l. do { c \<leftarrow> image_multi_getimg r a (of_nat i); Some (l @ [c]) }) [] =
      Some (map (\<lambda>k. (part_at a cs k, of_nat (length (cs ! k)))) [0..<length cs])"
    using getimg_part [OF assms(1,2)] by (rule foreach_map)
  then show ?thesis
    using ty multi_count_image(1) [OF assms(1,2)] by (simp add: image_print_contents_def u)
qed

section \<open>Every image of the tool\<close>

lemma mkimage_multi:
  assumes "mk_payload files xflag type name = Some payload" "type = 4 \<or> type = 6"
  shows "\<exists>cs parts. map files (colon_parts name) = map Some cs \<and> parts_of xflag cs parts \<and> payload = multi_payload cs parts"
proof -
  obtain cs where cs: "all_some (map files (colon_parts name)) = Some cs" "mk_multi xflag cs = Some payload"
    using assms by (auto simp: mk_payload_def split: bind_splits)
  show ?thesis using all_some_is [OF cs(1)] multi_is [OF cs(2)] by blast
qed

lemma image_contents_some:
  assumes "image_at r a p payload f" "mk_payload files xflag (mk_type p) name = Some payload" "0 < mk_type p" "mk_type p < 8"
  shows "\<exists>l. image_print_contents r a = Some l"
proof (cases "mk_type p = 4 \<or> mk_type p = 6")
  case True
  then show ?thesis using mkimage_multi [OF assms(2)] contents_listed assms(1) by blast
next
  case False
  have "mk_type p \<in> {1, 2, 3, 5, 7}" using False assms(3,4) by auto
  then have "image_get_type (hdr_at r a) \<noteq> IH_TYPE_MULTI" "image_get_type (hdr_at r a) \<noteq> IH_TYPE_SCRIPT"
    by (auto simp: image_at_fields [OF assms(1)] IH_TYPE_MULTI_def IH_TYPE_SCRIPT_def)
  then show ?thesis using print_simple by blast
qed

lemma mkimage_at:
  assumes "mkimage files t args = Some (Mk_Image f)" "mk_args args mk_defaults = Some (Some (p, rest))"
    and "ram_bytes r a (length f) = f" "length f < 2 ^ 32"
  shows "\<exists>name payload. mk_datafile p = Some name \<and> 0 < mk_type p \<and> mk_type p < 8 \<and>
    mk_payload files (mk_xflag p) (mk_type p) name = Some payload \<and> image_at r a (mk_entry p) payload f"
proof -
  obtain name payload where *: "mk_datafile p = Some name" "0 < mk_type p" "mk_type p < 8"
      "mk_payload files (mk_xflag p) (mk_type p) name = Some payload"
      "image_set_header (mk_entry p) t (replicate 64 0 @ payload) = Some f"
    using mkimage_image [OF assms(1,2)] by blast
  have "length f = 64 + length payload" using *(5) by (auto simp: image_set_header_def Let_def split: bind_splits)
  then have "image_of (mk_entry p) payload f" using set_header_image [OF *(5)] assms(4) by simp
  then show ?thesis using * assms(3,4) by (auto simp: image_at_def)
qed

end
