(* ===== verification/ImageProps.thy ===== *)
theory ImageProps
  imports MkimageCorrect
begin

text \<open>
  The images of the tool and the boot loader together: an image that was written is accepted, its components are
  found, and no image with one byte that is different is accepted.
\<close>

section \<open>One byte that is different\<close>

lemma put_get_be32: "put_be32 (get_be32 [a, b, c, d]) = [a, b, c, d]"
  unfolding put_be32_def get_be32_def
  by (auto intro!: bit_word_eqI simp: bit_simps no_high_bit)

lemma get_l_change:
  assumes "i < length h" "h ! i \<noteq> x" "k \<le> i" "i < k + 4" "k + 4 \<le> length h"
  shows "image_get_hdr_l k (h[i := x]) \<noteq> image_get_hdr_l k h"
proof
  assume e: "image_get_hdr_l k (h[i := x]) = image_get_hdr_l k h"
  have "[h[i := x] ! k, h[i := x] ! (k + 1), h[i := x] ! (k + 2), h[i := x] ! (k + 3)] = [h ! k, h ! (k + 1), h ! (k + 2), h ! (k + 3)]"
    using arg_cong [OF e, of put_be32] assms(5) by (simp only: get_l_nth length_list_update put_get_be32)
  moreover have "i = k \<or> i = k + 1 \<or> i = k + 2 \<or> i = k + 3" using assms(3,4) by auto
  ultimately show False using assms(1,2) by auto
qed

lemma get_l_same:
  "k + 4 \<le> length h \<Longrightarrow> i < k \<or> k + 4 \<le> i \<Longrightarrow> image_get_hdr_l k (h[i := x]) = image_get_hdr_l k h"
  by (rule get_l_cong) auto

lemma set_l_update:
  assumes "k + 4 \<le> length h"
  shows "k \<le> i \<Longrightarrow> i < k + 4 \<Longrightarrow> image_set_hdr_l k v (h[i := x]) = image_set_hdr_l k v h"
    "i < k \<or> k + 4 \<le> i \<Longrightarrow> image_set_hdr_l k v (h[i := x]) = (image_set_hdr_l k v h)[i := x]"
  using assms by (cases "i < length h"; auto intro!: nth_equalityI simp: nth_set_l nth_list_update)+

text \<open>The header of a file with a byte that is different in it, and its data.\<close>

definition bad_header :: "byte list \<Rightarrow> bool" where
  "bad_header h \<longleftrightarrow> image_get_magic h \<noteq> IH_MAGIC \<or> crc_of (image_set_hcrc 0 h) \<noteq> image_get_hcrc h"

lemma header_changed:
  assumes "image_of p d f" "i < 64" "f ! i \<noteq> x"
  shows "bad_header (take 64 (f[i := x]))"
proof -
  let ?h = "take 64 f"
  have l: "length ?h = 64" using assms(1) by (simp add: image_of_def)
  have h: "image_get_magic ?h = IH_MAGIC" "crc_of (image_set_hcrc 0 ?h) = image_get_hcrc ?h"
    using assms(1) by (simp_all add: image_of_def get_l_take)
  have ne: "?h ! i \<noteq> x" using assms(2,3) by simp
  have "bad_header (?h[i := x])"
  proof (cases "4 \<le> i \<and> i < 8")
    case True
    then have "image_get_hcrc (?h[i := x]) \<noteq> image_get_hcrc ?h" using l ne by (intro get_l_change) simp_all
    moreover have "image_set_hcrc 0 (?h[i := x]) = image_set_hcrc 0 ?h" using True l by (intro set_l_update) simp_all
    ultimately show ?thesis using h by (simp add: bad_header_def)
  next
    case False
    have e: "image_set_hcrc 0 (?h[i := x]) = (image_set_hcrc 0 ?h)[i := x]"
      using set_l_update(2) [of 4 ?h i 0 x] False l by force
    have "image_set_hcrc 0 ?h ! i \<noteq> x" using False ne l assms(2) by (auto simp: nth_set_l)
    then have "crc_of (image_set_hcrc 0 (?h[i := x])) \<noteq> crc_of (image_set_hcrc 0 ?h)"
      unfolding e using l assms(2) by (intro crc_of_change) simp_all
    moreover have "image_get_hcrc (?h[i := x]) = image_get_hcrc ?h" using False l by (intro get_l_same) auto
    ultimately show ?thesis using h by (simp add: bad_header_def)
  qed
  then show ?thesis using assms(2) by (simp add: take_update_swap)
qed

lemma bad_header_rejected:
  assumes "bad_header (hdr_at r a)"
  shows "image_get_kernel r a v = Some False" "image_info r a = Some 1"
proof -
  have c: "image_check_hcrc (hdr_at r a) = Some (crc_of (image_set_hcrc 0 (hdr_at r a)) = image_get_hcrc (hdr_at r a))"
    by (simp add: image_check_hcrc_def crc32_of hdr_at_def)
  show "image_get_kernel r a v = Some False" "image_info r a = Some 1"
    using assms c
    by (auto simp: image_get_kernel_def image_info_def image_check_magic_def bad_header_def genimg_get_format_def
        IMAGE_FORMAT_LEGACY_def IMAGE_FORMAT_INVALID_def Let_def)
qed

lemma bad_data_rejected:
  assumes "image_check_magic (hdr_at r a)" "image_check_hcrc (hdr_at r a) = Some True" "image_check_dcrc r a = Some False"
    and "image_print_contents r a = Some l"
  shows "image_get_kernel r a True = Some False" "image_info r a = Some 1"
  using assms
  by (simp_all add: image_get_kernel_def image_info_def genimg_get_format_def Let_def)

lemma data_changed:
  assumes "image_of p d f" "64 \<le> i" "i < length f" "f ! i \<noteq> x" "ram_bytes r a (length f) = f[i := x]" "length f < 2 ^ 32"
    and "of_int (mk_type p) \<noteq> IH_TYPE_MULTI" "of_int (mk_type p) \<noteq> IH_TYPE_SCRIPT"
  shows "image_get_kernel r a True = Some False" "image_info r a = Some 1" "image_verify_header (f[i := x]) = Some False"
proof -
  let ?f = "f[i := x]"
  have st: "ram_bytes r a (length ?f) = ?f" using assms(5) by simp
  have len: "length f = 64 + length d" "drop 64 f = d" using assms(1) by (simp_all add: image_of_def)
  have hd: "take 64 ?f = take 64 f" using assms(2) by simp
  have hdr: "hdr_at r a = take 64 f" using ram_bytes_part [OF st, of 0 64] len hd by (simp add: hdr_at_def)
  have j: "i - 64 < length d" "d ! (i - 64) \<noteq> x" 
  proof -
    show "i - 64 < length d" using assms(2,3) len(1) by simp
    have "d ! (i - 64) = f ! i" unfolding len(2) [symmetric] using assms(2,3) by simp
    then show "d ! (i - 64) \<noteq> x" using assms(4) by simp
  qed
  have dd: "drop 64 ?f = d[i - 64 := x]" using assms(2) len by (simp add: drop_update_swap)
  have bytes: "ram_bytes r (image_get_data a) (length d) = d[i - 64 := x]"
    using ram_bytes_part [OF st, of 64 "length d"] len dd by (simp add: image_get_data_def HEADER_SIZE_def)
  have f: "image_get_magic (take 64 f) = IH_MAGIC" "image_get_dcrc (take 64 f) = crc_of d"
      "crc_of (image_set_hcrc 0 (take 64 f)) = image_get_hcrc (take 64 f)"
      "image_get_size (take 64 f) = of_nat (length d)" "image_get_type (take 64 f) = of_int (mk_type p)"
    using assms(1) by (simp_all add: image_of_def get_l_take get_b_take)
  have u: "unat (of_nat (length d) :: u32) = length d" using assms(6) len by (simp add: unat_of_nat take_bit_eq_mod)
  have ne: "crc_of (d[i - 64 := x]) \<noteq> crc_of d" using j by (rule crc_of_change)
  have m: "image_check_magic (hdr_at r a)" by (simp add: image_check_magic_def hdr f)
  have h: "image_check_hcrc (hdr_at r a) = Some True" using len by (simp add: image_check_hcrc_def hdr crc32_of f)
  have c: "image_check_dcrc r a = Some False"
    using ne by (simp add: image_check_dcrc_def ram_crc32_of hdr f u bytes)
  have pr: "image_print_contents r a = Some []" using assms(7,8) by (intro print_simple) (simp_all add: hdr f)
  show "image_get_kernel r a True = Some False" "image_info r a = Some 1"
    using bad_data_rejected [OF m h c pr] by simp_all
  have "crc32 ?f 0 64 (length ?f - 64) = Some (crc_of (d[i - 64 := x]))"
    using len dd by (subst crc32_of) simp_all
  then show "image_verify_header ?f = Some False"
    using ne len by (simp add: image_verify_header_def Let_def hd f crc32_of)
qed

section \<open>Images that are written and booted\<close>

lemma accepted_parts:
  assumes "mkimage files t args = Some (Mk_Image f)" "mk_args args mk_defaults = Some (Some (p, rest))"
    and "mk_arch p = 2" "ram_bytes r a (length f) = f" "length f < 2 ^ 32"
  shows "image_get_kernel r a verify = Some True" "image_info r a = Some 0" "image_verify_header f = Some True"
    "image_get_load (hdr_at r a) = mk_addr p"
    "image_get_ep (hdr_at r a) = (if mk_eflag p then mk_ep p else mk_addr p + (if mk_xflag p then 64 else 0))"
    "int (unat (image_get_type (hdr_at r a))) = mk_type p"
proof -
  obtain name payload where *: "mk_datafile p = Some name" "0 < mk_type p" "mk_type p < 8"
      "mk_payload files (mk_xflag p) (mk_type p) name = Some payload" "image_at r a (mk_entry p) payload f"
    using mkimage_at [OF assms(1,2,4,5)] by blast
  obtain l where l: "image_print_contents r a = Some l" using image_contents_some [OF *(5), of files "mk_xflag p" name] *(2-4) by auto
  have arm: "of_int (mk_arch (mk_entry p)) = IH_ARCH_ARM" using assms(3) by (simp add: IH_ARCH_ARM_def)
  show "image_get_kernel r a verify = Some True" by (rule kernel_accepted [OF *(5) l arm])
  show "image_info r a = Some 0" by (rule info_accepted [OF *(5) l])
  show "image_verify_header f = Some True" using *(5) by (auto simp: image_at_def intro: image_verifies)
  show "image_get_load (hdr_at r a) = mk_addr p"
    "image_get_ep (hdr_at r a) = (if mk_eflag p then mk_ep p else mk_addr p + (if mk_xflag p then 64 else 0))"
    by (simp_all add: image_at_fields [OF *(5)]) (simp add: mk_entry_def)
  have "mk_type p \<in> {1, 2, 3, 4, 5, 6, 7}" using *(2,3) by auto
  then show "int (unat (image_get_type (hdr_at r a))) = mk_type p" by (auto simp: image_at_fields [OF *(5)])
qed


definition ex_files :: "byte list \<Rightarrow> byte list option" where
  "ex_files name = (if name = [107] then Some [1, 2, 3, 4, 5] else if name = [114] then Some [9, 8] else None)"

definition ex_options :: "char list list \<Rightarrow> byte list list" where
  "ex_options tail = map txt_bytes ([''-A'', ''arm'', ''-C'', ''none'', ''-T''] @ tail)"

definition ex_params :: mk_params where
  "ex_params = mk_defaults\<lparr>mk_arch := 2, mk_comp := 0, mk_type := 2, mk_addr := 0x40008000, mk_datafile := Some [107],
     mk_dflag := True\<rparr>"

definition ex_multi :: mk_params where
  "ex_multi = mk_defaults\<lparr>mk_arch := 2, mk_comp := 0, mk_type := 4, mk_addr := 0x40008000, mk_datafile := Some [107, 58, 114],
     mk_dflag := True\<rparr>"

definition ex_kernel_args :: "byte list list" where
  "ex_kernel_args = ex_options [''kernel'', ''-a'', ''40008000'', ''-d'', ''k'', ''i'']"

definition ex_multi_args :: "byte list list" where
  "ex_multi_args = ex_options [''multi'', ''-a'', ''40008000'', ''-d'', ''k:r'', ''i'']"

lemma ex_args:
  "mk_args ex_kernel_args mk_defaults = Some (Some (ex_params, [[105]]))"
  "mk_args ex_multi_args mk_defaults = Some (Some (ex_multi, [[105]]))"
  unfolding ex_kernel_args_def ex_multi_args_def ex_params_def ex_multi_def by code_simp+

lemma ex_params_simps [simp]: "mk_arch ex_params = 2" "mk_type ex_params = 2" "mk_xflag ex_params = False"
  "mk_arch ex_multi = 2" "mk_type ex_multi = 4" "mk_xflag ex_multi = False"
  by (simp_all add: ex_params_def ex_multi_def mk_defaults_def)

text \<open>The file for the payload of an example.\<close>

definition image_file :: "mk_params \<Rightarrow> byte list \<Rightarrow> byte list" where
  "image_file p payload = the (image_set_header (mk_entry p) 0 (replicate 64 0 @ payload))"

lemma set_header_some:
  assumes "length d < 2 ^ 32"
  shows "image_set_header p t (replicate 64 0 @ d) = Some (the (image_set_header p t (replicate 64 0 @ d)))"
proof -
  have u: "unat (of_nat (length d) :: u32) = length d" using assms by (simp add: unat_of_nat take_bit_eq_mod)
  have "\<exists>f. image_set_header p t (replicate 64 0 @ d) = Some f"
    by (simp add: image_set_header_def Let_def u crc32_of)
  then show ?thesis by auto
qed

lemma ex_image: "length payload < 2 ^ 32 \<Longrightarrow> length (image_file p payload) = 64 + length payload"
  using set_header_image [OF set_header_some] by (simp add: image_file_def image_of_def)

lemma mkimage_is:
  assumes "mk_args args mk_defaults = Some (Some (p, [w]))" "0 < mk_type p" "mk_type p < 8" "\<not> image_check_params p"
    and "\<not> mk_lflag p" "mk_datafile p = Some name" "mk_payload files (mk_xflag p) (mk_type p) name = Some payload"
    and "length payload < 2 ^ 32"
  shows "mkimage files 0 args = Some (Mk_Image (image_file p payload))"
proof -
  have "image_set_header (mk_entry p) 0 (replicate 64 0 @ payload) = Some (image_file p payload)"
    using set_header_some [OF assms(8)] unfolding image_file_def .
  then show ?thesis using assms(1-7) by (simp add: mkimage_def Let_def flip: mk_entry_def)
qed

lemma ex_payload: "mk_payload ex_files False 2 [107] = Some [1, 2, 3, 4, 5]"
  "mk_payload ex_files False 4 [107, 58, 114] = Some [0, 0, 0, 5, 0, 0, 0, 2, 0, 0, 0, 0, 1, 2, 3, 4, 5, 0, 0, 0, 9, 8]"
  by code_simp+

lemma ex_kernel_file: "mkimage ex_files 0 ex_kernel_args = Some (Mk_Image (image_file ex_params [1, 2, 3, 4, 5]))"
  by (rule mkimage_is [OF ex_args(1), where name = "[107]"]) (simp_all add: ex_payload, simp_all add: ex_params_def mk_defaults_def image_check_params_def)

lemma ex_multi_file: "mkimage ex_files 0 ex_multi_args =
  Some (Mk_Image (image_file ex_multi [0, 0, 0, 5, 0, 0, 0, 2, 0, 0, 0, 0, 1, 2, 3, 4, 5, 0, 0, 0, 9, 8]))"
  by (rule mkimage_is [OF ex_args(2), where name = "[107, 58, 114]"]) (simp_all add: ex_payload, simp_all add: ex_multi_def mk_defaults_def image_check_params_def ex_payload)

lemma ram_put_bytes: "length f < 2 ^ 32 \<Longrightarrow> ram_bytes (ram_put r a f) a (length f) = f"
  using ram_bytes_ram_put [of 0 "length f" f r a] by simp


text \<open>Of an image with several components that \<^verbatim>\<open>mkimage\<close> writes from the files of its option \<^verbatim>\<open>-d\<close>, each
  component is found in memory: \<open>image_multi_getimg\<close> gives an address and the size of the file, and at the address is the
  file, whatever the sizes modulo four; beyond the last component it gives zeros. The list that \<^verbatim>\<open>iminfo\<close> and \<^verbatim>\<open>bootm\<close> print is
  the list of these.\<close>

theorem mkimage_components_found:
  assumes "mkimage files t args = Some (Mk_Image f)" "mk_args args mk_defaults = Some (Some (p, rest))"
    and "mk_type p = 4" "\<not> mk_xflag p" "ram_bytes r a (length f) = f" "length f < 2 ^ 32"
  shows "\<exists>name cs at. mk_datafile p = Some name \<and> map files (colon_parts name) = map Some cs \<and>
    image_print_contents r a = Some (map (\<lambda>k. (at k, of_nat (length (cs ! k)))) [0..<length cs]) \<and>
    (\<forall>k < length cs. image_multi_getimg r a (of_nat k) = Some (at k, of_nat (length (cs ! k))) \<and>
       ram_bytes r (at k) (length (cs ! k)) = cs ! k) \<and>
    (\<forall>k \<ge> of_nat (length cs). image_multi_getimg r a k = Some (0, 0))"
proof -
  obtain name payload where *: "mk_datafile p = Some name" "mk_payload files False 4 name = Some payload"
      "image_at r a (mk_entry p) payload f"
    using mkimage_at [OF assms(1,2,5,6)] assms(3,4) by auto
  obtain cs parts where cs: "map files (colon_parts name) = map Some cs" "parts_of False cs parts" "payload = multi_payload cs parts"
    using mkimage_multi [OF *(2)] by auto
  have im: "image_at r a (mk_entry p) (multi_payload cs parts) f" using *(3) cs(3) by simp
  have ty: "mk_type (mk_entry p) = 4 \<or> mk_type (mk_entry p) = 6" using assms(3) by simp
  show ?thesis
    using *(1) cs(1) contents_listed [OF im cs(2) ty] getimg_part [OF im cs(2)] part_bytes [OF im cs(2)] getimg_beyond [OF im cs(2)]
    by (intro exI [of _ name] exI [of _ cs] exI [of _ "part_at a cs"]) blast
qed

theorem mkimage_components_found_witness:
  "\<exists>f at. mkimage ex_files 0 ex_multi_args = Some (Mk_Image f) \<and>
     image_multi_getimg (ram_put (\<lambda>x. 0) 0x41000000 f) 0x41000000 1 = Some (at, 2) \<and>
     ram_bytes (ram_put (\<lambda>x. 0) 0x41000000 f) at 2 = [9, 8]"
proof -
  let ?f = "image_file ex_multi [0, 0, 0, 5, 0, 0, 0, 2, 0, 0, 0, 0, 1, 2, 3, 4, 5, 0, 0, 0, 9, 8]"
  let ?r = "ram_put (\<lambda>x. 0) 0x41000000 ?f"
  have l: "length ?f < 2 ^ 32" by (simp add: ex_image)
  have nx: "\<not> mk_xflag ex_multi" by simp
  obtain name cs at where *: "mk_datafile ex_multi = Some name" "map ex_files (colon_parts name) = map Some cs"
      "\<forall>k < length cs. image_multi_getimg ?r 0x41000000 (of_nat k) = Some (at k, of_nat (length (cs ! k))) \<and>
         ram_bytes ?r (at k) (length (cs ! k)) = cs ! k"
    using mkimage_components_found [OF ex_multi_file ex_args(2) ex_params_simps(5) nx ram_put_bytes [OF l, of "\<lambda>x. 0" "0x41000000"] l]
    by (elim exE conjE) (rule that; assumption)
  have "name = [107, 58, 114]" using *(1) by (simp add: ex_multi_def)
  then have "map Some cs = [Some [1, 2, 3, 4, 5], Some [9, 8]]" using *(2) by (simp add: ex_files_def)
  then have "cs = [[1, 2, 3, 4, 5], [9, 8]]" by auto
  then have "image_multi_getimg ?r 0x41000000 1 = Some (at 1, 2)" "ram_bytes ?r (at 1) 2 = [9, 8]"
    using spec [OF *(3), of 1] by (simp_all add: numeral_2_eq_2)
  then show ?thesis using ex_multi_file by blast
qed

lemma changed_parts:
  assumes "mkimage files t args = Some (Mk_Image f)" "mk_args args mk_defaults = Some (Some (p, rest))"
    and "mk_type p \<noteq> 4" "mk_type p \<noteq> 6" "i < length f" "f ! i \<noteq> x"
    and "ram_bytes r a (length f) = f[i := x]" "length f < 2 ^ 32"
  shows "image_get_kernel r a True = Some False" "image_info r a = Some 1"
    "i < 64 \<Longrightarrow> image_get_kernel r a verify = Some False" "image_verify_header (f[i := x]) = Some False"
proof -
  obtain name payload where *: "0 < mk_type p" "mk_type p < 8" "image_at (ram_put r a f) a (mk_entry p) payload f"
    using mkimage_at [OF assms(1,2) ram_put_bytes [OF assms(8)] assms(8)] by blast
  then have im: "image_of (mk_entry p) payload f" by (simp add: image_at_def)
  then have len: "length f = 64 + length payload" by (simp add: image_of_def)
  have "mk_type p \<in> {1, 2, 3, 5, 7}" using *(1,2) assms(3,4) by auto
  then have ty: "of_int (mk_type (mk_entry p)) \<noteq> IH_TYPE_MULTI" "of_int (mk_type (mk_entry p)) \<noteq> IH_TYPE_SCRIPT"
    by (auto simp: IH_TYPE_MULTI_def IH_TYPE_SCRIPT_def)
  have hdr: "hdr_at r a = take 64 (f[i := x])"
    using ram_bytes_part [of r a "f[i := x]" 0 64] assms(7) len by (simp add: hdr_at_def)
  have head: "bad_header (hdr_at r a)" if "i < 64"
    unfolding hdr by (rule header_changed [OF im that assms(6)])
  show "i < 64 \<Longrightarrow> image_get_kernel r a verify = Some False" using bad_header_rejected head by simp
  show "image_get_kernel r a True = Some False" "image_info r a = Some 1"
    using bad_header_rejected head data_changed(1,2) [OF im _ assms(5-8) ty] by (cases "i < 64"; simp)+
  show "image_verify_header (f[i := x]) = Some False"
  proof (cases "i < 64")
    case True
    then show ?thesis
      using head len unfolding hdr by (auto simp: bad_header_def image_verify_header_def Let_def crc32_of)
  next
    case False
    then show ?thesis using data_changed(3) [OF im _ assms(5-8) ty] by simp
  qed
qed



end
