(* ===== verification/BootProps.thy ===== *)
theory BootProps
  imports BootCorrect ImageProps
begin

text \<open>
  What \<^verbatim>\<open>bootm\<close> starts: a kernel without a header with a ramdisk that \<^verbatim>\<open>mkimage\<close> wrote, and a kernel image that
  \<^verbatim>\<open>mkimage\<close> wrote.
\<close>

section \<open>The ramdisk of a kernel without a header\<close>

lemma dash_cmp:
  assumes "0 \<notin> set x"
  shows "\<exists>c. str_cmp x [45] = Some c \<and> (c = 0 \<longleftrightarrow> x = [45])"
  using str_cmp_eq [OF assms, of "[45]"] by simp

lemma ramdisk_given:
  assumes "image_at r a p d f" "mk_arch p = 2" "mk_type p = 3" "mk_os p = 5" "hex_number w = Some a" "w \<noteq> [45]" "0 \<notin> set w"
    and "unat a + length f < 2 ^ 32"
  shows "boot_get_ramdisk [cmd, k, w] IH_ARCH_ARM r images = Some (False, a + 64, a + of_nat (length f))"
    and "a + 64 \<noteq> 0" "a + of_nat (length f) \<noteq> 0"
proof -
  obtain c where c: "str_cmp w [45] = Some c" "c \<noteq> 0" using dash_cmp [OF assms(7)] assms(6) by auto
  have ok: "image_get_ramdisk r a IH_ARCH_ARM v = Some True" for v
    by (rule ramdisk_accepted [OF assms(1)]) (simp_all add: assms(2-4) IH_ARCH_ARM_def IH_TYPE_RAMDISK_def IH_OS_LINUX_def)
  have len: "length f = 64 + length d" by (rule image_at_data [OF assms(1)])
  have u: "unat (a + of_nat n) = unat a + n" if "n \<le> length f" for n
    using that assms(8) by (simp add: unat_word_ariths(1) unat_of_small)
  have z: "a + of_nat n \<noteq> 0" if "n \<le> length f" "0 < n" for n
    using u [OF that(1)] that(2) by (metis add_is_0 less_not_refl unat_0)
  show "a + 64 \<noteq> 0" "a + of_nat (length f) \<noteq> 0" using z [of 64] z [of "length f"] len by simp_all
  then show "boot_get_ramdisk [cmd, k, w] IH_ARCH_ARM r images = Some (False, a + 64, a + of_nat (length f))"
    using c ok image_at_format [OF assms(1)] image_at_fields(7) [OF assms(1)] assms(5) len
    by (simp add: boot_get_ramdisk_def image_get_data_def HEADER_SIZE_def)
qed

lemma put_get_be: "get_be32 (put_be32 v) = v"
  using get_set_l [of 0 "replicate 4 0" v] by (simp add: image_get_hdr_l_def image_set_hdr_l_def put_be32_def)

text \<open>The header of a kernel without one, once its entry point and its system are written to it.\<close>

definition zimage_marked :: "u32 \<Rightarrow> ram \<Rightarrow> ram" where
  "zimage_marked k r = ram_put (ram_put r (k + 28) [IH_OS_LINUX]) (k + 20) (put_be32 k)"

lemma put_be32_length: "length (put_be32 v) = 4"
  by (simp add: put_be32_def)

lemma zimage_marked_hdr:
  "image_get_os (hdr_at (zimage_marked k r) k) = IH_OS_LINUX" "image_get_ep (hdr_at (zimage_marked k r) k) = k"
proof -
  have "ram_bytes (zimage_marked k r) (k + of_nat 20) 4 = put_be32 k"
    using ram_put_bytes [of "put_be32 k" "ram_put r (k + 28) [IH_OS_LINUX]" "k + 20"] by (simp add: zimage_marked_def put_be32_length)
  then have "take 4 (drop 20 (hdr_at (zimage_marked k r) k)) = put_be32 k"
    by (simp add: hdr_at_def drop_ram_bytes take_ram_bytes)
  then show "image_get_ep (hdr_at (zimage_marked k r) k) = k" by (simp add: image_get_hdr_l_def put_get_be)
  have "zimage_marked k r (k + 28) = IH_OS_LINUX"
    by (simp add: zimage_marked_def ram_put_def put_be32_length)
  then show "image_get_os (hdr_at (zimage_marked k r) k) = IH_OS_LINUX" by (simp add: hdr_at_def image_get_hdr_b_def)
qed

lemma zimage_marked_else:
  assumes "unat (x - k) \<notin> {20, 21, 22, 23, 28}"
  shows "zimage_marked k r x = r x"
proof -
  have a: "\<not> unat (x - (k + 20)) < 4"
  proof
    assume "unat (x - (k + 20)) < 4"
    then consider "unat (x - (k + 20)) = 0" | "unat (x - (k + 20)) = 1" | "unat (x - (k + 20)) = 2" | "unat (x - (k + 20)) = 3" by linarith
    then have "x - (k + 20) \<in> {0, 1, 2, 3}" by cases (simp_all add: word_unat_eq_iff)
    then have "x - k \<in> {20, 21, 22, 23}" by (auto simp: algebra_simps)
    then show False using assms by auto
  qed
  have b: "x \<noteq> k + 28" using assms by auto
  have "unat (x - (k + 28)) \<noteq> 0" using b by (simp add: unat_eq_0)
  then show ?thesis using a by (simp add: zimage_marked_def ram_put_def put_be32_length)
qed

text \<open>C7. A kernel without a header (\<^verbatim>\<open>zImage\<close>) at \<open>k\<close> and a ramdisk that \<^verbatim>\<open>mkimage\<close> wrote for Linux on ARM at \<open>a\<close>,
  which does not touch the bytes 20 to 28 of the kernel: \<^verbatim>\<open>bootm\<close> with their addresses starts Linux at \<open>k\<close>, with
  the machine number of the variable \<^verbatim>\<open>machid\<close> or of the board and the address of the tags. There is the
  list of tags for the memory of the board, the command line without its leading blanks, and the ramdisk
  without its header; no byte of memory outside of the list is changed but five of the first 32 of the kernel.\<close>

theorem zimage_boots:
  assumes "hex_number kw = Some k" "hex_number w = Some a" "w \<noteq> txt_bytes ''-''" "0 \<notin> set w" "is_zimage (bt_ram st) k"
    and "mkimage files t args = Some (Mk_Image f)" "mk_args args mk_defaults = Some (Some (p, rest))"
    and "mk_arch p = 2" "mk_type p = 3" "mk_os p = 5" "ram_bytes (bt_ram st) a (length f) = f" "unat a + length f < 2 ^ 32"
    and "\<And>i. i < length f \<Longrightarrow> 9 \<le> unat (a + of_nat i - (k + 20))"
    and "machine_id env st = Some machid" "nat (bo_nr_banks env) \<le> length (bo_dram env)"
    and "ts = linux_tags env (boot_var env ''bootargs'' st) (a + 64) (a + of_nat (length f))" "tags_len ts + 8 \<le> 2 ^ 31"
  shows "\<exists>st'. do_bootm env [cmd, kw, w] st = Some (st', Linux k machid (bo_boot_params env)) \<and>
    tags_at (bt_ram st') (bo_boot_params env) ts \<and> last ts = Initrd (a + 64) (of_nat (length f - 64)) \<and>
    (\<forall>x. tags_len ts + 8 \<le> unat (x - bo_boot_params env) \<longrightarrow> unat (x - k) \<notin> {20, 21, 22, 23, 28} \<longrightarrow>
       bt_ram st' x = bt_ram st x)"
proof -
  let ?r = "zimage_marked k (bt_ram st)"
  have kept: "?r (a + of_nat i) = bt_ram st (a + of_nat i)" if i: "i < length f" for i
  proof (rule zimage_marked_else)
    have o: "9 \<le> unat (a + of_nat i - k - 20)" using assms(13) [OF i] by (simp add: algebra_simps)
    show "unat (a + of_nat i - k) \<notin> {20, 21, 22, 23, 28}"
    proof
      assume "unat (a + of_nat i - k) \<in> {20, 21, 22, 23, 28}"
      then have "a + of_nat i - k \<in> {20, 21, 22, 23, 28}" by (auto simp: word_unat_eq_iff)
      then show False using o by auto
    qed
  qed
  have f: "ram_bytes ?r a (length f) = f" using ram_bytes_cong [of "length f" ?r a "bt_ram st"] kept assms(11) by simp
  have small: "length f < 2 ^ 32" using assms(12) by simp
  obtain payload where im: "image_at ?r a (mk_entry p) payload f" using mkimage_at [OF assms(6,7) f small] by blast
  have ty: "mk_arch (mk_entry p) = 2" "mk_type (mk_entry p) = 3" "mk_os (mk_entry p) = 5" using assms(8-10) by simp_all
  have w: "w \<noteq> [45]" using assms(3) by (simp add: txt_bytes_def)
  note rd = ramdisk_given [OF im ty assms(2) w assms(4,12)]
  define st1 where "st1 = st\<lparr>bt_ram := ?r, bt_images := (bt_images st)\<lparr>legacy_hdr_os_copy := hdr_at ?r k, legacy_hdr_os := k,
    legacy_hdr_valid := True, im_os := (im_os (bt_images st))\<lparr>os_os := IH_OS_LINUX\<rparr>, im_ep := k\<rparr>\<rparr>"
  have s1: "bt_ram st1 = ?r" "machine_id env st1 = machine_id env st" "boot_var env v st1 = boot_var env v st" "im_ep (bt_images st1) = k" for v
    by (simp_all add: st1_def machine_id_def boot_var_def)
  have run: "do_bootm env [cmd, kw, w] st = map_option (\<lambda>(st, how). (st, case how of Back ret \<Rightarrow> Restart | _ \<Rightarrow> how))
      (do_bootm_linux env 0 [cmd, kw, w] st1)"
    using assms(1,5) zimage_marked_hdr [of k "bt_ram st"]
    by (simp add: do_bootm_def boot_zimage_def after_header_check_def boot_os_def st1_def Let_def flip: zimage_marked_def)
  obtain r images where go: "do_bootm_linux env 0 [cmd, kw, w] st1 = Some (st1\<lparr>bt_ram := r, bt_images := images\<rparr>, Linux k machid (bo_boot_params env))"
      "tags_at r (bo_boot_params env) ts" "\<forall>x. tags_len ts + 8 \<le> unat (x - bo_boot_params env) \<longrightarrow> r x = ?r x"
    using linux_starts [of 0 env st1 machid "[cmd, kw, w]" False "a + 64" "a + of_nat (length f)" ts] rd(1) s1 assms(14-17)
    by (auto simp: does_flag_def)
  have "length f = 64 + length payload" by (rule image_at_data [OF im])
  then have "last ts = Initrd (a + 64) (of_nat (length f - 64))" using rd(2,3) by (simp add: assms(16) linux_tags_def initrd_tags_def)
  then show ?thesis using go(1,2) zimage_marked_else [of _ k "bt_ram st"] go(3)
    by (intro exI [of _ "st1\<lparr>bt_ram := r, bt_images := images\<rparr>"] conjI) (simp_all add: run)
qed

definition ex_ramdisk_args :: "byte list list" where
  "ex_ramdisk_args = ex_options [''ramdisk'', ''-d'', ''r'', ''i'']"

definition ex_ramdisk :: mk_params where
  "ex_ramdisk = mk_defaults\<lparr>mk_arch := 2, mk_comp := 0, mk_type := 3, mk_datafile := Some [114], mk_dflag := True\<rparr>"

lemma ex_ramdisk_args: "mk_args ex_ramdisk_args mk_defaults = Some (Some (ex_ramdisk, [[105]]))"
  unfolding ex_ramdisk_args_def ex_ramdisk_def by code_simp

lemma ex_ramdisk_simps: "mk_arch ex_ramdisk = 2" "mk_type ex_ramdisk = 3" "mk_os ex_ramdisk = 5"
  by (simp_all add: ex_ramdisk_def mk_defaults_def)

lemma ex_ramdisk_payload: "mk_payload ex_files False 3 [114] = Some [9, 8]"
  by code_simp

lemma ex_ramdisk_file: "mkimage ex_files 0 ex_ramdisk_args = Some (Mk_Image (image_file ex_ramdisk [9, 8]))"
  by (rule mkimage_is [OF ex_ramdisk_args, where name = "[114]"])
    (simp_all add: ex_ramdisk_simps, simp_all add: ex_ramdisk_def mk_defaults_def image_check_params_def ex_ramdisk_payload)

text \<open>A board with one bank of memory, a kernel without a header at \<^verbatim>\<open>0x40008000\<close> and the ramdisk at \<^verbatim>\<open>0x41000000\<close>.\<close>

definition ex_boot_env :: "unit boot_env" where
  "ex_boot_env = \<lparr>bo_getenv = (\<lambda>w n. if n = txt_bytes ''bootargs'' then Some (txt_bytes '' console=ttySAC2'') else None),
     bo_setenv = (\<lambda>n v w. w), bo_load_addr = 0, bo_arch_number = 2838, bo_boot_params = 0x40000100,
     bo_dram = [(0x40000000, 0x40000000)], bo_nr_banks = 1, bo_gunzip = (\<lambda>d m s n r. (r, None)), bo_hdr = 0\<rparr>"

definition ex_boot_ram :: ram where
  "ex_boot_ram = ram_put (ram_put (\<lambda>x. 0) 0x40008024 (put_le32 LINUX_ZIMAGE_MAGIC)) 0x41000000 (image_file ex_ramdisk [9, 8])"

theorem zimage_boots_witness:
  "\<exists>st'. do_bootm ex_boot_env [txt_bytes ''bootm'', txt_bytes ''40008000'', txt_bytes ''41000000'']
      \<lparr>bt_ram = ex_boot_ram, bt_world = (), bt_images = no_images\<rparr> = Some (st', Linux 0x40008000 2838 0x40000100) \<and>
    tags_at (bt_ram st') 0x40000100
      [Core, Mem 0x40000000 0x40000000, Cmdline (txt_bytes ''console=ttySAC2''), Initrd 0x41000040 2] \<and>
    ram_bytes (bt_ram st') 0x41000040 2 = [9, 8]"
proof -
  let ?f = "image_file ex_ramdisk [9, 8]" and ?st = "\<lparr>bt_ram = ex_boot_ram, bt_world = (), bt_images = no_images\<rparr>"
  let ?ts = "[Core, Mem 0x40000000 0x40000000, Cmdline (txt_bytes ''console=ttySAC2''), Initrd 0x41000040 2]"
  have l: "length ?f = 66" by (simp add: ex_image)
  have n: "hex_number (txt_bytes ''40008000'') = Some 0x40008000" "hex_number (txt_bytes ''41000000'') = Some 0x41000000" by code_simp+
  have w: "txt_bytes ''41000000'' \<noteq> txt_bytes ''-''" "0 \<notin> set (txt_bytes ''41000000'')" by (simp_all add: txt_bytes_def)
  have f: "ram_bytes (bt_ram ?st) 0x41000000 (length ?f) = ?f" using ram_put_bytes [of ?f] l by (simp add: ex_boot_ram_def)
  have z: "is_zimage (bt_ram ?st) 0x40008000"
    by (simp add: is_zimage_def ex_boot_ram_def ram_bytes_def upt_rec ram_put_def l put_le32_def LINUX_ZIMAGE_MAGIC_def get_le32_def)
  have o: "9 \<le> unat (0x41000000 + of_nat i - (0x40008000 + 20) :: u32)" if "i < length ?f" for i
  proof -
    have "unat (0xFF7FEC + of_nat i :: u32) = 0xFF7FEC + i" using that l by (simp add: unat_word_ariths(1) unat_of_small)
    then show ?thesis by (simp add: algebra_simps)
  qed
  have m: "machine_id ex_boot_env ?st = Some 2838"
    by (simp add: machine_id_def boot_var_def ex_boot_env_def txt_bytes_def)
  have ts: "?ts = linux_tags ex_boot_env (boot_var ex_boot_env ''bootargs'' ?st) (0x41000000 + 64) (0x41000000 + of_nat (length ?f))"
    by (simp add: linux_tags_def mem_tags_def cmd_tags_def initrd_tags_def boot_var_def ex_boot_env_def txt_bytes_def l)
  have c: "nat (bo_nr_banks ex_boot_env) \<le> length (bo_dram ex_boot_env)" "bo_boot_params ex_boot_env = 0x40000100"
    by (simp_all add: ex_boot_env_def)
  have tl: "tags_len ?ts = 80" by (simp add: txt_bytes_def)
  obtain st' where st': "do_bootm ex_boot_env [txt_bytes ''bootm'', txt_bytes ''40008000'', txt_bytes ''41000000''] ?st =
      Some (st', Linux 0x40008000 2838 0x40000100)" "tags_at (bt_ram st') 0x40000100 ?ts"
      "\<forall>x. tags_len ?ts + 8 \<le> unat (x - 0x40000100) \<longrightarrow> unat (x - 0x40008000) \<notin> {20, 21, 22, 23, 28} \<longrightarrow> bt_ram st' x = bt_ram ?st x"
    using zimage_boots [OF n w z ex_ramdisk_file ex_ramdisk_args ex_ramdisk_simps f _ o m c(1) ts] l tl unfolding c(2) by fastforce
  have "ram_bytes (bt_ram ?st) (0x41000000 + of_nat 64) 2 = take 2 (drop 64 ?f)" by (rule ram_bytes_part [OF f]) (simp add: l)
  also have "\<dots> = [9, 8]"
    using set_header_image [OF set_header_some, of "[9, 8]" "mk_entry ex_ramdisk" 0] by (simp add: image_file_def image_of_def)
  finally have "ram_bytes (bt_ram ?st) 0x41000040 2 = [9, 8]" by simp
  moreover have "bt_ram st' x = bt_ram ?st x" if "x = 0x41000040 \<or> x = 0x41000041" for x using st'(3) [rule_format, of x] that tl by auto
  ultimately have "ram_bytes (bt_ram st') 0x41000040 2 = [9, 8]" by (simp add: ram_bytes_def upt_rec)
  then show ?thesis using st'(1,2) by blast
qed

section \<open>A kernel with a header\<close>

lemma plain_number:
  assumes "simple_strtoul (w @ [0]) 0 16 = Some (a, length w)"
  shows "hex_number w = Some a" "is_subcommand [cmd, w] = Some False"
  using assms by (simp_all add: hex_number_def is_subcommand_def rd_def nth_append)

text \<open>What \<open>bootm_start\<close> keeps of an image of one component.\<close>

definition kernel_found :: "mk_params \<Rightarrow> u32 \<Rightarrow> u32 \<Rightarrow> bootm_headers \<Rightarrow> bool" where
  "kernel_found p a len images \<longleftrightarrow>
     legacy_hdr_valid images \<and> image_get_ep (legacy_hdr_os_copy images) = mk_ep p \<and>
     image_get_type (legacy_hdr_os_copy images) = IH_TYPE_KERNEL \<and> os_type (im_os images) = IH_TYPE_KERNEL \<and>
     os_comp (im_os images) = of_int (mk_comp p) \<and> os_load (im_os images) = mk_addr p \<and>
     os_image_start (im_os images) = a + 64 \<and> os_image_len (im_os images) = len \<and> os_start (im_os images) = a"

lemma start_kernel:
  assumes "image_at (bt_ram st) a p d f" "mk_arch p = 2" "mk_type p = 2" "hex_number w = Some a" "d \<noteq> []"
  shows "\<exists>st'. bootm_start env [cmd, w] st = Some (st', 0) \<and> bt_ram st' = bt_ram st \<and> bt_world st' = bt_world st \<and>
    kernel_found p a (of_nat (length d)) (bt_images st')"
proof -
  let ?r = "bt_ram st" and ?v = "getenv_yesno (boot_var env ''verify'' st)"
  note [simp] = image_at_fields(1-8) [OF assms(1)] image_at_format [OF assms(1)]
  have pr: "image_print_contents ?r a = Some []"
    by (rule print_simple) (simp_all add: assms(3) IH_TYPE_MULTI_def IH_TYPE_SCRIPT_def)
  have ok: "image_get_kernel ?r a ?v = Some True"
    by (rule kernel_accepted [OF assms(1) pr]) (simp add: assms(2) IH_ARCH_ARM_def)
  have n0: "(of_nat (length d) :: u32) \<noteq> 0"
    using image_at_fields(8) [OF assms(1)] assms(5) by (metis length_0_conv unat_0)
  let ?im = "no_images\<lparr>im_verify := ?v\<rparr>"
  let ?im1 = "(?im\<lparr>im_os := (im_os ?im)\<lparr>os_image_start := a + 64, os_image_len := of_nat (length d)\<rparr>\<rparr>)
    \<lparr>legacy_hdr_os_copy := hdr_at ?r a, legacy_hdr_os := a, legacy_hdr_valid := True\<rparr>"
  have k: "boot_get_kernel (bo_load_addr env) [cmd, w] ?r ?im = Some (?im1, a)"
    using ok assms(3,4) by (simp add: boot_get_kernel_def Let_def image_get_data_def HEADER_SIZE_def IH_TYPE_KERNEL_def)
  have rd: "boot_get_ramdisk [cmd, w] IH_ARCH_ARM ?r images = Some (False, 0, 0)"
    if "image_get_type (legacy_hdr_os_copy images) = 2" for images
    using that by (simp add: boot_get_ramdisk_def IH_TYPE_MULTI_def)
  show ?thesis
    using k n0 rd by (simp add: bootm_start_def Let_def set_image_def kernel_found_def assms(3) IH_TYPE_KERNEL_def)
qed

text \<open>Memory once the kernel is at its load address; it stays where it is when that is the address of the image or of the kernel in it.\<close>

definition kernel_loaded :: "u32 \<Rightarrow> u32 \<Rightarrow> byte list \<Rightarrow> ram \<Rightarrow> ram" where
  "kernel_loaded load a d r = (if load \<noteq> a \<and> load \<noteq> a + 64 then ram_put r load d else r)"

lemma load_kernel:
  assumes "image_at r a p d f" "kernel_found p a (of_nat (length d)) images" "mk_comp p = 0"
  shows "\<exists>ret \<in> {0, BOOTM_ERR_OVERLAP}. bootm_load_os env (im_os images) r = (kernel_loaded (mk_addr p) a d r, ret)"
proof -
  have "ram_bytes r (a + 64) (unat (of_nat (length d) :: u32)) = d"
    using image_at_payload [OF assms(1)] image_at_fields(8) [OF assms(1)] by (simp add: image_get_data_def HEADER_SIZE_def)
  then show ?thesis
    using assms(2,3) by (simp add: bootm_load_os_def kernel_loaded_def kernel_found_def Let_def IH_COMP_NONE_def)
qed

lemma uimage_loads:
  assumes "mkimage files t args = Some (Mk_Image f)" "mk_args args mk_defaults = Some (Some (p, rest))"
    and "mk_arch p = 2" "mk_type p = 2" "mk_comp p = 0" "ram_bytes (bt_ram st) a (length f) = f" "length f < 2 ^ 32" "64 < length f"
    and "simple_strtoul (w @ [0]) 0 16 = Some (a, length w)" "\<not> is_zimage (bt_ram st) a"
  shows "\<exists>images. kernel_found (mk_entry p) a (of_nat (length f - 64)) images \<and>
    do_bootm env [cmd, w] st = after_header_check env [cmd, w] (bo_hdr env)
      (st\<lparr>bt_ram := kernel_loaded (mk_addr p) a (drop 64 f) (bt_ram st), bt_images := images\<rparr>)"
proof -
  obtain d where im: "image_at (bt_ram st) a (mk_entry p) d f" using mkimage_at [OF assms(1,2,6,7)] by blast
  have d: "d = drop 64 f" "d \<noteq> []" "length f - 64 = length d" using image_at_data [OF im] assms(8) by auto
  note n = plain_number [OF assms(9)]
  have ty: "mk_arch (mk_entry p) = 2" "mk_type (mk_entry p) = 2" "mk_comp (mk_entry p) = 0" using assms(3-5) by simp_all
  obtain st1 where s1: "bootm_start env [cmd, w] st = Some (st1, 0)" "bt_ram st1 = bt_ram st" "bt_world st1 = bt_world st"
      "kernel_found (mk_entry p) a (of_nat (length d)) (bt_images st1)"
    using start_kernel [OF im ty(1,2) n(1) d(2), of env cmd] by blast
  obtain ret where ld: "ret \<in> {0, BOOTM_ERR_OVERLAP}"
      "bootm_load_os env (im_os (bt_images st1)) (bt_ram st) = (kernel_loaded (mk_addr p) a d (bt_ram st), ret)"
    using load_kernel [OF im s1(4) ty(3)] by auto
  have fnd: "legacy_hdr_valid (bt_images st1)" "os_type (im_os (bt_images st1)) = IH_TYPE_KERNEL"
    using s1(4) by (simp_all add: kernel_found_def)
  have "st1\<lparr>bt_ram := r\<rparr> = st\<lparr>bt_ram := r, bt_images := bt_images st1\<rparr>" for r
    using s1(3) by (cases st, cases st1) simp
  then have "do_bootm env [cmd, w] st = after_header_check env [cmd, w] (bo_hdr env)
      (st\<lparr>bt_ram := kernel_loaded (mk_addr p) a d (bt_ram st), bt_images := bt_images st1\<rparr>)"
    using n assms(10) s1(1,2) ld fnd
    by (auto simp: do_bootm_def BOOTM_ERR_OVERLAP_def BOOTM_ERR_RESET_def BOOTM_ERR_UNIMPLEMENTED_def IH_TYPE_KERNEL_def IH_TYPE_STANDALONE_def)
  then show ?thesis using s1(4) unfolding d(1,3) by blast
qed

lemma uimage_cases:
  assumes "mkimage files t args = Some (Mk_Image f)" "mk_args args mk_defaults = Some (Some (p, rest))"
    and "mk_arch p = 2" "mk_type p = 2" "mk_comp p = 0" "ram_bytes (bt_ram st) a (length f) = f" "length f < 2 ^ 32" "64 < length f"
    and "simple_strtoul (w @ [0]) 0 16 = Some (a, length w)" "\<not> is_zimage (bt_ram st) a"
    and "r = kernel_loaded (mk_addr p) a (drop 64 f) (bt_ram st)" "os = r (bo_hdr env + 28)"
  shows "\<lbrakk>os = IH_OS_LINUX; machine_id env st = Some machid; nat (bo_nr_banks env) \<le> length (bo_dram env);
      ts = linux_tags env (boot_var env ''bootargs'' st) 0 0; tags_len ts + 8 \<le> 2 ^ 31\<rbrakk> \<Longrightarrow>
      \<exists>st'. do_bootm env [cmd, w] st = Some (st', Linux (mk_ep (mk_entry p)) machid (bo_boot_params env)) \<and>
        tags_at (bt_ram st') (bo_boot_params env) ts \<and>
        (\<forall>x. tags_len ts + 8 \<le> unat (x - bo_boot_params env) \<longrightarrow> bt_ram st' x = r x)"
    and "os \<notin> {IH_OS_LINUX, IH_OS_NETBSD, IH_OS_RTEMS, IH_OS_VXWORKS, IH_OS_QNX} \<Longrightarrow> unat os < 19 \<Longrightarrow>
      \<exists>st'. do_bootm env [cmd, w] st = Some (st', Back 1) \<and> bt_ram st' = r"
    and "19 \<le> unat os \<Longrightarrow> do_bootm env [cmd, w] st = None"
proof -
  obtain images where im: "kernel_found (mk_entry p) a (of_nat (length f - 64)) images"
      "do_bootm env [cmd, w] st = after_header_check env [cmd, w] (bo_hdr env) (st\<lparr>bt_ram := r, bt_images := images\<rparr>)"
    using uimage_loads [OF assms(1-10)] unfolding assms(11) by blast
  have os: "image_get_os (hdr_at r (bo_hdr env)) = os" by (simp add: image_get_hdr_b_def hdr_at_def assms(12))
  define st1 where "st1 = st\<lparr>bt_ram := r, bt_images := images\<lparr>im_os := (im_os images)\<lparr>os_os := os\<rparr>, im_ep := mk_ep (mk_entry p)\<rparr>\<rparr>"
  have s1: "bt_ram st1 = r" "machine_id env st1 = machine_id env st" "boot_var env v st1 = boot_var env v st"
      "im_ep (bt_images st1) = mk_ep (mk_entry p)" for v
    by (simp_all add: st1_def machine_id_def boot_var_def)
  have run: "do_bootm env [cmd, w] st = do {
      boot_fn \<leftarrow> boot_os env os;
      (case boot_fn of None \<Rightarrow> Some (st1, Back 1)
       | Some boot_fn \<Rightarrow> map_option (\<lambda>(st, how). (st, case how of Back ret \<Rightarrow> Restart | _ \<Rightarrow> how)) (boot_fn 0 [cmd, w] st1)) }"
    unfolding st1_def using im by (simp add: after_header_check_def Let_def os kernel_found_def)
  {
    assume linux: "os = IH_OS_LINUX" "machine_id env st = Some machid" "nat (bo_nr_banks env) \<le> length (bo_dram env)"
      "ts = linux_tags env (boot_var env ''bootargs'' st) 0 0" "tags_len ts + 8 \<le> 2 ^ 31"
    have "boot_get_ramdisk [cmd, w] IH_ARCH_ARM (bt_ram st1) (bt_images st1) = Some (False, 0, 0)"
      using im(1) by (simp add: boot_get_ramdisk_def st1_def kernel_found_def IH_TYPE_KERNEL_def IH_TYPE_MULTI_def)
    then obtain r' images' where "do_bootm_linux env 0 [cmd, w] st1 =
        Some (st1\<lparr>bt_ram := r', bt_images := images'\<rparr>, Linux (mk_ep (mk_entry p)) machid (bo_boot_params env))"
        "tags_at r' (bo_boot_params env) ts" "\<forall>x. tags_len ts + 8 \<le> unat (x - bo_boot_params env) \<longrightarrow> r' x = r x"
      using linux_starts [of 0 env st1 machid "[cmd, w]" False 0 0 ts] linux(2-5) s1 by (auto simp: does_flag_def)
    then show "\<exists>st'. do_bootm env [cmd, w] st = Some (st', Linux (mk_ep (mk_entry p)) machid (bo_boot_params env)) \<and>
        tags_at (bt_ram st') (bo_boot_params env) ts \<and>
        (\<forall>x. tags_len ts + 8 \<le> unat (x - bo_boot_params env) \<longrightarrow> bt_ram st' x = r x)"
      using linux(1) by (intro exI [of _ "st1\<lparr>bt_ram := r', bt_images := images'\<rparr>"] conjI) (simp_all add: run boot_os_def)
  }
  show "os \<notin> {IH_OS_LINUX, IH_OS_NETBSD, IH_OS_RTEMS, IH_OS_VXWORKS, IH_OS_QNX} \<Longrightarrow> unat os < 19 \<Longrightarrow>
      \<exists>st'. do_bootm env [cmd, w] st = Some (st', Back 1) \<and> bt_ram st' = r"
    by (simp add: run boot_os_def s1)
  show "do_bootm env [cmd, w] st = None" if "19 \<le> unat os"
  proof -
    have "os \<notin> {IH_OS_LINUX, IH_OS_NETBSD, IH_OS_RTEMS, IH_OS_VXWORKS, IH_OS_QNX}"
      using that by (auto simp: IH_OS_LINUX_def IH_OS_NETBSD_def IH_OS_RTEMS_def IH_OS_VXWORKS_def IH_OS_QNX_def)
    then show ?thesis using that by (simp add: run boot_os_def)
  qed
qed

lemma name_bytes:
  assumes "image_set_header p t (replicate 64 0 @ d) = Some f" "32 \<le> i" "i < 64"
  shows "f ! i = (mk_imagename p @ replicate 32 0) ! (i - 32)"
proof -
  obtain g c where f: "f = image_set_hcrc c (image_set_name (mk_imagename p) g)" "64 \<le> length g"
    using assms(1) by (auto simp: image_set_header_def Let_def bind_eq_Some_conv)
  have "f ! i = image_set_name (mk_imagename p) g ! i" unfolding f(1) using f(2) assms(2,3) by (subst nth_set_l) simp_all
  also have "\<dots> = (mk_imagename p @ replicate 32 0) ! (i - 32)"
    using f(2) assms(2,3) by (auto simp: image_set_name_def nth_append min_def)
  finally show ?thesis .
qed

text \<open>C8. A kernel image that \<^verbatim>\<open>mkimage\<close> wrote for ARM, not compressed, that is not taken for a kernel without a header: \<^verbatim>\<open>bootm\<close>
  with its address copies the kernel to its load address, and then takes the system that is started from the byte 28
  behind a pointer that is never set on this way (\<open>bo_hdr\<close>: what the variable \<open>hdr\<close> holds). When the byte says
  Linux, Linux is started at the entry point of the image with the tags for the memory and the command line, and
  no byte outside of the list and the kernel is changed; when it says a system without a function, the command reports that
  and returns 1; when it is not below the size of the table, the call goes through a pointer behind the table (no result).\<close>

theorem uimage_boots:
  assumes "mkimage files t args = Some (Mk_Image f)" "mk_args args mk_defaults = Some (Some (p, rest))"
    and "mk_arch p = 2" "mk_type p = 2" "mk_comp p = 0" "ram_bytes (bt_ram st) a (length f) = f" "length f < 2 ^ 32" "64 < length f"
    and "simple_strtoul (w @ [0]) 0 16 = Some (a, length w)" "\<not> is_zimage (bt_ram st) a"
    and "r = kernel_loaded (mk_addr p) a (drop 64 f) (bt_ram st)" "os = r (bo_hdr env + 28)"
  shows "(os = IH_OS_LINUX \<longrightarrow> machine_id env st = Some machid \<longrightarrow> nat (bo_nr_banks env) \<le> length (bo_dram env) \<longrightarrow>
      ts = linux_tags env (boot_var env ''bootargs'' st) 0 0 \<longrightarrow> tags_len ts + 8 \<le> 2 ^ 31 \<longrightarrow>
      (\<exists>st'. do_bootm env [cmd, w] st = Some (st', Linux (mk_ep (mk_entry p)) machid (bo_boot_params env)) \<and>
        tags_at (bt_ram st') (bo_boot_params env) ts \<and>
        (\<forall>x. tags_len ts + 8 \<le> unat (x - bo_boot_params env) \<longrightarrow> bt_ram st' x = r x))) \<and>
    (os \<notin> {IH_OS_LINUX, IH_OS_NETBSD, IH_OS_RTEMS, IH_OS_VXWORKS, IH_OS_QNX} \<longrightarrow> unat os < 19 \<longrightarrow>
      (\<exists>st'. do_bootm env [cmd, w] st = Some (st', Back 1) \<and> bt_ram st' = r)) \<and>
    (19 \<le> unat os \<longrightarrow> do_bootm env [cmd, w] st = None)"
  by (intro conjI impI uimage_cases [OF assms])

theorem uimage_boots_witness:
  "\<exists>f st'. mkimage ex_files 0 ex_kernel_args = Some (Mk_Image f) \<and>
    do_bootm (ex_boot_env\<lparr>bo_hdr := 0x41000000\<rparr>) [txt_bytes ''bootm'', txt_bytes ''41000000'']
      \<lparr>bt_ram = ram_put (\<lambda>x. 0) 0x41000000 f, bt_world = (), bt_images = no_images\<rparr> = Some (st', Linux 0x40008000 2838 0x40000100) \<and>
    tags_at (bt_ram st') 0x40000100 [Core, Mem 0x40000000 0x40000000, Cmdline (txt_bytes ''console=ttySAC2'')] \<and>
    bt_ram st' 0x40008004 = 5"
proof -
  let ?f = "image_file ex_params [1, 2, 3, 4, 5]" and ?env = "ex_boot_env\<lparr>bo_hdr := 0x41000000\<rparr>"
  let ?st = "\<lparr>bt_ram = ram_put (\<lambda>x. 0) 0x41000000 ?f, bt_world = (), bt_images = no_images\<rparr>"
  let ?ts = "[Core, Mem 0x40000000 0x40000000, Cmdline (txt_bytes ''console=ttySAC2'')]"
  let ?r = "kernel_loaded (mk_addr ex_params) 0x41000000 (drop 64 ?f) (bt_ram ?st)"
  have l: "length ?f = 69" by (simp add: ex_image)
  have h: "image_set_header (mk_entry ex_params) 0 (replicate 64 0 @ [1, 2, 3, 4, 5]) = Some ?f"
    using set_header_some [of "[1, 2, 3, 4, 5]"] by (simp add: image_file_def)
  then have im: "image_of (mk_entry ex_params) [1, 2, 3, 4, 5] ?f" by (rule set_header_image) simp
  have p: "mk_comp ex_params = 0" "mk_addr ex_params = 0x40008000" "mk_ep (mk_entry ex_params) = 0x40008000" "mk_os ex_params = 5"
    by (simp_all add: ex_params_def mk_defaults_def mk_entry_def)
  have f: "ram_bytes (bt_ram ?st) 0x41000000 (length ?f) = ?f" using ram_put_bytes [of ?f] l by simp
  have n: "simple_strtoul (txt_bytes ''41000000'' @ [0]) 0 16 = Some (0x41000000, length (txt_bytes ''41000000''))" by code_simp
  have name: "?f ! i = 0" if "32 \<le> i" "i < 64" for i
  proof -
    have "mk_imagename (mk_entry ex_params) = []" by (simp add: mk_entry_def ex_params_def mk_defaults_def)
    then have "?f ! i = (replicate 32 0 :: byte list) ! (i - 32)" using name_bytes [OF h that] by simp
    also have "\<dots> = 0" using that by (intro nth_replicate) simp
    finally show ?thesis .
  qed
  have z: "\<not> is_zimage (bt_ram ?st) 0x41000000"
  proof -
    have "ram_bytes (bt_ram ?st) (0x41000000 + of_nat 36) 4 = take 4 (drop 36 ?f)" by (rule ram_bytes_part [OF f]) (simp add: l)
    also have "\<dots> = replicate 4 0" using name l by (intro nth_equalityI) simp_all
    also have "\<dots> = [0, 0, 0, 0 :: byte]" by (simp add: numeral_eq_Suc)
    finally have "ram_bytes (bt_ram ?st) 0x41000024 4 = [0, 0, 0, 0]" by simp
    then show ?thesis by (simp add: is_zimage_def get_le32_def LINUX_ZIMAGE_MAGIC_def)
  qed
  have d: "drop 64 ?f = [1, 2, 3, 4, 5]" using im by (simp add: image_of_def)
  have os: "IH_OS_LINUX = ?r (bo_hdr ?env + 28)"
  proof -
    have "?r (bo_hdr ?env + 28) = ?f ! 28"
      using l by (simp add: kernel_loaded_def p d ram_put_def)
    also have "\<dots> = 5" using im p by (simp add: image_of_def image_get_hdr_b_def)
    finally show ?thesis by (simp add: IH_OS_LINUX_def)
  qed
  have m: "machine_id ?env ?st = Some 2838"
    by (simp add: machine_id_def boot_var_def ex_boot_env_def txt_bytes_def)
  have ts: "?ts = linux_tags ?env (boot_var ?env ''bootargs'' ?st) 0 0"
    by (simp add: linux_tags_def mem_tags_def cmd_tags_def initrd_tags_def boot_var_def ex_boot_env_def txt_bytes_def)
  have c: "nat (bo_nr_banks ?env) \<le> length (bo_dram ?env)" "bo_boot_params ?env = 0x40000100"
    by (simp_all add: ex_boot_env_def)
  have tl: "tags_len ?ts + 8 \<le> 2 ^ 31" "tags_len ?ts = 64" by (simp_all add: txt_bytes_def)
  have small: "length ?f < 2 ^ 32" "64 < length ?f" by (simp_all add: l)
  obtain st' where st': "do_bootm ?env [txt_bytes ''bootm'', txt_bytes ''41000000''] ?st = Some (st', Linux 0x40008000 2838 0x40000100)"
      "tags_at (bt_ram st') 0x40000100 ?ts" "\<forall>x. tags_len ?ts + 8 \<le> unat (x - 0x40000100) \<longrightarrow> bt_ram st' x = ?r x"
    using uimage_boots [OF ex_kernel_file ex_args(1) ex_params_simps(1,2) p(1) f small n z refl os, THEN conjunct1, rule_format,
        OF refl m c(1) ts tl(1), of "txt_bytes ''bootm''"] unfolding c(2) p(3) by blast
  have "bt_ram st' 0x40008004 = ?r 0x40008004" using st'(3) [rule_format, of "0x40008004"] tl(2) by simp
  then have "bt_ram st' 0x40008004 = 5" by (simp add: kernel_loaded_def p d ram_put_def)
  then show ?thesis using ex_kernel_file st'(1,2) by blast
qed

section \<open>The sub-commands\<close>

lemma go_word: "find_cmd_tbl (txt_bytes ''go'') cmd_bootm_sub = Some (Some 5)" "hex_number (txt_bytes ''go'') = Some 0"
  "is_subcommand [cmd, txt_bytes ''go''] = Some True"
  unfolding is_subcommand_def cmd_bootm_sub_def bootm_sub_def by code_simp+

text \<open>The sub-command \<^verbatim>\<open>go\<close> starts Linux without a ramdisk, also when \<^verbatim>\<open>start\<close> found one, and whether or
  not the kernel was loaded: the ramdisk is searched again with the arguments of \<^verbatim>\<open>go\<close>, which has none.\<close>

lemma go_without_ramdisk:
  assumes "\<not> is_zimage (bt_ram st) 0" "im_state (bt_images st) < BOOTM_STATE_OS_GO" "os_os (im_os (bt_images st)) = IH_OS_LINUX"
    and "image_get_type (legacy_hdr_os_copy (bt_images st)) \<noteq> IH_TYPE_MULTI"
    and "machine_id env st = Some machid" "nat (bo_nr_banks env) \<le> length (bo_dram env)"
    and "ts = linux_tags env (boot_var env ''bootargs'' st) 0 0" "tags_len ts + 8 \<le> 2 ^ 31"
  shows "\<exists>st'. do_bootm env [cmd, txt_bytes ''go''] st = Some (st', Linux (im_ep (bt_images st)) machid (bo_boot_params env)) \<and>
    tags_at (bt_ram st') (bo_boot_params env) ts \<and> im_rd_start (bt_images st') = 0"
proof -
  define st1 where "st1 = st\<lparr>bt_images := (bt_images st)\<lparr>im_state := im_state (bt_images st) OR BOOTM_STATE_OS_GO\<rparr>\<rparr>"
  have s1: "bt_ram st1 = bt_ram st" "machine_id env st1 = machine_id env st" "boot_var env v st1 = boot_var env v st"
      "im_ep (bt_images st1) = im_ep (bt_images st)" "os_os (im_os (bt_images st1)) = IH_OS_LINUX" for v
    by (simp_all add: st1_def machine_id_def boot_var_def assms(3))
  have "boot_get_ramdisk [cmd, txt_bytes ''go''] IH_ARCH_ARM (bt_ram st1) (bt_images st1) = Some (False, 0, 0)"
    using assms(4) by (simp add: boot_get_ramdisk_def st1_def)
  then obtain r where go: "do_bootm_linux env BOOTM_STATE_OS_GO [cmd, txt_bytes ''go''] st1 =
      Some (st1\<lparr>bt_ram := r, bt_images := (bt_images st1)\<lparr>im_rd_start := 0, im_rd_end := 0\<rparr>\<rparr>, Linux (im_ep (bt_images st)) machid (bo_boot_params env))"
      "tags_at r (bo_boot_params env) ts"
    using linux_starts [of BOOTM_STATE_OS_GO env st1 machid "[cmd, txt_bytes ''go'']" False 0 0 ts] assms(5-8) s1 by (auto simp: does_flag_def)
  have "cmd_fn (cmd_bootm_sub ! 5) = BOOTM_STATE_OS_GO" by (simp add: cmd_bootm_sub_def bootm_sub_def)
  then have "do_bootm env [cmd, txt_bytes ''go''] st = do_bootm_linux env BOOTM_STATE_OS_GO [cmd, txt_bytes ''go''] st1"
    using assms(1-3) go(1)
    by (simp add: do_bootm_def go_word do_bootm_subcommand_def boot_os_def Let_def leD BOOTM_STATE_OS_GO_def BOOTM_STATE_START_def
        BOOTM_STATE_LOADOS_def flip: st1_def [unfolded BOOTM_STATE_OS_GO_def])
  then show ?thesis using go
    by (intro exI [of _ "st1\<lparr>bt_ram := r, bt_images := (bt_images st1)\<lparr>im_rd_start := 0, im_rd_end := 0\<rparr>\<rparr>"]) simp
qed

end
